(* ===== verification/Prelude.thy ===== *)
theory Prelude
  imports
    "HOL-Library.AList"
    "HOL-Library.Char_ord"
    "HOL-Library.List_Lexorder"
    "HOL-Library.Multiset"
    "HOL-Library.Word"
begin

text \<open>
  Shared vocabulary of the development.

  A Go string and a Go byte slice are both a \<^typ>\<open>string\<close> (a list of bytes); the order on
  strings is the lexicographic order of \<open>List_Lexorder\<close>, which is the order of Go's \<open><\<close> on strings
  and of \<open>bytes.Compare\<close>.  A nil slice and an empty slice are the same value \<^term>\<open>[]\<close>.

  A Go map is an association list without duplicate keys (\<open>gm_wf\<close>): the list order stands for the
  iteration order, which Go leaves unspecified; operations whose result depends on that order take it
  as an argument.  A 64-bit signed integer is an \<^typ>\<open>int\<close>; the places where the width is visible
  (hashing, byte codecs) use words.

  The collections \<open>gomap_simps\<close>, \<open>wf_intros\<close> and \<open>model_simps\<close> carry the facts that the component
  proofs hand to the simplifier.
\<close>

section \<open>Collections\<close>

named_theorems gomap_simps \<open>lookup laws of Go maps\<close>
named_theorems wf_intros \<open>preservation of well-formedness\<close>
named_theorems model_simps \<open>characteristic equations of modelled operations\<close>

section \<open>Go maps as association lists\<close>

type_synonym ('k, 'v) gomap = "('k \<times> 'v) list"

abbreviation gm_get :: "('k, 'v) gomap \<Rightarrow> 'k \<Rightarrow> 'v option" where
  "gm_get m k \<equiv> map_of m k"

abbreviation gm_set :: "'k \<Rightarrow> 'v \<Rightarrow> ('k, 'v) gomap \<Rightarrow> ('k, 'v) gomap" where
  "gm_set k v m \<equiv> AList.update k v m"

abbreviation gm_del :: "'k \<Rightarrow> ('k, 'v) gomap \<Rightarrow> ('k, 'v) gomap" where
  "gm_del k m \<equiv> AList.delete k m"

abbreviation gm_wf :: "('k, 'v) gomap \<Rightarrow> bool" where
  "gm_wf m \<equiv> distinct (map fst m)"

text \<open>Lookups stay lookups: membership in the entry list is never the normal form.\<close>

declare map_of_eq_Some_iff [simp del] Some_eq_map_of_iff [simp del]

lemma gm_wf_set [wf_intros, simp]: "gm_wf m \<Longrightarrow> gm_wf (gm_set k v m)"
  by (rule distinct_update)

lemma gm_wf_del [wf_intros, simp]: "gm_wf m \<Longrightarrow> gm_wf (gm_del k m)"
  by (rule distinct_delete)

lemma gm_get_set [gomap_simps]: "gm_get (gm_set k v m) k' = (if k' = k then Some v else gm_get m k')"
  by (simp add: update_conv')

lemma gm_get_del [gomap_simps]: "gm_get (gm_del k m) k' = (if k' = k then None else gm_get m k')"
  by (simp add: delete_conv')

lemma gm_set_entries:
  assumes "gm_wf m"
  shows "(k, v) \<in> set m \<longleftrightarrow> gm_get m k = Some v"
  using assms by (simp add: map_of_eq_Some_iff)

text \<open>
  An iteration order of a Go map: any rearrangement of the entries.
\<close>

definition iteration_order :: "('a list \<Rightarrow> 'a list) \<Rightarrow> bool" where
  "iteration_order order \<longleftrightarrow> (\<forall>xs. mset (order xs) = mset xs)"

lemma iteration_orderD [simp]:
  assumes "iteration_order order"
  shows "set (order xs) = set xs" "distinct (order xs) = distinct xs" "length (order xs) = length xs"
  using assms unfolding iteration_order_def
  by (metis mset_eq_setD, metis mset_eq_imp_distinct_iff, metis mset_eq_length)

lemma iteration_order_id [simp]: "iteration_order (\<lambda>xs. xs)" "iteration_order rev"
  by (simp_all add: iteration_order_def)

section \<open>Sorting by key\<close>

text \<open>
  \<open>sort.Slice\<close> with a comparison of keys, on entries whose keys are distinct, has one result: the
  strictly increasing enumeration.
\<close>

lemma sorted_key_unique:
  assumes "sorted (map f xs)" "sorted (map f ys)" "set xs = set ys"
    and "inj_on f (set xs)" "distinct xs" "distinct ys"
  shows "xs = ys"
proof -
  have dx: "distinct (map f xs)" and dy: "distinct (map f ys)"
    using assms by (auto simp: distinct_map)
  have "set (map f xs) = set (map f ys)"
    using assms(3) by simp
  with dx dy assms(1,2) have "map f xs = map f ys"
    by (metis sorted_distinct_set_unique)
  moreover have "inj_on f (set xs \<union> set ys)"
    using assms(3,4) by simp
  ultimately show ?thesis
    by (rule map_inj_on)
qed

lemma sort_key_unique:
  assumes "set xs = set ys" "inj_on f (set xs)" "distinct xs" "distinct ys"
  shows "sort_key f xs = sort_key f ys"
  using assms by (intro sorted_key_unique [where f = f]) auto

section \<open>Key ranges\<close>

text \<open>
  The half-open key interval of every range operation: a range end of one zero byte means "no upper
  bound".
\<close>

definition zero_byte :: string where
  "zero_byte = [CHR 0x00]"

definition in_key_range :: "string \<Rightarrow> string \<Rightarrow> string \<Rightarrow> bool" where
  "in_key_range k startKey endKey \<longleftrightarrow> startKey \<le> k \<and> (endKey = zero_byte \<or> k < endKey)"

subsection \<open>Prefixes in the order of strings\<close>

lemma prefix_le: "p \<le> p @ (s :: string)"
  by (induction p) simp_all

lemma between_prefixes: "p \<le> k \<Longrightarrow> k \<le> p @ t \<Longrightarrow> \<exists>s. k = p @ (s :: string)"
proof (induction p arbitrary: k)
  case (Cons a p)
  obtain b k' where k: "k = b # k'" using Cons.prems(1) by (cases k) auto
  then have "b = a \<and> p \<le> k' \<and> k' \<le> p @ t" using Cons.prems by auto
  then show ?case using Cons.IH k by auto
qed simp

end
