(* ===== verification/KV_Types.thy ===== *)
theory KV_Types
  imports Prelude
begin

text \<open>
  The shared data types of the engines, from \<open>internal/kvstore/types.go\<close>: key-value pairs with their
  revisions, watch events and options, transaction comparisons and operations with their responses,
  leases with their expiry arithmetic, and the Raft status.

  Instants and durations are integers in nanoseconds.  The current time is an argument of every
  operation that reads the clock.  \<open>Seconds()\<close> is exact here, where Go rounds it to a \<open>float64\<close>.
\<close>

section \<open>Key-value pairs and watch events\<close>

record key_value =
  kv_Key :: string
  kv_Value :: string
  kv_CreateRevision :: int
  kv_ModRevision :: int
  kv_Version :: int
  kv_Lease :: int

datatype event_type = EventTypePut | EventTypeDelete

record watch_event =
  we_Type :: event_type
  we_Kv :: "key_value option"
  we_PrevKv :: "key_value option"
  we_Revision :: int

datatype watch_filter_type = FilterNone | FilterNoPut | FilterNoDelete

record watch_options =
  wo_PrevKV :: bool
  wo_ProgressNotify :: bool
  wo_Filters :: "watch_filter_type list"
  wo_Fragment :: bool

section \<open>Transactions\<close>

text \<open>
  The Go enumerations are open integers; the last constructor of each datatype stands for every
  integer the source gives no name (and, for \<open>op_type\<close>, \<open>OpTxn\<close> keeps its own name although no
  operation handles it).
\<close>

datatype compare_target =
  CompareVersion | CompareCreate | CompareMod | CompareValue | CompareLease | CompareTargetOther int

datatype compare_result =
  CompareEqual | CompareGreater | CompareLess | CompareNotEqual | CompareResultOther int

record compare_union =
  cu_Version :: int
  cu_CreateRevision :: int
  cu_ModRevision :: int
  cu_Value :: string
  cu_Lease :: int

record compare =
  cmp_Target :: compare_target
  cmp_Result :: compare_result
  cmp_Key :: string
  cmp_TargetUnion :: compare_union

datatype op_type = OpRange | OpPut | OpDelete | OpTxn | OpTypeOther int

record op =
  op_Type :: op_type
  op_Key :: string
  op_RangeEnd :: string
  op_Value :: string
  op_Limit :: int
  op_LeaseID :: int

record range_response =
  rr_Kvs :: "key_value list"
  rr_More :: bool
  rr_Count :: int
  rr_Revision :: int

record put_response =
  pr_PrevKv :: "key_value option"
  pr_Revision :: int

record delete_response =
  dr_Deleted :: int
  dr_PrevKvs :: "key_value list"
  dr_Revision :: int

record op_response =
  or_Type :: op_type
  or_RangeResp :: "range_response option"
  or_PutResp :: "put_response option"
  or_DeleteResp :: "delete_response option"

record txn_response =
  tr_Succeeded :: bool
  tr_Responses :: "op_response list"
  tr_Revision :: int

text \<open>The zero value of an \<open>OpResponse\<close>, which \<open>make([]OpResponse, n)\<close> fills a slice with.\<close>

definition zero_op_response :: op_response where
  "zero_op_response = \<lparr>or_Type = OpRange, or_RangeResp = None, or_PutResp = None, or_DeleteResp = None\<rparr>"

section \<open>Leases\<close>

record lease =
  ls_ID :: int
  ls_TTL :: int
  ls_GrantTime :: int
  ls_Keys :: "string list"

definition nanos_per_second :: int where
  "nanos_per_second = 1000000000"

text \<open>A nil lease pointer is \<^const>\<open>None\<close>.\<close>

definition IsExpired :: "int \<Rightarrow> lease option \<Rightarrow> bool" where
  "IsExpired now l = (case l of None \<Rightarrow> True
     | Some l \<Rightarrow> ls_TTL l * nanos_per_second \<le> now - ls_GrantTime l)"

definition Remaining :: "int \<Rightarrow> lease option \<Rightarrow> int" where
  "Remaining now l = (case l of None \<Rightarrow> 0
     | Some l \<Rightarrow>
         (let remaining = ls_TTL l * nanos_per_second - (now - ls_GrantTime l)
          in if remaining < 0 then 0 else remaining div nanos_per_second))"

definition Renew :: "int \<Rightarrow> int \<Rightarrow> lease option \<Rightarrow> lease option \<times> int" where
  "Renew now ttl l = (case l of None \<Rightarrow> (None, 0)
     | Some l \<Rightarrow> (Some (l\<lparr>ls_TTL := ttl, ls_GrantTime := now\<rparr>), ttl))"

lemma IsExpired_Some [simp]:
  "IsExpired now (Some l) \<longleftrightarrow> ls_TTL l * nanos_per_second \<le> now - ls_GrantTime l"
  by (simp add: IsExpired_def)

lemma Remaining_bounds:
  assumes "0 \<le> ls_TTL l" "ls_GrantTime l \<le> now"
  shows "0 \<le> Remaining now (Some l) \<and> Remaining now (Some l) \<le> ls_TTL l"
proof -
  let ?r = "ls_TTL l * nanos_per_second - (now - ls_GrantTime l)"
  have "?r div nanos_per_second \<le> (ls_TTL l * nanos_per_second) div nanos_per_second"
    using assms by (intro zdiv_mono1) (simp_all add: nanos_per_second_def)
  then have "?r div nanos_per_second \<le> ls_TTL l"
    by (simp add: nanos_per_second_def)
  with assms show ?thesis
    by (auto simp: Remaining_def Let_def nanos_per_second_def pos_imp_zdiv_nonneg_iff)
qed

section \<open>Raft status\<close>

record raft_status =
  rs_NodeID :: int
  rs_Term :: int
  rs_LeaderID :: int
  rs_State :: string
  rs_Applied :: int
  rs_Commit :: int

end
