(* ===== verification/Map_Interface.thy ===== *)
theory Map_Interface
  imports Prelude
begin

text \<open>
  The interface of a finite map as the stores use it: the laws a lookup obeys after an insertion or a
  deletion, and an enumeration of the entries.  The clients' facts about bulk deletion, bulk insertion
  and entry counts are proved here once; the sharded map of \<open>internal/memory\<close> interprets the locale.
\<close>

locale kv_map =
  fixes empty :: "'m"
    and get :: "'m \<Rightarrow> 'k \<Rightarrow> 'v option"
    and put :: "'k \<Rightarrow> 'v \<Rightarrow> 'm \<Rightarrow> 'm"
    and del :: "'k \<Rightarrow> 'm \<Rightarrow> 'm"
    and entries :: "'m \<Rightarrow> ('k \<times> 'v) list"
    and inv :: "'m \<Rightarrow> bool"
  assumes inv_empty: "inv empty"
    and inv_put: "inv m \<Longrightarrow> inv (put k v m)"
    and inv_del: "inv m \<Longrightarrow> inv (del k m)"
    and get_empty: "get empty k = None"
    and get_put: "inv m \<Longrightarrow> get (put k v m) = (get m)(k \<mapsto> v)"
    and get_del: "inv m \<Longrightarrow> get (del k m) = (get m)(k := None)"
    and entries_wf: "inv m \<Longrightarrow> gm_wf (entries m)"
    and entries_get: "inv m \<Longrightarrow> map_of (entries m) = get m"
begin

lemma entries_iff: "inv m \<Longrightarrow> (k, v) \<in> set (entries m) \<longleftrightarrow> get m k = Some v"
  using entries_wf [of m] entries_get [of m] by (metis gm_set_entries)

lemma dom_get: "inv m \<Longrightarrow> dom (get m) = fst ` set (entries m)"
  using entries_get [of m] by (metis dom_map_of_conv_image_fst)

lemma finite_dom: "inv m \<Longrightarrow> finite (dom (get m))"
  by (simp add: dom_get)

lemma length_entries: "inv m \<Longrightarrow> length (entries m) = card (dom (get m))"
  using entries_wf [of m] distinct_card [of "map fst (entries m)"] by (simp add: dom_get)

lemma inv_fold_del: "inv m \<Longrightarrow> inv (fold del ks m)"
  by (induction ks arbitrary: m) (simp_all add: inv_del)

lemma get_fold_del:
  "inv m \<Longrightarrow> get (fold del ks m) k = (if k \<in> set ks then None else get m k)"
  by (induction ks arbitrary: m) (auto simp: inv_del get_del)

lemma inv_fold_put: "inv m \<Longrightarrow> inv (fold (\<lambda>(k, v). put k v) kvs m)"
  by (induction kvs arbitrary: m) (auto simp: inv_put)

lemma get_fold_put:
  "inv m \<Longrightarrow> get (fold (\<lambda>(k, v). put k v) kvs m) = get m ++ map_of (rev kvs)"
proof (induction kvs arbitrary: m)
  case (Cons kv kvs)
  then show ?case
    by (cases kv) (auto simp: inv_put get_put map_add_def fun_eq_iff split: option.splits)
qed simp

lemma card_put_new: "inv m \<Longrightarrow> get m k = None \<Longrightarrow> card (dom (get (put k v m))) = Suc (card (dom (get m)))"
  by (simp add: get_put finite_dom domIff)

lemma card_del_old: "inv m \<Longrightarrow> get m k = Some v \<Longrightarrow> card (dom (get m)) = Suc (card (dom (get (del k m))))"
  by (metis card.remove domIff dom_fun_upd finite_dom get_del option.distinct(1))

end

end
