(* ===== verification/Sharded_Map.thy ===== *)
theory Sharded_Map
  imports KV_Types Map_Interface
begin

text \<open>
  The sharded hash map of \<open>internal/memory/sharded_map.go\<close>: 512 shards selected by the FNV-1a hash of
  the key, with point operations on one shard and range scans over all of them.  The per-shard locks
  make each operation atomic and do not appear.  Facts: the map interface holds
  (\<open>interpretation sm\<close>), a range scan is the sorted enumeration of the matching keys, and a snapshot
  of all entries restores the same map.
\<close>

unbundle bit_operations_syntax

section \<open>State and hashing\<close>

type_synonym shard = "(string, key_value) gomap"

record ShardedMap =
  shards :: "shard list"

definition numShards :: nat where
  "numShards = 512"

definition shardMask :: "32 word" where
  "shardMask = 511"

text \<open>FNV-1a on 32 bits (\<open>hash/fnv\<close>): xor the byte in, then multiply by the FNV prime.\<close>

definition fnv32a :: "string \<Rightarrow> 32 word" where
  "fnv32a s = foldl (\<lambda>h c. (h XOR of_char c) * 16777619) 2166136261 s"

definition getShard :: "string \<Rightarrow> nat" where
  "getShard key = unat (fnv32a key AND shardMask)"

definition NewShardedMap :: ShardedMap where
  "NewShardedMap = \<lparr>shards = replicate numShards []\<rparr>"

section \<open>Operations\<close>

definition sm_Get :: "ShardedMap \<Rightarrow> string \<Rightarrow> key_value option" where
  "sm_Get sm key = gm_get (shards sm ! getShard key) key"

definition sm_Set :: "string \<Rightarrow> key_value \<Rightarrow> ShardedMap \<Rightarrow> ShardedMap" where
  "sm_Set key kv sm =
     (let shardIdx = getShard key
      in sm\<lparr>shards := (shards sm)[shardIdx := gm_set key kv (shards sm ! shardIdx)]\<rparr>)"

definition sm_Delete :: "string \<Rightarrow> ShardedMap \<Rightarrow> ShardedMap" where
  "sm_Delete key sm =
     (let shardIdx = getShard key
      in sm\<lparr>shards := (shards sm)[shardIdx := gm_del key (shards sm ! shardIdx)]\<rparr>)"

definition collect_range :: "string \<Rightarrow> string \<Rightarrow> ShardedMap \<Rightarrow> key_value list" where
  "collect_range startKey endKey sm =
     concat (map (\<lambda>sh. map snd (filter (\<lambda>(k, v). in_key_range k startKey endKey) sh)) (shards sm))"

definition sm_Range :: "string \<Rightarrow> string \<Rightarrow> int \<Rightarrow> ShardedMap \<Rightarrow> key_value list" where
  "sm_Range startKey endKey limit sm =
     (let allKvs = sort_key kv_Key (collect_range startKey endKey sm)
      in if 0 < limit \<and> limit < int (length allKvs) then take (nat limit) allKvs else allKvs)"

text \<open>
  The callback of \<open>RangeFunc\<close> threads a state and answers whether to continue.
\<close>

fun rangeFunc_loop ::
    "int \<Rightarrow> (key_value \<Rightarrow> 's \<Rightarrow> 's \<times> bool) \<Rightarrow> int \<Rightarrow> key_value list \<Rightarrow> 's \<Rightarrow> 's" where
  "rangeFunc_loop limit fn cnt [] st = st"
| "rangeFunc_loop limit fn cnt (kv # kvs) st =
     (if 0 < limit \<and> limit \<le> cnt then st
      else case fn kv st of
             (st', continue) \<Rightarrow>
               if \<not> continue then st' else rangeFunc_loop limit fn (cnt + 1) kvs st')"

definition sm_RangeFunc ::
    "string \<Rightarrow> string \<Rightarrow> int \<Rightarrow> (key_value \<Rightarrow> 's \<Rightarrow> 's \<times> bool) \<Rightarrow> ShardedMap \<Rightarrow> 's \<Rightarrow> 's" where
  "sm_RangeFunc startKey endKey limit fn sm st =
     rangeFunc_loop limit fn 0 (sort_key kv_Key (collect_range startKey endKey sm)) st"

definition sm_Len :: "ShardedMap \<Rightarrow> nat" where
  "sm_Len sm = sum_list (map length (shards sm))"

definition sm_Clear :: "ShardedMap \<Rightarrow> ShardedMap" where
  "sm_Clear sm = sm\<lparr>shards := map (\<lambda>_. []) (shards sm)\<rparr>"

definition sm_GetAll :: "ShardedMap \<Rightarrow> (string, key_value) gomap" where
  "sm_GetAll sm = fold (\<lambda>sh result. fold (\<lambda>(k, v). gm_set k v) sh result) (shards sm) []"

definition sm_SetAll :: "(string, key_value) gomap \<Rightarrow> ShardedMap \<Rightarrow> ShardedMap" where
  "sm_SetAll data sm = fold (\<lambda>(k, v) s. sm_Set k v s) data (sm_Clear sm)"

section \<open>Invariant\<close>

text \<open>Each key lives in the shard its hash selects, at most once.\<close>

definition sm_inv :: "ShardedMap \<Rightarrow> bool" where
  "sm_inv sm \<longleftrightarrow> length (shards sm) = numShards \<and>
     (\<forall>i < numShards. gm_wf (shards sm ! i) \<and>
        (\<forall>k v. gm_get (shards sm ! i) k = Some v \<longrightarrow> getShard k = i))"

lemma getShard_bound [simp]: "getShard key < numShards"
proof -
  have "unat (fnv32a key AND shardMask) \<le> unat shardMask"
    by (rule word_and_le1 [THEN word_le_nat_alt [THEN iffD1]])
  then show ?thesis
    by (simp add: getShard_def numShards_def shardMask_def)
qed

lemma sm_inv_getShard [simp]: "sm_inv sm \<Longrightarrow> getShard key < length (shards sm)"
  by (simp add: sm_inv_def)

lemma sm_inv_shardD:
  assumes "sm_inv sm" "i < length (shards sm)"
  shows "gm_wf (shards sm ! i)" "gm_get (shards sm ! i) k = Some v \<Longrightarrow> getShard k = i"
  using assms by (auto simp: sm_inv_def)

lemma sm_inv_mem:
  assumes "sm_inv sm" "i < length (shards sm)" "(k, v) \<in> set (shards sm ! i)"
  shows "getShard k = i"
  using assms sm_inv_shardD [OF assms(1,2)] by (metis gm_set_entries)

lemma sm_inv_empty: "sm_inv NewShardedMap"
  by (simp add: sm_inv_def NewShardedMap_def)

lemma sm_inv_Set: "sm_inv sm \<Longrightarrow> sm_inv (sm_Set k v sm)"
  by (auto simp: sm_inv_def sm_Set_def Let_def nth_list_update gomap_simps split: if_splits)

lemma sm_inv_Delete: "sm_inv sm \<Longrightarrow> sm_inv (sm_Delete k sm)"
  by (auto simp: sm_inv_def sm_Delete_def Let_def nth_list_update gomap_simps split: if_splits)

lemma sm_inv_Clear: "length (shards sm) = numShards \<Longrightarrow> sm_inv (sm_Clear sm)"
  by (simp add: sm_inv_def sm_Clear_def)

section \<open>The flattened entry list\<close>

lemma shards_disjoint:
  assumes "sm_inv sm" "i < length (shards sm)" "j < length (shards sm)" "i \<noteq> j"
  shows "fst ` set (shards sm ! i) \<inter> fst ` set (shards sm ! j) = {}"
  using sm_inv_mem [OF assms(1,2)] sm_inv_mem [OF assms(1,3)] assms(4) by fastforce

lemma distinct_concat_disjoint:
  assumes "\<And>i. i < length xss \<Longrightarrow> distinct (map f (xss ! i))"
    and "\<And>i j. i < length xss \<Longrightarrow> j < length xss \<Longrightarrow> i \<noteq> j \<Longrightarrow>
           f ` set (xss ! i) \<inter> f ` set (xss ! j) = {}"
  shows "distinct (map f (concat xss))"
  using assms
proof (induction xss)
  case (Cons xs xss)
  have "distinct (map f (concat xss))"
  proof (rule Cons.IH)
    show "distinct (map f (xss ! i))" if "i < length xss" for i
      using Cons.prems(1) [of "Suc i"] that by simp
    show "f ` set (xss ! i) \<inter> f ` set (xss ! j) = {}"
      if "i < length xss" "j < length xss" "i \<noteq> j" for i j
      using Cons.prems(2) [of "Suc i" "Suc j"] that by simp
  qed
  moreover have "f ` set xs \<inter> f ` set ys = {}" if "ys \<in> set xss" for ys
  proof -
    from that obtain i where "i < length xss" "ys = xss ! i"
      by (auto simp: in_set_conv_nth)
    then show ?thesis
      using Cons.prems(2) [of 0 "Suc i"] by simp
  qed
  moreover have "distinct (map f xs)"
    using Cons.prems(1) [of 0] by simp
  ultimately show ?case
    by auto
qed simp

lemma gm_wf_concat: "sm_inv sm \<Longrightarrow> gm_wf (concat (shards sm))"
  by (rule distinct_concat_disjoint) (auto intro: sm_inv_shardD(1) dest: shards_disjoint)

lemma map_of_concat:
  assumes "sm_inv sm"
  shows "map_of (concat (shards sm)) k = sm_Get sm k"
proof -
  have "(k, v) \<in> set (concat (shards sm)) \<longleftrightarrow> (k, v) \<in> set (shards sm ! getShard k)" for v
  proof
    assume "(k, v) \<in> set (concat (shards sm))"
    then obtain sh where "sh \<in> set (shards sm)" "(k, v) \<in> set sh"
      by auto
    then obtain i where i: "i < length (shards sm)" "(k, v) \<in> set (shards sm ! i)"
      by (metis in_set_conv_nth)
    then have "getShard k = i"
      by (rule sm_inv_mem [OF assms])
    with i show "(k, v) \<in> set (shards sm ! getShard k)"
      by simp
  qed (use assms in auto)
  then have "map_of (concat (shards sm)) k = Some v \<longleftrightarrow> sm_Get sm k = Some v" for v
    using gm_wf_concat [OF assms] sm_inv_shardD(1) [OF assms, of "getShard k"] assms
    by (simp add: sm_Get_def flip: gm_set_entries)
  then show ?thesis
    by (metis option.exhaust)
qed

text \<open>Storing entries with fresh keys appends them.\<close>

lemma gm_set_fresh: "k \<notin> fst ` set m \<Longrightarrow> gm_set k v m = m @ [(k, v)]"
  by (induction m) auto

lemma fold_gm_set_fresh:
  "gm_wf (m @ xs) \<Longrightarrow> fold (\<lambda>(k, v). gm_set k v) xs m = m @ xs"
proof (induction xs arbitrary: m)
  case (Cons x xs)
  then show ?case
    by (cases x) (auto simp: gm_set_fresh)
qed simp

lemma fold_concat: "fold (\<lambda>xs acc. fold f xs acc) xss acc = fold f (concat xss) acc"
  by (induction xss arbitrary: acc) simp_all

lemma sm_GetAll_concat: "sm_inv sm \<Longrightarrow> sm_GetAll sm = concat (shards sm)"
  using fold_gm_set_fresh [of "[]" "concat (shards sm)"] gm_wf_concat [of sm]
  by (simp add: sm_GetAll_def fold_concat)

section \<open>The sharded map implements the map interface\<close>

lemma sm_Get_Set: "sm_inv sm \<Longrightarrow> sm_Get (sm_Set k v sm) = (sm_Get sm)(k \<mapsto> v)"
  by (rule ext) (auto simp: sm_Get_def sm_Set_def Let_def nth_list_update gomap_simps)

lemma sm_Get_Delete: "sm_inv sm \<Longrightarrow> sm_Get (sm_Delete k sm) = (sm_Get sm)(k := None)"
  by (rule ext) (auto simp: sm_Get_def sm_Delete_def Let_def nth_list_update gomap_simps)

interpretation sm: kv_map NewShardedMap sm_Get sm_Set sm_Delete sm_GetAll sm_inv
proof unfold_locales
  show "sm_Get NewShardedMap k = None" for k
    by (simp add: sm_Get_def NewShardedMap_def)
qed (simp_all add: sm_inv_empty sm_inv_Set sm_inv_Delete sm_Get_Set sm_Get_Delete
       sm_GetAll_concat gm_wf_concat map_of_concat fun_eq_iff)

lemmas sm_simps = sm.get_put sm.get_del sm.inv_put sm.inv_del sm.get_empty sm.inv_empty

section \<open>Range scans\<close>

text \<open>The keys a store files its entries under are the keys inside the entries.\<close>

definition keys_ok :: "(string \<rightharpoonup> key_value) \<Rightarrow> bool" where
  "keys_ok m \<longleftrightarrow> (\<forall>k v. m k = Some v \<longrightarrow> kv_Key v = k)"

text \<open>The specification of a scan: the entries of the matching keys, in increasing key order.\<close>

definition range_keys :: "(string \<rightharpoonup> key_value) \<Rightarrow> string \<Rightarrow> string \<Rightarrow> string list" where
  "range_keys m startKey endKey = sorted_list_of_set {k \<in> dom m. in_key_range k startKey endKey}"

definition range_spec :: "(string \<rightharpoonup> key_value) \<Rightarrow> string \<Rightarrow> string \<Rightarrow> key_value list" where
  "range_spec m startKey endKey = map (\<lambda>k. the (m k)) (range_keys m startKey endKey)"

definition apply_limit :: "int \<Rightarrow> 'a list \<Rightarrow> 'a list" where
  "apply_limit limit xs = (if 0 < limit then take (nat limit) xs else xs)"

lemma apply_limit_0 [simp]: "apply_limit 0 xs = xs"
  by (simp add: apply_limit_def)

lemma keys_ok_upd [wf_intros, simp]: "keys_ok m \<Longrightarrow> kv_Key v = k \<Longrightarrow> keys_ok (m(k \<mapsto> v))"
  by (simp add: keys_ok_def)

lemma keys_ok_del [wf_intros, simp]: "keys_ok m \<Longrightarrow> keys_ok (m(k := None))"
  by (simp add: keys_ok_def)

lemma keys_okD: "keys_ok m \<Longrightarrow> m k = Some v \<Longrightarrow> kv_Key v = k"
  by (simp add: keys_ok_def)

lemma collect_range_concat:
  "collect_range s e sm = map snd (filter (\<lambda>(k, v). in_key_range k s e) (concat (shards sm)))"
  by (simp add: collect_range_def filter_concat map_concat comp_def)

lemma set_collect_range:
  assumes "sm_inv sm"
  shows "set (collect_range s e sm) = {v. \<exists>k. sm_Get sm k = Some v \<and> in_key_range k s e}"
  using gm_set_entries [OF gm_wf_concat [OF assms]]
  by (force simp: collect_range_concat map_of_concat [OF assms])

lemma collect_range_keys:
  assumes "sm_inv sm" "keys_ok (sm_Get sm)"
  shows "map kv_Key (collect_range s e sm)
           = filter (\<lambda>k. in_key_range k s e) (map fst (concat (shards sm)))"
proof -
  have "kv_Key v = k" if "(k, v) \<in> set (concat (shards sm))" for k v
    using that gm_set_entries [OF gm_wf_concat [OF assms(1)]] assms(2)
    by (simp add: map_of_concat [OF assms(1)] keys_okD)
  then show ?thesis
    by (auto simp: collect_range_concat filter_map comp_def case_prod_unfold intro!: map_cong)
qed

lemma sorted_scan_keys:
  assumes "sm_inv sm" "keys_ok (sm_Get sm)"
  shows "map kv_Key (sort_key kv_Key (collect_range s e sm)) = range_keys (sm_Get sm) s e"
proof -
  let ?ks = "map kv_Key (sort_key kv_Key (collect_range s e sm))"
  have "distinct (map kv_Key (collect_range s e sm))"
    using gm_wf_concat [OF assms(1)] by (simp add: collect_range_keys [OF assms])
  then have "distinct ?ks"
    by (metis distinct_map distinct_sort set_sort)
  moreover have "set ?ks = {k \<in> dom (sm_Get sm). in_key_range k s e}"
    using set_collect_range [OF assms(1), of s e] keys_okD [OF assms(2)] by force
  ultimately have "sorted_list_of_set {k \<in> dom (sm_Get sm). in_key_range k s e} = ?ks"
    by (metis List.finite_set sorted_list_of_set.idem_if_sorted_distinct sorted_sort_key)
  then show ?thesis
    by (simp add: range_keys_def)
qed

lemma sorted_scan_spec:
  assumes "sm_inv sm" "keys_ok (sm_Get sm)"
  shows "sort_key kv_Key (collect_range s e sm) = range_spec (sm_Get sm) s e"
proof -
  have "the (sm_Get sm (kv_Key v)) = v" if "v \<in> set (collect_range s e sm)" for v
    using that keys_okD [OF assms(2)] by (auto simp: set_collect_range [OF assms(1)])
  then have "map (\<lambda>k. the (sm_Get sm k)) (map kv_Key (sort_key kv_Key (collect_range s e sm)))
               = sort_key kv_Key (collect_range s e sm)"
    unfolding map_map comp_def by (intro map_idI) simp
  then show ?thesis
    by (simp add: range_spec_def sorted_scan_keys [OF assms])
qed

lemma sm_Range_spec:
  assumes "sm_inv sm" "keys_ok (sm_Get sm)"
  shows "sm_Range s e limit sm = apply_limit limit (range_spec (sm_Get sm) s e)"
  by (simp add: sm_Range_def Let_def sorted_scan_spec [OF assms] apply_limit_def)

lemma set_range_keys: "finite (dom m) \<Longrightarrow> set (range_keys m s e) = {k \<in> dom m. in_key_range k s e}"
  by (simp add: range_keys_def)

lemma distinct_range_keys [simp]: "distinct (range_keys m s e)"
  by (simp add: range_keys_def)

lemma range_spec_keys:
  assumes "finite (dom m)" "keys_ok m"
  shows "map kv_Key (range_spec m s e) = range_keys m s e"
proof -
  have "kv_Key (the (m k)) = k" if "k \<in> set (range_keys m s e)" for k
    using that assms keys_okD by (fastforce simp: set_range_keys)
  then show ?thesis
    by (simp add: range_spec_def comp_def map_idI)
qed

lemma set_range_spec:
  "finite (dom m) \<Longrightarrow> set (range_spec m s e) = {v. \<exists>k. m k = Some v \<and> in_key_range k s e}"
  by (force simp: range_spec_def set_range_keys)

lemma length_range_spec: "length (range_spec m s e) = length (range_keys m s e)"
  by (simp add: range_spec_def)

lemma rangeFunc_loop_all:
  "0 \<le> cnt \<Longrightarrow> rangeFunc_loop limit (\<lambda>kv st. (f kv st, True)) cnt kvs st
     = fold f (if 0 < limit then take (nat (limit - cnt)) kvs else kvs) st"
proof (induction kvs arbitrary: cnt st)
  case (Cons kv kvs)
  have "nat (limit - cnt) = Suc (nat (limit - (cnt + 1)))" if "cnt < limit"
    using that by linarith
  with Cons show ?case
    by auto
qed simp

lemma sm_inv_SetAll: "length (shards sm) = numShards \<Longrightarrow> sm_inv (sm_SetAll data sm)"
  unfolding sm_SetAll_def by (rule sm.inv_fold_put) (rule sm_inv_Clear)

lemma sm_Get_Clear [simp]: "length (shards sm) = numShards \<Longrightarrow> sm_Get (sm_Clear sm) = Map.empty"
  by (rule ext) (simp add: sm_Get_def sm_Clear_def)

lemma map_of_rev_wf: "gm_wf data \<Longrightarrow> map_of (rev data) = map_of data"
  by (rule ext) (metis distinct_rev gm_set_entries not_Some_eq rev_map set_rev)

lemma sm_Get_SetAll:
  assumes "length (shards sm) = numShards" "gm_wf data"
  shows "sm_Get (sm_SetAll data sm) = map_of data"
  using sm.get_fold_put [OF sm_inv_Clear [OF assms(1)], of data] assms
  by (simp add: sm_SetAll_def map_of_rev_wf)

lemma sm_Len_card: "sm_inv sm \<Longrightarrow> sm_Len sm = card (dom (sm_Get sm))"
  using sm.length_entries [of sm]
  by (simp add: sm_Len_def sm_GetAll_concat length_concat)

section \<open>Properties\<close>

definition sample_kv :: "string \<Rightarrow> string \<Rightarrow> int \<Rightarrow> key_value" where
  "sample_kv k v r = \<lparr>kv_Key = k, kv_Value = v, kv_CreateRevision = r, kv_ModRevision = r,
     kv_Version = 1, kv_Lease = 0\<rparr>"

definition sample_map :: ShardedMap where
  "sample_map = sm_Set ''b'' (sample_kv ''b'' ''2'' 2) (sm_Set ''a'' (sample_kv ''a'' ''1'' 1) NewShardedMap)"

lemma sample_map_inv: "sm_inv sample_map"
  by (simp add: sample_map_def sm_simps)

lemma sample_map_Get:
  "sm_Get sample_map = [''a'' \<mapsto> sample_kv ''a'' ''1'' 1, ''b'' \<mapsto> sample_kv ''b'' ''2'' 2]"
  by (rule ext) (simp add: sample_map_def sm_simps)

lemma sample_map_keys: "keys_ok (sm_Get sample_map)"
  by (simp add: sample_map_Get keys_ok_def sample_kv_def)

text \<open>
  A range scan of the sharded map returns the entries whose key lies in the interval, in strictly
  increasing key order, cut to the limit when the limit is positive; the result is a function of the
  map's contents, not of how the keys are spread over the 512 shards.
\<close>

theorem sm_Range_correct:
  assumes "sm_inv sm" "keys_ok (sm_Get sm)"
  shows "sm_Range startKey endKey limit sm
           = apply_limit limit (range_spec (sm_Get sm) startKey endKey)
       \<and> sorted (map kv_Key (sm_Range startKey endKey limit sm))
       \<and> distinct (map kv_Key (sm_Range startKey endKey limit sm))
       \<and> set (sm_Range startKey endKey 0 sm)
           = {v. \<exists>k. sm_Get sm k = Some v \<and> in_key_range k startKey endKey}"
proof -
  note fin = sm.finite_dom [OF assms(1)]
  have keys: "map kv_Key (apply_limit limit (range_spec (sm_Get sm) startKey endKey))
                = apply_limit limit (range_keys (sm_Get sm) startKey endKey)"
    by (simp add: apply_limit_def take_map flip: range_spec_keys [OF fin assms(2)])
  have "sorted (range_keys (sm_Get sm) startKey endKey)"
    by (simp add: range_keys_def)
  then show ?thesis
    by (simp add: sm_Range_spec [OF assms] keys set_range_spec [OF fin])
       (simp add: apply_limit_def sorted_wrt_take)
qed

theorem sm_Range_correct_witness:
  "sm_inv sample_map \<and> keys_ok (sm_Get sample_map)
     \<and> sm_Range ''a'' zero_byte 1 sample_map
         = apply_limit 1 (range_spec (sm_Get sample_map) ''a'' zero_byte)"
  using sm_Range_correct [OF sample_map_inv sample_map_keys, of "''a''" zero_byte 1]
    sample_map_inv sample_map_keys by simp

text \<open>
  Scanning with a callback that never stops visits exactly the entries that the slice-returning
  scan returns, in the same order and under the same limit.
\<close>

theorem sm_RangeFunc_is_fold_Range:
  "sm_RangeFunc startKey endKey limit (\<lambda>kv st. (f kv st, True)) sm st
     = fold f (sm_Range startKey endKey limit sm) st"
  by (simp add: sm_RangeFunc_def sm_Range_def rangeFunc_loop_all Let_def)

text \<open>
  Loading the entries of one sharded map into another (snapshot and recovery) gives a well-formed
  map with the same contents, whatever the target held before, and the entry count is the number of
  keys.
\<close>

theorem sm_SetAll_GetAll:
  assumes "sm_inv sm" "sm_inv sm'"
  shows "sm_inv (sm_SetAll (sm_GetAll sm) sm')
       \<and> sm_Get (sm_SetAll (sm_GetAll sm) sm') = sm_Get sm
       \<and> sm_Len (sm_SetAll (sm_GetAll sm) sm') = card (dom (sm_Get sm))"
proof -
  have len: "length (shards sm') = numShards"
    using assms(2) by (simp add: sm_inv_def)
  show ?thesis
    using sm_inv_SetAll [OF len, of "sm_GetAll sm"]
      sm_Get_SetAll [OF len sm.entries_wf [OF assms(1)]]
    by (simp add: sm_Len_card sm.entries_get [OF assms(1)])
qed

theorem sm_SetAll_GetAll_witness:
  "sm_inv sample_map \<and> sm_inv NewShardedMap
     \<and> sm_Get (sm_SetAll (sm_GetAll sample_map) NewShardedMap) ''a'' = Some (sample_kv ''a'' ''1'' 1)"
  using sm_SetAll_GetAll [OF sample_map_inv sm_inv_empty] sample_map_inv sm_inv_empty
  by (simp add: sample_map_Get)

end
