(* ===== verification/Memory_State.thy ===== *)
theory Memory_State
  imports Sharded_Map
begin

text \<open>
  The state of the in-memory engine (\<open>MemoryEtcd\<close> of \<open>internal/memory/store.go\<close>) and its watch
  subsystem (\<open>internal/memory/watch.go\<close>, \<open>notifyWatchers\<close> of \<open>store_direct.go\<close>).

  A subscription's event channel is the list of its buffered events, of capacity 100.  The goroutines
  that the code starts (\<open>slowSendEvent\<close>, \<open>sendHistoricalEvents\<close>) are recorded in the state as pending
  work, and each is an operation of its own that takes the branch its \<open>select\<close> chooses as an argument.
  A Go map that is only iterated to notify subscribers is mapped over: the channels are disjoint, so
  the order of the iteration has no effect.
\<close>

section \<open>State\<close>

record watch_subscription =
  ws_watchID :: int
  ws_key :: string
  ws_rangeEnd :: string
  ws_startRev :: int
  ws_eventCh :: "watch_event list"
  ws_closed :: bool
  ws_prevKV :: bool
  ws_progressNotify :: bool
  ws_filters :: "watch_filter_type list"
  ws_fragment :: bool

datatype goroutine =
    SlowSendEvent int watch_event
  | SendHistoricalEvents int string string

record MemoryEtcd =
  kvData :: ShardedMap
  revision :: int
  leases :: "(int, lease) gomap"
  watches :: "(int, watch_subscription) gomap"
  goroutines :: "goroutine list"

datatype mem_error =
    ErrLeaseNotFound int
  | ErrLeaseExpired int
  | ErrInvalidLease
  | ErrLeaseExists int
  | ErrWatchExists int
  | ErrWatchNotFound int
  | ErrLeadershipTransfer

definition NewMemoryEtcd :: MemoryEtcd where
  "NewMemoryEtcd = \<lparr>kvData = NewShardedMap, revision = 0, leases = [], watches = [], goroutines = []\<rparr>"

definition CurrentRevision :: "MemoryEtcd \<Rightarrow> int" where
  "CurrentRevision m = revision m"

section \<open>Matching and filtering\<close>

definition matchWatch :: "string \<Rightarrow> string \<Rightarrow> string \<Rightarrow> bool" where
  "matchWatch key watchKey rangeEnd =
     (if rangeEnd = [] then key = watchKey else in_key_range key watchKey rangeEnd)"

definition watchMatches :: "watch_subscription \<Rightarrow> string \<Rightarrow> bool" where
  "watchMatches sub key =
     (if ws_rangeEnd sub = [] then key = ws_key sub
      else in_key_range key (ws_key sub) (ws_rangeEnd sub))"

fun shouldFilter :: "event_type \<Rightarrow> watch_filter_type list \<Rightarrow> bool" where
  "shouldFilter t [] = False"
| "shouldFilter t (f # fs) =
     (case f of
        FilterNoPut \<Rightarrow> if t = EventTypePut then True else shouldFilter t fs
      | FilterNoDelete \<Rightarrow> if t = EventTypeDelete then True else shouldFilter t fs
      | FilterNone \<Rightarrow> shouldFilter t fs)"

section \<open>Notification\<close>

definition eventChCap :: nat where
  "eventChCap = 100"

text \<open>
  \<open>notifyWatches\<close>: an open matching subscription whose filters let the event through gets it, without
  the previous value unless it asked for that; a full channel hands the event to a new goroutine.
\<close>

definition event_key :: "watch_event \<Rightarrow> string" where
  "event_key event =
     (case we_Kv event of Some kv \<Rightarrow> kv_Key kv
      | None \<Rightarrow> (case we_PrevKv event of Some kv \<Rightarrow> kv_Key kv | None \<Rightarrow> []))"

definition wants_event :: "watch_event \<Rightarrow> watch_subscription \<Rightarrow> bool" where
  "wants_event event sub \<longleftrightarrow>
     \<not> ws_closed sub \<and> matchWatch (event_key event) (ws_key sub) (ws_rangeEnd sub)
       \<and> \<not> shouldFilter (we_Type event) (ws_filters sub)"

definition event_to_send :: "watch_event \<Rightarrow> watch_subscription \<Rightarrow> watch_event" where
  "event_to_send event sub = (if ws_prevKV sub then event else event\<lparr>we_PrevKv := None\<rparr>)"

definition push_event :: "watch_event \<Rightarrow> watch_subscription \<Rightarrow> watch_subscription" where
  "push_event event sub =
     (if length (ws_eventCh sub) < eventChCap then sub\<lparr>ws_eventCh := ws_eventCh sub @ [event]\<rparr> else sub)"

definition notifyWatches :: "watch_event \<Rightarrow> MemoryEtcd \<Rightarrow> MemoryEtcd" where
  "notifyWatches event m =
     m\<lparr>watches := map (\<lambda>(i, sub).
            (i, if wants_event event sub then push_event (event_to_send event sub) sub else sub)) (watches m),
       goroutines := goroutines m @
         map (\<lambda>(i, sub). SlowSendEvent i (event_to_send event sub))
           (filter (\<lambda>(i, sub). wants_event event sub \<and> \<not> length (ws_eventCh sub) < eventChCap) (watches m))\<rparr>"

text \<open>
  \<open>notifyWatchers\<close>, the notification of the Raft apply path: it ignores filters and the
  previous-value option, and drops the event when the channel is full.
\<close>

definition notifyWatchers :: "string \<Rightarrow> key_value \<Rightarrow> event_type \<Rightarrow> MemoryEtcd \<Rightarrow> MemoryEtcd" where
  "notifyWatchers key kv eventType m =
     m\<lparr>watches := map (\<lambda>(i, sub).
         (i, if watchMatches sub key
             then push_event \<lparr>we_Type = eventType, we_Kv = Some kv, we_PrevKv = None, we_Revision = 0\<rparr> sub
             else sub)) (watches m)\<rparr>"

section \<open>Watch management\<close>

definition WatchWithOptions ::
    "string \<Rightarrow> string \<Rightarrow> int \<Rightarrow> int \<Rightarrow> watch_options option \<Rightarrow> MemoryEtcd \<Rightarrow> mem_error + MemoryEtcd" where
  "WatchWithOptions key rangeEnd startRevision watchID opts m =
     (if gm_get (watches m) watchID \<noteq> None then Inl (ErrWatchExists watchID)
      else
        let sub = \<lparr>ws_watchID = watchID, ws_key = key, ws_rangeEnd = rangeEnd, ws_startRev = startRevision,
                   ws_eventCh = [], ws_closed = False,
                   ws_prevKV = (case opts of Some opt \<Rightarrow> wo_PrevKV opt | None \<Rightarrow> False),
                   ws_progressNotify = (case opts of Some opt \<Rightarrow> wo_ProgressNotify opt | None \<Rightarrow> False),
                   ws_filters = (case opts of Some opt \<Rightarrow> wo_Filters opt | None \<Rightarrow> []),
                   ws_fragment = (case opts of Some opt \<Rightarrow> wo_Fragment opt | None \<Rightarrow> False)\<rparr>
        in Inr (m\<lparr>watches := gm_set watchID sub (watches m),
                  goroutines := goroutines m @
                    (if 0 < startRevision \<and> startRevision < revision m
                     then [SendHistoricalEvents watchID key rangeEnd] else [])\<rparr>))"

definition Watch :: "string \<Rightarrow> string \<Rightarrow> int \<Rightarrow> int \<Rightarrow> MemoryEtcd \<Rightarrow> mem_error + MemoryEtcd" where
  "Watch key rangeEnd startRevision watchID m = WatchWithOptions key rangeEnd startRevision watchID None m"

text \<open>
  \<open>CancelWatch\<close> removes the subscription and closes its channels; a subscription that is in the map
  but marked closed is left alone.
\<close>

definition CancelWatch :: "int \<Rightarrow> MemoryEtcd \<Rightarrow> mem_error + MemoryEtcd" where
  "CancelWatch watchID m =
     (case gm_get (watches m) watchID of
        None \<Rightarrow> Inl (ErrWatchNotFound watchID)
      | Some sub \<Rightarrow>
          if ws_closed sub then Inr m else Inr (m\<lparr>watches := gm_del watchID (watches m)\<rparr>))"

text \<open>
  The pending goroutines.  A \<open>select\<close> takes any ready case, so the choice is an argument; the result
  says whether the goroutine finishes, still waits, or panics.  Once a watch is cancelled its event
  channel is closed, and a send that is selected on a closed channel panics.
\<close>

datatype select_case = CaseSend | CaseCancel | CaseTimer

datatype 's outcome = Finished 's | Waiting | Panicked

definition slowSendEvent :: "select_case \<Rightarrow> int \<Rightarrow> watch_event \<Rightarrow> MemoryEtcd \<Rightarrow> MemoryEtcd outcome" where
  "slowSendEvent choice watchID event m =
     (case choice of
        CaseSend \<Rightarrow>
          (case gm_get (watches m) watchID of
             None \<Rightarrow> Panicked
           | Some sub \<Rightarrow>
               if length (ws_eventCh sub) < eventChCap
               then Finished (m\<lparr>watches := gm_set watchID (push_event event sub) (watches m)\<rparr>)
               else Waiting)
      | CaseCancel \<Rightarrow> (if gm_get (watches m) watchID = None then Finished m else Waiting)
      | CaseTimer \<Rightarrow> (case CancelWatch watchID m of Inl _ \<Rightarrow> Finished m | Inr m' \<Rightarrow> Finished m'))"

definition historical_event :: "key_value \<Rightarrow> watch_event" where
  "historical_event kv =
     \<lparr>we_Type = EventTypePut, we_Kv = Some kv, we_PrevKv = None, we_Revision = kv_ModRevision kv\<rparr>"

definition sendHistoricalEvents ::
    "select_case \<Rightarrow> int \<Rightarrow> string \<Rightarrow> string \<Rightarrow> MemoryEtcd \<Rightarrow> MemoryEtcd outcome" where
  "sendHistoricalEvents choice watchID key rangeEnd m =
     (case gm_get (watches m) watchID of
        None \<Rightarrow>
          if choice = CaseSend \<and> (\<exists>(k, kv) \<in> set (sm_GetAll (kvData m)). matchWatch k key rangeEnd)
          then Panicked else Finished m
      | Some sub \<Rightarrow> Finished
          (m\<lparr>watches := gm_set watchID
               (fold (\<lambda>(k, kv) s. if matchWatch k key rangeEnd then push_event (historical_event kv) s else s)
                  (sm_GetAll (kvData m)) sub) (watches m)\<rparr>))"

section \<open>Frame facts\<close>

lemma notifyWatches_frame [simp]:
  "kvData (notifyWatches e m) = kvData m" "revision (notifyWatches e m) = revision m"
  "leases (notifyWatches e m) = leases m"
  by (simp_all add: notifyWatches_def)

lemma notifyWatchers_frame [simp]:
  "kvData (notifyWatchers k kv t m) = kvData m" "revision (notifyWatchers k kv t m) = revision m"
  "leases (notifyWatchers k kv t m) = leases m" "goroutines (notifyWatchers k kv t m) = goroutines m"
  by (simp_all add: notifyWatchers_def)

lemma fold_notifyWatches_frame [simp]:
  "kvData (fold notifyWatches es m) = kvData m" "revision (fold notifyWatches es m) = revision m"
  "leases (fold notifyWatches es m) = leases m"
  by (induction es arbitrary: m) simp_all

section \<open>The watch invariant\<close>

text \<open>Watch identifiers are unique, name their subscription, and no channel exceeds its capacity.\<close>

definition sub_ok :: "int \<Rightarrow> watch_subscription \<Rightarrow> bool" where
  "sub_ok i sub \<longleftrightarrow> ws_watchID sub = i \<and> \<not> ws_closed sub \<and> length (ws_eventCh sub) \<le> eventChCap"

definition watches_ok :: "(int, watch_subscription) gomap \<Rightarrow> bool" where
  "watches_ok ws \<longleftrightarrow> gm_wf ws \<and> (\<forall>i sub. gm_get ws i = Some sub \<longrightarrow> sub_ok i sub)"

abbreviation watch_inv :: "MemoryEtcd \<Rightarrow> bool" where
  "watch_inv m \<equiv> watches_ok (watches m)"

lemma sub_ok_push_event [simp]: "sub_ok i (push_event e sub) = sub_ok i sub"
  by (auto simp: sub_ok_def push_event_def)

lemma sub_ok_fold_push:
  "sub_ok i (fold (\<lambda>(k, kv) s. if P k then push_event (f kv) s else s) xs sub) = sub_ok i sub"
  by (induction xs arbitrary: sub) (simp_all add: case_prod_unfold)

lemma watches_ok_Nil [simp]: "watches_ok []"
  by (simp add: watches_ok_def)

lemma watches_ok_get: "watches_ok ws \<Longrightarrow> gm_get ws i = Some sub \<Longrightarrow> sub_ok i sub"
  by (simp add: watches_ok_def)

lemma watches_ok_set [wf_intros]: "watches_ok ws \<Longrightarrow> sub_ok i sub \<Longrightarrow> watches_ok (gm_set i sub ws)"
  by (simp add: watches_ok_def gomap_simps)

lemma watches_ok_del [wf_intros]: "watches_ok ws \<Longrightarrow> watches_ok (gm_del i ws)"
  by (simp add: watches_ok_def gomap_simps)

lemma watches_ok_map [wf_intros]:
  assumes "watches_ok ws" "\<And>i sub. sub_ok i sub \<Longrightarrow> sub_ok i (f sub)"
  shows "watches_ok (map (\<lambda>(i, sub). (i, f sub)) ws)"
proof -
  have get: "gm_get (map (\<lambda>(i, sub). (i, f sub)) ws) i = map_option f (gm_get ws i)" for i
    by (induction ws) auto
  have "map fst (map (\<lambda>(i, sub). (i, f sub)) ws) = map fst ws"
    by auto
  with assms show ?thesis
    by (auto simp: watches_ok_def get simp del: map_map)
qed

lemma watch_inv_notifyWatches [wf_intros]: "watch_inv m \<Longrightarrow> watch_inv (notifyWatches e m)"
  by (simp add: notifyWatches_def watches_ok_map)

lemma watch_inv_notifyWatchers [wf_intros]: "watch_inv m \<Longrightarrow> watch_inv (notifyWatchers k kv t m)"
  by (simp add: notifyWatchers_def watches_ok_map)

lemma watch_inv_fold_notifyWatches [wf_intros]: "watch_inv m \<Longrightarrow> watch_inv (fold notifyWatches es m)"
  by (induction es arbitrary: m) (simp_all add: watch_inv_notifyWatches)

lemma watch_inv_WatchWithOptions [wf_intros]:
  "watch_inv m \<Longrightarrow> WatchWithOptions key rangeEnd r i opts m = Inr m' \<Longrightarrow> watch_inv m'"
  by (auto simp: WatchWithOptions_def Let_def sub_ok_def split: if_splits intro!: watches_ok_set)

lemma watch_inv_CancelWatch [wf_intros]:
  "watch_inv m \<Longrightarrow> CancelWatch i m = Inr m' \<Longrightarrow> watch_inv m'"
  by (auto simp: CancelWatch_def split: option.splits if_splits intro!: watches_ok_del)

lemma watch_inv_slowSendEvent [wf_intros]:
  assumes "watch_inv m" "slowSendEvent c i e m = Finished m'"
  shows "watch_inv m'"
proof (cases c)
  case CaseSend
  with assms obtain sub where "gm_get (watches m) i = Some sub"
      "m' = m\<lparr>watches := gm_set i (push_event e sub) (watches m)\<rparr>"
    by (auto simp: slowSendEvent_def split: option.splits if_splits)
  with assms(1) show ?thesis
    by (simp add: watches_ok_set watches_ok_get)
next
  case CaseTimer
  with assms show ?thesis
    by (auto simp: slowSendEvent_def split: sum.splits intro: watch_inv_CancelWatch)
qed (use assms in \<open>auto simp: slowSendEvent_def split: if_splits\<close>)

lemma watch_inv_sendHistoricalEvents [wf_intros]:
  assumes "watch_inv m" "sendHistoricalEvents c i key rangeEnd m = Finished m'"
  shows "watch_inv m'"
proof (cases "gm_get (watches m) i")
  case None
  with assms show ?thesis
    by (auto simp: sendHistoricalEvents_def split: if_splits)
next
  case (Some sub)
  with assms show ?thesis
    using watches_ok_get [OF assms(1) Some]
    by (auto simp: sendHistoricalEvents_def sub_ok_fold_push intro!: watches_ok_set)
qed

end
