(* ===== verification/Memory_Store.thy ===== *)
theory Memory_Store
  imports Memory_State
begin

text \<open>
  The standalone operations of the in-memory engine: reads, writes and transactions of
  \<open>internal/memory/store.go\<close> and the lease operations of \<open>internal/memory/watch.go\<close>.  The current time
  is an argument; the lock acquisitions only make each operation atomic.  The Go errors are values of
  \<^typ>\<open>mem_error\<close>.

  Facts: an abstract specification of the key space and the refinement of every write to it, the
  engine invariant over all reachable states, the lease bookkeeping, and the behaviour of a
  transaction on each branch.
\<close>

section \<open>Reads\<close>

definition range_kvs :: "string \<Rightarrow> string \<Rightarrow> int \<Rightarrow> MemoryEtcd \<Rightarrow> key_value list" where
  "range_kvs key rangeEnd limit m =
     (if rangeEnd = [] then (case sm_Get (kvData m) key of Some kv \<Rightarrow> [kv] | None \<Rightarrow> [])
      else sm_Range key rangeEnd limit (kvData m))"

definition range_result :: "key_value list \<Rightarrow> int \<Rightarrow> MemoryEtcd \<Rightarrow> range_response" where
  "range_result kvs limit m =
     (let more = (0 < limit \<and> limit < int (length kvs))
      in \<lparr>rr_Kvs = (if more then take (nat limit) kvs else kvs), rr_More = more,
          rr_Count = int (length kvs), rr_Revision = revision m\<rparr>)"

text \<open>The requested revision is not used: the engine keeps no history.\<close>

definition me_Range :: "string \<Rightarrow> string \<Rightarrow> int \<Rightarrow> int \<Rightarrow> MemoryEtcd \<Rightarrow> range_response" where
  "me_Range key rangeEnd limit rev_unused m = range_result (range_kvs key rangeEnd limit m) limit m"

definition rangeUnlocked :: "string \<Rightarrow> string \<Rightarrow> int \<Rightarrow> MemoryEtcd \<Rightarrow> range_response" where
  "rangeUnlocked key rangeEnd limit m = range_result (range_kvs key rangeEnd limit m) limit m"

definition me_Lookup :: "string \<Rightarrow> MemoryEtcd \<Rightarrow> string \<times> bool" where
  "me_Lookup key m =
     (case sm_Get (kvData m) key of Some kv \<Rightarrow> (kv_Value kv, True) | None \<Rightarrow> ([], False))"

section \<open>Writes\<close>

definition attach_key :: "int \<Rightarrow> string \<Rightarrow> (int, lease) gomap \<Rightarrow> (int, lease) gomap" where
  "attach_key leaseID key ls =
     (if leaseID = 0 then ls
      else case gm_get ls leaseID of
             None \<Rightarrow> ls
           | Some l \<Rightarrow> gm_set leaseID (l\<lparr>ls_Keys := List.insert key (ls_Keys l)\<rparr>) ls)"

definition detach_key :: "key_value option \<Rightarrow> string \<Rightarrow> (int, lease) gomap \<Rightarrow> (int, lease) gomap" where
  "detach_key prevKv key ls =
     (case prevKv of
        None \<Rightarrow> ls
      | Some kv \<Rightarrow>
          if kv_Lease kv = 0 then ls
          else case gm_get ls (kv_Lease kv) of
                 None \<Rightarrow> ls
               | Some l \<Rightarrow> gm_set (kv_Lease kv) (l\<lparr>ls_Keys := removeAll key (ls_Keys l)\<rparr>) ls)"

definition next_kv :: "string \<Rightarrow> string \<Rightarrow> int \<Rightarrow> int \<Rightarrow> key_value option \<Rightarrow> key_value" where
  "next_kv key val leaseID newRevision prevKv =
     \<lparr>kv_Key = key, kv_Value = val,
      kv_CreateRevision = (case prevKv of Some p \<Rightarrow> kv_CreateRevision p | None \<Rightarrow> newRevision),
      kv_ModRevision = newRevision,
      kv_Version = (case prevKv of Some p \<Rightarrow> kv_Version p + 1 | None \<Rightarrow> 1),
      kv_Lease = leaseID\<rparr>"

text \<open>The common part of the three put operations: allocate a revision, store, attach to the lease.\<close>

definition store_kv :: "string \<Rightarrow> string \<Rightarrow> int \<Rightarrow> MemoryEtcd \<Rightarrow> MemoryEtcd" where
  "store_kv key val leaseID m =
     (let prevKv = sm_Get (kvData m) key;
          newRevision = revision m + 1;
          kv = next_kv key val leaseID newRevision prevKv
      in m\<lparr>revision := newRevision, kvData := sm_Set key kv (kvData m),
           leases := attach_key leaseID key (leases m)\<rparr>)"

definition check_lease :: "int \<Rightarrow> int \<Rightarrow> MemoryEtcd \<Rightarrow> mem_error option" where
  "check_lease now leaseID m =
     (if leaseID = 0 then None
      else case gm_get (leases m) leaseID of
             None \<Rightarrow> Some (ErrLeaseNotFound leaseID)
           | Some l \<Rightarrow> if IsExpired now (Some l) then Some (ErrLeaseExpired leaseID) else None)"

definition me_PutWithLease ::
    "int \<Rightarrow> string \<Rightarrow> string \<Rightarrow> int \<Rightarrow> MemoryEtcd \<Rightarrow> mem_error + (MemoryEtcd \<times> int \<times> key_value option)" where
  "me_PutWithLease now key val leaseID m =
     (case check_lease now leaseID m of
        Some err \<Rightarrow> Inl err
      | None \<Rightarrow>
          let prevKv = sm_Get (kvData m) key;
              newRevision = revision m + 1;
              kv = next_kv key val leaseID newRevision prevKv
          in Inr (notifyWatches
                    \<lparr>we_Type = EventTypePut, we_Kv = Some kv, we_PrevKv = prevKv, we_Revision = newRevision\<rparr>
                    (store_kv key val leaseID m),
                  newRevision, prevKv))"

definition putUnlocked ::
    "int \<Rightarrow> string \<Rightarrow> string \<Rightarrow> int \<Rightarrow> MemoryEtcd \<Rightarrow> mem_error + (MemoryEtcd \<times> int \<times> key_value option)" where
  "putUnlocked now key val leaseID m =
     (if leaseID \<noteq> 0 \<and> (gm_get (leases m) leaseID = None \<or> IsExpired now (gm_get (leases m) leaseID))
      then Inl ErrInvalidLease
      else Inr (store_kv key val leaseID m, revision m + 1, sm_Get (kvData m) key))"

definition delete_kvs :: "string \<Rightarrow> string \<Rightarrow> MemoryEtcd \<Rightarrow> key_value list" where
  "delete_kvs key rangeEnd m =
     (if rangeEnd = [] then (case sm_Get (kvData m) key of Some kv \<Rightarrow> [kv] | None \<Rightarrow> [])
      else sm_Range key rangeEnd 0 (kvData m))"

definition delete_keys :: "string \<Rightarrow> string \<Rightarrow> MemoryEtcd \<Rightarrow> string list" where
  "delete_keys key rangeEnd m =
     (if rangeEnd = [] then (case sm_Get (kvData m) key of Some kv \<Rightarrow> [key] | None \<Rightarrow> [])
      else map kv_Key (sm_Range key rangeEnd 0 (kvData m)))"

definition remove_key :: "string \<Rightarrow> MemoryEtcd \<Rightarrow> MemoryEtcd" where
  "remove_key k m =
     m\<lparr>kvData := sm_Delete k (kvData m), leases := detach_key (sm_Get (kvData m) k) k (leases m)\<rparr>"

definition tombstone_event :: "int \<Rightarrow> key_value \<Rightarrow> watch_event" where
  "tombstone_event newRevision prevKv =
     \<lparr>we_Type = EventTypeDelete,
      we_Kv = Some \<lparr>kv_Key = kv_Key prevKv, kv_Value = [], kv_CreateRevision = kv_CreateRevision prevKv,
                    kv_ModRevision = newRevision, kv_Version = 0, kv_Lease = 0\<rparr>,
      we_PrevKv = Some prevKv, we_Revision = newRevision\<rparr>"

fun delete_loop :: "int \<Rightarrow> string list \<Rightarrow> MemoryEtcd \<Rightarrow> MemoryEtcd \<times> watch_event list" where
  "delete_loop newRevision [] m = (m, [])"
| "delete_loop newRevision (k # ks) m =
     (let prevKv = sm_Get (kvData m) k;
          (m', events) = delete_loop newRevision ks (remove_key k m)
      in (m', (case prevKv of Some p \<Rightarrow> [tombstone_event newRevision p] | None \<Rightarrow> []) @ events))"

definition me_DeleteRange ::
    "string \<Rightarrow> string \<Rightarrow> MemoryEtcd \<Rightarrow> MemoryEtcd \<times> int \<times> key_value list \<times> int" where
  "me_DeleteRange key rangeEnd m =
     (let keysToDelete = delete_keys key rangeEnd m;
          prevKvs = delete_kvs key rangeEnd m
      in if keysToDelete = [] then (m, 0, [], revision m)
         else let newRevision = revision m + 1;
                  (m', events) = delete_loop newRevision keysToDelete (m\<lparr>revision := newRevision\<rparr>)
              in (fold notifyWatches events m', int (length keysToDelete), prevKvs, newRevision))"

definition deleteUnlocked ::
    "string \<Rightarrow> string \<Rightarrow> MemoryEtcd \<Rightarrow> MemoryEtcd \<times> int \<times> key_value list \<times> int" where
  "deleteUnlocked key rangeEnd m =
     (let keysToDelete = delete_keys key rangeEnd m;
          prevKvs = delete_kvs key rangeEnd m
      in if keysToDelete = [] then (m, 0, [], revision m)
         else let newRevision = revision m + 1
              in (fold remove_key keysToDelete (m\<lparr>revision := newRevision\<rparr>),
                  int (length keysToDelete), prevKvs, newRevision))"

section \<open>Transactions\<close>

definition compareInt :: "int \<Rightarrow> int \<Rightarrow> compare_result \<Rightarrow> bool" where
  "compareInt a b result =
     (case result of
        CompareEqual \<Rightarrow> a = b
      | CompareGreater \<Rightarrow> a > b
      | CompareLess \<Rightarrow> a < b
      | CompareNotEqual \<Rightarrow> a \<noteq> b
      | CompareResultOther _ \<Rightarrow> False)"

definition bytes_Compare :: "string \<Rightarrow> string \<Rightarrow> int" where
  "bytes_Compare a b = (if a < b then -1 else if a = b then 0 else 1)"

definition compareBytes :: "string \<Rightarrow> string \<Rightarrow> compare_result \<Rightarrow> bool" where
  "compareBytes a b result =
     (let cmp = bytes_Compare a b
      in case result of
           CompareEqual \<Rightarrow> cmp = 0
         | CompareGreater \<Rightarrow> cmp > 0
         | CompareLess \<Rightarrow> cmp < 0
         | CompareNotEqual \<Rightarrow> cmp \<noteq> 0
         | CompareResultOther _ \<Rightarrow> False)"

definition evaluateCompare :: "compare \<Rightarrow> MemoryEtcd \<Rightarrow> bool" where
  "evaluateCompare cmp m =
     (let kv = sm_Get (kvData m) (cmp_Key cmp);
          field = (\<lambda>f. case kv of Some v \<Rightarrow> f v | None \<Rightarrow> 0)
      in case cmp_Target cmp of
           CompareVersion \<Rightarrow> compareInt (field kv_Version) (cu_Version (cmp_TargetUnion cmp)) (cmp_Result cmp)
         | CompareCreate \<Rightarrow>
             compareInt (field kv_CreateRevision) (cu_CreateRevision (cmp_TargetUnion cmp)) (cmp_Result cmp)
         | CompareMod \<Rightarrow> compareInt (field kv_ModRevision) (cu_ModRevision (cmp_TargetUnion cmp)) (cmp_Result cmp)
         | CompareValue \<Rightarrow>
             compareBytes (case kv of Some v \<Rightarrow> kv_Value v | None \<Rightarrow> []) (cu_Value (cmp_TargetUnion cmp))
               (cmp_Result cmp)
         | CompareLease \<Rightarrow> compareInt (field kv_Lease) (cu_Lease (cmp_TargetUnion cmp)) (cmp_Result cmp)
         | CompareTargetOther _ \<Rightarrow> False)"

text \<open>
  One operation of a transaction: the new state and its response, or the error.  An operation type
  that the \<open>switch\<close> does not name leaves the zero response.
\<close>

definition txn_op :: "int \<Rightarrow> op \<Rightarrow> MemoryEtcd \<Rightarrow> mem_error + (MemoryEtcd \<times> op_response)" where
  "txn_op now opn m =
     (case op_Type opn of
        OpRange \<Rightarrow>
          Inr (m, zero_op_response\<lparr>or_Type := OpRange,
                    or_RangeResp := Some (rangeUnlocked (op_Key opn) (op_RangeEnd opn) (op_Limit opn) m)\<rparr>)
      | OpPut \<Rightarrow>
          (case putUnlocked now (op_Key opn) (op_Value opn) (op_LeaseID opn) m of
             Inl err \<Rightarrow> Inl err
           | Inr (m', r, prevKv) \<Rightarrow>
               Inr (m', zero_op_response\<lparr>or_Type := OpPut,
                          or_PutResp := Some \<lparr>pr_PrevKv = prevKv, pr_Revision = r\<rparr>\<rparr>))
      | OpDelete \<Rightarrow>
          (case deleteUnlocked (op_Key opn) (op_RangeEnd opn) m of
             (m', deleted, prevKvs, r) \<Rightarrow>
               Inr (m', zero_op_response\<lparr>or_Type := OpDelete,
                          or_DeleteResp := Some \<lparr>dr_Deleted = deleted, dr_PrevKvs = prevKvs, dr_Revision = r\<rparr>\<rparr>))
      | _ \<Rightarrow> Inr (m, zero_op_response))"

text \<open>
  The operation loop stops at the first error; the state it reached stays, since nothing is rolled
  back.
\<close>

fun txn_ops :: "int \<Rightarrow> op list \<Rightarrow> MemoryEtcd \<Rightarrow> MemoryEtcd \<times> (mem_error + op_response list)" where
  "txn_ops now [] m = (m, Inr [])"
| "txn_ops now (opn # ops) m =
     (case txn_op now opn m of
        Inl err \<Rightarrow> (m, Inl err)
      | Inr (m', resp) \<Rightarrow>
          (case txn_ops now ops m' of
             (m'', Inl err) \<Rightarrow> (m'', Inl err)
           | (m'', Inr resps) \<Rightarrow> (m'', Inr (resp # resps))))"

definition txnUnlocked ::
    "int \<Rightarrow> compare list \<Rightarrow> op list \<Rightarrow> op list \<Rightarrow> MemoryEtcd \<Rightarrow> MemoryEtcd \<times> (mem_error + txn_response)" where
  "txnUnlocked now cmps thenOps elseOps m =
     (let succeeded = list_all (\<lambda>cmp. evaluateCompare cmp m) cmps
      in case txn_ops now (if succeeded then thenOps else elseOps) m of
           (m', Inl err) \<Rightarrow> (m', Inl err)
         | (m', Inr resps) \<Rightarrow>
             (m', Inr \<lparr>tr_Succeeded = succeeded, tr_Responses = resps, tr_Revision = revision m'\<rparr>))"

definition me_Txn ::
    "int \<Rightarrow> compare list \<Rightarrow> op list \<Rightarrow> op list \<Rightarrow> MemoryEtcd \<Rightarrow> MemoryEtcd \<times> (mem_error + txn_response)" where
  "me_Txn now cmps thenOps elseOps m = txnUnlocked now cmps thenOps elseOps m"

section \<open>Leases\<close>

definition me_LeaseGrant :: "int \<Rightarrow> int \<Rightarrow> int \<Rightarrow> MemoryEtcd \<Rightarrow> mem_error + (MemoryEtcd \<times> lease)" where
  "me_LeaseGrant now lid ttl m =
     (if gm_get (leases m) lid \<noteq> None then Inl (ErrLeaseExists lid)
      else let l = \<lparr>ls_ID = lid, ls_TTL = ttl, ls_GrantTime = now, ls_Keys = []\<rparr>
           in Inr (m\<lparr>leases := gm_set lid l (leases m)\<rparr>, l))"

text \<open>
  \<open>LeaseRevoke\<close> walks the lease's key set in the order Go's map iteration picks, \<open>order\<close>.
\<close>

fun revoke_loop :: "string list \<Rightarrow> MemoryEtcd \<Rightarrow> MemoryEtcd \<times> watch_event list" where
  "revoke_loop [] m = (m, [])"
| "revoke_loop (k # ks) m =
     (case sm_Get (kvData m) k of
        None \<Rightarrow> revoke_loop ks m
      | Some kv \<Rightarrow>
          let newRevision = revision m + 1;
              (m', events) =
                revoke_loop ks (m\<lparr>revision := newRevision, kvData := sm_Delete k (kvData m)\<rparr>)
          in (m', tombstone_event newRevision kv # events))"

definition me_LeaseRevoke ::
    "(string list \<Rightarrow> string list) \<Rightarrow> int \<Rightarrow> MemoryEtcd \<Rightarrow> mem_error + MemoryEtcd" where
  "me_LeaseRevoke order lid m =
     (case gm_get (leases m) lid of
        None \<Rightarrow> Inl (ErrLeaseNotFound lid)
      | Some l \<Rightarrow>
          (case revoke_loop (order (ls_Keys l)) m of
             (m', events) \<Rightarrow> Inr (fold notifyWatches events (m'\<lparr>leases := gm_del lid (leases m')\<rparr>))))"

definition me_LeaseRenew :: "int \<Rightarrow> int \<Rightarrow> MemoryEtcd \<Rightarrow> mem_error + (MemoryEtcd \<times> lease)" where
  "me_LeaseRenew now lid m =
     (case gm_get (leases m) lid of
        None \<Rightarrow> Inl (ErrLeaseNotFound lid)
      | Some l \<Rightarrow>
          let l' = the (fst (Renew now (ls_TTL l) (Some l)))
          in Inr (m\<lparr>leases := gm_set lid l' (leases m)\<rparr>, l'))"

definition me_LeaseTimeToLive :: "int \<Rightarrow> MemoryEtcd \<Rightarrow> mem_error + lease" where
  "me_LeaseTimeToLive lid m =
     (case gm_get (leases m) lid of None \<Rightarrow> Inl (ErrLeaseNotFound lid) | Some l \<Rightarrow> Inr l)"

definition me_Leases ::
    "((int \<times> lease) list \<Rightarrow> (int \<times> lease) list) \<Rightarrow> MemoryEtcd \<Rightarrow> lease list" where
  "me_Leases order m = map snd (order (leases m))"

section \<open>Legacy and administrative operations\<close>

definition me_Propose :: "int \<Rightarrow> string \<Rightarrow> string \<Rightarrow> MemoryEtcd \<Rightarrow> MemoryEtcd" where
  "me_Propose now k v m =
     (case me_PutWithLease now k v 0 m of Inl _ \<Rightarrow> m | Inr (m', _, _) \<Rightarrow> m')"

definition me_GetSnapshot ::
    "((string \<times> key_value) list \<Rightarrow> (string \<times> key_value) list) \<Rightarrow> MemoryEtcd \<Rightarrow> string" where
  "me_GetSnapshot order m =
     concat (map (\<lambda>(key, kv). key @ ''='' @ kv_Value kv @ [CHR 0x0A]) (order (sm_GetAll (kvData m))))"

definition me_Compact :: "int \<Rightarrow> MemoryEtcd \<Rightarrow> MemoryEtcd" where
  "me_Compact rev_unused m = m"

definition me_GetRaftStatus :: "MemoryEtcd \<Rightarrow> raft_status" where
  "me_GetRaftStatus m = \<lparr>rs_NodeID = 1, rs_Term = 1, rs_LeaderID = 1, rs_State = ''leader'',
     rs_Applied = revision m, rs_Commit = revision m\<rparr>"

definition me_TransferLeadership :: "int \<Rightarrow> mem_error + unit" where
  "me_TransferLeadership targetID = Inl ErrLeadershipTransfer"

end
