(* ===== verification/Memory_Invariant.thy ===== *)
theory Memory_Invariant
  imports Memory_Store
begin

text \<open>
  The invariant of the in-memory engine and its preservation.  \<open>data_ok\<close> is the well-formedness of
  the key space (etcd's revision discipline), \<open>leases_ok\<close> of the lease table and \<open>lease_inv\<close> ties each
  key to the lease it names; \<open>mem_step\<close> is the step relation of the standalone engine, with the
  pending goroutines and the readers of the event channels as steps of their own.
\<close>

section \<open>Well-formed key spaces\<close>

definition kv_ok :: "int \<Rightarrow> string \<Rightarrow> key_value \<Rightarrow> bool" where
  "kv_ok r k kv \<longleftrightarrow> kv_Key kv = k \<and> 1 \<le> kv_CreateRevision kv \<and> kv_CreateRevision kv \<le> kv_ModRevision kv
     \<and> kv_ModRevision kv \<le> r \<and> 1 \<le> kv_Version kv
     \<and> kv_Version kv \<le> kv_ModRevision kv - kv_CreateRevision kv + 1"

definition data_ok :: "int \<Rightarrow> (string \<rightharpoonup> key_value) \<Rightarrow> bool" where
  "data_ok r M \<longleftrightarrow> 0 \<le> r \<and> (\<forall>k kv. M k = Some kv \<longrightarrow> kv_ok r k kv)
     \<and> (\<forall>k1 k2 v1 v2. M k1 = Some v1 \<longrightarrow> M k2 = Some v2 \<longrightarrow> kv_ModRevision v1 = kv_ModRevision v2 \<longrightarrow> k1 = k2)"

lemma data_ok_empty [simp]: "0 \<le> r \<Longrightarrow> data_ok r Map.empty"
  by (simp add: data_ok_def)

lemma data_okD:
  assumes "data_ok r M"
  shows "0 \<le> r" "M k = Some kv \<Longrightarrow> kv_ok r k kv" "keys_ok M"
  using assms by (auto simp: data_ok_def keys_ok_def kv_ok_def)

lemma kv_ok_mono: "kv_ok r k kv \<Longrightarrow> r \<le> r' \<Longrightarrow> kv_ok r' k kv"
  by (auto simp: kv_ok_def)

lemma data_ok_mono: "data_ok r M \<Longrightarrow> r \<le> r' \<Longrightarrow> data_ok r' M"
  unfolding data_ok_def by (meson kv_ok_mono order_trans)

lemma data_ok_sub: "data_ok r M \<Longrightarrow> M' \<subseteq>\<^sub>m M \<Longrightarrow> data_ok r M'"
  unfolding data_ok_def map_le_def by (metis domI)

lemma data_ok_del [simp]: "data_ok r M \<Longrightarrow> data_ok r (M(k := None))"
  by (erule data_ok_sub) (simp add: map_le_def)

lemma kv_ok_next_kv:
  assumes "data_ok r M"
  shows "kv_ok (r + 1) k (next_kv k v l (r + 1) (M k))"
  using data_okD(1,2) [OF assms]
  by (cases "M k") (force simp: kv_ok_def next_kv_def)+

lemma data_ok_put:
  assumes "data_ok r M"
  shows "data_ok (r + 1) (M(k \<mapsto> next_kv k v l (r + 1) (M k)))"
proof -
  have old: "kv_ok (r + 1) k' kv" "kv_ModRevision kv \<le> r" if "M k' = Some kv" for k' kv
    using data_okD(2) [OF assms that] by (auto simp: kv_ok_def)
  have new: "kv_ModRevision (next_kv k v l (r + 1) (M k)) = r + 1"
    by (simp add: next_kv_def)
  show ?thesis
    using assms old(1) old(2) kv_ok_next_kv [OF assms, of k v l] new
    unfolding data_ok_def by (auto split: if_splits dest: old(2))
qed

section \<open>The lease table\<close>

definition leases_ok :: "(int, lease) gomap \<Rightarrow> bool" where
  "leases_ok ls \<longleftrightarrow> gm_wf ls \<and> (\<forall>i l. gm_get ls i = Some l \<longrightarrow> ls_ID l = i \<and> distinct (ls_Keys l))"

text \<open>Every key that names a lease is registered with that lease.\<close>

definition lease_inv :: "(string \<rightharpoonup> key_value) \<Rightarrow> (int, lease) gomap \<Rightarrow> bool" where
  "lease_inv M ls \<longleftrightarrow> (\<forall>k kv. M k = Some kv \<longrightarrow> kv_Lease kv \<noteq> 0 \<longrightarrow>
     (\<exists>l. gm_get ls (kv_Lease kv) = Some l \<and> k \<in> set (ls_Keys l)))"

lemma leases_ok_Nil [simp]: "leases_ok []"
  by (simp add: leases_ok_def)

lemma leases_ok_set [wf_intros]:
  "leases_ok ls \<Longrightarrow> ls_ID l = i \<Longrightarrow> distinct (ls_Keys l) \<Longrightarrow> leases_ok (gm_set i l ls)"
  by (simp add: leases_ok_def gomap_simps)

lemma leases_ok_del [wf_intros]: "leases_ok ls \<Longrightarrow> leases_ok (gm_del i ls)"
  by (simp add: leases_ok_def gomap_simps)

lemma leases_okD: "leases_ok ls \<Longrightarrow> gm_get ls i = Some l \<Longrightarrow> ls_ID l = i \<and> distinct (ls_Keys l)"
  by (simp add: leases_ok_def)

lemma leases_ok_attach [wf_intros]: "leases_ok ls \<Longrightarrow> leases_ok (attach_key i k ls)"
  by (auto simp: attach_key_def split: option.splits intro!: leases_ok_set dest: leases_okD)

lemma leases_ok_detach [wf_intros]: "leases_ok ls \<Longrightarrow> leases_ok (detach_key p k ls)"
  by (auto simp: detach_key_def split: option.splits intro!: leases_ok_set distinct_removeAll dest: leases_okD)

lemma lease_inv_put:
  assumes "lease_inv M ls" "i \<noteq> 0 \<Longrightarrow> gm_get ls i \<noteq> None" "kv_Lease kv = i"
  shows "lease_inv (M(k \<mapsto> kv)) (attach_key i k ls)"
proof -
  have keep: "\<exists>l. gm_get (attach_key i k ls) j = Some l \<and> k' \<in> set (ls_Keys l)"
    if "gm_get ls j = Some l" "k' \<in> set (ls_Keys l)" for j k' l
    using that by (auto simp: attach_key_def gomap_simps split: option.splits)
  have "\<exists>l. gm_get (attach_key i k ls) i = Some l \<and> k \<in> set (ls_Keys l)" if "i \<noteq> 0"
    using assms(2) [OF that] that by (auto simp: attach_key_def gomap_simps split: option.splits)
  with assms(1,3) keep show ?thesis
    unfolding lease_inv_def by (metis fun_upd_apply option.inject)
qed

lemma lease_inv_del: "lease_inv M ls \<Longrightarrow> lease_inv (M(k := None)) (detach_key (M k) k ls)"
  by (cases "M k"; cases "gm_get ls (kv_Lease (the (M k)))")
     (force simp: lease_inv_def detach_key_def gomap_simps)+

lemma lease_inv_keysI:
  assumes "lease_inv M ls"
    and "\<And>i l. gm_get ls i = Some l \<Longrightarrow> \<exists>l'. gm_get ls' i = Some l' \<and> set (ls_Keys l) \<subseteq> set (ls_Keys l')"
  shows "lease_inv M ls'"
  using assms unfolding lease_inv_def by (meson subsetD)

section \<open>The engine invariant\<close>

definition me_inv :: "MemoryEtcd \<Rightarrow> bool" where
  "me_inv m \<longleftrightarrow> sm_inv (kvData m) \<and> data_ok (revision m) (sm_Get (kvData m))
     \<and> leases_ok (leases m) \<and> watches_ok (watches m)"

abbreviation me_lease_inv :: "MemoryEtcd \<Rightarrow> bool" where
  "me_lease_inv m \<equiv> lease_inv (sm_Get (kvData m)) (leases m)"

lemma me_invD:
  assumes "me_inv m"
  shows "sm_inv (kvData m)" "data_ok (revision m) (sm_Get (kvData m))" "leases_ok (leases m)"
    "watches_ok (watches m)" "keys_ok (sm_Get (kvData m))" "finite (dom (sm_Get (kvData m)))"
  using assms by (auto simp: me_inv_def intro: data_okD sm.finite_dom)

lemma me_inv_New [simp]: "me_inv NewMemoryEtcd" "me_lease_inv NewMemoryEtcd"
  by (simp_all add: me_inv_def lease_inv_def NewMemoryEtcd_def sm_simps fun_eq_iff [symmetric]
        data_ok_def)

lemma me_inv_notifyWatches [wf_intros]: "me_inv m \<Longrightarrow> me_inv (notifyWatches e m)"
  by (simp add: me_inv_def watch_inv_notifyWatches)

lemma me_inv_fold_notifyWatches [wf_intros]: "me_inv m \<Longrightarrow> me_inv (fold notifyWatches es m)"
  by (simp add: me_inv_def watch_inv_fold_notifyWatches)

lemma me_inv_notifyWatchers [wf_intros]: "me_inv m \<Longrightarrow> me_inv (notifyWatchers k kv t m)"
  by (simp add: me_inv_def watch_inv_notifyWatchers)

lemma me_inv_bump [wf_intros]: "me_inv m \<Longrightarrow> revision m \<le> r \<Longrightarrow> me_inv (m\<lparr>revision := r\<rparr>)"
  by (auto simp: me_inv_def elim: data_ok_mono)

lemma store_kv_frame [simp]:
  "revision (store_kv k v l m) = revision m + 1" "watches (store_kv k v l m) = watches m"
  "leases (store_kv k v l m) = attach_key l k (leases m)" "goroutines (store_kv k v l m) = goroutines m"
  by (simp_all add: store_kv_def Let_def)

lemma store_kv_Get [simp]:
  "sm_inv (kvData m) \<Longrightarrow> sm_Get (kvData (store_kv k v l m))
     = (sm_Get (kvData m))(k \<mapsto> next_kv k v l (revision m + 1) (sm_Get (kvData m) k))"
  by (simp add: store_kv_def Let_def sm_simps)

lemma me_inv_store_kv [wf_intros]: "me_inv m \<Longrightarrow> me_inv (store_kv k v l m)"
proof -
  assume inv: "me_inv m"
  then have "sm_inv (kvData (store_kv k v l m))"
    by (simp add: me_inv_def store_kv_def Let_def sm_simps)
  with inv show ?thesis
    by (simp add: me_inv_def leases_ok_attach data_ok_put)
qed

lemma lease_inv_store_kv [wf_intros]:
  assumes "me_inv m" "me_lease_inv m" "l \<noteq> 0 \<Longrightarrow> gm_get (leases m) l \<noteq> None"
  shows "me_lease_inv (store_kv k v l m)"
  using lease_inv_put [OF assms(2), of l "next_kv k v l (revision m + 1) (sm_Get (kvData m) k)" k] assms
  by (simp add: me_invD(1) next_kv_def)

section \<open>Deletion loops\<close>

lemma remove_key_frame [simp]:
  "revision (remove_key k m) = revision m" "watches (remove_key k m) = watches m"
  "kvData (remove_key k m) = sm_Delete k (kvData m)" "goroutines (remove_key k m) = goroutines m"
  "leases (remove_key k m) = detach_key (sm_Get (kvData m) k) k (leases m)"
  by (simp_all add: remove_key_def)

lemma me_inv_remove_key [wf_intros]: "me_inv m \<Longrightarrow> me_inv (remove_key k m)"
  by (simp add: me_inv_def sm_simps leases_ok_detach)

lemma lease_inv_remove_key [wf_intros]: "me_inv m \<Longrightarrow> me_lease_inv m \<Longrightarrow> me_lease_inv (remove_key k m)"
  by (simp add: me_inv_def sm_simps lease_inv_del)

lemma fold_remove_key_frame [simp]:
  "revision (fold remove_key ks m) = revision m" "watches (fold remove_key ks m) = watches m"
  "kvData (fold remove_key ks m) = fold sm_Delete ks (kvData m)"
  "goroutines (fold remove_key ks m) = goroutines m"
  by (induction ks arbitrary: m) simp_all

lemma inv_fold_remove_key [wf_intros]:
  "me_inv m \<Longrightarrow> me_inv (fold remove_key ks m)"
  "me_inv m \<Longrightarrow> me_lease_inv m \<Longrightarrow> lease_inv (sm_Get (fold sm_Delete ks (kvData m))) (leases (fold remove_key ks m))"
proof (induction ks arbitrary: m)
  case (Cons k ks)
  {
    case 1
    then show ?case
      by (simp add: Cons.IH(1) me_inv_remove_key)
  next
    case 2
    then show ?case
      using Cons.IH(2) [OF me_inv_remove_key lease_inv_remove_key] by simp
  }
qed simp_all

lemma fst_delete_loop [simp]: "fst (delete_loop r ks m) = fold remove_key ks m"
  by (induction r ks m rule: delete_loop.induct) (simp_all add: Let_def case_prod_unfold)

lemma snd_delete_loop:
  assumes "sm_inv (kvData m)" "distinct ks" "set ks \<subseteq> dom (sm_Get (kvData m))"
  shows "snd (delete_loop r ks m) = map (\<lambda>k. tombstone_event r (the (sm_Get (kvData m) k))) ks"
  using assms
proof (induction ks arbitrary: m)
  case (Cons k ks)
  have "snd (delete_loop r ks (remove_key k m))
      = map (\<lambda>j. tombstone_event r (the (sm_Get (kvData (remove_key k m)) j))) ks"
    using Cons.prems by (intro Cons.IH) (auto simp: sm_simps)
  also have "\<dots> = map (\<lambda>j. tombstone_event r (the (sm_Get (kvData m) j))) ks"
    using Cons.prems by (auto simp: sm_simps)
  finally show ?case
    using Cons.prems(3) by (auto simp: Let_def case_prod_unfold)
qed simp

lemma delete_loop_eq: "delete_loop r ks m = (fold remove_key ks m, snd (delete_loop r ks m))"
  by (metis fst_delete_loop prod.collapse)

text \<open>The keys a deletion removes, over the map alone.\<close>

definition sel_keys :: "(string \<rightharpoonup> key_value) \<Rightarrow> string \<Rightarrow> string \<Rightarrow> string list" where
  "sel_keys M key rangeEnd =
     (if rangeEnd = [] then (if M key = None then [] else [key]) else range_keys M key rangeEnd)"

lemma set_sel_keys:
  "finite (dom M) \<Longrightarrow> set (sel_keys M key rangeEnd)
     = {k \<in> dom M. if rangeEnd = [] then k = key else in_key_range k key rangeEnd}"
  by (auto simp: sel_keys_def set_range_keys)

lemma distinct_sel_keys [simp]: "distinct (sel_keys M key rangeEnd)"
  by (simp add: sel_keys_def)

lemma delete_keys_sel:
  "me_inv m \<Longrightarrow> delete_keys key rangeEnd m = sel_keys (sm_Get (kvData m)) key rangeEnd"
  using sm_Range_spec [of "kvData m" key rangeEnd 0] range_spec_keys [of "sm_Get (kvData m)" key rangeEnd]
  by (auto simp: delete_keys_def sel_keys_def me_invD split: option.splits)

lemma delete_kvs_sel:
  "me_inv m \<Longrightarrow> delete_kvs key rangeEnd m
     = map (\<lambda>k. the (sm_Get (kvData m) k)) (sel_keys (sm_Get (kvData m)) key rangeEnd)"
  using sm_Range_spec [of "kvData m" key rangeEnd 0]
  by (auto simp: delete_kvs_def sel_keys_def me_invD range_spec_def split: option.splits)

section \<open>Every operation preserves the invariant\<close>

lemma check_lease_None: "check_lease now i m = None \<Longrightarrow> i \<noteq> 0 \<Longrightarrow> gm_get (leases m) i \<noteq> None"
  by (auto simp: check_lease_def split: option.splits)

lemma inv_me_PutWithLease [wf_intros]:
  assumes "me_PutWithLease now k v i m = Inr (m', r, p)" "me_inv m"
  shows "me_inv m'" "me_lease_inv m \<Longrightarrow> me_lease_inv m'"
  using assms
  by (auto simp: me_PutWithLease_def Let_def split: option.splits
        intro!: me_inv_notifyWatches me_inv_store_kv lease_inv_store_kv dest: check_lease_None
        simp del: store_kv_Get store_kv_frame)

lemma inv_putUnlocked [wf_intros]:
  assumes "putUnlocked now k v i m = Inr (m', r, p)" "me_inv m"
  shows "me_inv m'" "me_lease_inv m \<Longrightarrow> me_lease_inv m'"
  using assms
  by (auto simp: putUnlocked_def split: if_splits intro!: me_inv_store_kv lease_inv_store_kv
        simp del: store_kv_Get store_kv_frame)

lemma inv_me_DeleteRange [wf_intros]:
  assumes "me_inv m"
  shows "me_inv (fst (me_DeleteRange key rangeEnd m))"
    "me_lease_inv m \<Longrightarrow> me_lease_inv (fst (me_DeleteRange key rangeEnd m))"
  using assms inv_fold_remove_key(2) [OF me_inv_bump [OF assms], of "revision m + 1"]
  by (auto simp: me_DeleteRange_def Let_def case_prod_unfold
        intro!: me_inv_fold_notifyWatches inv_fold_remove_key me_inv_bump)

lemma inv_deleteUnlocked [wf_intros]:
  assumes "me_inv m"
  shows "me_inv (fst (deleteUnlocked key rangeEnd m))"
    "me_lease_inv m \<Longrightarrow> me_lease_inv (fst (deleteUnlocked key rangeEnd m))"
  using assms inv_fold_remove_key(2) [OF me_inv_bump [OF assms], of "revision m + 1"]
  by (auto simp: deleteUnlocked_def Let_def intro!: inv_fold_remove_key me_inv_bump)

lemma inv_txn_op [wf_intros]:
  assumes "txn_op now opn m = Inr (m', resp)" "me_inv m"
  shows "me_inv m'" "me_lease_inv m \<Longrightarrow> me_lease_inv m'"
  using assms inv_deleteUnlocked [OF assms(2), of "op_Key opn" "op_RangeEnd opn"]
  by (auto simp: txn_op_def split: op_type.splits sum.splits prod.splits dest: inv_putUnlocked)

lemma fst_txn_ops_Cons:
  "fst (txn_ops now (opn # ops) m)
     = (case txn_op now opn m of Inl err \<Rightarrow> m | Inr (m', resp) \<Rightarrow> fst (txn_ops now ops m'))"
  by (simp split: sum.splits prod.splits)

lemma inv_txn_ops [wf_intros]:
  "me_inv m \<Longrightarrow> me_inv (fst (txn_ops now ops m))"
  "me_inv m \<Longrightarrow> me_lease_inv m \<Longrightarrow> me_lease_inv (fst (txn_ops now ops m))"
proof (induction ops arbitrary: m)
  case (Cons opn ops)
  {
    case 1
    with Cons.IH(1) show ?case
      by (auto simp: fst_txn_ops_Cons inv_txn_op(1) simp del: txn_ops.simps split: sum.splits)
  next
    case 2
    with Cons.IH(2) show ?case
      by (auto simp: fst_txn_ops_Cons inv_txn_op simp del: txn_ops.simps split: sum.splits)
  }
qed simp_all

lemma fst_txnUnlocked:
  "fst (txnUnlocked now cmps thenOps elseOps m)
     = fst (txn_ops now (if list_all (\<lambda>cmp. evaluateCompare cmp m) cmps then thenOps else elseOps) m)"
  by (auto simp: txnUnlocked_def Let_def split: prod.splits sum.splits)

lemma inv_me_Txn [wf_intros]:
  assumes "me_inv m"
  shows "me_inv (fst (me_Txn now cmps thenOps elseOps m))"
    "me_lease_inv m \<Longrightarrow> me_lease_inv (fst (me_Txn now cmps thenOps elseOps m))"
  using assms by (auto simp: me_Txn_def fst_txnUnlocked intro: inv_txn_ops)

lemma inv_me_LeaseGrant [wf_intros]:
  assumes "me_LeaseGrant now i ttl m = Inr (m', l)" "me_inv m"
  shows "me_inv m'" "me_lease_inv m \<Longrightarrow> me_lease_inv m'"
  using assms
  by (auto simp: me_LeaseGrant_def Let_def me_inv_def gomap_simps split: if_splits
        intro!: leases_ok_set elim!: lease_inv_keysI)

lemma inv_me_LeaseRenew [wf_intros]:
  assumes "me_LeaseRenew now i m = Inr (m', l)" "me_inv m"
  shows "me_inv m'" "me_lease_inv m \<Longrightarrow> me_lease_inv m'"
  using assms leases_okD [OF me_invD(3) [OF assms(2)], of i]
  by (auto simp: me_LeaseRenew_def Let_def me_inv_def gomap_simps Renew_def split: option.splits
        intro!: leases_ok_set elim!: lease_inv_keysI)

text \<open>The revocation loop over any list of keys.\<close>

lemma revoke_loop_frame [simp]:
  "leases (fst (revoke_loop ks m)) = leases m" "watches (fst (revoke_loop ks m)) = watches m"
  "goroutines (fst (revoke_loop ks m)) = goroutines m"
  by (induction ks m rule: revoke_loop.induct) (auto simp: Let_def case_prod_unfold split: option.splits)

lemma revoke_loop_data:
  assumes "sm_inv (kvData m)"
  shows "sm_inv (kvData (fst (revoke_loop ks m)))"
    "sm_Get (kvData (fst (revoke_loop ks m))) = sm_Get (kvData m) |` (- set ks)"
    "revision (fst (revoke_loop ks m)) = revision m + int (card (set ks \<inter> dom (sm_Get (kvData m))))"
proof -
  have "sm_inv (kvData (fst (revoke_loop ks m))) \<and>
    sm_Get (kvData (fst (revoke_loop ks m))) = sm_Get (kvData m) |` (- set ks) \<and>
    revision (fst (revoke_loop ks m)) = revision m + int (card (set ks \<inter> dom (sm_Get (kvData m))))"
    using assms
  proof (induction ks arbitrary: m)
    case (Cons k ks)
    show ?case
    proof (cases "sm_Get (kvData m) k")
      case None
      with Cons.IH [of m] Cons.prems show ?thesis
        by (auto simp: fun_eq_iff restrict_map_def domIff)
    next
      case (Some kv)
      let ?M = "sm_Get (kvData m)" and ?M' = "sm_Get (sm_Delete k (kvData m))"
      let ?m = "m\<lparr>revision := revision m + 1, kvData := sm_Delete k (kvData m)\<rparr>"
      have M': "?M' = ?M(k := None)"
        using Cons.prems by (rule sm.get_del)
      have "set (k # ks) \<inter> dom ?M = insert k (set ks \<inter> dom ?M')"
        using Some unfolding M' by auto
      then have "card (set (k # ks) \<inter> dom ?M) = Suc (card (set ks \<inter> dom ?M'))"
        using M' by simp
      moreover have "?M' |` (- set ks) = ?M |` (- set (k # ks))"
        unfolding M' by (auto simp: restrict_map_def)
      moreover have "revoke_loop (k # ks) m =
          (fst (revoke_loop ks ?m), tombstone_event (revision m + 1) kv # snd (revoke_loop ks ?m))"
        using Some by (simp add: Let_def case_prod_unfold)
      ultimately show ?thesis
        using Cons.IH [of ?m] sm.inv_del [OF Cons.prems, of k] by simp
    qed
  qed (simp add: restrict_map_def)
  then show "sm_inv (kvData (fst (revoke_loop ks m)))"
    "sm_Get (kvData (fst (revoke_loop ks m))) = sm_Get (kvData m) |` (- set ks)"
    "revision (fst (revoke_loop ks m)) = revision m + int (card (set ks \<inter> dom (sm_Get (kvData m))))"
    by auto
qed

lemma me_LeaseRevoke_Inr:
  assumes "me_LeaseRevoke order i m = Inr m'"
  obtains l where "gm_get (leases m) i = Some l"
    and "kvData m' = kvData (fst (revoke_loop (order (ls_Keys l)) m))"
    and "revision m' = revision (fst (revoke_loop (order (ls_Keys l)) m))"
    and "leases m' = gm_del i (leases m)"
    and "watches_ok (watches m) \<longrightarrow> watches_ok (watches m')"
proof (cases "gm_get (leases m) i")
  case (Some l)
  with assms have "m' = fold notifyWatches (snd (revoke_loop (order (ls_Keys l)) m))
      ((fst (revoke_loop (order (ls_Keys l)) m))\<lparr>leases := gm_del i (leases m)\<rparr>)"
    by (simp add: me_LeaseRevoke_def case_prod_unfold)
  with Some show thesis
    by (intro that [of l]) (simp_all add: watch_inv_fold_notifyWatches)
qed (use assms in \<open>simp add: me_LeaseRevoke_def\<close>)

lemma inv_me_LeaseRevoke [wf_intros]:
  assumes "me_LeaseRevoke order i m = Inr m'" "me_inv m"
  shows "me_inv m'" "iteration_order order \<Longrightarrow> me_lease_inv m \<Longrightarrow> me_lease_inv m'"
proof -
  obtain l where l: "gm_get (leases m) i = Some l"
      "kvData m' = kvData (fst (revoke_loop (order (ls_Keys l)) m))"
      "revision m' = revision (fst (revoke_loop (order (ls_Keys l)) m))"
      "leases m' = gm_del i (leases m)" "watches_ok (watches m) \<longrightarrow> watches_ok (watches m')"
    using assms(1) by (rule me_LeaseRevoke_Inr)
  note d = revoke_loop_data [OF me_invD(1) [OF assms(2)], of "order (ls_Keys l)"]
  have "data_ok (revision m') (sm_Get (kvData m'))"
    unfolding l d by (rule data_ok_sub [OF data_ok_mono [OF me_invD(2) [OF assms(2)]]])
      (simp_all add: map_le_def)
  with assms(2) l d show "me_inv m'"
    by (simp add: me_inv_def leases_ok_del)
  show "me_lease_inv m'" if "iteration_order order" "me_lease_inv m"
    unfolding l d using that l(1)
    by (auto simp: lease_inv_def gomap_simps restrict_map_def split: if_splits) (metis option.inject)
qed

section \<open>Evolution of the key space\<close>

text \<open>
  \<open>evolves m m'\<close>: the revision did not decrease, and every entry of the later state either was there
  before, unchanged, or carries a revision newer than the earlier state's.
\<close>

definition evolves :: "MemoryEtcd \<Rightarrow> MemoryEtcd \<Rightarrow> bool" where
  "evolves m m' \<longleftrightarrow> revision m \<le> revision m' \<and>
     (\<forall>k kv. sm_Get (kvData m') k = Some kv \<longrightarrow>
        sm_Get (kvData m) k = Some kv \<or> revision m < kv_ModRevision kv)"

lemma evolves_refl [simp]: "evolves m m"
  by (simp add: evolves_def)

lemma evolves_trans: "evolves m m' \<Longrightarrow> evolves m' m'' \<Longrightarrow> evolves m m''"
  unfolding evolves_def by (meson order_trans order_le_less_trans)

lemma evolves_sub:
  "revision m \<le> revision m' \<Longrightarrow> sm_Get (kvData m') \<subseteq>\<^sub>m sm_Get (kvData m) \<Longrightarrow> evolves m m'"
  unfolding evolves_def map_le_def by (metis domI)

lemma evolves_frame: "revision m' = revision m \<Longrightarrow> kvData m' = kvData m \<Longrightarrow> evolves m m'"
  by (simp add: evolves_def)

lemma evolves_notifyWatches [simp]: "evolves m (notifyWatches e m') = evolves m m'"
  by (simp add: evolves_def)

lemma evolves_store_kv: "sm_inv (kvData m) \<Longrightarrow> evolves m (store_kv k v l m)"
  by (auto simp: evolves_def next_kv_def)

lemma fold_sm_Delete_le: "sm_inv sm \<Longrightarrow> sm_Get (fold sm_Delete ks sm) \<subseteq>\<^sub>m sm_Get sm"
  by (simp add: map_le_def dom_def sm.get_fold_del)

lemma evolves_me_PutWithLease:
  "me_inv m \<Longrightarrow> me_PutWithLease now k v i m = Inr (m', r, p) \<Longrightarrow> evolves m m'"
  by (auto simp: me_PutWithLease_def Let_def me_invD evolves_store_kv split: option.splits)

lemma evolves_me_DeleteRange: "me_inv m \<Longrightarrow> evolves m (fst (me_DeleteRange key rangeEnd m))"
  by (auto simp: me_DeleteRange_def Let_def case_prod_unfold me_invD fold_sm_Delete_le intro!: evolves_sub)

lemma evolves_deleteUnlocked: "me_inv m \<Longrightarrow> evolves m (fst (deleteUnlocked key rangeEnd m))"
  by (auto simp: deleteUnlocked_def Let_def me_invD fold_sm_Delete_le intro!: evolves_sub)

lemma evolves_txn_op: "me_inv m \<Longrightarrow> txn_op now opn m = Inr (m', resp) \<Longrightarrow> evolves m m'"
  using evolves_deleteUnlocked [of m "op_Key opn" "op_RangeEnd opn"]
  by (auto simp: txn_op_def putUnlocked_def me_invD evolves_store_kv
        split: op_type.splits sum.splits prod.splits if_splits)

lemma evolves_txn_ops: "me_inv m \<Longrightarrow> evolves m (fst (txn_ops now ops m))"
proof (induction ops arbitrary: m)
  case (Cons opn ops)
  then show ?case
    by (auto simp: fst_txn_ops_Cons simp del: txn_ops.simps split: sum.splits
          intro: evolves_trans evolves_txn_op inv_txn_op(1))
qed simp

lemma evolves_me_LeaseRevoke: "me_inv m \<Longrightarrow> me_LeaseRevoke order i m = Inr m' \<Longrightarrow> evolves m m'"
  by (erule me_LeaseRevoke_Inr, rule evolves_sub)
     (simp_all add: revoke_loop_data me_invD map_le_def)

section \<open>The standalone engine as a step relation\<close>

text \<open>
  One step is one API call, one pending goroutine taking one of its \<open>select\<close> branches, or a reader
  taking the oldest event of a channel.  A call that returns an error leaves the state unchanged, except
  for a transaction, whose earlier operations stay applied.
\<close>

inductive mem_step :: "MemoryEtcd \<Rightarrow> MemoryEtcd \<Rightarrow> bool" where
  step_put: "me_PutWithLease now key val leaseID m = Inr (m', r, p) \<Longrightarrow> mem_step m m'"
| step_delete: "me_DeleteRange key rangeEnd m = (m', d, p, r) \<Longrightarrow> mem_step m m'"
| step_txn: "me_Txn now cmps thenOps elseOps m = (m', res) \<Longrightarrow> mem_step m m'"
| step_grant: "me_LeaseGrant now i ttl m = Inr (m', l) \<Longrightarrow> mem_step m m'"
| step_revoke: "iteration_order order \<Longrightarrow> me_LeaseRevoke order i m = Inr m' \<Longrightarrow> mem_step m m'"
| step_renew: "me_LeaseRenew now i m = Inr (m', l) \<Longrightarrow> mem_step m m'"
| step_watch: "WatchWithOptions key rangeEnd r i opts m = Inr m' \<Longrightarrow> mem_step m m'"
| step_cancel: "CancelWatch i m = Inr m' \<Longrightarrow> mem_step m m'"
| step_slow: "goroutines m = gs @ SlowSendEvent i e # gs' \<Longrightarrow>
    slowSendEvent c i e (m\<lparr>goroutines := gs @ gs'\<rparr>) = Finished m' \<Longrightarrow> mem_step m m'"
| step_historical: "goroutines m = gs @ SendHistoricalEvents i key rangeEnd # gs' \<Longrightarrow>
    sendHistoricalEvents c i key rangeEnd (m\<lparr>goroutines := gs @ gs'\<rparr>) = Finished m' \<Longrightarrow> mem_step m m'"
| step_receive: "gm_get (watches m) i = Some sub \<Longrightarrow> ws_eventCh sub = e # es \<Longrightarrow>
    mem_step m (m\<lparr>watches := gm_set i (sub\<lparr>ws_eventCh := es\<rparr>) (watches m)\<rparr>)"

inductive mem_reach :: "MemoryEtcd \<Rightarrow> bool" where
  reach_init: "mem_reach NewMemoryEtcd"
| reach_step: "mem_reach m \<Longrightarrow> mem_step m m' \<Longrightarrow> mem_reach m'"

lemma WatchWithOptions_frame:
  assumes "WatchWithOptions key rangeEnd r i opts m = Inr m'"
  shows "kvData m' = kvData m" "revision m' = revision m" "leases m' = leases m"
  using assms by (auto simp: WatchWithOptions_def Let_def split: if_splits)

lemma CancelWatch_frame:
  assumes "CancelWatch i m = Inr m'"
  shows "kvData m' = kvData m" "revision m' = revision m" "leases m' = leases m"
  using assms by (auto simp: CancelWatch_def split: option.splits if_splits)

lemma slowSendEvent_frame:
  assumes "slowSendEvent c i e m = Finished m'"
  shows "kvData m' = kvData m" "revision m' = revision m" "leases m' = leases m"
  using assms
  by (auto simp: slowSendEvent_def CancelWatch_frame split: select_case.splits option.splits if_splits sum.splits)

lemma sendHistoricalEvents_frame:
  assumes "sendHistoricalEvents c i key rangeEnd m = Finished m'"
  shows "kvData m' = kvData m" "revision m' = revision m" "leases m' = leases m"
  using assms by (auto simp: sendHistoricalEvents_def split: option.splits if_splits)

text \<open>The steps that only touch the watch side keep the rest of the state.\<close>

lemma watch_step_inv:
  assumes "me_inv m" "kvData m' = kvData m" "revision m' = revision m" "leases m' = leases m"
    "watches_ok (watches m) \<Longrightarrow> watches_ok (watches m')"
  shows "me_inv m'" "me_lease_inv m' = me_lease_inv m" "evolves m m'"
  using assms by (simp_all add: me_inv_def evolves_def)

lemma mem_step_inv:
  assumes "mem_step m m'" "me_inv m"
  shows "me_inv m' \<and> (me_lease_inv m \<longrightarrow> me_lease_inv m') \<and> evolves m m'"
  using assms
proof (induction rule: mem_step.induct)
  case (step_put now key val leaseID m m' r p)
  then show ?case
    using inv_me_PutWithLease [OF step_put(1,2)] evolves_me_PutWithLease [OF step_put(2,1)] by simp
next
  case (step_delete key rangeEnd m m' d p r)
  then show ?case
    using inv_me_DeleteRange [of m key rangeEnd] evolves_me_DeleteRange [of m key rangeEnd] by simp
next
  case (step_txn now cmps thenOps elseOps m m' res)
  moreover have "evolves m (fst (me_Txn now cmps thenOps elseOps m))"
    using step_txn(2) by (simp add: me_Txn_def fst_txnUnlocked evolves_txn_ops)
  ultimately show ?case
    using inv_me_Txn [of m now cmps thenOps elseOps] by simp
next
  case (step_grant now i ttl m m' l)
  then show ?case
    using inv_me_LeaseGrant [OF step_grant(1,2)]
    by (auto simp: me_LeaseGrant_def Let_def split: if_splits intro!: evolves_frame)
next
  case (step_revoke order i m m')
  then show ?case
    using inv_me_LeaseRevoke [OF step_revoke(2,3)] evolves_me_LeaseRevoke by blast
next
  case (step_renew now i m m' l)
  then show ?case
    using inv_me_LeaseRenew [OF step_renew(1,2)]
    by (auto simp: me_LeaseRenew_def Let_def split: option.splits intro!: evolves_frame)
next
  case (step_watch key rangeEnd r i opts m m')
  note f = WatchWithOptions_frame [OF step_watch(1)]
  show ?case
    using watch_step_inv [OF step_watch(2) f watch_inv_WatchWithOptions [OF _ step_watch(1)]] by simp
next
  case (step_cancel i m m')
  note f = CancelWatch_frame [OF step_cancel(1)]
  show ?case
    using watch_step_inv [OF step_cancel(2) f watch_inv_CancelWatch [OF _ step_cancel(1)]] by simp
next
  case (step_slow m gs i e gs' c m')
  note f = slowSendEvent_frame [OF step_slow(2), simplified]
  show ?case
    using watch_step_inv [OF step_slow(3) f] watch_inv_slowSendEvent [OF _ step_slow(2)] by simp
next
  case (step_historical m gs i key rangeEnd gs' c m')
  note f = sendHistoricalEvents_frame [OF step_historical(2), simplified]
  show ?case
    using watch_step_inv [OF step_historical(3) f] watch_inv_sendHistoricalEvents [OF _ step_historical(2)]
    by simp
next
  case (step_receive m i sub e es)
  then have "watches_ok (gm_set i (sub\<lparr>ws_eventCh := es\<rparr>) (watches m))"
    using watches_ok_get [OF me_invD(4) [OF step_receive(3)] step_receive(1)]
    by (auto simp: sub_ok_def intro!: watches_ok_set me_invD)
  then show ?case
    using watch_step_inv [OF step_receive(3), of "m\<lparr>watches := gm_set i (sub\<lparr>ws_eventCh := es\<rparr>) (watches m)\<rparr>"]
    by simp
qed

end
