(* ===== verification/Memory_Refinement.thy ===== *)
theory Memory_Refinement
  imports Memory_Invariant
begin

text \<open>
  What the in-memory engine promises, stated over a plain map and a revision counter, and the proof
  that the operations of \<open>internal/memory/store.go\<close> and \<open>watch.go\<close> implement it: range reads, puts,
  deletions, transactions, lease revocation and watch delivery.
\<close>

section \<open>Abstract key space\<close>

type_synonym kv_spec = "int \<times> (string \<rightharpoonup> key_value)"

definition me_abs :: "MemoryEtcd \<Rightarrow> kv_spec" where
  "me_abs m = (revision m, sm_Get (kvData m))"

definition spec_kvs :: "(string \<rightharpoonup> key_value) \<Rightarrow> string \<Rightarrow> string \<Rightarrow> key_value list" where
  "spec_kvs M key rangeEnd = map (\<lambda>k. the (M k)) (sel_keys M key rangeEnd)"

fun spec_range :: "string \<Rightarrow> string \<Rightarrow> int \<Rightarrow> kv_spec \<Rightarrow> range_response" where
  "spec_range key rangeEnd limit (r, M) =
     (let kvs = apply_limit limit (spec_kvs M key rangeEnd)
      in \<lparr>rr_Kvs = kvs, rr_More = False, rr_Count = int (length kvs), rr_Revision = r\<rparr>)"

fun spec_put :: "string \<Rightarrow> string \<Rightarrow> int \<Rightarrow> kv_spec \<Rightarrow> kv_spec" where
  "spec_put key val leaseID (r, M) = (r + 1, M(key \<mapsto> next_kv key val leaseID (r + 1) (M key)))"

fun spec_delete :: "string \<Rightarrow> string \<Rightarrow> kv_spec \<Rightarrow> kv_spec" where
  "spec_delete key rangeEnd (r, M) =
     (let ks = sel_keys M key rangeEnd in if ks = [] then (r, M) else (r + 1, M |` (- set ks)))"

fun spec_compare :: "compare \<Rightarrow> kv_spec \<Rightarrow> bool" where
  "spec_compare cmp (r, M) =
     (let kv = (case M (cmp_Key cmp) of Some kv \<Rightarrow> kv
                | None \<Rightarrow> \<lparr>kv_Key = cmp_Key cmp, kv_Value = [], kv_CreateRevision = 0, kv_ModRevision = 0,
                          kv_Version = 0, kv_Lease = 0\<rparr>);
          u = cmp_TargetUnion cmp;
          test = (\<lambda>lt eq. case cmp_Result cmp of CompareEqual \<Rightarrow> eq | CompareGreater \<Rightarrow> \<not> lt \<and> \<not> eq
                  | CompareLess \<Rightarrow> lt | CompareNotEqual \<Rightarrow> \<not> eq | CompareResultOther _ \<Rightarrow> False)
      in case cmp_Target cmp of
           CompareVersion \<Rightarrow> test (kv_Version kv < cu_Version u) (kv_Version kv = cu_Version u)
         | CompareCreate \<Rightarrow> test (kv_CreateRevision kv < cu_CreateRevision u) (kv_CreateRevision kv = cu_CreateRevision u)
         | CompareMod \<Rightarrow> test (kv_ModRevision kv < cu_ModRevision u) (kv_ModRevision kv = cu_ModRevision u)
         | CompareValue \<Rightarrow> test (kv_Value kv < cu_Value u) (kv_Value kv = cu_Value u)
         | CompareLease \<Rightarrow> test (kv_Lease kv < cu_Lease u) (kv_Lease kv = cu_Lease u)
         | CompareTargetOther _ \<Rightarrow> False)"

text \<open>One operation of a transaction: \<open>None\<close> when it names a lease that is not alive.\<close>

definition spec_op :: "(int \<Rightarrow> bool) \<Rightarrow> op \<Rightarrow> kv_spec \<Rightarrow> (kv_spec \<times> op_response) option" where
  "spec_op alive opn s =
     (case op_Type opn of
        OpRange \<Rightarrow> Some (s, zero_op_response\<lparr>or_Type := OpRange,
            or_RangeResp := Some (spec_range (op_Key opn) (op_RangeEnd opn) (op_Limit opn) s)\<rparr>)
      | OpPut \<Rightarrow>
          if op_LeaseID opn \<noteq> 0 \<and> \<not> alive (op_LeaseID opn) then None
          else Some (spec_put (op_Key opn) (op_Value opn) (op_LeaseID opn) s,
                     zero_op_response\<lparr>or_Type := OpPut,
                       or_PutResp := Some \<lparr>pr_PrevKv = snd s (op_Key opn), pr_Revision = fst s + 1\<rparr>\<rparr>)
      | OpDelete \<Rightarrow>
          let s' = spec_delete (op_Key opn) (op_RangeEnd opn) s;
              kvs = spec_kvs (snd s) (op_Key opn) (op_RangeEnd opn)
          in Some (s', zero_op_response\<lparr>or_Type := OpDelete,
               or_DeleteResp := Some \<lparr>dr_Deleted = int (length kvs), dr_PrevKvs = kvs, dr_Revision = fst s'\<rparr>\<rparr>)
      | _ \<Rightarrow> Some (s, zero_op_response))"

fun spec_ops :: "(int \<Rightarrow> bool) \<Rightarrow> op list \<Rightarrow> kv_spec \<Rightarrow> kv_spec \<times> op_response list option" where
  "spec_ops alive [] s = (s, Some [])"
| "spec_ops alive (opn # ops) s =
     (case spec_op alive opn s of
        None \<Rightarrow> (s, None)
      | Some (s', resp) \<Rightarrow> apsnd (map_option ((#) resp)) (spec_ops alive ops s'))"

definition spec_txn ::
    "(int \<Rightarrow> bool) \<Rightarrow> compare list \<Rightarrow> op list \<Rightarrow> op list \<Rightarrow> kv_spec \<Rightarrow> kv_spec \<times> txn_response option" where
  "spec_txn alive cmps thenOps elseOps s =
     (let succeeded = (\<forall>cmp \<in> set cmps. spec_compare cmp s);
          (s', resps) = spec_ops alive (if succeeded then thenOps else elseOps) s
      in (s', map_option (\<lambda>rs. \<lparr>tr_Succeeded = succeeded, tr_Responses = rs, tr_Revision = fst s'\<rparr>) resps))"

section \<open>Reads\<close>

lemma range_kvs_spec:
  "me_inv m \<Longrightarrow> range_kvs key rangeEnd limit m = apply_limit limit (spec_kvs (sm_Get (kvData m)) key rangeEnd)"
  using sm_Range_spec [of "kvData m" key rangeEnd limit]
  by (auto simp: range_kvs_def spec_kvs_def sel_keys_def me_invD range_spec_def apply_limit_def take_Cons'
        split: option.splits)

lemma length_apply_limit: "0 < limit \<Longrightarrow> int (length (apply_limit limit xs)) \<le> limit"
  by (auto simp: apply_limit_def)

lemma range_result_spec:
  "me_inv m \<Longrightarrow> range_result (range_kvs key rangeEnd limit m) limit m = spec_range key rangeEnd limit (me_abs m)"
  using length_apply_limit [of limit "spec_kvs (sm_Get (kvData m)) key rangeEnd"]
  by (auto simp: range_result_def Let_def range_kvs_spec me_abs_def)

section \<open>Writes\<close>

lemma abs_store_kv: "me_inv m \<Longrightarrow> me_abs (store_kv k v l m) = spec_put k v l (me_abs m)"
  by (simp add: me_abs_def me_invD)

lemma fold_sm_Delete_restrict:
  "sm_inv sm \<Longrightarrow> sm_Get (fold sm_Delete ks sm) = sm_Get sm |` (- set ks)"
  by (rule ext) (simp add: sm.get_fold_del restrict_map_def)

lemma abs_deleteUnlocked:
  "me_inv m \<Longrightarrow> me_abs (fst (deleteUnlocked key rangeEnd m)) = spec_delete key rangeEnd (me_abs m)"
  by (simp add: deleteUnlocked_def Let_def delete_keys_sel me_abs_def fold_sm_Delete_restrict me_invD)

lemma deleteUnlocked_result:
  "me_inv m \<Longrightarrow> snd (deleteUnlocked key rangeEnd m)
     = (let kvs = spec_kvs (sm_Get (kvData m)) key rangeEnd
        in (int (length kvs), kvs, fst (spec_delete key rangeEnd (me_abs m))))"
  by (simp add: deleteUnlocked_def Let_def delete_keys_sel delete_kvs_sel spec_kvs_def me_abs_def)

section \<open>Transactions\<close>

lemma evaluateCompare_spec: "evaluateCompare cmp m = spec_compare cmp (me_abs m)"
  by (cases "cmp_Target cmp"; cases "cmp_Result cmp"; cases "sm_Get (kvData m) (cmp_Key cmp)")
     (auto simp: evaluateCompare_def me_abs_def compareInt_def compareBytes_def bytes_Compare_def Let_def)

definition lease_alive :: "int \<Rightarrow> (int, lease) gomap \<Rightarrow> int \<Rightarrow> bool" where
  "lease_alive now ls i \<longleftrightarrow> \<not> IsExpired now (gm_get ls i)"

lemma lease_alive_attach [simp]: "lease_alive now (attach_key i k ls) = lease_alive now ls"
  by (rule ext) (auto simp: lease_alive_def attach_key_def gomap_simps split: option.splits)

lemma lease_alive_detach [simp]: "lease_alive now (detach_key p k ls) = lease_alive now ls"
  by (rule ext) (auto simp: lease_alive_def detach_key_def gomap_simps split: option.splits)

lemma lease_alive_fold_remove [simp]:
  "lease_alive now (leases (fold remove_key ks m)) = lease_alive now (leases m)"
  by (induction ks arbitrary: m) simp_all

lemma deleteUnlocked_frame [simp]:
  "lease_alive now (leases (fst (deleteUnlocked key rangeEnd m))) = lease_alive now (leases m)"
  "watches (fst (deleteUnlocked key rangeEnd m)) = watches m"
  "goroutines (fst (deleteUnlocked key rangeEnd m)) = goroutines m"
  by (simp_all add: deleteUnlocked_def Let_def)

lemma putUnlocked_alive:
  "putUnlocked now k v i m =
     (if i \<noteq> 0 \<and> \<not> lease_alive now (leases m) i then Inl ErrInvalidLease
      else Inr (store_kv k v i m, revision m + 1, sm_Get (kvData m) k))"
  by (auto simp: putUnlocked_def lease_alive_def IsExpired_def split: option.splits)

text \<open>A transaction touches neither the subscriptions nor the pending work.\<close>

definition same_env :: "int \<Rightarrow> MemoryEtcd \<Rightarrow> MemoryEtcd \<Rightarrow> bool" where
  "same_env now m m' \<longleftrightarrow> watches m' = watches m \<and> goroutines m' = goroutines m
     \<and> lease_alive now (leases m') = lease_alive now (leases m)"

lemma txn_op_spec:
  assumes "me_inv m"
  shows "case txn_op now opn m of
      Inl err \<Rightarrow> err = ErrInvalidLease \<and> spec_op (lease_alive now (leases m)) opn (me_abs m) = None
    | Inr (m', resp) \<Rightarrow> spec_op (lease_alive now (leases m)) opn (me_abs m) = Some (me_abs m', resp)
        \<and> same_env now m m' \<and> me_inv m'"
proof (cases "op_Type opn")
  case OpRange
  with assms show ?thesis
    by (simp add: txn_op_def spec_op_def rangeUnlocked_def range_result_spec same_env_def)
next
  case OpPut
  with assms show ?thesis
    by (simp add: txn_op_def spec_op_def putUnlocked_alive abs_store_kv same_env_def me_inv_store_kv)
       (simp add: me_abs_def)
next
  case OpDelete
  obtain m' d p r where del: "deleteUnlocked (op_Key opn) (op_RangeEnd opn) m = (m', d, p, r)"
    by (metis prod_cases4)
  with OpDelete assms show ?thesis
    using abs_deleteUnlocked [OF assms, of "op_Key opn" "op_RangeEnd opn"]
      deleteUnlocked_result [OF assms, of "op_Key opn" "op_RangeEnd opn"]
      inv_deleteUnlocked(1) [OF assms, of "op_Key opn" "op_RangeEnd opn"]
      deleteUnlocked_frame(1) [of now "op_Key opn" "op_RangeEnd opn" m]
      deleteUnlocked_frame(2,3) [of "op_Key opn" "op_RangeEnd opn" m]
    by (simp add: txn_op_def spec_op_def same_env_def Let_def) (simp add: me_abs_def)
qed (use assms in \<open>simp_all add: txn_op_def spec_op_def same_env_def\<close>)

lemma txn_ops_spec:
  assumes "me_inv m"
  shows "case txn_ops now ops m of (m', res) \<Rightarrow>
     spec_ops (lease_alive now (leases m)) ops (me_abs m)
       = (me_abs m', case res of Inl err \<Rightarrow> None | Inr resps \<Rightarrow> Some resps)
     \<and> same_env now m m' \<and> (\<forall>err. res = Inl err \<longrightarrow> err = ErrInvalidLease)"
  using assms
proof (induction ops arbitrary: m)
  case (Cons opn ops)
  show ?case
  proof (cases "txn_op now opn m")
    case (Inl err)
    with txn_op_spec [OF Cons.prems, of now opn] show ?thesis
      by (simp add: same_env_def)
  next
    case (Inr x)
    then obtain m' resp where op: "txn_op now opn m = Inr (m', resp)"
      by (cases x) auto
    with txn_op_spec [OF Cons.prems, of now opn]
    have *: "spec_op (lease_alive now (leases m)) opn (me_abs m) = Some (me_abs m', resp)"
        "same_env now m m'" "me_inv m'"
      by simp_all
    with op Cons.IH [of m'] show ?thesis
      by (auto simp: same_env_def split: prod.splits sum.splits)
  qed
qed (simp add: same_env_def)

section \<open>Watch delivery\<close>

lemma gm_get_map: "gm_get (map (\<lambda>(i, sub). (i, f sub)) ws) i = map_option f (gm_get ws i)"
  by (induction ws) auto

lemma notifyWatches_get:
  "gm_get (watches (notifyWatches e m)) i =
     map_option (\<lambda>sub. if wants_event e sub then push_event (event_to_send e sub) sub else sub)
       (gm_get (watches m) i)"
  by (simp add: notifyWatches_def gm_get_map)

lemma notifyWatches_slow:
  assumes "watch_inv m" "gm_get (watches m) i = Some sub" "wants_event e sub"
    "\<not> length (ws_eventCh sub) < eventChCap"
  shows "SlowSendEvent i (event_to_send e sub) \<in> set (goroutines (notifyWatches e m))"
proof -
  have "(i, sub) \<in> set (watches m)"
    using assms(2) by (rule map_of_SomeD)
  with assms(3,4) show ?thesis
    by (force simp: notifyWatches_def)
qed

section \<open>A reachable state\<close>

text \<open>A lease with identifier 7 granted for 60 seconds, and two keys, one of them bound to the lease.\<close>

definition sample_lease :: lease where
  "sample_lease = \<lparr>ls_ID = 7, ls_TTL = 60, ls_GrantTime = 0, ls_Keys = []\<rparr>"

definition sample_granted :: MemoryEtcd where
  "sample_granted = NewMemoryEtcd\<lparr>leases := [(7, sample_lease)]\<rparr>"

definition sample_engine :: MemoryEtcd where
  "sample_engine = store_kv ''b'' ''2'' 0 (store_kv ''a'' ''1'' 7 sample_granted)"

lemma notifyWatches_no_watches: "watches m = [] \<Longrightarrow> notifyWatches e m = m"
  by (simp add: notifyWatches_def)

lemma put_no_watches:
  assumes "check_lease now i m = None" "watches m = []"
  shows "me_PutWithLease now k v i m = Inr (store_kv k v i m, revision m + 1, sm_Get (kvData m) k)"
  using assms by (simp add: me_PutWithLease_def Let_def notifyWatches_no_watches)

lemma sample_granted_frame [simp]:
  "watches sample_granted = []" "leases sample_granted = [(7, sample_lease)]"
  "revision sample_granted = 0" "kvData sample_granted = NewShardedMap"
  by (simp_all add: sample_granted_def NewMemoryEtcd_def)

lemma sample_engine_reach: "mem_reach sample_engine"
proof -
  have "me_LeaseGrant 0 7 60 NewMemoryEtcd = Inr (sample_granted, sample_lease)"
    by (simp add: me_LeaseGrant_def Let_def NewMemoryEtcd_def sample_granted_def sample_lease_def)
  then have "mem_reach sample_granted"
    by (rule reach_step [OF reach_init step_grant])
  then have "mem_reach (store_kv ''a'' ''1'' 7 sample_granted)"
    by (rule reach_step [OF _ step_put [OF put_no_watches [where now = 1]]])
       (simp_all add: check_lease_def sample_lease_def nanos_per_second_def)
  then show ?thesis
    unfolding sample_engine_def
    by (rule reach_step [OF _ step_put [OF put_no_watches [where now = 1]]]) (simp_all add: check_lease_def)
qed

lemma sample_granted_inv: "me_inv sample_granted"
  by (simp add: me_inv_def sm_simps leases_ok_def sample_lease_def data_ok_def)

lemma sample_engine_inv: "me_inv sample_engine"
  by (simp add: sample_engine_def sample_granted_inv me_inv_store_kv)

lemma sample_engine_frame [simp]: "watches sample_engine = []" "revision sample_engine = 2"
  by (simp_all add: sample_engine_def)

lemma sample_engine_leases [simp]: "leases sample_engine = [(7, sample_lease\<lparr>ls_Keys := [''a'']\<rparr>)]"
  by (simp add: sample_engine_def attach_key_def sample_lease_def)

lemma sample_engine_Get:
  "sm_Get (kvData sample_engine) =
     [''a'' \<mapsto> \<lparr>kv_Key = ''a'', kv_Value = ''1'', kv_CreateRevision = 1, kv_ModRevision = 1, kv_Version = 1, kv_Lease = 7\<rparr>,
      ''b'' \<mapsto> \<lparr>kv_Key = ''b'', kv_Value = ''2'', kv_CreateRevision = 2, kv_ModRevision = 2, kv_Version = 1, kv_Lease = 0\<rparr>]"
  using me_invD(1) [OF sample_granted_inv] me_invD(1) [OF me_inv_store_kv [OF sample_granted_inv]]
  by (intro ext) (simp add: sample_engine_def next_kv_def sm_simps)

lemma sample_engine_lease_inv: "me_lease_inv sample_engine"
  by (simp add: lease_inv_def sample_engine_Get sample_lease_def)

text \<open>The same state with a subscription to the keys from \<open>a\<close> up to \<open>c\<close> that asks for previous values.\<close>

definition sample_sub :: watch_subscription where
  "sample_sub = \<lparr>ws_watchID = 1, ws_key = ''a'', ws_rangeEnd = ''c'', ws_startRev = 0, ws_eventCh = [],
     ws_closed = False, ws_prevKV = True, ws_progressNotify = False, ws_filters = [FilterNoDelete],
     ws_fragment = False\<rparr>"

definition sample_watched :: MemoryEtcd where
  "sample_watched = sample_engine\<lparr>watches := [(1, sample_sub)]\<rparr>"

lemma sample_watched_inv: "me_inv sample_watched"
  using sample_engine_inv
  by (simp add: me_inv_def sample_watched_def watches_ok_def sub_ok_def sample_sub_def eventChCap_def)

section \<open>Properties\<close>



text \<open>
  Along any run of the standalone engine the revision never decreases, and an entry seen later
  either was already there, unchanged, or carries a mod revision above the earlier store revision: no
  operation, lease event or watch goroutine rewrites history.
\<close>

theorem mem_run_monotone:
  assumes "mem_step\<^sup>*\<^sup>* m m'" "me_inv m"
  shows "me_inv m' \<and> revision m \<le> revision m' \<and>
    (\<forall>k kv. sm_Get (kvData m') k = Some kv \<longrightarrow> sm_Get (kvData m) k = Some kv \<or> revision m < kv_ModRevision kv)"
proof -
  have "me_inv m' \<and> evolves m m'"
    using assms by (induction rule: rtranclp_induct) (auto dest: mem_step_inv intro: evolves_trans)
  then show ?thesis
    by (simp add: evolves_def)
qed

theorem mem_run_monotone_witness:
  "mem_step\<^sup>*\<^sup>* sample_engine (store_kv ''a'' ''3'' 0 sample_engine) \<and> me_inv sample_engine
     \<and> revision sample_engine \<le> revision (store_kv ''a'' ''3'' 0 sample_engine)"
proof -
  have "mem_step sample_engine (store_kv ''a'' ''3'' 0 sample_engine)"
    by (rule step_put [OF put_no_watches [where now = 1]]) (simp_all add: check_lease_def)
  then have run: "mem_step\<^sup>*\<^sup>* sample_engine (store_kv ''a'' ''3'' 0 sample_engine)"
    by simp
  from mem_run_monotone [OF run sample_engine_inv] run sample_engine_inv show ?thesis
    by blast
qed

text \<open>
  C1: a transaction behaves as its specification over a plain map: the comparisons are evaluated on the
  state before it (an absent key compares as a zero entry), the chosen branch runs its reads, puts and
  deletions in order and returns their responses and the final revision, and it fails exactly when a put
  names a lease that is not alive.  It delivers nothing to the watchers.
\<close>

theorem me_Txn_refines:
  assumes "me_inv m"
  shows "case me_Txn now cmps thenOps elseOps m of (m', res) \<Rightarrow>
    spec_txn (lease_alive now (leases m)) cmps thenOps elseOps (me_abs m)
      = (me_abs m', case res of Inl err \<Rightarrow> None | Inr resp \<Rightarrow> Some resp)
    \<and> (\<forall>err. res = Inl err \<longrightarrow> err = ErrInvalidLease)
    \<and> watches m' = watches m \<and> goroutines m' = goroutines m"
proof -
  have cmps: "list_all (\<lambda>cmp. evaluateCompare cmp m) cmps \<longleftrightarrow> (\<forall>cmp \<in> set cmps. spec_compare cmp (me_abs m))"
    by (simp add: list_all_iff evaluateCompare_spec)
  show ?thesis
    using txn_ops_spec [OF assms, of now thenOps] txn_ops_spec [OF assms, of now elseOps]
    by (auto simp: me_Txn_def txnUnlocked_def spec_txn_def cmps Let_def same_env_def me_abs_def
          split: prod.splits sum.splits)
qed

theorem me_Txn_refines_witness:
  "me_inv sample_engine \<and>
   spec_txn (lease_alive 1 (leases sample_engine)) [] [\<lparr>op_Type = OpDelete, op_Key = ''a'', op_RangeEnd = [],
       op_Value = [], op_Limit = 0, op_LeaseID = 0\<rparr>] [] (me_abs sample_engine)
     = (me_abs (fst (me_Txn 1 [] [\<lparr>op_Type = OpDelete, op_Key = ''a'', op_RangeEnd = [], op_Value = [], op_Limit = 0,
          op_LeaseID = 0\<rparr>] [] sample_engine)),
        case snd (me_Txn 1 [] [\<lparr>op_Type = OpDelete, op_Key = ''a'', op_RangeEnd = [], op_Value = [], op_Limit = 0,
          op_LeaseID = 0\<rparr>] [] sample_engine) of Inl err \<Rightarrow> None | Inr resp \<Rightarrow> Some resp)"
  using me_Txn_refines [OF sample_engine_inv, of 1 "[]" "[\<lparr>op_Type = OpDelete, op_Key = ''a'', op_RangeEnd = [],
      op_Value = [], op_Limit = 0, op_LeaseID = 0\<rparr>]" "[]"] sample_engine_inv
  by (auto split: prod.splits)

text \<open>
  A transaction is not atomic when it fails: if a put is followed by a put that names an unknown
  lease, the call returns the error, and the first put stays in the store with a new revision.
\<close>

theorem me_Txn_failure_keeps_prefix:
  assumes "me_inv m" "leaseID \<noteq> 0" "gm_get (leases m) leaseID = None"
  shows "me_Txn now [] [\<lparr>op_Type = OpPut, op_Key = k, op_RangeEnd = [], op_Value = v, op_Limit = 0, op_LeaseID = 0\<rparr>,
                        \<lparr>op_Type = OpPut, op_Key = k', op_RangeEnd = [], op_Value = v', op_Limit = 0, op_LeaseID = leaseID\<rparr>]
                   elseOps m = (store_kv k v 0 m, Inl ErrInvalidLease)
       \<and> revision (store_kv k v 0 m) = revision m + 1
       \<and> sm_Get (kvData (store_kv k v 0 m)) k = Some (next_kv k v 0 (revision m + 1) (sm_Get (kvData m) k))"
  using assms by (simp add: me_Txn_def txnUnlocked_def txn_op_def putUnlocked_def attach_key_def me_invD)

theorem me_Txn_failure_keeps_prefix_witness:
  "me_inv sample_engine \<and> (9::int) \<noteq> 0 \<and> gm_get (leases sample_engine) 9 = None \<and>
   me_Txn 1 [] [\<lparr>op_Type = OpPut, op_Key = ''c'', op_RangeEnd = [], op_Value = ''3'', op_Limit = 0, op_LeaseID = 0\<rparr>,
                \<lparr>op_Type = OpPut, op_Key = ''d'', op_RangeEnd = [], op_Value = ''4'', op_Limit = 0, op_LeaseID = 9\<rparr>]
      [] sample_engine = (store_kv ''c'' ''3'' 0 sample_engine, Inl ErrInvalidLease)"
  using me_Txn_failure_keeps_prefix [OF sample_engine_inv, of 9 1 "''c''" "''3''" "''d''" "''4''" "[]"]
    sample_engine_inv by simp



lemma me_DeleteRange_eqs:
  assumes "me_inv m" "me_DeleteRange key rangeEnd m = (m', deleted, prevKvs, r)"
  defines "ks \<equiv> sel_keys (sm_Get (kvData m)) key rangeEnd"
  shows "sm_Get (kvData m') = sm_Get (kvData m) |` (- set ks)" "deleted = int (length ks)"
    "prevKvs = map (\<lambda>k. the (sm_Get (kvData m) k)) ks" "r = (if ks = [] then revision m else revision m + 1)"
    "revision m' = (if ks = [] then revision m else revision m + 1)"
  using assms(2) me_invD(1)[OF assms(1)] unfolding ks_def
  by (auto simp: me_DeleteRange_def Let_def case_prod_unfold delete_keys_sel [OF assms(1)]
        delete_kvs_sel [OF assms(1)] fold_sm_Delete_restrict restrict_map_def split: if_splits)

text \<open>
  C7: deleting a key or an interval removes exactly the present keys it covers and nothing else, returns
  their entries in increasing key order and their number, and advances the revision by one when
  something was deleted and not at all otherwise.
\<close>

theorem me_DeleteRange_correct:
  assumes "me_inv m" "me_DeleteRange key rangeEnd m = (m', deleted, prevKvs, r)"
  shows "sm_Get (kvData m') k =
      (if rangeEnd = [] \<and> k = key \<or> rangeEnd \<noteq> [] \<and> in_key_range k key rangeEnd then None else sm_Get (kvData m) k)
    \<and> set prevKvs = {kv. \<exists>j. sm_Get (kvData m) j = Some kv \<and>
         (rangeEnd = [] \<and> j = key \<or> rangeEnd \<noteq> [] \<and> in_key_range j key rangeEnd)}
    \<and> sorted (map kv_Key prevKvs) \<and> distinct (map kv_Key prevKvs) \<and> deleted = int (length prevKvs)
    \<and> r = revision m' \<and> revision m' = (if prevKvs = [] then revision m else revision m + 1)"
proof -
  let ?M = "sm_Get (kvData m)" and ?ks = "sel_keys (sm_Get (kvData m)) key rangeEnd"
  note inv = me_invD [OF assms(1)]
  have ks: "set ?ks = {k \<in> dom ?M. if rangeEnd = [] then k = key else in_key_range k key rangeEnd}"
    using inv(6) by (rule set_sel_keys)
  note eq = me_DeleteRange_eqs [OF assms]
  have "kv_Key (the (?M k)) = k" if "k \<in> set ?ks" for k
    using that inv(5) by (auto simp: ks dest: keys_okD)
  then have "map kv_Key prevKvs = ?ks"
    by (simp add: eq map_idI)
  moreover have "sorted ?ks"
    by (simp add: sel_keys_def range_keys_def)
  moreover have "set prevKvs = {kv. \<exists>j. ?M j = Some kv \<and>
         (rangeEnd = [] \<and> j = key \<or> rangeEnd \<noteq> [] \<and> in_key_range j key rangeEnd)}"
    unfolding eq(3) set_map ks by force
  ultimately show ?thesis
    by (auto simp: eq ks restrict_map_def)
qed

theorem me_DeleteRange_correct_witness:
  "me_inv sample_engine \<and>
   (case me_DeleteRange ''a'' ''b'' sample_engine of (m', deleted, prevKvs, r) \<Rightarrow>
      me_DeleteRange ''a'' ''b'' sample_engine = (m', deleted, prevKvs, r)
      \<and> sm_Get (kvData m') ''a'' = None \<and> sm_Get (kvData m') ''b'' = sm_Get (kvData sample_engine) ''b''
      \<and> prevKvs \<noteq> [])"
proof -
  obtain m' deleted prevKvs r where d: "me_DeleteRange ''a'' ''b'' sample_engine = (m', deleted, prevKvs, r)"
    by (metis prod_cases4)
  show ?thesis
    using me_DeleteRange_correct [OF sample_engine_inv d, where k = "''a''"]
      me_DeleteRange_correct [OF sample_engine_inv d, where k = "''b''"] sample_engine_inv
    by (auto simp: d sample_engine_Get in_key_range_def zero_byte_def)
qed

text \<open>
  Revoking a lease, in whatever order the map iteration walks its keys, removes exactly the keys
  registered with it and the lease itself, advances the revision once per removed key, and leaves no key
  that names the lease; an unknown lease is an error.
\<close>

theorem me_LeaseRevoke_correct:
  assumes "me_inv m" "me_lease_inv m" "iteration_order order"
  shows "case me_LeaseRevoke order leaseID m of
      Inl err \<Rightarrow> err = ErrLeaseNotFound leaseID \<and> gm_get (leases m) leaseID = None
    | Inr m' \<Rightarrow> (\<exists>l. gm_get (leases m) leaseID = Some l
        \<and> sm_Get (kvData m') = sm_Get (kvData m) |` (- set (ls_Keys l))
        \<and> revision m' = revision m + int (card (set (ls_Keys l) \<inter> dom (sm_Get (kvData m)))))
        \<and> gm_get (leases m') = (gm_get (leases m))(leaseID := None)
        \<and> (leaseID \<noteq> 0 \<longrightarrow> (\<forall>k kv. sm_Get (kvData m') k = Some kv \<longrightarrow> kv_Lease kv \<noteq> leaseID))"
proof (cases "me_LeaseRevoke order leaseID m")
  case (Inl err)
  then show ?thesis
    by (auto simp: me_LeaseRevoke_def split: option.splits prod.splits)
next
  case (Inr m')
  then obtain l where l: "gm_get (leases m) leaseID = Some l"
      "kvData m' = kvData (fst (revoke_loop (order (ls_Keys l)) m))"
      "revision m' = revision (fst (revoke_loop (order (ls_Keys l)) m))"
      "leases m' = gm_del leaseID (leases m)"
    by (rule me_LeaseRevoke_Inr)
  note d = revoke_loop_data [OF me_invD(1) [OF assms(1)], of "order (ls_Keys l)"]
  have "kv_Lease kv \<noteq> leaseID" if "sm_Get (kvData m') k = Some kv" "leaseID \<noteq> 0" for k kv
    using inv_me_LeaseRevoke(2) [OF Inr assms(1,3,2)] that l(4)
    by (auto simp: lease_inv_def gomap_simps split: if_splits)
  with l d assms(3) Inr show ?thesis
    by (simp add: delete_conv')
qed

theorem me_LeaseRevoke_correct_witness:
  "me_inv sample_engine \<and> me_lease_inv sample_engine \<and> iteration_order (rev :: string list \<Rightarrow> string list)
   \<and> (case me_LeaseRevoke rev 7 sample_engine of Inl err \<Rightarrow> False
      | Inr m' \<Rightarrow> sm_Get (kvData m') ''a'' = None \<and> sm_Get (kvData m') ''b'' \<noteq> None \<and> revision m' = 3)"
  using me_LeaseRevoke_correct [OF sample_engine_inv sample_engine_lease_inv, where order = rev and leaseID = 7]
    sample_engine_inv sample_engine_lease_inv
  by (auto simp: sample_engine_Get sample_lease_def split: sum.splits)

text \<open>
  C15: after a successful put, every open subscription that covers the key and does not filter puts has
  the event, with the new entry, its revision and (when it asked for it) the previous entry, at the end
  of its channel, or, when the channel is full, in a pending sender; every other subscription is as it
  was.
\<close>

theorem put_notifies_watchers:
  assumes "me_inv m" "me_PutWithLease now key val leaseID m = Inr (m', r, prevKv)"
    "gm_get (watches m) i = Some sub"
  shows "if matchWatch key (ws_key sub) (ws_rangeEnd sub) \<and> FilterNoPut \<notin> set (ws_filters sub)
    then (let event = \<lparr>we_Type = EventTypePut, we_Kv = Some (next_kv key val leaseID r prevKv),
                        we_PrevKv = (if ws_prevKV sub then prevKv else None), we_Revision = r\<rparr>
          in if length (ws_eventCh sub) < eventChCap
             then gm_get (watches m') i = Some (sub\<lparr>ws_eventCh := ws_eventCh sub @ [event]\<rparr>)
             else gm_get (watches m') i = Some sub \<and> SlowSendEvent i event \<in> set (goroutines m'))
    else gm_get (watches m') i = Some sub"
proof -
  let ?e = "\<lparr>we_Type = EventTypePut, we_Kv = Some (next_kv key val leaseID r prevKv), we_PrevKv = prevKv, we_Revision = r\<rparr>"
  let ?s = "store_kv key val leaseID m"
  have m': "m' = notifyWatches ?e ?s"
    using assms(2) by (auto simp: me_PutWithLease_def Let_def split: option.splits)
  have ok: "sub_ok i sub" and inv: "watch_inv ?s"
    using watches_ok_get [OF me_invD(4) [OF assms(1)] assms(3)] me_invD(4) [OF assms(1)] by simp_all
  have filter_put: "shouldFilter EventTypePut fs \<longleftrightarrow> FilterNoPut \<in> set fs" for fs
    by (induction fs) (auto split: watch_filter_type.splits)
  have want: "wants_event ?e sub \<longleftrightarrow>
      matchWatch key (ws_key sub) (ws_rangeEnd sub) \<and> FilterNoPut \<notin> set (ws_filters sub)"
    using ok by (simp add: wants_event_def sub_ok_def event_key_def next_kv_def filter_put)
  have send: "event_to_send ?e sub = ?e\<lparr>we_PrevKv := if ws_prevKV sub then prevKv else None\<rparr>"
    by (simp add: event_to_send_def)
  show ?thesis
    using notifyWatches_slow [OF inv, of i sub ?e] assms(3)
    by (simp add: m' notifyWatches_get want send push_event_def Let_def)
qed

theorem put_notifies_watchers_witness:
  "me_inv sample_watched \<and> gm_get (watches sample_watched) 1 = Some sample_sub
   \<and> (case me_PutWithLease 1 ''a'' ''2'' 0 sample_watched of Inl err \<Rightarrow> False
      | Inr (m', r, prevKv) \<Rightarrow>
          me_PutWithLease 1 ''a'' ''2'' 0 sample_watched = Inr (m', r, prevKv) \<and>
          gm_get (watches m') 1 = Some (sample_sub\<lparr>ws_eventCh :=
            [\<lparr>we_Type = EventTypePut, we_Kv = Some (next_kv ''a'' ''2'' 0 r prevKv), we_PrevKv = prevKv,
              we_Revision = r\<rparr>]\<rparr>))"
proof -
  obtain m' r prevKv where p: "me_PutWithLease 1 ''a'' ''2'' 0 sample_watched = Inr (m', r, prevKv)"
    by (simp add: me_PutWithLease_def check_lease_def Let_def)
  have w: "gm_get (watches sample_watched) 1 = Some sample_sub"
    by (simp add: sample_watched_def)
  show ?thesis
    using put_notifies_watchers [OF sample_watched_inv p w] sample_watched_inv w p
    by (simp add: sample_sub_def matchWatch_def in_key_range_def zero_byte_def eventChCap_def)
qed

end
