(* ===== verification/Memory_Apply.thy ===== *)
theory Memory_Apply
  imports Memory_Refinement
begin

text \<open>
  How committed Raft operations reach the in-memory engine: the direct operations of
  \<open>internal/memory/store_direct.go\<close>, \<open>applyOperation\<close> of \<open>kvstore.go\<close> and the batched apply of
  \<open>batch_apply.go\<close>.  A batch of puts runs one goroutine per shard; a schedule (a list of shard indices)
  says which goroutine takes the next operation, each operation being one atomic step.
\<close>

section \<open>Direct operations\<close>

definition putDirect :: "string \<Rightarrow> string \<Rightarrow> int \<Rightarrow> MemoryEtcd \<Rightarrow> MemoryEtcd \<times> int \<times> key_value option" where
  "putDirect key val leaseID m =
     (let newRevision = revision m + 1;
          prevKv = sm_Get (kvData m) key;
          createRevision = (case prevKv of Some p \<Rightarrow> kv_CreateRevision p | None \<Rightarrow> newRevision);
          version = (case prevKv of Some p \<Rightarrow> kv_Version p + 1 | None \<Rightarrow> 1);
          kv = \<lparr>kv_Key = key, kv_Value = val, kv_CreateRevision = createRevision, kv_ModRevision = newRevision,
                kv_Version = version, kv_Lease = leaseID\<rparr>;
          m' = m\<lparr>revision := newRevision, kvData := sm_Set key kv (kvData m),
                 leases := attach_key leaseID key (leases m)\<rparr>
      in (notifyWatchers key kv EventTypePut m', newRevision, prevKv))"

text \<open>The body of the deletion: one new revision per key, the lease of the entry found before.\<close>

definition delete_entry :: "string \<Rightarrow> key_value \<Rightarrow> MemoryEtcd \<Rightarrow> MemoryEtcd" where
  "delete_entry key kv m =
     notifyWatchers key kv EventTypeDelete
       (m\<lparr>revision := revision m + 1, kvData := sm_Delete key (kvData m),
          leases := detach_key (Some kv) key (leases m)\<rparr>)"

definition deleteDirect ::
    "string \<Rightarrow> string \<Rightarrow> MemoryEtcd \<Rightarrow> MemoryEtcd \<times> int \<times> key_value list \<times> int" where
  "deleteDirect key rangeEnd m =
     (if rangeEnd = [] then
        (case sm_Get (kvData m) key of
           Some kv \<Rightarrow> let m' = delete_entry key kv m in (m', 1, [kv], revision m')
         | None \<Rightarrow> (m, 0, [], revision m))
      else
        let keysToDelete = sm_Range key rangeEnd 0 (kvData m)
        in if keysToDelete = [] then (m, 0, [], revision m)
           else let m' = fold (\<lambda>kv. delete_entry (kv_Key kv) kv) keysToDelete m
                in (m', int (length keysToDelete), keysToDelete, revision m'))"

definition applyTxnWithShardLocks ::
    "int \<Rightarrow> compare list \<Rightarrow> op list \<Rightarrow> op list \<Rightarrow> MemoryEtcd \<Rightarrow> MemoryEtcd \<times> (mem_error + txn_response)" where
  "applyTxnWithShardLocks now compares thenOps elseOps m = txnUnlocked now compares thenOps elseOps m"

definition applyLeaseOperationDirect ::
    "(string list \<Rightarrow> string list) \<Rightarrow> int \<Rightarrow> string \<Rightarrow> int \<Rightarrow> int \<Rightarrow> MemoryEtcd \<Rightarrow> MemoryEtcd" where
  "applyLeaseOperationDirect order now opType leaseID ttl m =
     (if opType = ''LEASE_GRANT'' then
        m\<lparr>leases := gm_set leaseID \<lparr>ls_ID = leaseID, ls_TTL = ttl, ls_GrantTime = now, ls_Keys = []\<rparr> (leases m)\<rparr>
      else if opType = ''LEASE_REVOKE'' then
        (case gm_get (leases m) leaseID of
           None \<Rightarrow> m
         | Some l \<Rightarrow>
             fold (\<lambda>key m. fst (deleteDirect key [] m)) (order (ls_Keys l))
               (m\<lparr>leases := gm_del leaseID (leases m)\<rparr>))
      else m)"

section \<open>Raft operations\<close>

record RaftOperation =
  ro_Type :: string
  ro_Key :: string
  ro_Value :: string
  ro_LeaseID :: int
  ro_RangeEnd :: string
  ro_SeqNum :: string
  ro_TTL :: int
  ro_Compares :: "compare list"
  ro_ThenOps :: "op list"
  ro_ElseOps :: "op list"

text \<open>
  The node state around the engine.  \<open>pendingOps\<close> holds the sequence numbers with an open wait channel,
  \<open>closedOps\<close> those whose channel was closed (the waiter may proceed).
\<close>

record Memory =
  mem_etcd :: MemoryEtcd
  proposeC :: "string list"
  pendingOps :: "string list"
  closedOps :: "string list"
  pendingTxnResults :: "(string, txn_response) gomap"
  seqNum :: int

definition apply_txn :: "int \<Rightarrow> RaftOperation \<Rightarrow> Memory \<Rightarrow> Memory" where
  "apply_txn now opn s =
     (case applyTxnWithShardLocks now (ro_Compares opn) (ro_ThenOps opn) (ro_ElseOps opn) (mem_etcd s) of
        (m, Inl err) \<Rightarrow> s\<lparr>mem_etcd := m\<rparr>
      | (m, Inr txnResp) \<Rightarrow>
          s\<lparr>mem_etcd := m,
            pendingTxnResults := (if ro_SeqNum opn \<noteq> [] then gm_set (ro_SeqNum opn) txnResp (pendingTxnResults s)
                                  else pendingTxnResults s)\<rparr>)"

definition notify_waiter :: "RaftOperation \<Rightarrow> Memory \<Rightarrow> Memory" where
  "notify_waiter opn s =
     (if ro_SeqNum opn \<noteq> [] \<and> ro_SeqNum opn \<in> set (pendingOps s)
      then s\<lparr>closedOps := ro_SeqNum opn # closedOps s, pendingOps := removeAll (ro_SeqNum opn) (pendingOps s)\<rparr>
      else s)"

definition apply_effect ::
    "(string list \<Rightarrow> string list) \<Rightarrow> int \<Rightarrow> RaftOperation \<Rightarrow> Memory \<Rightarrow> Memory" where
  "apply_effect order now opn s =
     (if ro_Type opn = ''PUT'' then
        s\<lparr>mem_etcd := fst (putDirect (ro_Key opn) (ro_Value opn) (ro_LeaseID opn) (mem_etcd s))\<rparr>
      else if ro_Type opn = ''DELETE'' then
        s\<lparr>mem_etcd := fst (deleteDirect (ro_Key opn) (ro_RangeEnd opn) (mem_etcd s))\<rparr>
      else if ro_Type opn = ''LEASE_GRANT'' then
        s\<lparr>mem_etcd := applyLeaseOperationDirect order now ''LEASE_GRANT'' (ro_LeaseID opn) (ro_TTL opn) (mem_etcd s)\<rparr>
      else if ro_Type opn = ''LEASE_REVOKE'' then
        s\<lparr>mem_etcd := applyLeaseOperationDirect order now ''LEASE_REVOKE'' (ro_LeaseID opn) 0 (mem_etcd s)\<rparr>
      else if ro_Type opn = ''TXN'' then apply_txn now opn s
      else s)"

definition applyOperation ::
    "(string list \<Rightarrow> string list) \<Rightarrow> int \<Rightarrow> RaftOperation \<Rightarrow> Memory \<Rightarrow> Memory" where
  "applyOperation order now opn s = notify_waiter opn (apply_effect order now opn s)"

section \<open>Batched apply\<close>

definition batchApplyPutNoLock :: "RaftOperation \<Rightarrow> MemoryEtcd \<Rightarrow> MemoryEtcd" where
  "batchApplyPutNoLock opn m =
     (let newRevision = revision m + 1;
          key = ro_Key opn;
          shardIdx = getShard key;
          prevKv = gm_get (shards (kvData m) ! shardIdx) key;
          createRevision = (case prevKv of Some p \<Rightarrow> kv_CreateRevision p | None \<Rightarrow> newRevision);
          version = (case prevKv of Some p \<Rightarrow> kv_Version p + 1 | None \<Rightarrow> 1);
          kv = \<lparr>kv_Key = key, kv_Value = ro_Value opn, kv_CreateRevision = createRevision,
                kv_ModRevision = newRevision, kv_Version = version, kv_Lease = ro_LeaseID opn\<rparr>;
          data = (shards (kvData m))[shardIdx := gm_set key kv (shards (kvData m) ! shardIdx)];
          m' = m\<lparr>revision := newRevision, kvData := (kvData m)\<lparr>shards := data\<rparr>,
                 leases := attach_key (ro_LeaseID opn) key (leases m)\<rparr>
      in notifyWatchers key kv EventTypePut m')"

definition batchApplyDeleteNoLock :: "RaftOperation \<Rightarrow> MemoryEtcd \<Rightarrow> MemoryEtcd" where
  "batchApplyDeleteNoLock opn m =
     (let key = ro_Key opn;
          shardIdx = getShard key
      in case gm_get (shards (kvData m) ! shardIdx) key of
           None \<Rightarrow> m
         | Some kv \<Rightarrow>
             let data = (shards (kvData m))[shardIdx := gm_del key (shards (kvData m) ! shardIdx)];
                 m' = m\<lparr>revision := revision m + 1, kvData := (kvData m)\<lparr>shards := data\<rparr>,
                        leases := detach_key (Some kv) key (leases m)\<rparr>
             in notifyWatchers key kv EventTypeDelete m')"

text \<open>Grouping by shard, in the order of the batch within each group.\<close>

fun shard_groups :: "RaftOperation list \<Rightarrow> (nat, RaftOperation list) gomap \<Rightarrow> (nat, RaftOperation list) gomap" where
  "shard_groups [] shardOps = shardOps"
| "shard_groups (opn # ops) shardOps =
     (let shardIdx = getShard (ro_Key opn);
          old = (case gm_get shardOps shardIdx of Some os \<Rightarrow> os | None \<Rightarrow> [])
      in shard_groups ops (gm_set shardIdx (old @ [opn]) shardOps))"

text \<open>
  The interleaving that a schedule produces: each entry lets the goroutine of that shard run one more
  operation (an entry whose goroutine has finished is skipped); what is left runs before the wait group
  releases the caller.
\<close>

fun run_goroutines :: "nat list \<Rightarrow> (nat, 'a list) gomap \<Rightarrow> 'a list" where
  "run_goroutines [] groups = concat (map snd groups)"
| "run_goroutines (i # sched) groups =
     (case gm_get groups i of
        Some (opn # ops) \<Rightarrow> opn # run_goroutines sched (gm_set i ops groups)
      | _ \<Rightarrow> run_goroutines sched groups)"

definition batchApplyPut :: "nat list \<Rightarrow> RaftOperation list \<Rightarrow> MemoryEtcd \<Rightarrow> MemoryEtcd" where
  "batchApplyPut sched ops m = fold batchApplyPutNoLock (run_goroutines sched (shard_groups ops [])) m"

definition batchApplyDeleteSingleKey :: "nat list \<Rightarrow> RaftOperation list \<Rightarrow> MemoryEtcd \<Rightarrow> MemoryEtcd" where
  "batchApplyDeleteSingleKey sched ops m =
     fold batchApplyDeleteNoLock (run_goroutines sched (shard_groups ops [])) m"

definition batchApplyDelete :: "nat list \<Rightarrow> RaftOperation list \<Rightarrow> MemoryEtcd \<Rightarrow> MemoryEtcd" where
  "batchApplyDelete sched ops m =
     (let singleKeyOps = filter (\<lambda>opn. ro_RangeEnd opn = []) ops;
          rangeOps = filter (\<lambda>opn. ro_RangeEnd opn \<noteq> []) ops;
          m' = (if 0 < length singleKeyOps then batchApplyDeleteSingleKey sched singleKeyOps m else m)
      in fold (\<lambda>opn m. fst (deleteDirect (ro_Key opn) (ro_RangeEnd opn) m)) rangeOps m')"

definition flushBatch ::
    "(string list \<Rightarrow> string list) \<Rightarrow> int \<Rightarrow> nat list \<Rightarrow> string \<Rightarrow> RaftOperation list \<Rightarrow> Memory \<Rightarrow> Memory" where
  "flushBatch order now sched currentType currentBatch s =
     (if currentBatch = [] then s
      else if currentType = ''PUT'' then s\<lparr>mem_etcd := batchApplyPut sched currentBatch (mem_etcd s)\<rparr>
      else if currentType = ''DELETE'' then s\<lparr>mem_etcd := batchApplyDelete sched currentBatch (mem_etcd s)\<rparr>
      else if currentType = ''TXN'' then fold (apply_txn now) currentBatch s
      else if currentType = ''LEASE_GRANT'' \<or> currentType = ''LEASE_REVOKE'' then
        s\<lparr>mem_etcd := fold (\<lambda>opn. applyLeaseOperationDirect order now (ro_Type opn) (ro_LeaseID opn) (ro_TTL opn))
                        currentBatch (mem_etcd s)\<rparr>
      else s)"

text \<open>The batching loop: a change of type flushes what was collected.  \<open>scheds\<close> lists one schedule per flush.\<close>

fun batch_loop ::
    "(string list \<Rightarrow> string list) \<Rightarrow> int \<Rightarrow> nat list list \<Rightarrow> string \<Rightarrow> RaftOperation list
       \<Rightarrow> RaftOperation list \<Rightarrow> Memory \<Rightarrow> Memory" where
  "batch_loop order now scheds currentType currentBatch [] s =
     flushBatch order now (case scheds of [] \<Rightarrow> [] | sc # _ \<Rightarrow> sc) currentType currentBatch s"
| "batch_loop order now scheds currentType currentBatch (opn # ops) s =
     (if currentType \<noteq> ro_Type opn \<and> currentBatch \<noteq> []
      then batch_loop order now (tl scheds) (ro_Type opn) [opn] ops
             (flushBatch order now (case scheds of [] \<Rightarrow> [] | sc # _ \<Rightarrow> sc) currentType currentBatch s)
      else batch_loop order now scheds (ro_Type opn) (currentBatch @ [opn]) ops s)"

definition applyBatch ::
    "(string list \<Rightarrow> string list) \<Rightarrow> int \<Rightarrow> nat list list \<Rightarrow> RaftOperation list \<Rightarrow> Memory \<Rightarrow> Memory" where
  "applyBatch order now scheds ops s =
     (case ops of
        [] \<Rightarrow> s
      | [opn] \<Rightarrow> applyOperation order now opn s
      | _ \<Rightarrow> fold notify_waiter ops (batch_loop order now scheds [] [] ops s))"

end
