(* ===== verification/Memory_Replication.thy ===== *)
theory Memory_Replication
  imports Memory_Apply
begin

text \<open>
  What replicas that apply the same log agree on.  The batched apply is compared with applying the
  operations one by one: the per-shard goroutines may interleave in any order, so the facts are stated for
  every schedule, over a view of the engine without the create and mod revisions; that those revisions do
  depend on the schedule is a theorem too.
\<close>

section \<open>The batched routines against the direct ones\<close>

lemma putDirect_store:
  "putDirect key val leaseID m =
     (notifyWatchers key (next_kv key val leaseID (revision m + 1) (sm_Get (kvData m) key)) EventTypePut
        (store_kv key val leaseID m), revision m + 1, sm_Get (kvData m) key)"
  by (simp add: putDirect_def store_kv_def next_kv_def Let_def)

definition put_op :: "RaftOperation \<Rightarrow> MemoryEtcd \<Rightarrow> MemoryEtcd" where
  "put_op opn m = fst (putDirect (ro_Key opn) (ro_Value opn) (ro_LeaseID opn) m)"

definition delete_op :: "RaftOperation \<Rightarrow> MemoryEtcd \<Rightarrow> MemoryEtcd" where
  "delete_op opn m = fst (deleteDirect (ro_Key opn) (ro_RangeEnd opn) m)"

lemma batchApplyPutNoLock_eq: "batchApplyPutNoLock = put_op"
  by (intro ext) (simp add: batchApplyPutNoLock_def put_op_def putDirect_def sm_Get_def sm_Set_def Let_def)

lemma batchApplyDeleteNoLock_eq: "ro_RangeEnd opn = [] \<Longrightarrow> batchApplyDeleteNoLock opn = delete_op opn"
  by (intro ext) (simp add: batchApplyDeleteNoLock_def delete_op_def deleteDirect_def delete_entry_def
      sm_Get_def sm_Delete_def Let_def split: option.splits)

section \<open>Interleavings\<close>

text \<open>What a schedule may change: the order between shards, never the order within one.\<close>

abbreviation shard_of :: "RaftOperation \<Rightarrow> nat" where
  "shard_of opn \<equiv> getShard (ro_Key opn)"

lemma shard_groups_wf: "gm_wf groups \<Longrightarrow> gm_wf (shard_groups ops groups)"
  by (induction ops groups rule: shard_groups.induct) (simp_all add: Let_def)

definition group_of :: "nat \<Rightarrow> (nat, 'a list) gomap \<Rightarrow> 'a list" where
  "group_of i groups = (case gm_get groups i of Some os \<Rightarrow> os | None \<Rightarrow> [])"

lemma group_of_set: "group_of i (gm_set j os groups) = (if i = j then os else group_of i groups)"
  by (simp add: group_of_def gomap_simps)

lemma group_of_shard_groups:
  "group_of i (shard_groups ops groups) = group_of i groups @ filter (\<lambda>opn. shard_of opn = i) ops"
proof (induction ops groups rule: shard_groups.induct)
  case (2 opn ops groups)
  then show ?case
    by (simp add: Let_def group_of_set) (simp add: group_of_def)
qed simp

lemma concat_groups_filter:
  assumes "gm_wf groups" "\<And>i opn. opn \<in> set (group_of i groups) \<Longrightarrow> c opn = i"
  shows "filter (\<lambda>opn. c opn = i) (concat (map snd groups)) = group_of i groups"
  using assms
proof (induction groups)
  case (Cons g groups)
  obtain j os where g: "g = (j, os)"
    by force
  have os: "c opn = j" if "opn \<in> set os" for opn
    using Cons.prems(2) [of opn j] that by (simp add: g group_of_def)
  have other: "group_of k groups = group_of k (g # groups)" if "k \<noteq> j" for k
    using that by (simp add: g group_of_def)
  have none: "group_of j groups = []"
    using Cons.prems(1) by (simp add: g group_of_def map_of_eq_None_iff [THEN iffD2])
  have "filter (\<lambda>opn. c opn = i) (concat (map snd groups)) = group_of i groups"
    using Cons.prems other none by (intro Cons.IH) (auto, metis empty_iff list.set(1))
  moreover have "filter (\<lambda>opn. c opn = i) os = (if i = j then os else [])"
    using os by (auto simp: filter_empty_conv filter_id_conv)
  ultimately show ?case
    using none other [of i] by (auto simp: g group_of_def)
qed (simp add: group_of_def)

lemma run_goroutines_filter:
  assumes "gm_wf groups" "\<And>i opn. opn \<in> set (group_of i groups) \<Longrightarrow> c opn = i"
  shows "filter (\<lambda>opn. c opn = i) (run_goroutines sched groups) = group_of i groups"
  using assms
proof (induction sched arbitrary: groups)
  case Nil
  then show ?case
    by (simp add: concat_groups_filter)
next
  case (Cons j sched)
  show ?case
  proof (cases "group_of j groups")
    case Nil
    then have "run_goroutines (j # sched) groups = run_goroutines sched groups"
      by (auto simp: group_of_def split: option.splits)
    with Cons show ?thesis
      by simp
  next
    case grp: (Cons opn ops)
    then have run: "run_goroutines (j # sched) groups = opn # run_goroutines sched (gm_set j ops groups)"
      by (auto simp: group_of_def split: option.splits)
    have mem: "c o' = k" if "o' \<in> set (group_of k (gm_set j ops groups))" for o' k
      using that Cons.prems(2) [of o' k] grp
      by (cases "k = j") (simp_all add: group_of_set)
    have "filter (\<lambda>opn. c opn = i) (run_goroutines sched (gm_set j ops groups)) = group_of i (gm_set j ops groups)"
      using Cons.prems(1) mem by (intro Cons.IH) simp_all
    moreover have "c opn = j"
      using Cons.prems(2) [of opn j] grp by simp
    ultimately show ?thesis
      using grp unfolding run by (auto simp: group_of_set)
  qed
qed

lemma run_shard_filter:
  "filter (\<lambda>opn. shard_of opn = i) (run_goroutines sched (shard_groups ops []))
     = filter (\<lambda>opn. shard_of opn = i) ops"
proof -
  have "opn \<in> set (group_of j (shard_groups ops [])) \<Longrightarrow> shard_of opn = j" for j opn
    by (simp add: group_of_shard_groups) (simp add: group_of_def)
  then show ?thesis
    using run_goroutines_filter [of "shard_groups ops []" shard_of i sched]
    by (simp add: shard_groups_wf group_of_shard_groups) (simp add: group_of_def)
qed

lemma trans_sym: "a = c \<Longrightarrow> b = c \<Longrightarrow> a = b"
  by simp

lemma filter_refine: "(\<And>x. P x \<Longrightarrow> Q x) \<Longrightarrow> filter P (filter Q xs) = filter P xs"
  by (induction xs) auto

lemma run_key_filter:
  "filter (\<lambda>opn. ro_Key opn = k) (run_goroutines sched (shard_groups ops []))
     = filter (\<lambda>opn. ro_Key opn = k) ops"
proof -
  have "filter (\<lambda>opn. ro_Key opn = k) os = filter (\<lambda>opn. ro_Key opn = k) (filter (\<lambda>opn. shard_of opn = getShard k) os)"
    for os
    by (subst filter_refine) auto
  from this [of "run_goroutines sched (shard_groups ops [])"] this [of ops] show ?thesis
    unfolding run_shard_filter by (rule trans_sym)
qed

lemma set_run [simp]: "set (run_goroutines sched (shard_groups ops [])) = set ops"
proof (rule set_eqI)
  fix opn
  have "opn \<in> set os \<longleftrightarrow> opn \<in> set (filter (\<lambda>o'. shard_of o' = shard_of opn) os)" for os
    by simp
  from this [of "run_goroutines sched (shard_groups ops [])"] this [of ops]
  show "opn \<in> set (run_goroutines sched (shard_groups ops [])) \<longleftrightarrow> opn \<in> set ops"
    unfolding run_shard_filter by (rule trans_sym)
qed

lemma mset_by_filter:
  assumes "\<And>i :: 'b. filter (\<lambda>x. c x = i) xs = filter (\<lambda>x. c x = i) ys"
  shows "mset xs = mset ys"
proof (rule multiset_eqI)
  fix x
  have "count (mset zs) x = count (mset (filter (\<lambda>y. c y = c x) zs)) x" for zs
    by (induction zs) auto
  with assms show "count (mset xs) x = count (mset ys) x"
    by metis
qed

lemma length_run [simp]: "length (run_goroutines sched (shard_groups ops [])) = length ops"
  by (rule mset_eq_length, rule mset_by_filter [of shard_of]) (rule run_shard_filter)

section \<open>What every replica agrees on\<close>

text \<open>
  The view of the engine without the create and mod revisions of the entries: the revision counter, the
  value, version and lease of every key, and the lease table with its key sets.
\<close>

type_synonym kv_view = "string \<rightharpoonup> string \<times> int \<times> int"
type_synonym lease_view = "int \<rightharpoonup> int \<times> int \<times> int \<times> string set"
type_synonym node_view = "int \<times> kv_view \<times> lease_view"

definition entry_view :: "key_value \<Rightarrow> string \<times> int \<times> int" where
  "entry_view kv = (kv_Value kv, kv_Version kv, kv_Lease kv)"

definition kvs_view :: "MemoryEtcd \<Rightarrow> kv_view" where
  "kvs_view m k = map_option entry_view (sm_Get (kvData m) k)"

definition leases_view :: "(int, lease) gomap \<Rightarrow> lease_view" where
  "leases_view ls i = map_option (\<lambda>l. (ls_ID l, ls_TTL l, ls_GrantTime l, set (ls_Keys l))) (gm_get ls i)"

definition node_view :: "MemoryEtcd \<Rightarrow> node_view" where
  "node_view m = (revision m, kvs_view m, leases_view (leases m))"

definition add_key :: "int \<Rightarrow> string \<Rightarrow> lease_view \<Rightarrow> lease_view" where
  "add_key i k L j = (if i \<noteq> 0 \<and> j = i then map_option (\<lambda>(a, b, c, K). (a, b, c, insert k K)) (L j) else L j)"

definition put_entry :: "RaftOperation \<Rightarrow> (string \<times> int \<times> int) option \<Rightarrow> (string \<times> int \<times> int) option" where
  "put_entry opn e = Some (ro_Value opn, (case e of None \<Rightarrow> 1 | Some (_, ver, _) \<Rightarrow> ver + 1), ro_LeaseID opn)"

fun view_put :: "RaftOperation \<Rightarrow> node_view \<Rightarrow> node_view" where
  "view_put opn (r, V, L) =
     (r + 1, V(ro_Key opn := put_entry opn (V (ro_Key opn))), add_key (ro_LeaseID opn) (ro_Key opn) L)"

text \<open>Removing a set of keys: one revision per key present, and each key leaves its lease's key set.\<close>

definition drop_keys :: "string set \<Rightarrow> kv_view \<Rightarrow> lease_view \<Rightarrow> lease_view" where
  "drop_keys D V L i =
     map_option (\<lambda>(a, b, c, K). (a, b, c, K - {k \<in> D. i \<noteq> 0 \<and> (\<exists>v n. V k = Some (v, n, i))})) (L i)"

fun view_delete :: "string set \<Rightarrow> node_view \<Rightarrow> node_view" where
  "view_delete D (r, V, L) = (r + int (card (D \<inter> dom V)), V |` (- D), drop_keys D V L)"

definition covered :: "string \<Rightarrow> string \<Rightarrow> string set" where
  "covered key rangeEnd = {k. if rangeEnd = [] then k = key else in_key_range k key rangeEnd}"

fun view_grant :: "int \<Rightarrow> int \<Rightarrow> int \<Rightarrow> node_view \<Rightarrow> node_view" where
  "view_grant now i ttl (r, V, L) = (r, V, L(i \<mapsto> (i, ttl, now, {})))"

fun view_revoke :: "int \<Rightarrow> node_view \<Rightarrow> node_view" where
  "view_revoke i (r, V, L) =
     (case L i of None \<Rightarrow> (r, V, L) | Some (_, _, _, K) \<Rightarrow> view_delete K (r, V, L(i := None)))"

definition view_op :: "int \<Rightarrow> RaftOperation \<Rightarrow> node_view \<Rightarrow> node_view" where
  "view_op now opn s =
     (if ro_Type opn = ''PUT'' then view_put opn s
      else if ro_Type opn = ''DELETE'' then view_delete (covered (ro_Key opn) (ro_RangeEnd opn)) s
      else if ro_Type opn = ''LEASE_GRANT'' then view_grant now (ro_LeaseID opn) (ro_TTL opn) s
      else if ro_Type opn = ''LEASE_REVOKE'' then view_revoke (ro_LeaseID opn) s
      else s)"

subsection \<open>Puts\<close>

lemma leases_view_attach: "leases_view (attach_key i k ls) = add_key i k (leases_view ls)"
  by (rule ext) (auto simp: leases_view_def attach_key_def add_key_def gomap_simps split: option.splits)

lemma node_view_notifyWatchers [simp]: "node_view (notifyWatchers k kv t m) = node_view m"
  by (simp add: node_view_def kvs_view_def fun_eq_iff)

lemma me_inv_put_op [wf_intros]: "me_inv m \<Longrightarrow> me_inv (put_op opn m)"
  by (simp add: put_op_def putDirect_store me_inv_notifyWatchers me_inv_store_kv)

lemma me_inv_fold_put_op [wf_intros]: "me_inv m \<Longrightarrow> me_inv (fold put_op ops m)"
  by (induction ops arbitrary: m) (simp_all add: me_inv_put_op)

lemma node_view_put_op: "me_inv m \<Longrightarrow> node_view (put_op opn m) = view_put opn (node_view m)"
  by (auto simp: put_op_def putDirect_store node_view_def kvs_view_def me_invD entry_view_def next_kv_def
        leases_view_attach put_entry_def fun_eq_iff split: option.splits)

lemma node_view_fold_put_op: "me_inv m \<Longrightarrow> node_view (fold put_op ops m) = fold view_put ops (node_view m)"
  by (induction ops arbitrary: m) (simp_all add: me_inv_put_op node_view_put_op)

lemma add_key_fold:
  "fold (\<lambda>opn. add_key (ro_LeaseID opn) (ro_Key opn)) ops L j
     = map_option (\<lambda>(a, b, c, K). (a, b, c, K \<union> {ro_Key opn |opn. opn \<in> set ops \<and> j \<noteq> 0 \<and> ro_LeaseID opn = j})) (L j)"
  by (induction ops arbitrary: L) (auto simp: add_key_def option.map_comp option.map_ident comp_def
        case_prod_unfold intro!: option.map_cong)

lemma fold_view_put:
  "fold view_put ops (r, V, L) =
     (r + int (length ops), \<lambda>k. fold put_entry (filter (\<lambda>opn. ro_Key opn = k) ops) (V k),
      fold (\<lambda>opn. add_key (ro_LeaseID opn) (ro_Key opn)) ops L)"
  by (induction ops arbitrary: r V L) (simp_all add: fun_eq_iff)

lemma fold_view_put_run:
  "fold view_put (run_goroutines sched (shard_groups ops [])) s = fold view_put ops s"
  by (cases s) (simp add: fold_view_put run_key_filter add_key_fold fun_eq_iff)

lemma node_view_batchApplyPut:
  "me_inv m \<Longrightarrow> node_view (batchApplyPut sched ops m) = fold view_put ops (node_view m)"
  by (simp add: batchApplyPut_def batchApplyPutNoLock_eq node_view_fold_put_op fold_view_put_run)

subsection \<open>Deletions\<close>

lemma view_delete_cong:
  assumes "D \<inter> dom V = D' \<inter> dom V"
  shows "view_delete D (r, V, L) = view_delete D' (r, V, L)"
proof -
  have *: "k \<in> D \<longleftrightarrow> k \<in> D'" if "V k \<noteq> None" for k
    using assms that by blast
  have "V |` (- D) = V |` (- D')"
  proof
    show "(V |` (- D)) k = (V |` (- D')) k" for k
      using * [of k] by (cases "V k") (auto simp: restrict_map_def)
  qed
  moreover have "drop_keys D V L = drop_keys D' V L"
  proof
    show "drop_keys D V L i = drop_keys D' V L i" for i
    proof -
      have "{k \<in> D. i \<noteq> 0 \<and> (\<exists>v n. V k = Some (v, n, i))} = {k \<in> D'. i \<noteq> 0 \<and> (\<exists>v n. V k = Some (v, n, i))}"
        using * by auto
      then show ?thesis
        by (simp add: drop_keys_def)
    qed
  qed
  ultimately show ?thesis
    by (simp add: assms)
qed

lemma view_delete_absent:
  assumes "D \<inter> dom V = {}"
  shows "view_delete D (r, V, L) = (r, V, L)"
proof -
  have "view_delete D (r, V, L) = view_delete {} (r, V, L)"
    by (rule view_delete_cong) (simp add: assms)
  then show ?thesis
    by (simp add: restrict_map_def drop_keys_def fun_eq_iff option.map_ident case_prod_unfold)
qed

lemma view_delete_union:
  assumes "finite (dom V)"
  shows "view_delete D' (view_delete D (r, V, L)) = view_delete (D \<union> D') (r, V, L)"
proof -
  have "(D \<union> D') \<inter> dom V = (D \<inter> dom V) \<union> (D' \<inter> dom (V |` (- D)))"
    by (auto simp: restrict_map_def split: if_splits)
  moreover have "card \<dots> = card (D \<inter> dom V) + card (D' \<inter> dom (V |` (- D)))"
    using assms by (intro card_Un_disjoint) auto
  ultimately have "card ((D \<union> D') \<inter> dom V) = card (D \<inter> dom V) + card (D' \<inter> dom (V |` (- D)))"
    by simp
  moreover have "V |` (- D) |` (- D') = V |` (- (D \<union> D'))"
    by (simp add: Int_commute)
  moreover have "drop_keys D' (V |` (- D)) (drop_keys D V L) = drop_keys (D \<union> D') V L"
  proof
    show "drop_keys D' (V |` (- D)) (drop_keys D V L) i = drop_keys (D \<union> D') V L i" for i
      by (cases "L i") (auto simp: drop_keys_def restrict_map_def)
  qed
  ultimately show ?thesis
    by simp
qed

lemma fold_view_delete:
  assumes "finite (dom V)"
  shows "fold (\<lambda>x. view_delete (f x)) xs (r, V, L) = view_delete (\<Union>x \<in> set xs. f x) (r, V, L)"
  using assms
proof (induction xs arbitrary: r V L)
  case (Cons x xs)
  have "finite (dom (V |` (- f x)))"
    using Cons.prems by simp
  from Cons.IH [OF this] view_delete_union [OF Cons.prems, of "\<Union>x \<in> set xs. f x" "f x" r L] show ?case
    by simp
qed (simp add: view_delete_absent del: view_delete.simps)

lemma leases_view_detach:
  assumes "sm_Get (kvData m) k = Some kv"
  shows "leases_view (detach_key (Some kv) k ls) = drop_keys {k} (kvs_view m) (leases_view ls)"
proof
  show "leases_view (detach_key (Some kv) k ls) i = drop_keys {k} (kvs_view m) (leases_view ls) i" for i
    using assms
    by (cases "gm_get ls i"; cases "gm_get ls (kv_Lease kv)")
       (auto simp: leases_view_def detach_key_def drop_keys_def kvs_view_def entry_view_def gomap_simps)
qed

lemma dom_kvs_view [simp]: "dom (kvs_view m) = dom (sm_Get (kvData m))"
  by (auto simp: kvs_view_def)

lemma me_inv_delete_entry [wf_intros]: "me_inv m \<Longrightarrow> me_inv (delete_entry k kv m)"
  unfolding delete_entry_def
  by (rule me_inv_notifyWatchers) (auto simp: me_inv_def sm_simps leases_ok_detach intro: data_ok_mono [OF data_ok_del])

lemma node_view_delete_entry:
  assumes "me_inv m" "sm_Get (kvData m) k = Some kv"
  shows "node_view (delete_entry k kv m) = view_delete {k} (node_view m)"
proof -
  have "k \<in> dom (sm_Get (kvData m))"
    using assms(2) by blast
  then have "{k} \<inter> dom (sm_Get (kvData m)) = {k}"
    by blast
  then show ?thesis
    using assms by (auto simp: delete_entry_def node_view_def leases_view_detach kvs_view_def sm_simps me_invD
        restrict_map_def fun_eq_iff)
qed

lemma node_view_fold_delete_entry:
  assumes "me_inv m" "\<And>kv. kv \<in> set kvs \<Longrightarrow> sm_Get (kvData m) (kv_Key kv) = Some kv" "distinct (map kv_Key kvs)"
  shows "me_inv (fold (\<lambda>kv. delete_entry (kv_Key kv) kv) kvs m)
    \<and> node_view (fold (\<lambda>kv. delete_entry (kv_Key kv) kv) kvs m) = view_delete (kv_Key ` set kvs) (node_view m)"
  using assms
proof (induction kvs arbitrary: m)
  case Nil
  then show ?case
    by (simp add: node_view_def view_delete_absent del: view_delete.simps)
next
  case (Cons kv kvs)
  let ?m = "delete_entry (kv_Key kv) kv m"
  have get: "sm_Get (kvData ?m) (kv_Key kv') = Some kv'" if "kv' \<in> set kvs" for kv'
    using that Cons.prems by (auto simp: delete_entry_def sm_simps me_invD) (metis image_eqI)
  have view: "node_view ?m = view_delete {kv_Key kv} (node_view m)"
    using Cons.prems by (simp add: node_view_delete_entry del: view_delete.simps)
  have fin: "finite (dom (kvs_view m))"
    using Cons.prems(1) by (simp add: me_invD)
  have "view_delete (kv_Key ` set kvs) (view_delete {kv_Key kv} (node_view m))
      = view_delete (kv_Key ` set (kv # kvs)) (node_view m)"
    unfolding node_view_def by (subst view_delete_union [OF fin]) simp
  with Cons.IH [of ?m] get view Cons.prems me_inv_delete_entry show ?case
    by (simp del: view_delete.simps)
qed

lemma deleteDirect_view:
  assumes "me_inv m"
  shows "me_inv (fst (deleteDirect key rangeEnd m))"
    "node_view (fst (deleteDirect key rangeEnd m)) = view_delete (covered key rangeEnd) (node_view m)"
proof -
  let ?M = "sm_Get (kvData m)" and ?kvs = "sm_Range key rangeEnd 0 (kvData m)"
  have "me_inv (fst (deleteDirect key rangeEnd m)) \<and>
    node_view (fst (deleteDirect key rangeEnd m)) = view_delete (covered key rangeEnd) (node_view m)"
  proof (cases "rangeEnd = []")
    case True
    show ?thesis
    proof (cases "?M key")
      case None
      then have "covered key rangeEnd \<inter> dom (kvs_view m) = {}"
        using True by (auto simp: covered_def)
      with None True assms show ?thesis
        by (simp add: deleteDirect_def node_view_def view_delete_absent del: view_delete.simps)
    next
      case (Some kv)
      moreover have "covered key rangeEnd = {key}"
        using True by (simp add: covered_def)
      ultimately show ?thesis
        using True assms by (simp add: deleteDirect_def Let_def me_inv_delete_entry node_view_delete_entry
            del: view_delete.simps)
    qed
  next
    case False
    note range = sm_Range_spec [OF me_invD(1,5) [OF assms], of key rangeEnd 0]
    have mem: "?M (kv_Key kv) = Some kv \<and> in_key_range (kv_Key kv) key rangeEnd" if "kv \<in> set ?kvs" for kv
      using that me_invD(5,6) [OF assms] by (auto simp: range set_range_spec dest: keys_okD)
    have keys: "map kv_Key ?kvs = range_keys ?M key rangeEnd"
      using me_invD(5,6) [OF assms] by (simp add: range range_spec_keys)
    have "kv_Key ` set ?kvs \<inter> dom ?M = covered key rangeEnd \<inter> dom ?M"
      using False me_invD(6) [OF assms] arg_cong [OF keys, of set] by (auto simp: set_range_keys covered_def)
    then have "view_delete (kv_Key ` set ?kvs) (node_view m) = view_delete (covered key rangeEnd) (node_view m)"
      unfolding node_view_def by (intro view_delete_cong) simp
    moreover have "fst (deleteDirect key rangeEnd m) = fold (\<lambda>kv. delete_entry (kv_Key kv) kv) ?kvs m"
      using False by (simp add: deleteDirect_def Let_def)
    ultimately show ?thesis
      using node_view_fold_delete_entry [OF assms, of ?kvs] mem keys by (simp del: view_delete.simps)
  qed
  then show "me_inv (fst (deleteDirect key rangeEnd m))"
    "node_view (fst (deleteDirect key rangeEnd m)) = view_delete (covered key rangeEnd) (node_view m)"
    by blast+
qed

lemma fold_delete_op_view:
  assumes "me_inv m"
  shows "me_inv (fold delete_op ops m) \<and> node_view (fold delete_op ops m)
    = fold (\<lambda>opn. view_delete (covered (ro_Key opn) (ro_RangeEnd opn))) ops (node_view m)"
  using assms
  by (induction ops arbitrary: m) (simp_all add: delete_op_def deleteDirect_view del: view_delete.simps)

lemma node_view_fold_delete_op:
  assumes "me_inv m"
  shows "node_view (fold delete_op ops m)
    = view_delete (\<Union>opn \<in> set ops. covered (ro_Key opn) (ro_RangeEnd opn)) (node_view m)"
  using fold_delete_op_view [OF assms] assms
  by (simp add: node_view_def fold_view_delete me_invD del: view_delete.simps)

lemma batchApplyDelete_fold:
  "batchApplyDelete sched ops m =
     fold delete_op (run_goroutines sched (shard_groups (filter (\<lambda>opn. ro_RangeEnd opn = []) ops) [])
                     @ filter (\<lambda>opn. ro_RangeEnd opn \<noteq> []) ops) m"
proof -
  let ?run = "run_goroutines sched (shard_groups (filter (\<lambda>opn. ro_RangeEnd opn = []) ops) [])"
  have "fold batchApplyDeleteNoLock ?run m = fold delete_op ?run m"
    by (rule fold_cong) (auto simp: batchApplyDeleteNoLock_eq)
  moreover have "?run = []" if "filter (\<lambda>opn. ro_RangeEnd opn = []) ops = []"
    using arg_cong [OF that, of length] by (metis length_0_conv length_run)
  ultimately show ?thesis
    by (auto simp: batchApplyDelete_def batchApplyDeleteSingleKey_def delete_op_def [abs_def] Let_def)
qed

lemma node_view_batchApplyDelete:
  assumes "me_inv m"
  shows "me_inv (batchApplyDelete sched ops m)"
    "node_view (batchApplyDelete sched ops m)
       = fold (\<lambda>opn. view_delete (covered (ro_Key opn) (ro_RangeEnd opn))) ops (node_view m)"
proof -
  show "me_inv (batchApplyDelete sched ops m)"
    using fold_delete_op_view [OF assms] by (simp add: batchApplyDelete_fold del: fold_append)
  have "set (filter (\<lambda>opn. ro_RangeEnd opn = []) ops @ filter (\<lambda>opn. ro_RangeEnd opn \<noteq> []) ops) = set ops"
    by auto
  then show "node_view (batchApplyDelete sched ops m)
       = fold (\<lambda>opn. view_delete (covered (ro_Key opn) (ro_RangeEnd opn))) ops (node_view m)"
    using node_view_fold_delete_op [OF assms] fold_delete_op_view [OF assms, of ops]
    by (simp add: batchApplyDelete_fold del: fold_append view_delete.simps)
qed

subsection \<open>Leases\<close>

lemma leases_view_set: "leases_view (gm_set i l ls) = (leases_view ls)(i \<mapsto> (ls_ID l, ls_TTL l, ls_GrantTime l, set (ls_Keys l)))"
  by (rule ext) (simp add: leases_view_def gomap_simps)

lemma leases_view_del: "leases_view (gm_del i ls) = (leases_view ls)(i := None)"
  by (rule ext) (simp add: leases_view_def gomap_simps)

lemma kvs_view_leases [simp]: "kvs_view (m\<lparr>leases := ls\<rparr>) = kvs_view m"
  by (simp add: kvs_view_def fun_eq_iff)

lemma me_inv_leases: "me_inv m \<Longrightarrow> leases_ok ls \<Longrightarrow> me_inv (m\<lparr>leases := ls\<rparr>)"
  by (simp add: me_inv_def)

lemma fold_deleteDirect_view:
  assumes "me_inv m"
  shows "me_inv (fold (\<lambda>key m. fst (deleteDirect key [] m)) ks m)"
    "node_view (fold (\<lambda>key m. fst (deleteDirect key [] m)) ks m) = view_delete (set ks) (node_view m)"
proof -
  have "me_inv (fold (\<lambda>key m. fst (deleteDirect key [] m)) ks m) \<and>
    node_view (fold (\<lambda>key m. fst (deleteDirect key [] m)) ks m)
      = fold (\<lambda>k. view_delete (covered k [])) ks (node_view m)"
    using assms by (induction ks arbitrary: m) (simp_all add: deleteDirect_view del: view_delete.simps)
  moreover have "(\<Union>k \<in> set ks. covered k []) = set ks"
    by (auto simp: covered_def)
  ultimately show "me_inv (fold (\<lambda>key m. fst (deleteDirect key [] m)) ks m)"
    "node_view (fold (\<lambda>key m. fst (deleteDirect key [] m)) ks m) = view_delete (set ks) (node_view m)"
    using assms by (simp_all add: node_view_def fold_view_delete me_invD del: view_delete.simps)
qed

lemma grant_view:
  assumes "me_inv m"
  shows "me_inv (applyLeaseOperationDirect order now ''LEASE_GRANT'' i ttl m)"
    "node_view (applyLeaseOperationDirect order now ''LEASE_GRANT'' i ttl m) = view_grant now i ttl (node_view m)"
  using assms
  by (auto simp: applyLeaseOperationDirect_def node_view_def leases_view_set intro!: me_inv_leases leases_ok_set me_invD)

lemma revoke_view:
  assumes "me_inv m"
  shows "me_inv (applyLeaseOperationDirect order now ''LEASE_REVOKE'' i ttl m)"
    "iteration_order order \<Longrightarrow>
       node_view (applyLeaseOperationDirect order now ''LEASE_REVOKE'' i ttl m) = view_revoke i (node_view m)"
proof -
  have inv: "me_inv (m\<lparr>leases := gm_del i (leases m)\<rparr>)"
    using assms by (simp add: me_inv_leases leases_ok_del me_invD)
  show "me_inv (applyLeaseOperationDirect order now ''LEASE_REVOKE'' i ttl m)"
    using assms inv by (simp add: applyLeaseOperationDirect_def fold_deleteDirect_view split: option.splits)
  show "node_view (applyLeaseOperationDirect order now ''LEASE_REVOKE'' i ttl m) = view_revoke i (node_view m)"
    if "iteration_order order"
  proof (cases "gm_get (leases m) i")
    case None
    then show ?thesis
      by (simp add: applyLeaseOperationDirect_def node_view_def leases_view_def)
  next
    case (Some l)
    then have "leases_view (leases m) i = Some (ls_ID l, ls_TTL l, ls_GrantTime l, set (ls_Keys l))"
      by (simp add: leases_view_def)
    with Some fold_deleteDirect_view(2) [OF inv] that show ?thesis
      by (simp add: applyLeaseOperationDirect_def leases_view_del del: view_delete.simps)
         (simp add: node_view_def leases_view_del del: view_delete.simps)
  qed
qed

section \<open>Batches and single operations\<close>

lemma apply_txn_etcd:
  "mem_etcd (apply_txn now opn s)
     = fst (txnUnlocked now (ro_Compares opn) (ro_ThenOps opn) (ro_ElseOps opn) (mem_etcd s))"
  by (simp add: apply_txn_def applyTxnWithShardLocks_def split: prod.splits sum.splits)

lemma me_inv_apply_txn [wf_intros]: "me_inv (mem_etcd s) \<Longrightarrow> me_inv (mem_etcd (apply_txn now opn s))"
  using inv_me_Txn(1) [of "mem_etcd s" now "ro_Compares opn" "ro_ThenOps opn" "ro_ElseOps opn"]
  by (simp add: apply_txn_etcd me_Txn_def)

lemma notify_waiter_etcd [simp]: "mem_etcd (notify_waiter opn s) = mem_etcd s"
  by (simp add: notify_waiter_def)

lemma fold_notify_waiter_etcd [simp]: "mem_etcd (fold notify_waiter ops s) = mem_etcd s"
  by (induction ops arbitrary: s) simp_all

lemma me_inv_apply_effect [wf_intros]:
  "me_inv (mem_etcd s) \<Longrightarrow> me_inv (mem_etcd (apply_effect order now opn s))"
  using me_inv_put_op [of "mem_etcd s" opn]
  by (simp add: apply_effect_def put_op_def deleteDirect_view(1) grant_view(1) revoke_view(1) me_inv_apply_txn)

lemma view_apply_effect:
  assumes "me_inv (mem_etcd s)" "iteration_order order" "ro_Type opn \<noteq> ''TXN''"
  shows "node_view (mem_etcd (apply_effect order now opn s)) = view_op now opn (node_view (mem_etcd s))"
  using assms node_view_put_op [of "mem_etcd s" opn]
  by (simp add: apply_effect_def put_op_def deleteDirect_view(2) grant_view(2) revoke_view(2) view_op_def
      del: view_delete.simps)

lemma view_applyOperations:
  assumes "me_inv (mem_etcd s)" "iteration_order order" "\<forall>opn \<in> set ops. ro_Type opn \<noteq> ''TXN''"
  shows "node_view (mem_etcd (fold (applyOperation order now) ops s)) = fold (view_op now) ops (node_view (mem_etcd s))"
  using assms
  by (induction ops arbitrary: s) (simp_all add: applyOperation_def view_apply_effect me_inv_apply_effect)

lemma me_inv_batchApplyPut [wf_intros]: "me_inv m \<Longrightarrow> me_inv (batchApplyPut sched ops m)"
  by (simp add: batchApplyPut_def batchApplyPutNoLock_eq me_inv_fold_put_op)

lemma me_inv_fold: "(\<And>x m. x \<in> set xs \<Longrightarrow> me_inv (p m) \<Longrightarrow> me_inv (p (f x m))) \<Longrightarrow> me_inv (p m) \<Longrightarrow> me_inv (p (fold f xs m))"
  by (induction xs arbitrary: m) simp_all

lemma me_inv_lease_op:
  "me_inv m \<Longrightarrow> me_inv (applyLeaseOperationDirect order now t i ttl m)"
  by (cases "t = ''LEASE_GRANT''"; cases "t = ''LEASE_REVOKE''")
     (simp_all add: grant_view(1) revoke_view(1), simp add: applyLeaseOperationDirect_def)

lemma me_inv_flushBatch [wf_intros]:
  "me_inv (mem_etcd s) \<Longrightarrow> me_inv (mem_etcd (flushBatch order now sched t batch s))"
  by (auto simp: flushBatch_def me_inv_batchApplyPut node_view_batchApplyDelete(1)
        intro: me_inv_fold [where p = mem_etcd] me_inv_fold [where p = "\<lambda>m. m"] me_inv_apply_txn me_inv_lease_op)

lemma me_inv_batch_loop [wf_intros]:
  "me_inv (mem_etcd s) \<Longrightarrow> me_inv (mem_etcd (batch_loop order now scheds t batch ops s))"
  by (induction order now scheds t batch ops s rule: batch_loop.induct) (simp_all add: me_inv_flushBatch)

lemma me_inv_applyBatch [wf_intros]:
  "me_inv (mem_etcd s) \<Longrightarrow> me_inv (mem_etcd (applyBatch order now scheds ops s))"
  by (auto simp: applyBatch_def applyOperation_def me_inv_apply_effect me_inv_batch_loop
        simp del: batch_loop.simps split: list.splits)

lemma fold_view_op:
  assumes "\<forall>opn \<in> set ops. ro_Type opn = t"
  shows "t = ''PUT'' \<Longrightarrow> fold (view_op now) ops v = fold view_put ops v"
    "t = ''DELETE'' \<Longrightarrow> fold (view_op now) ops v
       = fold (\<lambda>opn. view_delete (covered (ro_Key opn) (ro_RangeEnd opn))) ops v"
    "t \<notin> {''PUT'', ''DELETE'', ''LEASE_GRANT'', ''LEASE_REVOKE''} \<Longrightarrow> fold (view_op now) ops v = v"
  using assms by (induction ops arbitrary: v) (simp_all add: view_op_def del: view_delete.simps view_put.simps)

lemma view_lease_batch:
  assumes "me_inv m" "iteration_order order"
    "\<forall>opn \<in> set ops. ro_Type opn = ''LEASE_GRANT'' \<or> ro_Type opn = ''LEASE_REVOKE''"
  shows "node_view (fold (\<lambda>opn. applyLeaseOperationDirect order now (ro_Type opn) (ro_LeaseID opn) (ro_TTL opn)) ops m)
    = fold (view_op now) ops (node_view m)"
  using assms
  by (induction ops arbitrary: m)
     (auto simp: view_op_def grant_view revoke_view me_inv_lease_op)

lemma view_flushBatch:
  assumes "me_inv (mem_etcd s)" "iteration_order order" "\<forall>opn \<in> set batch. ro_Type opn = t" "t \<noteq> ''TXN''"
  shows "node_view (mem_etcd (flushBatch order now sched t batch s)) = fold (view_op now) batch (node_view (mem_etcd s))"
proof -
  consider "t = ''PUT''" | "t = ''DELETE''" | "t = ''LEASE_GRANT'' \<or> t = ''LEASE_REVOKE''"
    | "t \<notin> {''PUT'', ''DELETE'', ''LEASE_GRANT'', ''LEASE_REVOKE''}"
    by auto
  then show ?thesis
  proof cases
    case 1
    with assms fold_view_op(1) [OF assms(3)] show ?thesis
      by (simp add: flushBatch_def node_view_batchApplyPut)
  next
    case 2
    with assms fold_view_op(2) [OF assms(3)] show ?thesis
      by (simp add: flushBatch_def node_view_batchApplyDelete del: view_delete.simps)
  next
    case 3
    with assms view_lease_batch [OF assms(1,2), of batch now] show ?thesis
      by (auto simp: flushBatch_def)
  next
    case 4
    with assms fold_view_op(3) [OF assms(3)] show ?thesis
      by (simp add: flushBatch_def)
  qed
qed

lemma view_batch_loop:
  assumes "me_inv (mem_etcd s)" "iteration_order order" "\<forall>opn \<in> set batch. ro_Type opn = t"
    "\<forall>opn \<in> set (batch @ ops). ro_Type opn \<noteq> ''TXN''"
  shows "node_view (mem_etcd (batch_loop order now scheds t batch ops s))
    = fold (view_op now) (batch @ ops) (node_view (mem_etcd s))"
  using assms
proof (induction ops arbitrary: scheds t batch s)
  case Nil
  show ?case
  proof (cases "batch = []")
    case False
    with Nil.prems(3,4) have "t \<noteq> ''TXN''"
      by (cases batch) auto
    then show ?thesis
      using view_flushBatch [OF Nil.prems(1-3)] by simp
  qed (simp add: flushBatch_def)
next
  case (Cons opn ops)
  note inv = Cons.prems(1) and ord = Cons.prems(2)
  let ?sched = "case scheds of [] \<Rightarrow> [] | sc # _ \<Rightarrow> sc"
  show ?case
  proof (cases "t \<noteq> ro_Type opn \<and> batch \<noteq> []")
    case True
    then have "t \<noteq> ''TXN''"
      using Cons.prems(3,4) by (cases batch) auto
    then have "node_view (mem_etcd (flushBatch order now ?sched t batch s))
        = fold (view_op now) batch (node_view (mem_etcd s))"
      using Cons.prems(3) by (intro view_flushBatch [OF inv ord]) simp_all
    with True Cons.IH [OF me_inv_flushBatch [OF inv] ord, of "[opn]" "ro_Type opn"] Cons.prems(4) show ?thesis
      by simp
  next
    case False
    then have "\<forall>o' \<in> set (batch @ [opn]). ro_Type o' = ro_Type opn"
      using Cons.prems(3) by auto
    from Cons.IH [OF inv ord this] False Cons.prems(4) show ?thesis
      by (simp only: batch_loop.simps if_False append_assoc append_Cons append_Nil)
  qed
qed

section \<open>Waiters\<close>

lemma apply_txn_waiters [simp]:
  "pendingOps (apply_txn now opn s) = pendingOps s" "closedOps (apply_txn now opn s) = closedOps s"
  by (simp_all add: apply_txn_def split: prod.splits sum.splits)

lemma fold_apply_txn_waiters [simp]:
  "pendingOps (fold (apply_txn now) ops s) = pendingOps s" "closedOps (fold (apply_txn now) ops s) = closedOps s"
  by (induction ops arbitrary: s) simp_all

lemma flushBatch_waiters [simp]:
  "pendingOps (flushBatch order now sched t batch s) = pendingOps s"
  "closedOps (flushBatch order now sched t batch s) = closedOps s"
  by (simp_all add: flushBatch_def)

lemma batch_loop_waiters [simp]:
  "pendingOps (batch_loop order now scheds t batch ops s) = pendingOps s"
  "closedOps (batch_loop order now scheds t batch ops s) = closedOps s"
  by (induction order now scheds t batch ops s rule: batch_loop.induct) simp_all

lemma apply_effect_waiters [simp]:
  "pendingOps (apply_effect order now opn s) = pendingOps s" "closedOps (apply_effect order now opn s) = closedOps s"
  by (simp_all add: apply_effect_def)

lemma fold_notify_waiter:
  "set (pendingOps (fold notify_waiter ops s)) = set (pendingOps s) - {ro_SeqNum opn |opn. opn \<in> set ops \<and> ro_SeqNum opn \<noteq> []}"
  "set (closedOps (fold notify_waiter ops s))
     = set (closedOps s) \<union> (set (pendingOps s) \<inter> {ro_SeqNum opn |opn. opn \<in> set ops \<and> ro_SeqNum opn \<noteq> []})"
  by (induction ops arbitrary: s) (auto simp: notify_waiter_def)

text \<open>Every branch of \<open>applyBatch\<close> ends by notifying the waiters of the whole batch.\<close>

lemma applyBatch_notifies:
  obtains s' where "applyBatch order now scheds ops s = fold notify_waiter ops s'"
    "pendingOps s' = pendingOps s" "closedOps s' = closedOps s"
proof (cases ops rule: remdups_adj.cases)
  case 1
  then show thesis
    by (intro that [of s]) (simp_all add: applyBatch_def)
next
  case (2 opn)
  then show thesis
    by (intro that [of "apply_effect order now opn s"]) (simp_all add: applyBatch_def applyOperation_def)
next
  case (3 x y zs)
  then show thesis
    by (intro that [of "batch_loop order now scheds [] [] ops s"])
       (simp_all add: applyBatch_def del: batch_loop.simps fold_simps)
qed

section \<open>Properties\<close>

definition put_request :: "string \<Rightarrow> string \<Rightarrow> int \<Rightarrow> string \<Rightarrow> RaftOperation" where
  "put_request k v i sq = \<lparr>ro_Type = ''PUT'', ro_Key = k, ro_Value = v, ro_LeaseID = i, ro_RangeEnd = [], ro_SeqNum = sq,
     ro_TTL = 0, ro_Compares = [], ro_ThenOps = [], ro_ElseOps = []\<rparr>"

definition sample_node :: Memory where
  "sample_node = \<lparr>mem_etcd = sample_engine, proposeC = [], pendingOps = [''seq-1''], closedOps = [],
     pendingTxnResults = [], seqNum = 1\<rparr>"

lemma sample_node_inv: "me_inv (mem_etcd sample_node)"
  by (simp add: sample_node_def sample_engine_inv)



text \<open>
  The mod revisions a batch of puts assigns depend on the goroutine schedule: of two keys in
  different shards, either may get the first revision.  Two replicas that apply the same committed batch
  can therefore store different mod and create revisions for the same key.
\<close>

theorem batchApplyPut_revisions_depend_on_schedule:
  "map_option kv_ModRevision (sm_Get (kvData (batchApplyPut [getShard ''a'', getShard ''b'']
       [put_request ''a'' ''1'' 0 [], put_request ''b'' ''2'' 0 []] NewMemoryEtcd)) ''a'') = Some 1
   \<and> map_option kv_ModRevision (sm_Get (kvData (batchApplyPut [getShard ''b'', getShard ''a'']
       [put_request ''a'' ''1'' 0 [], put_request ''b'' ''2'' 0 []] NewMemoryEtcd)) ''a'') = Some 2"
proof -
  have shards: "getShard ''a'' \<noteq> getShard ''b''"
    by (simp add: getShard_def fnv32a_def shardMask_def)
  have empty: "sm_Get NewShardedMap = Map.empty"
    by (rule ext) (rule sm.get_empty)
  have get: "sm_Get (kvData (put_op o1 (put_op o2 NewMemoryEtcd)))
      = [ro_Key o2 \<mapsto> next_kv (ro_Key o2) (ro_Value o2) (ro_LeaseID o2) 1 None,
         ro_Key o1 \<mapsto> next_kv (ro_Key o1) (ro_Value o1) (ro_LeaseID o1) 2 None]"
    if "ro_Key o1 \<noteq> ro_Key o2" for o1 o2
    using that me_invD(1) [OF me_inv_New(1)] me_invD(1) [OF me_inv_store_kv [OF me_inv_New(1)]]
    by (simp add: put_op_def putDirect_store) (simp add: NewMemoryEtcd_def empty)
  show ?thesis
    using shards
    by (simp add: batchApplyPut_def batchApplyPutNoLock_eq Let_def put_request_def get next_kv_def)
qed

text \<open>
  Applying any committed batch, transactions and lease operations included, under any goroutine
  schedules keeps the engine invariant: the sharded map, the revision discipline of the entries, the
  lease table and the subscriptions stay well formed.
\<close>

theorem applyBatch_preserves_invariant:
  assumes "me_inv (mem_etcd s)"
  shows "me_inv (mem_etcd (applyBatch order now scheds ops s))"
  using assms by (rule me_inv_applyBatch)

theorem applyBatch_preserves_invariant_witness:
  "me_inv (mem_etcd sample_node)
   \<and> me_inv (mem_etcd (applyBatch rev 5 [] [put_request ''x'' ''1'' 9 [], put_request ''y'' ''2'' 0 []] sample_node))"
  using applyBatch_preserves_invariant [OF sample_node_inv] sample_node_inv by blast

text \<open>
  Applying a batch releases exactly the clients that wait for one of its operations: their wait
  channels are closed and forgotten, and every other waiter still waits.
\<close>

theorem applyBatch_releases_waiters:
  "set (pendingOps (applyBatch order now scheds ops s))
     = set (pendingOps s) - {ro_SeqNum opn |opn. opn \<in> set ops \<and> ro_SeqNum opn \<noteq> []}
   \<and> set (closedOps (applyBatch order now scheds ops s))
     = set (closedOps s) \<union> (set (pendingOps s) \<inter> {ro_SeqNum opn |opn. opn \<in> set ops \<and> ro_SeqNum opn \<noteq> []})"
  by (rule applyBatch_notifies [of order now scheds ops s]) (simp add: fold_notify_waiter)

text \<open>
  The apply path does not check leases: a committed put that names a lease which does not exist is
  stored with that lease, so the key is bound to a lease that can neither expire nor be revoked.
\<close>

theorem putDirect_accepts_unknown_lease:
  assumes "me_inv m" "leaseID \<noteq> 0" "gm_get (leases m) leaseID = None"
  shows "map_option kv_Lease (sm_Get (kvData (fst (putDirect key val leaseID m))) key) = Some leaseID
      \<and> gm_get (leases (fst (putDirect key val leaseID m))) leaseID = None
      \<and> \<not> me_lease_inv (fst (putDirect key val leaseID m))"
proof -
  have get: "sm_Get (kvData (fst (putDirect key val leaseID m))) key
      = Some (next_kv key val leaseID (revision m + 1) (sm_Get (kvData m) key))"
    using assms by (simp add: putDirect_store me_invD)
  moreover have unreg: "gm_get (leases (fst (putDirect key val leaseID m))) leaseID = None"
    using assms by (simp add: putDirect_store attach_key_def)
  moreover have lease: "kv_Lease (next_kv key val leaseID (revision m + 1) (sm_Get (kvData m) key)) = leaseID"
    by (simp add: next_kv_def)
  ultimately have "\<not> me_lease_inv (fst (putDirect key val leaseID m))"
    unfolding lease_inv_def using assms(2) by (metis option.distinct(1))
  with get unreg lease show ?thesis
    by simp
qed

theorem putDirect_accepts_unknown_lease_witness:
  "me_inv sample_engine \<and> (9::int) \<noteq> 0 \<and> gm_get (leases sample_engine) 9 = None
   \<and> map_option kv_Lease (sm_Get (kvData (fst (putDirect ''a'' ''5'' 9 sample_engine))) ''a'') = Some 9"
  using putDirect_accepts_unknown_lease [OF sample_engine_inv, of 9 "''a''" "''5''"] sample_engine_inv by simp

text \<open>
  Granting a lease identifier that already exists through the log forgets the keys registered with
  it, so that revoking the lease afterwards deletes none of them.
\<close>

theorem regrant_forgets_keys:
  assumes "iteration_order order"
  shows "sm_Get (kvData (applyLeaseOperationDirect order now ''LEASE_REVOKE'' leaseID ttl'
            (applyLeaseOperationDirect order now ''LEASE_GRANT'' leaseID ttl m))) = sm_Get (kvData m)
       \<and> revision (applyLeaseOperationDirect order now ''LEASE_REVOKE'' leaseID ttl'
            (applyLeaseOperationDirect order now ''LEASE_GRANT'' leaseID ttl m)) = revision m
       \<and> gm_get (leases (applyLeaseOperationDirect order now ''LEASE_REVOKE'' leaseID ttl'
            (applyLeaseOperationDirect order now ''LEASE_GRANT'' leaseID ttl m))) leaseID = None"
proof -
  have "order [] = []"
    using iteration_orderD(1) [OF assms, of "[]"] by simp
  then show ?thesis
    by (simp add: applyLeaseOperationDirect_def gomap_simps)
qed

theorem regrant_forgets_keys_witness:
  "iteration_order (rev :: string list \<Rightarrow> string list) \<and>
   sm_Get (kvData (applyLeaseOperationDirect rev 5 ''LEASE_REVOKE'' 7 0
      (applyLeaseOperationDirect rev 5 ''LEASE_GRANT'' 7 60 sample_engine))) ''a'' \<noteq> None"
  using regrant_forgets_keys [OF iteration_order_id(2), of 5 7 0 60 sample_engine] by (simp add: sample_engine_Get)

end
