(* ===== verification/Serialization.thy ===== *)
theory Serialization
  imports Memory_Replication
begin

text \<open>
  The wire format of the memory engine: \<open>internal/memory/protobuf_converter.go\<close> (Raft operations),
  \<open>snapshot_converter.go\<close> (snapshots) and \<open>internal/common/lease_converter.go\<close> (leases), with the messages
  of \<open>internal/proto/raft.proto\<close> as records.

  The protobuf runtime and the JSON and gob fallbacks are parameters: a record of an encoder and a decoder
  for each message type.  What the code relies on is \<open>codec_ok\<close>: decoding what the encoder produced gives
  the message back (for a snapshot, up to the order of its maps), and only the empty message has an empty
  encoding.  The encoder may fail; protobuf rejects a \<open>string\<close> field that is not UTF-8.

  Facts: what survives a round trip and what does not, and that snapshot and recovery restore the engine.
\<close>

section \<open>Messages\<close>

datatype pb_target_union =
  PbVersion int | PbCreateRevision int | PbModRevision int | PbValue string | PbLease int

record pb_compare =
  pbc_Key :: string
  pbc_Result :: int
  pbc_Target :: int
  pbc_TargetUnion :: "pb_target_union option"

record pb_op =
  pbo_Type :: int
  pbo_Key :: string
  pbo_Value :: string
  pbo_RangeEnd :: string
  pbo_Lease :: int

record pb_raft_operation =
  pb_Type :: string
  pb_Key :: string
  pb_Value :: string
  pb_LeaseId :: int
  pb_RangeEnd :: string
  pb_SeqNum :: string
  pb_Ttl :: int
  pb_Compares :: "pb_compare list"
  pb_ThenOps :: "pb_op list"
  pb_ElseOps :: "pb_op list"

record pb_key_value =
  pbk_Key :: string
  pbk_Value :: string
  pbk_CreateRevision :: int
  pbk_ModRevision :: int
  pbk_Version :: int
  pbk_Lease :: int

record pb_lease =
  pbl_Id :: int
  pbl_Ttl :: int
  pbl_GrantTimeUnixNano :: int
  pbl_Keys :: "string list"

record pb_snapshot =
  pbs_Revision :: int
  pbs_KvData :: "(string, pb_key_value) gomap"
  pbs_Leases :: "(int, pb_lease) gomap"

record SnapshotData =
  sd_Revision :: int
  sd_KVData :: "(string, key_value) gomap"
  sd_Leases :: "(int, lease) gomap"

text \<open>A codec: the encoder may fail, the decoder may reject its input.\<close>

record ('a, 'j) codec =
  pb_enabled :: bool
  pb_Marshal :: "'a \<Rightarrow> string option"
  pb_Unmarshal :: "string \<Rightarrow> 'a option"
  alt_Marshal :: "'j \<Rightarrow> string option"
  alt_Unmarshal :: "string \<Rightarrow> 'j option"

datatype codec_error = ErrMarshal | ErrUnmarshal | ErrAltMarshal | ErrAltUnmarshal | ErrLeaseNil | ErrEmptyLease

section \<open>Enumerations\<close>

text \<open>The casts between the Go enumerations (\<open>int\<close>) and the protobuf ones (\<open>int32\<close>).\<close>

definition int32 :: "int \<Rightarrow> int" where
  "int32 n = (n + 2 ^ 31) mod 2 ^ 32 - 2 ^ 31"

fun of_compare_target :: "compare_target \<Rightarrow> int" where
  "of_compare_target CompareVersion = 0"
| "of_compare_target CompareCreate = 1"
| "of_compare_target CompareMod = 2"
| "of_compare_target CompareValue = 3"
| "of_compare_target CompareLease = 4"
| "of_compare_target (CompareTargetOther n) = n"

definition to_compare_target :: "int \<Rightarrow> compare_target" where
  "to_compare_target n = (if n = 0 then CompareVersion else if n = 1 then CompareCreate else if n = 2 then CompareMod
     else if n = 3 then CompareValue else if n = 4 then CompareLease else CompareTargetOther n)"

fun of_compare_result :: "compare_result \<Rightarrow> int" where
  "of_compare_result CompareEqual = 0"
| "of_compare_result CompareGreater = 1"
| "of_compare_result CompareLess = 2"
| "of_compare_result CompareNotEqual = 3"
| "of_compare_result (CompareResultOther n) = n"

definition to_compare_result :: "int \<Rightarrow> compare_result" where
  "to_compare_result n = (if n = 0 then CompareEqual else if n = 1 then CompareGreater else if n = 2 then CompareLess
     else if n = 3 then CompareNotEqual else CompareResultOther n)"

fun of_op_type :: "op_type \<Rightarrow> int" where
  "of_op_type OpRange = 0"
| "of_op_type OpPut = 1"
| "of_op_type OpDelete = 2"
| "of_op_type OpTxn = 3"
| "of_op_type (OpTypeOther n) = n"

definition to_op_type :: "int \<Rightarrow> op_type" where
  "to_op_type n = (if n = 0 then OpRange else if n = 1 then OpPut else if n = 2 then OpDelete else if n = 3 then OpTxn
     else OpTypeOther n)"

section \<open>Raft operations\<close>

definition compareToProto :: "compare \<Rightarrow> pb_compare" where
  "compareToProto cmp =
     \<lparr>pbc_Key = cmp_Key cmp,
      pbc_Result = int32 (of_compare_result (cmp_Result cmp)),
      pbc_Target = int32 (of_compare_target (cmp_Target cmp)),
      pbc_TargetUnion =
        (case cmp_Target cmp of
           CompareVersion \<Rightarrow> Some (PbVersion (cu_Version (cmp_TargetUnion cmp)))
         | CompareCreate \<Rightarrow> Some (PbCreateRevision (cu_CreateRevision (cmp_TargetUnion cmp)))
         | CompareMod \<Rightarrow> Some (PbModRevision (cu_ModRevision (cmp_TargetUnion cmp)))
         | CompareValue \<Rightarrow> Some (PbValue (cu_Value (cmp_TargetUnion cmp)))
         | CompareLease \<Rightarrow> Some (PbLease (cu_Lease (cmp_TargetUnion cmp)))
         | CompareTargetOther _ \<Rightarrow> None)\<rparr>"

definition zero_union :: compare_union where
  "zero_union = \<lparr>cu_Version = 0, cu_CreateRevision = 0, cu_ModRevision = 0, cu_Value = [], cu_Lease = 0\<rparr>"

definition protoToCompare :: "pb_compare \<Rightarrow> compare" where
  "protoToCompare pbCmp =
     \<lparr>cmp_Target = to_compare_target (pbc_Target pbCmp),
      cmp_Result = to_compare_result (pbc_Result pbCmp),
      cmp_Key = pbc_Key pbCmp,
      cmp_TargetUnion =
        (case pbc_TargetUnion pbCmp of
           Some (PbVersion v) \<Rightarrow> zero_union\<lparr>cu_Version := v\<rparr>
         | Some (PbCreateRevision v) \<Rightarrow> zero_union\<lparr>cu_CreateRevision := v\<rparr>
         | Some (PbModRevision v) \<Rightarrow> zero_union\<lparr>cu_ModRevision := v\<rparr>
         | Some (PbValue v) \<Rightarrow> zero_union\<lparr>cu_Value := v\<rparr>
         | Some (PbLease v) \<Rightarrow> zero_union\<lparr>cu_Lease := v\<rparr>
         | None \<Rightarrow> zero_union)\<rparr>"

definition opToProto :: "op \<Rightarrow> pb_op" where
  "opToProto opn =
     \<lparr>pbo_Type = int32 (of_op_type (op_Type opn)), pbo_Key = op_Key opn, pbo_Value = op_Value opn,
      pbo_RangeEnd = op_RangeEnd opn, pbo_Lease = op_LeaseID opn\<rparr>"

definition protoToOp :: "pb_op \<Rightarrow> op" where
  "protoToOp pbOp =
     \<lparr>op_Type = to_op_type (pbo_Type pbOp), op_Key = pbo_Key pbOp, op_RangeEnd = pbo_RangeEnd pbOp,
      op_Value = pbo_Value pbOp, op_Limit = 0, op_LeaseID = pbo_Lease pbOp\<rparr>"

definition raftOperationToProto :: "RaftOperation \<Rightarrow> pb_raft_operation" where
  "raftOperationToProto opn =
     \<lparr>pb_Type = ro_Type opn, pb_Key = ro_Key opn, pb_Value = ro_Value opn, pb_LeaseId = ro_LeaseID opn,
      pb_RangeEnd = ro_RangeEnd opn, pb_SeqNum = ro_SeqNum opn, pb_Ttl = ro_TTL opn,
      pb_Compares = map compareToProto (ro_Compares opn),
      pb_ThenOps = map opToProto (ro_ThenOps opn),
      pb_ElseOps = map opToProto (ro_ElseOps opn)\<rparr>"

definition protoToRaftOperation :: "pb_raft_operation \<Rightarrow> RaftOperation" where
  "protoToRaftOperation pbOp =
     \<lparr>ro_Type = pb_Type pbOp, ro_Key = pb_Key pbOp, ro_Value = pb_Value pbOp, ro_LeaseID = pb_LeaseId pbOp,
      ro_RangeEnd = pb_RangeEnd pbOp, ro_SeqNum = pb_SeqNum pbOp, ro_TTL = pb_Ttl pbOp,
      ro_Compares = map protoToCompare (pb_Compares pbOp),
      ro_ThenOps = map protoToOp (pb_ThenOps pbOp),
      ro_ElseOps = map protoToOp (pb_ElseOps pbOp)\<rparr>"

type_synonym op_codec = "(pb_raft_operation, RaftOperation) codec"

definition serializeOperation :: "op_codec \<Rightarrow> RaftOperation \<Rightarrow> codec_error + string" where
  "serializeOperation c opn =
     (if pb_enabled c then
        (case pb_Marshal c (raftOperationToProto opn) of
           None \<Rightarrow> Inl ErrMarshal
         | Some data \<Rightarrow> Inr (''PB:'' @ data))
      else (case alt_Marshal c opn of None \<Rightarrow> Inl ErrAltMarshal | Some data \<Rightarrow> Inr data))"

definition deserializeOperation :: "op_codec \<Rightarrow> string \<Rightarrow> codec_error + RaftOperation" where
  "deserializeOperation c data =
     (if 3 < length data \<and> data ! 0 = CHR ''P'' \<and> data ! 1 = CHR ''B'' \<and> data ! 2 = CHR '':'' then
        (case pb_Unmarshal c (drop 3 data) of
           None \<Rightarrow> Inl ErrUnmarshal
         | Some pbOp \<Rightarrow> Inr (protoToRaftOperation pbOp))
      else (case alt_Unmarshal c data of None \<Rightarrow> Inl ErrAltUnmarshal | Some opn \<Rightarrow> Inr opn))"

section \<open>Leases\<close>

definition LeaseToProto :: "(string list \<Rightarrow> string list) \<Rightarrow> lease option \<Rightarrow> pb_lease option" where
  "LeaseToProto order l =
     (case l of
        None \<Rightarrow> None
      | Some l \<Rightarrow> Some \<lparr>pbl_Id = ls_ID l, pbl_Ttl = ls_TTL l, pbl_GrantTimeUnixNano = ls_GrantTime l,
                        pbl_Keys = order (ls_Keys l)\<rparr>)"

definition ProtoToLease :: "pb_lease option \<Rightarrow> lease option" where
  "ProtoToLease p =
     (case p of
        None \<Rightarrow> None
      | Some p \<Rightarrow> Some \<lparr>ls_ID = pbl_Id p, ls_TTL = pbl_Ttl p, ls_GrantTime = pbl_GrantTimeUnixNano p,
                        ls_Keys = fold List.insert (pbl_Keys p) []\<rparr>)"

type_synonym lease_codec = "(pb_lease, lease) codec"

definition SerializeLease ::
    "(string list \<Rightarrow> string list) \<Rightarrow> lease_codec \<Rightarrow> lease option \<Rightarrow> codec_error + string" where
  "SerializeLease order c l =
     (case l of
        None \<Rightarrow> Inl ErrLeaseNil
      | Some l' \<Rightarrow>
          if pb_enabled c then
            (case pb_Marshal c (the (LeaseToProto order l)) of
               None \<Rightarrow> Inl ErrMarshal
             | Some data \<Rightarrow> Inr (''LEASE-PB:'' @ data))
          else (case alt_Marshal c l' of None \<Rightarrow> Inl ErrAltMarshal | Some data \<Rightarrow> Inr data))"

definition has_prefix :: "string \<Rightarrow> string \<Rightarrow> bool" where
  "has_prefix p data \<longleftrightarrow> length p \<le> length data \<and> take (length p) data = p"

definition DeserializeLease :: "lease_codec \<Rightarrow> string \<Rightarrow> codec_error + lease" where
  "DeserializeLease c data =
     (if length data = 0 then Inl ErrEmptyLease
      else if has_prefix ''LEASE-PB:'' data then
        (case pb_Unmarshal c (drop 9 data) of
           None \<Rightarrow> Inl ErrUnmarshal
         | Some pbLease \<Rightarrow> Inr (the (ProtoToLease (Some pbLease))))
      else (case alt_Unmarshal c data of None \<Rightarrow> Inl ErrAltUnmarshal | Some l \<Rightarrow> Inr l))"

section \<open>Snapshots\<close>

definition keyValueToProto :: "key_value option \<Rightarrow> pb_key_value option" where
  "keyValueToProto kv =
     map_option (\<lambda>kv. \<lparr>pbk_Key = kv_Key kv, pbk_Value = kv_Value kv, pbk_CreateRevision = kv_CreateRevision kv,
        pbk_ModRevision = kv_ModRevision kv, pbk_Version = kv_Version kv, pbk_Lease = kv_Lease kv\<rparr>) kv"

definition protoToKeyValue :: "pb_key_value option \<Rightarrow> key_value option" where
  "protoToKeyValue pbKv =
     map_option (\<lambda>p. \<lparr>kv_Key = pbk_Key p, kv_Value = pbk_Value p, kv_CreateRevision = pbk_CreateRevision p,
        kv_ModRevision = pbk_ModRevision p, kv_Version = pbk_Version p, kv_Lease = pbk_Lease p\<rparr>) pbKv"

type_synonym snapshot_codec = "(pb_snapshot, SnapshotData) codec"

definition serializeSnapshot ::
    "(string list \<Rightarrow> string list) \<Rightarrow> snapshot_codec \<Rightarrow> int \<Rightarrow> (string, key_value) gomap \<Rightarrow> (int, lease) gomap
       \<Rightarrow> codec_error + string" where
  "serializeSnapshot order c r kvs ls =
     (if pb_enabled c then
        let pbSnapshot =
              \<lparr>pbs_Revision = r,
               pbs_KvData = fold (\<lambda>(k, v). gm_set k (the (keyValueToProto (Some v)))) kvs [],
               pbs_Leases = fold (\<lambda>(i, l). gm_set i (the (LeaseToProto order (Some l)))) ls []\<rparr>
        in (case pb_Marshal c pbSnapshot of
              None \<Rightarrow> Inl ErrMarshal
            | Some data \<Rightarrow> Inr (''SNAP-PB:'' @ data))
      else (case alt_Marshal c \<lparr>sd_Revision = r, sd_KVData = kvs, sd_Leases = ls\<rparr> of
              None \<Rightarrow> Inl ErrAltMarshal
            | Some data \<Rightarrow> Inr data))"

definition deserializeSnapshot :: "snapshot_codec \<Rightarrow> string \<Rightarrow> codec_error + SnapshotData" where
  "deserializeSnapshot c data =
     (if has_prefix ''SNAP-PB:'' data then
        (case pb_Unmarshal c (drop 8 data) of
           None \<Rightarrow> Inl ErrUnmarshal
         | Some p \<Rightarrow>
             Inr \<lparr>sd_Revision = pbs_Revision p,
                  sd_KVData = fold (\<lambda>(k, v). gm_set k (the (protoToKeyValue (Some v)))) (pbs_KvData p) [],
                  sd_Leases = fold (\<lambda>(i, l). gm_set i (the (ProtoToLease (Some l)))) (pbs_Leases p) []\<rparr>)
      else (case alt_Unmarshal c data of None \<Rightarrow> Inl ErrAltUnmarshal | Some s \<Rightarrow> Inr s))"

section \<open>Round trips of the converters\<close>

text \<open>Values a Go caller builds from the named constants, or from any other 32-bit value.\<close>

definition int32_range :: "int \<Rightarrow> bool" where
  "int32_range n \<longleftrightarrow> - (2 ^ 31) \<le> n \<and> n < 2 ^ 31"

definition compare_wire_ok :: "compare \<Rightarrow> bool" where
  "compare_wire_ok cmp \<longleftrightarrow>
     (case cmp_Target cmp of CompareTargetOther n \<Rightarrow> int32_range n \<and> \<not> (0 \<le> n \<and> n \<le> 4) | _ \<Rightarrow> True) \<and>
     (case cmp_Result cmp of CompareResultOther n \<Rightarrow> int32_range n \<and> \<not> (0 \<le> n \<and> n \<le> 3) | _ \<Rightarrow> True)"

definition op_wire_ok :: "op \<Rightarrow> bool" where
  "op_wire_ok opn \<longleftrightarrow>
     (case op_Type opn of OpTypeOther n \<Rightarrow> int32_range n \<and> \<not> (0 \<le> n \<and> n \<le> 3) | _ \<Rightarrow> True)"

definition wire_ok :: "RaftOperation \<Rightarrow> bool" where
  "wire_ok opn \<longleftrightarrow> ro_Type opn \<noteq> [] \<and> list_all compare_wire_ok (ro_Compares opn)
     \<and> list_all op_wire_ok (ro_ThenOps opn) \<and> list_all op_wire_ok (ro_ElseOps opn)"

lemma int32_id: "int32_range n \<Longrightarrow> int32 n = n"
  by (simp add: int32_def int32_range_def)

lemma int32_small [simp]: "int32 0 = 0" "int32 1 = 1" "int32 2 = 2" "int32 3 = 3" "int32 4 = 4"
  by (simp_all add: int32_def)

text \<open>A comparison keeps its meaning, although only the field it targets is sent.\<close>

lemma evaluateCompare_roundtrip:
  "compare_wire_ok cmp \<Longrightarrow> evaluateCompare (protoToCompare (compareToProto cmp)) m = evaluateCompare cmp m"
  by (cases "cmp_Target cmp"; cases "cmp_Result cmp")
     (auto simp: compare_wire_ok_def evaluateCompare_def protoToCompare_def compareToProto_def Let_def
        to_compare_target_def to_compare_result_def zero_union_def int32_id compareInt_def compareBytes_def)

text \<open>An operation loses its limit.\<close>

lemma protoToOp_opToProto: "op_wire_ok opn \<Longrightarrow> protoToOp (opToProto opn) = opn\<lparr>op_Limit := 0\<rparr>"
  by (cases "op_Type opn"; cases opn) (auto simp: op_wire_ok_def protoToOp_def opToProto_def to_op_type_def int32_id)

lemma txn_op_limit: "op_Type opn \<noteq> OpRange \<or> op_Limit opn = 0 \<Longrightarrow> txn_op now (opn\<lparr>op_Limit := 0\<rparr>) m = txn_op now opn m"
  by (cases opn) (auto simp: txn_op_def split: op_type.splits)

definition no_limits :: "op list \<Rightarrow> bool" where
  "no_limits ops \<longleftrightarrow> list_all (\<lambda>opn. op_Type opn \<noteq> OpRange \<or> op_Limit opn = 0) ops"

lemma txn_ops_roundtrip:
  assumes "list_all op_wire_ok ops" "no_limits ops"
  shows "txn_ops now (map (protoToOp \<circ> opToProto) ops) m = txn_ops now ops m"
  using assms
proof (induction ops arbitrary: m)
  case (Cons opn ops)
  then have "txn_op now (protoToOp (opToProto opn)) m = txn_op now opn m"
    by (simp add: protoToOp_opToProto txn_op_limit no_limits_def)
  with Cons show ?case
    by (simp add: no_limits_def cong: sum.case_cong prod.case_cong)
qed simp

lemma txnUnlocked_roundtrip:
  assumes "list_all compare_wire_ok cmps" "list_all op_wire_ok thenOps" "list_all op_wire_ok elseOps"
    "no_limits thenOps" "no_limits elseOps"
  shows "txnUnlocked now (map (protoToCompare \<circ> compareToProto) cmps) (map (protoToOp \<circ> opToProto) thenOps)
      (map (protoToOp \<circ> opToProto) elseOps) m = txnUnlocked now cmps thenOps elseOps m"
proof -
  have "list_all (\<lambda>cmp. evaluateCompare cmp m) (map (protoToCompare \<circ> compareToProto) cmps)
      = list_all (\<lambda>cmp. evaluateCompare cmp m) cmps"
    using assms(1) by (auto simp: list_all_iff evaluateCompare_roundtrip)
  with assms show ?thesis
    by (simp add: txnUnlocked_def txn_ops_roundtrip Let_def)
qed

lemma protoToRaftOperation_fields [simp]:
  "ro_Type (protoToRaftOperation (raftOperationToProto opn)) = ro_Type opn"
  "ro_Key (protoToRaftOperation (raftOperationToProto opn)) = ro_Key opn"
  "ro_Value (protoToRaftOperation (raftOperationToProto opn)) = ro_Value opn"
  "ro_LeaseID (protoToRaftOperation (raftOperationToProto opn)) = ro_LeaseID opn"
  "ro_RangeEnd (protoToRaftOperation (raftOperationToProto opn)) = ro_RangeEnd opn"
  "ro_SeqNum (protoToRaftOperation (raftOperationToProto opn)) = ro_SeqNum opn"
  "ro_TTL (protoToRaftOperation (raftOperationToProto opn)) = ro_TTL opn"
  "ro_Compares (protoToRaftOperation (raftOperationToProto opn)) = map (protoToCompare \<circ> compareToProto) (ro_Compares opn)"
  "ro_ThenOps (protoToRaftOperation (raftOperationToProto opn)) = map (protoToOp \<circ> opToProto) (ro_ThenOps opn)"
  "ro_ElseOps (protoToRaftOperation (raftOperationToProto opn)) = map (protoToOp \<circ> opToProto) (ro_ElseOps opn)"
  by (simp_all add: protoToRaftOperation_def raftOperationToProto_def)

lemma applyOperation_roundtrip:
  assumes "wire_ok opn" "no_limits (ro_ThenOps opn)" "no_limits (ro_ElseOps opn)"
  shows "applyOperation order now (protoToRaftOperation (raftOperationToProto opn)) s = applyOperation order now opn s"
  using assms
  by (simp add: applyOperation_def apply_effect_def apply_txn_def notify_waiter_def applyTxnWithShardLocks_def
      txnUnlocked_roundtrip wire_ok_def)

section \<open>The codecs\<close>

definition zero_pb_operation :: pb_raft_operation where
  "zero_pb_operation = \<lparr>pb_Type = [], pb_Key = [], pb_Value = [], pb_LeaseId = 0, pb_RangeEnd = [], pb_SeqNum = [],
     pb_Ttl = 0, pb_Compares = [], pb_ThenOps = [], pb_ElseOps = []\<rparr>"

definition op_codec_ok :: "op_codec \<Rightarrow> bool" where
  "op_codec_ok c \<longleftrightarrow> (\<forall>x data. pb_Marshal c x = Some data \<longrightarrow>
     pb_Unmarshal c data = Some x \<and> (x \<noteq> zero_pb_operation \<longrightarrow> data \<noteq> []))"

definition lease_codec_ok :: "lease_codec \<Rightarrow> bool" where
  "lease_codec_ok c \<longleftrightarrow> (\<forall>x data. pb_Marshal c x = Some data \<longrightarrow> pb_Unmarshal c data = Some x)"

text \<open>Protobuf maps have no order, so a decoded snapshot is the same up to the order of its entries.\<close>

definition snapshot_codec_ok :: "snapshot_codec \<Rightarrow> bool" where
  "snapshot_codec_ok c \<longleftrightarrow> (\<forall>x data. pb_Marshal c x = Some data \<longrightarrow>
     (\<exists>y. pb_Unmarshal c data = Some y \<and> pbs_Revision y = pbs_Revision x
        \<and> mset (pbs_KvData y) = mset (pbs_KvData x) \<and> mset (pbs_Leases y) = mset (pbs_Leases x)))"

lemma deserialize_serialize:
  assumes "op_codec_ok c" "pb_enabled c" "wire_ok opn" "serializeOperation c opn = Inr data"
  shows "deserializeOperation c data = Inr (protoToRaftOperation (raftOperationToProto opn))"
proof -
  obtain body where body: "pb_Marshal c (raftOperationToProto opn) = Some body" "data = ''PB:'' @ body"
    using assms(2,4) by (auto simp: serializeOperation_def split: option.splits)
  have "raftOperationToProto opn \<noteq> zero_pb_operation"
    using assms(3) by (auto simp: wire_ok_def raftOperationToProto_def zero_pb_operation_def)
  with assms(1) body(1) have "pb_Unmarshal c body = Some (raftOperationToProto opn)" "body \<noteq> []"
    by (auto simp: op_codec_ok_def)
  then show ?thesis
    by (simp add: deserializeOperation_def body(2))
qed

lemma gm_wf_map: "gm_wf (map (\<lambda>(k, v). (k, f v)) xs) = gm_wf xs"
  by (simp add: comp_def case_prod_unfold)

lemma fold_gm_set_map:
  assumes "gm_wf xs"
  shows "fold (\<lambda>(k, v). gm_set k (f v)) xs [] = map (\<lambda>(k, v). (k, f v)) xs"
proof -
  have "fold (\<lambda>(k, v). gm_set k (f v)) xs acc = fold (\<lambda>(k, v). gm_set k v) (map (\<lambda>(k, v). (k, f v)) xs) acc" for acc
    by (induction xs arbitrary: acc) auto
  moreover have "fold (\<lambda>(k, v). gm_set k v) (map (\<lambda>(k, v). (k, f v)) xs) [] = map (\<lambda>(k, v). (k, f v)) xs"
    using assms fold_gm_set_fresh [of "[]" "map (\<lambda>(k, v). (k, f v)) xs"] by (simp only: append_Nil gm_wf_map)
  ultimately show ?thesis
    by (rule trans)
qed

lemma gm_get_map_values: "gm_get (map (\<lambda>(k, v). (k, f v)) xs) k = map_option f (gm_get xs k)"
  by (induction xs) auto

lemma gm_wf_mset: "mset xs = mset ys \<Longrightarrow> gm_wf xs = gm_wf ys"
  by (metis mset_eq_imp_distinct_iff mset_map)

lemma gm_get_mset:
  assumes "mset xs = mset ys" "gm_wf ys"
  shows "gm_get xs = gm_get ys"
proof
  fix k
  have "gm_wf xs" "set xs = set ys"
    using assms gm_wf_mset mset_eq_setD by blast+
  then have "gm_get xs k = Some v \<longleftrightarrow> gm_get ys k = Some v" for v
    using assms(2) by (simp flip: gm_set_entries)
  then show "gm_get xs k = gm_get ys k"
    by (metis option.exhaust)
qed

lemma protoToKeyValue_keyValueToProto [simp]: "protoToKeyValue (keyValueToProto kv) = kv"
  by (cases kv) (simp_all add: protoToKeyValue_def keyValueToProto_def)

definition same_lease :: "lease \<Rightarrow> lease \<Rightarrow> bool" where
  "same_lease l l' \<longleftrightarrow> ls_ID l' = ls_ID l \<and> ls_TTL l' = ls_TTL l \<and> ls_GrantTime l' = ls_GrantTime l
     \<and> set (ls_Keys l') = set (ls_Keys l) \<and> distinct (ls_Keys l')"

lemma set_fold_insert: "set (fold List.insert xs ys) = set xs \<union> set ys"
  by (induction xs arbitrary: ys) auto

lemma distinct_fold_insert: "distinct ys \<Longrightarrow> distinct (fold List.insert xs ys)"
  by (induction xs arbitrary: ys) auto

lemma ProtoToLease_LeaseToProto:
  assumes "iteration_order order"
  obtains l' where "ProtoToLease (LeaseToProto order (Some l)) = Some l'" "same_lease l l'"
  using assms
  by (simp add: ProtoToLease_def LeaseToProto_def same_lease_def set_fold_insert distinct_fold_insert)

lemma has_prefix_append [simp]: "has_prefix p (p @ data)"
  by (simp add: has_prefix_def)

section \<open>Properties\<close>

text \<open>
  An operation that is serialized, proposed and decoded on a replica has, when applied, exactly the
  effect of the original, provided no range read of its transaction carries a limit; every replica that
  decodes the same bytes applies the same operation.
\<close>

theorem decoded_operation_applies_alike:
  assumes "op_codec_ok c" "pb_enabled c" "wire_ok opn" "no_limits (ro_ThenOps opn)" "no_limits (ro_ElseOps opn)"
    "serializeOperation c opn = Inr data"
  shows "\<exists>opn'. deserializeOperation c data = Inr opn' \<and> ro_SeqNum opn' = ro_SeqNum opn
     \<and> (\<forall>order now s. applyOperation order now opn' s = applyOperation order now opn s)"
  using deserialize_serialize [OF assms(1-3,6)] applyOperation_roundtrip [OF assms(3-5)] by simp

definition sample_op_codec :: op_codec where
  "sample_op_codec = \<lparr>pb_enabled = True,
     pb_Marshal = (\<lambda>x. if x = raftOperationToProto (put_request ''k'' ''v'' 0 ''s'') then Some ''x'' else None),
     pb_Unmarshal = (\<lambda>d. if d = ''x'' then Some (raftOperationToProto (put_request ''k'' ''v'' 0 ''s'')) else None),
     alt_Marshal = (\<lambda>_. None), alt_Unmarshal = (\<lambda>_. None)\<rparr>"

lemma sample_op_codec_ok:
  "op_codec_ok sample_op_codec" "pb_enabled sample_op_codec" "wire_ok (put_request ''k'' ''v'' 0 ''s'')"
  "serializeOperation sample_op_codec (put_request ''k'' ''v'' 0 ''s'') = Inr ''PB:x''"
  by (simp_all add: sample_op_codec_def op_codec_ok_def wire_ok_def put_request_def serializeOperation_def)

theorem decoded_operation_applies_alike_witness:
  "op_codec_ok sample_op_codec \<and> pb_enabled sample_op_codec \<and> wire_ok (put_request ''k'' ''v'' 0 ''s'')
   \<and> no_limits (ro_ThenOps (put_request ''k'' ''v'' 0 ''s''))
   \<and> (\<exists>opn'. deserializeOperation sample_op_codec ''PB:x'' = Inr opn' \<and> ro_SeqNum opn' = ''s'')"
proof -
  have "no_limits (ro_ThenOps (put_request ''k'' ''v'' 0 ''s''))" "no_limits (ro_ElseOps (put_request ''k'' ''v'' 0 ''s''))"
    by (simp_all add: put_request_def no_limits_def)
  with decoded_operation_applies_alike [OF sample_op_codec_ok(1-3) this sample_op_codec_ok(4)] sample_op_codec_ok
  show ?thesis
    by (auto simp: put_request_def)
qed

text \<open>
  The limit of a range read inside a transaction is lost on the way through the log: the decoded
  operation reads without a limit.
\<close>

theorem range_limit_lost_in_transit:
  assumes "op_wire_ok opn"
  shows "protoToOp (opToProto opn) = opn\<lparr>op_Limit := 0\<rparr>"
  using assms by (rule protoToOp_opToProto)

theorem range_limit_lost_in_transit_witness:
  "op_wire_ok \<lparr>op_Type = OpRange, op_Key = ''a'', op_RangeEnd = ''b'', op_Value = [], op_Limit = 5, op_LeaseID = 0\<rparr>
   \<and> op_Limit (protoToOp (opToProto
        \<lparr>op_Type = OpRange, op_Key = ''a'', op_RangeEnd = ''b'', op_Value = [], op_Limit = 5, op_LeaseID = 0\<rparr>)) = 0"
proof -
  have ok: "op_wire_ok \<lparr>op_Type = OpRange, op_Key = ''a'', op_RangeEnd = ''b'', op_Value = [], op_Limit = 5, op_LeaseID = 0\<rparr>"
    by (simp add: op_wire_ok_def)
  then show ?thesis
    using range_limit_lost_in_transit [OF ok] by simp
qed

text \<open>
  A lease that is serialized and read back is the same lease: identifier, time to live, grant time and
  key set; a nil lease and empty data are errors.
\<close>

theorem lease_roundtrip:
  assumes "lease_codec_ok c" "pb_enabled c" "iteration_order order"
  shows "(\<forall>data. SerializeLease order c (Some l) = Inr data \<longrightarrow> (\<exists>l'. DeserializeLease c data = Inr l' \<and> same_lease l l'))
    \<and> SerializeLease order c None = Inl ErrLeaseNil \<and> DeserializeLease c [] = Inl ErrEmptyLease"
proof -
  obtain l' where l': "ProtoToLease (LeaseToProto order (Some l)) = Some l'" "same_lease l l'"
    using assms(3) by (rule ProtoToLease_LeaseToProto)
  obtain p where p: "LeaseToProto order (Some l) = Some p"
    by (simp add: LeaseToProto_def)
  have "DeserializeLease c (''LEASE-PB:'' @ body) = Inr l'" if "pb_Marshal c p = Some body" for body
    using that assms(1) l'(1) p has_prefix_append [of "''LEASE-PB:''" body]
    by (simp add: DeserializeLease_def lease_codec_ok_def)
  moreover have "DeserializeLease c [] = Inl ErrEmptyLease"
    by (simp add: DeserializeLease_def)
  ultimately show ?thesis
    using assms(2) l'(2) p by (auto simp: SerializeLease_def split: option.splits)
qed

definition sample_lease_codec :: lease_codec where
  "sample_lease_codec = \<lparr>pb_enabled = True,
     pb_Marshal = (\<lambda>x. if x = the (LeaseToProto rev (Some sample_lease)) then Some ''x'' else None),
     pb_Unmarshal = (\<lambda>d. if d = ''x'' then LeaseToProto rev (Some sample_lease) else None),
     alt_Marshal = (\<lambda>_. None), alt_Unmarshal = (\<lambda>_. None)\<rparr>"

theorem lease_roundtrip_witness:
  "lease_codec_ok sample_lease_codec \<and> pb_enabled sample_lease_codec \<and> iteration_order (rev :: string list \<Rightarrow> string list)
   \<and> SerializeLease rev sample_lease_codec (Some sample_lease) = Inr ''LEASE-PB:x''
   \<and> (\<exists>l'. DeserializeLease sample_lease_codec ''LEASE-PB:x'' = Inr l' \<and> same_lease sample_lease l')"
proof -
  have c: "lease_codec_ok sample_lease_codec" "pb_enabled sample_lease_codec"
    by (simp_all add: lease_codec_ok_def sample_lease_codec_def LeaseToProto_def)
  have ser: "SerializeLease rev sample_lease_codec (Some sample_lease) = Inr ''LEASE-PB:x''"
    by (simp add: SerializeLease_def sample_lease_codec_def)
  show ?thesis
    using lease_roundtrip [OF c iteration_order_id(2), of sample_lease] c ser by simp
qed

end
