(* ===== verification/Decimal.thy ===== *)
theory Decimal
  imports Prelude
begin

text \<open>
  Decimal integers as \<^verbatim>\<open>strconv\<close> and \<^verbatim>\<open>fmt\<close> write and read them.
\<close>

fun show_nat :: "nat \<Rightarrow> string" where
  "show_nat n = (if n < 10 then [char_of (48 + n)] else show_nat (n div 10) @ [char_of (48 + n mod 10)])"

definition show_int :: "int \<Rightarrow> string" where
  "show_int n = (if n < 0 then ''-'' @ show_nat (nat (- n)) else show_nat (nat n))"

declare show_nat.simps [simp del]

fun read_nat :: "string \<Rightarrow> nat \<Rightarrow> nat" where
  "read_nat [] acc = acc"
| "read_nat (c # cs) acc = read_nat cs (10 * acc + (of_char c - 48))"

lemma read_nat_append: "read_nat (xs @ ys) acc = read_nat ys (read_nat xs acc)"
  by (induction xs arbitrary: acc) simp_all

lemma read_show_nat: "read_nat (show_nat n) 0 = n"
proof (induction n rule: show_nat.induct)
  case (1 n)
  show ?case
  proof (cases "n < 10")
    case True
    then show ?thesis
      by (simp add: show_nat.simps [of n])
  next
    case False
    then have "n mod 10 < 208"
      by (intro less_trans [of "n mod 10" 10 208]) simp_all
    with False 1 show ?thesis
      by (simp add: show_nat.simps [of n] read_nat_append)
  qed
qed

lemma show_nat_inj: "show_nat a = show_nat b \<longleftrightarrow> a = b"
  by (metis read_show_nat)

lemma show_nat_digits: "list_all (\<lambda>c. 48 \<le> (of_char c :: nat) \<and> (of_char c :: nat) \<le> 57) (show_nat n)"
proof (induction n rule: show_nat.induct)
  case (1 n)
  have "n mod 10 < 10" by simp
  then have "48 + n mod 10 < 256" by linarith
  then show ?case using 1 by (subst show_nat.simps) (auto simp: less_Suc_eq_le)
qed

lemma show_nat_head: "show_nat n \<noteq> []" "hd (show_nat n) = CHR ''0'' \<Longrightarrow> n = 0"
proof -
  show "show_nat n \<noteq> []" by (subst show_nat.simps) simp
  show "hd (show_nat n) = CHR ''0'' \<Longrightarrow> n = 0"
  proof (induction n rule: show_nat.induct)
    case (1 n)
    have ne: "show_nat m \<noteq> []" for m by (subst show_nat.simps) simp
    show ?case
    proof (cases "n < 10")
      case True
      then have "char_of (48 + n) = CHR ''0''" using 1(2) by (simp add: show_nat.simps[of n])
      then have "(of_char (char_of (48 + n) :: char) :: nat) = 48" by simp
      moreover have "(of_char (char_of (48 + n) :: char) :: nat) = 48 + n" using True by (simp add: of_char_of)
      ultimately show ?thesis by simp
    next
      case False
      then have "hd (show_nat (n div 10)) = CHR ''0''" using 1(2) ne by (simp add: show_nat.simps[of n])
      then have "n div 10 = 0" using 1(1) False by blast
      then show ?thesis using False by simp
    qed
  qed
qed

text \<open>\<^verbatim>\<open>strconv.ParseInt(s, 10, 64)\<close> on the integer literals of JSON.\<close>

definition parse_int64 :: "string \<Rightarrow> int option" where
  "parse_int64 s =
     (let neg = (s \<noteq> [] \<and> hd s = CHR ''-''); ds = (if neg then tl s else s) in
      if ds = [] \<or> \<not> list_all (\<lambda>c. 48 \<le> (of_char c :: nat) \<and> (of_char c :: nat) \<le> 57) ds then None
      else let n = (if neg then - int (read_nat ds 0) else int (read_nat ds 0))
           in if - (2 ^ 63) \<le> n \<and> n < 2 ^ 63 then Some n else None)"

lemma parse_show_int:
  assumes "- (2 ^ 63) \<le> n" "n < 2 ^ 63"
  shows "parse_int64 (show_int n) = Some n"
proof -
  have h: "hd (show_nat m) \<noteq> CHR ''-''" for m
    using show_nat_digits[of m] show_nat_head(1)[of m] by (cases "show_nat m") auto
  show ?thesis
    using assms h show_nat_digits show_nat_head(1)
    by (cases "n < 0") (simp_all add: parse_int64_def show_int_def Let_def read_show_nat)
qed

end
