(* ===== verification/Memory_Node.thy ===== *)
theory Memory_Node
  imports Serialization Decimal
begin

text \<open>
  The Raft-backed store around the memory engine, \<open>internal/memory/kvstore.go\<close>: the client calls, which
  number an operation, propose it and wait for its commit; the commit loop; snapshots and recovery.

  A client call is two steps, up to the proposal and after the wait, with the result of the propose
  \<open>select\<close> and of the wait \<open>select\<close> as arguments.  \<open>None\<close> as the result of the commit loop is \<open>log.Fatal\<close>.
  The Raft library, the snapshot files and gob are parameters.
\<close>

section \<open>Sequence numbers\<close>

text \<open>\<open>fmt.Sprintf("seq-%d", n)\<close>.\<close>

definition seq_name :: "int \<Rightarrow> string" where
  "seq_name n = ''seq-'' @ show_int n"

section \<open>Client calls\<close>

datatype api_error =
    ErrSerialize codec_error
  | ErrProposeTimeout
  | ErrWaitTimeout
  | ErrContext
  | ErrTxnResultNotFound

datatype propose_result = ProposeSent | ProposeTimeout | ProposeCtxDone

datatype wait_result = WaitClosed | WaitTimeout | WaitCtxDone

definition propose :: "propose_result \<Rightarrow> string \<Rightarrow> Memory \<Rightarrow> api_error + Memory" where
  "propose res data s =
     (case res of
        ProposeSent \<Rightarrow> Inr (s\<lparr>proposeC := proposeC s @ [data]\<rparr>)
      | ProposeTimeout \<Rightarrow> Inl ErrProposeTimeout
      | ProposeCtxDone \<Rightarrow> Inl ErrContext)"

definition forget_op :: "string \<Rightarrow> Memory \<Rightarrow> Memory" where
  "forget_op sq s = s\<lparr>pendingOps := removeAll sq (pendingOps s)\<rparr>"

text \<open>
  The common first half of the client calls: a new sequence number, a wait channel under it, the
  serialized operation proposed.  On an error the channel is removed again.
\<close>

definition submit ::
    "op_codec \<Rightarrow> propose_result \<Rightarrow> (string \<Rightarrow> RaftOperation) \<Rightarrow> Memory \<Rightarrow> Memory \<times> (api_error + string)" where
  "submit c res mkOp s =
     (let sq = seq_name (seqNum s + 1);
          s1 = s\<lparr>seqNum := seqNum s + 1, pendingOps := List.insert sq (pendingOps s)\<rparr>
      in case serializeOperation c (mkOp sq) of
           Inl err \<Rightarrow> (forget_op sq s1, Inl (ErrSerialize err))
         | Inr data \<Rightarrow>
             (case propose res data s1 of
                Inl err \<Rightarrow> (forget_op sq s1, Inl err)
              | Inr s2 \<Rightarrow> (s2, Inr sq)))"

text \<open>The wait: it can only take the first branch once the channel is closed.\<close>

definition await_commit :: "wait_result \<Rightarrow> string \<Rightarrow> Memory \<Rightarrow> (Memory \<times> api_error option) option" where
  "await_commit res sq s =
     (case res of
        WaitClosed \<Rightarrow> if sq \<in> set (closedOps s) then Some (s, None) else None
      | WaitTimeout \<Rightarrow> Some (forget_op sq s, Some ErrWaitTimeout)
      | WaitCtxDone \<Rightarrow> Some (forget_op sq s, Some ErrContext))"

definition zero_raft_operation :: RaftOperation where
  "zero_raft_operation = \<lparr>ro_Type = [], ro_Key = [], ro_Value = [], ro_LeaseID = 0, ro_RangeEnd = [], ro_SeqNum = [],
     ro_TTL = 0, ro_Compares = [], ro_ThenOps = [], ro_ElseOps = []\<rparr>"

definition put_operation :: "string \<Rightarrow> string \<Rightarrow> int \<Rightarrow> string \<Rightarrow> RaftOperation" where
  "put_operation key val leaseID sq =
     zero_raft_operation\<lparr>ro_Type := ''PUT'', ro_Key := key, ro_Value := val, ro_LeaseID := leaseID, ro_SeqNum := sq\<rparr>"

definition delete_operation :: "string \<Rightarrow> string \<Rightarrow> string \<Rightarrow> RaftOperation" where
  "delete_operation key rangeEnd sq =
     zero_raft_operation\<lparr>ro_Type := ''DELETE'', ro_Key := key, ro_RangeEnd := rangeEnd, ro_SeqNum := sq\<rparr>"

definition grant_operation :: "int \<Rightarrow> int \<Rightarrow> string \<Rightarrow> RaftOperation" where
  "grant_operation i ttl sq =
     zero_raft_operation\<lparr>ro_Type := ''LEASE_GRANT'', ro_LeaseID := i, ro_TTL := ttl, ro_SeqNum := sq\<rparr>"

definition revoke_operation :: "int \<Rightarrow> string \<Rightarrow> RaftOperation" where
  "revoke_operation i sq = zero_raft_operation\<lparr>ro_Type := ''LEASE_REVOKE'', ro_LeaseID := i, ro_SeqNum := sq\<rparr>"

definition txn_operation :: "compare list \<Rightarrow> op list \<Rightarrow> op list \<Rightarrow> string \<Rightarrow> RaftOperation" where
  "txn_operation cmps thenOps elseOps sq =
     zero_raft_operation\<lparr>ro_Type := ''TXN'', ro_Compares := cmps, ro_ThenOps := thenOps, ro_ElseOps := elseOps,
       ro_SeqNum := sq\<rparr>"

definition mem_PutWithLease_start where
  "mem_PutWithLease_start c res key val leaseID s = submit c res (put_operation key val leaseID) s"

definition mem_PutWithLease_finish ::
    "wait_result \<Rightarrow> string \<Rightarrow> string \<Rightarrow> Memory \<Rightarrow> (Memory \<times> (api_error + int \<times> key_value option)) option" where
  "mem_PutWithLease_finish res sq key s =
     (case await_commit res sq s of
        None \<Rightarrow> None
      | Some (s', Some err) \<Rightarrow> Some (s', Inl err)
      | Some (s', None) \<Rightarrow> Some (s', Inr (revision (mem_etcd s'), sm_Get (kvData (mem_etcd s')) key)))"

text \<open>
  \<open>DeleteRange\<close> looks up what it will delete before it proposes, and returns at once when there is
  nothing; the entries it found then are what it reports after the commit.
\<close>

definition mem_DeleteRange_start ::
    "op_codec \<Rightarrow> propose_result \<Rightarrow> string \<Rightarrow> string \<Rightarrow> Memory
       \<Rightarrow> Memory \<times> (api_error + (int \<times> key_value list \<times> int) + string \<times> int \<times> key_value list)" where
  "mem_DeleteRange_start c res key rangeEnd s =
     (let prevKvs = delete_kvs key rangeEnd (mem_etcd s);
          deleted = int (length prevKvs)
      in if deleted = 0 then (s, Inr (Inl (0, [], revision (mem_etcd s))))
         else case submit c res (delete_operation key rangeEnd) s of
                (s', Inl err) \<Rightarrow> (s', Inl err)
              | (s', Inr sq) \<Rightarrow> (s', Inr (Inr (sq, deleted, prevKvs))))"

definition mem_DeleteRange_finish ::
    "wait_result \<Rightarrow> string \<times> int \<times> key_value list \<Rightarrow> Memory
       \<Rightarrow> (Memory \<times> (api_error + int \<times> key_value list \<times> int)) option" where
  "mem_DeleteRange_finish res call s =
     (case call of (sq, deleted, prevKvs) \<Rightarrow>
        (case await_commit res sq s of
           None \<Rightarrow> None
         | Some (s', Some err) \<Rightarrow> Some (s', Inl err)
         | Some (s', None) \<Rightarrow> Some (s', Inr (deleted, prevKvs, revision (mem_etcd s')))))"

definition mem_LeaseGrant_start where
  "mem_LeaseGrant_start c res i ttl s = submit c res (grant_operation i ttl) s"

definition mem_LeaseGrant_finish ::
    "wait_result \<Rightarrow> string \<Rightarrow> int \<Rightarrow> int \<Rightarrow> int \<Rightarrow> Memory \<Rightarrow> (Memory \<times> (api_error + lease)) option" where
  "mem_LeaseGrant_finish res sq now i ttl s =
     (case await_commit res sq s of
        None \<Rightarrow> None
      | Some (s', Some err) \<Rightarrow> Some (s', Inl err)
      | Some (s', None) \<Rightarrow> Some (s', Inr \<lparr>ls_ID = i, ls_TTL = ttl, ls_GrantTime = now, ls_Keys = []\<rparr>))"

definition mem_LeaseRevoke_start where
  "mem_LeaseRevoke_start c res i s = submit c res (revoke_operation i) s"

definition mem_LeaseRevoke_finish ::
    "wait_result \<Rightarrow> string \<Rightarrow> Memory \<Rightarrow> (Memory \<times> (api_error + unit)) option" where
  "mem_LeaseRevoke_finish res sq s =
     (case await_commit res sq s of
        None \<Rightarrow> None
      | Some (s', Some err) \<Rightarrow> Some (s', Inl err)
      | Some (s', None) \<Rightarrow> Some (s', Inr ()))"

definition mem_Txn_start where
  "mem_Txn_start c res cmps thenOps elseOps s = submit c res (txn_operation cmps thenOps elseOps) s"

definition mem_Txn_finish :: "wait_result \<Rightarrow> string \<Rightarrow> Memory \<Rightarrow> (Memory \<times> (api_error + txn_response)) option" where
  "mem_Txn_finish res sq s =
     (case await_commit res sq s of
        None \<Rightarrow> None
      | Some (s', Some err) \<Rightarrow> Some (s', Inl err)
      | Some (s', None) \<Rightarrow>
          let s'' = s'\<lparr>pendingTxnResults := gm_del sq (pendingTxnResults s')\<rparr>
          in Some (s'', case gm_get (pendingTxnResults s') sq of
                          None \<Rightarrow> Inl ErrTxnResultNotFound
                        | Some txnResp \<Rightarrow> Inr txnResp))"

definition mem_Propose :: "(string \<Rightarrow> string \<Rightarrow> string option) \<Rightarrow> string \<Rightarrow> string \<Rightarrow> Memory \<Rightarrow> Memory option" where
  "mem_Propose gobEncode k v s =
     (case gobEncode k v of None \<Rightarrow> None | Some data \<Rightarrow> Some (s\<lparr>proposeC := proposeC s @ [data]\<rparr>))"

section \<open>Snapshots\<close>

definition mem_GetSnapshot ::
    "(string list \<Rightarrow> string list) \<Rightarrow> snapshot_codec \<Rightarrow> Memory \<Rightarrow> codec_error + string" where
  "mem_GetSnapshot order c s =
     serializeSnapshot order c (revision (mem_etcd s)) (sm_GetAll (kvData (mem_etcd s)))
       (fold (\<lambda>(k, v). gm_set k v) (leases (mem_etcd s)) [])"

definition recoverFromSnapshot :: "snapshot_codec \<Rightarrow> string \<Rightarrow> Memory \<Rightarrow> codec_error + Memory" where
  "recoverFromSnapshot c data s =
     (case deserializeSnapshot c data of
        Inl err \<Rightarrow> Inl err
      | Inr snapshot \<Rightarrow>
          Inr (s\<lparr>mem_etcd := (mem_etcd s)\<lparr>revision := sd_Revision snapshot,
                   kvData := sm_SetAll (sd_KVData snapshot) (kvData (mem_etcd s)),
                   leases := sd_Leases snapshot\<rparr>\<rparr>))"

text \<open>The snapshot file: absent, unreadable, or its data.\<close>

datatype load_result = NoSnapshot | LoadFailed | Loaded string

definition loadSnapshot :: "load_result \<Rightarrow> codec_error option + string option" where
  "loadSnapshot file = (case file of NoSnapshot \<Rightarrow> Inr None | LoadFailed \<Rightarrow> Inl None | Loaded data \<Rightarrow> Inr (Some data))"

definition reload :: "snapshot_codec \<Rightarrow> load_result \<Rightarrow> Memory \<Rightarrow> Memory option" where
  "reload sc file s =
     (case loadSnapshot file of
        Inl _ \<Rightarrow> None
      | Inr None \<Rightarrow> Some s
      | Inr (Some data) \<Rightarrow> (case recoverFromSnapshot sc data s of Inl _ \<Rightarrow> None | Inr s' \<Rightarrow> Some s'))"

definition NewMemory :: "snapshot_codec \<Rightarrow> load_result \<Rightarrow> Memory option" where
  "NewMemory sc file =
     reload sc file \<lparr>mem_etcd = NewMemoryEtcd, proposeC = [], pendingOps = [], closedOps = [], pendingTxnResults = [],
                     seqNum = 0\<rparr>"

section \<open>The commit loop\<close>

definition applyLegacyOp :: "(string \<Rightarrow> (string \<times> string) option) \<Rightarrow> string \<Rightarrow> Memory \<Rightarrow> Memory option" where
  "applyLegacyOp gobDecode data s =
     (case gobDecode data of
        None \<Rightarrow> None
      | Some (k, v) \<Rightarrow> Some (s\<lparr>mem_etcd := fst (putDirect k v 0 (mem_etcd s))\<rparr>))"

text \<open>Collecting the operations of a commit; data in the old format is applied on the spot.\<close>

fun collect_ops ::
    "op_codec \<Rightarrow> (string \<Rightarrow> (string \<times> string) option) \<Rightarrow> string list \<Rightarrow> RaftOperation list \<Rightarrow> Memory
       \<Rightarrow> (RaftOperation list \<times> Memory) option" where
  "collect_ops c gobDecode [] allOps s = Some (allOps, s)"
| "collect_ops c gobDecode (data # datas) allOps s =
     (case deserializeOperation c data of
        Inr opn \<Rightarrow> collect_ops c gobDecode datas (allOps @ [opn]) s
      | Inl _ \<Rightarrow>
          (case applyLegacyOp gobDecode data s of
             None \<Rightarrow> None
           | Some s' \<Rightarrow> collect_ops c gobDecode datas allOps s'))"

text \<open>One element of the commit channel: \<open>None\<close> asks for a reload of the snapshot.\<close>

definition handle_commit ::
    "op_codec \<Rightarrow> snapshot_codec \<Rightarrow> (string \<Rightarrow> (string \<times> string) option) \<Rightarrow> load_result
       \<Rightarrow> (string list \<Rightarrow> string list) \<Rightarrow> int \<Rightarrow> nat list list \<Rightarrow> string list option \<Rightarrow> Memory \<Rightarrow> Memory option" where
  "handle_commit c sc gobDecode file order now scheds commit s =
     (case commit of
        None \<Rightarrow> reload sc file s
      | Some datas \<Rightarrow>
          (case collect_ops c gobDecode datas [] s of
             None \<Rightarrow> None
           | Some (allOps, s') \<Rightarrow>
               if 0 < length allOps then Some (applyBatch order now scheds allOps s') else Some s'))"

text \<open>\<open>readCommits\<close> over a channel that delivers the given commits and is then closed.\<close>

fun readCommits ::
    "op_codec \<Rightarrow> snapshot_codec \<Rightarrow> (string \<Rightarrow> (string \<times> string) option) \<Rightarrow> load_result
       \<Rightarrow> (string list \<Rightarrow> string list) \<Rightarrow> int \<Rightarrow> (nat list list \<times> string list option) list \<Rightarrow> Memory \<Rightarrow> Memory option" where
  "readCommits c sc gobDecode file order now [] s = Some s"
| "readCommits c sc gobDecode file order now ((scheds, commit) # commits) s =
     (case handle_commit c sc gobDecode file order now scheds commit s of
        None \<Rightarrow> None
      | Some s' \<Rightarrow> readCommits c sc gobDecode file order now commits s')"

section \<open>Node status and reads\<close>

text \<open>The Raft node as the store sees it, when there is one.\<close>

record raft_node =
  rn_Status :: raft_status
  rn_TransferLeadership :: "int \<Rightarrow> bool"
  rn_LeaseRead :: "(bool \<times> bool) option"

datatype transfer_error = ErrNoRaftNode | ErrNotLeader int | ErrTransferFailed

definition mem_GetRaftStatus :: "raft_node option \<Rightarrow> int \<Rightarrow> raft_status" where
  "mem_GetRaftStatus node nodeID =
     (case node of
        None \<Rightarrow> \<lparr>rs_NodeID = nodeID, rs_Term = 0, rs_LeaderID = 0, rs_State = ''standalone'', rs_Applied = 0, rs_Commit = 0\<rparr>
      | Some n \<Rightarrow> rn_Status n)"

definition mem_TransferLeadership :: "raft_node option \<Rightarrow> int \<Rightarrow> int \<Rightarrow> transfer_error + unit" where
  "mem_TransferLeadership node nodeID targetID =
     (case node of
        None \<Rightarrow> Inl ErrNoRaftNode
      | Some n \<Rightarrow>
          if rs_LeaderID (rn_Status n) \<noteq> nodeID then Inl (ErrNotLeader (rs_LeaderID (rn_Status n)))
          else if rn_TransferLeadership n targetID then Inr () else Inl ErrTransferFailed)"

text \<open>
  \<open>Range\<close>: with a lease manager that is leader and holds a valid lease the read is counted as a fast-path
  read; every path reads the local state.  The flag of the result says whether it was counted.
\<close>

definition mem_Range ::
    "raft_node option \<Rightarrow> string \<Rightarrow> string \<Rightarrow> int \<Rightarrow> int \<Rightarrow> Memory \<Rightarrow> range_response \<times> bool" where
  "mem_Range node key rangeEnd limit r s =
     (let local = me_Range key rangeEnd limit r (mem_etcd s)
      in case node of
           None \<Rightarrow> (local, False)
         | Some n \<Rightarrow>
             (case rn_LeaseRead n of
                None \<Rightarrow> (local, False)
              | Some (isLeader, hasValidLease) \<Rightarrow> if isLeader \<and> hasValidLease then (local, True) else (local, False)))"

section \<open>Distinct sequence numbers\<close>

lemma seq_name_inj: "0 \<le> a \<Longrightarrow> 0 \<le> b \<Longrightarrow> seq_name a = seq_name b \<longleftrightarrow> a = b"
  by (simp add: seq_name_def show_int_def show_nat_inj eq_nat_nat_iff)

lemma seq_name_nonempty [simp]: "seq_name n \<noteq> []"
  by (simp add: seq_name_def)

section \<open>Sequence numbers in flight\<close>

text \<open>Every sequence number a node waits for or has released was issued by its own counter.\<close>

definition seqs_ok :: "Memory \<Rightarrow> bool" where
  "seqs_ok s \<longleftrightarrow> 0 \<le> seqNum s \<and>
     set (pendingOps s) \<union> set (closedOps s) \<subseteq> seq_name ` {1..seqNum s}"

lemma seqs_ok_fresh:
  assumes "seqs_ok s"
  shows "seq_name (seqNum s + 1) \<notin> set (pendingOps s) \<union> set (closedOps s)"
proof
  assume "seq_name (seqNum s + 1) \<in> set (pendingOps s) \<union> set (closedOps s)"
  then obtain k where "1 \<le> k" "k \<le> seqNum s" "seq_name (seqNum s + 1) = seq_name k"
    using assms unfolding seqs_ok_def by fastforce
  then show False
    by (simp add: seq_name_inj)
qed

lemma seqs_ok_submit [wf_intros]:
  assumes "seqs_ok s"
  shows "seqs_ok (fst (submit c res mkOp s))"
proof -
  have "seqs_ok (s\<lparr>seqNum := seqNum s + 1, pendingOps := List.insert (seq_name (seqNum s + 1)) (pendingOps s)\<rparr>)"
    using assms by (force simp: seqs_ok_def)
  then show ?thesis
    by (auto simp: submit_def Let_def forget_op_def propose_def seqs_ok_def
        split: sum.splits propose_result.splits)
qed

lemma seqs_ok_applyBatch [wf_intros]:
  assumes "seqs_ok s"
  shows "seqs_ok (applyBatch order now scheds ops s)"
proof -
  have nw: "seqNum (notify_waiter opn s') = seqNum s'" for opn s'
    by (simp add: notify_waiter_def)
  then have "seqNum (fold notify_waiter os s') = seqNum s'" for os s'
    by (induction os arbitrary: s') simp_all
  moreover have "seqNum (batch_loop order now scheds t batch os s') = seqNum s'" for scheds t batch os s'
  proof -
    have "seqNum (fold (apply_txn now) xs s1) = seqNum s1" for xs s1
      by (induction xs arbitrary: s1) (simp_all add: apply_txn_def split: prod.splits sum.splits)
    then have "seqNum (flushBatch order now sc t xs s1) = seqNum s1" for sc t xs s1
      by (simp add: flushBatch_def)
    then show ?thesis
      by (induction os arbitrary: scheds t batch s') simp_all
  qed
  moreover have "seqNum (applyOperation order now opn s') = seqNum s'" for opn s'
    by (simp add: applyOperation_def apply_effect_def notify_waiter_def apply_txn_def split: prod.splits sum.splits)
  ultimately have "seqNum (applyBatch order now scheds ops s) = seqNum s"
    by (simp add: applyBatch_def nw del: batch_loop.simps split: list.splits)
  moreover obtain s' where "applyBatch order now scheds ops s = fold notify_waiter ops s'"
      "pendingOps s' = pendingOps s" "closedOps s' = closedOps s"
    by (rule applyBatch_notifies)
  ultimately show ?thesis
    using assms by (auto simp: seqs_ok_def fold_notify_waiter)
qed

section \<open>Recovery\<close>

lemma sm_inv_length: "sm_inv sm \<Longrightarrow> length (shards sm) = numShards"
  by (simp add: sm_inv_def)

lemma leases_copy: "gm_wf ls \<Longrightarrow> fold (\<lambda>(k, v). gm_set k v) ls [] = ls"
  using fold_gm_set_fresh [of "[]" ls] by simp

lemma deserialize_snapshot:
  assumes "snapshot_codec_ok c" "pb_enabled c" "gm_wf kvs" "gm_wf ls"
    "serializeSnapshot order c r kvs ls = Inr data"
  obtains snap where "deserializeSnapshot c data = Inr snap" "sd_Revision snap = r"
    "gm_wf (sd_KVData snap)" "gm_get (sd_KVData snap) = gm_get kvs" "gm_wf (sd_Leases snap)"
    "\<And>i. gm_get (sd_Leases snap) i = map_option (\<lambda>l. the (ProtoToLease (LeaseToProto order (Some l)))) (gm_get ls i)"
proof -
  let ?kf = "\<lambda>v. the (keyValueToProto (Some v))" and ?lf = "\<lambda>l. the (LeaseToProto order (Some l))"
  let ?kg = "\<lambda>v. the (protoToKeyValue (Some v))" and ?lg = "\<lambda>l. the (ProtoToLease (Some l))"
  let ?pb = "\<lparr>pbs_Revision = r, pbs_KvData = map (\<lambda>(k, v). (k, ?kf v)) kvs, pbs_Leases = map (\<lambda>(i, l). (i, ?lf l)) ls\<rparr>"
  obtain body where body: "pb_Marshal c ?pb = Some body" "data = ''SNAP-PB:'' @ body"
    using assms(2-5) by (auto simp: serializeSnapshot_def fold_gm_set_map split: option.splits)
  obtain y where y: "pb_Unmarshal c body = Some y" "pbs_Revision y = r"
      "mset (pbs_KvData y) = mset (map (\<lambda>(k, v). (k, ?kf v)) kvs)"
      "mset (pbs_Leases y) = mset (map (\<lambda>(i, l). (i, ?lf l)) ls)"
    using assms(1) [unfolded snapshot_codec_ok_def, rule_format, OF body(1)] by auto
  have wf: "gm_wf (pbs_KvData y)" "gm_wf (pbs_Leases y)"
    using gm_wf_mset [OF y(3)] gm_wf_mset [OF y(4)] assms(3,4) by (simp_all only: gm_wf_map)
  have getk: "gm_get (pbs_KvData y) = gm_get (map (\<lambda>(k, v). (k, ?kf v)) kvs)"
    using y(3) by (rule gm_get_mset) (use assms(3) in \<open>simp only: gm_wf_map\<close>)
  have getl: "gm_get (pbs_Leases y) = gm_get (map (\<lambda>(i, l). (i, ?lf l)) ls)"
    using y(4) by (rule gm_get_mset) (use assms(4) in \<open>simp only: gm_wf_map\<close>)
  let ?snap = "\<lparr>sd_Revision = r, sd_KVData = map (\<lambda>(k, v). (k, ?kg v)) (pbs_KvData y),
      sd_Leases = map (\<lambda>(i, l). (i, ?lg l)) (pbs_Leases y)\<rparr>"
  have "deserializeSnapshot c data = Inr ?snap"
    using y(1,2) wf has_prefix_append [of "''SNAP-PB:''" body]
    by (simp add: deserializeSnapshot_def body(2) fold_gm_set_map)
  moreover have "?kg (?kf v) = v" for v
    by (simp add: protoToKeyValue_def keyValueToProto_def)
  then have "gm_get (map (\<lambda>(k, v). (k, ?kg v)) (pbs_KvData y)) = gm_get kvs"
    by (intro ext) (simp add: gm_get_map_values getk option.map_comp comp_def option.map_ident)
  moreover have "gm_get (map (\<lambda>(i, l). (i, ?lg l)) (pbs_Leases y)) i
      = map_option (\<lambda>l. the (ProtoToLease (LeaseToProto order (Some l)))) (gm_get ls i)" for i
    by (simp add: gm_get_map_values getl option.map_comp comp_def LeaseToProto_def)
  ultimately show thesis
    using wf by (intro that [of ?snap]) (simp_all only: SnapshotData.simps gm_wf_map)
qed

section \<open>Properties\<close>

definition zero_snapshot :: pb_snapshot where
  "zero_snapshot = \<lparr>pbs_Revision = 0, pbs_KvData = [], pbs_Leases = []\<rparr>"

definition sample_snapshot_codec :: snapshot_codec where
  "sample_snapshot_codec = \<lparr>pb_enabled = True, pb_Marshal = (\<lambda>x. if x = zero_snapshot then Some [] else None),
     pb_Unmarshal = (\<lambda>d. if d = [] then Some zero_snapshot else None),
     alt_Marshal = (\<lambda>_. None), alt_Unmarshal = (\<lambda>_. None)\<rparr>"

text \<open>
  C24: a node that recovers from a snapshot has the revision, the entries and the leases (with their keys)
  of the node that took it, whatever it held before, and keeps its own subscriptions and waiters; the
  engine invariant holds again.
\<close>

theorem snapshot_recovery:
  assumes "snapshot_codec_ok c" "pb_enabled c" "iteration_order order"
    "me_inv (mem_etcd s)" "me_inv (mem_etcd t)" "mem_GetSnapshot order c s = Inr data"
  shows "\<exists>t'. recoverFromSnapshot c data t = Inr t' \<and> me_inv (mem_etcd t')
    \<and> me_abs (mem_etcd t') = me_abs (mem_etcd s)
    \<and> leases_view (leases (mem_etcd t')) = leases_view (leases (mem_etcd s))
    \<and> watches (mem_etcd t') = watches (mem_etcd t) \<and> pendingOps t' = pendingOps t"
proof -
  note invs = me_invD [OF assms(4)] and invt = me_invD [OF assms(5)]
  have wf: "gm_wf (sm_GetAll (kvData (mem_etcd s)))" "gm_wf (leases (mem_etcd s))"
    using invs(1,3) by (simp_all add: sm.entries_wf leases_ok_def)
  have "serializeSnapshot order c (revision (mem_etcd s)) (sm_GetAll (kvData (mem_etcd s))) (leases (mem_etcd s)) = Inr data"
    using assms(6) wf(2) by (simp add: mem_GetSnapshot_def leases_copy)
  from deserialize_snapshot [OF assms(1,2) wf this] obtain snap where
    snap: "deserializeSnapshot c data = Inr snap" "sd_Revision snap = revision (mem_etcd s)"
      "gm_wf (sd_KVData snap)" "gm_get (sd_KVData snap) = gm_get (sm_GetAll (kvData (mem_etcd s)))"
      "gm_wf (sd_Leases snap)" "\<And>i. gm_get (sd_Leases snap) i
        = map_option (\<lambda>l. the (ProtoToLease (LeaseToProto order (Some l)))) (gm_get (leases (mem_etcd s)) i)"
    by blast
  have rt: "same_lease l (the (ProtoToLease (LeaseToProto order (Some l))))" for l
    using ProtoToLease_LeaseToProto [OF assms(3), of l] by (metis option.sel)
  have data: "sm_Get (sm_SetAll (sd_KVData snap) (kvData (mem_etcd t))) = sm_Get (kvData (mem_etcd s))"
    using sm_Get_SetAll [OF sm_inv_length [OF invt(1)] snap(3)] snap(4) sm.entries_get [OF invs(1)] by simp
  have "leases_ok (sd_Leases snap)"
    using invs(3) snap(5) rt by (auto simp: leases_ok_def snap(6) same_lease_def)
  moreover have "leases_view (sd_Leases snap) = leases_view (leases (mem_etcd s))"
    using rt by (auto simp: leases_view_def snap(6) option.map_comp comp_def same_lease_def fun_eq_iff
        intro!: option.map_cong0)
  ultimately show ?thesis
    using snap(1,2) data sm_inv_SetAll [OF sm_inv_length [OF invt(1)]] invs invt
    by (simp add: recoverFromSnapshot_def me_inv_def me_abs_def)
qed

definition sample_empty_node :: Memory where
  "sample_empty_node = \<lparr>mem_etcd = NewMemoryEtcd, proposeC = [], pendingOps = [], closedOps = [], pendingTxnResults = [],
     seqNum = 0\<rparr>"

lemma sample_snapshot_codec_ok: "snapshot_codec_ok sample_snapshot_codec" "pb_enabled sample_snapshot_codec"
  by (simp_all add: snapshot_codec_ok_def sample_snapshot_codec_def)

lemma sample_empty_snapshot: "mem_GetSnapshot rev sample_snapshot_codec sample_empty_node = Inr ''SNAP-PB:''"
proof -
  have "sm_GetAll NewShardedMap = []"
    using sm.entries_get [OF sm.inv_empty] sm.get_empty by (metis map_of_eq_empty_iff ext)
  then show ?thesis
    by (simp add: mem_GetSnapshot_def sample_empty_node_def NewMemoryEtcd_def serializeSnapshot_def
        sample_snapshot_codec_def zero_snapshot_def)
qed

theorem snapshot_recovery_witness:
  "snapshot_codec_ok sample_snapshot_codec \<and> pb_enabled sample_snapshot_codec
   \<and> iteration_order (rev :: string list \<Rightarrow> string list)
   \<and> me_inv (mem_etcd sample_empty_node) \<and> me_inv (mem_etcd sample_node)
   \<and> mem_GetSnapshot rev sample_snapshot_codec sample_empty_node = Inr ''SNAP-PB:''
   \<and> (\<exists>t'. recoverFromSnapshot sample_snapshot_codec ''SNAP-PB:'' sample_node = Inr t'
        \<and> me_abs (mem_etcd t') = me_abs NewMemoryEtcd)"
proof -
  have inv: "me_inv (mem_etcd sample_empty_node)" "mem_etcd sample_empty_node = NewMemoryEtcd"
    by (simp_all add: sample_empty_node_def)
  show ?thesis
    using snapshot_recovery [OF sample_snapshot_codec_ok iteration_order_id(2) inv(1) sample_node_inv sample_empty_snapshot]
      sample_snapshot_codec_ok inv sample_node_inv sample_empty_snapshot
    by auto
qed

text \<open>
  The sequence number of a new client call is fresh on its node: no call that still waits and no call
  that was released has it, so a call is not released by an operation submitted before it on the same node.
\<close>

theorem submit_takes_fresh_number:
  assumes "seqs_ok s" "submit c res mkOp s = (s', Inr sq)"
  shows "sq \<notin> set (pendingOps s) \<union> set (closedOps s) \<and> sq \<in> set (pendingOps s') \<and> seqs_ok s'
    \<and> (\<exists>data. serializeOperation c (mkOp sq) = Inr data \<and> proposeC s' = proposeC s @ [data])"
proof -
  have "sq = seq_name (seqNum s + 1)"
    using assms(2) by (auto simp: submit_def Let_def split: sum.splits)
  with seqs_ok_fresh [OF assms(1)] seqs_ok_submit [OF assms(1), of c res mkOp] assms(2) show ?thesis
    by (auto simp: submit_def Let_def propose_def split: sum.splits propose_result.splits)
qed

theorem submit_takes_fresh_number_witness:
  "seqs_ok (sample_empty_node\<lparr>seqNum := 11\<rparr>) \<and>
   (\<exists>s' sq. submit (sample_op_codec\<lparr>pb_enabled := False, alt_Marshal := Some \<circ> ro_SeqNum\<rparr>) ProposeSent
       (put_operation ''k'' ''v'' 0) (sample_empty_node\<lparr>seqNum := 11\<rparr>) = (s', Inr sq)
     \<and> sq \<in> set (pendingOps s'))"
proof -
  let ?s = "sample_empty_node\<lparr>seqNum := 11\<rparr>"
  let ?c = "sample_op_codec\<lparr>pb_enabled := False, alt_Marshal := Some \<circ> ro_SeqNum\<rparr>"
  have ok: "seqs_ok ?s"
    by (simp add: seqs_ok_def sample_empty_node_def)
  obtain s' sq where sub: "submit ?c ProposeSent (put_operation ''k'' ''v'' 0) ?s = (s', Inr sq)"
    by (simp add: submit_def Let_def propose_def serializeOperation_def)
  show ?thesis
    using submit_takes_fresh_number [OF ok sub] ok sub by blast
qed

text \<open>
  Sequence numbers are not unique across nodes.  A node that applies an operation which another node
  submitted under the same number releases its own waiting call, although its own operation is not
  applied; a waiting transaction is then answered with the other node's result.
\<close>

theorem foreign_operation_releases_waiter:
  assumes "sq \<noteq> []" "sq \<in> set (pendingOps s)" "ro_Type opn = ''TXN''" "ro_SeqNum opn = sq"
    "txnUnlocked now (ro_Compares opn) (ro_ThenOps opn) (ro_ElseOps opn) (mem_etcd s) = (m', Inr resp)"
  shows "\<exists>s'. mem_Txn_finish WaitClosed sq (applyOperation order now opn s) = Some (s', Inr resp)"
  using assms
  by (simp add: mem_Txn_finish_def await_commit_def applyOperation_def apply_effect_def apply_txn_def
      applyTxnWithShardLocks_def notify_waiter_def gomap_simps Let_def)

theorem foreign_operation_releases_waiter_witness:
  "\<exists>s' m' resp. ''seq-1'' \<noteq> [] \<and> ''seq-1'' \<in> set (pendingOps sample_node)
     \<and> ro_Type (txn_operation [] [] [] ''seq-1'') = ''TXN'' \<and> ro_SeqNum (txn_operation [] [] [] ''seq-1'') = ''seq-1''
     \<and> txnUnlocked 5 [] [] [] (mem_etcd sample_node) = (m', Inr resp)
     \<and> mem_Txn_finish WaitClosed ''seq-1'' (applyOperation rev 5 (txn_operation [] [] [] ''seq-1'') sample_node)
         = Some (s', Inr resp)"
proof -
  have h: "''seq-1'' \<noteq> []" "''seq-1'' \<in> set (pendingOps sample_node)"
      "ro_Type (txn_operation [] [] [] ''seq-1'') = ''TXN''" "ro_SeqNum (txn_operation [] [] [] ''seq-1'') = ''seq-1''"
    by (simp_all add: sample_node_def txn_operation_def)
  have t: "txnUnlocked 5 (ro_Compares (txn_operation [] [] [] ''seq-1'')) (ro_ThenOps (txn_operation [] [] [] ''seq-1''))
      (ro_ElseOps (txn_operation [] [] [] ''seq-1'')) (mem_etcd sample_node)
      = (mem_etcd sample_node, Inr \<lparr>tr_Succeeded = True, tr_Responses = [], tr_Revision = revision (mem_etcd sample_node)\<rparr>)"
    by (simp add: txn_operation_def zero_raft_operation_def txnUnlocked_def)
  have e: "ro_Compares (txn_operation [] [] [] ''seq-1'') = []" "ro_ThenOps (txn_operation [] [] [] ''seq-1'') = []"
      "ro_ElseOps (txn_operation [] [] [] ''seq-1'') = []"
    by (simp_all add: txn_operation_def)
  show ?thesis
    using foreign_operation_releases_waiter [OF h t, of rev] h t unfolding e by blast
qed

text \<open>
  C25: a put whose proposal is committed next returns on its node with the next revision.  The entry it
  returns as the previous one is the entry it has just stored.
\<close>

theorem put_call_end_to_end:
  assumes "op_codec_ok c" "pb_enabled c" "me_inv (mem_etcd s)"
    "mem_PutWithLease_start c ProposeSent key val leaseID s = (s1, Inr sq)"
    "serializeOperation c (put_operation key val leaseID sq) = Inr data"
    "handle_commit c sc gobDecode file order now scheds (Some [data]) s1 = Some s2"
  shows "proposeC s1 = proposeC s @ [data] \<and>
    mem_PutWithLease_finish WaitClosed sq key s2
      = Some (s2, Inr (revision (mem_etcd s) + 1,
                       Some (next_kv key val leaseID (revision (mem_etcd s) + 1) (sm_Get (kvData (mem_etcd s)) key))))"
proof -
  let ?op = "put_operation key val leaseID sq"
  have sq: "sq = seq_name (seqNum s + 1)" and s1: "s1 = s\<lparr>seqNum := seqNum s + 1, pendingOps := List.insert sq (pendingOps s),
      proposeC := proposeC s @ [data]\<rparr>"
    using assms(4,5) by (auto simp: mem_PutWithLease_start_def submit_def Let_def propose_def split: sum.splits)
  have wire: "wire_ok ?op" "no_limits (ro_ThenOps ?op)" "no_limits (ro_ElseOps ?op)"
    by (simp_all add: wire_ok_def put_operation_def zero_raft_operation_def no_limits_def)
  have "s2 = applyOperation order now ?op s1"
    using assms(6) deserialize_serialize [OF assms(1,2) wire(1) assms(5)] applyOperation_roundtrip [OF wire]
    by (simp add: handle_commit_def applyBatch_def)
  moreover have "sq \<in> set (pendingOps s1)" "sq \<noteq> []"
    by (simp_all add: s1 sq)
  ultimately have "sq \<in> set (closedOps s2)" "mem_etcd s2 = fst (putDirect key val leaseID (mem_etcd s))"
    by (simp_all add: applyOperation_def apply_effect_def put_operation_def notify_waiter_def s1)
  then show ?thesis
    using assms(3) by (simp add: mem_PutWithLease_finish_def await_commit_def putDirect_store me_invD s1)
qed

definition sample_put_codec :: op_codec where
  "sample_put_codec = \<lparr>pb_enabled = True,
     pb_Marshal = (\<lambda>x. if x = raftOperationToProto (put_operation ''k'' ''v'' 0 ''seq-1'') then Some ''x'' else None),
     pb_Unmarshal = (\<lambda>d. if d = ''x'' then Some (raftOperationToProto (put_operation ''k'' ''v'' 0 ''seq-1'')) else None),
     alt_Marshal = (\<lambda>_. None), alt_Unmarshal = (\<lambda>_. None)\<rparr>"

theorem put_call_end_to_end_witness:
  "op_codec_ok sample_put_codec \<and> pb_enabled sample_put_codec \<and> me_inv (mem_etcd sample_empty_node) \<and>
   (\<exists>s1 s2. mem_PutWithLease_start sample_put_codec ProposeSent ''k'' ''v'' 0 sample_empty_node = (s1, Inr ''seq-1'')
     \<and> handle_commit sample_put_codec sample_snapshot_codec (\<lambda>_. None) NoSnapshot rev 5 [] (Some [''PB:x'']) s1 = Some s2
     \<and> mem_PutWithLease_finish WaitClosed ''seq-1'' ''k'' s2
         = Some (s2, Inr (1, Some (next_kv ''k'' ''v'' 0 1 None))))"
proof -
  have c: "op_codec_ok sample_put_codec" "pb_enabled sample_put_codec"
    by (simp_all add: op_codec_ok_def sample_put_codec_def)
  have ser: "serializeOperation sample_put_codec (put_operation ''k'' ''v'' 0 ''seq-1'') = Inr ''PB:x''"
    by (simp add: serializeOperation_def sample_put_codec_def)
  have num: "seq_name 1 = ''seq-1''"
    by (simp add: seq_name_def show_int_def show_nat.simps char_of_def bit_0)
  obtain s1 where s1: "mem_PutWithLease_start sample_put_codec ProposeSent ''k'' ''v'' 0 sample_empty_node = (s1, Inr ''seq-1'')"
    by (simp add: mem_PutWithLease_start_def submit_def Let_def propose_def num ser sample_empty_node_def)
  obtain s2 where s2: "handle_commit sample_put_codec sample_snapshot_codec (\<lambda>_. None) NoSnapshot rev 5 [] (Some [''PB:x'']) s1 = Some s2"
    by (simp add: handle_commit_def deserializeOperation_def sample_put_codec_def)
  have inv: "me_inv (mem_etcd sample_empty_node)" "revision (mem_etcd sample_empty_node) = 0"
      "sm_Get (kvData (mem_etcd sample_empty_node)) ''k'' = None"
    by (simp_all add: sample_empty_node_def) (simp_all add: NewMemoryEtcd_def sm.get_empty)
  show ?thesis
    using put_call_end_to_end [OF c inv(1) s1 ser s2] c inv s1 s2 by auto
qed

end
