(* ===== verification/Btree_Interface.thy ===== *)
theory Btree_Interface
  imports Map_Interface "HOL-Library.RBT"
begin

text \<open>
  The ordered tree of \<open>github.com/google/btree\<close>, which the MVCC store builds on.  The package is not part of
  the repository: a tree is a parameter, a record of its operations, and what its documentation promises is
  the locale \<open>ordered_map\<close>: lookups after insertions and deletions, and iteration in increasing key order.
  Stored items are pointers that the MVCC store updates in place without touching their keys; here such an
  update replaces the item.  Red-black trees of the library satisfy the contract (\<open>interpretation rb\<close>) and
  serve as the concrete tree where one is needed.
\<close>

locale ordered_map =
  fixes empty :: "'t"
    and get :: "'t \<Rightarrow> 'k :: linorder \<Rightarrow> 'v option"
    and put :: "'k \<Rightarrow> 'v \<Rightarrow> 't \<Rightarrow> 't"
    and del :: "'k \<Rightarrow> 't \<Rightarrow> 't"
    and ascend :: "'t \<Rightarrow> ('k \<times> 'v) list"
    and ascend_ge :: "'k \<Rightarrow> 't \<Rightarrow> ('k \<times> 'v) list"
    and len :: "'t \<Rightarrow> nat"
  assumes get_new: "get empty k = None"
    and get_insert: "get (put k v t) = (get t)(k \<mapsto> v)"
    and get_delete: "get (del k t) = (get t)(k := None)"
    and ascend_sorted: "sorted (map fst (ascend t))"
    and ascend_distinct: "distinct (map fst (ascend t))"
    and ascend_get: "map_of (ascend t) = get t"
    and ascend_ge_eq: "ascend_ge k t = filter (\<lambda>(k', v). k \<le> k') (ascend t)"
    and len_eq: "len t = length (ascend t)"
begin

lemma mem_ascend: "(k, v) \<in> set (ascend t) \<longleftrightarrow> get t k = Some v"
  using ascend_distinct [of t] ascend_get [of t] by (metis gm_set_entries)

lemma mem_ascend_ge: "(k, v) \<in> set (ascend_ge k0 t) \<longleftrightarrow> get t k = Some v \<and> k0 \<le> k"
  by (auto simp: ascend_ge_eq mem_ascend)

lemma ascend_unique:
  assumes "get t = get t'"
  shows "ascend t = ascend t'"
proof (rule map_inj_on [where f = fst])
  have "set (map fst (ascend s)) = dom (get s)" for s
    using ascend_get [of s] by (metis dom_map_of_conv_image_fst list.set_map)
  with assms show "map fst (ascend t) = map fst (ascend t')"
    using ascend_sorted ascend_distinct by (metis sorted_distinct_set_unique)
  have "set (ascend t') = set (ascend t)"
    using assms by (auto simp: mem_ascend)
  then show "inj_on fst (set (ascend t) \<union> set (ascend t'))"
    using ascend_distinct [of t] by (simp add: distinct_map)
qed

lemma ascend_keys: "map fst (ascend t) = sorted_list_of_set (dom (get t))"
proof -
  have "set (map fst (ascend t)) = dom (get t)"
    using ascend_get [of t] by (metis dom_map_of_conv_image_fst list.set_map)
  then show ?thesis
    using ascend_sorted [of t] ascend_distinct [of t]
    by (metis sorted_list_of_set.idem_if_sorted_distinct)
qed

end

text \<open>Every ordered map is a map in the sense of \<open>kv_map\<close>, without an invariant of its own.\<close>

sublocale ordered_map \<subseteq> kv: kv_map empty get put del ascend "\<lambda>_. True"
  by unfold_locales (simp_all add: get_new get_insert get_delete ascend_distinct ascend_get)

section \<open>Trees as parameters\<close>

record ('t, 'k, 'v) btree =
  bt_New :: 't
  bt_Get :: "'t \<Rightarrow> 'k \<Rightarrow> 'v option"
  bt_ReplaceOrInsert :: "'k \<Rightarrow> 'v \<Rightarrow> 't \<Rightarrow> 't"
  bt_Delete :: "'k \<Rightarrow> 't \<Rightarrow> 't"
  bt_Ascend :: "'t \<Rightarrow> ('k \<times> 'v) list"
  bt_AscendGreaterOrEqual :: "'k \<Rightarrow> 't \<Rightarrow> ('k \<times> 'v) list"
  bt_Len :: "'t \<Rightarrow> nat"

definition btree_ok :: "('t, 'k :: linorder, 'v) btree \<Rightarrow> bool" where
  "btree_ok B \<longleftrightarrow> ordered_map (bt_New B) (bt_Get B) (bt_ReplaceOrInsert B) (bt_Delete B) (bt_Ascend B)
     (bt_AscendGreaterOrEqual B) (bt_Len B)"

section \<open>Tree laws as rewrite rules\<close>

lemma btree_simps:
  assumes "btree_ok B"
  shows "bt_Get B (bt_New B) k = None"
    "bt_Get B (bt_ReplaceOrInsert B k v t) = (bt_Get B t)(k \<mapsto> v)"
    "bt_Get B (bt_Delete B k t) = (bt_Get B t)(k := None)"
    "(k, v) \<in> set (bt_Ascend B t) \<longleftrightarrow> bt_Get B t k = Some v"
    "bt_AscendGreaterOrEqual B k t = filter (\<lambda>(k', v). k \<le> k') (bt_Ascend B t)"
    "sorted (map fst (bt_Ascend B t))" "distinct (map fst (bt_Ascend B t))"
    "bt_Len B t = length (bt_Ascend B t)"
proof -
  note om = assms [unfolded btree_ok_def]
  show "bt_Get B (bt_New B) k = None"
    by (rule ordered_map.get_new [OF om])
  show "bt_Get B (bt_ReplaceOrInsert B k v t) = (bt_Get B t)(k \<mapsto> v)"
    by (rule ordered_map.get_insert [OF om])
  show "bt_Get B (bt_Delete B k t) = (bt_Get B t)(k := None)"
    by (rule ordered_map.get_delete [OF om])
  show "(k, v) \<in> set (bt_Ascend B t) \<longleftrightarrow> bt_Get B t k = Some v"
    by (rule ordered_map.mem_ascend [OF om])
  show "bt_AscendGreaterOrEqual B k t = filter (\<lambda>(k', v). k \<le> k') (bt_Ascend B t)"
    by (rule ordered_map.ascend_ge_eq [OF om])
  show "sorted (map fst (bt_Ascend B t))" "distinct (map fst (bt_Ascend B t))" "bt_Len B t = length (bt_Ascend B t)"
    by (rule ordered_map.ascend_sorted [OF om] ordered_map.ascend_distinct [OF om] ordered_map.len_eq [OF om])+
qed

section \<open>Red-black trees satisfy the contract\<close>

definition rb_ascend_ge :: "'k :: linorder \<Rightarrow> ('k, 'v) rbt \<Rightarrow> ('k \<times> 'v) list" where
  "rb_ascend_ge k t = filter (\<lambda>(k', v). k \<le> k') (RBT.entries t)"

definition rb_len :: "('k :: linorder, 'v) rbt \<Rightarrow> nat" where
  "rb_len t = length (RBT.entries t)"

interpretation rb: ordered_map RBT.empty RBT.lookup RBT.insert RBT.delete RBT.entries rb_ascend_ge rb_len
  by unfold_locales
     (simp_all add: RBT.sorted_entries RBT.distinct_entries RBT.map_of_entries rb_ascend_ge_def rb_len_def)

definition rb_tree :: "(('k :: linorder, 'v) rbt, 'k, 'v) btree" where
  "rb_tree = \<lparr>bt_New = RBT.empty, bt_Get = RBT.lookup, bt_ReplaceOrInsert = RBT.insert, bt_Delete = RBT.delete,
     bt_Ascend = RBT.entries, bt_AscendGreaterOrEqual = rb_ascend_ge, bt_Len = rb_len\<rparr>"

lemma rb_tree_ok [simp]: "btree_ok rb_tree"
  by (simp add: btree_ok_def rb_tree_def rb.ordered_map_axioms)

end
