(* ===== verification/Bytes.thy ===== *)
theory Bytes
  imports Prelude
begin

text \<open>
  Big-endian integers (\<open>encoding/binary\<close>) and the casts between \<open>int64\<close> and \<open>uint64\<close>.  The codecs of the
  MVCC store and of the Raft log are built from these.  Facts: decoding inverts encoding, both ways, and
  the byte order of encodings of one width is the order of the numbers, which is what makes them usable as
  ordered storage keys.
\<close>

fun be_bytes :: "nat \<Rightarrow> nat \<Rightarrow> string" where
  "be_bytes 0 n = []"
| "be_bytes (Suc w) n = be_bytes w (n div 256) @ [char_of (n mod 256)]"

definition be_val :: "string \<Rightarrow> nat" where
  "be_val s = foldl (\<lambda>acc c. acc * 256 + of_char c) 0 s"

definition uint64 :: "int \<Rightarrow> nat" where
  "uint64 n = nat (n mod 2 ^ 64)"

definition int64 :: "nat \<Rightarrow> int" where
  "int64 n = (if n < 2 ^ 63 then int n else int n - 2 ^ 64)"

definition int64_range :: "int \<Rightarrow> bool" where
  "int64_range n \<longleftrightarrow> - (2 ^ 63) \<le> n \<and> n < 2 ^ 63"

definition PutUint64 :: "nat \<Rightarrow> string" where
  "PutUint64 n = be_bytes 8 n"

definition Uint64 :: "string \<Rightarrow> nat" where
  "Uint64 s = be_val (take 8 s)"

definition PutUint32 :: "nat \<Rightarrow> string" where
  "PutUint32 n = be_bytes 4 n"

definition Uint32 :: "string \<Rightarrow> nat" where
  "Uint32 s = be_val (take 4 s)"

lemma length_be_bytes [simp]: "length (be_bytes w n) = w"
  by (induction w n rule: be_bytes.induct) simp_all

lemma of_char_less: "(of_char c :: nat) < 256"
  by simp

lemma be_val_Nil [simp]: "be_val [] = 0"
  by (simp add: be_val_def)

lemma be_val_snoc [simp]: "be_val (s @ [c]) = be_val s * 256 + of_char c"
  by (simp add: be_val_def)

lemma be_val_foldl: "foldl (\<lambda>acc c. acc * 256 + of_char c) a s = a * 256 ^ length s + be_val s"
proof (induction s arbitrary: a)
  case (Cons c s)
  show ?case
    using Cons.IH [of "a * 256 + of_char c"] Cons.IH [of "of_char c"]
    by (simp add: be_val_def algebra_simps)
qed simp

lemma be_val_Cons: "be_val (c # s) = of_char c * 256 ^ length s + be_val s"
  using be_val_foldl [of "of_char c" s] by (simp add: be_val_def)

lemma be_val_append: "be_val (s @ t) = be_val s * 256 ^ length t + be_val t"
  by (induction s) (simp_all add: be_val_Cons algebra_simps power_add)

lemma be_val_bound: "be_val s < 256 ^ length s"
proof (induction s)
  case (Cons c s)
  have "of_char c * 256 ^ length s + be_val s < (of_char c + 1) * 256 ^ length s"
    using Cons by simp
  also have "\<dots> \<le> 256 * 256 ^ length s"
  proof (rule mult_right_mono)
    show "of_char c + 1 \<le> (256 :: nat)"
      using of_char_less [of c] by linarith
  qed simp
  finally show ?case
    by (simp add: be_val_Cons)
qed simp

lemma be_val_bytes: "be_val (be_bytes w n) = n mod 256 ^ w"
proof (induction w n rule: be_bytes.induct)
  case (2 w n)
  have "n mod 256 ^ Suc w = (n div 256) mod 256 ^ w * 256 + n mod 256"
    by (simp add: mod_mult2_eq [of n 256 "256 ^ w"] mult.commute)
  with 2 show ?case
    by simp
qed simp

lemma be_bytes_val: "length s = w \<Longrightarrow> be_bytes w (be_val s) = s"
proof (induction w arbitrary: s)
  case (Suc w)
  then obtain t c where s: "s = t @ [c]" "length t = w"
    by (metis length_Suc_conv_rev)
  have "(be_val t * 256 + of_char c) div 256 = be_val t" "(be_val t * 256 + of_char c) mod 256 = of_char c"
    by simp_all
  with Suc.IH [OF s(2)] s show ?case
    by simp
qed simp

text \<open>The order of equal-length byte strings is the order of their values.\<close>

lemma be_val_less_iff: "length s = length t \<Longrightarrow> s < t \<longleftrightarrow> be_val s < be_val t"
proof (induction s t rule: list_induct2)
  case (Cons c s d t)
  have s: "be_val s < 256 ^ length t" and t: "be_val t < 256 ^ length t"
    using be_val_bound [of s] be_val_bound [of t] Cons.hyps by simp_all
  have step: "a * p + x < b * p + y" if "a < b" "x < p" for a b x y p :: nat
  proof -
    have "a * p + x < (a + 1) * p"
      using that(2) by simp
    also have "\<dots> \<le> b * p"
      using that(1) by (intro mult_right_mono) simp_all
    finally show ?thesis
      by simp
  qed
  have eq: "of_char c = (of_char d :: nat) \<longleftrightarrow> c = d"
    by simp
  show ?case
  proof (cases "of_char c :: nat" "of_char d :: nat" rule: linorder_cases)
    case less
    then show ?thesis
      using step [OF less s, of "be_val t"] Cons.hyps by (simp add: be_val_Cons less_char_def)
  next
    case equal
    with eq Cons show ?thesis
      by (simp add: be_val_Cons)
  next
    case greater
    then have "be_val (d # t) < be_val (c # s)" "\<not> c # s < d # t"
      using step [OF greater t, of "be_val s"] Cons.hyps by (auto simp: be_val_Cons less_char_def)
    then show ?thesis
      by simp
  qed
qed simp

lemma be_bytes_less_iff:
  assumes "a < 256 ^ w" "b < 256 ^ w"
  shows "be_bytes w a < be_bytes w b \<longleftrightarrow> a < b"
  using assms be_val_less_iff [of "be_bytes w a" "be_bytes w b"] by (simp add: be_val_bytes)

lemma uint64_bound [simp]: "uint64 n < 18446744073709551616"
  by (simp add: uint64_def nat_less_iff)

lemma int64_uint64: "int64_range n \<Longrightarrow> int64 (uint64 n) = n"
proof (cases "0 \<le> n")
  case True
  then show "int64_range n \<Longrightarrow> ?thesis"
    by (simp add: int64_def uint64_def int64_range_def nat_less_iff)
next
  case False
  assume range: "int64_range n"
  have "n mod 2 ^ 64 = (n + 2 ^ 64) mod 2 ^ 64"
    by simp
  also have "\<dots> = n + 2 ^ 64"
    using range False by (intro mod_pos_pos_trivial) (simp_all add: int64_range_def)
  finally show ?thesis
    using range False by (simp add: int64_def uint64_def int64_range_def nat_less_iff)
qed

lemma Uint64_PutUint64: "n < 18446744073709551616 \<Longrightarrow> Uint64 (PutUint64 n @ rest) = n"
  by (simp add: Uint64_def PutUint64_def be_val_bytes)

lemma Uint32_PutUint32: "n < 4294967296 \<Longrightarrow> Uint32 (PutUint32 n @ rest) = n"
  by (simp add: Uint32_def PutUint32_def be_val_bytes)

lemma length_PutUint [simp]: "length (PutUint64 n) = 8" "length (PutUint32 n) = 4"
  by (simp_all add: PutUint64_def PutUint32_def)

lemma int64_Uint64_roundtrip: "int64_range n \<Longrightarrow> int64 (Uint64 (PutUint64 (uint64 n) @ rest)) = n"
  by (simp add: Uint64_PutUint64 int64_uint64)

lemma PutUint64_less_iff:
  "a < 18446744073709551616 \<Longrightarrow> b < 18446744073709551616 \<Longrightarrow> PutUint64 a < PutUint64 b \<longleftrightarrow> a < b"
  by (simp add: PutUint64_def be_bytes_less_iff)

text \<open>Comparing concatenations whose heads have the same length.\<close>

lemma append_less_iff:
  fixes s t u v :: string
  shows "length s = length t \<Longrightarrow> s @ u < t @ v \<longleftrightarrow> s < t \<or> s = t \<and> u < v"
  by (induction s t rule: list_induct2) auto

end
