(* ===== verification/Mvcc_Revision.thy ===== *)
theory Mvcc_Revision
  imports Bytes
begin

text \<open>
  Revisions of the MVCC store (\<open>internal/mvcc/revision.go\<close>) and its versioned entries with their byte
  format (\<open>key_value.go\<close>).  \<open>Revision\<close> is an instance of the class \<open>linorder\<close> whose order is \<open>Compare\<close>.  Facts:
  the encodings round-trip, and encoded revisions sort as revisions do.
\<close>

section \<open>Revisions\<close>

datatype Revision = Revision (Main: int) (Sub: int)

definition Zero :: Revision where
  "Zero = Revision 0 0"

definition rev_Compare :: "Revision \<Rightarrow> Revision \<Rightarrow> int" where
  "rev_Compare r other =
     (if Main r < Main other then -1
      else if Main r > Main other then 1
      else if Sub r < Sub other then -1
      else if Sub r > Sub other then 1
      else 0)"

definition GreaterThan :: "Revision \<Rightarrow> Revision \<Rightarrow> bool" where
  "GreaterThan r other \<longleftrightarrow> rev_Compare r other > 0"

definition GreaterThanOrEqual :: "Revision \<Rightarrow> Revision \<Rightarrow> bool" where
  "GreaterThanOrEqual r other \<longleftrightarrow> rev_Compare r other \<ge> 0"

definition LessThan :: "Revision \<Rightarrow> Revision \<Rightarrow> bool" where
  "LessThan r other \<longleftrightarrow> rev_Compare r other < 0"

definition LessThanOrEqual :: "Revision \<Rightarrow> Revision \<Rightarrow> bool" where
  "LessThanOrEqual r other \<longleftrightarrow> rev_Compare r other \<le> 0"

definition IsZero :: "Revision \<Rightarrow> bool" where
  "IsZero r \<longleftrightarrow> Main r = 0 \<and> Sub r = 0"

definition RevisionSize :: nat where
  "RevisionSize = 16"

definition rev_Bytes :: "Revision \<Rightarrow> string" where
  "rev_Bytes r = PutUint64 (uint64 (Main r)) @ PutUint64 (uint64 (Sub r))"

text \<open>\<open>EncodeTo\<close> overwrites the first 16 bytes of a buffer; a shorter buffer makes it panic.\<close>

definition EncodeTo :: "Revision \<Rightarrow> string \<Rightarrow> string option" where
  "EncodeTo r buf =
     (if length buf < RevisionSize then None
      else Some (PutUint64 (uint64 (Main r)) @ PutUint64 (uint64 (Sub r)) @ drop RevisionSize buf))"

definition ParseRevision :: "string \<Rightarrow> Revision" where
  "ParseRevision b =
     (if length b < RevisionSize then Zero
      else Revision (int64 (Uint64 (take 8 b))) (int64 (Uint64 (take 8 (drop 8 b)))))"

definition NewRevision :: "int \<Rightarrow> int \<Rightarrow> Revision" where
  "NewRevision m s = Revision m s"

record RevisionRange =
  rr_Start :: Revision
  rr_End :: Revision

definition rr_Contains :: "RevisionRange \<Rightarrow> Revision \<Rightarrow> bool" where
  "rr_Contains rr r \<longleftrightarrow> GreaterThanOrEqual r (rr_Start rr) \<and> LessThan r (rr_End rr)"

text \<open>The generator: its state is the current revision.\<close>

type_synonym RevisionGenerator = Revision

definition NewRevisionGenerator :: "Revision \<Rightarrow> RevisionGenerator" where
  "NewRevisionGenerator start = start"

definition gen_Current :: "RevisionGenerator \<Rightarrow> Revision" where
  "gen_Current g = g"

definition gen_Next :: "RevisionGenerator \<Rightarrow> RevisionGenerator \<times> Revision" where
  "gen_Next g = (let g' = Revision (Main g + 1) 0 in (g', g'))"

definition gen_NextSub :: "RevisionGenerator \<Rightarrow> RevisionGenerator \<times> Revision" where
  "gen_NextSub g = (let g' = Revision (Main g) (Sub g + 1) in (g', g'))"

definition gen_SetMain :: "int \<Rightarrow> RevisionGenerator \<Rightarrow> RevisionGenerator" where
  "gen_SetMain m g = Revision m 0"

section \<open>The order of revisions\<close>

instantiation Revision :: linorder
begin

definition less_eq_Revision :: "Revision \<Rightarrow> Revision \<Rightarrow> bool" where
  "less_eq_Revision r other \<longleftrightarrow> Main r < Main other \<or> Main r = Main other \<and> Sub r \<le> Sub other"

definition less_Revision :: "Revision \<Rightarrow> Revision \<Rightarrow> bool" where
  "less_Revision r other \<longleftrightarrow> Main r < Main other \<or> Main r = Main other \<and> Sub r < Sub other"

instance
  by standard (auto simp: less_eq_Revision_def less_Revision_def intro: Revision.expand)

end

lemma revision_compare_simps [simp]:
  "GreaterThan r s \<longleftrightarrow> s < r" "GreaterThanOrEqual r s \<longleftrightarrow> s \<le> r"
  "LessThan r s \<longleftrightarrow> r < s" "LessThanOrEqual r s \<longleftrightarrow> r \<le> s"
  by (auto simp: GreaterThan_def GreaterThanOrEqual_def LessThan_def LessThanOrEqual_def rev_Compare_def
      less_eq_Revision_def less_Revision_def)

lemma Revision_less [simp]: "Revision a b < Revision c d \<longleftrightarrow> a < c \<or> a = c \<and> b < d"
  by (simp add: less_Revision_def)

lemma Revision_le [simp]: "Revision a b \<le> Revision c d \<longleftrightarrow> a < c \<or> a = c \<and> b \<le> d"
  by (simp add: less_eq_Revision_def)

lemma IsZero_iff [simp]: "IsZero r \<longleftrightarrow> r = Zero"
  by (cases r) (simp add: IsZero_def Zero_def)

lemma gen_Next_greater: "g < snd (gen_Next g)"
  by (cases g) (simp add: gen_Next_def Let_def)

section \<open>Entries\<close>

record mvcc_kv =
  mk_Key :: string
  mk_Value :: string
  mk_CreateRevision :: int
  mk_ModRevision :: int
  mk_Version :: int
  mk_Lease :: int

definition Clone :: "mvcc_kv option \<Rightarrow> mvcc_kv option" where
  "Clone kv =
     map_option (\<lambda>kv. \<lparr>mk_Key = mk_Key kv, mk_Value = mk_Value kv, mk_CreateRevision = mk_CreateRevision kv,
        mk_ModRevision = mk_ModRevision kv, mk_Version = mk_Version kv, mk_Lease = mk_Lease kv\<rparr>) kv"

definition mk_Size :: "mvcc_kv \<Rightarrow> nat" where
  "mk_Size kv = length (mk_Key kv) + length (mk_Value kv) + 32"

definition uint32_of :: "nat \<Rightarrow> nat" where
  "uint32_of n = n mod 2 ^ 32"

definition kv_Encode :: "mvcc_kv \<Rightarrow> string" where
  "kv_Encode kv =
     PutUint32 (uint32_of (length (mk_Key kv))) @ PutUint32 (uint32_of (length (mk_Value kv)))
     @ PutUint64 (uint64 (mk_CreateRevision kv)) @ PutUint64 (uint64 (mk_ModRevision kv))
     @ PutUint64 (uint64 (mk_Version kv)) @ PutUint64 (uint64 (mk_Lease kv))
     @ mk_Key kv @ mk_Value kv"

definition kv_Decode :: "string \<Rightarrow> mvcc_kv option" where
  "kv_Decode data =
     (if length data < 40 then None
      else
        let keyLen = Uint32 data;
            valueLen = Uint32 (drop 4 data)
        in if length data < 40 + keyLen + valueLen then None
           else Some
             \<lparr>mk_Key = take keyLen (drop 40 data),
              mk_Value = take valueLen (drop (40 + keyLen) data),
              mk_CreateRevision = int64 (Uint64 (drop 8 data)),
              mk_ModRevision = int64 (Uint64 (drop 16 data)),
              mk_Version = int64 (Uint64 (drop 24 data)),
              mk_Lease = int64 (Uint64 (drop 32 data))\<rparr>)"

lemma Clone_id [simp]: "Clone kv = kv"
  by (cases kv) (simp_all add: Clone_def)

definition kv_encodable :: "mvcc_kv \<Rightarrow> bool" where
  "kv_encodable kv \<longleftrightarrow> length (mk_Key kv) < 2 ^ 32 \<and> length (mk_Value kv) < 2 ^ 32
     \<and> int64_range (mk_CreateRevision kv) \<and> int64_range (mk_ModRevision kv)
     \<and> int64_range (mk_Version kv) \<and> int64_range (mk_Lease kv)"

lemma Uint64_append: "length s = 8 \<Longrightarrow> Uint64 (s @ rest) = be_val s"
  by (simp add: Uint64_def)

section \<open>Properties\<close>

lemma parse_rev_bytes:
  assumes "int64_range (Main r)" "int64_range (Sub r)"
  shows "ParseRevision (rev_Bytes r) = r" "length (rev_Bytes r) = RevisionSize"
proof -
  have "Uint64 (take 8 (rev_Bytes r)) = uint64 (Main r)" "Uint64 (take 8 (drop 8 (rev_Bytes r))) = uint64 (Sub r)"
    using Uint64_PutUint64 [of _ "[]"] by (simp_all add: rev_Bytes_def)
  then show "ParseRevision (rev_Bytes r) = r"
    using assms by (simp add: ParseRevision_def rev_Bytes_def RevisionSize_def int64_uint64)
  show "length (rev_Bytes r) = RevisionSize"
    by (simp add: rev_Bytes_def RevisionSize_def)
qed

lemma rev_bytes_less:
  assumes "int64_range (Main r)" "int64_range (Sub r)" "int64_range (Main q)" "int64_range (Sub q)"
    "0 \<le> Main r" "0 \<le> Sub r" "0 \<le> Main q" "0 \<le> Sub q"
  shows "rev_Bytes r < rev_Bytes q \<longleftrightarrow> r < q"
proof -
  have u: "uint64 n = nat n" if "0 \<le> n" "int64_range n" for n
    using that by (simp add: uint64_def int64_range_def)
  have "PutUint64 (uint64 a) = PutUint64 (uint64 b) \<longleftrightarrow> uint64 a = uint64 b" for a b
    by (metis Uint64_PutUint64 append_Nil2 uint64_bound)
  then have "rev_Bytes r < rev_Bytes q \<longleftrightarrow> uint64 (Main r) < uint64 (Main q)
      \<or> uint64 (Main r) = uint64 (Main q) \<and> uint64 (Sub r) < uint64 (Sub q)"
    by (simp add: rev_Bytes_def append_less_iff PutUint64_less_iff)
  then show ?thesis
    using assms by (auto simp: u less_Revision_def nat_less_eq_zless eq_nat_nat_iff)
qed

text \<open>
  A revision survives encoding and parsing, the encoding has 16 bytes, and for non-negative revisions
  the byte order of encodings is the revision order, so a byte-ordered store iterates revisions in order.
\<close>

theorem revision_bytes:
  assumes "int64_range (Main r)" "int64_range (Sub r)" "int64_range (Main q)" "int64_range (Sub q)"
  shows "ParseRevision (rev_Bytes r) = r \<and> length (rev_Bytes r) = RevisionSize
    \<and> (0 \<le> Main r \<and> 0 \<le> Sub r \<and> 0 \<le> Main q \<and> 0 \<le> Sub q \<longrightarrow>
        (rev_Bytes r < rev_Bytes q) = LessThan r q)"
  using assms parse_rev_bytes rev_bytes_less by simp

theorem revision_bytes_witness:
  "int64_range (Main (Revision 3 1)) \<and> int64_range (Sub (Revision 3 1)) \<and> int64_range (Main (Revision 3 2))
   \<and> int64_range (Sub (Revision 3 2)) \<and> ParseRevision (rev_Bytes (Revision 3 1)) = Revision 3 1
   \<and> (rev_Bytes (Revision 3 1) < rev_Bytes (Revision 3 2)) = LessThan (Revision 3 1) (Revision 3 2)"
proof -
  have r: "int64_range (Main (Revision 3 1))" "int64_range (Sub (Revision 3 1))" "int64_range (Main (Revision 3 2))"
      "int64_range (Sub (Revision 3 2))"
    by (simp_all add: int64_range_def)
  show ?thesis
    using revision_bytes [OF r] r by simp
qed

text \<open>
  Decoding the encoding of an entry gives the entry back, also with bytes following it, and data that
  is too short for the header or for the lengths it announces is rejected.
\<close>

theorem kv_codec_roundtrip:
  assumes "kv_encodable kv"
  shows "kv_Decode (kv_Encode kv @ rest) = Some kv
    \<and> (\<forall>n < length (kv_Encode kv). kv_Decode (take n (kv_Encode kv)) = None)"
proof -
  let ?k = "length (mk_Key kv)" and ?v = "length (mk_Value kv)"
  let ?hd = "PutUint32 (uint32_of ?k) @ PutUint32 (uint32_of ?v)
     @ PutUint64 (uint64 (mk_CreateRevision kv)) @ PutUint64 (uint64 (mk_ModRevision kv))
     @ PutUint64 (uint64 (mk_Version kv)) @ PutUint64 (uint64 (mk_Lease kv))"
  have enc: "kv_Encode kv = ?hd @ mk_Key kv @ mk_Value kv" and len: "length (kv_Encode kv) = 40 + ?k + ?v"
    by (simp_all add: kv_Encode_def)
  have u: "uint32_of ?k = ?k" "uint32_of ?v = ?v" "?k < 4294967296" "?v < 4294967296"
    using assms by (simp_all add: kv_encodable_def uint32_of_def)
  have lens: "Uint32 (?hd @ x) = ?k" "Uint32 (drop 4 (?hd @ x)) = ?v" for x
    using u by (simp_all add: Uint32_PutUint32)
  have "kv_Decode (kv_Encode kv @ rest) = Some kv"
    using assms lens [of "mk_Key kv @ mk_Value kv @ rest"] u
    by (simp add: enc kv_Decode_def kv_encodable_def int64_Uint64_roundtrip Let_def)
  moreover have "kv_Decode (take n (kv_Encode kv)) = None" if "n < length (kv_Encode kv)" for n
  proof (cases "n < 40")
    case False
    then have "take n (kv_Encode kv) = ?hd @ take (n - 40) (mk_Key kv @ mk_Value kv)"
      by (simp add: enc)
    with False that lens [of "take (n - 40) (mk_Key kv @ mk_Value kv)"] len show ?thesis
      by (simp add: kv_Decode_def Let_def)
  qed (simp add: kv_Decode_def min_less_iff_disj)
  ultimately show ?thesis
    by blast
qed

theorem kv_codec_roundtrip_witness:
  "kv_encodable \<lparr>mk_Key = ''k'', mk_Value = ''v'', mk_CreateRevision = 1, mk_ModRevision = 2, mk_Version = 2, mk_Lease = -1\<rparr>
   \<and> kv_Decode (kv_Encode \<lparr>mk_Key = ''k'', mk_Value = ''v'', mk_CreateRevision = 1, mk_ModRevision = 2, mk_Version = 2,
        mk_Lease = -1\<rparr> @ ''tail'')
     = Some \<lparr>mk_Key = ''k'', mk_Value = ''v'', mk_CreateRevision = 1, mk_ModRevision = 2, mk_Version = 2, mk_Lease = -1\<rparr>"
proof -
  have e: "kv_encodable \<lparr>mk_Key = ''k'', mk_Value = ''v'', mk_CreateRevision = 1, mk_ModRevision = 2, mk_Version = 2,
      mk_Lease = -1\<rparr>"
    by (simp add: kv_encodable_def int64_range_def)
  show ?thesis
    using kv_codec_roundtrip [OF e, of "''tail''"] e by blast
qed

end
