(* ===== verification/Mvcc_KeyIndex.thy ===== *)
theory Mvcc_KeyIndex
  imports Btree_Interface Mvcc_Revision
begin

text \<open>
  The key index of the MVCC store, \<open>internal/mvcc/key_index.go\<close>: for every key the revisions at which it
  was written, in generations, each ended by a deletion.  Facts: the binary search and the generation walk
  find the newest revision at or before a given one, every update keeps a key's history strictly
  increasing, and what compaction keeps.
\<close>

section \<open>Generations\<close>

record Generation =
  g_Created :: Revision
  g_Revisions :: "Revision list"

definition gen_IsEmpty :: "Generation \<Rightarrow> bool" where
  "gen_IsEmpty g \<longleftrightarrow> length (g_Revisions g) = 0"

definition LastRevision :: "Generation \<Rightarrow> Revision" where
  "LastRevision g = (if length (g_Revisions g) = 0 then Zero else g_Revisions g ! (length (g_Revisions g) - 1))"

record KeyItem =
  ki_Key :: string
  ki_Generations :: "Generation list"
  ki_Modified :: Revision

definition CurrentGeneration :: "KeyItem \<Rightarrow> Generation option" where
  "CurrentGeneration ki =
     (if length (ki_Generations ki) = 0 then None
      else Some (ki_Generations ki ! (length (ki_Generations ki) - 1)))"

definition IsDeleted :: "KeyItem \<Rightarrow> bool" where
  "IsDeleted ki = (case CurrentGeneration ki of None \<Rightarrow> True | Some gen \<Rightarrow> gen_IsEmpty gen)"

section \<open>Searching\<close>

function bsearch_loop :: "Revision list \<Rightarrow> Revision \<Rightarrow> int \<Rightarrow> int \<Rightarrow> int \<Rightarrow> int" where
  "bsearch_loop revs target left right result =
     (if left \<le> right then
        let mid = (left + right) div 2
        in if LessThanOrEqual (revs ! nat mid) target then bsearch_loop revs target (mid + 1) right mid
           else bsearch_loop revs target left (mid - 1) result
      else result)"
  by auto
termination
  by (relation "measure (\<lambda>(_, _, left, right, _). nat (right - left + 1))") auto

declare bsearch_loop.simps [simp del]

definition binarySearchRevision :: "Revision list \<Rightarrow> Revision \<Rightarrow> int" where
  "binarySearchRevision revs target = bsearch_loop revs target 0 (int (length revs) - 1) (- 1)"

text \<open>The walk over the generations, newest first.\<close>

fun find_in_generations :: "Revision \<Rightarrow> Generation list \<Rightarrow> Revision" where
  "find_in_generations atRev [] = Zero"
| "find_in_generations atRev (gen # gens) =
     (if GreaterThan (g_Created gen) atRev then find_in_generations atRev gens
      else let idx = binarySearchRevision (g_Revisions gen) atRev
           in if 0 \<le> idx then g_Revisions gen ! nat idx else find_in_generations atRev gens)"

definition FindRevision :: "KeyItem \<Rightarrow> Revision \<Rightarrow> Revision" where
  "FindRevision ki atRev = find_in_generations atRev (rev (ki_Generations ki))"

section \<open>The index\<close>

type_synonym 't key_tree = "('t, string, KeyItem) btree"

definition NewKeyIndex :: "'t key_tree \<Rightarrow> 't" where
  "NewKeyIndex B = bt_New B"

definition idx_Get :: "'t key_tree \<Rightarrow> string \<Rightarrow> 't \<Rightarrow> KeyItem option" where
  "idx_Get B key idx = bt_Get B idx key"

definition GetRevision :: "'t key_tree \<Rightarrow> string \<Rightarrow> Revision \<Rightarrow> 't \<Rightarrow> Revision" where
  "GetRevision B key atRev idx = (case idx_Get B key idx of None \<Rightarrow> Zero | Some ki \<Rightarrow> FindRevision ki atRev)"

definition append_to_current :: "Revision \<Rightarrow> KeyItem \<Rightarrow> Generation list" where
  "append_to_current r ki =
     (let n = length (ki_Generations ki) - 1;
          gen = ki_Generations ki ! n
      in (ki_Generations ki)[n := gen\<lparr>g_Revisions := g_Revisions gen @ [r]\<rparr>])"

definition idx_Put :: "'t key_tree \<Rightarrow> string \<Rightarrow> Revision \<Rightarrow> 't \<Rightarrow> 't" where
  "idx_Put B key r idx =
     (case bt_Get B idx key of
        None \<Rightarrow>
          bt_ReplaceOrInsert B key
            \<lparr>ki_Key = key, ki_Generations = [\<lparr>g_Created = r, g_Revisions = [r]\<rparr>], ki_Modified = r\<rparr> idx
      | Some ki \<Rightarrow>
          let gens = (if IsDeleted ki then ki_Generations ki @ [\<lparr>g_Created = r, g_Revisions = [r]\<rparr>]
                      else append_to_current r ki)
          in bt_ReplaceOrInsert B key (ki\<lparr>ki_Generations := gens, ki_Modified := r\<rparr>) idx)"

definition idx_Delete :: "'t key_tree \<Rightarrow> string \<Rightarrow> Revision \<Rightarrow> 't \<Rightarrow> 't \<times> bool" where
  "idx_Delete B key r idx =
     (case bt_Get B idx key of
        None \<Rightarrow> (idx, False)
      | Some ki \<Rightarrow>
          if IsDeleted ki then (idx, False)
          else (bt_ReplaceOrInsert B key
                  (ki\<lparr>ki_Modified := r,
                      ki_Generations := append_to_current r ki @ [\<lparr>g_Created = r, g_Revisions = []\<rparr>]\<rparr>) idx, True))"

text \<open>Iteration with a callback that threads a state and says whether to go on.\<close>

fun ascend_loop :: "('i \<Rightarrow> 's \<Rightarrow> 's \<times> bool) \<Rightarrow> 'i list \<Rightarrow> 's \<Rightarrow> 's" where
  "ascend_loop fn [] st = st"
| "ascend_loop fn (i # is) st = (case fn i st of (st', continue) \<Rightarrow> if continue then ascend_loop fn is st' else st')"

definition current_revision :: "Revision \<Rightarrow> KeyItem \<Rightarrow> Revision" where
  "current_revision atRev ki =
     (if IsZero atRev then
        (case CurrentGeneration ki of
           Some gen \<Rightarrow> if gen_IsEmpty gen then Zero else LastRevision gen
         | None \<Rightarrow> Zero)
      else FindRevision ki atRev)"

definition idx_Range ::
    "'t key_tree \<Rightarrow> string \<Rightarrow> string option \<Rightarrow> Revision \<Rightarrow> (string \<Rightarrow> Revision \<Rightarrow> 's \<Rightarrow> 's \<times> bool) \<Rightarrow> 't \<Rightarrow> 's \<Rightarrow> 's" where
  "idx_Range B start end atRev fn idx st =
     ascend_loop
       (\<lambda>(_, ki) st.
          if (case end of None \<Rightarrow> False | Some e \<Rightarrow> e \<le> ki_Key ki) then (st, False)
          else
            let r = current_revision atRev ki
            in if \<not> IsZero r then fn (ki_Key ki) r st else (st, True))
       (bt_AscendGreaterOrEqual B start idx) st"

text \<open>The scan of one generation: how many revisions lie before the target.\<close>

fun keep_from :: "Revision \<Rightarrow> nat \<Rightarrow> Revision list \<Rightarrow> nat" where
  "keep_from atRev j [] = j"
| "keep_from atRev j (r # revs) = (if GreaterThanOrEqual r atRev then j else keep_from atRev (j + 1) revs)"

fun compact_generations :: "Revision \<Rightarrow> Generation list \<Rightarrow> Generation list \<times> int" where
  "compact_generations atRev [] = ([], 0)"
| "compact_generations atRev (gen # gens) =
     (let keepFrom = keep_from atRev 0 (g_Revisions gen);
          (newGens, removed) = compact_generations atRev gens
      in (if keepFrom < length (g_Revisions gen)
          then \<lparr>g_Created = g_Created gen, g_Revisions = drop keepFrom (g_Revisions gen)\<rparr> # newGens
          else newGens,
          int keepFrom + removed))"

definition compact_item :: "'t key_tree \<Rightarrow> Revision \<Rightarrow> KeyItem \<Rightarrow> 't \<times> KeyItem list \<times> int \<Rightarrow> 't \<times> KeyItem list \<times> int" where
  "compact_item B atRev ki = (\<lambda>(idx, keysToDelete, removed).
     let (newGens, n) = compact_generations atRev (ki_Generations ki)
     in if length newGens = 0 then (idx, keysToDelete @ [ki], removed + n)
        else (bt_ReplaceOrInsert B (ki_Key ki) (ki\<lparr>ki_Generations := newGens\<rparr>) idx, keysToDelete, removed + n))"

definition idx_Compact :: "'t key_tree \<Rightarrow> Revision \<Rightarrow> 't \<Rightarrow> 't \<times> int" where
  "idx_Compact B atRev idx =
     (let (idx', keysToDelete, removed) = fold (\<lambda>(_, ki). compact_item B atRev ki) (bt_Ascend B idx) (idx, [], 0)
      in (fold (\<lambda>ki. bt_Delete B (ki_Key ki)) keysToDelete idx', removed))"

definition idx_Len :: "'t key_tree \<Rightarrow> 't \<Rightarrow> nat" where
  "idx_Len B idx = bt_Len B idx"

definition RevisionCount :: "'t key_tree \<Rightarrow> 't \<Rightarrow> int" where
  "RevisionCount B idx =
     sum_list (map (\<lambda>(_, ki). sum_list (map (\<lambda>gen. int (length (g_Revisions gen))) (ki_Generations ki))) (bt_Ascend B idx))"

section \<open>Binary search\<close>

lemma sorted_split:
  assumes "sorted_wrt (<) (xs :: Revision list)"
  shows "filter (\<lambda>r. r \<le> t) xs = takeWhile (\<lambda>r. r \<le> t) xs"
  using assms
proof (induction xs)
  case (Cons x xs)
  show ?case
  proof (cases "x \<le> t")
    case False
    then have "\<not> y \<le> t" if "y \<in> set xs" for y
      using Cons.prems that by force
    with False show ?thesis
      by simp
  qed (use Cons in simp)
qed simp

text \<open>The position where the revisions pass the target.\<close>

abbreviation cut_at :: "Revision list \<Rightarrow> Revision \<Rightarrow> nat" where
  "cut_at revs target \<equiv> length (takeWhile (\<lambda>r. r \<le> target) revs)"

lemma cut_nth:
  assumes "sorted_wrt (<) revs" "i < length revs"
  shows "revs ! i \<le> target \<longleftrightarrow> i < cut_at revs target"
proof
  assume "i < cut_at revs target"
  then show "revs ! i \<le> target"
    by (metis nth_mem set_takeWhileD takeWhile_nth)
next
  assume le: "revs ! i \<le> target"
  show "i < cut_at revs target"
  proof (rule ccontr)
    assume "\<not> i < cut_at revs target"
    then have c: "cut_at revs target \<le> i" "cut_at revs target < length revs"
      using assms(2) by simp_all
    then have "revs ! cut_at revs target \<le> revs ! i"
      using assms by (metis le_neq_implies_less less_imp_le order_refl sorted_wrt_nth_less)
    with le nth_length_takeWhile [OF c(2)] show False
      by simp
  qed
qed

lemma bsearch_loop_correct:
  assumes "sorted_wrt (<) revs" "0 \<le> left" "left \<le> int (cut_at revs target)" "int (cut_at revs target) - 1 \<le> right"
    "right < int (length revs)" "result = left - 1"
  shows "bsearch_loop revs target left right result = int (cut_at revs target) - 1"
  using assms(2-)
proof (induction "nat (right - left + 1)" arbitrary: left right result rule: less_induct)
  case less
  let ?mid = "(left + right) div 2"
  show ?case
  proof (cases "left \<le> right")
    case True
    then have mid: "left \<le> ?mid" "?mid \<le> right"
      by simp_all
    then have nth: "revs ! nat ?mid \<le> target \<longleftrightarrow> nat ?mid < cut_at revs target"
      using less.prems by (intro cut_nth [OF assms(1)]) simp
    show ?thesis
    proof (cases "revs ! nat ?mid \<le> target")
      case le: True
      then have "bsearch_loop revs target (?mid + 1) right ?mid = int (cut_at revs target) - 1"
        using less.prems mid nth by (intro less.hyps) linarith+
      with True le show ?thesis
        by (subst bsearch_loop.simps) (simp add: Let_def)
    next
      case gt: False
      then have "bsearch_loop revs target left (?mid - 1) result = int (cut_at revs target) - 1"
        using less.prems mid nth by (intro less.hyps) linarith+
      with True gt show ?thesis
        by (subst bsearch_loop.simps) (simp add: Let_def)
    qed
  next
    case False
    with less.prems show ?thesis
      by (subst bsearch_loop.simps) simp
  qed
qed

lemma binarySearchRevision_cut:
  assumes "sorted_wrt (<) revs"
  shows "binarySearchRevision revs target = int (cut_at revs target) - 1"
proof -
  have "cut_at revs target \<le> length revs"
    by (rule length_takeWhile_le)
  then show ?thesis
    unfolding binarySearchRevision_def by (intro bsearch_loop_correct [OF assms]) linarith+
qed

section \<open>Key histories\<close>

text \<open>All revisions of a key, oldest first, and the newest one at or before a given revision.\<close>

definition all_revs :: "KeyItem \<Rightarrow> Revision list" where
  "all_revs ki = concat (map g_Revisions (ki_Generations ki))"

definition newest_upto :: "Revision \<Rightarrow> Revision list \<Rightarrow> Revision" where
  "newest_upto atRev revs = (let xs = filter (\<lambda>r. r \<le> atRev) revs in if xs = [] then Zero else last xs)"

definition gens_ok :: "Generation list \<Rightarrow> bool" where
  "gens_ok gens \<longleftrightarrow> sorted_wrt (<) (concat (map g_Revisions gens))
     \<and> (\<forall>g \<in> set gens. \<forall>r \<in> set (g_Revisions g). g_Created g \<le> r)"

lemma newest_upto_append:
  "newest_upto atRev (xs @ ys) = (if filter (\<lambda>r. r \<le> atRev) ys = [] then newest_upto atRev xs else newest_upto atRev ys)"
  by (simp add: newest_upto_def Let_def)

lemma find_in_generations_correct:
  assumes "gens_ok gens"
  shows "find_in_generations atRev (rev gens) = newest_upto atRev (concat (map g_Revisions gens))"
  using assms
proof (induction gens rule: rev_induct)
  case Nil
  then show ?case
    by (simp add: newest_upto_def)
next
  case (snoc g gens)
  let ?revs = "g_Revisions g"
  have ok: "gens_ok gens" and sorted: "sorted_wrt (<) ?revs" and created: "\<And>r. r \<in> set ?revs \<Longrightarrow> g_Created g \<le> r"
    using snoc.prems by (auto simp: gens_ok_def sorted_wrt_append)
  note split = sorted_split [OF sorted, of atRev] and bs = binarySearchRevision_cut [OF sorted, of atRev]
  show ?case
  proof (cases "filter (\<lambda>r. r \<le> atRev) ?revs = []")
    case True
    then have "binarySearchRevision ?revs atRev = -1"
      using bs split by simp
    with True snoc.IH [OF ok] show ?thesis
      by (simp add: newest_upto_append Let_def)
  next
    case False
    then have cut: "0 < cut_at ?revs atRev"
      using split by simp
    obtain r where "r \<in> set ?revs" "r \<le> atRev"
      using False by (metis filter_False)
    then have "\<not> g_Created g > atRev"
      using created by force
    moreover have "?revs ! (cut_at ?revs atRev - 1) = last (takeWhile (\<lambda>r. r \<le> atRev) ?revs)"
      using cut by (simp add: last_conv_nth takeWhile_nth)
    ultimately show ?thesis
      using False bs cut split
      by (simp add: newest_upto_append newest_upto_def Let_def nat_minus_as_int)
  qed
qed

lemma FindRevision_correct:
  "gens_ok (ki_Generations ki) \<Longrightarrow> FindRevision ki atRev = newest_upto atRev (all_revs ki)"
  by (simp add: FindRevision_def all_revs_def find_in_generations_correct)

section \<open>Updates of the index\<close>

definition index_ok :: "'t key_tree \<Rightarrow> 't \<Rightarrow> bool" where
  "index_ok B idx \<longleftrightarrow> (\<forall>k ki. bt_Get B idx k = Some ki \<longrightarrow>
     ki_Key ki = k \<and> ki_Generations ki \<noteq> [] \<and> gens_ok (ki_Generations ki))"

definition revs_of :: "'t key_tree \<Rightarrow> 't \<Rightarrow> string \<Rightarrow> Revision list" where
  "revs_of B idx k = (case bt_Get B idx k of None \<Rightarrow> [] | Some ki \<Rightarrow> all_revs ki)"

definition live_key :: "'t key_tree \<Rightarrow> 't \<Rightarrow> string \<Rightarrow> bool" where
  "live_key B idx k = (case bt_Get B idx k of None \<Rightarrow> False | Some ki \<Rightarrow> \<not> IsDeleted ki)"

lemma index_okD:
  assumes "index_ok B idx" "bt_Get B idx k = Some ki"
  shows "ki_Key ki = k" "ki_Generations ki \<noteq> []" "gens_ok (ki_Generations ki)"
  using assms by (auto simp: index_ok_def)

lemma index_ok_new [simp]: "btree_ok B \<Longrightarrow> index_ok B (NewKeyIndex B)"
  by (simp add: index_ok_def NewKeyIndex_def btree_simps)

lemma index_ok_insert:
  "btree_ok B \<Longrightarrow> index_ok B idx \<Longrightarrow> ki_Key ki = k \<Longrightarrow> ki_Generations ki \<noteq> [] \<Longrightarrow> gens_ok (ki_Generations ki) \<Longrightarrow>
     index_ok B (bt_ReplaceOrInsert B k ki idx)"
  by (simp add: index_ok_def btree_simps)

lemma sorted_revs_of: "index_ok B idx \<Longrightarrow> sorted_wrt (<) (revs_of B idx k)"
  by (auto simp: revs_of_def index_ok_def gens_ok_def all_revs_def split: option.splits)

lemma GetRevision_newest:
  "index_ok B idx \<Longrightarrow> GetRevision B k atRev idx = newest_upto atRev (revs_of B idx k)"
  by (auto simp: GetRevision_def idx_Get_def revs_of_def FindRevision_correct index_okD newest_upto_def
      split: option.splits)

lemma CurrentGeneration_last: "ki_Generations ki \<noteq> [] \<Longrightarrow> CurrentGeneration ki = Some (last (ki_Generations ki))"
  by (simp add: CurrentGeneration_def last_conv_nth)

lemma IsDeleted_last: "ki_Generations ki \<noteq> [] \<Longrightarrow> IsDeleted ki \<longleftrightarrow> g_Revisions (last (ki_Generations ki)) = []"
  by (simp add: IsDeleted_def CurrentGeneration_last gen_IsEmpty_def)

lemma append_to_current_last:
  assumes "ki_Generations ki \<noteq> []"
  shows "append_to_current r ki = butlast (ki_Generations ki)
    @ [(last (ki_Generations ki))\<lparr>g_Revisions := g_Revisions (last (ki_Generations ki)) @ [r]\<rparr>]"
proof -
  let ?gs = "ki_Generations ki"
  have "?gs[length ?gs - 1 := x] = butlast ?gs @ [x]" for x
    using assms by (metis append_butlast_last_id length_butlast list_update_length)
  then show ?thesis
    using assms by (simp add: append_to_current_def Let_def last_conv_nth)
qed

lemma concat_last:
  assumes "ki_Generations ki \<noteq> []"
  shows "all_revs ki = concat (map g_Revisions (butlast (ki_Generations ki))) @ g_Revisions (last (ki_Generations ki))"
proof -
  have "all_revs ki = concat (map g_Revisions (butlast (ki_Generations ki) @ [last (ki_Generations ki)]))"
    using assms by (simp add: all_revs_def del: map_append)
  then show ?thesis
    by simp
qed

lemma gens_ok_new_generation:
  assumes "gens_ok gens" "\<And>q. q \<in> set (concat (map g_Revisions gens)) \<Longrightarrow> q < r"
  shows "gens_ok (gens @ [\<lparr>g_Created = r, g_Revisions = [r]\<rparr>])"
  using assms by (auto simp: gens_ok_def sorted_wrt_append)

lemma gens_ok_empty_generation: "gens_ok gens \<Longrightarrow> gens_ok (gens @ [\<lparr>g_Created = r, g_Revisions = []\<rparr>])"
  by (auto simp: gens_ok_def)

lemma gens_ok_append:
  assumes "gens_ok (ki_Generations ki)" "ki_Generations ki \<noteq> []" "\<not> IsDeleted ki" "\<And>q. q \<in> set (all_revs ki) \<Longrightarrow> q < r"
  shows "gens_ok (append_to_current r ki)"
    "concat (map g_Revisions (append_to_current r ki)) = all_revs ki @ [r]"
    "g_Revisions (last (append_to_current r ki)) \<noteq> []"
proof -
  let ?gs = "ki_Generations ki"
  show revs: "concat (map g_Revisions (append_to_current r ki)) = all_revs ki @ [r]"
    using assms(2) by (simp add: append_to_current_last concat_last)
  show "g_Revisions (last (append_to_current r ki)) \<noteq> []"
    using assms(2) by (simp add: append_to_current_last)
  have created: "g_Created (last ?gs) \<le> q" if "q \<in> set (g_Revisions (last ?gs)) \<or> q = r" for q
  proof -
    have le: "g_Created (last ?gs) \<le> p" if "p \<in> set (g_Revisions (last ?gs))" for p
      using that assms(1,2) by (auto simp: gens_ok_def)
    have "g_Revisions (last ?gs) \<noteq> []"
      using assms(2,3) by (simp add: IsDeleted_last)
    then obtain p where p: "p \<in> set (g_Revisions (last ?gs))"
      by (meson last_in_set)
    then have "p < r"
      using assms(2,4) by (simp add: concat_last)
    with le p that show ?thesis
      by force
  qed
  have "sorted_wrt (<) (all_revs ki @ [r])"
    using assms(1,4) by (auto simp: gens_ok_def all_revs_def sorted_wrt_append)
  moreover have "\<forall>g \<in> set (append_to_current r ki). \<forall>q \<in> set (g_Revisions g). g_Created g \<le> q"
    using assms(1,2) created by (auto simp: append_to_current_last gens_ok_def dest: in_set_butlastD)
  ultimately show "gens_ok (append_to_current r ki)"
    unfolding gens_ok_def revs by blast
qed

lemma idx_Put_laws:
  assumes B: "btree_ok B" and ok: "index_ok B idx" and new: "\<And>q. q \<in> set (revs_of B idx k) \<Longrightarrow> q < r"
  shows "index_ok B (idx_Put B k r idx)"
    "revs_of B (idx_Put B k r idx) j = (if j = k then revs_of B idx k @ [r] else revs_of B idx j)"
    "live_key B (idx_Put B k r idx) j = (j = k \<or> live_key B idx j)"
proof -
  have "index_ok B (idx_Put B k r idx)
    \<and> revs_of B (idx_Put B k r idx) j = (if j = k then revs_of B idx k @ [r] else revs_of B idx j)
    \<and> live_key B (idx_Put B k r idx) j = (j = k \<or> live_key B idx j)"
  proof (cases "bt_Get B idx k")
    case None
    then show ?thesis
      using B ok
      by (simp add: idx_Put_def revs_of_def live_key_def btree_simps index_ok_insert gens_ok_def all_revs_def
          IsDeleted_last)
  next
    case (Some ki)
    note ki = index_okD [OF ok Some]
    have lt: "q < r" if "q \<in> set (all_revs ki)" for q
      using new [of q] that Some by (simp add: revs_of_def)
    define gens where "gens = (if IsDeleted ki then ki_Generations ki @ [\<lparr>g_Created = r, g_Revisions = [r]\<rparr>]
        else append_to_current r ki)"
    have gens: "gens_ok gens" "concat (map g_Revisions gens) = all_revs ki @ [r]" "g_Revisions (last gens) \<noteq> []" "gens \<noteq> []"
      using gens_ok_append [OF ki(3,2) _ lt] gens_ok_new_generation [OF ki(3)] lt
      by (auto simp: gens_def all_revs_def append_to_current_last ki(2))
    let ?ki = "ki\<lparr>ki_Generations := gens, ki_Modified := r\<rparr>"
    have put: "idx_Put B k r idx = bt_ReplaceOrInsert B k ?ki idx"
      using Some by (simp add: idx_Put_def gens_def)
    have "index_ok B (idx_Put B k r idx)"
      unfolding put using B ok ki(1) gens by (intro index_ok_insert) simp_all
    moreover have "all_revs ?ki = all_revs ki @ [r]" "\<not> IsDeleted ?ki"
      using gens by (simp_all add: all_revs_def IsDeleted_last)
    ultimately show ?thesis
      using B Some unfolding put revs_of_def live_key_def by (simp add: btree_simps)
  qed
  then show "index_ok B (idx_Put B k r idx)"
    "revs_of B (idx_Put B k r idx) j = (if j = k then revs_of B idx k @ [r] else revs_of B idx j)"
    "live_key B (idx_Put B k r idx) j = (j = k \<or> live_key B idx j)"
    by blast+
qed

lemma idx_Delete_absent: "\<not> live_key B idx k \<Longrightarrow> idx_Delete B k r idx = (idx, False)"
  by (cases "bt_Get B idx k") (simp_all add: idx_Delete_def live_key_def)

lemma idx_Delete_laws:
  assumes B: "btree_ok B" and ok: "index_ok B idx" and new: "\<And>q. q \<in> set (revs_of B idx k) \<Longrightarrow> q < r"
    and live: "live_key B idx k"
  shows "snd (idx_Delete B k r idx)" "index_ok B (fst (idx_Delete B k r idx))"
    "revs_of B (fst (idx_Delete B k r idx)) j = (if j = k then revs_of B idx k @ [r] else revs_of B idx j)"
    "live_key B (fst (idx_Delete B k r idx)) j = (j \<noteq> k \<and> live_key B idx j)"
proof -
  obtain ki where Some: "bt_Get B idx k = Some ki" and nd: "\<not> IsDeleted ki"
    using live by (auto simp: live_key_def split: option.splits)
  note ki = index_okD [OF ok Some]
  have lt: "q < r" if "q \<in> set (all_revs ki)" for q
    using new [of q] that Some by (simp add: revs_of_def)
  let ?gens = "append_to_current r ki @ [\<lparr>g_Created = r, g_Revisions = []\<rparr>]"
  let ?ki = "ki\<lparr>ki_Modified := r, ki_Generations := ?gens\<rparr>"
  note app = gens_ok_append [OF ki(3,2) nd lt]
  have del: "idx_Delete B k r idx = (bt_ReplaceOrInsert B k ?ki idx, True)"
    using Some nd by (simp add: idx_Delete_def)
  have revs: "all_revs ?ki = all_revs ki @ [r]" and "IsDeleted ?ki"
    using app(2) by (simp_all add: all_revs_def IsDeleted_last)
  then show "revs_of B (fst (idx_Delete B k r idx)) j = (if j = k then revs_of B idx k @ [r] else revs_of B idx j)"
    "live_key B (fst (idx_Delete B k r idx)) j = (j \<noteq> k \<and> live_key B idx j)"
    using B Some unfolding del revs_of_def live_key_def by (simp_all add: btree_simps)
  show "snd (idx_Delete B k r idx)"
    by (simp add: del)
  show "index_ok B (fst (idx_Delete B k r idx))"
    unfolding del fst_conv using B ok ki(1) gens_ok_empty_generation [OF app(1)] by (intro index_ok_insert) simp_all
qed

section \<open>Iteration\<close>

text \<open>The keys an index scan offers to its callback, with the revision it reports for each.\<close>

definition before_end :: "string option \<Rightarrow> string \<Rightarrow> bool" where
  "before_end end k = (case end of None \<Rightarrow> True | Some e \<Rightarrow> k < e)"

definition scan_keys :: "'t key_tree \<Rightarrow> string \<Rightarrow> string option \<Rightarrow> Revision \<Rightarrow> 't \<Rightarrow> (string \<times> Revision) list" where
  "scan_keys B start end atRev idx =
     filter (\<lambda>(k, r). r \<noteq> Zero)
       (map (\<lambda>(k, ki). (k, current_revision atRev ki))
         (filter (\<lambda>(k, ki). start \<le> k \<and> before_end end k) (bt_Ascend B idx)))"

lemma ascend_loop_stop:
  assumes "sorted (map fst items)" "\<And>k ki. (k, ki) \<in> set items \<Longrightarrow> ki_Key ki = k"
  shows "ascend_loop (\<lambda>(_, ki) st. if (case end of None \<Rightarrow> False | Some e \<Rightarrow> e \<le> ki_Key ki) then (st, False)
           else let r = current_revision atRev ki in if \<not> IsZero r then fn (ki_Key ki) r st else (st, True)) items st
    = ascend_loop (\<lambda>(k, r). fn k r) (filter (\<lambda>(k, r). r \<noteq> Zero) (map (\<lambda>(k, ki). (k, current_revision atRev ki))
         (filter (\<lambda>(k, ki). before_end end k) items))) st"
  using assms
proof (induction items arbitrary: st)
  case (Cons item items)
  obtain k ki where item: "item = (k, ki)"
    by force
  have key: "ki_Key ki = k"
    using Cons.prems(2) item by simp
  show ?case
  proof (cases "before_end end k")
    case False
    then have "\<not> before_end end k'" if "(k', ki') \<in> set items" for k' ki'
      using that Cons.prems(1) item by (force simp: before_end_def split: option.splits)
    then have "filter (\<lambda>(k, ki). before_end end k) items = []"
      by (auto simp: filter_empty_conv)
    with False show ?thesis
      by (auto simp: item key before_end_def split: option.splits)
  next
    case True
    then have "\<not> (case end of None \<Rightarrow> False | Some e \<Rightarrow> e \<le> ki_Key ki)"
      by (auto simp: before_end_def key split: option.splits)
    moreover have "ascend_loop (\<lambda>(_, ki) st. if (case end of None \<Rightarrow> False | Some e \<Rightarrow> e \<le> ki_Key ki) then (st, False)
           else let r = current_revision atRev ki in if \<not> IsZero r then fn (ki_Key ki) r st else (st, True)) items st'
        = ascend_loop (\<lambda>(k, r). fn k r) (filter (\<lambda>(k, r). r \<noteq> Zero) (map (\<lambda>(k, ki). (k, current_revision atRev ki))
             (filter (\<lambda>(k, ki). before_end end k) items))) st'" for st'
      using Cons.prems by (intro Cons.IH) auto
    ultimately show ?thesis
      using True by (auto simp: item key Let_def split: prod.split)
  qed
qed simp

lemma idx_Range_scan:
  assumes B: "btree_ok B" and ok: "index_ok B idx"
  shows "idx_Range B start end atRev fn idx st = ascend_loop (\<lambda>(k, r). fn k r) (scan_keys B start end atRev idx) st"
proof -
  let ?items = "filter (\<lambda>(k', v). start \<le> k') (bt_Ascend B idx)"
  have "sorted (map fst ?items)"
    using btree_simps(6) [OF B] by (rule sorted_filter)
  moreover have "ki_Key ki = k" if "(k, ki) \<in> set ?items" for k ki
    using that ok by (auto simp: btree_simps [OF B] index_ok_def)
  ultimately have "idx_Range B start end atRev fn idx st =
      ascend_loop (\<lambda>(k, r). fn k r) (filter (\<lambda>(k, r). r \<noteq> Zero) (map (\<lambda>(k, ki). (k, current_revision atRev ki))
         (filter (\<lambda>(k, ki). before_end end k) ?items))) st"
    unfolding idx_Range_def btree_simps(5) [OF B] by (rule ascend_loop_stop)
  moreover have "filter (\<lambda>(k, ki). before_end end k) ?items
      = filter (\<lambda>(k, ki). start \<le> k \<and> before_end end k) (bt_Ascend B idx)"
    by (simp add: filter_filter case_prod_unfold conj_commute)
  ultimately show ?thesis
    by (simp add: scan_keys_def)
qed

lemma current_revision_find:
  assumes "index_ok B idx" "bt_Get B idx k = Some ki" "atRev \<noteq> Zero"
  shows "current_revision atRev ki = newest_upto atRev (revs_of B idx k)"
  using assms by (simp add: current_revision_def FindRevision_correct index_okD revs_of_def)

lemma last_all_revs:
  assumes "ki_Generations ki \<noteq> []" "\<not> IsDeleted ki"
  shows "LastRevision (last (ki_Generations ki)) = last (all_revs ki)" "all_revs ki \<noteq> []"
  using assms by (auto simp: LastRevision_def IsDeleted_last concat_last last_conv_nth last_append)

lemma current_revision_live:
  assumes "index_ok B idx" "bt_Get B idx k = Some ki"
  shows "current_revision Zero ki = (if live_key B idx k then last (revs_of B idx k) else Zero)"
  using assms index_okD [OF assms]
  by (auto simp: current_revision_def CurrentGeneration_last gen_IsEmpty_def live_key_def revs_of_def IsDeleted_last
      last_all_revs)

lemma index_scan_sorted: "btree_ok B \<Longrightarrow> sorted (map fst (scan_keys B start end atRev idx)) \<and> distinct (map fst (scan_keys B start end atRev idx))"
proof -
  assume B: "btree_ok B"
  let ?items = "filter (\<lambda>(k, ki). start \<le> k \<and> before_end end k) (bt_Ascend B idx)"
  let ?scan = "map (\<lambda>(k, ki). (k, current_revision atRev ki)) ?items"
  have eq: "map fst ?scan = map fst ?items"
    by auto
  have "sorted (map fst ?scan)" "distinct (map fst ?scan)"
    unfolding eq using btree_simps(6,7) [OF B, of idx] by (simp_all add: sorted_filter distinct_map_filter)
  then show ?thesis
    unfolding scan_keys_def by (simp add: sorted_filter distinct_map_filter del: map_map)
qed

section \<open>Compaction\<close>

lemma keep_from_eq: "keep_from atRev j revs = j + length (takeWhile (\<lambda>r. r < atRev) revs)"
  by (induction revs arbitrary: j) auto

lemma drop_keep_from:
  assumes "sorted_wrt (<) revs"
  shows "drop (keep_from atRev 0 revs) revs = filter (\<lambda>r. atRev \<le> r) revs"
  using assms
proof (induction revs)
  case (Cons r revs)
  show ?case
  proof (cases "r < atRev")
    case True
    with Cons show ?thesis
      by (simp add: keep_from_eq)
  next
    case False
    then have "atRev \<le> q" if "q \<in> set revs" for q
      using Cons.prems that by force
    with False show ?thesis
      by (simp add: keep_from_eq)
  qed
qed (simp add: keep_from_eq)

lemma gens_ok_Cons: "gens_ok (g # gens) \<Longrightarrow> gens_ok gens \<and> sorted_wrt (<) (g_Revisions g)"
  by (simp add: gens_ok_def sorted_wrt_append)

lemma compact_generations_revs:
  assumes "gens_ok gens"
  shows "concat (map g_Revisions (fst (compact_generations atRev gens)))
      = filter (\<lambda>r. atRev \<le> r) (concat (map g_Revisions gens))"
  using assms
proof (induction gens)
  case (Cons g gens)
  then have ok: "gens_ok gens" "sorted_wrt (<) (g_Revisions g)"
    using gens_ok_Cons by blast+
  have "filter (\<lambda>r. atRev \<le> r) (g_Revisions g) = []" if "\<not> keep_from atRev 0 (g_Revisions g) < length (g_Revisions g)"
    using that drop_keep_from [OF ok(2), of atRev] by simp
  with Cons.IH [OF ok(1)] drop_keep_from [OF ok(2), of atRev] show ?case
    by (simp add: Let_def case_prod_unfold)
qed simp

lemma compact_generations_nonempty: "g \<in> set (fst (compact_generations atRev gens)) \<Longrightarrow> g_Revisions g \<noteq> []"
  by (induction gens) (auto simp: Let_def case_prod_unfold split: if_splits)

lemma compact_generations_from:
  "g \<in> set (fst (compact_generations atRev gens)) \<Longrightarrow>
     \<exists>g' \<in> set gens. g_Created g = g_Created g' \<and> set (g_Revisions g) \<subseteq> set (g_Revisions g')"
  by (induction gens) (auto simp: Let_def case_prod_unfold split: if_splits dest: in_set_dropD)

lemma compact_generations_ok: "gens_ok gens \<Longrightarrow> gens_ok (fst (compact_generations atRev gens))"
proof -
  assume ok: "gens_ok gens"
  then have "sorted_wrt (<) (concat (map g_Revisions (fst (compact_generations atRev gens))))"
    by (simp add: compact_generations_revs sorted_wrt_filter gens_ok_def)
  moreover have "g_Created g \<le> r" if "g \<in> set (fst (compact_generations atRev gens))" "r \<in> set (g_Revisions g)" for g r
    using compact_generations_from [OF that(1)] that(2) ok unfolding gens_ok_def by force
  ultimately show ?thesis
    by (simp add: gens_ok_def)
qed

lemma compact_generations_removed:
  assumes "gens_ok gens"
  shows "snd (compact_generations atRev gens) = int (length (filter (\<lambda>r. r < atRev) (concat (map g_Revisions gens))))"
  using assms
proof (induction gens)
  case (Cons g gens)
  then have ok: "gens_ok gens" "sorted_wrt (<) (g_Revisions g)"
    using gens_ok_Cons by blast+
  have "length (drop (keep_from atRev 0 (g_Revisions g)) (g_Revisions g)) = length (filter (\<lambda>r. \<not> r < atRev) (g_Revisions g))"
    using drop_keep_from [OF ok(2), of atRev] by (simp add: not_less)
  moreover have "keep_from atRev 0 (g_Revisions g) \<le> length (g_Revisions g)"
    by (simp add: keep_from_eq length_takeWhile_le)
  moreover have "length (filter (\<lambda>r. r < atRev) (g_Revisions g)) + length (filter (\<lambda>r. \<not> r < atRev) (g_Revisions g))
      = length (g_Revisions g)"
    by (rule sum_length_filter_compl)
  ultimately have "keep_from atRev 0 (g_Revisions g) = length (filter (\<lambda>r. r < atRev) (g_Revisions g))"
    by simp
  with Cons.IH [OF ok(1)] show ?case
    by (simp add: Let_def case_prod_unfold)
qed simp

text \<open>Compacting the index filters every key's revisions and forgets the keys that keep none.\<close>

lemma fold_compact_item:
  assumes B: "btree_ok B" and "distinct (map fst items)"
    and "\<And>k ki. (k, ki) \<in> set items \<Longrightarrow> ki_Key ki = k"
  shows "bt_Get B (fst (fold (\<lambda>(_, ki). compact_item B atRev ki) items (idx, del, n))) k =
    (case map_of items k of
       None \<Rightarrow> bt_Get B idx k
     | Some ki \<Rightarrow>
         let newGens = fst (compact_generations atRev (ki_Generations ki))
         in if newGens = [] then bt_Get B idx k else Some (ki\<lparr>ki_Generations := newGens\<rparr>))"
  using assms(2,3)
proof (induction items arbitrary: idx del n)
  case (Cons item items)
  obtain k' ki where item: "item = (k', ki)"
    by force
  obtain idx' del' n' where step: "compact_item B atRev ki (idx, del, n) = (idx', del', n')"
    by (cases "compact_item B atRev ki (idx, del, n)")
  have "bt_Get B (fst (fold (\<lambda>(_, ki). compact_item B atRev ki) items (idx', del', n'))) k =
    (case map_of items k of None \<Rightarrow> bt_Get B idx' k
     | Some ki \<Rightarrow> let newGens = fst (compact_generations atRev (ki_Generations ki))
         in if newGens = [] then bt_Get B idx' k else Some (ki\<lparr>ki_Generations := newGens\<rparr>))"
    using Cons.prems by (intro Cons.IH) auto
  then have IH: "bt_Get B (fst (fold (\<lambda>(_, ki). compact_item B atRev ki) (item # items) (idx, del, n))) k =
    (case map_of items k of None \<Rightarrow> bt_Get B idx' k
     | Some ki \<Rightarrow> let newGens = fst (compact_generations atRev (ki_Generations ki))
         in if newGens = [] then bt_Get B idx' k else Some (ki\<lparr>ki_Generations := newGens\<rparr>))"
    by (simp only: item List.fold_simps prod.case step)
  have get: "bt_Get B idx' j = (let newGens = fst (compact_generations atRev (ki_Generations ki))
      in if j = k' \<and> newGens \<noteq> [] then Some (ki\<lparr>ki_Generations := newGens\<rparr>) else bt_Get B idx j)" for j
    using step Cons.prems(2) [of k' ki]
    by (auto simp: item compact_item_def Let_def btree_simps [OF B] case_prod_unfold split: if_splits)
  show ?case
  proof (cases "k = k'")
    case True
    then have "map_of items k = None"
      using Cons.prems(1) item by (simp add: map_of_eq_None_iff)
    with True IH get show ?thesis
      by (simp add: item Let_def)
  next
    case False
    with IH get show ?thesis
      by (auto simp: item Let_def split: option.splits)
  qed
qed simp

lemma fold_compact_item_counts:
  "snd (fold (\<lambda>(_, ki). compact_item B atRev ki) items (idx, del, n)) =
     (del @ filter (\<lambda>ki. fst (compact_generations atRev (ki_Generations ki)) = []) (map snd items),
      n + sum_list (map (\<lambda>(_, ki). snd (compact_generations atRev (ki_Generations ki))) items))"
  by (induction items arbitrary: idx del n) (auto simp: compact_item_def Let_def case_prod_unfold)

lemma fold_bt_Delete:
  assumes B: "btree_ok B"
  shows "bt_Get B (fold (\<lambda>ki. bt_Delete B (ki_Key ki)) kis idx) k = (if k \<in> ki_Key ` set kis then None else bt_Get B idx k)"
  by (induction kis arbitrary: idx) (auto simp: btree_simps [OF B])

lemma idx_Compact_get:
  assumes B: "btree_ok B" and ok: "index_ok B idx"
  shows "bt_Get B (fst (idx_Compact B atRev idx)) k =
    (case bt_Get B idx k of
       None \<Rightarrow> None
     | Some ki \<Rightarrow>
         let newGens = fst (compact_generations atRev (ki_Generations ki))
         in if newGens = [] then None else Some (ki\<lparr>ki_Generations := newGens\<rparr>))"
proof -
  let ?items = "bt_Ascend B idx"
  let ?dead = "filter (\<lambda>ki. fst (compact_generations atRev (ki_Generations ki)) = []) (map snd ?items)"
  have map: "map_of ?items = bt_Get B idx"
    by (rule ordered_map.ascend_get [OF B [unfolded btree_ok_def]])
  have mem: "(k', ki) \<in> set ?items \<longleftrightarrow> bt_Get B idx k' = Some ki" for k' ki
    by (rule btree_simps(4) [OF B])
  have key: "ki_Key ki = k'" if "(k', ki) \<in> set ?items" for k' ki
    using that ok by (simp add: mem index_ok_def)
  have dead: "k \<in> ki_Key ` set ?dead \<longleftrightarrow>
      (\<exists>ki. bt_Get B idx k = Some ki \<and> fst (compact_generations atRev (ki_Generations ki)) = [])"
    using key mem by (force simp: image_iff)
  obtain idx' removed where st: "fold (\<lambda>(_, ki). compact_item B atRev ki) ?items (idx, [], 0) = (idx', ?dead, removed)"
    using fold_compact_item_counts [of B atRev ?items idx "[]" 0] by (metis append_Nil prod.collapse)
  then have "fst (idx_Compact B atRev idx) = fold (\<lambda>ki. bt_Delete B (ki_Key ki)) ?dead idx'"
    unfolding idx_Compact_def st by simp
  moreover have "bt_Get B idx' k = (case bt_Get B idx k of None \<Rightarrow> bt_Get B idx k
     | Some ki \<Rightarrow>
         let newGens = fst (compact_generations atRev (ki_Generations ki))
         in if newGens = [] then bt_Get B idx k else Some (ki\<lparr>ki_Generations := newGens\<rparr>))"
    using fold_compact_item [OF B btree_simps(7) [OF B, where t = idx] key, where idx = idx and del = "[]" and n = 0 and k = k and atRev = atRev]
    unfolding st map by simp
  ultimately show ?thesis
    using dead by (auto simp: fold_bt_Delete [OF B] Let_def simp del: set_filter split: option.splits)
qed

lemma idx_Compact_laws:
  assumes B: "btree_ok B" and ok: "index_ok B idx"
  shows "index_ok B (fst (idx_Compact B atRev idx))"
    "revs_of B (fst (idx_Compact B atRev idx)) k = filter (\<lambda>r. atRev \<le> r) (revs_of B idx k)"
    "live_key B (fst (idx_Compact B atRev idx)) k = (filter (\<lambda>r. atRev \<le> r) (revs_of B idx k) \<noteq> [])"
proof -
  note get = idx_Compact_get [OF B ok, of atRev]
  show "index_ok B (fst (idx_Compact B atRev idx))"
    using ok by (auto simp: index_ok_def get Let_def compact_generations_ok split: option.splits if_splits)
  have revs: "revs_of B (fst (idx_Compact B atRev idx)) k = filter (\<lambda>r. atRev \<le> r) (revs_of B idx k)"
  proof (cases "bt_Get B idx k")
    case (Some ki)
    then have eq: "concat (map g_Revisions (fst (compact_generations atRev (ki_Generations ki)))) = filter (\<lambda>r. atRev \<le> r) (all_revs ki)"
      using compact_generations_revs [OF index_okD(3) [OF ok Some]] by (simp add: all_revs_def)
    show ?thesis
      using Some eq by (auto simp: revs_of_def get Let_def) (simp add: all_revs_def)
  qed (simp add: revs_of_def get)
  then show "revs_of B (fst (idx_Compact B atRev idx)) k = filter (\<lambda>r. atRev \<le> r) (revs_of B idx k)" .
  show "live_key B (fst (idx_Compact B atRev idx)) k = (filter (\<lambda>r. atRev \<le> r) (revs_of B idx k) \<noteq> [])"
  proof (cases "bt_Get B idx k")
    case (Some ki)
    let ?new = "fst (compact_generations atRev (ki_Generations ki))"
    have "(?new = []) = (concat (map g_Revisions ?new) = [])"
      using compact_generations_nonempty [of _ atRev "ki_Generations ki"] by (cases ?new) auto
    moreover have "\<not> IsDeleted (ki\<lparr>ki_Generations := ?new\<rparr>)" if "?new \<noteq> []"
      using that compact_generations_nonempty [of "last ?new" atRev "ki_Generations ki"] by (simp add: IsDeleted_last)
    ultimately show ?thesis
      using Some compact_generations_revs [OF index_okD(3) [OF ok Some], of atRev]
      by (simp add: live_key_def get Let_def revs_of_def all_revs_def)
  qed (simp add: live_key_def revs_of_def get)
qed

end
