(* ===== verification/Mvcc_Store.thy ===== *)
theory Mvcc_Store
  imports Mvcc_KeyIndex
begin

text \<open>
  The in-memory MVCC store, \<open>internal/mvcc/memory_store.go\<close>: the key index, the tree from revisions to
  entries, the revision generator and the operations on them, transactions included.  The two trees are
  parameters (\<open>K\<close> keyed by user keys, \<open>R\<close> keyed by revisions, the order \<open>revisionItem.Less\<close> gives).  The
  mutex makes every operation atomic and \<open>Clone\<close> hands out copies.
\<close>

section \<open>State and errors\<close>

type_synonym 'r rev_tree = "('r, Revision, mvcc_kv) btree"

record ('t, 'r) MemoryStore =
  keyIndex :: 't
  revisionStore :: 'r
  revisionGen :: RevisionGenerator
  compactedRev :: Revision
  ms_closed :: bool

datatype mvcc_error =
  ErrKeyNotFound | ErrRevisionNotFound | ErrCompacted | ErrFutureRevision | ErrInvalidData | ErrEmptyKey | ErrTxnTooBig
  | ErrClosed

definition NewMemoryStore :: "'t key_tree \<Rightarrow> 'r rev_tree \<Rightarrow> ('t, 'r) MemoryStore" where
  "NewMemoryStore K R =
     \<lparr>keyIndex = NewKeyIndex K, revisionStore = bt_New R, revisionGen = NewRevisionGenerator (Revision 0 0),
      compactedRev = Zero, ms_closed = False\<rparr>"

section \<open>Writing one entry\<close>

text \<open>The key's item when the key is there and not deleted.\<close>

definition live_item :: "'t key_tree \<Rightarrow> string \<Rightarrow> ('t, 'r) MemoryStore \<Rightarrow> KeyItem option" where
  "live_item K key s =
     (case idx_Get K key (keyIndex s) of
        Some ki \<Rightarrow> if \<not> IsDeleted ki then Some ki else None
      | None \<Rightarrow> None)"

text \<open>The entry at the last revision of the current generation, looked up in the revision store.\<close>

definition last_kv :: "'r rev_tree \<Rightarrow> KeyItem \<Rightarrow> ('t, 'r) MemoryStore \<Rightarrow> mvcc_kv option" where
  "last_kv R ki s =
     (case CurrentGeneration ki of
        None \<Rightarrow> None
      | Some gen \<Rightarrow>
          let prevRev = LastRevision gen
          in if \<not> IsZero prevRev then bt_Get R (revisionStore s) prevRev else None)"

text \<open>What \<open>Put\<close> and the transaction's put share: the new entry, stored and indexed at a revision.\<close>

definition new_entry :: "'t key_tree \<Rightarrow> 'r rev_tree \<Rightarrow> string \<Rightarrow> string \<Rightarrow> int \<Rightarrow> Revision \<Rightarrow> ('t, 'r) MemoryStore \<Rightarrow> mvcc_kv" where
  "new_entry K R key val lease r s =
     (let (createRev, version) =
        (case live_item K key s of
           Some ki \<Rightarrow>
             (case last_kv R ki s of
                Some prevKv \<Rightarrow> (mk_CreateRevision prevKv, mk_Version prevKv + 1)
              | None \<Rightarrow> (0, 1))
         | None \<Rightarrow> (Main r, 1))
      in \<lparr>mk_Key = key, mk_Value = val, mk_CreateRevision = createRev, mk_ModRevision = Main r,
          mk_Version = version, mk_Lease = lease\<rparr>)"

definition write_entry :: "'t key_tree \<Rightarrow> 'r rev_tree \<Rightarrow> string \<Rightarrow> string \<Rightarrow> int \<Rightarrow> Revision \<Rightarrow> ('t, 'r) MemoryStore \<Rightarrow> ('t, 'r) MemoryStore" where
  "write_entry K R key val lease r s =
     s\<lparr>revisionStore := bt_ReplaceOrInsert R r (new_entry K R key val lease r s) (revisionStore s),
       keyIndex := idx_Put K key r (keyIndex s)\<rparr>"

text \<open>What the deletions share: the tombstone of a live key, stored and indexed at a revision.\<close>

definition tombstone :: "'r rev_tree \<Rightarrow> string \<Rightarrow> KeyItem \<Rightarrow> Revision \<Rightarrow> ('t, 'r) MemoryStore \<Rightarrow> mvcc_kv" where
  "tombstone R key ki r s =
     \<lparr>mk_Key = key, mk_Value = [],
      mk_CreateRevision = (case last_kv R ki s of Some prevKv \<Rightarrow> mk_CreateRevision prevKv | None \<Rightarrow> 0),
      mk_ModRevision = Main r, mk_Version = 0, mk_Lease = 0\<rparr>"

definition put_tombstone :: "'t key_tree \<Rightarrow> 'r rev_tree \<Rightarrow> string \<Rightarrow> KeyItem \<Rightarrow> Revision \<Rightarrow> ('t, 'r) MemoryStore \<Rightarrow> ('t, 'r) MemoryStore" where
  "put_tombstone K R key ki r s =
     s\<lparr>revisionStore := bt_ReplaceOrInsert R r (tombstone R key ki r s) (revisionStore s),
       keyIndex := fst (idx_Delete K key r (keyIndex s))\<rparr>"

section \<open>Operations\<close>

definition ms_Put ::
    "'t key_tree \<Rightarrow> 'r rev_tree \<Rightarrow> string \<Rightarrow> string \<Rightarrow> int \<Rightarrow> ('t, 'r) MemoryStore \<Rightarrow> ('t, 'r) MemoryStore \<times> (mvcc_error + int)" where
  "ms_Put K R key val lease s =
     (if length key = 0 then (s, Inl ErrEmptyKey)
      else if ms_closed s then (s, Inl ErrClosed)
      else
        let (g, r) = gen_Next (revisionGen s)
        in (write_entry K R key val lease r (s\<lparr>revisionGen := g\<rparr>), Inr (Main r)))"

text \<open>The revision a read is asked for, and the two range checks.\<close>

definition read_revision :: "int \<Rightarrow> ('t, 'r) MemoryStore \<Rightarrow> Revision" where
  "read_revision rv s = (if rv = 0 then gen_Current (revisionGen s) else Revision rv 0)"

definition check_revision :: "Revision \<Rightarrow> ('t, 'r) MemoryStore \<Rightarrow> mvcc_error option" where
  "check_revision atRev s =
     (if LessThan atRev (compactedRev s) then Some ErrCompacted
      else if GreaterThan atRev (gen_Current (revisionGen s)) then Some ErrFutureRevision
      else None)"

definition ms_Get :: "'t key_tree \<Rightarrow> 'r rev_tree \<Rightarrow> string \<Rightarrow> int \<Rightarrow> ('t, 'r) MemoryStore \<Rightarrow> mvcc_error + mvcc_kv" where
  "ms_Get K R key rv s =
     (if length key = 0 then Inl ErrEmptyKey
      else if ms_closed s then Inl ErrClosed
      else
        let atRev = read_revision rv s
        in case check_revision atRev s of
             Some e \<Rightarrow> Inl e
           | None \<Rightarrow>
               let keyRev = GetRevision K key atRev (keyIndex s)
               in if IsZero keyRev then Inl ErrKeyNotFound
                  else case bt_Get R (revisionStore s) keyRev of
                         None \<Rightarrow> Inl ErrKeyNotFound
                       | Some kv \<Rightarrow> if mk_Version kv = 0 then Inl ErrKeyNotFound else Inr kv)"

text \<open>The callback of \<open>Range\<close>, threading the result and its count.\<close>

definition range_visit ::
    "'r rev_tree \<Rightarrow> int \<Rightarrow> ('t, 'r) MemoryStore \<Rightarrow> string \<Rightarrow> Revision \<Rightarrow> mvcc_kv list \<times> int \<Rightarrow> (mvcc_kv list \<times> int) \<times> bool" where
  "range_visit R limit s key keyRev = (\<lambda>(result, count).
     if limit > 0 \<and> count \<ge> limit then ((result, count), False)
     else case bt_Get R (revisionStore s) keyRev of
            None \<Rightarrow> ((result, count), True)
          | Some kv \<Rightarrow>
              if mk_Version kv = 0 then ((result, count), True)
              else ((result @ [kv], count + 1), True))"

definition ms_Range ::
    "'t key_tree \<Rightarrow> 'r rev_tree \<Rightarrow> string \<Rightarrow> string option \<Rightarrow> int \<Rightarrow> int \<Rightarrow> ('t, 'r) MemoryStore \<Rightarrow> mvcc_error + mvcc_kv list \<times> int" where
  "ms_Range K R start end rv limit s =
     (if length start = 0 then Inl ErrEmptyKey
      else if ms_closed s then Inl ErrClosed
      else
        let atRev = read_revision rv s
        in case check_revision atRev s of
             Some e \<Rightarrow> Inl e
           | None \<Rightarrow> Inr (idx_Range K start end atRev (range_visit R limit s) (keyIndex s) ([], 0)))"

definition ms_Delete ::
    "'t key_tree \<Rightarrow> 'r rev_tree \<Rightarrow> string \<Rightarrow> ('t, 'r) MemoryStore \<Rightarrow> ('t, 'r) MemoryStore \<times> (mvcc_error + int \<times> int)" where
  "ms_Delete K R key s =
     (if length key = 0 then (s, Inl ErrEmptyKey)
      else if ms_closed s then (s, Inl ErrClosed)
      else case live_item K key s of
             None \<Rightarrow> (s, Inr (Main (gen_Current (revisionGen s)), 0))
           | Some ki \<Rightarrow>
               let (g, r) = gen_Next (revisionGen s)
               in (put_tombstone K R key ki r (s\<lparr>revisionGen := g\<rparr>), Inr (Main r, 1)))"

text \<open>The keys a range deletion collects, and the loop that gives each one its sub-revision.\<close>

definition collect_keys :: "'t key_tree \<Rightarrow> string \<Rightarrow> string option \<Rightarrow> ('t, 'r) MemoryStore \<Rightarrow> string list" where
  "collect_keys K start end s = idx_Range K start end Zero (\<lambda>key keyRev ks. (ks @ [key], True)) (keyIndex s) []"

fun delete_keys_loop ::
    "'t key_tree \<Rightarrow> 'r rev_tree \<Rightarrow> int \<Rightarrow> int \<Rightarrow> string list \<Rightarrow> ('t, 'r) MemoryStore \<times> int \<times> int \<Rightarrow> ('t, 'r) MemoryStore \<times> int \<times> int" where
  "delete_keys_loop K R main i [] st = st"
| "delete_keys_loop K R main i (key # keys) (s, deleted, lastSubRev) =
     delete_keys_loop K R main (i + 1) keys
       (case live_item K key s of
          None \<Rightarrow> (s, deleted, lastSubRev)
        | Some ki \<Rightarrow> (put_tombstone K R key ki (Revision main i) s, deleted + 1, i))"

definition ms_DeleteRange ::
    "'t key_tree \<Rightarrow> 'r rev_tree \<Rightarrow> string \<Rightarrow> string option \<Rightarrow> ('t, 'r) MemoryStore \<Rightarrow> ('t, 'r) MemoryStore \<times> (mvcc_error + int \<times> int)" where
  "ms_DeleteRange K R start end s =
     (if length start = 0 then (s, Inl ErrEmptyKey)
      else if ms_closed s then (s, Inl ErrClosed)
      else
        let keysToDelete = collect_keys K start end s
        in if length keysToDelete = 0 then (s, Inr (Main (gen_Current (revisionGen s)), 0))
           else
             let (g, r) = gen_Next (revisionGen s);
                 (s', deleted, lastSubRev) =
                   delete_keys_loop K R (Main r) 0 keysToDelete (s\<lparr>revisionGen := g\<rparr>, 0, 0);
                 s'' = (if deleted > 0 \<and> lastSubRev > 0
                        then s'\<lparr>revisionGen := Revision (Main (revisionGen s')) lastSubRev\<rparr> else s')
             in (s'', Inr (Main r, deleted)))"

definition ms_CurrentRevision :: "('t, 'r) MemoryStore \<Rightarrow> int" where
  "ms_CurrentRevision s = Main (gen_Current (revisionGen s))"

definition ms_CompactedRevision :: "('t, 'r) MemoryStore \<Rightarrow> int" where
  "ms_CompactedRevision s = Main (compactedRev s)"

definition ms_Compact :: "'t key_tree \<Rightarrow> 'r rev_tree \<Rightarrow> int \<Rightarrow> ('t, 'r) MemoryStore \<Rightarrow> ('t, 'r) MemoryStore \<times> (mvcc_error + unit)" where
  "ms_Compact K R rv s =
     (let targetRev = Revision rv 0
      in if ms_closed s then (s, Inl ErrClosed)
         else if LessThanOrEqual targetRev (compactedRev s) then (s, Inl ErrCompacted)
         else if GreaterThan targetRev (gen_Current (revisionGen s)) then (s, Inl ErrFutureRevision)
         else
           let toDelete = filter (\<lambda>ri. LessThan (fst ri) targetRev) (bt_Ascend R (revisionStore s))
           in (s\<lparr>keyIndex := fst (idx_Compact K targetRev (keyIndex s)),
                 revisionStore := fold (\<lambda>ri. bt_Delete R (fst ri)) toDelete (revisionStore s),
                 compactedRev := targetRev\<rparr>, Inr ()))"

definition ms_Close :: "('t, 'r) MemoryStore \<Rightarrow> ('t, 'r) MemoryStore \<times> (mvcc_error + unit)" where
  "ms_Close s = (if ms_closed s then (s, Inl ErrClosed) else (s\<lparr>ms_closed := True\<rparr>, Inr ()))"

section \<open>Transactions\<close>

datatype ConditionTarget =
  ConditionTargetVersion | ConditionTargetCreateRevision | ConditionTargetModRevision | ConditionTargetValue
  | ConditionTargetOther int

datatype CompareType = CompareEqual | CompareNotEqual | CompareLess | CompareGreater | CompareTypeOther int

text \<open>The dynamic values of the source's \<open>interface{}\<close> operands.\<close>

datatype cond_value = Int64 int | ByteSlice string | NilValue

record Condition =
  c_Key :: string
  c_Target :: ConditionTarget
  c_Compare :: CompareType
  c_Value :: cond_value

datatype OpType = OpTypePut | OpTypeGet | OpTypeDelete | OpTypeDeleteRange | OpTypeOther int

record Op =
  o_Type :: OpType
  o_Key :: string
  o_End :: "string option"
  o_Value :: string
  o_Lease :: int

record OpResponse =
  or_Type :: OpType
  or_Kvs :: "mvcc_kv list"
  or_Deleted :: int
  or_PrevKv :: "mvcc_kv option"

record TxnResponse =
  tr_Succeeded :: bool
  tr_Revision :: int
  tr_Responses :: "OpResponse list"

record memoryTxn =
  conditions :: "Condition list"
  thenOps :: "Op list"
  elseOps :: "Op list"

definition txn_If :: "Condition list \<Rightarrow> memoryTxn \<Rightarrow> memoryTxn" where
  "txn_If conds t = t\<lparr>conditions := conditions t @ conds\<rparr>"

definition txn_Then :: "Op list \<Rightarrow> memoryTxn \<Rightarrow> memoryTxn" where
  "txn_Then ops t = t\<lparr>thenOps := thenOps t @ ops\<rparr>"

definition txn_Else :: "Op list \<Rightarrow> memoryTxn \<Rightarrow> memoryTxn" where
  "txn_Else ops t = t\<lparr>elseOps := elseOps t @ ops\<rparr>"

text \<open>\<open>compare\<close>: \<^const>\<open>None\<close> is the panic of a type assertion on an operand of another type.\<close>

definition cmp_compare :: "cond_value \<Rightarrow> CompareType \<Rightarrow> cond_value \<Rightarrow> bool option" where
  "cmp_compare actual cmp expected =
     (case actual of
        Int64 a \<Rightarrow>
          (case expected of
             Int64 e \<Rightarrow>
               Some (case cmp of CompareEqual \<Rightarrow> a = e | CompareNotEqual \<Rightarrow> a \<noteq> e | CompareLess \<Rightarrow> a < e
                     | CompareGreater \<Rightarrow> a > e | CompareTypeOther _ \<Rightarrow> False)
           | _ \<Rightarrow> None)
      | ByteSlice a \<Rightarrow>
          (case expected of
             ByteSlice e \<Rightarrow>
               Some (case cmp of CompareEqual \<Rightarrow> a = e | CompareNotEqual \<Rightarrow> a \<noteq> e | CompareLess \<Rightarrow> a < e
                     | CompareGreater \<Rightarrow> a > e | CompareTypeOther _ \<Rightarrow> False)
           | _ \<Rightarrow> None)
      | NilValue \<Rightarrow> Some False)"

definition live_kv :: "'t key_tree \<Rightarrow> 'r rev_tree \<Rightarrow> string \<Rightarrow> ('t, 'r) MemoryStore \<Rightarrow> mvcc_kv option" where
  "live_kv K R key s = (case live_item K key s of None \<Rightarrow> None | Some ki \<Rightarrow> last_kv R ki s)"

definition ms_evaluateCondition :: "'t key_tree \<Rightarrow> 'r rev_tree \<Rightarrow> Condition \<Rightarrow> ('t, 'r) MemoryStore \<Rightarrow> bool option" where
  "ms_evaluateCondition K R cond s =
     (let kv = live_kv K R (c_Key cond) s;
          num = (\<lambda>f. case kv of Some kv \<Rightarrow> Int64 (f kv) | None \<Rightarrow> Int64 0);
          actual =
            (case c_Target cond of
               ConditionTargetVersion \<Rightarrow> num mk_Version
             | ConditionTargetCreateRevision \<Rightarrow> num mk_CreateRevision
             | ConditionTargetModRevision \<Rightarrow> num mk_ModRevision
             | ConditionTargetValue \<Rightarrow> (case kv of Some kv \<Rightarrow> ByteSlice (mk_Value kv) | None \<Rightarrow> ByteSlice [])
             | ConditionTargetOther _ \<Rightarrow> NilValue)
      in cmp_compare actual (c_Compare cond) (c_Value cond))"

fun eval_conditions :: "'t key_tree \<Rightarrow> 'r rev_tree \<Rightarrow> Condition list \<Rightarrow> ('t, 'r) MemoryStore \<Rightarrow> bool option" where
  "eval_conditions K R [] s = Some True"
| "eval_conditions K R (cond # conds) s =
     (case ms_evaluateCondition K R cond s of
        None \<Rightarrow> None
      | Some False \<Rightarrow> Some False
      | Some True \<Rightarrow> eval_conditions K R conds s)"

definition empty_response :: "OpType \<Rightarrow> OpResponse" where
  "empty_response ty = \<lparr>or_Type = ty, or_Kvs = [], or_Deleted = 0, or_PrevKv = None\<rparr>"

definition executePut ::
    "'t key_tree \<Rightarrow> 'r rev_tree \<Rightarrow> Op \<Rightarrow> Revision \<Rightarrow> ('t, 'r) MemoryStore \<Rightarrow> ('t, 'r) MemoryStore \<times> OpResponse" where
  "executePut K R op r s = (write_entry K R (o_Key op) (o_Value op) (o_Lease op) r s, empty_response OpTypePut)"

definition get_visit :: "'r rev_tree \<Rightarrow> ('t, 'r) MemoryStore \<Rightarrow> string \<Rightarrow> Revision \<Rightarrow> mvcc_kv list \<Rightarrow> mvcc_kv list \<times> bool" where
  "get_visit R s key keyRev kvs =
     (case bt_Get R (revisionStore s) keyRev of
        Some kv \<Rightarrow> if mk_Version kv > 0 then (kvs @ [kv], True) else (kvs, True)
      | None \<Rightarrow> (kvs, True))"

definition executeGet :: "'t key_tree \<Rightarrow> 'r rev_tree \<Rightarrow> Op \<Rightarrow> ('t, 'r) MemoryStore \<Rightarrow> OpResponse" where
  "executeGet K R op s =
     (empty_response OpTypeGet)
       \<lparr>or_Kvs := (case o_End op of
          None \<Rightarrow> (case live_kv K R (o_Key op) s of Some kv \<Rightarrow> [kv] | None \<Rightarrow> [])
        | Some e \<Rightarrow> idx_Range K (o_Key op) (Some e) Zero (get_visit R s) (keyIndex s) [])\<rparr>"

definition executeDelete ::
    "'t key_tree \<Rightarrow> 'r rev_tree \<Rightarrow> Op \<Rightarrow> Revision \<Rightarrow> ('t, 'r) MemoryStore \<Rightarrow> ('t, 'r) MemoryStore \<times> OpResponse" where
  "executeDelete K R op r s =
     (case live_item K (o_Key op) s of
        None \<Rightarrow> (s, empty_response OpTypeDelete)
      | Some ki \<Rightarrow> (put_tombstone K R (o_Key op) ki r s, (empty_response OpTypeDelete)\<lparr>or_Deleted := 1\<rparr>))"

definition executeDeleteRange ::
    "'t key_tree \<Rightarrow> 'r rev_tree \<Rightarrow> Op \<Rightarrow> Revision \<Rightarrow> ('t, 'r) MemoryStore \<Rightarrow> ('t, 'r) MemoryStore \<times> OpResponse" where
  "executeDeleteRange K R op baseRev s =
     (let (s', deleted, _) =
        delete_keys_loop K R (Main baseRev) (Sub baseRev) (collect_keys K (o_Key op) (o_End op) s) (s, 0, 0)
      in (s', (empty_response OpTypeDeleteRange)\<lparr>or_Deleted := deleted\<rparr>))"

definition executeOp ::
    "'t key_tree \<Rightarrow> 'r rev_tree \<Rightarrow> Op \<Rightarrow> Revision \<Rightarrow> nat \<Rightarrow> ('t, 'r) MemoryStore \<Rightarrow> ('t, 'r) MemoryStore \<times> OpResponse" where
  "executeOp K R op txnRev subIndex s =
     (let opRev = Revision (Main txnRev) (int subIndex)
      in case o_Type op of
           OpTypePut \<Rightarrow> executePut K R op opRev s
         | OpTypeGet \<Rightarrow> (s, executeGet K R op s)
         | OpTypeDelete \<Rightarrow> executeDelete K R op opRev s
         | OpTypeDeleteRange \<Rightarrow> executeDeleteRange K R op opRev s
         | OpTypeOther n \<Rightarrow> (s, empty_response (OpTypeOther n)))"

fun executeOps ::
    "'t key_tree \<Rightarrow> 'r rev_tree \<Rightarrow> Revision \<Rightarrow> nat \<Rightarrow> Op list \<Rightarrow> ('t, 'r) MemoryStore \<Rightarrow> ('t, 'r) MemoryStore \<times> OpResponse list" where
  "executeOps K R txnRev i [] s = (s, [])"
| "executeOps K R txnRev i (op # ops) s =
     (let (s', resp) = executeOp K R op txnRev i s;
          (s'', resps) = executeOps K R txnRev (i + 1) ops s'
      in (s'', resp # resps))"

text \<open>\<open>Commit\<close>: \<^const>\<open>None\<close> is the panic of a condition.\<close>

definition ms_Commit ::
    "'t key_tree \<Rightarrow> 'r rev_tree \<Rightarrow> memoryTxn \<Rightarrow> ('t, 'r) MemoryStore \<Rightarrow> (('t, 'r) MemoryStore \<times> (mvcc_error + TxnResponse)) option" where
  "ms_Commit K R t s =
     (if ms_closed s then Some (s, Inl ErrClosed)
      else case eval_conditions K R (conditions t) s of
             None \<Rightarrow> None
           | Some succeeded \<Rightarrow>
               let ops = (if succeeded then thenOps t else elseOps t);
                   (g, r) = gen_Next (revisionGen s);
                   (s', responses) = executeOps K R r 0 ops (s\<lparr>revisionGen := g\<rparr>)
               in Some (s', Inr \<lparr>tr_Succeeded = succeeded, tr_Revision = Main r, tr_Responses = responses\<rparr>))"

end
