(* ===== verification/Mvcc_History.thy ===== *)
theory Mvcc_History
  imports Mvcc_Store
begin

text \<open>
  What the MVCC store promises, over the abstract state of a key's history: the list of its writes, each a
  revision and an entry, a tombstone being an entry of version 0.  \<open>history\<close> abstracts a store, \<open>spec_read\<close>
  reads a history at a revision, and \<open>spec_write\<close> and \<open>spec_erase\<close> are the two kinds of write.
\<close>

section \<open>Histories\<close>

type_synonym hist = "(Revision \<times> mvcc_kv) list"

definition history :: "'t key_tree \<Rightarrow> 'r rev_tree \<Rightarrow> ('t, 'r) MemoryStore \<Rightarrow> string \<Rightarrow> hist" where
  "history K R s k = map (\<lambda>r. (r, the (bt_Get R (revisionStore s) r))) (revs_of K (keyIndex s) k)"

definition spec_read :: "Revision \<Rightarrow> hist \<Rightarrow> mvcc_kv option" where
  "spec_read at h =
     (let xs = filter (\<lambda>(r, _). r \<le> at) h
      in if xs = [] \<or> mk_Version (snd (last xs)) = 0 then None else Some (snd (last xs)))"

definition spec_live :: "hist \<Rightarrow> bool" where
  "spec_live h \<longleftrightarrow> h \<noteq> [] \<and> mk_Version (snd (last h)) \<noteq> 0"

definition spec_entry :: "string \<Rightarrow> string \<Rightarrow> int \<Rightarrow> Revision \<Rightarrow> hist \<Rightarrow> mvcc_kv" where
  "spec_entry k val lease r h =
     \<lparr>mk_Key = k, mk_Value = val,
      mk_CreateRevision = (if spec_live h then mk_CreateRevision (snd (last h)) else Main r),
      mk_ModRevision = Main r,
      mk_Version = (if spec_live h then mk_Version (snd (last h)) + 1 else 1),
      mk_Lease = lease\<rparr>"

definition spec_tombstone :: "string \<Rightarrow> Revision \<Rightarrow> hist \<Rightarrow> mvcc_kv" where
  "spec_tombstone k r h =
     \<lparr>mk_Key = k, mk_Value = [], mk_CreateRevision = mk_CreateRevision (snd (last h)), mk_ModRevision = Main r,
      mk_Version = 0, mk_Lease = 0\<rparr>"

definition spec_write :: "string \<Rightarrow> string \<Rightarrow> int \<Rightarrow> Revision \<Rightarrow> (string \<Rightarrow> hist) \<Rightarrow> string \<Rightarrow> hist" where
  "spec_write k val lease r h = h(k := h k @ [(r, spec_entry k val lease r (h k))])"

definition spec_erase :: "string \<Rightarrow> Revision \<Rightarrow> (string \<Rightarrow> hist) \<Rightarrow> string \<Rightarrow> hist" where
  "spec_erase k r h = h(k := h k @ [(r, spec_tombstone k r (h k))])"

section \<open>The invariant\<close>

text \<open>
  Index and revision store agree, every revision was drawn from the generator, and a key's history is
  strictly increasing (that part is \<open>index_ok\<close>).
\<close>

definition ms_inv :: "'t key_tree \<Rightarrow> 'r rev_tree \<Rightarrow> ('t, 'r) MemoryStore \<Rightarrow> bool" where
  "ms_inv K R s \<longleftrightarrow>
     index_ok K (keyIndex s)
   \<and> (\<forall>k. \<forall>r \<in> set (revs_of K (keyIndex s) k).
        0 < Main r \<and> Main r \<le> Main (revisionGen s) \<and> 0 \<le> Sub r
        \<and> (\<exists>kv. bt_Get R (revisionStore s) r = Some kv \<and> mk_Key kv = k \<and> mk_ModRevision kv = Main r \<and> 0 \<le> mk_Version kv))
   \<and> (\<forall>r kv. bt_Get R (revisionStore s) r = Some kv \<longrightarrow> r \<in> set (revs_of K (keyIndex s) (mk_Key kv)))
   \<and> 0 \<le> Main (revisionGen s) \<and> 0 \<le> Sub (revisionGen s)"

text \<open>Without compaction a key is live in the index exactly when its last write is no tombstone.\<close>

definition ms_coherent :: "'t key_tree \<Rightarrow> 'r rev_tree \<Rightarrow> ('t, 'r) MemoryStore \<Rightarrow> bool" where
  "ms_coherent K R s \<longleftrightarrow> (\<forall>k. live_key K (keyIndex s) k = spec_live (history K R s k))"

definition fresh_rev :: "'t key_tree \<Rightarrow> Revision \<Rightarrow> ('t, 'r) MemoryStore \<Rightarrow> bool" where
  "fresh_rev K r s \<longleftrightarrow> 0 < Main r \<and> Main r \<le> Main (revisionGen s) \<and> 0 \<le> Sub r
     \<and> (\<forall>k. \<forall>q \<in> set (revs_of K (keyIndex s) k). q < r)"

lemma ms_invD:
  assumes "ms_inv K R s"
  shows "index_ok K (keyIndex s)"
    "r \<in> set (revs_of K (keyIndex s) k) \<Longrightarrow> 0 < Main r \<and> Main r \<le> Main (revisionGen s) \<and> 0 \<le> Sub r"
    "r \<in> set (revs_of K (keyIndex s) k) \<Longrightarrow>
       \<exists>kv. bt_Get R (revisionStore s) r = Some kv \<and> mk_Key kv = k \<and> mk_ModRevision kv = Main r \<and> 0 \<le> mk_Version kv"
    "bt_Get R (revisionStore s) r = Some kv \<Longrightarrow> r \<in> set (revs_of K (keyIndex s) (mk_Key kv))"
    "0 \<le> Main (revisionGen s)" "0 \<le> Sub (revisionGen s)"
  using assms unfolding ms_inv_def by blast+

lemma ms_inv_new: "btree_ok K \<Longrightarrow> btree_ok R \<Longrightarrow> ms_inv K R (NewMemoryStore K R)"
  by (simp add: ms_inv_def NewMemoryStore_def revs_of_def NewKeyIndex_def btree_simps NewRevisionGenerator_def
      index_ok_def)

lemma ms_coherent_new: "btree_ok K \<Longrightarrow> btree_ok R \<Longrightarrow> ms_coherent K R (NewMemoryStore K R)"
  by (simp add: ms_coherent_def NewMemoryStore_def revs_of_def NewKeyIndex_def btree_simps live_key_def spec_live_def
      history_def)

lemma history_empty_iff: "history K R s k = [] \<longleftrightarrow> revs_of K (keyIndex s) k = []"
  by (simp add: history_def)

lemma history_entries:
  assumes "ms_inv K R s" "(r, kv) \<in> set (history K R s k)"
  shows "bt_Get R (revisionStore s) r = Some kv" "mk_Key kv = k" "mk_ModRevision kv = Main r" "0 \<le> mk_Version kv"
    "0 < Main r" "Main r \<le> Main (revisionGen s)" "0 \<le> Sub r"
  using assms ms_invD(2,3) [OF assms(1), of r k] by (auto simp: history_def)

lemma last_history:
  "revs_of K (keyIndex s) k \<noteq> [] \<Longrightarrow>
     last (history K R s k) = (last (revs_of K (keyIndex s) k), the (bt_Get R (revisionStore s) (last (revs_of K (keyIndex s) k))))"
  by (simp add: history_def last_map)

section \<open>Live keys and their last entries\<close>

lemma live_item_iff: "(live_item K k s \<noteq> None) = live_key K (keyIndex s) k"
  by (auto simp: live_item_def live_key_def idx_Get_def split: option.splits)

lemma live_item_last:
  assumes inv: "ms_inv K R s" and ki: "live_item K k s = Some ki"
  shows "last_kv R ki s = Some (snd (last (history K R s k)))" "history K R s k \<noteq> []"
proof -
  have get: "bt_Get K (keyIndex s) k = Some ki" "\<not> IsDeleted ki"
    using ki by (auto simp: live_item_def idx_Get_def split: option.splits if_splits)
  note ok = index_okD [OF ms_invD(1) [OF inv] get(1)]
  note last = last_all_revs [OF ok(2) get(2)]
  have revs: "revs_of K (keyIndex s) k = all_revs ki"
    using get by (simp add: revs_of_def)
  then obtain kv where kv: "bt_Get R (revisionStore s) (last (all_revs ki)) = Some kv" "0 < Main (last (all_revs ki))"
    using ms_invD(2,3) [OF inv, of "last (all_revs ki)" k] last(2) by (auto simp: last_in_set)
  then have "last (all_revs ki) \<noteq> Zero"
    by (auto simp: Zero_def)
  then show "last_kv R ki s = Some (snd (last (history K R s k)))"
    using kv last revs by (simp add: last_kv_def CurrentGeneration_last ok(2) Let_def last_history)
  show "history K R s k \<noteq> []"
    using revs last(2) by (simp add: history_empty_iff)
qed

lemma live_kv_history:
  assumes "ms_inv K R s"
  shows "live_kv K R k s = (if live_key K (keyIndex s) k then Some (snd (last (history K R s k))) else None)"
  using live_item_iff [of K k s] live_item_last [OF assms]
  by (cases "live_item K k s") (auto simp: live_kv_def)

lemma new_entry_spec:
  assumes "ms_inv K R s" "ms_coherent K R s"
  shows "new_entry K R k val lease r s = spec_entry k val lease r (history K R s k)"
  using assms live_item_iff [of K k s] live_item_last [OF assms(1), of k]
  by (cases "live_item K k s") (auto simp: new_entry_def spec_entry_def ms_coherent_def)

lemma new_entry_fields:
  "mk_Key (new_entry K R k val lease r s) = k" "mk_ModRevision (new_entry K R k val lease r s) = Main r"
  by (simp_all add: new_entry_def Let_def case_prod_unfold)

lemma new_entry_version:
  assumes "ms_inv K R s"
  shows "1 \<le> mk_Version (new_entry K R k val lease r s)"
proof (cases "live_item K k s")
  case (Some ki)
  note l = live_item_last [OF assms Some]
  have "0 \<le> mk_Version (snd (last (history K R s k)))"
    using history_entries(4) [OF assms] l(2) by (metis last_in_set prod.collapse)
  then show ?thesis
    using Some l by (simp add: new_entry_def)
qed (simp add: new_entry_def)

lemma tombstone_spec:
  assumes "ms_inv K R s" "live_item K k s = Some ki"
  shows "tombstone R k ki r s = spec_tombstone k r (history K R s k)"
  using live_item_last [OF assms] by (simp add: tombstone_def spec_tombstone_def)

section \<open>One write\<close>

lemma fresh_not_stored:
  assumes "ms_inv K R s" "fresh_rev K r s"
  shows "bt_Get R (revisionStore s) r = None"
proof (rule ccontr)
  assume "bt_Get R (revisionStore s) r \<noteq> None"
  then have "\<exists>k. r \<in> set (revs_of K (keyIndex s) k)"
    using ms_invD(4) [OF assms(1)] by blast
  with assms(2) show False
    by (auto simp: fresh_rev_def)
qed

text \<open>The effect of storing one entry at a fresh revision and indexing it, whether a put or a deletion.\<close>

lemma stored_write:
  assumes K: "btree_ok K" and R: "btree_ok R" and inv: "ms_inv K R s" and fresh: "fresh_rev K r s"
    and idx: "index_ok K idx'" "\<And>j. revs_of K idx' j = (if j = k then revs_of K (keyIndex s) k @ [r] else revs_of K (keyIndex s) j)"
    and kv: "mk_Key kv = k" "mk_ModRevision kv = Main r" "0 \<le> mk_Version kv"
    and s': "s' = s\<lparr>revisionStore := bt_ReplaceOrInsert R r kv (revisionStore s), keyIndex := idx'\<rparr>"
  shows "ms_inv K R s'" "history K R s' = (history K R s)(k := history K R s k @ [(r, kv)])"
    "r < r' \<Longrightarrow> Main r' = Main r \<Longrightarrow> fresh_rev K r' s'"
proof -
  have revs: "revs_of K (keyIndex s') j = (if j = k then revs_of K (keyIndex s) k @ [r] else revs_of K (keyIndex s) j)" for j
    using idx(2) by (simp add: s')
  have get: "bt_Get R (revisionStore s') = (bt_Get R (revisionStore s))(r \<mapsto> kv)"
    by (simp add: s' btree_simps [OF R])
  have less: "q < r" if "q \<in> set (revs_of K (keyIndex s) j)" for q j
    using fresh that by (simp add: fresh_rev_def)
  have r: "0 < Main r" "Main r \<le> Main (revisionGen s)" "0 \<le> Sub r"
    using fresh by (simp_all add: fresh_rev_def)
  have old: "0 < Main q \<and> Main q \<le> Main (revisionGen s) \<and> 0 \<le> Sub q \<and> (\<exists>kv. bt_Get R (revisionStore s') q = Some kv
      \<and> mk_Key kv = j \<and> mk_ModRevision kv = Main q \<and> 0 \<le> mk_Version kv)" if "q \<in> set (revs_of K (keyIndex s) j)" for q j
    using ms_invD(2,3) [OF inv that] less [OF that] by (auto simp: get)
  have new: "\<exists>kv. bt_Get R (revisionStore s') r = Some kv \<and> mk_Key kv = k \<and> mk_ModRevision kv = Main r \<and> 0 \<le> mk_Version kv"
    using kv by (simp add: get)
  have indexed: "q \<in> set (revs_of K (keyIndex s') (mk_Key kv'))" if "bt_Get R (revisionStore s') q = Some kv'" for q kv'
    using that ms_invD(4) [OF inv, of q kv'] kv(1) by (auto simp: get revs split: if_splits)
  show "ms_inv K R s'"
    unfolding ms_inv_def
  proof (intro conjI allI ballI impI)
    fix j q assume q: "q \<in> set (revs_of K (keyIndex s') j)"
    then have "q \<in> set (revs_of K (keyIndex s) j) \<or> q = r \<and> j = k"
      by (auto simp: revs split: if_splits)
    then show "0 < Main q" "Main q \<le> Main (revisionGen s')" "0 \<le> Sub q"
      "\<exists>kv. bt_Get R (revisionStore s') q = Some kv \<and> mk_Key kv = j \<and> mk_ModRevision kv = Main q \<and> 0 \<le> mk_Version kv"
      using old [of q j] new r by (auto simp: s')
  qed (use idx(1) indexed ms_invD(5,6) [OF inv] in \<open>simp_all add: s'\<close>)
  show "history K R s' = (history K R s)(k := history K R s k @ [(r, kv)])"
  proof
    fix j
    have "map (\<lambda>q. (q, the (bt_Get R (revisionStore s') q))) (revs_of K (keyIndex s) j) = history K R s j"
      using less by (auto simp: history_def get)
    then show "history K R s' j = ((history K R s)(k := history K R s k @ [(r, kv)])) j"
      by (auto simp: history_def revs get)
  qed
  show "fresh_rev K r' s'" if "r < r'" "Main r' = Main r"
  proof -
    have "0 \<le> Sub r'"
      using that r(3) by (auto simp: less_Revision_def)
    moreover have "q < r'" if "q \<in> set (revs_of K (keyIndex s') j)" for q j
      using that less [of q j] \<open>r < r'\<close> by (auto simp: revs split: if_splits)
    ultimately show ?thesis
      using r that by (simp add: fresh_rev_def s')
  qed
qed

lemma fresh_later: "fresh_rev K (Revision m i) s \<Longrightarrow> i \<le> j \<Longrightarrow> fresh_rev K (Revision m j) s"
  by (force simp: fresh_rev_def less_Revision_def)

lemma fresh_next:
  assumes "ms_inv K R s" "gen_Next (revisionGen s) = (g, r)"
  shows "ms_inv K R (s\<lparr>revisionGen := g\<rparr>)" "fresh_rev K r (s\<lparr>revisionGen := g\<rparr>)" "r = Revision (Main (revisionGen s) + 1) 0" "g = r"
  using assms by (auto simp: gen_Next_def Let_def ms_inv_def fresh_rev_def less_Revision_def)
    (smt (verit, best))+

lemma history_gen [simp]: "history K R (s\<lparr>revisionGen := g\<rparr>) = history K R s"
  by (rule ext) (simp add: history_def)

lemma coherent_gen [simp]: "ms_coherent K R (s\<lparr>revisionGen := g\<rparr>) = ms_coherent K R s"
  by (simp add: ms_coherent_def)

text \<open>The fields a write leaves alone.\<close>

definition same_frame :: "('t, 'r) MemoryStore \<Rightarrow> ('t, 'r) MemoryStore \<Rightarrow> bool" where
  "same_frame s s' \<longleftrightarrow> revisionGen s' = revisionGen s \<and> compactedRev s' = compactedRev s \<and> ms_closed s' = ms_closed s"

lemma same_frame_refl [simp]: "same_frame s s"
  by (simp add: same_frame_def)

lemma same_frame_trans: "same_frame s s' \<Longrightarrow> same_frame s' s'' \<Longrightarrow> same_frame s s''"
  by (simp add: same_frame_def)

lemma write_entry_laws:
  fixes k val :: string and lease :: int
  assumes K: "btree_ok K" and R: "btree_ok R" and inv: "ms_inv K R s" and fresh: "fresh_rev K r s"
  defines "s' \<equiv> write_entry K R k val lease r s"
  shows "ms_inv K R s'" "history K R s' = (history K R s)(k := history K R s k @ [(r, new_entry K R k val lease r s)])"
    "r < r' \<Longrightarrow> Main r' = Main r \<Longrightarrow> fresh_rev K r' s'" "same_frame s s'"
    "ms_coherent K R s \<Longrightarrow> ms_coherent K R s'"
proof -
  have new: "q < r" if "q \<in> set (revs_of K (keyIndex s) k)" for q
    using fresh that by (simp add: fresh_rev_def)
  let ?kv = "new_entry K R k val lease r s" and ?idx = "idx_Put K k r (keyIndex s)"
  have put: "index_ok K ?idx" "revs_of K ?idx j = (if j = k then revs_of K (keyIndex s) k @ [r] else revs_of K (keyIndex s) j)"
    "live_key K ?idx j = (j = k \<or> live_key K (keyIndex s) j)" for j
    by (rule idx_Put_laws [OF K ms_invD(1) [OF inv]], erule new)+
  have s': "s' = s\<lparr>revisionStore := bt_ReplaceOrInsert R r ?kv (revisionStore s), keyIndex := ?idx\<rparr>"
    by (simp add: s'_def write_entry_def)
  have version: "1 \<le> mk_Version ?kv"
    by (rule new_entry_version [OF inv])
  then have "0 \<le> mk_Version ?kv"
    by simp
  note w = stored_write [OF K R inv fresh put(1,2) new_entry_fields this s']
  show "ms_inv K R s'"
    by (rule w(1))
  show hist: "history K R s' = (history K R s)(k := history K R s k @ [(r, new_entry K R k val lease r s)])"
    by (rule w(2))
  show "r < r' \<Longrightarrow> Main r' = Main r \<Longrightarrow> fresh_rev K r' s'"
    by (rule w(3))
  show "same_frame s s'"
    by (simp add: same_frame_def s'_def write_entry_def)
  have "live_key K (keyIndex s') j = (j = k \<or> live_key K (keyIndex s) j)" for j
    using put(3) by (simp add: s')
  then show "ms_coherent K R s'" if "ms_coherent K R s"
    using that version by (auto simp: ms_coherent_def hist spec_live_def)
qed

lemma put_tombstone_laws:
  assumes K: "btree_ok K" and R: "btree_ok R" and inv: "ms_inv K R s" and fresh: "fresh_rev K r s"
    and ki: "live_item K k s = Some ki"
  defines "s' \<equiv> put_tombstone K R k ki r s"
  shows "ms_inv K R s'" "history K R s' = spec_erase k r (history K R s)"
    "r < r' \<Longrightarrow> Main r' = Main r \<Longrightarrow> fresh_rev K r' s'" "same_frame s s'"
    "ms_coherent K R s \<Longrightarrow> ms_coherent K R s'" "live_key K (keyIndex s') j = (j \<noteq> k \<and> live_key K (keyIndex s) j)"
proof -
  have new: "q < r" if "q \<in> set (revs_of K (keyIndex s) k)" for q
    using fresh that by (simp add: fresh_rev_def)
  have live: "live_key K (keyIndex s) k"
    using ki live_item_iff [of K k s] by simp
  let ?idx = "fst (idx_Delete K k r (keyIndex s))"
  have del: "index_ok K ?idx" "revs_of K ?idx j = (if j = k then revs_of K (keyIndex s) k @ [r] else revs_of K (keyIndex s) j)"
    "live_key K ?idx j = (j \<noteq> k \<and> live_key K (keyIndex s) j)" for j
    by (rule idx_Delete_laws(2-4) [OF K ms_invD(1) [OF inv] _ live], erule new)+
  have s': "s' = s\<lparr>revisionStore := bt_ReplaceOrInsert R r (tombstone R k ki r s) (revisionStore s), keyIndex := ?idx\<rparr>"
    by (simp add: s'_def put_tombstone_def)
  have "mk_Key (tombstone R k ki r s) = k" "mk_ModRevision (tombstone R k ki r s) = Main r" "0 \<le> mk_Version (tombstone R k ki r s)"
    by (simp_all add: tombstone_def)
  note w = stored_write [OF K R inv fresh del(1,2) this s']
  show "ms_inv K R s'"
    by (rule w(1))
  show hist: "history K R s' = spec_erase k r (history K R s)"
    using w(2) tombstone_spec [OF inv ki] by (simp add: spec_erase_def)
  show "r < r' \<Longrightarrow> Main r' = Main r \<Longrightarrow> fresh_rev K r' s'"
    by (rule w(3))
  show "same_frame s s'"
    by (simp add: same_frame_def s'_def put_tombstone_def)
  show live': "live_key K (keyIndex s') j = (j \<noteq> k \<and> live_key K (keyIndex s) j)" for j
    using del(3) by (simp add: s')
  show "ms_coherent K R s'" if "ms_coherent K R s"
    using that live' by (simp add: ms_coherent_def hist spec_erase_def spec_live_def spec_tombstone_def)
qed

section \<open>Reading\<close>

lemma spec_read_history:
  assumes inv: "ms_inv K R s"
  shows "spec_read at (history K R s k) =
    (let r = newest_upto at (revs_of K (keyIndex s) k)
     in if r = Zero then None
        else case bt_Get R (revisionStore s) r of None \<Rightarrow> None | Some kv \<Rightarrow> if mk_Version kv = 0 then None else Some kv)"
proof -
  let ?revs = "filter (\<lambda>r. r \<le> at) (revs_of K (keyIndex s) k)"
  have filter: "filter (\<lambda>(r, _). r \<le> at) (history K R s k) = map (\<lambda>r. (r, the (bt_Get R (revisionStore s) r))) ?revs"
    by (simp add: history_def filter_map comp_def)
  show ?thesis
  proof (cases "?revs = []")
    case True
    then show ?thesis
      by (simp add: spec_read_def filter newest_upto_def Let_def)
  next
    case False
    then have mem: "last ?revs \<in> set (revs_of K (keyIndex s) k)"
      using last_in_set by fastforce
    then have "last ?revs \<noteq> Zero"
      using ms_invD(2) [OF inv] by (force simp: Zero_def)
    moreover obtain kv where "bt_Get R (revisionStore s) (last ?revs) = Some kv"
      using ms_invD(3) [OF inv mem] by blast
    ultimately show ?thesis
      using False by (simp add: spec_read_def filter newest_upto_def Let_def last_map)
  qed
qed

lemma ms_Get_spec:
  assumes inv: "ms_inv K R s"
  shows "ms_Get K R k rv s =
    (if k = [] then Inl ErrEmptyKey else if ms_closed s then Inl ErrClosed
     else case check_revision (read_revision rv s) s of
            Some e \<Rightarrow> Inl e
          | None \<Rightarrow> (case spec_read (read_revision rv s) (history K R s k) of None \<Rightarrow> Inl ErrKeyNotFound | Some kv \<Rightarrow> Inr kv))"
  by (auto simp: ms_Get_def spec_read_history [OF inv] GetRevision_newest ms_invD(1) [OF inv] Let_def
      split: option.splits)

text \<open>An index scan at a revision offers the keys that have a write by then, in key order.\<close>

lemma scan_keys_at:
  assumes K: "btree_ok K" and inv: "ms_inv K R s" and "at \<noteq> Zero"
  shows "(k, r) \<in> set (scan_keys K start end at (keyIndex s)) \<longleftrightarrow>
    start \<le> k \<and> before_end end k \<and> r = newest_upto at (revs_of K (keyIndex s) k) \<and> r \<noteq> Zero"
proof -
  have mem: "(k, ki) \<in> set (bt_Ascend K (keyIndex s)) \<longleftrightarrow> bt_Get K (keyIndex s) k = Some ki" for ki
    by (rule btree_simps(4) [OF K])
  have cur: "current_revision at ki = newest_upto at (revs_of K (keyIndex s) k)" if "bt_Get K (keyIndex s) k = Some ki" for ki
    by (rule current_revision_find [OF ms_invD(1) [OF inv] that assms(3)])
  have "newest_upto at (revs_of K (keyIndex s) k) = Zero" if "bt_Get K (keyIndex s) k = None"
    using that by (simp add: revs_of_def newest_upto_def)
  then show ?thesis
    using cur by (cases "bt_Get K (keyIndex s) k") (auto simp: scan_keys_def image_iff mem)
qed

lemma range_visit_loop:
  assumes inv: "ms_inv K R s" and items: "\<And>k r. (k, r) \<in> set items \<Longrightarrow> r = newest_upto at (revs_of K (keyIndex s) k) \<and> r \<noteq> Zero"
    and "limit > 0 \<Longrightarrow> int (length res) \<le> limit"
  shows "ascend_loop (\<lambda>(k, r). range_visit R limit s k r) items (res, int (length res)) =
    (let kvs = res @ List.map_filter (\<lambda>(k, r). spec_read at (history K R s k)) items;
         out = (if limit > 0 then take (nat limit) kvs else kvs)
     in (out, int (length out)))"
  using assms(2,3)
proof (induction items arbitrary: res)
  case Nil
  then show ?case
    by (cases "limit > 0") (simp_all add: map_filter_simps Let_def)
next
  case (Cons item items)
  obtain k r where item: "item = (k, r)"
    by force
  then have r: "r = newest_upto at (revs_of K (keyIndex s) k)" "r \<noteq> Zero"
    using Cons.prems(1) [of k r] by auto
  note read = spec_read_history [OF inv, of at k]
  have IH: "ascend_loop (\<lambda>(k, r). range_visit R limit s k r) items (res', int (length res')) =
    (let kvs = res' @ List.map_filter (\<lambda>(k, r). spec_read at (history K R s k)) items;
         out = (if limit > 0 then take (nat limit) kvs else kvs)
     in (out, int (length out)))" if "limit > 0 \<Longrightarrow> int (length res') \<le> limit" for res'
    using Cons.prems(1) that by (intro Cons.IH) auto
  show ?case
  proof (cases "limit > 0 \<and> int (length res) \<ge> limit")
    case True
    then have "length res = nat limit"
      using Cons.prems(2) by simp
    with True show ?thesis
      by (simp add: item range_visit_def Let_def)
  next
    case False
    show ?thesis
    proof (cases "spec_read at (history K R s k)")
      case None
      then have "range_visit R limit s k r (res, int (length res)) = ((res, int (length res)), True)"
        using read r False by (auto simp: range_visit_def Let_def split: option.splits if_splits)
      then show ?thesis
        using IH [of res] Cons.prems(2) None by (simp add: item map_filter_simps)
    next
      case (Some kv)
      then have "range_visit R limit s k r (res, int (length res)) = ((res @ [kv], int (length (res @ [kv]))), True)"
        using read r False by (auto simp: range_visit_def Let_def split: option.splits if_splits)
      moreover have "limit > 0 \<Longrightarrow> int (length (res @ [kv])) \<le> limit"
        using False by auto
      note IH [OF this]
      ultimately show ?thesis
        using Some by (simp add: item map_filter_simps)
    qed
  qed
qed

lemma mem_image_fst: "k \<in> fst ` A \<longleftrightarrow> (\<exists>v. (k, v) \<in> A)"
  by force

lemma ms_Range_spec:
  assumes K: "btree_ok K" and inv: "ms_inv K R s" and ok: "start \<noteq> []" "\<not> ms_closed s" "check_revision (read_revision rv s) s = None"
  shows "\<exists>keys. sorted keys \<and> distinct keys
    \<and> set keys = {k. start \<le> k \<and> before_end end k \<and> spec_read (read_revision rv s) (history K R s k) \<noteq> None}
    \<and> ms_Range K R start end rv limit s =
        (let kvs = map (\<lambda>k. the (spec_read (read_revision rv s) (history K R s k))) keys;
             out = (if limit > 0 then take (nat limit) kvs else kvs)
         in Inr (out, int (length out)))"
proof (cases "read_revision rv s = Zero")
  case True
  then have "revisionGen s = Zero"
    using ok(3) by (auto simp: read_revision_def gen_Current_def Zero_def split: if_splits)
  then have none: "revs_of K (keyIndex s) k = []" for k
    using ms_invD(2) [OF inv, of _ k] by (cases "revs_of K (keyIndex s) k") (fastforce simp: Zero_def)+
  have "current_revision Zero ki = Zero" if "bt_Get K (keyIndex s) k = Some ki" for k ki
  proof -
    have "all_revs ki = []"
      using none [of k] that by (simp add: revs_of_def)
    then have "\<not> live_key K (keyIndex s) k"
      using that last_all_revs(2) index_okD(2) [OF ms_invD(1) [OF inv] that] by (auto simp: live_key_def)
    then show ?thesis
      using current_revision_live [OF ms_invD(1) [OF inv] that] by simp
  qed
  then have "scan_keys K start end Zero (keyIndex s) = []"
    by (auto simp: scan_keys_def filter_empty_conv btree_simps [OF K])
  with True none ok show ?thesis
    by (intro exI [of _ "[]"])
       (simp add: ms_Range_def idx_Range_scan [OF K ms_invD(1) [OF inv]] spec_read_def history_def Let_def)
next
  case False
  let ?at = "read_revision rv s"
  let ?items = "scan_keys K start end ?at (keyIndex s)"
  let ?read = "\<lambda>k. spec_read ?at (history K R s k)"
  let ?keys = "filter (\<lambda>k. ?read k \<noteq> None) (map fst ?items)"
  note scan = scan_keys_at [OF K inv False]
  have "newest_upto ?at (revs_of K (keyIndex s) k) \<noteq> Zero" if "?read k \<noteq> None" for k
    using that spec_read_history [OF inv, of ?at k] by (auto simp: Let_def)
  moreover have "k \<in> set (map fst ?items) \<longleftrightarrow> start \<le> k \<and> before_end end k \<and> newest_upto ?at (revs_of K (keyIndex s) k) \<noteq> Zero" for k
    by (simp add: mem_image_fst scan)
  ultimately have "set ?keys = {k. start \<le> k \<and> before_end end k \<and> ?read k \<noteq> None}"
    by (auto simp del: set_map)
  moreover have "sorted ?keys" "distinct ?keys"
    using index_scan_sorted [OF K] by (simp_all add: sorted_filter [where f = id, simplified])
  moreover have "List.map_filter (\<lambda>(k, r). ?read k) ?items = map (\<lambda>k. the (?read k)) ?keys"
    by (simp add: List.map_filter_def filter_map comp_def case_prod_unfold)
  moreover have "ms_Range K R start end rv limit s =
        (let kvs = List.map_filter (\<lambda>(k, r). ?read k) ?items;
             out = (if limit > 0 then take (nat limit) kvs else kvs)
         in Inr (out, int (length out)))"
    using range_visit_loop [OF inv, of ?items ?at limit "[]"] scan ok
    by (simp add: ms_Range_def idx_Range_scan [OF K ms_invD(1) [OF inv]] Let_def)
  ultimately show ?thesis
    by (intro exI [of _ ?keys]) simp
qed

section \<open>Range deletion\<close>

lemma ascend_append: "ascend_loop (\<lambda>(k, r) ks. (ks @ [k], True)) items acc = acc @ map fst items"
  by (induction items arbitrary: acc) auto

lemma collect_keys_live:
  assumes K: "btree_ok K" and inv: "ms_inv K R s"
  shows "sorted (collect_keys K start end s)" "distinct (collect_keys K start end s)"
    "set (collect_keys K start end s) = {k. start \<le> k \<and> before_end end k \<and> live_key K (keyIndex s) k}"
proof -
  have eq: "collect_keys K start end s = map fst (scan_keys K start end Zero (keyIndex s))"
    by (simp add: collect_keys_def idx_Range_scan [OF K ms_invD(1) [OF inv]] ascend_append [of _ "[]", simplified])
  show "sorted (collect_keys K start end s)" "distinct (collect_keys K start end s)"
    using index_scan_sorted [OF K] by (simp_all add: eq)
  have cur: "current_revision Zero ki \<noteq> Zero \<longleftrightarrow> live_key K (keyIndex s) k" if "bt_Get K (keyIndex s) k = Some ki" for k ki
  proof (cases "live_key K (keyIndex s) k")
    case True
    then have "revs_of K (keyIndex s) k \<noteq> []"
      using that index_okD(2) [OF ms_invD(1) [OF inv] that] last_all_revs(2) by (auto simp: live_key_def revs_of_def)
    then have "last (revs_of K (keyIndex s) k) \<noteq> Zero"
      using ms_invD(2) [OF inv, of "last (revs_of K (keyIndex s) k)" k] by (auto simp: Zero_def)
    with True show ?thesis
      by (simp add: current_revision_live [OF ms_invD(1) [OF inv] that])
  qed (simp add: current_revision_live [OF ms_invD(1) [OF inv] that])
  have "(k, r) \<in> set (scan_keys K start end Zero (keyIndex s)) \<longleftrightarrow>
      start \<le> k \<and> before_end end k \<and> (\<exists>ki. bt_Get K (keyIndex s) k = Some ki \<and> r = current_revision Zero ki \<and> r \<noteq> Zero)" for k r
    by (auto simp: scan_keys_def image_iff btree_simps(4) [OF K])
  then have "k \<in> set (map fst (scan_keys K start end Zero (keyIndex s))) \<longleftrightarrow>
      start \<le> k \<and> before_end end k \<and> (\<exists>ki. bt_Get K (keyIndex s) k = Some ki \<and> current_revision Zero ki \<noteq> Zero)" for k
    by (simp add: mem_image_fst)
  moreover have "(\<exists>ki. bt_Get K (keyIndex s) k = Some ki \<and> current_revision Zero ki \<noteq> Zero) = live_key K (keyIndex s) k" for k
    using cur by (cases "bt_Get K (keyIndex s) k") (auto simp: live_key_def)
  ultimately show "set (collect_keys K start end s) = {k. start \<le> k \<and> before_end end k \<and> live_key K (keyIndex s) k}"
    unfolding eq by auto
qed

fun spec_erase_all :: "int \<Rightarrow> int \<Rightarrow> string list \<Rightarrow> (string \<Rightarrow> hist) \<Rightarrow> string \<Rightarrow> hist" where
  "spec_erase_all m i [] h = h"
| "spec_erase_all m i (k # ks) h = spec_erase_all m (i + 1) ks (spec_erase k (Revision m i) h)"

lemma delete_keys_loop_laws:
  assumes K: "btree_ok K" and R: "btree_ok R" and "ms_inv K R s" "fresh_rev K (Revision m i) s"
    and "distinct keys" "\<And>k. k \<in> set keys \<Longrightarrow> live_key K (keyIndex s) k"
  shows "case delete_keys_loop K R m i keys (s, d, l) of (s', d', l') \<Rightarrow>
      ms_inv K R s' \<and> fresh_rev K (Revision m (i + int (length keys))) s' \<and> same_frame s s'
    \<and> history K R s' = spec_erase_all m i keys (history K R s)
    \<and> (ms_coherent K R s \<longrightarrow> ms_coherent K R s')
    \<and> d' = d + int (length keys) \<and> l' = (if keys = [] then l else i + int (length keys) - 1)"
  using assms(3-)
proof (induction keys arbitrary: s i d l)
  case (Cons k keys)
  obtain ki where ki: "live_item K k s = Some ki"
    using Cons.prems(4) [of k] live_item_iff [of K k s] by auto
  let ?s = "put_tombstone K R k ki (Revision m i) s"
  note t = put_tombstone_laws [OF K R Cons.prems(1,2) ki]
  have fresh: "fresh_rev K (Revision m (i + 1)) ?s"
    by (rule t(3)) simp_all
  have live: "live_key K (keyIndex ?s) k'" if "k' \<in> set keys" for k'
    using that Cons.prems(3,4) by (auto simp: t(6))
  have "distinct keys"
    using Cons.prems(3) by simp
  note IH = Cons.IH [OF t(1) fresh this live, of "d + 1" i]
  show ?case
    using IH t(4,5) by (auto simp: ki t(2) ac_simps intro: same_frame_trans)
qed (auto simp: case_prod_unfold)

lemma ms_DeleteRange_cases:
  assumes K: "btree_ok K" and R: "btree_ok R" and inv: "ms_inv K R s" and ok: "start \<noteq> []" "\<not> ms_closed s"
    and res: "ms_DeleteRange K R start end s = (s', out)"
  defines "keys \<equiv> collect_keys K start end s" and "m \<equiv> Main (revisionGen s) + 1"
  shows "keys = [] \<Longrightarrow> s' = s \<and> out = Inr (Main (revisionGen s), 0)"
    "keys \<noteq> [] \<Longrightarrow> out = Inr (m, int (length keys)) \<and> history K R s' = spec_erase_all m 0 keys (history K R s)
       \<and> revisionGen s' = Revision m (int (length keys) - 1)"
    "ms_inv K R s'" "ms_coherent K R s \<Longrightarrow> ms_coherent K R s'" "compactedRev s' = compactedRev s" "ms_closed s' = ms_closed s"
proof -
  show "keys = [] \<Longrightarrow> s' = s \<and> out = Inr (Main (revisionGen s), 0)"
    using res ok by (auto simp: ms_DeleteRange_def keys_def gen_Current_def Let_def)
  obtain g r where gr: "gen_Next (revisionGen s) = (g, r)"
    by force
  note nx = fresh_next [OF inv gr]
  let ?s = "s\<lparr>revisionGen := g\<rparr>"
  obtain s1 d l where loop: "delete_keys_loop K R m 0 keys (?s, 0, 0) = (s1, d, l)"
    by (cases "delete_keys_loop K R m 0 keys (?s, 0, 0)")
  have live: "k \<in> set keys \<Longrightarrow> live_key K (keyIndex ?s) k" for k
    using collect_keys_live(3) [OF K inv, of start "end"] by (simp add: keys_def)
  have fresh: "fresh_rev K (Revision m 0) ?s"
    using nx(2,3) by (simp add: m_def)
  have "distinct keys"
    using collect_keys_live(2) [OF K inv] by (simp add: keys_def)
  from delete_keys_loop_laws [OF K R nx(1) fresh this live, of 0 0]
  have l: "ms_inv K R s1" "same_frame ?s s1" "history K R s1 = spec_erase_all m 0 keys (history K R s)"
    "ms_coherent K R s \<longrightarrow> ms_coherent K R s1" "d = int (length keys)" "keys \<noteq> [] \<longrightarrow> l = int (length keys) - 1"
    by (auto simp: loop)
  have s': "s' = (if keys = [] then s else if d > 0 \<and> l > 0 then s1\<lparr>revisionGen := Revision (Main (revisionGen s1)) l\<rparr> else s1)"
    "keys \<noteq> [] \<Longrightarrow> out = Inr (m, d)"
    using res ok gr loop nx(3) by (auto simp: ms_DeleteRange_def keys_def [symmetric] m_def gen_Current_def Let_def split: if_splits)
  have gen: "revisionGen s1 = Revision m 0"
    using l(2) nx(3,4) by (simp add: same_frame_def m_def)
  show "keys \<noteq> [] \<Longrightarrow> out = Inr (m, int (length keys)) \<and> history K R s' = spec_erase_all m 0 keys (history K R s)
       \<and> revisionGen s' = Revision m (int (length keys) - 1)"
    using s' l gen by (auto simp: not_less le_Suc_eq)
  have inv1: "ms_inv K R (s1\<lparr>revisionGen := Revision (Main (revisionGen s1)) l\<rparr>)" if "l > 0"
    using l(1) that unfolding ms_inv_def by simp
  then show "ms_inv K R s'"
    using s'(1) l(1) inv by auto
  show "ms_coherent K R s \<Longrightarrow> ms_coherent K R s'"
    using s'(1) l(4) by auto
  show "compactedRev s' = compactedRev s" "ms_closed s' = ms_closed s"
    using s'(1) l(2) by (auto simp: same_frame_def)
qed

section \<open>Transactions\<close>

definition spec_current :: "hist \<Rightarrow> mvcc_kv option" where
  "spec_current h = (if spec_live h then Some (snd (last h)) else None)"

definition spec_live_keys :: "string \<Rightarrow> string option \<Rightarrow> (string \<Rightarrow> hist) \<Rightarrow> string list" where
  "spec_live_keys start end h = sorted_list_of_set {k. start \<le> k \<and> before_end end k \<and> spec_live (h k)}"

definition spec_condition :: "Condition \<Rightarrow> (string \<Rightarrow> hist) \<Rightarrow> bool option" where
  "spec_condition c h =
     (let kv = spec_current (h (c_Key c)); num = (\<lambda>f. Int64 (case kv of Some kv \<Rightarrow> f kv | None \<Rightarrow> 0))
      in cmp_compare
           (case c_Target c of
              ConditionTargetVersion \<Rightarrow> num mk_Version
            | ConditionTargetCreateRevision \<Rightarrow> num mk_CreateRevision
            | ConditionTargetModRevision \<Rightarrow> num mk_ModRevision
            | ConditionTargetValue \<Rightarrow> ByteSlice (case kv of Some kv \<Rightarrow> mk_Value kv | None \<Rightarrow> [])
            | ConditionTargetOther _ \<Rightarrow> NilValue) (c_Compare c) (c_Value c))"

text \<open>All conditions in turn, up to the first that fails or panics.\<close>

fun spec_conditions :: "Condition list \<Rightarrow> (string \<Rightarrow> hist) \<Rightarrow> bool option" where
  "spec_conditions [] h = Some True"
| "spec_conditions (c # cs) h = (case spec_condition c h of Some True \<Rightarrow> spec_conditions cs h | res \<Rightarrow> res)"

definition spec_txn_op :: "int \<Rightarrow> nat \<Rightarrow> Op \<Rightarrow> (string \<Rightarrow> hist) \<Rightarrow> (string \<Rightarrow> hist) \<times> OpResponse" where
  "spec_txn_op m i op h =
     (let r = Revision m (int i); k = o_Key op; resp = empty_response (o_Type op)
      in case o_Type op of
           OpTypePut \<Rightarrow> (spec_write k (o_Value op) (o_Lease op) r h, resp)
         | OpTypeGet \<Rightarrow>
             (h, resp\<lparr>or_Kvs := (case o_End op of
                  None \<Rightarrow> (case spec_current (h k) of Some kv \<Rightarrow> [kv] | None \<Rightarrow> [])
                | Some e \<Rightarrow> map (\<lambda>k. snd (last (h k))) (spec_live_keys k (Some e) h))\<rparr>)
         | OpTypeDelete \<Rightarrow> if spec_live (h k) then (spec_erase k r h, resp\<lparr>or_Deleted := 1\<rparr>) else (h, resp)
         | _ \<Rightarrow> (h, resp))"

fun spec_txn_ops :: "int \<Rightarrow> nat \<Rightarrow> Op list \<Rightarrow> (string \<Rightarrow> hist) \<Rightarrow> (string \<Rightarrow> hist) \<times> OpResponse list" where
  "spec_txn_ops m i [] h = (h, [])"
| "spec_txn_ops m i (op # ops) h =
     (let (h', resp) = spec_txn_op m i op h; (h'', resps) = spec_txn_ops m (i + 1) ops h' in (h'', resp # resps))"

definition plain_ops :: "Op list \<Rightarrow> bool" where
  "plain_ops ops \<longleftrightarrow> list_all (\<lambda>op. o_Type op \<noteq> OpTypeDeleteRange) ops"

lemma live_kv_current:
  assumes "ms_inv K R s" "ms_coherent K R s"
  shows "live_kv K R k s = spec_current (history K R s k)"
  using assms(2) by (simp add: live_kv_history [OF assms(1)] spec_current_def ms_coherent_def)

lemma evaluateCondition_spec:
  assumes "ms_inv K R s" "ms_coherent K R s"
  shows "ms_evaluateCondition K R c s = spec_condition c (history K R s)"
  by (cases "spec_current (history K R s (c_Key c))")
     (simp_all add: ms_evaluateCondition_def spec_condition_def live_kv_current [OF assms] Let_def split: ConditionTarget.split)

lemma eval_conditions_spec:
  assumes "ms_inv K R s" "ms_coherent K R s"
  shows "eval_conditions K R cs s = spec_conditions cs (history K R s)"
  by (induction cs) (simp_all add: evaluateCondition_spec [OF assms] split: option.split bool.split)

lemma collect_keys_spec:
  assumes K: "btree_ok K" and inv: "ms_inv K R s" and coh: "ms_coherent K R s"
  shows "collect_keys K start end s = spec_live_keys start end (history K R s)"
proof -
  note c = collect_keys_live [OF K inv, of start "end"]
  have "set (collect_keys K start end s) = {k. start \<le> k \<and> before_end end k \<and> spec_live (history K R s k)}"
    using c(3) coh by (simp add: ms_coherent_def)
  then show ?thesis
    unfolding spec_live_keys_def using c(1,2) by (metis sorted_list_of_set.idem_if_sorted_distinct)
qed

lemma executeGet_range:
  assumes K: "btree_ok K" and inv: "ms_inv K R s" and coh: "ms_coherent K R s"
  shows "idx_Range K start end Zero (get_visit R s) (keyIndex s) [] =
    map (\<lambda>k. snd (last (history K R s k))) (spec_live_keys start end (history K R s))"
proof -
  let ?items = "scan_keys K start end Zero (keyIndex s)"
  have eq: "collect_keys K start end s = map fst ?items"
    by (simp add: collect_keys_def idx_Range_scan [OF K ms_invD(1) [OF inv]] ascend_append [of _ "[]", simplified])
  have visit: "get_visit R s k r kvs = (kvs @ [snd (last (history K R s k))], True)" if item: "(k, r) \<in> set ?items" for k r kvs
  proof -
    obtain ki where ki: "bt_Get K (keyIndex s) k = Some ki" "r = current_revision Zero ki" "r \<noteq> Zero"
      using item by (auto simp: scan_keys_def btree_simps(4) [OF K])
    then have live: "live_key K (keyIndex s) k" "r = last (revs_of K (keyIndex s) k)"
      using current_revision_live [OF ms_invD(1) [OF inv] ki(1)] by (auto split: if_splits)
    then have h: "history K R s k \<noteq> []" "mk_Version (snd (last (history K R s k))) \<noteq> 0"
      using coh by (auto simp: ms_coherent_def spec_live_def)
    have "fst (last (history K R s k)) = r"
      using h(1) live(2) by (simp add: last_history history_empty_iff)
    with last_in_set [OF h(1)] have mem: "(r, snd (last (history K R s k))) \<in> set (history K R s k)"
      by (metis prod.collapse)
    show ?thesis
      using history_entries(1,4) [OF inv mem] h(2) by (simp add: get_visit_def)
  qed
  have "ascend_loop (\<lambda>(k, r). get_visit R s k r) items kvs = kvs @ map (\<lambda>k. snd (last (history K R s k))) (map fst items)"
    if "set items \<subseteq> set ?items" for items kvs
    using that
  proof (induction items arbitrary: kvs)
    case (Cons item items)
    obtain k r where item: "item = (k, r)"
      by force
    have "get_visit R s k r kvs = (kvs @ [snd (last (history K R s k))], True)"
      using Cons.prems item by (intro visit) simp
    with Cons show ?case
      by (simp add: item)
  qed simp
  then show ?thesis
    using eq collect_keys_spec [OF assms, of start "end"]
    by (simp add: idx_Range_scan [OF K ms_invD(1) [OF inv]])
qed

lemma executeOp_spec:
  assumes K: "btree_ok K" and R: "btree_ok R" and inv: "ms_inv K R s" and fresh: "fresh_rev K (Revision m (int i)) s"
    and coh: "ms_coherent K R s" and op: "o_Type op \<noteq> OpTypeDeleteRange" and m: "Main r = m"
    and ex: "executeOp K R op r i s = (s', resp)"
  shows "ms_inv K R s'" "ms_coherent K R s'" "fresh_rev K (Revision m (int (i + 1))) s'" "same_frame s s'"
    "spec_txn_op m i op (history K R s) = (history K R s', resp)"
proof -
  let ?r = "Revision m (int i)" and ?k = "o_Key op"
  have later: "fresh_rev K (Revision m (int (i + 1))) s"
    by (rule fresh_later [OF fresh]) simp
  note w = write_entry_laws [OF K R inv fresh, where k = ?k and val = "o_Value op" and lease = "o_Lease op"]
  have "ms_inv K R s' \<and> ms_coherent K R s' \<and> fresh_rev K (Revision m (int (i + 1))) s' \<and> same_frame s s'
    \<and> spec_txn_op m i op (history K R s) = (history K R s', resp)"
  proof (cases "o_Type op")
    case OpTypePut
    then have s': "s' = write_entry K R ?k (o_Value op) (o_Lease op) ?r s" "resp = empty_response OpTypePut"
      using ex m by (auto simp: executeOp_def executePut_def Let_def)
    have "fresh_rev K (Revision m (int (i + 1))) s'"
      unfolding s' by (rule w(3)) simp_all
    then show ?thesis
      using w(1,2,4,5) coh OpTypePut s'
      by (simp add: spec_txn_op_def Let_def spec_write_def new_entry_spec [OF inv coh])
  next
    case OpTypeGet
    then have "s' = s" "resp = executeGet K R op s"
      using ex by (auto simp: executeOp_def Let_def)
    then show ?thesis
      using OpTypeGet inv coh later executeGet_range [OF K inv coh]
      by (auto simp: spec_txn_op_def Let_def executeGet_def live_kv_current [OF inv coh] split: option.split)
  next
    case OpTypeDelete
    show ?thesis
    proof (cases "live_item K ?k s")
      case None
      then have "\<not> spec_live (history K R s ?k)"
        using coh live_item_iff [of K ?k s] by (simp add: ms_coherent_def)
      then show ?thesis
        using None OpTypeDelete ex inv coh later by (auto simp: executeOp_def executeDelete_def spec_txn_op_def Let_def)
    next
      case (Some ki)
      note t = put_tombstone_laws [OF K R inv fresh Some]
      have s': "s' = put_tombstone K R ?k ki ?r s" "resp = (empty_response OpTypeDelete)\<lparr>or_Deleted := 1\<rparr>"
        using Some OpTypeDelete ex m by (auto simp: executeOp_def executeDelete_def Let_def)
      have "fresh_rev K (Revision m (int (i + 1))) s'"
        unfolding s' by (rule t(3)) simp_all
      moreover have "spec_live (history K R s ?k)"
        using coh live_item_iff [of K ?k s] Some by (simp add: ms_coherent_def)
      ultimately show ?thesis
        using t(1,2,4,5) coh OpTypeDelete s' by (simp add: spec_txn_op_def Let_def)
    qed
  next
    case (OpTypeOther n)
    then show ?thesis
      using ex inv coh later by (auto simp: executeOp_def spec_txn_op_def Let_def)
  qed (use op in simp)
  then show "ms_inv K R s'" "ms_coherent K R s'" "fresh_rev K (Revision m (int (i + 1))) s'" "same_frame s s'"
    "spec_txn_op m i op (history K R s) = (history K R s', resp)"
    by blast+
qed

lemma executeOps_spec:
  assumes K: "btree_ok K" and R: "btree_ok R" and "ms_inv K R s" "fresh_rev K (Revision m (int i)) s"
    "ms_coherent K R s" "plain_ops ops" and m: "Main r = m"
  shows "case executeOps K R r i ops s of (s', resps) \<Rightarrow>
    ms_inv K R s' \<and> ms_coherent K R s' \<and> same_frame s s' \<and> spec_txn_ops m i ops (history K R s) = (history K R s', resps)"
  using assms(3-6)
proof (induction ops arbitrary: s i)
  case (Cons op ops)
  obtain s1 resp where ex: "executeOp K R op r i s = (s1, resp)"
    by force
  obtain s2 resps where exs: "executeOps K R r (i + 1) ops s1 = (s2, resps)"
    by force
  have "o_Type op \<noteq> OpTypeDeleteRange" "plain_ops ops"
    using Cons.prems(4) by (simp_all add: plain_ops_def)
  note o = executeOp_spec [OF K R Cons.prems(1-3) this(1) m ex]
  have "ms_inv K R s2 \<and> ms_coherent K R s2 \<and> same_frame s1 s2 \<and> spec_txn_ops m (i + 1) ops (history K R s1) = (history K R s2, resps)"
    using Cons.IH [OF o(1,3,2) \<open>plain_ops ops\<close>] exs by simp
  then show ?case
    using ex exs o(4,5) by (auto simp: Let_def intro: same_frame_trans)
qed simp

lemma ms_Commit_spec:
  assumes K: "btree_ok K" and R: "btree_ok R" and inv: "ms_inv K R s" and coh: "ms_coherent K R s"
    and plain: "plain_ops (thenOps t)" "plain_ops (elseOps t)" and "\<not> ms_closed s"
  defines "m \<equiv> Main (revisionGen s) + 1"
  shows "ms_Commit K R t s = None \<longleftrightarrow> spec_conditions (conditions t) (history K R s) = None"
    "ms_Commit K R t s = Some (s', res) \<Longrightarrow> \<exists>ok resps. spec_conditions (conditions t) (history K R s) = Some ok
       \<and> spec_txn_ops m 0 (if ok then thenOps t else elseOps t) (history K R s) = (history K R s', resps)
       \<and> res = Inr \<lparr>tr_Succeeded = ok, tr_Revision = m, tr_Responses = resps\<rparr>
       \<and> ms_inv K R s' \<and> ms_coherent K R s' \<and> revisionGen s' = Revision m 0 \<and> compactedRev s' = compactedRev s \<and> \<not> ms_closed s'"
proof -
  note cond = eval_conditions_spec [OF inv coh, of "conditions t"]
  show "ms_Commit K R t s = None \<longleftrightarrow> spec_conditions (conditions t) (history K R s) = None"
    using assms(7) by (auto simp: ms_Commit_def cond Let_def case_prod_unfold split: option.split)
  assume commit: "ms_Commit K R t s = Some (s', res)"
  then obtain ok where ok: "spec_conditions (conditions t) (history K R s) = Some ok"
    using assms(7) by (auto simp: ms_Commit_def cond split: option.splits)
  obtain g r where gr: "gen_Next (revisionGen s) = (g, r)"
    by force
  note nx = fresh_next [OF inv gr]
  let ?ops = "if ok then thenOps t else elseOps t" and ?s = "s\<lparr>revisionGen := g\<rparr>"
  obtain s1 resps where ex: "executeOps K R r 0 ?ops ?s = (s1, resps)"
    by force
  have "fresh_rev K (Revision m (int 0)) ?s" "Main r = m" "plain_ops ?ops" "ms_coherent K R ?s"
    using nx plain coh by (simp_all add: m_def)
  with executeOps_spec [OF K R nx(1), of m 0 ?ops r] ex
  have "ms_inv K R s1 \<and> ms_coherent K R s1 \<and> same_frame ?s s1 \<and> spec_txn_ops m 0 ?ops (history K R s) = (history K R s1, resps)"
    by simp
  then show "\<exists>ok resps. spec_conditions (conditions t) (history K R s) = Some ok
       \<and> spec_txn_ops m 0 (if ok then thenOps t else elseOps t) (history K R s) = (history K R s', resps)
       \<and> res = Inr \<lparr>tr_Succeeded = ok, tr_Revision = m, tr_Responses = resps\<rparr>
       \<and> ms_inv K R s' \<and> ms_coherent K R s' \<and> revisionGen s' = Revision m 0 \<and> compactedRev s' = compactedRev s \<and> \<not> ms_closed s'"
    using commit ok ex gr nx(3,4) assms(7)
    by (intro exI [of _ ok] exI [of _ resps]) (auto simp: ms_Commit_def cond Let_def same_frame_def m_def)
qed

end
