(* ===== verification/Mvcc_Steps.thy ===== *)
theory Mvcc_Steps
  imports Mvcc_History
begin

text \<open>
  The MVCC store as a transition system: every write extends histories with fresh revisions and keeps the
  invariant, and so does compaction, which drops the part of each history below its target.
\<close>

section \<open>Writes extend histories\<close>

definition grows :: "'t key_tree \<Rightarrow> 'r rev_tree \<Rightarrow> int \<Rightarrow> ('t, 'r) MemoryStore \<Rightarrow> ('t, 'r) MemoryStore \<Rightarrow> bool" where
  "grows K R m s s' \<longleftrightarrow> (\<forall>k. \<exists>new. history K R s' k = history K R s k @ new \<and> list_all (\<lambda>(r, _). m < Main r) new)"

lemma grows_refl [simp]: "grows K R m s s"
  by (simp add: grows_def)

lemma grows_trans:
  assumes "grows K R m s s'" "grows K R m' s' s''" "m \<le> m'"
  shows "grows K R m s s''"
  unfolding grows_def
proof
  fix k
  obtain new new' where "history K R s' k = history K R s k @ new" "list_all (\<lambda>(r, _). m < Main r) new"
    "history K R s'' k = history K R s' k @ new'" "list_all (\<lambda>(r, _). m' < Main r) new'"
    using assms(1,2) unfolding grows_def by meson
  then show "\<exists>new. history K R s'' k = history K R s k @ new \<and> list_all (\<lambda>(r, _). m < Main r) new"
    using assms(3) by (intro exI [of _ "new @ new'"]) (auto simp: list_all_iff)
qed

lemma grows_update: "history K R s' = (history K R s)(k := history K R s k @ [(r, kv)]) \<Longrightarrow> m < Main r \<Longrightarrow> grows K R m s s'"
  by (auto simp: grows_def)

lemma grows_erase_all: "history K R s' = spec_erase_all m' i keys (history K R s) \<Longrightarrow> m < m' \<Longrightarrow> grows K R m s s'"
proof -
  assume hist: "history K R s' = spec_erase_all m' i keys (history K R s)" and m: "m < m'"
  have "\<exists>new. spec_erase_all m' i keys h k = h k @ new \<and> list_all (\<lambda>(r, _). m < Main r) new" for h k
  proof (induction keys arbitrary: h i)
    case (Cons key keys)
    obtain new where "spec_erase_all m' (i + 1) keys (spec_erase key (Revision m' i) h) k = spec_erase key (Revision m' i) h k @ new"
      "list_all (\<lambda>(r, _). m < Main r) new"
      using Cons.IH by blast
    then show ?case
      using m by (cases "key = k") (auto simp: spec_erase_def)
  qed simp
  then show ?thesis
    by (simp add: grows_def hist)
qed

lemma executeOp_inv:
  assumes K: "btree_ok K" and R: "btree_ok R" and inv: "ms_inv K R s" and fresh: "fresh_rev K (Revision m (int i)) s"
    and op: "o_Type op \<noteq> OpTypeDeleteRange" and m: "Main r = m" "m0 < m" and ex: "executeOp K R op r i s = (s', resp)"
  shows "ms_inv K R s' \<and> fresh_rev K (Revision m (int (i + 1))) s' \<and> same_frame s s' \<and> grows K R m0 s s'"
proof -
  let ?r = "Revision m (int i)" and ?k = "o_Key op"
  have later: "fresh_rev K (Revision m (int (i + 1))) s"
    by (rule fresh_later [OF fresh]) simp
  note w = write_entry_laws [OF K R inv fresh, where k = ?k and val = "o_Value op" and lease = "o_Lease op"]
  note t = put_tombstone_laws [OF K R inv fresh, of ?k]
  have "s' = write_entry K R ?k (o_Value op) (o_Lease op) ?r s
    \<or> (\<exists>ki. live_item K ?k s = Some ki \<and> s' = put_tombstone K R ?k ki ?r s) \<or> s' = s"
    using ex op m(1)
    by (cases "o_Type op"; cases "live_item K ?k s") (simp_all add: executeOp_def executePut_def executeDelete_def Let_def)
  then consider (put) "s' = write_entry K R ?k (o_Value op) (o_Lease op) ?r s"
    | (del) ki where "live_item K ?k s = Some ki" "s' = put_tombstone K R ?k ki ?r s" | (none) "s' = s"
    by blast
  then show ?thesis
  proof cases
    case put
    have "fresh_rev K (Revision m (int (i + 1))) s'"
      unfolding put by (rule w(3)) simp_all
    moreover have "grows K R m0 s s'"
      unfolding put by (rule grows_update [OF w(2)]) (simp add: m(2))
    ultimately show ?thesis
      using w(1,4) put by simp
  next
    case del
    have "fresh_rev K (Revision m (int (i + 1))) s'"
      unfolding del(2) by (rule t(3) [OF del(1)]) simp_all
    moreover have "grows K R m0 s s'"
      unfolding del(2) by (rule grows_update [OF t(2) [OF del(1), unfolded spec_erase_def]]) (simp add: m(2))
    ultimately show ?thesis
      using t(1,4) [OF del(1)] del(2) by simp
  next
    case none
    with inv later show ?thesis
      by simp
  qed
qed

lemma executeOps_inv:
  assumes K: "btree_ok K" and R: "btree_ok R" and "ms_inv K R s" "fresh_rev K (Revision m (int i)) s" "plain_ops ops"
    and m: "Main r = m" "m0 < m"
  shows "case executeOps K R r i ops s of (s', resps) \<Rightarrow> ms_inv K R s' \<and> same_frame s s' \<and> grows K R m0 s s'"
  using assms(3-5)
proof (induction ops arbitrary: s i)
  case (Cons op ops)
  obtain s1 resp where ex: "executeOp K R op r i s = (s1, resp)"
    by force
  have "o_Type op \<noteq> OpTypeDeleteRange" "plain_ops ops"
    using Cons.prems(3) by (simp_all add: plain_ops_def)
  note o = executeOp_inv [OF K R Cons.prems(1,2) this(1) m ex]
  have "case executeOps K R r (i + 1) ops s1 of (s', resps) \<Rightarrow> ms_inv K R s' \<and> same_frame s1 s' \<and> grows K R m0 s1 s'"
    using o \<open>plain_ops ops\<close> by (intro Cons.IH) simp_all
  then show ?case
    using ex o by (auto simp: Let_def case_prod_unfold intro: same_frame_trans grows_trans)
qed simp

section \<open>Steps\<close>

text \<open>
  Writes are puts, deletions and transactions; transactions with a range deletion are left out, since their
  sub-revisions can collide.
\<close>

inductive mvcc_write :: "'t key_tree \<Rightarrow> 'r rev_tree \<Rightarrow> ('t, 'r) MemoryStore \<Rightarrow> ('t, 'r) MemoryStore \<Rightarrow> bool" for K R where
  put: "ms_Put K R k val lease s = (s', out) \<Longrightarrow> mvcc_write K R s s'"
| delete: "ms_Delete K R k s = (s', out) \<Longrightarrow> mvcc_write K R s s'"
| delete_range: "ms_DeleteRange K R start end s = (s', out) \<Longrightarrow> mvcc_write K R s s'"
| commit: "ms_Commit K R t s = Some (s', out) \<Longrightarrow> plain_ops (thenOps t) \<Longrightarrow> plain_ops (elseOps t) \<Longrightarrow> mvcc_write K R s s'"

inductive mvcc_step :: "'t key_tree \<Rightarrow> 'r rev_tree \<Rightarrow> ('t, 'r) MemoryStore \<Rightarrow> ('t, 'r) MemoryStore \<Rightarrow> bool" for K R where
  step_write: "mvcc_write K R s s' \<Longrightarrow> mvcc_step K R s s'"
| step_compact: "ms_Compact K R rv s = (s', out) \<Longrightarrow> mvcc_step K R s s'"
| step_close: "ms_Close s = (s', out) \<Longrightarrow> mvcc_step K R s s'"

abbreviation mvcc_reach :: "'t key_tree \<Rightarrow> 'r rev_tree \<Rightarrow> ('t, 'r) MemoryStore \<Rightarrow> bool" where
  "mvcc_reach K R \<equiv> (mvcc_step K R)\<^sup>*\<^sup>* (NewMemoryStore K R)"

text \<open>What one write does to a store that is well formed.\<close>

definition write_effect :: "'t key_tree \<Rightarrow> 'r rev_tree \<Rightarrow> ('t, 'r) MemoryStore \<Rightarrow> ('t, 'r) MemoryStore \<Rightarrow> bool" where
  "write_effect K R s s' \<longleftrightarrow> ms_inv K R s' \<and> grows K R (Main (revisionGen s)) s s'
     \<and> Main (revisionGen s) \<le> Main (revisionGen s') \<and> compactedRev s' = compactedRev s \<and> ms_closed s' = ms_closed s"

lemma ms_Put_effect:
  assumes K: "btree_ok K" and R: "btree_ok R" and inv: "ms_inv K R s" and put: "ms_Put K R k val lease s = (s', out)"
  shows "write_effect K R s s'"
    "k \<noteq> [] \<Longrightarrow> \<not> ms_closed s \<Longrightarrow> ms_coherent K R s \<Longrightarrow>
       out = Inr (Main (revisionGen s) + 1) \<and> ms_coherent K R s' \<and> revisionGen s' = Revision (Main (revisionGen s) + 1) 0
       \<and> history K R s' = spec_write k val lease (Revision (Main (revisionGen s) + 1) 0) (history K R s)"
proof -
  obtain g r where gr: "gen_Next (revisionGen s) = (g, r)"
    by force
  note nx = fresh_next [OF inv gr]
  note w = write_entry_laws [OF K R nx(1,2), where k = k and val = val and lease = lease]
  let ?s = "write_entry K R k val lease r (s\<lparr>revisionGen := g\<rparr>)"
  have "grows K R (Main (revisionGen s)) s ?s"
    using w(2) nx(3) by (intro grows_update [where k = k and r = r]) simp_all
  then have "write_effect K R s ?s"
    using w(1,4) nx(3,4) by (simp add: write_effect_def same_frame_def)
  moreover have s': "s' = s \<or> s' = ?s" "k \<noteq> [] \<Longrightarrow> \<not> ms_closed s \<Longrightarrow> s' = ?s \<and> out = Inr (Main r)"
    using put gr by (auto simp: ms_Put_def Let_def split: if_splits)
  ultimately show "write_effect K R s s'"
    using inv by (auto simp: write_effect_def)
  show "out = Inr (Main (revisionGen s) + 1) \<and> ms_coherent K R s' \<and> revisionGen s' = Revision (Main (revisionGen s) + 1) 0
       \<and> history K R s' = spec_write k val lease (Revision (Main (revisionGen s) + 1) 0) (history K R s)"
    if "k \<noteq> []" "\<not> ms_closed s" "ms_coherent K R s"
    using w(2,4,5) s'(2) that nx(3,4) new_entry_spec [OF nx(1), of k val lease r]
    by (simp add: spec_write_def same_frame_def)
qed

lemma ms_Delete_effect:
  assumes K: "btree_ok K" and R: "btree_ok R" and inv: "ms_inv K R s" and del: "ms_Delete K R k s = (s', out)"
  shows "write_effect K R s s'" "ms_coherent K R s \<Longrightarrow> ms_coherent K R s'"
    "k \<noteq> [] \<Longrightarrow> \<not> ms_closed s \<Longrightarrow> live_key K (keyIndex s) k \<Longrightarrow>
       out = Inr (Main (revisionGen s) + 1, 1) \<and> revisionGen s' = Revision (Main (revisionGen s) + 1) 0
       \<and> history K R s' = spec_erase k (Revision (Main (revisionGen s) + 1) 0) (history K R s)"
    "k \<noteq> [] \<Longrightarrow> \<not> ms_closed s \<Longrightarrow> \<not> live_key K (keyIndex s) k \<Longrightarrow> s' = s \<and> out = Inr (Main (revisionGen s), 0)"
proof -
  obtain g r where gr: "gen_Next (revisionGen s) = (g, r)"
    by force
  note nx = fresh_next [OF inv gr]
  let ?s = "s\<lparr>revisionGen := g\<rparr>"
  have item: "live_item K k ?s = live_item K k s"
    by (simp add: live_item_def)
  have eff: "write_effect K R s (put_tombstone K R k ki r ?s)
    \<and> (ms_coherent K R s \<longrightarrow> ms_coherent K R (put_tombstone K R k ki r ?s))
    \<and> history K R (put_tombstone K R k ki r ?s) = spec_erase k r (history K R s)
    \<and> revisionGen (put_tombstone K R k ki r ?s) = r" if "live_item K k s = Some ki" for ki
  proof -
    note t = put_tombstone_laws [OF K R nx(1,2), of k ki, unfolded item, OF that]
    have "grows K R (Main (revisionGen s)) s (put_tombstone K R k ki r ?s)"
      using t(2) nx(3) by (intro grows_update [where k = k and r = r]) (simp_all add: spec_erase_def)
    then show ?thesis
      using t(1,2,4,5) nx(3,4) by (simp add: write_effect_def same_frame_def)
  qed
  have cases: "s' = s \<or> (\<exists>ki. live_item K k s = Some ki \<and> s' = put_tombstone K R k ki r ?s)"
    using del gr by (auto simp: ms_Delete_def Let_def split: if_splits option.splits)
  then show "write_effect K R s s'"
    using eff inv by (auto simp: write_effect_def)
  show "ms_coherent K R s \<Longrightarrow> ms_coherent K R s'"
    using eff cases by auto
  show "out = Inr (Main (revisionGen s) + 1, 1) \<and> revisionGen s' = Revision (Main (revisionGen s) + 1) 0
       \<and> history K R s' = spec_erase k (Revision (Main (revisionGen s) + 1) 0) (history K R s)"
    if pre: "k \<noteq> []" "\<not> ms_closed s" "live_key K (keyIndex s) k"
  proof -
    obtain ki where ki: "live_item K k s = Some ki"
      using pre(3) live_item_iff [of K k s] by auto
    then show ?thesis
      using eff [OF ki] del gr pre nx(3) by (auto simp: ms_Delete_def Let_def)
  qed
  show "s' = s \<and> out = Inr (Main (revisionGen s), 0)" if "k \<noteq> []" "\<not> ms_closed s" "\<not> live_key K (keyIndex s) k"
    using that del live_item_iff [of K k s] by (auto simp: ms_Delete_def gen_Current_def)
qed

lemma ms_DeleteRange_effect:
  assumes K: "btree_ok K" and R: "btree_ok R" and inv: "ms_inv K R s" and del: "ms_DeleteRange K R start end s = (s', out)"
  shows "write_effect K R s s'"
proof (cases "start = [] \<or> ms_closed s")
  case True
  then have "s' = s"
    using del by (auto simp: ms_DeleteRange_def split: if_splits)
  with inv show ?thesis
    by (simp add: write_effect_def)
next
  case False
  then have ok: "start \<noteq> []" "\<not> ms_closed s"
    by simp_all
  note d = ms_DeleteRange_cases [OF K R inv ok del]
  show ?thesis
  proof (cases "collect_keys K start end s = []")
    case True
    with d(1) inv show ?thesis
      by (simp add: write_effect_def)
  next
    case False
    with d(2) have "history K R s' = spec_erase_all (Main (revisionGen s) + 1) 0 (collect_keys K start end s) (history K R s)"
      "Main (revisionGen s') = Main (revisionGen s) + 1"
      by simp_all
    moreover from this(1) have "grows K R (Main (revisionGen s)) s s'"
      by (rule grows_erase_all) simp
    ultimately show ?thesis
      using d(3,5,6) by (simp add: write_effect_def)
  qed
qed

lemma ms_Commit_effect:
  assumes K: "btree_ok K" and R: "btree_ok R" and inv: "ms_inv K R s" and commit: "ms_Commit K R t s = Some (s', out)"
    and plain: "plain_ops (thenOps t)" "plain_ops (elseOps t)"
  shows "write_effect K R s s'"
proof -
  obtain g r where gr: "gen_Next (revisionGen s) = (g, r)"
    by force
  note nx = fresh_next [OF inv gr]
  let ?m = "Main (revisionGen s) + 1"
  have "s' = s \<or> (\<exists>ops resps. plain_ops ops \<and> executeOps K R r 0 ops (s\<lparr>revisionGen := g\<rparr>) = (s', resps))"
    using commit plain gr
    by (auto simp: ms_Commit_def Let_def case_prod_unfold prod_eq_iff split: if_splits option.splits)
  then show ?thesis
  proof
    assume "\<exists>ops resps. plain_ops ops \<and> executeOps K R r 0 ops (s\<lparr>revisionGen := g\<rparr>) = (s', resps)"
    then obtain ops resps where ops: "plain_ops ops" "executeOps K R r 0 ops (s\<lparr>revisionGen := g\<rparr>) = (s', resps)"
      by blast
    have "fresh_rev K (Revision ?m (int 0)) (s\<lparr>revisionGen := g\<rparr>)" "Main r = ?m" "Main (revisionGen s) < ?m"
      using nx by simp_all
    from executeOps_inv [OF K R nx(1) this(1) ops(1) this(2,3)] ops(2)
    have "ms_inv K R s'" "same_frame (s\<lparr>revisionGen := g\<rparr>) s'" "grows K R (Main (revisionGen s)) (s\<lparr>revisionGen := g\<rparr>) s'"
      by simp_all
    then show ?thesis
      using nx(3,4) by (simp add: write_effect_def same_frame_def grows_def)
  qed (use inv in \<open>simp add: write_effect_def\<close>)
qed

lemma mvcc_write_effect:
  assumes "btree_ok K" "btree_ok R" "mvcc_write K R s s'" "ms_inv K R s"
  shows "write_effect K R s s'"
  using assms(3,4)
  by cases (use assms(1,2) in \<open>blast intro: ms_Put_effect(1) ms_Delete_effect(1) ms_DeleteRange_effect ms_Commit_effect\<close>)+

lemma mvcc_writes_effect:
  assumes "btree_ok K" "btree_ok R" "(mvcc_write K R)\<^sup>*\<^sup>* s s'" "ms_inv K R s"
  shows "write_effect K R s s'"
  using assms(3,4)
proof (induction rule: rtranclp_induct)
  case base
  then show ?case
    by (simp add: write_effect_def)
next
  case (step s' s'')
  then have "write_effect K R s s'" "write_effect K R s' s''"
    using mvcc_write_effect [OF assms(1,2)] by (simp_all add: write_effect_def)
  then show ?case
    by (auto simp: write_effect_def intro: grows_trans)
qed

lemma mvcc_write_coherent:
  assumes K: "btree_ok K" and R: "btree_ok R" and "mvcc_write K R s s'" and inv: "ms_inv K R s" and coh: "ms_coherent K R s"
  shows "ms_coherent K R s'"
  using assms(3)
proof cases
  case (put k val lease out)
  then show ?thesis
    using ms_Put_effect(2) [OF K R inv put] coh by (cases "k = [] \<or> ms_closed s") (auto simp: ms_Put_def split: if_splits)
next
  case (delete k out)
  then show ?thesis
    using ms_Delete_effect(2) [OF K R inv delete coh] by simp
next
  case (delete_range start "end" out)
  then show ?thesis
    using ms_DeleteRange_cases(4) [OF K R inv _ _ delete_range] coh
    by (cases "start = [] \<or> ms_closed s") (auto simp: ms_DeleteRange_def split: if_splits)
next
  case (commit t out)
  then show ?thesis
    using ms_Commit_spec(2) [OF K R inv coh commit(2,3) _ commit(1)] coh
    by (cases "ms_closed s") (auto simp: ms_Commit_def)
qed

lemma mvcc_writes_coherent:
  assumes K: "btree_ok K" and R: "btree_ok R" and "(mvcc_write K R)\<^sup>*\<^sup>* (NewMemoryStore K R) s"
  shows "ms_inv K R s \<and> ms_coherent K R s \<and> \<not> ms_closed s \<and> compactedRev s = Zero"
  using assms(3)
proof (induction rule: rtranclp_induct)
  case base
  then show ?case
    using ms_inv_new [OF K R] ms_coherent_new [OF K R] by (simp add: NewMemoryStore_def)
next
  case (step s s')
  then show ?case
    using mvcc_write_effect [OF K R step.hyps(2)] mvcc_write_coherent [OF K R step.hyps(2)] by (simp add: write_effect_def)
qed

section \<open>Compaction\<close>

lemma fold_bt_Delete_fst:
  assumes R: "btree_ok R"
  shows "bt_Get R (fold (\<lambda>ri. bt_Delete R (fst ri)) items rs) r = (if r \<in> fst ` set items then None else bt_Get R rs r)"
  by (induction items arbitrary: rs) (auto simp: btree_simps [OF R])

lemma ms_Compact_laws:
  assumes K: "btree_ok K" and R: "btree_ok R" and inv: "ms_inv K R s" and compact: "ms_Compact K R rv s = (s', Inr ())"
  shows "ms_inv K R s'" "history K R s' k = filter (\<lambda>(r, _). Revision rv 0 \<le> r) (history K R s k)"
    "live_key K (keyIndex s') k = (history K R s' k \<noteq> [])"
    "revisionGen s' = revisionGen s" "compactedRev s' = Revision rv 0" "ms_closed s' = ms_closed s"
    "\<not> ms_closed s" "compactedRev s < Revision rv 0" "Revision rv 0 \<le> revisionGen s"
proof -
  let ?t = "Revision rv 0"
  let ?dead = "filter (\<lambda>ri. LessThan (fst ri) ?t) (bt_Ascend R (revisionStore s))"
  have s': "s' = s\<lparr>keyIndex := fst (idx_Compact K ?t (keyIndex s)),
      revisionStore := fold (\<lambda>ri. bt_Delete R (fst ri)) ?dead (revisionStore s), compactedRev := ?t\<rparr>"
    and ok: "\<not> ms_closed s" "compactedRev s < ?t" "?t \<le> revisionGen s"
    using compact by (auto simp: ms_Compact_def Let_def gen_Current_def split: if_splits)
  then show "revisionGen s' = revisionGen s" "compactedRev s' = ?t" "ms_closed s' = ms_closed s"
    "\<not> ms_closed s" "compactedRev s < ?t" "?t \<le> revisionGen s"
    by simp_all
  have "r \<in> fst ` set ?dead \<longleftrightarrow> r < ?t \<and> bt_Get R (revisionStore s) r \<noteq> None" for r
    by (auto simp: image_iff btree_simps(4) [OF R])
  then have get: "bt_Get R (revisionStore s') r = (if r < ?t then None else bt_Get R (revisionStore s) r)" for r
    by (simp add: s' fold_bt_Delete_fst [OF R])
  note idx = idx_Compact_laws [OF K ms_invD(1) [OF inv], of ?t]
  have revs: "revs_of K (keyIndex s') j = filter (\<lambda>r. ?t \<le> r) (revs_of K (keyIndex s) j)" for j
    using idx(2) by (simp add: s')
  show hist: "history K R s' k = filter (\<lambda>(r, _). ?t \<le> r) (history K R s k)" for k
    by (auto simp: history_def revs get filter_map comp_def intro!: map_cong)
  show "live_key K (keyIndex s') k = (history K R s' k \<noteq> [])"
    using idx(3) revs by (simp add: s' history_empty_iff)
  have gen: "revisionGen s' = revisionGen s"
    by (simp add: s')
  show "ms_inv K R s'"
    unfolding ms_inv_def
  proof (intro conjI allI ballI impI)
    fix j r assume "r \<in> set (revs_of K (keyIndex s') j)"
    then have "r \<in> set (revs_of K (keyIndex s) j)" "\<not> r < ?t"
      by (auto simp: revs)
    then show "0 < Main r" "Main r \<le> Main (revisionGen s')" "0 \<le> Sub r"
      "\<exists>kv. bt_Get R (revisionStore s') r = Some kv \<and> mk_Key kv = j \<and> mk_ModRevision kv = Main r \<and> 0 \<le> mk_Version kv"
      using ms_invD(2,3) [OF inv, of r j] by (simp_all add: gen get)
  next
    fix r kv assume "bt_Get R (revisionStore s') r = Some kv"
    then show "r \<in> set (revs_of K (keyIndex s') (mk_Key kv))"
      using ms_invD(4) [OF inv, of r kv] by (auto simp: revs get split: if_splits)
  qed (use idx(1) ms_invD(5,6) [OF inv] in \<open>simp_all add: s'\<close>)
qed

lemma mvcc_step_inv:
  assumes K: "btree_ok K" and R: "btree_ok R" and "mvcc_step K R s s'" and inv: "ms_inv K R s"
  shows "ms_inv K R s'"
  using assms(3)
proof cases
  case step_write
  then show ?thesis
    using mvcc_write_effect [OF K R _ inv] by (simp add: write_effect_def)
next
  case (step_compact rv out)
  then show ?thesis
    using ms_Compact_laws(1) [OF K R inv, of rv s'] inv
    by (cases out) (auto simp: ms_Compact_def Let_def split: if_splits)
next
  case (step_close out)
  then show ?thesis
    using inv by (auto simp: ms_Close_def ms_inv_def split: if_splits)
qed

lemma mvcc_reach_inv:
  assumes "btree_ok K" "btree_ok R" "mvcc_reach K R s"
  shows "ms_inv K R s"
  using assms(3) by (induction rule: rtranclp_induct) (auto intro: ms_inv_new mvcc_step_inv assms(1,2))

lemma last_filter_upper:
  assumes "sorted_wrt (\<lambda>x y. fst x < fst y) xs" "filter (\<lambda>(r, _). t \<le> r) xs \<noteq> []"
  shows "last (filter (\<lambda>(r, _). t \<le> r) xs) = last (xs :: (Revision \<times> 'v) list)"
proof (cases xs rule: rev_cases)
  case (snoc ys x)
  have "t \<le> fst x"
  proof (rule ccontr)
    assume "\<not> t \<le> fst x"
    then have "\<not> t \<le> fst y" if "y \<in> set xs" for y
      using that assms(1) unfolding snoc sorted_wrt_append
      by (metis (no_types, lifting) Un_iff empty_iff insert_iff less_imp_le list.set order_trans set_append)
    with assms(2) show False
      by (auto simp: filter_empty_conv)
  qed
  then show ?thesis
    by (simp add: snoc case_prod_unfold)
qed (use assms(2) in simp)

text \<open>Reading after a compaction: below the target nothing, above it what the kept part of the history shows.\<close>

lemma spec_read_compacted:
  assumes "h' = filter (\<lambda>(r, _). t \<le> r) h" "sorted_wrt (\<lambda>x y. fst x < fst y) h"
  shows "spec_read at h' = (if \<exists>r \<in> fst ` set h. t \<le> r \<and> r \<le> at then spec_read at h else None)"
proof (cases "\<exists>r \<in> fst ` set h. t \<le> r \<and> r \<le> at")
  case True
  let ?up = "filter (\<lambda>(r, _). r \<le> at) h"
  have up: "filter (\<lambda>(r, _). r \<le> at) h' = filter (\<lambda>(r, _). t \<le> r) ?up"
    by (simp add: assms(1) filter_filter case_prod_unfold conj_commute)
  have ne: "filter (\<lambda>(r, _). t \<le> r) ?up \<noteq> []"
    using True by (auto simp: filter_empty_conv case_prod_unfold)
  have "sorted_wrt (\<lambda>x y. fst x < fst y) ?up"
    by (rule sorted_wrt_filter [OF assms(2)])
  then have "last (filter (\<lambda>(r, _). t \<le> r) ?up) = last ?up"
    using ne by (rule last_filter_upper)
  moreover have "?up \<noteq> []"
    using ne by (metis filter.simps(1))
  ultimately show ?thesis
    using True ne unfolding spec_read_def up by (simp add: Let_def)
next
  case False
  then have "filter (\<lambda>(r, _). r \<le> at) h' = []"
    by (auto simp: assms(1) filter_empty_conv)
  then have "spec_read at h' = None"
    by (simp add: spec_read_def)
  then show ?thesis
    by (simp only: False if_False)
qed

lemma history_sorted: "ms_inv K R s \<Longrightarrow> sorted_wrt (\<lambda>x y. fst x < fst y) (history K R s k)"
  using sorted_revs_of [OF ms_invD(1)] by (simp add: history_def sorted_wrt_map)

lemma fst_history: "fst ` set (history K R s k) = set (revs_of K (keyIndex s) k)"
  by (force simp: history_def)

lemma spec_read_append:
  assumes "list_all (\<lambda>(r, _). at < r) new"
  shows "spec_read at (h @ new) = spec_read at h"
proof -
  have "filter (\<lambda>(r, _). r \<le> at) new = []"
    using assms by (auto simp: filter_empty_conv list_all_iff)
  then show ?thesis
    by (simp add: spec_read_def)
qed

end
