(* ===== verification/Mvcc_Properties.thy ===== *)
theory Mvcc_Properties
  imports Mvcc_Steps
begin

text \<open>
  What holds of the MVCC store: reads and range reads are determined by the histories, writes implement
  their abstract versions, history is immutable, and the exact effect of compaction, with the cases in
  which compaction and transactions fall short of what a client expects.
\<close>

section \<open>Properties\<close>

text \<open>A store with two keys, one of them written twice, and a deleted one, for the witnesses.\<close>

type_synonym sample_mvcc = "((string, KeyItem) rbt, (Revision, mvcc_kv) rbt) MemoryStore"

definition mvcc_sample1 :: sample_mvcc where
  "mvcc_sample1 = fst (ms_Put rb_tree rb_tree ''a'' ''1'' 0 (NewMemoryStore rb_tree rb_tree))"

definition mvcc_sample :: sample_mvcc where
  "mvcc_sample = fst (ms_Put rb_tree rb_tree ''b'' ''2'' 0 mvcc_sample1)"

lemma write_put: "mvcc_write K R s (fst (ms_Put K R k val lease s))"
  by (rule mvcc_write.put [where k = k and val = val and lease = lease]) (rule prod.collapse [symmetric])

lemma mvcc_sample1_writes: "(mvcc_write rb_tree rb_tree)\<^sup>*\<^sup>* (NewMemoryStore rb_tree rb_tree) mvcc_sample1"
  unfolding mvcc_sample1_def by (rule r_into_rtranclp) (rule write_put)

lemma mvcc_sample_writes:
  "(mvcc_write rb_tree rb_tree)\<^sup>*\<^sup>* mvcc_sample1 mvcc_sample"
  "(mvcc_write rb_tree rb_tree)\<^sup>*\<^sup>* (NewMemoryStore rb_tree rb_tree) mvcc_sample"
proof -
  show "(mvcc_write rb_tree rb_tree)\<^sup>*\<^sup>* mvcc_sample1 mvcc_sample"
    unfolding mvcc_sample_def by (rule r_into_rtranclp) (rule write_put)
  with mvcc_sample1_writes show "(mvcc_write rb_tree rb_tree)\<^sup>*\<^sup>* (NewMemoryStore rb_tree rb_tree) mvcc_sample"
    by (rule rtranclp_trans)
qed

lemma mvcc_sample_reach: "mvcc_reach rb_tree rb_tree mvcc_sample" "mvcc_reach rb_tree rb_tree mvcc_sample1"
  using mvcc_sample_writes(2) mvcc_sample1_writes by (auto elim!: rtranclp_mono [THEN predicate2D, rotated] intro: mvcc_step.step_write)

abbreviation sample_a :: mvcc_kv where
  "sample_a \<equiv> \<lparr>mk_Key = ''a'', mk_Value = ''1'', mk_CreateRevision = 1, mk_ModRevision = 1, mk_Version = 1, mk_Lease = 0\<rparr>"

abbreviation sample_b :: mvcc_kv where
  "sample_b \<equiv> \<lparr>mk_Key = ''b'', mk_Value = ''2'', mk_CreateRevision = 2, mk_ModRevision = 2, mk_Version = 1, mk_Lease = 0\<rparr>"

lemma mvcc_sample1_state:
  "history rb_tree rb_tree mvcc_sample1 = (\<lambda>_. [])(''a'' := [(Revision 1 0, sample_a)])"
  "revisionGen mvcc_sample1 = Revision 1 0" "\<not> ms_closed mvcc_sample1" "compactedRev mvcc_sample1 = Zero"
  "ms_inv rb_tree rb_tree mvcc_sample1" "ms_coherent rb_tree rb_tree mvcc_sample1"
proof -
  let ?new = "NewMemoryStore rb_tree rb_tree :: sample_mvcc"
  have new: "history rb_tree rb_tree ?new = (\<lambda>_. [])" "revisionGen ?new = Revision 0 0" "\<not> ms_closed ?new"
    by (auto simp: history_def NewMemoryStore_def revs_of_def NewKeyIndex_def btree_simps NewRevisionGenerator_def fun_eq_iff)
  have put: "ms_Put rb_tree rb_tree ''a'' ''1'' 0 ?new = (mvcc_sample1, snd (ms_Put rb_tree rb_tree ''a'' ''1'' 0 ?new))"
    by (simp add: mvcc_sample1_def)
  note eff = ms_Put_effect(2) [OF rb_tree_ok rb_tree_ok ms_inv_new [OF rb_tree_ok rb_tree_ok] put]
  have "history rb_tree rb_tree mvcc_sample1 = spec_write ''a'' ''1'' 0 (Revision 1 0) (\<lambda>_. []) \<and> revisionGen mvcc_sample1 = Revision 1 0"
    using eff new ms_coherent_new [OF rb_tree_ok rb_tree_ok] by simp
  then show "history rb_tree rb_tree mvcc_sample1 = (\<lambda>_. [])(''a'' := [(Revision 1 0, sample_a)])" "revisionGen mvcc_sample1 = Revision 1 0"
    by (auto simp: spec_write_def spec_entry_def spec_live_def)
  show "\<not> ms_closed mvcc_sample1" "compactedRev mvcc_sample1 = Zero" "ms_inv rb_tree rb_tree mvcc_sample1" "ms_coherent rb_tree rb_tree mvcc_sample1"
    using mvcc_writes_coherent [OF rb_tree_ok rb_tree_ok mvcc_sample1_writes] by simp_all
qed

lemma mvcc_sample_state:
  "history rb_tree rb_tree mvcc_sample = (\<lambda>_. [])(''a'' := [(Revision 1 0, sample_a)], ''b'' := [(Revision 2 0, sample_b)])"
  "revisionGen mvcc_sample = Revision 2 0" "\<not> ms_closed mvcc_sample" "compactedRev mvcc_sample = Zero"
  "ms_inv rb_tree rb_tree mvcc_sample" "ms_coherent rb_tree rb_tree mvcc_sample"
proof -
  note s1 = mvcc_sample1_state
  have put: "ms_Put rb_tree rb_tree ''b'' ''2'' 0 mvcc_sample1 = (mvcc_sample, snd (ms_Put rb_tree rb_tree ''b'' ''2'' 0 mvcc_sample1))"
    by (simp add: mvcc_sample_def)
  have "history rb_tree rb_tree mvcc_sample = spec_write ''b'' ''2'' 0 (Revision 2 0) (history rb_tree rb_tree mvcc_sample1)
      \<and> revisionGen mvcc_sample = Revision 2 0"
    using ms_Put_effect(2) [OF rb_tree_ok rb_tree_ok s1(5) put] s1(2,3,6) by simp
  then show "history rb_tree rb_tree mvcc_sample = (\<lambda>_. [])(''a'' := [(Revision 1 0, sample_a)], ''b'' := [(Revision 2 0, sample_b)])"
    "revisionGen mvcc_sample = Revision 2 0"
    by (auto simp: s1(1) spec_write_def spec_entry_def spec_live_def fun_upd_twist)
  show "\<not> ms_closed mvcc_sample" "compactedRev mvcc_sample = Zero" "ms_inv rb_tree rb_tree mvcc_sample" "ms_coherent rb_tree rb_tree mvcc_sample"
    using mvcc_writes_coherent [OF rb_tree_ok rb_tree_ok mvcc_sample_writes(2)] by simp_all
qed



text \<open>
  C27: a read returns exactly the newest write of the key at or before the requested revision, or the
  documented error: the checks come in the order empty key, closed store, compacted revision, future
  revision, and a tombstone or no write at all is a missing key.
\<close>

theorem ms_Get_correct:
  assumes "btree_ok K" "btree_ok R" "mvcc_reach K R s"
  shows "ms_Get K R k rv s =
    (let at = (if rv = 0 then revisionGen s else Revision rv 0)
     in if k = [] then Inl ErrEmptyKey
     else if ms_closed s then Inl ErrClosed
     else if at < compactedRev s then Inl ErrCompacted
     else if revisionGen s < at then Inl ErrFutureRevision
     else case spec_read at (history K R s k) of None \<Rightarrow> Inl ErrKeyNotFound | Some kv \<Rightarrow> Inr kv)"
  using ms_Get_spec [OF mvcc_reach_inv [OF assms(1-3)], of k rv]
  by (auto simp: check_revision_def read_revision_def gen_Current_def Let_def)

theorem ms_Get_correct_witness:
  "mvcc_reach rb_tree rb_tree mvcc_sample
   \<and> ms_Get rb_tree rb_tree ''a'' 1 mvcc_sample = Inr sample_a
   \<and> ms_Get rb_tree rb_tree ''b'' 1 mvcc_sample = Inl ErrKeyNotFound
   \<and> ms_Get rb_tree rb_tree ''b'' 3 mvcc_sample = Inl ErrFutureRevision"
  using ms_Get_correct [OF rb_tree_ok rb_tree_ok mvcc_sample_reach(1), of "''a''" 1]
    ms_Get_correct [OF rb_tree_ok rb_tree_ok mvcc_sample_reach(1), of "''b''" 1]
    ms_Get_correct [OF rb_tree_ok rb_tree_ok mvcc_sample_reach(1), of "''b''" 3] mvcc_sample_reach(1)
  by (simp add: mvcc_sample_state Zero_def spec_read_def)

text \<open>
  A range read returns, in key order, the entries that single reads at the same revision would return
  for the keys in range, cut off at the limit, together with their number.
\<close>

theorem ms_Range_correct:
  assumes "btree_ok K" "btree_ok R" "mvcc_reach K R s" "start \<noteq> []" "\<not> ms_closed s"
    and at: "at = (if rv = 0 then revisionGen s else Revision rv 0)" "compactedRev s \<le> at" "at \<le> revisionGen s"
  shows "\<exists>keys. sorted keys \<and> distinct keys
    \<and> set keys = {k. start \<le> k \<and> before_end end k \<and> spec_read at (history K R s k) \<noteq> None}
    \<and> ms_Range K R start end rv limit s =
        (let kvs = map (\<lambda>k. the (spec_read at (history K R s k))) keys;
             out = (if limit > 0 then take (nat limit) kvs else kvs)
         in Inr (out, int (length out)))"
proof -
  have rd: "read_revision rv s = at"
    by (simp add: at(1) read_revision_def gen_Current_def)
  then have "check_revision (read_revision rv s) s = None"
    using at(2,3) by (simp add: check_revision_def gen_Current_def not_less)
  from ms_Range_spec [OF assms(1) mvcc_reach_inv [OF assms(1-3)] assms(4,5) this, of "end" limit] show ?thesis
    unfolding rd .
qed

theorem ms_Range_correct_witness:
  "ms_Range rb_tree rb_tree ''a'' None 0 1 mvcc_sample = Inr ([sample_a], 1)"
proof -
  let ?at = "Revision 2 0"
  let ?h = "history rb_tree rb_tree mvcc_sample"
  have "?at = (if (0 :: int) = 0 then revisionGen mvcc_sample else Revision 0 0)" "compactedRev mvcc_sample \<le> ?at"
    "?at \<le> revisionGen mvcc_sample" "''a'' \<noteq> []"
    by (simp_all add: mvcc_sample_state Zero_def)
  from ms_Range_correct [OF rb_tree_ok rb_tree_ok mvcc_sample_reach(1) this(4) mvcc_sample_state(3) this(1-3), of None 1]
  obtain keys where keys: "sorted keys" "distinct keys" "set keys = {k. ''a'' \<le> k \<and> before_end None k \<and> spec_read ?at (?h k) \<noteq> None}"
    and res: "ms_Range rb_tree rb_tree ''a'' None 0 1 mvcc_sample =
        (let kvs = map (\<lambda>k. the (spec_read ?at (?h k))) keys; out = (if (1 :: int) > 0 then take (nat 1) kvs else kvs)
         in Inr (out, int (length out)))"
    by blast
  have "set keys = {''a'', ''b''}"
    unfolding keys(3) by (auto simp: mvcc_sample_state spec_read_def before_end_def)
  then have "keys = [''a'', ''b'']"
    using keys(1,2) by (intro sorted_distinct_set_unique) auto
  then show ?thesis
    using res by (simp add: mvcc_sample_state spec_read_def)
qed



text \<open>
  C29: history is immutable.  Whatever is written later, single reads and range reads at a revision that was
  already reached keep returning what they returned before.
\<close>

theorem mvcc_snapshot_stable:
  assumes K: "btree_ok K" and R: "btree_ok R" and reach: "mvcc_reach K R s" and run: "(mvcc_write K R)\<^sup>*\<^sup>* s s'"
    and rv: "rv \<noteq> 0" "rv \<le> Main (revisionGen s)"
  shows "ms_Get K R k rv s' = ms_Get K R k rv s \<and> ms_Range K R start end rv limit s' = ms_Range K R start end rv limit s"
proof -
  have inv: "ms_inv K R s"
    by (rule mvcc_reach_inv [OF K R reach])
  from mvcc_writes_effect [OF K R run this]
  have inv': "ms_inv K R s'" and grows: "grows K R (Main (revisionGen s)) s s'" and gen: "Main (revisionGen s) \<le> Main (revisionGen s')"
    and same: "compactedRev s' = compactedRev s" "ms_closed s' = ms_closed s"
    by (simp_all add: write_effect_def)
  have rd: "read_revision rv s = Revision rv 0" "read_revision rv s' = Revision rv 0"
    using rv(1) by (simp_all add: read_revision_def)
  have "\<not> Revision rv 0 > revisionGen s" "\<not> Revision rv 0 > revisionGen s'"
    using rv(2) gen ms_invD(6) [OF inv] ms_invD(6) [OF inv'] by (auto simp: less_Revision_def)
  then have check: "check_revision (Revision rv 0) s' = check_revision (Revision rv 0) s"
    by (simp add: check_revision_def gen_Current_def same)
  have read: "spec_read (Revision rv 0) (history K R s' j) = spec_read (Revision rv 0) (history K R s j)" for j
  proof -
    obtain new where "history K R s' j = history K R s j @ new" "list_all (\<lambda>(r, _). Main (revisionGen s) < Main r) new"
      using grows unfolding grows_def by blast
    moreover from this(2) have "list_all (\<lambda>(r, _). Revision rv 0 < r) new"
      using rv(2) by (auto simp: list_all_iff less_Revision_def)
    ultimately show ?thesis
      by (simp add: spec_read_append)
  qed
  have "ms_Get K R k rv s' = ms_Get K R k rv s"
    unfolding ms_Get_spec [OF inv] ms_Get_spec [OF inv'] rd check read same ..
  moreover have "ms_Range K R start end rv limit s' = ms_Range K R start end rv limit s"
  proof (cases "start \<noteq> [] \<and> \<not> ms_closed s \<and> check_revision (Revision rv 0) s = None")
    case True
    let ?P = "\<lambda>keys. sorted keys \<and> distinct keys \<and> set keys = {k. start \<le> k \<and> before_end end k \<and> spec_read (Revision rv 0) (history K R s k) \<noteq> None}"
    let ?out = "\<lambda>keys. let kvs = map (\<lambda>k. the (spec_read (Revision rv 0) (history K R s k))) keys;
             out = (if limit > 0 then take (nat limit) kvs else kvs) in Inr (out, int (length out))"
    obtain keys where k1: "?P keys" "ms_Range K R start end rv limit s = ?out keys"
      using ms_Range_spec [OF K inv, of start rv "end" limit] True by (auto simp: rd)
    obtain keys' where k2: "?P keys'" "ms_Range K R start end rv limit s' = ?out keys'"
      using ms_Range_spec [OF K inv', of start rv "end" limit] True by (auto simp: rd check read same)
    have "keys = keys'"
      using k1(1) k2(1) by (intro sorted_distinct_set_unique) auto
    with k1 k2 show ?thesis
      by simp
  next
    case False
    then show ?thesis
      by (auto simp: ms_Range_def rd check same split: option.split)
  qed
  ultimately show ?thesis ..
qed

theorem mvcc_snapshot_stable_witness:
  "mvcc_reach rb_tree rb_tree mvcc_sample1 \<and> (mvcc_write rb_tree rb_tree)\<^sup>*\<^sup>* mvcc_sample1 mvcc_sample
   \<and> ms_Get rb_tree rb_tree ''b'' 1 mvcc_sample = ms_Get rb_tree rb_tree ''b'' 1 mvcc_sample1"
  using mvcc_snapshot_stable [OF rb_tree_ok rb_tree_ok mvcc_sample_reach(2) mvcc_sample_writes(1), of 1 "''b''" "''a''" None 0]
    mvcc_sample_reach(2) mvcc_sample_writes(1)
  by (simp add: mvcc_sample1_state)

text \<open>
  C30: what a successful compaction leaves readable.  Reads below the target are refused; a read at or
  above it is unchanged when the key has a write between the target and the read revision, and finds
  nothing otherwise, even if the key was live all the time.
\<close>

theorem ms_Compact_reads:
  assumes K: "btree_ok K" and R: "btree_ok R" and reach: "mvcc_reach K R s" and compact: "ms_Compact K R target s = (s', Inr ())"
    and "k \<noteq> []" and rv: "0 < rv" "rv \<le> Main (revisionGen s)"
  shows "ms_Get K R k rv s' =
    (if rv < target then Inl ErrCompacted
     else if \<exists>r \<in> fst ` set (history K R s k). Revision target 0 \<le> r \<and> r \<le> Revision rv 0 then ms_Get K R k rv s
     else Inl ErrKeyNotFound)"
proof -
  have inv: "ms_inv K R s"
    by (rule mvcc_reach_inv [OF K R reach])
  note c = ms_Compact_laws [OF K R inv compact]
  have rd: "read_revision rv s = Revision rv 0" "read_revision rv s' = Revision rv 0"
    using rv(1) by (simp_all add: read_revision_def)
  have "\<not> Revision rv 0 > revisionGen s"
    using rv(2) ms_invD(6) [OF inv] by (auto simp: less_Revision_def)
  then have check: "check_revision (Revision rv 0) s' = (if rv < target then Some ErrCompacted else None)"
    "\<not> rv < target \<Longrightarrow> check_revision (Revision rv 0) s = None"
    using c(8) by (auto simp: check_revision_def gen_Current_def c(4,5) dest: less_trans)
  show ?thesis
    using spec_read_compacted [OF c(2) history_sorted [OF inv], of "Revision rv 0" k] check c(6,7) \<open>k \<noteq> []\<close>
    unfolding ms_Get_spec [OF inv] ms_Get_spec [OF c(1)] rd
    by (cases "\<exists>r \<in> fst ` set (history K R s k). Revision target 0 \<le> r \<and> r \<le> Revision rv 0") (simp_all del: bex_simps)
qed

lemma sample_compacts: "\<exists>s'. ms_Compact rb_tree rb_tree 2 mvcc_sample = (s', Inr ())"
  by (simp add: ms_Compact_def mvcc_sample_state Zero_def gen_Current_def Let_def)

theorem ms_Compact_reads_witness:
  "\<exists>s'. ms_Compact rb_tree rb_tree 2 mvcc_sample = (s', Inr ())
     \<and> ms_Get rb_tree rb_tree ''a'' 2 mvcc_sample = Inr sample_a
     \<and> ms_Get rb_tree rb_tree ''a'' 2 s' = Inl ErrKeyNotFound
     \<and> ms_Get rb_tree rb_tree ''b'' 2 s' = Inr sample_b"
proof -
  obtain s' where s': "ms_Compact rb_tree rb_tree 2 mvcc_sample = (s', Inr ())"
    using sample_compacts by blast
  note c = ms_Compact_reads [OF rb_tree_ok rb_tree_ok mvcc_sample_reach(1) s']
  have "ms_Get rb_tree rb_tree ''a'' 2 mvcc_sample = Inr sample_a" "ms_Get rb_tree rb_tree ''b'' 2 mvcc_sample = Inr sample_b"
    by (simp_all add: ms_Get_spec [OF mvcc_sample_state(5)] mvcc_sample_state check_revision_def read_revision_def
        gen_Current_def Zero_def spec_read_def)
  with s' show ?thesis
    using c [of "''a''" 2] c [of "''b''" 2] by (auto simp: mvcc_sample_state)
qed

text \<open>
  Compaction loses live data.  A key whose current entry is older than the compaction target can no
  longer be read at all, although nothing deleted it.
\<close>

theorem ms_Compact_loses_live_key:
  assumes K: "btree_ok K" and R: "btree_ok R" and reach: "mvcc_reach K R s" and compact: "ms_Compact K R target s = (s', Inr ())"
    and "ms_Get K R k 0 s = Inr kv" "mk_ModRevision kv < target" "fst (last (history K R s k)) \<le> revisionGen s"
  shows "ms_Get K R k 0 s' = Inl ErrKeyNotFound"
proof -
  have inv: "ms_inv K R s"
    by (rule mvcc_reach_inv [OF K R reach])
  note c = ms_Compact_laws [OF K R inv compact]
  let ?h = "history K R s k"
  have read: "spec_read (revisionGen s) ?h = Some kv" and "k \<noteq> []"
    using assms(5) by (auto simp: ms_Get_spec [OF inv] read_revision_def gen_Current_def split: if_splits option.splits)
  then have ne: "?h \<noteq> []"
    by (auto simp: spec_read_def)
  have up: "r \<le> fst (last ?h)" if "(r, v) \<in> set ?h" for r v
    using that history_sorted [OF inv, of k] ne
    by (cases ?h rule: rev_cases) (auto simp: sorted_wrt_append less_imp_le)
  then have "filter (\<lambda>(r, _). r \<le> revisionGen s) ?h = ?h"
    using assms(7) by (auto simp: filter_id_conv dest: order_trans)
  then have "snd (last ?h) = kv"
    using read by (auto simp: spec_read_def Let_def split: if_splits)
  then have "(fst (last ?h), kv) \<in> set ?h"
    using ne by (metis last_in_set prod.collapse)
  then have "Main (fst (last ?h)) < target"
    using history_entries(3) [OF inv] assms(6) by fastforce
  then have "filter (\<lambda>(r, _). Revision target 0 \<le> r) ?h = []"
    using up by (fastforce simp: filter_empty_conv less_eq_Revision_def)
  then show ?thesis
    using c(2) [of k] \<open>k \<noteq> []\<close> c(4-9)
    by (simp add: ms_Get_spec [OF c(1)] check_revision_def read_revision_def gen_Current_def spec_read_def not_less)
qed

theorem ms_Compact_loses_live_key_witness:
  "\<exists>s'. ms_Compact rb_tree rb_tree 2 mvcc_sample = (s', Inr ())
     \<and> ms_Get rb_tree rb_tree ''a'' 0 mvcc_sample = Inr sample_a \<and> ms_Get rb_tree rb_tree ''a'' 0 s' = Inl ErrKeyNotFound"
proof -
  obtain s' where s': "ms_Compact rb_tree rb_tree 2 mvcc_sample = (s', Inr ())"
    using sample_compacts by blast
  have "ms_Get rb_tree rb_tree ''a'' 0 mvcc_sample = Inr sample_a"
    by (simp add: ms_Get_spec [OF mvcc_sample_state(5)] mvcc_sample_state check_revision_def read_revision_def
        gen_Current_def Zero_def spec_read_def)
  with s' show ?thesis
    using ms_Compact_loses_live_key [OF rb_tree_ok rb_tree_ok mvcc_sample_reach(1) s', of "''a''" sample_a]
    by (simp add: mvcc_sample_state)
qed

text \<open>
  Compaction revives deleted keys in the index.  A key whose tombstone the compaction keeps counts as
  live afterwards: a second deletion reports that it deleted the key, and a transactional read returns the
  tombstone as an entry, although an ordinary read still finds nothing.
\<close>

theorem ms_Compact_revives_tombstone:
  assumes K: "btree_ok K" and R: "btree_ok R" and writes: "(mvcc_write K R)\<^sup>*\<^sup>* (NewMemoryStore K R) s"
    and compact: "ms_Compact K R target s = (s', Inr ())" and "k \<noteq> []"
    and h: "history K R s k \<noteq> []" "last (history K R s k) = (r, kv)" "mk_Version kv = 0" "Revision target 0 \<le> r" "r \<le> revisionGen s"
  shows "snd (ms_Delete K R k s) = Inr (Main (revisionGen s), 0)
    \<and> snd (ms_Delete K R k s') = Inr (Main (revisionGen s) + 1, 1)
    \<and> or_Kvs (executeGet K R \<lparr>o_Type = OpTypeGet, o_Key = k, o_End = None, o_Value = [], o_Lease = 0\<rparr> s') = [kv]
    \<and> ms_Get K R k 0 s' = Inl ErrKeyNotFound"
proof -
  have inv: "ms_inv K R s" and coh: "ms_coherent K R s" and nc: "\<not> ms_closed s"
    using mvcc_writes_coherent [OF K R writes] by simp_all
  note c = ms_Compact_laws [OF K R inv compact]
  let ?h = "history K R s k"
  have hist': "history K R s' k = filter (\<lambda>(r, _). Revision target 0 \<le> r) ?h"
    by (rule c(2))
  have "last ?h \<in> set (history K R s' k)"
    using last_in_set [OF h(1)] h(2,4) by (simp add: hist')
  then have ne: "history K R s' k \<noteq> []"
    by auto
  have last: "last (history K R s' k) = (r, kv)"
    using last_filter_upper [OF history_sorted [OF inv, of k], of "Revision target 0"] ne h(2) by (simp add: hist')
  have live: "live_key K (keyIndex s') k" "\<not> live_key K (keyIndex s) k"
    using c(3) ne coh h by (auto simp: ms_coherent_def spec_live_def)
  obtain s1 o1 s2 o2 where d: "ms_Delete K R k s = (s1, o1)" "ms_Delete K R k s' = (s2, o2)"
    by fastforce
  have "o1 = Inr (Main (revisionGen s), 0)" "o2 = Inr (Main (revisionGen s) + 1, 1)"
    using ms_Delete_effect(4) [OF K R inv d(1) \<open>k \<noteq> []\<close> nc live(2)]
      ms_Delete_effect(3) [OF K R c(1) d(2) \<open>k \<noteq> []\<close> _ live(1)] c(4,6) nc by simp_all
  moreover have "live_kv K R k s' = Some kv"
    using live(1) last by (simp add: live_kv_history [OF c(1)])
  moreover have "ms_Get K R k 0 s' = Inl ErrKeyNotFound"
  proof -
    have "sorted_wrt (\<lambda>x y. fst x < fst y) (history K R s' k)"
      by (rule history_sorted [OF c(1)])
    then have "q \<le> r" if "(q, v) \<in> set (history K R s' k)" for q v
      using that last ne by (cases "history K R s' k" rule: rev_cases) (auto simp: sorted_wrt_append less_imp_le)
    then have "filter (\<lambda>(q, _). q \<le> revisionGen s) (history K R s' k) = history K R s' k"
      using h(5) by (auto simp: filter_id_conv dest: order_trans)
    then have "spec_read (revisionGen s) (history K R s' k) = None"
      using ne last h(3) by (simp add: spec_read_def Let_def)
    then show ?thesis
      using \<open>k \<noteq> []\<close> c(4-9) nc by (simp add: ms_Get_spec [OF c(1)] check_revision_def read_revision_def gen_Current_def not_less)
  qed
  ultimately show ?thesis
    by (simp add: d executeGet_def)
qed

definition mvcc_deleted :: sample_mvcc where
  "mvcc_deleted = fst (ms_Delete rb_tree rb_tree ''b'' mvcc_sample)"

theorem ms_Compact_revives_tombstone_witness:
  "\<exists>s'. ms_Compact rb_tree rb_tree 3 mvcc_deleted = (s', Inr ())
     \<and> snd (ms_Delete rb_tree rb_tree ''b'' mvcc_deleted) = Inr (3, 0) \<and> snd (ms_Delete rb_tree rb_tree ''b'' s') = Inr (4, 1)"
proof -
  have del: "ms_Delete rb_tree rb_tree ''b'' mvcc_sample = (mvcc_deleted, snd (ms_Delete rb_tree rb_tree ''b'' mvcc_sample))"
    by (simp add: mvcc_deleted_def)
  then have "mvcc_write rb_tree rb_tree mvcc_sample mvcc_deleted"
    by (rule mvcc_write.delete)
  with mvcc_sample_writes(2) have writes: "(mvcc_write rb_tree rb_tree)\<^sup>*\<^sup>* (NewMemoryStore rb_tree rb_tree) mvcc_deleted"
    by simp
  have "live_key rb_tree (keyIndex mvcc_sample) ''b''"
    using mvcc_sample_state(1,6) by (simp add: ms_coherent_def spec_live_def)
  then have st: "revisionGen mvcc_deleted = Revision 3 0"
    "history rb_tree rb_tree mvcc_deleted = spec_erase ''b'' (Revision 3 0) (history rb_tree rb_tree mvcc_sample)"
    using ms_Delete_effect(3) [OF rb_tree_ok rb_tree_ok mvcc_sample_state(5) del] mvcc_sample_state(2,3) by simp_all
  have "\<not> ms_closed mvcc_deleted" "compactedRev mvcc_deleted = Zero"
    using mvcc_writes_coherent [OF rb_tree_ok rb_tree_ok writes] by simp_all
  with st(1) obtain s' where s': "ms_Compact rb_tree rb_tree 3 mvcc_deleted = (s', Inr ())"
    by (simp add: ms_Compact_def Zero_def gen_Current_def Let_def)
  show ?thesis
    using ms_Compact_revives_tombstone [OF rb_tree_ok rb_tree_ok writes s', of "''b''" "Revision 3 0"
        "spec_tombstone ''b'' (Revision 3 0) [(Revision 2 0, sample_b)]"] s'
    by (simp add: st mvcc_sample_state spec_erase_def spec_tombstone_def)
qed

lemma spec_txn_ops_tail:
  "list_all (\<lambda>op. o_Type op \<noteq> OpTypeDeleteRange) ops \<Longrightarrow> 0 < i \<Longrightarrow>
     \<exists>new. fst (spec_txn_ops m i ops h) k = h k @ new \<and> list_all (\<lambda>(r, _). Revision m 0 < r) new"
proof (induction ops arbitrary: i h)
  case (Cons op ops)
  let ?h = "fst (spec_txn_op m i op h)"
  have "\<exists>new. ?h k = h k @ new \<and> list_all (\<lambda>(r, _). Revision m 0 < r) new"
    using Cons.prems(2) by (auto simp: spec_txn_op_def Let_def spec_write_def spec_erase_def split: OpType.split)
  moreover obtain new' where "fst (spec_txn_ops m (i + 1) ops ?h) k = ?h k @ new'" "list_all (\<lambda>(r, _). Revision m 0 < r) new'"
    using Cons.IH [of "i + 1" ?h] Cons.prems by auto
  ultimately show ?case
    by (auto simp: Let_def case_prod_unfold)
qed simp

text \<open>
  Of a transaction's writes only those of its first operation are visible afterwards.  The others get
  sub-revisions beyond the generator, so a read of the latest revision shows a key that the first
  operation does not touch as it was before the transaction, until some later write advances the generator.
\<close>

theorem txn_later_writes_invisible:
  assumes K: "btree_ok K" and R: "btree_ok R" and writes: "(mvcc_write K R)\<^sup>*\<^sup>* (NewMemoryStore K R) s"
    and t: "conditions t = []" "thenOps t = op # ops" "plain_ops (thenOps t)" "plain_ops (elseOps t)"
    and commit: "ms_Commit K R t s = Some (s', out)" and k: "o_Key op \<noteq> k" "k \<noteq> []"
  shows "ms_Get K R k 0 s' =
    (case spec_read (Revision (Main (revisionGen s) + 1) 0) (history K R s k) of None \<Rightarrow> Inl ErrKeyNotFound | Some kv \<Rightarrow> Inr kv)"
proof -
  have inv: "ms_inv K R s" and coh: "ms_coherent K R s" and nc: "\<not> ms_closed s" "compactedRev s = Zero"
    using mvcc_writes_coherent [OF K R writes] by simp_all
  let ?m = "Main (revisionGen s) + 1" and ?h = "history K R s"
  obtain resps where ops: "spec_txn_ops ?m 0 (op # ops) ?h = (history K R s', resps)" and inv': "ms_inv K R s'"
    and st: "revisionGen s' = Revision ?m 0" "compactedRev s' = Zero" "\<not> ms_closed s'"
    using ms_Commit_spec(2) [OF K R inv coh t(3,4) nc(1) commit] t(1,2) nc(2) by auto
  let ?h1 = "fst (spec_txn_op ?m 0 op ?h)"
  have first: "?h1 k = ?h k"
    using k(1) by (auto simp: spec_txn_op_def Let_def spec_write_def spec_erase_def split: OpType.split)
  have "history K R s' = fst (spec_txn_ops ?m 1 ops ?h1)"
    using ops by (auto simp: Let_def case_prod_unfold)
  moreover have "list_all (\<lambda>op. o_Type op \<noteq> OpTypeDeleteRange) ops"
    using t(2,3) by (simp add: plain_ops_def)
  ultimately obtain new where "history K R s' k = ?h k @ new" "list_all (\<lambda>(r, _). Revision ?m 0 < r) new"
    using spec_txn_ops_tail [of ops 1 ?m ?h1 k] first by auto
  then have "spec_read (Revision ?m 0) (history K R s' k) = spec_read (Revision ?m 0) (?h k)"
    by (simp add: spec_read_append)
  moreover have "\<not> Revision ?m 0 < Zero"
    using ms_invD(5) [OF inv] by (simp add: Zero_def)
  ultimately show ?thesis
    using k(2) st by (simp add: ms_Get_spec [OF inv'] check_revision_def read_revision_def gen_Current_def)
qed

definition two_puts :: memoryTxn where
  "two_puts = \<lparr>conditions = [],
     thenOps = [\<lparr>o_Type = OpTypePut, o_Key = ''c'', o_End = None, o_Value = ''3'', o_Lease = 0\<rparr>,
                \<lparr>o_Type = OpTypePut, o_Key = ''d'', o_End = None, o_Value = ''4'', o_Lease = 0\<rparr>],
     elseOps = []\<rparr>"

theorem txn_later_writes_invisible_witness:
  "\<exists>s' out. ms_Commit rb_tree rb_tree two_puts mvcc_sample = Some (s', out) \<and> ms_Get rb_tree rb_tree ''d'' 0 s' = Inl ErrKeyNotFound"
proof -
  obtain s' out where commit: "ms_Commit rb_tree rb_tree two_puts mvcc_sample = Some (s', out)"
    by (simp add: ms_Commit_def mvcc_sample_state two_puts_def Let_def case_prod_unfold)
  have "plain_ops (thenOps two_puts)" "plain_ops (elseOps two_puts)" "conditions two_puts = []"
    by (simp_all add: two_puts_def plain_ops_def)
  with commit show ?thesis
    using txn_later_writes_invisible [OF rb_tree_ok rb_tree_ok mvcc_sample_writes(2) \<open>conditions two_puts = []\<close> _ _ _ commit,
        of "hd (thenOps two_puts)" "tl (thenOps two_puts)" "''d''"]
    by (simp add: two_puts_def mvcc_sample_state spec_read_def)
qed

definition collision_txn :: memoryTxn where
  "collision_txn = \<lparr>conditions = [],
     thenOps = [\<lparr>o_Type = OpTypeDeleteRange, o_Key = ''a'', o_End = Some ''c'', o_Value = [], o_Lease = 0\<rparr>,
                \<lparr>o_Type = OpTypePut, o_Key = ''c'', o_End = None, o_Value = ''3'', o_Lease = 0\<rparr>],
     elseOps = []\<rparr>"

text \<open>
  Sub-revisions collide inside a transaction with a range deletion, and a read then returns the entry
  of another key.  On a store with keys a and b, a transaction that deletes the range [a, c) and puts c
  gives b's tombstone and c's entry the same revision; after the next write, reading b returns c's entry.
\<close>

theorem txn_delete_range_collision:
  "map_option (\<lambda>(s', _). ms_Get rb_tree rb_tree ''b'' 0 (fst (ms_Put rb_tree rb_tree ''d'' ''4'' 0 s')))
     (ms_Commit rb_tree rb_tree collision_txn mvcc_sample) =
   Some (Inr \<lparr>mk_Key = ''c'', mk_Value = ''3'', mk_CreateRevision = 3, mk_ModRevision = 3, mk_Version = 1, mk_Lease = 0\<rparr>)"
  by code_simp

end
