(* ===== verification/Raft_Log.thy ===== *)
theory Raft_Log
  imports Btree_Interface Bytes
begin

text \<open>
  The persistent Raft log, \<open>internal/rocksdb/raftlog.go\<close>: entries, hard state, snapshot and the two index
  marks in a RocksDB database, with the marks cached in memory.  RocksDB is an ordered map of byte strings
  (a parameter \<open>D\<close>, with the contract of \<open>Btree_Interface\<close>); which of its calls fail is an argument \<open>io\<close>.
  The messages of the Raft library and their codecs are parameters too: of an entry only its term and
  index are read here, of a snapshot its index, term, configuration and data.  Indices are unsigned 64-bit
  numbers; the subtraction and the addition that can wrap are written out.
\<close>

section \<open>The database\<close>

type_synonym 'd rocks = "('d, string, string) btree"

record io =
  io_get_fails :: "string \<Rightarrow> bool"
  io_write_fails :: bool

datatype batch_op = WPut string string | WDelete string

fun apply_op :: "'d rocks \<Rightarrow> batch_op \<Rightarrow> 'd \<Rightarrow> 'd" where
  "apply_op D (WPut k v) db = bt_ReplaceOrInsert D k v db"
| "apply_op D (WDelete k) db = bt_Delete D k db"

text \<open>A read: \<^const>\<open>None\<close> is an error, and a missing key reads as empty data.\<close>

definition db_Get :: "io \<Rightarrow> 'd rocks \<Rightarrow> string \<Rightarrow> 'd \<Rightarrow> string option" where
  "db_Get io D k db = (if io_get_fails io k then None else Some (case bt_Get D db k of None \<Rightarrow> [] | Some v \<Rightarrow> v))"

definition db_Write :: "io \<Rightarrow> 'd rocks \<Rightarrow> batch_op list \<Rightarrow> 'd \<Rightarrow> 'd option" where
  "db_Write io D wb db = (if io_write_fails io then None else Some (fold (apply_op D) wb db))"

definition db_Put :: "io \<Rightarrow> 'd rocks \<Rightarrow> string \<Rightarrow> string \<Rightarrow> 'd \<Rightarrow> 'd option" where
  "db_Put io D k v db = db_Write io D [WPut k v] db"

section \<open>Messages of the Raft library\<close>

record 'x raft_entry =
  en_Term :: nat
  en_Index :: nat
  en_Rest :: 'x

record 'c raft_snapshot =
  sn_Index :: nat
  sn_Term :: nat
  sn_ConfState :: 'c
  sn_Data :: string

record ('x, 'c, 'h) raft_codec =
  ent_Marshal :: "'x raft_entry \<Rightarrow> string option"
  ent_Unmarshal :: "string \<Rightarrow> 'x raft_entry option"
  ent_Size :: "'x raft_entry \<Rightarrow> nat"
  snap_Marshal :: "'c raft_snapshot \<Rightarrow> string option"
  snap_Unmarshal :: "string \<Rightarrow> 'c raft_snapshot option"
  IsEmptySnap :: "'c raft_snapshot \<Rightarrow> bool"
  hs_Marshal :: "'h \<Rightarrow> string option"
  hs_Unmarshal :: "string \<Rightarrow> 'h option"
  hs_zero :: 'h
  cs_Marshal :: "'c \<Rightarrow> string option"
  cs_Unmarshal :: "string \<Rightarrow> 'c option"
  cs_zero :: 'c

datatype log_error =
  LogCompacted | LogUnavailable | LogSnapOutOfDate | LogInvalidRange | LogBeyondLast | LogEntryMissing
  | LogDatabase | LogMarshal | LogUnmarshal | LogIndexMissing | LogShortBuffer

section \<open>State and keys\<close>

record 'd RocksDBStorage =
  rs_db :: 'd
  nodeID :: string
  firstIndex :: nat
  lastIndex :: nat

definition uint64_pred :: "nat \<Rightarrow> nat" where
  "uint64_pred n = (if n = 0 then 2 ^ 64 - 1 else n - 1)"

definition uint64_succ :: "nat \<Rightarrow> nat" where
  "uint64_succ n = (n + 1) mod 2 ^ 64"

definition prefixedKey :: "string \<Rightarrow> string \<Rightarrow> string" where
  "prefixedKey node key = node @ ''_'' @ key"

definition hardStateKey :: string where "hardStateKey = ''hard_state''"
definition confStateKey :: string where "confStateKey = ''conf_state''"
definition snapshotKey :: string where "snapshotKey = ''snapshot_meta''"
definition firstIndexKey :: string where "firstIndexKey = ''first_index''"
definition lastIndexKey :: string where "lastIndexKey = ''last_index''"
definition raftLogPrefix :: string where "raftLogPrefix = ''raft_log_''"

definition logKey :: "string \<Rightarrow> nat \<Rightarrow> string" where
  "logKey node index = prefixedKey node raftLogPrefix @ ''_'' @ PutUint64 index"

section \<open>Index marks\<close>

definition binaryReadUint64BigEndian :: "string \<Rightarrow> log_error + nat" where
  "binaryReadUint64BigEndian b = (if length b < 8 then Inl LogShortBuffer else Inr (Uint64 (take 8 b)))"

definition read_mark :: "io \<Rightarrow> 'd rocks \<Rightarrow> string \<Rightarrow> 'd \<Rightarrow> log_error + nat" where
  "read_mark io D key db =
     (case db_Get io D key db of
        None \<Rightarrow> Inl LogDatabase
      | Some data \<Rightarrow> if length data = 0 then Inl LogIndexMissing else binaryReadUint64BigEndian data)"

definition getFirstIndexUnsafe :: "io \<Rightarrow> 'd rocks \<Rightarrow> string \<Rightarrow> 'd \<Rightarrow> log_error + nat" where
  "getFirstIndexUnsafe io D node db = read_mark io D (prefixedKey node firstIndexKey) db"

definition getLastIndexUnsafe :: "io \<Rightarrow> 'd rocks \<Rightarrow> string \<Rightarrow> 'd \<Rightarrow> log_error + nat" where
  "getLastIndexUnsafe io D node db = read_mark io D (prefixedKey node lastIndexKey) db"

definition setFirstIndexUnsafe :: "io \<Rightarrow> 'd rocks \<Rightarrow> string \<Rightarrow> nat \<Rightarrow> 'd \<Rightarrow> 'd option" where
  "setFirstIndexUnsafe io D node index db = db_Put io D (prefixedKey node firstIndexKey) (PutUint64 index) db"

definition setLastIndexUnsafe :: "io \<Rightarrow> 'd rocks \<Rightarrow> string \<Rightarrow> nat \<Rightarrow> 'd \<Rightarrow> 'd option" where
  "setLastIndexUnsafe io D node index db = db_Put io D (prefixedKey node lastIndexKey) (PutUint64 index) db"

definition setFirstIndexWithWB :: "string \<Rightarrow> nat \<Rightarrow> batch_op list \<Rightarrow> batch_op list" where
  "setFirstIndexWithWB node index wb = wb @ [WPut (prefixedKey node firstIndexKey) (PutUint64 index)]"

definition setLastIndexWithWB :: "string \<Rightarrow> nat \<Rightarrow> batch_op list \<Rightarrow> batch_op list" where
  "setLastIndexWithWB node index wb = wb @ [WPut (prefixedKey node lastIndexKey) (PutUint64 index)]"

text \<open>
  Opening: a mark that cannot be read, for whatever reason, is initialised.  The database is returned in
  the error case too, since a first write may have happened.
\<close>

definition NewRocksDBStorage :: "io \<Rightarrow> 'd rocks \<Rightarrow> string \<Rightarrow> 'd \<Rightarrow> 'd \<times> (log_error + 'd RocksDBStorage)" where
  "NewRocksDBStorage io D node db =
     (let first = (case getFirstIndexUnsafe io D node db of
                     Inr i \<Rightarrow> Some (db, i)
                   | Inl _ \<Rightarrow> map_option (\<lambda>db'. (db', 1)) (setFirstIndexUnsafe io D node 1 db))
      in case first of
           None \<Rightarrow> (db, Inl LogDatabase)
         | Some (db1, fi) \<Rightarrow>
             (case getLastIndexUnsafe io D node db1 of
                Inr li \<Rightarrow> (db1, Inr \<lparr>rs_db = db1, nodeID = node, firstIndex = fi, lastIndex = li\<rparr>)
              | Inl _ \<Rightarrow>
                  (case setLastIndexUnsafe io D node (uint64_pred fi) db1 of
                     None \<Rightarrow> (db1, Inl LogDatabase)
                   | Some db2 \<Rightarrow> (db2, Inr \<lparr>rs_db = db2, nodeID = node, firstIndex = fi, lastIndex = uint64_pred fi\<rparr>))))"

section \<open>Reading\<close>

definition load_message :: "io \<Rightarrow> 'd rocks \<Rightarrow> (string \<Rightarrow> 'm option) \<Rightarrow> 'm \<Rightarrow> string \<Rightarrow> 'd \<Rightarrow> log_error + 'm" where
  "load_message io D unmarshal none key db =
     (case db_Get io D key db of
        None \<Rightarrow> Inl LogDatabase
      | Some data \<Rightarrow>
          if length data > 0 then (case unmarshal data of None \<Rightarrow> Inl LogUnmarshal | Some m \<Rightarrow> Inr m)
          else Inr none)"

definition InitialState :: "io \<Rightarrow> 'd rocks \<Rightarrow> ('x, 'c, 'h) raft_codec \<Rightarrow> 'd RocksDBStorage \<Rightarrow> log_error + 'h \<times> 'c" where
  "InitialState io D C s =
     (case load_message io D (hs_Unmarshal C) (hs_zero C) (prefixedKey (nodeID s) hardStateKey) (rs_db s) of
        Inl e \<Rightarrow> Inl e
      | Inr hs \<Rightarrow>
          (case load_message io D (cs_Unmarshal C) (cs_zero C) (prefixedKey (nodeID s) confStateKey) (rs_db s) of
             Inl e \<Rightarrow> Inl e
           | Inr cs \<Rightarrow> Inr (hs, cs)))"

definition loadSnapshotUnsafe :: "io \<Rightarrow> 'd rocks \<Rightarrow> ('x, 'c, 'h) raft_codec \<Rightarrow> 'd RocksDBStorage \<Rightarrow> log_error + 'c raft_snapshot" where
  "loadSnapshotUnsafe io D C s =
     load_message io D (snap_Unmarshal C)
       \<lparr>sn_Index = uint64_pred (firstIndex s), sn_Term = 0, sn_ConfState = cs_zero C, sn_Data = []\<rparr>
       (prefixedKey (nodeID s) snapshotKey) (rs_db s)"

definition log_Snapshot :: "io \<Rightarrow> 'd rocks \<Rightarrow> ('x, 'c, 'h) raft_codec \<Rightarrow> 'd RocksDBStorage \<Rightarrow> log_error + 'c raft_snapshot" where
  "log_Snapshot io D C s = loadSnapshotUnsafe io D C s"

definition load_entry :: "io \<Rightarrow> 'd rocks \<Rightarrow> ('x, 'c, 'h) raft_codec \<Rightarrow> log_error \<Rightarrow> 'd RocksDBStorage \<Rightarrow> nat \<Rightarrow> log_error + 'x raft_entry" where
  "load_entry io D C missing s i =
     (case db_Get io D (logKey (nodeID s) i) (rs_db s) of
        None \<Rightarrow> Inl LogDatabase
      | Some data \<Rightarrow>
          if length data = 0 then Inl missing
          else (case ent_Unmarshal C data of None \<Rightarrow> Inl LogUnmarshal | Some ent \<Rightarrow> Inr ent))"

fun entries_loop ::
    "io \<Rightarrow> 'd rocks \<Rightarrow> ('x, 'c, 'h) raft_codec \<Rightarrow> 'd RocksDBStorage \<Rightarrow> nat \<Rightarrow> nat list \<Rightarrow> 'x raft_entry list \<Rightarrow> nat \<Rightarrow> log_error + 'x raft_entry list" where
  "entries_loop io D C s maxSize [] ents sz = Inr ents"
| "entries_loop io D C s maxSize (i # is) ents sz =
     (case load_entry io D C LogUnavailable s i of
        Inl e \<Rightarrow> Inl e
      | Inr ent \<Rightarrow>
          if sz > 0 \<and> sz + ent_Size C ent > maxSize then Inr ents
          else entries_loop io D C s maxSize is (ents @ [ent]) (sz + ent_Size C ent))"

definition Entries ::
    "io \<Rightarrow> 'd rocks \<Rightarrow> ('x, 'c, 'h) raft_codec \<Rightarrow> nat \<Rightarrow> nat \<Rightarrow> nat \<Rightarrow> 'd RocksDBStorage \<Rightarrow> log_error + 'x raft_entry list" where
  "Entries io D C lo hi maxSize s =
     (if lo > hi then Inl LogInvalidRange
      else if lo < firstIndex s then Inl LogCompacted
      else if hi > uint64_succ (lastIndex s) then Inl LogUnavailable
      else if lo = hi then Inr []
      else entries_loop io D C s maxSize [lo..<hi] [] 0)"

definition Term :: "io \<Rightarrow> 'd rocks \<Rightarrow> ('x, 'c, 'h) raft_codec \<Rightarrow> nat \<Rightarrow> 'd RocksDBStorage \<Rightarrow> log_error + nat" where
  "Term io D C index s =
     (if index < uint64_pred (firstIndex s) then Inl LogCompacted
      else if index > lastIndex s then Inl LogUnavailable
      else if index = uint64_pred (firstIndex s) then
        (case loadSnapshotUnsafe io D C s of
           Inl e \<Rightarrow> Inl e
         | Inr snap \<Rightarrow>
             if \<not> IsEmptySnap C snap \<and> sn_Index snap = index then Inr (sn_Term snap)
             else if index = 0 then Inr 0
             else Inl LogCompacted)
      else
        (case load_entry io D C LogUnavailable s index of Inl e \<Rightarrow> Inl e | Inr ent \<Rightarrow> Inr (en_Term ent)))"

definition log_LastIndex :: "'d RocksDBStorage \<Rightarrow> nat" where
  "log_LastIndex s = lastIndex s"

definition log_FirstIndex :: "'d RocksDBStorage \<Rightarrow> nat" where
  "log_FirstIndex s = firstIndex s"

section \<open>Writing\<close>

text \<open>The deletions of a run of log entries, and the marshalled puts of new ones.\<close>

definition delete_entries :: "string \<Rightarrow> nat list \<Rightarrow> batch_op list" where
  "delete_entries node is = map (\<lambda>i. WDelete (logKey node i)) is"

fun put_entries :: "('x, 'c, 'h) raft_codec \<Rightarrow> string \<Rightarrow> 'x raft_entry list \<Rightarrow> batch_op list option" where
  "put_entries C node [] = Some []"
| "put_entries C node (ent # ents) =
     (case ent_Marshal C ent of
        None \<Rightarrow> None
      | Some data \<Rightarrow> map_option (\<lambda>wb. WPut (logKey node (en_Index ent)) data # wb) (put_entries C node ents))"

text \<open>\<open>Append\<close>: the cached marks move before the batch is written, and stay moved when the write fails.\<close>

definition log_Append ::
    "io \<Rightarrow> 'd rocks \<Rightarrow> ('x, 'c, 'h) raft_codec \<Rightarrow> 'x raft_entry list \<Rightarrow> 'd RocksDBStorage \<Rightarrow> 'd RocksDBStorage \<times> (log_error + unit)" where
  "log_Append io D C entries s =
     (if length entries = 0 then (s, Inr ())
      else
        let first = en_Index (hd entries);
            last = en_Index (last entries);
            wb1 = (if first \<le> lastIndex s then delete_entries (nodeID s) [first..<Suc (lastIndex s)] else [])
        in case put_entries C (nodeID s) entries of
             None \<Rightarrow> (s, Inl LogMarshal)
           | Some puts \<Rightarrow>
               let wb2 = wb1 @ puts;
                   (s3, wb3) = (if last > lastIndex s then (s\<lparr>lastIndex := last\<rparr>, setLastIndexWithWB (nodeID s) last wb2)
                                else (s, wb2));
                   (s4, wb4) = (if firstIndex s3 > lastIndex s3
                                then (s3\<lparr>firstIndex := first\<rparr>, setFirstIndexWithWB (nodeID s) first wb3)
                                else (s3, wb3))
               in case db_Write io D wb4 (rs_db s4) of
                    None \<Rightarrow> (s4, Inl LogDatabase)
                  | Some db \<Rightarrow> (s4\<lparr>rs_db := db\<rparr>, Inr ()))"

definition put_message :: "io \<Rightarrow> 'd rocks \<Rightarrow> ('m \<Rightarrow> string option) \<Rightarrow> string \<Rightarrow> 'm \<Rightarrow> 'd RocksDBStorage \<Rightarrow> 'd RocksDBStorage \<times> (log_error + unit)" where
  "put_message io D marshal key m s =
     (case marshal m of
        None \<Rightarrow> (s, Inl LogMarshal)
      | Some data \<Rightarrow>
          (case db_Put io D (prefixedKey (nodeID s) key) data (rs_db s) of
             None \<Rightarrow> (s, Inl LogDatabase)
           | Some db \<Rightarrow> (s\<lparr>rs_db := db\<rparr>, Inr ())))"

definition SetHardState :: "io \<Rightarrow> 'd rocks \<Rightarrow> ('x, 'c, 'h) raft_codec \<Rightarrow> 'h \<Rightarrow> 'd RocksDBStorage \<Rightarrow> 'd RocksDBStorage \<times> (log_error + unit)" where
  "SetHardState io D C st s = put_message io D (hs_Marshal C) hardStateKey st s"

definition SetConfState :: "io \<Rightarrow> 'd rocks \<Rightarrow> ('x, 'c, 'h) raft_codec \<Rightarrow> 'c \<Rightarrow> 'd RocksDBStorage \<Rightarrow> 'd RocksDBStorage \<times> (log_error + unit)" where
  "SetConfState io D C cs s = put_message io D (cs_Marshal C) confStateKey cs s"

definition snapshot_term :: "io \<Rightarrow> 'd rocks \<Rightarrow> ('x, 'c, 'h) raft_codec \<Rightarrow> nat \<Rightarrow> 'd RocksDBStorage \<Rightarrow> log_error + nat" where
  "snapshot_term io D C index s =
     (if index = uint64_pred (firstIndex s) then
        (case loadSnapshotUnsafe io D C s of
           Inl e \<Rightarrow> Inl e
         | Inr snap \<Rightarrow> if \<not> IsEmptySnap C snap then Inr (sn_Term snap) else Inr 0)
      else
        (case load_entry io D C LogEntryMissing s index of Inl e \<Rightarrow> Inl e | Inr ent \<Rightarrow> Inr (en_Term ent)))"

definition CreateSnapshot ::
    "io \<Rightarrow> 'd rocks \<Rightarrow> ('x, 'c, 'h) raft_codec \<Rightarrow> nat \<Rightarrow> 'c \<Rightarrow> string \<Rightarrow> 'd RocksDBStorage \<Rightarrow> 'd RocksDBStorage \<times> (log_error + 'c raft_snapshot)" where
  "CreateSnapshot io D C index cs data s =
     (if index < uint64_pred (firstIndex s) then (s, Inl LogSnapOutOfDate)
      else if index > lastIndex s then (s, Inl LogBeyondLast)
      else case snapshot_term io D C index s of
             Inl e \<Rightarrow> (s, Inl e)
           | Inr t \<Rightarrow>
               let snap = \<lparr>sn_Index = index, sn_Term = t, sn_ConfState = cs, sn_Data = data\<rparr>
               in case put_message io D (snap_Marshal C) snapshotKey snap s of
                    (s', Inl e) \<Rightarrow> (s', Inl e)
                  | (s', Inr _) \<Rightarrow> (s', Inr snap))"

definition log_ApplySnapshot ::
    "io \<Rightarrow> 'd rocks \<Rightarrow> ('x, 'c, 'h) raft_codec \<Rightarrow> 'c raft_snapshot \<Rightarrow> 'd RocksDBStorage \<Rightarrow> 'd RocksDBStorage \<times> (log_error + unit)" where
  "log_ApplySnapshot io D C snap s =
     (if IsEmptySnap C snap then (s, Inr ())
      else if sn_Index snap \<le> uint64_pred (firstIndex s) then (s, Inl LogSnapOutOfDate)
      else case snap_Marshal C snap of
             None \<Rightarrow> (s, Inl LogMarshal)
           | Some snapData \<Rightarrow>
               let index = sn_Index snap;
                   newFirst = uint64_succ index;
                   wb1 = WPut (prefixedKey (nodeID s) snapshotKey) snapData
                           # delete_entries (nodeID s) [firstIndex s..<Suc (min index (lastIndex s))];
                   wb2 = setFirstIndexWithWB (nodeID s) newFirst wb1;
                   (s3, wb3) = (if index > lastIndex s then (s\<lparr>lastIndex := index\<rparr>, setLastIndexWithWB (nodeID s) index wb2)
                                else (s, wb2))
               in case cs_Marshal C (sn_ConfState snap) of
                    None \<Rightarrow> (s3, Inl LogMarshal)
                  | Some csData \<Rightarrow>
                      (case db_Write io D (wb3 @ [WPut (prefixedKey (nodeID s) confStateKey) csData]) (rs_db s) of
                         None \<Rightarrow> (s3, Inl LogDatabase)
                       | Some db \<Rightarrow> (s3\<lparr>rs_db := db, firstIndex := newFirst\<rparr>, Inr ())))"

definition log_Compact :: "io \<Rightarrow> 'd rocks \<Rightarrow> nat \<Rightarrow> 'd RocksDBStorage \<Rightarrow> 'd RocksDBStorage \<times> (log_error + unit)" where
  "log_Compact io D compactIndex s =
     (if compactIndex \<le> firstIndex s then (s, Inl LogCompacted)
      else if compactIndex > lastIndex s then (s, Inl LogBeyondLast)
      else
        let wb = setFirstIndexWithWB (nodeID s) compactIndex (delete_entries (nodeID s) [firstIndex s..<compactIndex])
        in case db_Write io D wb (rs_db s) of
             None \<Rightarrow> (s, Inl LogDatabase)
           | Some db \<Rightarrow> (s\<lparr>rs_db := db, firstIndex := compactIndex\<rparr>, Inr ()))"

section \<open>Batches on the database\<close>

fun op_map :: "batch_op \<Rightarrow> (string \<rightharpoonup> string) \<Rightarrow> (string \<rightharpoonup> string)" where
  "op_map (WPut k v) m = m(k \<mapsto> v)"
| "op_map (WDelete k) m = m(k := None)"

definition batch_map :: "batch_op list \<Rightarrow> (string \<rightharpoonup> string) \<Rightarrow> (string \<rightharpoonup> string)" where
  "batch_map wb = fold op_map wb"

lemma batch_effect: "btree_ok D \<Longrightarrow> bt_Get D (fold (apply_op D) wb db) = batch_map wb (bt_Get D db)"
proof (induction wb arbitrary: db)
  case (Cons op wb)
  then show ?case
    by (cases op) (simp_all add: batch_map_def btree_simps(2,3))
qed (simp add: batch_map_def)

lemma batch_map_simps [simp]:
  "batch_map [] m = m" "batch_map (op # wb) m = batch_map wb (op_map op m)" "batch_map (wb @ wb') m = batch_map wb' (batch_map wb m)"
  by (simp_all add: batch_map_def)

lemma batch_map_delete: "batch_map (delete_entries node is) m k = (if k \<in> logKey node ` set is then None else m k)"
  by (induction "is" arbitrary: m) (auto simp: delete_entries_def)

section \<open>Keys\<close>

lemma PutUint64_inj: "a < 2 ^ 64 \<Longrightarrow> b < 2 ^ 64 \<Longrightarrow> PutUint64 a = PutUint64 b \<longleftrightarrow> a = b"
proof -
  assume "a < 2 ^ 64" "b < 2 ^ 64"
  then have "Uint64 (PutUint64 a @ []) = a" "Uint64 (PutUint64 b @ []) = b"
    by (simp_all add: Uint64_PutUint64 del: append_Nil2)
  then show ?thesis
    by metis
qed

lemma logKey_inj [simp]: "a < 2 ^ 64 \<Longrightarrow> b < 2 ^ 64 \<Longrightarrow> logKey node a = logKey node b \<longleftrightarrow> a = b"
  by (simp add: logKey_def prefixedKey_def PutUint64_inj)

lemmas mark_keys = hardStateKey_def confStateKey_def snapshotKey_def firstIndexKey_def lastIndexKey_def

lemma logKey_mark [simp]:
  "logKey node i \<noteq> prefixedKey node hardStateKey" "logKey node i \<noteq> prefixedKey node confStateKey"
  "logKey node i \<noteq> prefixedKey node snapshotKey" "logKey node i \<noteq> prefixedKey node firstIndexKey"
  "logKey node i \<noteq> prefixedKey node lastIndexKey"
  "prefixedKey node hardStateKey \<noteq> logKey node i" "prefixedKey node confStateKey \<noteq> logKey node i"
  "prefixedKey node snapshotKey \<noteq> logKey node i" "prefixedKey node firstIndexKey \<noteq> logKey node i"
  "prefixedKey node lastIndexKey \<noteq> logKey node i"
  by (simp_all add: logKey_def prefixedKey_def raftLogPrefix_def mark_keys)

lemma prefixedKey_inj [simp]: "prefixedKey node a = prefixedKey node b \<longleftrightarrow> a = b"
  by (simp add: prefixedKey_def)

lemma mark_keys_differ [simp]:
  "hardStateKey \<noteq> firstIndexKey" "hardStateKey \<noteq> lastIndexKey" "confStateKey \<noteq> firstIndexKey" "confStateKey \<noteq> lastIndexKey"
  "snapshotKey \<noteq> firstIndexKey" "snapshotKey \<noteq> lastIndexKey" "firstIndexKey \<noteq> lastIndexKey"
  "firstIndexKey \<noteq> hardStateKey" "lastIndexKey \<noteq> hardStateKey" "firstIndexKey \<noteq> confStateKey" "lastIndexKey \<noteq> confStateKey"
  "firstIndexKey \<noteq> snapshotKey" "lastIndexKey \<noteq> snapshotKey" "lastIndexKey \<noteq> firstIndexKey"
  "snapshotKey \<noteq> confStateKey" "confStateKey \<noteq> snapshotKey" "hardStateKey \<noteq> confStateKey" "confStateKey \<noteq> hardStateKey"
  "hardStateKey \<noteq> snapshotKey" "snapshotKey \<noteq> hardStateKey"
  by (simp_all add: mark_keys)

section \<open>The abstract log\<close>

definition entry_in :: "('x, 'c, 'h) raft_codec \<Rightarrow> string \<Rightarrow> (string \<rightharpoonup> string) \<Rightarrow> nat \<Rightarrow> 'x raft_entry option" where
  "entry_in C node m i =
     (case m (logKey node i) of None \<Rightarrow> None | Some data \<Rightarrow> if data = [] then None else ent_Unmarshal C data)"

definition log_entries :: "'d rocks \<Rightarrow> ('x, 'c, 'h) raft_codec \<Rightarrow> 'd RocksDBStorage \<Rightarrow> 'x raft_entry list" where
  "log_entries D C s = map (\<lambda>i. the (entry_in C (nodeID s) (bt_Get D (rs_db s)) i)) [firstIndex s..<Suc (lastIndex s)]"

text \<open>
  A log in order: the marks are in range and persisted, and every index between them holds an entry of
  that index.
\<close>

definition log_inv :: "'d rocks \<Rightarrow> ('x, 'c, 'h) raft_codec \<Rightarrow> 'd RocksDBStorage \<Rightarrow> bool" where
  "log_inv D C s \<longleftrightarrow>
     1 \<le> firstIndex s \<and> firstIndex s \<le> Suc (lastIndex s) \<and> lastIndex s < 2 ^ 64 - 1
   \<and> bt_Get D (rs_db s) (prefixedKey (nodeID s) firstIndexKey) = Some (PutUint64 (firstIndex s))
   \<and> bt_Get D (rs_db s) (prefixedKey (nodeID s) lastIndexKey) = Some (PutUint64 (lastIndex s))
   \<and> (\<forall>i. firstIndex s \<le> i \<and> i \<le> lastIndex s \<longrightarrow>
        (\<exists>e. entry_in C (nodeID s) (bt_Get D (rs_db s)) i = Some e \<and> en_Index e = i))"

text \<open>What is relied on of the Raft library's codec: entries read back, and no encoding is empty.\<close>

definition raft_codec_ok :: "('x, 'c, 'h) raft_codec \<Rightarrow> bool" where
  "raft_codec_ok C \<longleftrightarrow>
     (\<forall>e data. ent_Marshal C e = Some data \<longrightarrow> data \<noteq> [] \<and> ent_Unmarshal C data = Some e)
   \<and> (\<forall>e. 0 < ent_Size C e) \<and> (\<forall>sn. IsEmptySnap C sn \<longleftrightarrow> sn_Index sn = 0)"

definition io_ok :: "io \<Rightarrow> bool" where
  "io_ok io \<longleftrightarrow> (\<forall>k. \<not> io_get_fails io k) \<and> \<not> io_write_fails io"

lemma log_invD:
  assumes "log_inv D C s"
  shows "1 \<le> firstIndex s" "firstIndex s \<le> Suc (lastIndex s)" "lastIndex s < 2 ^ 64 - 1"
    "bt_Get D (rs_db s) (prefixedKey (nodeID s) firstIndexKey) = Some (PutUint64 (firstIndex s))"
    "bt_Get D (rs_db s) (prefixedKey (nodeID s) lastIndexKey) = Some (PutUint64 (lastIndex s))"
    "firstIndex s \<le> i \<Longrightarrow> i \<le> lastIndex s \<Longrightarrow> \<exists>e. entry_in C (nodeID s) (bt_Get D (rs_db s)) i = Some e \<and> en_Index e = i"
  using assms unfolding log_inv_def by blast+

lemma pred_succ:
  assumes "log_inv D C s"
  shows "uint64_pred (firstIndex s) = firstIndex s - 1" "uint64_succ (lastIndex s) = Suc (lastIndex s)"
  using log_invD(1,3) [OF assms] by (simp_all add: uint64_pred_def uint64_succ_def)

lemma load_entry_in:
  assumes "io_ok io"
  shows "load_entry io D C missing s i =
    (case bt_Get D (rs_db s) (logKey (nodeID s) i) of
       None \<Rightarrow> Inl missing
     | Some data \<Rightarrow> if data = [] then Inl missing else (case ent_Unmarshal C data of None \<Rightarrow> Inl LogUnmarshal | Some e \<Rightarrow> Inr e))"
  using assms by (auto simp: load_entry_def db_Get_def io_ok_def split: option.split)

lemma load_entry_some:
  "io_ok io \<Longrightarrow> entry_in C (nodeID s) (bt_Get D (rs_db s)) i = Some e \<Longrightarrow> load_entry io D C missing s i = Inr e"
  by (auto simp: load_entry_in entry_in_def split: option.splits if_splits)

lemma load_entry_missing:
  "io_ok io \<Longrightarrow> bt_Get D (rs_db s) (logKey (nodeID s) i) = None \<Longrightarrow> load_entry io D C missing s i = Inl missing"
  by (simp add: load_entry_in)

lemma length_log_entries [simp]: "length (log_entries D C s) = Suc (lastIndex s) - firstIndex s"
  by (simp add: log_entries_def del: upt_Suc)

lemma log_entries_nth:
  "firstIndex s \<le> i \<Longrightarrow> i \<le> lastIndex s \<Longrightarrow>
     log_entries D C s ! (i - firstIndex s) = the (entry_in C (nodeID s) (bt_Get D (rs_db s)) i)"
  by (simp add: log_entries_def del: upt_Suc)

section \<open>Reading a range of entries\<close>

definition total_size :: "('x, 'c, 'h) raft_codec \<Rightarrow> 'x raft_entry list \<Rightarrow> nat" where
  "total_size C es = sum_list (map (ent_Size C) es)"

lemma entries_loop_prefix:
  assumes io: "io_ok io" and C: "raft_codec_ok C"
    and es: "length es = length is" "\<And>j. j < length is \<Longrightarrow> entry_in C (nodeID s) (bt_Get D (rs_db s)) (is ! j) = Some (es ! j)"
    and acc: "sz = total_size C ents" "1 < length ents \<longrightarrow> total_size C ents \<le> maxSize"
  shows "\<exists>n \<le> length es. entries_loop io D C s maxSize is ents sz = Inr (ents @ take n es)
    \<and> (ents = [] \<and> es \<noteq> [] \<longrightarrow> 0 < n)
    \<and> (1 < length ents + n \<longrightarrow> total_size C (ents @ take n es) \<le> maxSize)
    \<and> (n < length es \<longrightarrow> maxSize < total_size C (ents @ take (Suc n) es))"
  using es acc
proof (induction "is" arbitrary: es ents sz)
  case (Cons i "is")
  obtain e es' where es: "es = e # es'"
    using Cons.prems(1) by (cases es) auto
  have load: "load_entry io D C LogUnavailable s i = Inr e"
    using Cons.prems(2) [of 0] by (intro load_entry_some [OF io]) (simp add: es)
  have pos: "sz > 0 \<longleftrightarrow> ents \<noteq> []"
    using C Cons.prems(3) by (cases ents) (auto simp: raft_codec_ok_def total_size_def)
  show ?case
  proof (cases "sz > 0 \<and> sz + ent_Size C e > maxSize")
    case True
    then show ?thesis
      using Cons.prems(3,4) pos by (intro exI [of _ 0]) (auto simp: load es total_size_def)
  next
    case False
    have "length es' = length is" "\<And>j. j < length is \<Longrightarrow> entry_in C (nodeID s) (bt_Get D (rs_db s)) (is ! j) = Some (es' ! j)"
      using Cons.prems(1) Cons.prems(2) [of "Suc _"] by (auto simp: es)
    moreover have total: "sz + ent_Size C e = total_size C (ents @ [e])"
      by (simp add: Cons.prems(3) total_size_def)
    moreover have "1 < length (ents @ [e]) \<longrightarrow> total_size C (ents @ [e]) \<le> maxSize"
      using False pos unfolding total [symmetric] by auto
    ultimately obtain n where n: "n \<le> length es'" "entries_loop io D C s maxSize is (ents @ [e]) (sz + ent_Size C e) = Inr ((ents @ [e]) @ take n es')"
      "1 < length (ents @ [e]) + n \<longrightarrow> total_size C ((ents @ [e]) @ take n es') \<le> maxSize"
      "n < length es' \<longrightarrow> maxSize < total_size C ((ents @ [e]) @ take (Suc n) es')"
      using Cons.IH by blast
    then show ?thesis
      using False by (intro exI [of _ "Suc n"]) (auto simp: load es)
  qed
qed simp

lemma Entries_prefix:
  fixes C :: "('x, 'c, 'h) raft_codec"
  assumes "btree_ok D" and io: "io_ok io" and C: "raft_codec_ok C" and inv: "log_inv D C s"
    and range: "firstIndex s \<le> lo" "lo \<le> hi" "hi \<le> Suc (lastIndex s)"
  shows "\<exists>n \<le> hi - lo. Entries io D C lo hi maxSize s = Inr (take n (drop (lo - firstIndex s) (log_entries D C s)))
    \<and> (lo < hi \<longrightarrow> 0 < n)
    \<and> (1 < n \<longrightarrow> total_size C (take n (drop (lo - firstIndex s) (log_entries D C s))) \<le> maxSize)
    \<and> (n < hi - lo \<longrightarrow> maxSize < total_size C (take (Suc n) (drop (lo - firstIndex s) (log_entries D C s))))"
proof -
  define es where "es = take (hi - lo) (drop (lo - firstIndex s) (log_entries D C s))"
  have len: "length es = length [lo..<hi]"
    using range by (auto simp: es_def)
  have nth: "entry_in C (nodeID s) (bt_Get D (rs_db s)) ([lo..<hi] ! j) = Some (es ! j)" if "j < length [lo..<hi]" for j
  proof -
    have i: "firstIndex s \<le> lo + j" "lo + j \<le> lastIndex s" "lo - firstIndex s + j = lo + j - firstIndex s"
      using that range by auto
    obtain e where "entry_in C (nodeID s) (bt_Get D (rs_db s)) (lo + j) = Some e"
      using log_invD(6) [OF inv i(1,2)] by blast
    then show ?thesis
      using log_entries_nth [OF i(1,2), of D C] that range i by (simp add: es_def nth_drop)
  qed
  have take: "take n es = take n (drop (lo - firstIndex s) (log_entries D C s))" if "n \<le> hi - lo" for n
    using that by (simp add: es_def min_absorb1)
  have ent: "Entries io D C lo hi maxSize s = entries_loop io D C s maxSize [lo..<hi] [] 0"
    using range pred_succ [OF inv] by (auto simp: Entries_def)
  have "\<exists>n \<le> length es. entries_loop io D C s maxSize [lo..<hi] [] 0 = Inr ([] @ take n es)
    \<and> (([] :: 'x raft_entry list) = [] \<and> es \<noteq> [] \<longrightarrow> 0 < n)
    \<and> (1 < length ([] :: 'x raft_entry list) + n \<longrightarrow> total_size C ([] @ take n es) \<le> maxSize)
    \<and> (n < length es \<longrightarrow> maxSize < total_size C ([] @ take (Suc n) es))"
    by (rule entries_loop_prefix [OF io C len]) (use nth in \<open>simp_all add: total_size_def\<close>)
  then obtain n where n: "n \<le> hi - lo" "entries_loop io D C s maxSize [lo..<hi] [] 0 = Inr (take n es)" "es \<noteq> [] \<longrightarrow> 0 < n"
    "1 < n \<longrightarrow> total_size C (take n es) \<le> maxSize" "n < hi - lo \<longrightarrow> maxSize < total_size C (take (Suc n) es)"
    unfolding len by auto
  have "lo < hi \<longrightarrow> es \<noteq> []"
    using len by auto
  with n show ?thesis
    using take [of n] take [of "Suc n"] by (intro exI [of _ n]) (simp add: ent Suc_le_eq)
qed

section \<open>Appending\<close>

definition contiguous :: "'x raft_entry list \<Rightarrow> nat \<Rightarrow> bool" where
  "contiguous es f \<longleftrightarrow> map en_Index es = [f..<f + length es]"

lemma contiguous_nth: "contiguous es f \<Longrightarrow> j < length es \<Longrightarrow> en_Index (es ! j) = f + j"
  unfolding contiguous_def by (metis add_less_cancel_left length_map nth_map nth_upt)

lemma put_entries_effect:
  assumes "put_entries C node es = Some wb" "distinct (map en_Index es)" "\<And>e. e \<in> set es \<Longrightarrow> en_Index e < 2 ^ 64"
  shows "batch_map wb m k = (case find (\<lambda>e. logKey node (en_Index e) = k) es of None \<Rightarrow> m k | Some e \<Rightarrow> ent_Marshal C e)"
  using assms
proof (induction es arbitrary: wb m)
  case (Cons e es)
  obtain data wb' where wb: "ent_Marshal C e = Some data" "put_entries C node es = Some wb'" "wb = WPut (logKey node (en_Index e)) data # wb'"
    using Cons.prems(1) by (auto split: option.splits)
  have IH: "batch_map wb' m' k = (case find (\<lambda>e. logKey node (en_Index e) = k) es of None \<Rightarrow> m' k | Some e \<Rightarrow> ent_Marshal C e)" for m'
    using Cons.prems wb(2) by (intro Cons.IH) auto
  show ?case
  proof (cases "logKey node (en_Index e) = k")
    case True
    have "logKey node (en_Index e') \<noteq> k" if "e' \<in> set es" for e'
      using that Cons.prems(2,3) True by (metis distinct.simps(2) image_eqI list.set_intros list.set_map list.simps(9) logKey_inj)
    then have "find (\<lambda>e. logKey node (en_Index e) = k) es = None"
      by (simp add: find_None_iff)
    with True IH show ?thesis
      by (simp add: wb)
  next
    case False
    with IH show ?thesis
      by (simp add: wb split: option.split)
  qed
qed simp

lemma find_contiguous:
  assumes "contiguous es f" "f + length es \<le> 2 ^ 64" "i < 2 ^ 64"
  shows "find (\<lambda>e. logKey node (en_Index e) = logKey node i) es = (if f \<le> i \<and> i < f + length es then Some (es ! (i - f)) else None)"
proof -
  have eq: "logKey node (en_Index (es ! j)) = logKey node i \<longleftrightarrow> f + j = i" if "j < length es" for j
    using that assms contiguous_nth [OF assms(1) that] by simp
  show ?thesis
  proof (cases "f \<le> i \<and> i < f + length es")
    case True
    then have "find (\<lambda>e. logKey node (en_Index e) = logKey node i) es = Some (es ! (i - f))"
      using eq unfolding find_Some_iff by (intro exI [of _ "i - f"]) auto
    with True show ?thesis
      by simp
  next
    case False
    then have "find (\<lambda>e. logKey node (en_Index e) = logKey node i) es = None"
      using eq unfolding find_None_iff in_set_conv_nth by auto
    with False show ?thesis
      by simp
  qed
qed

lemma find_mark: "find (\<lambda>e. False) es = None"
  by (induction es) simp_all

text \<open>What a successful append of consecutive entries that overlap or extend the log does to its parts.\<close>

lemma log_Append_state:
  assumes D: "btree_ok D" and C: "raft_codec_ok C" and io: "\<not> io_write_fails io" and inv: "log_inv D C s"
    and es: "contiguous es f" "es \<noteq> []" "f + length es < 2 ^ 64" and puts: "put_entries C (nodeID s) es = Some puts"
    and range: "firstIndex s \<le> f" "f \<le> Suc (lastIndex s)"
  obtains s' where "log_Append io D C es s = (s', Inr ())" "nodeID s' = nodeID s" "firstIndex s' = firstIndex s"
    "lastIndex s' = max (lastIndex s) (f + length es - 1)"
    "bt_Get D (rs_db s') (prefixedKey (nodeID s) firstIndexKey) = Some (PutUint64 (firstIndex s'))"
    "bt_Get D (rs_db s') (prefixedKey (nodeID s) lastIndexKey) = Some (PutUint64 (lastIndex s'))"
    "\<And>i. i < 2 ^ 64 \<Longrightarrow> bt_Get D (rs_db s') (logKey (nodeID s) i) =
       (if f \<le> i \<and> i < f + length es then ent_Marshal C (es ! (i - f))
        else if f \<le> i \<and> i \<le> lastIndex s then None else bt_Get D (rs_db s) (logKey (nodeID s) i))"
proof -
  let ?node = "nodeID s" and ?m = "bt_Get D (rs_db s)" and ?last = "f + length es - 1"
  note i = log_invD [OF inv]
  have len: "1 \<le> length es"
    using es(2) by (cases es) auto
  have first: "en_Index (hd es) = f" and last: "en_Index (last es) = ?last"
    using es(2) len contiguous_nth [OF es(1), of 0] contiguous_nth [OF es(1), of "length es - 1"]
    by (simp_all add: hd_conv_nth last_conv_nth)
  define dels where "dels = (if f \<le> lastIndex s then delete_entries ?node [f..<Suc (lastIndex s)] else [])"
  define marks where "marks = (if ?last > lastIndex s then [WPut (prefixedKey ?node lastIndexKey) (PutUint64 ?last)] else [])"
  define wb where "wb = dels @ puts @ marks"
  define s' where "s' = s\<lparr>lastIndex := max (lastIndex s) ?last, rs_db := fold (apply_op D) wb (rs_db s)\<rparr>"
  have ge: "firstIndex s \<le> ?last"
    using range(1) es(2) by (cases es) auto
  have "log_Append io D C es s = (s', Inr ())"
    using es(2) ge io puts
    by (auto simp: log_Append_def first last Let_def dels_def marks_def wb_def s'_def db_Write_def setLastIndexWithWB_def)
  moreover have fields: "nodeID s' = nodeID s" "firstIndex s' = firstIndex s" "lastIndex s' = max (lastIndex s) ?last"
    by (simp_all add: s'_def)
  moreover have get: "bt_Get D (rs_db s') = batch_map wb ?m"
    by (simp add: s'_def batch_effect [OF D])
  have marksm: "batch_map marks m k = (if ?last > lastIndex s \<and> k = prefixedKey ?node lastIndexKey then Some (PutUint64 ?last) else m k)" for m k
    by (simp add: marks_def)
  have delsm: "batch_map dels ?m k = (if k \<in> logKey ?node ` {f..lastIndex s} then None else ?m k)" for k
    by (auto simp: dels_def batch_map_delete simp del: upt_Suc)
  have bound: "en_Index e < 2 ^ 64" if "e \<in> set es" for e
    using that es(3) contiguous_nth [OF es(1)] by (force simp: in_set_conv_nth)
  have "distinct (map en_Index es)"
    using es(1) by (simp add: contiguous_def)
  note putsm = put_entries_effect [OF puts this bound]
  have log: "bt_Get D (rs_db s') (logKey ?node j) =
       (if f \<le> j \<and> j < f + length es then ent_Marshal C (es ! (j - f))
        else if f \<le> j \<and> j \<le> lastIndex s then None else ?m (logKey ?node j))" if "j < 2 ^ 64" for j
  proof -
    have "logKey ?node j \<in> logKey ?node ` {f..lastIndex s} \<longleftrightarrow> f \<le> j \<and> j \<le> lastIndex s"
      using that i(3) by (auto simp: image_iff)
    then show ?thesis
      using find_contiguous [OF es(1) _ that, of ?node] es(3) by (simp add: get wb_def marksm putsm delsm)
  qed
  moreover have "bt_Get D (rs_db s') (prefixedKey ?node firstIndexKey) = Some (PutUint64 (firstIndex s'))"
    using i(4) by (auto simp: get wb_def marksm putsm delsm find_mark fields)
  moreover have "bt_Get D (rs_db s') (prefixedKey ?node lastIndexKey) = Some (PutUint64 (lastIndex s'))"
    using i(5) by (auto simp: get wb_def marksm putsm delsm find_mark fields max_def)
  ultimately show thesis
    using that [of s'] by simp
qed

lemma put_entries_marshal:
  "put_entries C node es = Some wb \<Longrightarrow> e \<in> set es \<Longrightarrow> \<exists>data. ent_Marshal C e = Some data"
  by (induction es arbitrary: wb) (auto split: option.splits)

lemma entry_in_marshal: "raft_codec_ok C \<Longrightarrow> m (logKey node i) = ent_Marshal C e \<Longrightarrow> ent_Marshal C e = Some data \<Longrightarrow> entry_in C node m i = Some e"
  by (auto simp: entry_in_def raft_codec_ok_def)

lemma log_Append_correct:
  assumes D: "btree_ok D" and C: "raft_codec_ok C" and io: "\<not> io_write_fails io" and inv: "log_inv D C s"
    and es: "contiguous es f" "es \<noteq> []" "f + length es < 2 ^ 64" and puts: "put_entries C (nodeID s) es \<noteq> None"
    and range: "firstIndex s \<le> f" "f \<le> Suc (lastIndex s)" "lastIndex s < f + length es"
  obtains s' where "log_Append io D C es s = (s', Inr ())" "log_inv D C s'" "firstIndex s' = firstIndex s"
    "lastIndex s' = f + length es - 1" "log_entries D C s' = take (f - firstIndex s) (log_entries D C s) @ es"
proof -
  obtain wb where wb: "put_entries C (nodeID s) es = Some wb"
    using puts by blast
  from log_Append_state [OF D C io inv es wb range(1,2)]
  obtain s' where s': "log_Append io D C es s = (s', Inr ())" "nodeID s' = nodeID s" "firstIndex s' = firstIndex s"
    "lastIndex s' = max (lastIndex s) (f + length es - 1)"
    "bt_Get D (rs_db s') (prefixedKey (nodeID s) firstIndexKey) = Some (PutUint64 (firstIndex s'))"
    "bt_Get D (rs_db s') (prefixedKey (nodeID s) lastIndexKey) = Some (PutUint64 (lastIndex s'))"
    and log: "\<And>i. i < 2 ^ 64 \<Longrightarrow> bt_Get D (rs_db s') (logKey (nodeID s) i) =
       (if f \<le> i \<and> i < f + length es then ent_Marshal C (es ! (i - f))
        else if f \<le> i \<and> i \<le> lastIndex s then None else bt_Get D (rs_db s) (logKey (nodeID s) i))"
    by blast
  have last': "lastIndex s' = f + length es - 1"
    using s'(4) range(3) by simp
  have new: "entry_in C (nodeID s) (bt_Get D (rs_db s')) i = Some (es ! (i - f))" if i: "f \<le> i" "i < f + length es" for i
  proof -
    have "es ! (i - f) \<in> set es"
      using i by simp
    then obtain data where "ent_Marshal C (es ! (i - f)) = Some data"
      using put_entries_marshal [OF wb] by blast
    moreover have "bt_Get D (rs_db s') (logKey (nodeID s) i) = ent_Marshal C (es ! (i - f))"
      using log [of i] i es(3) by simp
    ultimately show ?thesis
      by (intro entry_in_marshal [OF C])
  qed
  have old: "entry_in C (nodeID s) (bt_Get D (rs_db s')) i = entry_in C (nodeID s) (bt_Get D (rs_db s)) i" if "i < f" for i
    using log [of i] that es(3) by (simp add: entry_in_def)
  have "\<exists>e. entry_in C (nodeID s') (bt_Get D (rs_db s')) i = Some e \<and> en_Index e = i" if "firstIndex s' \<le> i" "i \<le> lastIndex s'" for i
  proof (cases "i < f")
    case True
    with that log_invD(6) [OF inv, of i] range(2) show ?thesis
      by (simp add: s'(2,3) old)
  next
    case False
    with that es(2) have i: "f \<le> i" "i < f + length es"
      by (cases es; simp add: last')+
    then show ?thesis
      using new [OF i] contiguous_nth [OF es(1), of "i - f"] by (simp add: s'(2))
  qed
  then have "log_inv D C s'"
    using log_invD(1) [OF inv] range(1) es(3) s' last' unfolding log_inv_def by auto
  moreover have "log_entries D C s' = take (f - firstIndex s) (log_entries D C s) @ es"
  proof (rule nth_equalityI)
    show len: "length (log_entries D C s') = length (take (f - firstIndex s) (log_entries D C s) @ es)"
      using range es(2) by (cases es) (auto simp: s'(3) last')
    fix j assume "j < length (log_entries D C s')"
    then have j: "j < Suc (f + length es - 1) - firstIndex s"
      by (simp add: s'(3) last')
    have "log_entries D C s' ! j = the (entry_in C (nodeID s) (bt_Get D (rs_db s')) (firstIndex s + j))"
      using log_entries_nth [of s' "firstIndex s + j" D C] j by (simp add: s'(2,3) last')
    moreover have "length (take (f - firstIndex s) (log_entries D C s)) = f - firstIndex s"
      using range by simp
    ultimately show "log_entries D C s' ! j = (take (f - firstIndex s) (log_entries D C s) @ es) ! j"
      using j range new [of "firstIndex s + j"] old [of "firstIndex s + j"] log_entries_nth [of s "firstIndex s + j" D C]
      by (cases "j < f - firstIndex s") (auto simp: nth_append add.commute)
  qed
  ultimately show thesis
    using that [of s'] s' last' by simp
qed

section \<open>Compaction and snapshots\<close>

text \<open>Dropping a front part of the log and moving the first mark behind it.\<close>

lemma log_drop:
  assumes D: "btree_ok D" and inv: "log_inv D C s" and f: "firstIndex s \<le> f" "f \<le> Suc l" "lastIndex s \<le> l" "l < 2 ^ 64 - 1"
    and l: "l = lastIndex s \<or> f = Suc l"
    and m: "bt_Get D (rs_db s') (prefixedKey (nodeID s) firstIndexKey) = Some (PutUint64 f)"
      "bt_Get D (rs_db s') (prefixedKey (nodeID s) lastIndexKey) = Some (PutUint64 l)"
      "\<And>i. f \<le> i \<Longrightarrow> i \<le> lastIndex s \<Longrightarrow> bt_Get D (rs_db s') (logKey (nodeID s) i) = bt_Get D (rs_db s) (logKey (nodeID s) i)"
    and s': "nodeID s' = nodeID s" "firstIndex s' = f" "lastIndex s' = l"
  shows "log_inv D C s'" "log_entries D C s' = drop (f - firstIndex s) (log_entries D C s)"
proof -
  have same: "entry_in C (nodeID s) (bt_Get D (rs_db s')) i = entry_in C (nodeID s) (bt_Get D (rs_db s)) i" if "f \<le> i" "i \<le> lastIndex s" for i
    using m(3) [OF that] by (simp add: entry_in_def)
  have ent: "\<exists>e. entry_in C (nodeID s') (bt_Get D (rs_db s')) i = Some e \<and> en_Index e = i" if "f \<le> i" "i \<le> l" for i
  proof -
    have i: "firstIndex s \<le> i" "i \<le> lastIndex s"
      using that l f by auto
    then show ?thesis
      using log_invD(6) [OF inv i] same [OF that(1) i(2)] by (simp add: s'(1))
  qed
  show "log_inv D C s'"
    using ent log_invD(1) [OF inv] f m(1,2) by (auto simp: log_inv_def s')
  show "log_entries D C s' = drop (f - firstIndex s) (log_entries D C s)"
  proof (rule nth_equalityI)
    show "length (log_entries D C s') = length (drop (f - firstIndex s) (log_entries D C s))"
      using f l by (auto simp: s')
    fix j assume "j < length (log_entries D C s')"
    then have j: "f + j \<le> lastIndex s" "l = lastIndex s"
      using l by (auto simp: s')
    then have "log_entries D C s' ! j = the (entry_in C (nodeID s) (bt_Get D (rs_db s)) (f + j))"
      using log_entries_nth [of s' "f + j" D C] same [of "f + j"] by (simp add: s')
    also have "\<dots> = log_entries D C s ! (f + j - firstIndex s)"
      using log_entries_nth [of s "f + j" D C] f j by simp
    finally show "log_entries D C s' ! j = drop (f - firstIndex s) (log_entries D C s) ! j"
      using f j by (simp add: nth_drop)
  qed
qed

lemma log_Compact_correct:
  assumes D: "btree_ok D" and inv: "log_inv D C s" and i: "firstIndex s < i" "i \<le> lastIndex s" and io: "\<not> io_write_fails io"
  obtains s' where "log_Compact io D i s = (s', Inr ())" "log_inv D C s'" "firstIndex s' = i" "lastIndex s' = lastIndex s"
    "log_entries D C s' = drop (i - firstIndex s) (log_entries D C s)"
proof -
  define wb where "wb = setFirstIndexWithWB (nodeID s) i (delete_entries (nodeID s) [firstIndex s..<i])"
  define s' where "s' = s\<lparr>rs_db := fold (apply_op D) wb (rs_db s), firstIndex := i\<rparr>"
  have res: "log_Compact io D i s = (s', Inr ())"
    using i io by (simp add: log_Compact_def db_Write_def s'_def wb_def Let_def)
  have eff: "bt_Get D (rs_db s') = batch_map wb (bt_Get D (rs_db s))"
    by (simp add: s'_def batch_effect [OF D])
  have f: "nodeID s' = nodeID s" "firstIndex s' = i" "lastIndex s' = lastIndex s"
    by (simp_all add: s'_def)
  have get: "bt_Get D (rs_db s') k = (if k = prefixedKey (nodeID s) firstIndexKey then Some (PutUint64 i)
      else if k \<in> logKey (nodeID s) ` {firstIndex s..<i} then None else bt_Get D (rs_db s) k)" for k
    by (auto simp: eff wb_def setFirstIndexWithWB_def batch_map_delete)
  have keep: "bt_Get D (rs_db s') (logKey (nodeID s) j) = bt_Get D (rs_db s) (logKey (nodeID s) j)" if "i \<le> j" "j \<le> lastIndex s" for j
    using that i log_invD(3) [OF inv] by (auto simp: get image_iff)
  have "bt_Get D (rs_db s') (prefixedKey (nodeID s) lastIndexKey) = Some (PutUint64 (lastIndex s))"
    using log_invD(5) [OF inv] by (auto simp: get image_iff)
  then have "log_inv D C s'" "log_entries D C s' = drop (i - firstIndex s) (log_entries D C s)"
    using i log_invD(3) [OF inv] keep
    by (intro log_drop [OF D inv, where l = "lastIndex s" and f = i]; simp add: f get)+
  then show thesis
    using that res f by blast
qed

lemma log_ApplySnapshot_correct:
  assumes D: "btree_ok D" and C: "raft_codec_ok C" and inv: "log_inv D C s" and io: "\<not> io_write_fails io"
    and snap: "firstIndex s \<le> sn_Index snap" "sn_Index snap < 2 ^ 64 - 1" "snap_Marshal C snap = Some d1" "cs_Marshal C (sn_ConfState snap) = Some d2"
  obtains s' where "log_ApplySnapshot io D C snap s = (s', Inr ())" "log_inv D C s'" "firstIndex s' = Suc (sn_Index snap)"
    "lastIndex s' = max (lastIndex s) (sn_Index snap)"
    "log_entries D C s' = drop (Suc (sn_Index snap) - firstIndex s) (log_entries D C s)"
    "nodeID s' = nodeID s" "bt_Get D (rs_db s') (prefixedKey (nodeID s) snapshotKey) = Some d1"
    "bt_Get D (rs_db s') (prefixedKey (nodeID s) confStateKey) = Some d2"
proof -
  let ?n = "nodeID s" and ?i = "sn_Index snap"
  let ?last = "max (lastIndex s) ?i"
  have ne: "\<not> IsEmptySnap C snap" "uint64_succ ?i = Suc ?i" "\<not> ?i \<le> uint64_pred (firstIndex s)"
    using C snap(1,2) log_invD(1) [OF inv] by (auto simp: raft_codec_ok_def uint64_succ_def uint64_pred_def)
  define marks where "marks = (if ?i > lastIndex s then [WPut (prefixedKey ?n lastIndexKey) (PutUint64 ?i)] else [])"
  define wb where "wb = (WPut (prefixedKey ?n snapshotKey) d1 # delete_entries ?n [firstIndex s..<Suc (min ?i (lastIndex s))])
      @ [WPut (prefixedKey ?n firstIndexKey) (PutUint64 (Suc ?i))] @ marks @ [WPut (prefixedKey ?n confStateKey) d2]"
  define s' where "s' = s\<lparr>lastIndex := ?last, rs_db := fold (apply_op D) wb (rs_db s), firstIndex := Suc ?i\<rparr>"
  have res: "log_ApplySnapshot io D C snap s = (s', Inr ())"
    using ne snap(3,4) io
    by (auto simp: log_ApplySnapshot_def Let_def db_Write_def s'_def wb_def marks_def setFirstIndexWithWB_def setLastIndexWithWB_def)
  have f: "nodeID s' = ?n" "firstIndex s' = Suc ?i" "lastIndex s' = ?last"
    by (simp_all add: s'_def)
  have eff: "bt_Get D (rs_db s') = batch_map wb (bt_Get D (rs_db s))"
    by (simp add: s'_def batch_effect [OF D])
  have marksm: "batch_map marks m k = (if ?i > lastIndex s \<and> k = prefixedKey ?n lastIndexKey then Some (PutUint64 ?i) else m k)" for m k
    by (simp add: marks_def)
  have get: "bt_Get D (rs_db s') k =
      (if k = prefixedKey ?n confStateKey then Some d2
       else if ?i > lastIndex s \<and> k = prefixedKey ?n lastIndexKey then Some (PutUint64 ?i)
       else if k = prefixedKey ?n firstIndexKey then Some (PutUint64 (Suc ?i))
       else if k \<in> logKey ?n ` {firstIndex s..min ?i (lastIndex s)} then None
       else if k = prefixedKey ?n snapshotKey then Some d1 else bt_Get D (rs_db s) k)" for k
    by (auto simp: eff wb_def marksm batch_map_delete atLeastLessThanSuc_atLeastAtMost simp del: upt_Suc)
  have keep: "bt_Get D (rs_db s') (logKey ?n j) = bt_Get D (rs_db s) (logKey ?n j)" if "Suc ?i \<le> j" "j \<le> lastIndex s" for j
    using that log_invD(3) [OF inv] snap(2) by (auto simp: get image_iff)
  have "bt_Get D (rs_db s') (prefixedKey ?n lastIndexKey) = Some (PutUint64 ?last)"
    using log_invD(5) [OF inv] by (auto simp: get image_iff max_def)
  moreover have "bt_Get D (rs_db s') (prefixedKey ?n firstIndexKey) = Some (PutUint64 (Suc ?i))"
    by (simp add: get)
  ultimately have "log_inv D C s'" "log_entries D C s' = drop (Suc ?i - firstIndex s) (log_entries D C s)"
    using snap(1,2) log_invD(3) [OF inv] keep
    by (intro log_drop [OF D inv, where l = ?last and f = "Suc ?i"]; auto simp: f max_def)+
  moreover have "bt_Get D (rs_db s') (prefixedKey ?n snapshotKey) = Some d1" "bt_Get D (rs_db s') (prefixedKey ?n confStateKey) = Some d2"
    by (auto simp: get image_iff)
  ultimately show thesis
    using that res f by blast
qed

lemma put_message_inv:
  assumes D: "btree_ok D" and inv: "log_inv D C s" and key: "key \<in> {hardStateKey, confStateKey, snapshotKey}"
    and res: "put_message io D marshal key msg s = (s', out)"
  shows "log_inv D C s'" "log_entries D C s' = log_entries D C s" "firstIndex s' = firstIndex s" "lastIndex s' = lastIndex s" "nodeID s' = nodeID s"
proof -
  have "s' = s \<or> (\<exists>data. s' = s\<lparr>rs_db := bt_ReplaceOrInsert D (prefixedKey (nodeID s) key) data (rs_db s)\<rparr>)"
    using res by (auto simp: put_message_def db_Put_def db_Write_def split: option.splits if_splits)
  moreover have "key \<noteq> firstIndexKey" "key \<noteq> lastIndexKey" "logKey (nodeID s) i \<noteq> prefixedKey (nodeID s) key" for i
    using key by auto
  ultimately have s': "nodeID s' = nodeID s" "firstIndex s' = firstIndex s" "lastIndex s' = lastIndex s"
    "bt_Get D (rs_db s') (prefixedKey (nodeID s) firstIndexKey) = bt_Get D (rs_db s) (prefixedKey (nodeID s) firstIndexKey)"
    "bt_Get D (rs_db s') (prefixedKey (nodeID s) lastIndexKey) = bt_Get D (rs_db s) (prefixedKey (nodeID s) lastIndexKey)"
    "\<And>i. bt_Get D (rs_db s') (logKey (nodeID s) i) = bt_Get D (rs_db s) (logKey (nodeID s) i)"
    by (auto simp: btree_simps(2) [OF D])
  then have ent: "entry_in C (nodeID s) (bt_Get D (rs_db s')) i = entry_in C (nodeID s) (bt_Get D (rs_db s)) i" for i
    by (simp add: entry_in_def)
  show "log_inv D C s'" "log_entries D C s' = log_entries D C s"
    using inv ent s' by (simp_all add: log_inv_def log_entries_def)
  show "firstIndex s' = firstIndex s" "lastIndex s' = lastIndex s" "nodeID s' = nodeID s"
    by (rule s')+
qed

section \<open>Opening\<close>

lemma read_mark_stored:
  "\<not> io_get_fails io key \<Longrightarrow> bt_Get D db key = Some (PutUint64 n) \<Longrightarrow> n < 2 ^ 64 \<Longrightarrow> read_mark io D key db = Inr n"
  using Uint64_PutUint64 [of n "[]"] by (auto simp: read_mark_def db_Get_def binaryReadUint64BigEndian_def simp flip: length_0_conv)

lemma reopen_same:
  assumes inv: "log_inv D C s" and io: "\<not> io_get_fails io (prefixedKey (nodeID s) firstIndexKey)" "\<not> io_get_fails io (prefixedKey (nodeID s) lastIndexKey)"
  shows "NewRocksDBStorage io D (nodeID s) (rs_db s) = (rs_db s, Inr s)"
proof -
  have "getFirstIndexUnsafe io D (nodeID s) (rs_db s) = Inr (firstIndex s)" "getLastIndexUnsafe io D (nodeID s) (rs_db s) = Inr (lastIndex s)"
    using log_invD(1-5) [OF inv] io unfolding getFirstIndexUnsafe_def getLastIndexUnsafe_def by (intro read_mark_stored; simp)+
  then show ?thesis
    by (simp add: NewRocksDBStorage_def)
qed

lemma open_fresh:
  assumes D: "btree_ok D" and io: "io_ok io"
    and none: "bt_Get D db (prefixedKey node firstIndexKey) = None" "bt_Get D db (prefixedKey node lastIndexKey) = None"
  obtains db' s where "NewRocksDBStorage io D node db = (db', Inr s)" "log_inv D C s" "log_entries D C s = []" "firstIndex s = 1" "lastIndex s = 0" "nodeID s = node"
proof -
  let ?db1 = "bt_ReplaceOrInsert D (prefixedKey node firstIndexKey) (PutUint64 1) db"
  let ?db2 = "bt_ReplaceOrInsert D (prefixedKey node lastIndexKey) (PutUint64 0) ?db1"
  let ?s = "\<lparr>rs_db = ?db2, nodeID = node, firstIndex = 1, lastIndex = 0\<rparr>"
  have first: "getFirstIndexUnsafe io D node db = Inl LogIndexMissing"
    using none(1) io by (simp add: getFirstIndexUnsafe_def read_mark_def db_Get_def io_ok_def)
  have "bt_Get D ?db1 (prefixedKey node lastIndexKey) = None"
    using none(2) by (simp add: btree_simps [OF D])
  then have last: "getLastIndexUnsafe io D node ?db1 = Inl LogIndexMissing"
    using io by (simp add: getLastIndexUnsafe_def read_mark_def db_Get_def io_ok_def)
  have "NewRocksDBStorage io D node db = (?db2, Inr ?s)"
    using io last by (simp add: NewRocksDBStorage_def first setFirstIndexUnsafe_def setLastIndexUnsafe_def db_Put_def db_Write_def io_ok_def uint64_pred_def)
  moreover have "log_inv D C ?s" "log_entries D C ?s = []"
    by (simp_all add: log_inv_def log_entries_def btree_simps [OF D])
  ultimately show thesis
    using that by fastforce
qed

end
