(* ===== verification/Raft_Log_Properties.thy ===== *)
theory Raft_Log_Properties
  imports Raft_Log
begin

text \<open>
  The Raft log as a transition system over the calls Raft makes, with database failures and restarts, and
  what holds of it: recovery, refinement of a list of entries, reads, and the append that leaves a stale
  last index.
\<close>

section \<open>Reachable logs\<close>

text \<open>
  The calls Raft makes, each with its own failures \<open>io\<close>: appends of consecutive entries that leave no gap
  and do not shorten the log, compaction, snapshots, state updates, and reopening after a restart.
\<close>

inductive log_step :: "'d rocks \<Rightarrow> ('x, 'c, 'h) raft_codec \<Rightarrow> 'd RocksDBStorage \<Rightarrow> 'd RocksDBStorage \<Rightarrow> bool" for D C where
  append: "log_Append io D C es s = (s', Inr ()) \<Longrightarrow> contiguous es f \<Longrightarrow> es \<noteq> [] \<Longrightarrow> f + length es < 2 ^ 64 \<Longrightarrow>
     firstIndex s \<le> f \<Longrightarrow> f \<le> Suc (lastIndex s) \<Longrightarrow> lastIndex s < f + length es \<Longrightarrow> log_step D C s s'"
| compact: "log_Compact io D i s = (s', out) \<Longrightarrow> log_step D C s s'"
| snapshot: "log_ApplySnapshot io D C snap s = (s', Inr ()) \<Longrightarrow> sn_Index snap < 2 ^ 64 - 1 \<Longrightarrow> log_step D C s s'"
| create: "CreateSnapshot io D C i cs data s = (s', out) \<Longrightarrow> log_step D C s s'"
| hard_state: "SetHardState io D C hs s = (s', out') \<Longrightarrow> log_step D C s s'"
| conf_state: "SetConfState io D C cs s = (s', out') \<Longrightarrow> log_step D C s s'"
| reopen: "NewRocksDBStorage io D (nodeID s) (rs_db s) = (db, Inr s') \<Longrightarrow>
     \<not> io_get_fails io (prefixedKey (nodeID s) firstIndexKey) \<Longrightarrow> \<not> io_get_fails io (prefixedKey (nodeID s) lastIndexKey) \<Longrightarrow>
     log_step D C s s'"

definition log_start :: "'d rocks \<Rightarrow> 'd RocksDBStorage \<Rightarrow> bool" where
  "log_start D s \<longleftrightarrow> (\<exists>io node db db'. io_ok io \<and> NewRocksDBStorage io D node db = (db', Inr s)
     \<and> bt_Get D db (prefixedKey node firstIndexKey) = None \<and> bt_Get D db (prefixedKey node lastIndexKey) = None)"

lemma log_start_inv:
  assumes "btree_ok D" "log_start D s"
  shows "log_inv D C s"
proof -
  obtain io node db db' where "io_ok io" "NewRocksDBStorage io D node db = (db', Inr s)"
    "bt_Get D db (prefixedKey node firstIndexKey) = None" "bt_Get D db (prefixedKey node lastIndexKey) = None"
    using assms(2) by (auto simp: log_start_def)
  then show ?thesis
    using open_fresh [OF assms(1), of io db node C] by (metis Inr_inject Pair_inject)
qed

lemma CreateSnapshot_inv:
  assumes "btree_ok D" "log_inv D C s" "CreateSnapshot io D C i cs data s = (s', out)"
  shows "log_inv D C s'"
proof (cases "s' = s")
  case False
  then obtain snap out' where "put_message io D (snap_Marshal C) snapshotKey snap s = (s', out')"
    using assms(3) by (auto simp: CreateSnapshot_def Let_def split: if_splits sum.splits prod.splits)
  then show ?thesis
    by (rule put_message_inv(1) [OF assms(1,2), rotated]) simp
qed (use assms(2) in simp)

lemma log_step_inv:
  assumes D: "btree_ok D" and C: "raft_codec_ok C" and "log_step D C s s'" and inv: "log_inv D C s"
  shows "log_inv D C s'"
  using assms(3)
proof cases
  case (append io es f)
  have "put_entries C (nodeID s) es \<noteq> None"
    using append(1,3) by (cases "put_entries C (nodeID s) es") (simp_all add: log_Append_def Let_def)
  moreover have "\<not> io_write_fails io"
    using append(1,3) by (cases "put_entries C (nodeID s) es") (auto simp: log_Append_def Let_def db_Write_def split: if_splits)
  ultimately show ?thesis
    using log_Append_correct [OF D C _ inv append(2-4) _ append(5-7), of io] append(1) by (metis Pair_inject)
next
  case (compact io i out)
  show ?thesis
  proof (cases "firstIndex s < i \<and> i \<le> lastIndex s \<and> \<not> io_write_fails io")
    case True
    then show ?thesis
      using log_Compact_correct [OF D inv, of i io] compact by (metis Pair_inject)
  next
    case False
    then have "s' = s"
      using compact by (auto simp: log_Compact_def db_Write_def Let_def split: if_splits)
    with inv show ?thesis
      by simp
  qed
next
  case (snapshot io snap)
  show ?thesis
  proof (cases "IsEmptySnap C snap")
    case True
    with snapshot inv show ?thesis
      by (simp add: log_ApplySnapshot_def)
  next
    case False
    have "\<not> sn_Index snap \<le> uint64_pred (firstIndex s)"
      using False snapshot(1) by (auto simp: log_ApplySnapshot_def split: if_splits)
    then have idx: "firstIndex s \<le> sn_Index snap"
      using pred_succ(1) [OF inv] log_invD(1) [OF inv] by simp
    obtain d1 d2 where d: "snap_Marshal C snap = Some d1" "cs_Marshal C (sn_ConfState snap) = Some d2"
      using False snapshot(1) by (auto simp: log_ApplySnapshot_def Let_def split: if_splits option.splits prod.splits)
    have "\<not> io_write_fails io"
      using False snapshot(1) d by (auto simp: log_ApplySnapshot_def Let_def db_Write_def split: if_splits option.splits prod.splits)
    then show ?thesis
      using log_ApplySnapshot_correct [OF D C inv _ idx snapshot(2) d, of io] snapshot(1) by (metis Pair_inject)
  qed
next
  case (create io i cs data out)
  then show ?thesis
    by (rule CreateSnapshot_inv [OF D inv])
next
  case (hard_state io hs out')
  then show ?thesis
    unfolding SetHardState_def by (intro put_message_inv(1) [OF D inv, of hardStateKey]) simp_all
next
  case (conf_state io cs out')
  then show ?thesis
    unfolding SetConfState_def by (intro put_message_inv(1) [OF D inv, of confStateKey]) simp_all
next
  case (reopen io db)
  then show ?thesis
    using reopen_same [OF inv reopen(2,3)] inv by simp
qed

lemma log_reach_inv:
  assumes "btree_ok D" "raft_codec_ok C" "log_start D s0" "(log_step D C)\<^sup>*\<^sup>* s0 s"
  shows "log_inv D C s"
  using assms(4) by (induction rule: rtranclp_induct) (auto intro: log_start_inv log_step_inv assms(1-3))

section \<open>A sample log\<close>

definition sample_codec :: "(string, string, string) raft_codec" where
  "sample_codec = \<lparr>
     ent_Marshal = (\<lambda>e. if en_Term e < 2 ^ 64 \<and> en_Index e < 2 ^ 64 then Some (PutUint64 (en_Term e) @ PutUint64 (en_Index e) @ en_Rest e) else None),
     ent_Unmarshal = (\<lambda>d. if length d < 16 then None else Some \<lparr>en_Term = Uint64 (take 8 d), en_Index = Uint64 (take 8 (drop 8 d)), en_Rest = drop 16 d\<rparr>),
     ent_Size = (\<lambda>e. 16 + length (en_Rest e)),
     snap_Marshal = (\<lambda>sn. Some (PutUint64 (sn_Index sn))), snap_Unmarshal = (\<lambda>_. None), IsEmptySnap = (\<lambda>sn. sn_Index sn = 0),
     hs_Marshal = Some, hs_Unmarshal = Some, hs_zero = [], cs_Marshal = Some, cs_Unmarshal = Some, cs_zero = []\<rparr>"

lemma sample_codec_ok: "raft_codec_ok sample_codec"
proof -
  have "PutUint64 n \<noteq> []" for n
    by (metis length_PutUint(1) list.size(3) zero_neq_numeral)
  moreover have "Uint64 (PutUint64 n) = n" if "n < 2 ^ 64" for n
    using Uint64_PutUint64 [of n "[]"] that by simp
  ultimately show ?thesis
    by (auto simp: raft_codec_ok_def sample_codec_def)
qed

definition good_io :: io where
  "good_io = \<lparr>io_get_fails = (\<lambda>_. False), io_write_fails = False\<rparr>"

lemma good_io_ok [simp]: "io_ok good_io" "\<not> io_write_fails good_io" "\<not> io_get_fails good_io k"
  by (simp_all add: io_ok_def good_io_def)

definition sample_entries :: "nat \<Rightarrow> nat \<Rightarrow> nat \<Rightarrow> string raft_entry list" where
  "sample_entries t f n = map (\<lambda>i. \<lparr>en_Term = t, en_Index = i, en_Rest = ''x''\<rparr>) [f..<f + n]"

lemma sample_entries_ok:
  "contiguous (sample_entries t f n) f" "length (sample_entries t f n) = n"
  "t < 2 ^ 64 \<Longrightarrow> f + n \<le> 2 ^ 64 \<Longrightarrow> put_entries sample_codec node (sample_entries t f n) \<noteq> None"
proof -
  show "contiguous (sample_entries t f n) f" "length (sample_entries t f n) = n"
    by (simp_all add: contiguous_def sample_entries_def comp_def)
  have "put_entries sample_codec node es \<noteq> None" if "list_all (\<lambda>e. en_Term e < 2 ^ 64 \<and> en_Index e < 2 ^ 64) es" for es
    using that by (induction es) (auto simp: sample_codec_def)
  then show "put_entries sample_codec node (sample_entries t f n) \<noteq> None" if "t < 2 ^ 64" "f + n \<le> 2 ^ 64"
    using that by (simp add: sample_entries_def list_all_iff)
qed

definition sample_log0 :: "(string, string) rbt RocksDBStorage" where
  "sample_log0 = (case NewRocksDBStorage good_io rb_tree ''n'' RBT.empty of (_, Inr s) \<Rightarrow> s)"

definition sample_log :: "(string, string) rbt RocksDBStorage" where
  "sample_log = fst (log_Append good_io rb_tree sample_codec (sample_entries 1 1 5) sample_log0)"

lemma sample_log0_ok:
  "log_start rb_tree sample_log0" "log_inv rb_tree sample_codec sample_log0" "firstIndex sample_log0 = 1" "lastIndex sample_log0 = 0" "nodeID sample_log0 = ''n''"
proof -
  have none: "bt_Get rb_tree (RBT.empty :: (string, string) rbt) k = None" for k
    by (simp add: rb_tree_def)
  obtain db' s where s: "NewRocksDBStorage good_io rb_tree ''n'' (RBT.empty :: (string, string) rbt) = (db', Inr s)"
    "log_inv rb_tree sample_codec s" "firstIndex s = 1" "lastIndex s = 0" "nodeID s = ''n''"
    using open_fresh [OF rb_tree_ok good_io_ok(1) none none, of "''n''" sample_codec] by metis
  then have "sample_log0 = s"
    by (simp add: sample_log0_def)
  with s none show "log_start rb_tree sample_log0" "log_inv rb_tree sample_codec sample_log0" "firstIndex sample_log0 = 1" "lastIndex sample_log0 = 0" "nodeID sample_log0 = ''n''"
    by (auto simp: log_start_def intro: good_io_ok(1))
qed

lemma sample_log_ok:
  "log_step rb_tree sample_codec sample_log0 sample_log" "log_inv rb_tree sample_codec sample_log" "firstIndex sample_log = 1" "lastIndex sample_log = 5"
  "log_entries rb_tree sample_codec sample_log = sample_entries 1 1 5"
proof -
  let ?es = "sample_entries 1 1 5"
  note ok = sample_log0_ok sample_entries_ok(1,2) [of 1 1 5] sample_entries_ok(3) [of 1 1 5 "''n''"]
  have ne: "?es \<noteq> []"
    using ok(7) by (metis length_0_conv zero_neq_numeral)
  obtain s' where s': "log_Append good_io rb_tree sample_codec ?es sample_log0 = (s', Inr ())" "log_inv rb_tree sample_codec s'"
    "firstIndex s' = 1" "lastIndex s' = 5" "log_entries rb_tree sample_codec s' = ?es"
    by (rule log_Append_correct [OF rb_tree_ok sample_codec_ok good_io_ok(2) ok(2,6) ne]) (use ok in auto)
  then have eq: "sample_log = s'"
    by (simp add: sample_log_def)
  have "log_step rb_tree sample_codec sample_log0 s'"
    using s'(1) ok(6) ne by (rule log_step.append) (use ok in simp_all)
  with s' eq show "log_step rb_tree sample_codec sample_log0 sample_log" "log_inv rb_tree sample_codec sample_log" "firstIndex sample_log = 1" "lastIndex sample_log = 5"
    "log_entries rb_tree sample_codec sample_log = ?es"
    by simp_all
qed

section \<open>Properties\<close>





text \<open>
  Reading the log.  A range inside the log returns a prefix of its entries, never empty for a non-empty
  range; two or more entries stay within the size limit, and the prefix ends early only because one more
  entry would exceed it.  Every index in the log answers with the term of its entry; outside the log the
  answers are the two documented errors.
\<close>

theorem raft_log_reads:
  assumes D: "btree_ok D" and io: "io_ok io" and C: "raft_codec_ok C" and inv: "log_inv D C s"
    and range: "firstIndex s \<le> lo" "lo \<le> hi" "hi \<le> Suc (lastIndex s)"
  shows "(\<exists>n \<le> hi - lo. let es = drop (lo - firstIndex s) (log_entries D C s) in
       Entries io D C lo hi maxSize s = Inr (take n es) \<and> (lo < hi \<longrightarrow> 0 < n)
     \<and> (1 < n \<longrightarrow> total_size C (take n es) \<le> maxSize) \<and> (n < hi - lo \<longrightarrow> maxSize < total_size C (take (Suc n) es)))
   \<and> (lo < hi \<longrightarrow> Term io D C lo s = Inr (en_Term (log_entries D C s ! (lo - firstIndex s))))
   \<and> (j < firstIndex s \<longrightarrow> Entries io D C j hi maxSize s = Inl LogCompacted)
   \<and> (lastIndex s < j \<longrightarrow> Term io D C j s = Inl LogUnavailable)"
proof (intro conjI impI)
  show "\<exists>n \<le> hi - lo. let es = drop (lo - firstIndex s) (log_entries D C s) in
       Entries io D C lo hi maxSize s = Inr (take n es) \<and> (lo < hi \<longrightarrow> 0 < n)
     \<and> (1 < n \<longrightarrow> total_size C (take n es) \<le> maxSize) \<and> (n < hi - lo \<longrightarrow> maxSize < total_size C (take (Suc n) es))"
    using Entries_prefix [OF D io C inv range, of maxSize] by (simp add: Let_def)
  note p = pred_succ [OF inv] and i = log_invD [OF inv]
  show "Term io D C lo s = Inr (en_Term (log_entries D C s ! (lo - firstIndex s)))" if "lo < hi"
  proof -
    have lo: "lo \<le> lastIndex s"
      using that range(3) by simp
    obtain e where "entry_in C (nodeID s) (bt_Get D (rs_db s)) lo = Some e"
      using i(6) [OF range(1) lo] by blast
    then show ?thesis
      using log_entries_nth [OF range(1) lo, of D C] load_entry_some [OF io, of C s D lo e LogUnavailable] lo range(1) i(1)
      by (auto simp: Term_def p)
  qed
  show "Entries io D C j hi maxSize s = Inl LogCompacted" if "j < firstIndex s"
    using that range by (simp add: Entries_def)
  show "Term io D C j s = Inl LogUnavailable" if "lastIndex s < j"
    using that i(2) by (simp add: Term_def p)
qed

theorem raft_log_reads_witness:
  "Term good_io rb_tree sample_codec 2 sample_log = Inr 1 \<and> Term good_io rb_tree sample_codec 6 sample_log = Inl LogUnavailable"
  using raft_log_reads [OF rb_tree_ok good_io_ok(1) sample_codec_ok sample_log_ok(2), of 2 5 100 6]
  by (simp add: sample_log_ok sample_entries_def upt_rec)

text \<open>
  An append that overwrites the tail of the log with fewer entries loses the end of the log without
  saying so.  The call succeeds and deletes the old tail, but the last index stays where it was: it now
  points at an entry that is gone, and asking for its term fails.
\<close>

theorem raft_append_keeps_stale_last_index:
  assumes D: "btree_ok D" and C: "raft_codec_ok C" and inv: "log_inv D C s" and io: "io_ok io"
    and es: "contiguous es f" "es \<noteq> []" "put_entries C (nodeID s) es \<noteq> None" "firstIndex s \<le> f" "f + length es \<le> lastIndex s"
  shows "case log_Append io D C es s of (s', out) \<Rightarrow>
     out = Inr () \<and> log_LastIndex s' = lastIndex s \<and> Term io D C (lastIndex s) s' = Inl LogUnavailable \<and> \<not> log_inv D C s'"
proof -
  have w: "\<not> io_write_fails io" and b: "f + length es < 2 ^ 64" and f: "f \<le> Suc (lastIndex s)"
    using io es(5) log_invD(3) [OF inv] by (simp_all add: io_ok_def)
  obtain wb where wb: "put_entries C (nodeID s) es = Some wb"
    using es(3) by blast
  obtain s' where s': "log_Append io D C es s = (s', Inr ())" "nodeID s' = nodeID s" "firstIndex s' = firstIndex s"
    "lastIndex s' = max (lastIndex s) (f + length es - 1)"
    and log: "\<And>i. i < 2 ^ 64 \<Longrightarrow> bt_Get D (rs_db s') (logKey (nodeID s) i) =
       (if f \<le> i \<and> i < f + length es then ent_Marshal C (es ! (i - f))
        else if f \<le> i \<and> i \<le> lastIndex s then None else bt_Get D (rs_db s) (logKey (nodeID s) i))"
    using log_Append_state [OF D C w inv es(1,2) b wb es(4) f] by metis
  have last: "lastIndex s' = lastIndex s"
    using s'(4) es(5) by simp
  have gone: "bt_Get D (rs_db s') (logKey (nodeID s) (lastIndex s)) = None"
    using log [of "lastIndex s"] es(5) log_invD(3) [OF inv] by simp
  then have "entry_in C (nodeID s') (bt_Get D (rs_db s')) (lastIndex s) = None"
    by (simp add: entry_in_def s'(2))
  then have "\<not> log_inv D C s'"
    using es(4,5) last s'(3) unfolding log_inv_def by (metis le_add1 le_trans option.simps(3) order_refl)
  moreover have "Term io D C (lastIndex s) s' = Inl LogUnavailable"
    using gone load_entry_missing [OF io, of D s' "lastIndex s" C LogUnavailable] es(4,5) log_invD(1) [OF inv]
    by (auto simp: Term_def s'(2,3) last uint64_pred_def)
  ultimately show ?thesis
    by (simp add: s'(1) last log_LastIndex_def)
qed

theorem raft_append_keeps_stale_last_index_witness:
  "case log_Append good_io rb_tree sample_codec (sample_entries 2 3 1) sample_log of (s', out) \<Rightarrow>
     out = Inr () \<and> log_LastIndex s' = 5 \<and> Term good_io rb_tree sample_codec 5 s' = Inl LogUnavailable"
proof -
  have len: "length (sample_entries 2 3 1) = 1"
    by (rule sample_entries_ok(2))
  then have ne: "sample_entries 2 3 1 \<noteq> []"
    by (metis length_0_conv zero_neq_one)
  show ?thesis
    using raft_append_keeps_stale_last_index [OF rb_tree_ok sample_codec_ok sample_log_ok(2) good_io_ok(1) sample_entries_ok(1) [of 2 3 1] ne sample_entries_ok(3)] len
    by (simp add: sample_log_ok case_prod_unfold)
qed

end
