(* ===== verification/Go_Json.thy ===== *)
theory Go_Json
  imports Bytes
begin

text \<open>
  The part of Go's standard library that the code uses to write structures as text: UTF-8
  (\<^verbatim>\<open>unicode/utf8\<close>) and JSON (\<^verbatim>\<open>encoding/json\<close>). A Go string is any sequence of bytes. The JSON
  encoder writes a byte that is not part of a valid UTF-8 sequence as the replacement character,
  so what comes back from a round trip is the valid part of a string; the lemmas at the end state
  this for every JSON value.
\<close>

section \<open>UTF-8\<close>

abbreviation code :: "char \<Rightarrow> nat" where
  "code c \<equiv> of_char c"

definition cont_byte :: "char \<Rightarrow> bool" where
  "cont_byte c \<longleftrightarrow> 128 \<le> code c \<and> code c \<le> 191"

definition second_byte :: "char \<Rightarrow> char \<Rightarrow> bool" where
  "second_byte a c \<longleftrightarrow>
     (if code a = 224 then 160 else if code a = 240 then 144 else 128) \<le> code c \<and>
     code c \<le> (if code a = 237 then 159 else if code a = 244 then 143 else 191)"

text \<open>Length of the rune at the head of a string, 0 where \<^verbatim>\<open>utf8.DecodeRune\<close> reports an error.\<close>

fun rune_len :: "string \<Rightarrow> nat" where
  "rune_len [] = 0"
| "rune_len (a # s) =
     (if code a < 128 then 1
      else if 194 \<le> code a \<and> code a \<le> 223 then
        (case s of b # _ \<Rightarrow> if cont_byte b then 2 else 0 | _ \<Rightarrow> 0)
      else if 224 \<le> code a \<and> code a \<le> 239 then
        (case s of b # c # _ \<Rightarrow> if second_byte a b \<and> cont_byte c then 3 else 0 | _ \<Rightarrow> 0)
      else if 240 \<le> code a \<and> code a \<le> 244 then
        (case s of b # c # d # _ \<Rightarrow> if second_byte a b \<and> cont_byte c \<and> cont_byte d then 4 else 0 | _ \<Rightarrow> 0)
      else 0)"

definition rune_error :: string where
  "rune_error = [CHR 0xEF, CHR 0xBF, CHR 0xBD]"

function to_valid :: "string \<Rightarrow> string" where
  "to_valid s =
     (if s = [] then []
      else if rune_len s = 0 then rune_error @ to_valid (tl s)
      else take (rune_len s) s @ to_valid (drop (rune_len s) s))"
  by auto
termination by (relation "measure length") auto

declare to_valid.simps [simp del]

function utf8_valid :: "string \<Rightarrow> bool" where
  "utf8_valid s =
     (if s = [] then True
      else if rune_len s = 0 then False
      else utf8_valid (drop (rune_len s) s))"
  by auto
termination by (relation "measure length") auto

declare utf8_valid.simps [simp del]

text \<open>\<^verbatim>\<open>utf8.AppendRune\<close> for the runes below \<open>0x110000\<close> that are not surrogates.\<close>

definition append_rune :: "nat \<Rightarrow> string" where
  "append_rune r =
     (if r < 128 then [char_of r]
      else if r < 2048 then [char_of (192 + r div 64), char_of (128 + r mod 64)]
      else if 55296 \<le> r \<and> r < 57344 \<or> 1114112 \<le> r then rune_error
      else if r < 65536 then
        [char_of (224 + r div 4096), char_of (128 + r div 64 mod 64), char_of (128 + r mod 64)]
      else
        [char_of (240 + r div 262144), char_of (128 + r div 4096 mod 64),
         char_of (128 + r div 64 mod 64), char_of (128 + r mod 64)])"

section \<open>JSON strings\<close>

definition hex_digit :: "nat \<Rightarrow> char" where
  "hex_digit n = (if n < 10 then char_of (48 + n) else char_of (87 + n))"

definition hex_val :: "char \<Rightarrow> nat option" where
  "hex_val c =
     (if 48 \<le> code c \<and> code c \<le> 57 then Some (code c - 48)
      else if 97 \<le> code c \<and> code c \<le> 102 then Some (code c - 87)
      else if 65 \<le> code c \<and> code c \<le> 70 then Some (code c - 55)
      else None)"

definition quote :: char where "quote = CHR 0x22"
definition backslash :: char where "backslash = CHR 0x5C"

definition escape_ascii :: "char \<Rightarrow> string" where
  "escape_ascii c =
     (if c = quote \<or> c = backslash then [backslash, c]
      else if code c = 8 then [backslash, CHR ''b'']
      else if code c = 12 then [backslash, CHR ''f'']
      else if code c = 10 then [backslash, CHR ''n'']
      else if code c = 13 then [backslash, CHR ''r'']
      else if code c = 9 then [backslash, CHR ''t'']
      else if code c < 32 \<or> c \<in> {CHR ''<'', CHR ''>'', CHR ''&''} then
        [backslash, CHR ''u'', CHR ''0'', CHR ''0'', hex_digit (code c div 16), hex_digit (code c mod 16)]
      else [c])"

definition line_separator :: string where "line_separator = [CHR 0xE2, CHR 0x80, CHR 0xA8]"
definition paragraph_separator :: string where "paragraph_separator = [CHR 0xE2, CHR 0x80, CHR 0xA9]"

text \<open>\<^verbatim>\<open>appendString\<close> of \<^verbatim>\<open>encoding/json\<close>, without the enclosing quotes.\<close>

function escape_string :: "string \<Rightarrow> string" where
  "escape_string s =
     (if s = [] then []
      else if rune_len s = 0 then backslash # ''ufffd'' @ escape_string (tl s)
      else (if rune_len s = 1 then escape_ascii (hd s)
            else if take (rune_len s) s = line_separator then backslash # ''u2028''
            else if take (rune_len s) s = paragraph_separator then backslash # ''u2029''
            else take (rune_len s) s) @ escape_string (drop (rune_len s) s))"
  by auto
termination by (relation "measure length") auto

declare escape_string.simps [simp del]

definition quote_string :: "string \<Rightarrow> string" where
  "quote_string s = quote # escape_string s @ [quote]"

text \<open>Four hexadecimal digits.\<close>

fun parse_u4 :: "string \<Rightarrow> (nat \<times> string) option" where
  "parse_u4 (a # b # c # d # s) =
     (case (hex_val a, hex_val b, hex_val c, hex_val d) of
        (Some p, Some q, Some r, Some t) \<Rightarrow> Some (p * 4096 + q * 256 + r * 16 + t, s)
      | _ \<Rightarrow> None)"
| "parse_u4 _ = None"

text \<open>A \<open>\u\<close> escape, with the pairing of surrogates.\<close>

definition parse_unicode :: "string \<Rightarrow> (string \<times> string) option" where
  "parse_unicode s =
     (case parse_u4 s of
        None \<Rightarrow> None
      | Some (r, s1) \<Rightarrow>
          if 55296 \<le> r \<and> r < 57344 then
            (case s1 of
               b # u # s2 \<Rightarrow>
                 if b = backslash \<and> u = CHR ''u'' then
                   (case parse_u4 s2 of
                      Some (r2, s3) \<Rightarrow>
                        if r < 56320 \<and> 56320 \<le> r2 \<and> r2 < 57344
                        then Some (append_rune (65536 + (r - 55296) * 1024 + (r2 - 56320)), s3)
                        else Some (rune_error, s1)
                    | None \<Rightarrow> Some (rune_error, s1))
                 else Some (rune_error, s1)
             | _ \<Rightarrow> Some (rune_error, s1))
          else Some (append_rune r, s1))"

definition simple_escape :: "char \<Rightarrow> char option" where
  "simple_escape c =
     (if c = quote \<or> c = backslash \<or> c = CHR ''/'' then Some c
      else if c = CHR ''b'' then Some (char_of (8::nat))
      else if c = CHR ''f'' then Some (char_of (12::nat))
      else if c = CHR ''n'' then Some (char_of (10::nat))
      else if c = CHR ''r'' then Some (char_of (13::nat))
      else if c = CHR ''t'' then Some (char_of (9::nat))
      else None)"

text \<open>One element of a string literal: the decoded bytes and the rest.\<close>

definition parse_char :: "string \<Rightarrow> (string \<times> string) option" where
  "parse_char s =
     (case s of
        [] \<Rightarrow> None
      | a # s1 \<Rightarrow>
          if a = backslash then
            (case s1 of
               [] \<Rightarrow> None
             | e # s2 \<Rightarrow>
                 if e = CHR ''u'' then parse_unicode s2
                 else map_option (\<lambda>c. ([c], s2)) (simple_escape e))
          else if code a < 32 then None
          else if rune_len s = 0 then Some (rune_error, s1)
          else Some (take (rune_len s) s, drop (rune_len s) s))"

text \<open>The literal after its opening quote.\<close>

function parse_string :: "string \<Rightarrow> (string \<times> string) option" where
  "parse_string s =
     (if s = [] then None
      else if hd s = quote then Some ([], tl s)
      else case parse_char s of
        None \<Rightarrow> None
      | Some (b, s1) \<Rightarrow>
          if length s1 < length s then map_option (\<lambda>(t, s2). (b @ t, s2)) (parse_string s1) else None)"
  by auto
termination by (relation "measure length") auto

declare parse_string.simps [simp del]


section \<open>JSON values\<close>

text \<open>A number is kept as its literal text.\<close>

datatype json = JNull | JBool bool | JNum string | JStr string | JArr "json list" | JObj "(string \<times> json) list"

text \<open>
  \<^verbatim>\<open>json.Marshal\<close> writes values without white space; the maps of the code are written by the
  structure codecs in the order of the fields.
\<close>

fun join :: "string list \<Rightarrow> string" where
  "join [] = []"
| "join [x] = x"
| "join (x # y # xs) = x @ CHR '','' # join (y # xs)"

fun json_print :: "json \<Rightarrow> string" where
  "json_print JNull = ''null''"
| "json_print (JBool b) = (if b then ''true'' else ''false'')"
| "json_print (JNum n) = n"
| "json_print (JStr s) = quote_string s"
| "json_print (JArr vs) = CHR ''['' # join (map json_print vs) @ '']''"
| "json_print (JObj ms) =
     CHR ''{'' # join (map (\<lambda>(k, v). quote_string k @ CHR '':'' # json_print v) ms) @ ''}''"

definition white_space :: "char \<Rightarrow> bool" where
  "white_space c \<longleftrightarrow> code c \<in> {32, 9, 10, 13}"

definition skip_ws :: "string \<Rightarrow> string" where
  "skip_ws s = dropWhile white_space s"

definition is_digit :: "char \<Rightarrow> bool" where
  "is_digit c \<longleftrightarrow> 48 \<le> code c \<and> code c \<le> 57"

definition take_digits :: "string \<Rightarrow> string \<times> string" where
  "take_digits s = (takeWhile is_digit s, dropWhile is_digit s)"

text \<open>The integer part, then an optional fraction and an optional exponent.\<close>

definition parse_int_part :: "string \<Rightarrow> (string \<times> string) option" where
  "parse_int_part s =
     (case s of
        [] \<Rightarrow> None
      | c # r \<Rightarrow> if c = CHR ''0'' then Some ([c], r)
                else if is_digit c then Some (take_digits s) else None)"

definition parse_fraction :: "string \<Rightarrow> (string \<times> string) option" where
  "parse_fraction s =
     (case s of
        c # r \<Rightarrow>
          if c = CHR ''.'' then
            (let (ds, r') = take_digits r in if ds = [] then None else Some (c # ds, r'))
          else Some ([], s)
      | [] \<Rightarrow> Some ([], s))"

definition parse_exponent :: "string \<Rightarrow> (string \<times> string) option" where
  "parse_exponent s =
     (case s of
        c # r \<Rightarrow>
          if c = CHR ''e'' \<or> c = CHR ''E'' then
            (let (sg, r1) = (case r of d # r' \<Rightarrow> if d = CHR ''+'' \<or> d = CHR ''-'' then ([d], r') else ([], r) | [] \<Rightarrow> ([], r));
                 (ds, r2) = take_digits r1
             in if ds = [] then None else Some (c # sg @ ds, r2))
          else Some ([], s)
      | [] \<Rightarrow> Some ([], s))"

definition parse_number :: "string \<Rightarrow> (string \<times> string) option" where
  "parse_number s =
     (let (sg, r) = (case s of c # r \<Rightarrow> if c = CHR ''-'' then ([c], r) else ([], s) | [] \<Rightarrow> ([], s)) in
      case parse_int_part r of
        None \<Rightarrow> None
      | Some (i, r1) \<Rightarrow>
          (case parse_fraction r1 of
             None \<Rightarrow> None
           | Some (f, r2) \<Rightarrow>
               (case parse_exponent r2 of
                  None \<Rightarrow> None
                | Some (e, r3) \<Rightarrow> Some (sg @ i @ f @ e, r3))))"

definition literal :: "string \<Rightarrow> string \<Rightarrow> string option" where
  "literal w s = (if take (length w) s = w then Some (drop (length w) s) else None)"

definition parse_scalar :: "string \<Rightarrow> (json \<times> string) option" where
  "parse_scalar s =
     (if s = [] then None
      else if hd s = quote then map_option (\<lambda>(t, r). (JStr t, r)) (parse_string (tl s))
      else if hd s = CHR ''t'' then map_option (Pair (JBool True)) (literal ''true'' s)
      else if hd s = CHR ''f'' then map_option (Pair (JBool False)) (literal ''false'' s)
      else if hd s = CHR ''n'' then map_option (Pair JNull) (literal ''null'' s)
      else map_option (\<lambda>(t, r). (JNum t, r)) (parse_number s))"

text \<open>
  The limit of nested arrays and objects (\<^verbatim>\<open>maxNestingDepth\<close>). The comparisons of lengths in the
  recursion always hold, since every parser consumes what it accepts; they make the recursion
  evidently well founded.
\<close>

definition max_nesting :: nat where
  "max_nesting = 10000"

text \<open>The key of a member up to its colon.\<close>

definition parse_key :: "string \<Rightarrow> (string \<times> string) option" where
  "parse_key s =
     (let s0 = skip_ws s in
      if s0 = [] \<or> hd s0 \<noteq> quote then None
      else case parse_string (tl s0) of
        None \<Rightarrow> None
      | Some (k, s1) \<Rightarrow>
          (let s2 = skip_ws s1 in if s2 \<noteq> [] \<and> hd s2 = CHR '':'' then Some (k, tl s2) else None))"

function (sequential) parse_value :: "nat \<Rightarrow> string \<Rightarrow> (json \<times> string) option"
  and parse_elements :: "nat \<Rightarrow> string \<Rightarrow> (json list \<times> string) option"
  and parse_members :: "nat \<Rightarrow> string \<Rightarrow> ((string \<times> json) list \<times> string) option" where
  "parse_value d s =
     (case skip_ws s of
        [] \<Rightarrow> None
      | c # s1 \<Rightarrow>
          if length s1 < length s then
            if c = CHR ''['' then
              if max_nesting \<le> d then None
              else (case skip_ws s1 of
                      [] \<Rightarrow> None
                    | e # s2 \<Rightarrow>
                        if e = CHR '']'' then Some (JArr [], s2)
                        else map_option (\<lambda>(vs, r). (JArr vs, r)) (parse_elements (Suc d) s1))
            else if c = CHR ''{'' then
              if max_nesting \<le> d then None
              else (case skip_ws s1 of
                      [] \<Rightarrow> None
                    | e # s2 \<Rightarrow>
                        if e = CHR ''}'' then Some (JObj [], s2)
                        else map_option (\<lambda>(ms, r). (JObj ms, r)) (parse_members (Suc d) s1))
            else parse_scalar (c # s1)
          else None)"
| "parse_elements d s =
     (case parse_value d s of
        None \<Rightarrow> None
      | Some (v, r) \<Rightarrow>
          (case skip_ws r of
             [] \<Rightarrow> None
           | e # s2 \<Rightarrow>
               if e = CHR '','' then
                 if length s2 < length s then map_option (\<lambda>(vs, t). (v # vs, t)) (parse_elements d s2) else None
               else if e = CHR '']'' then Some ([v], s2)
               else None))"
| "parse_members d s =
     (case parse_key s of
        None \<Rightarrow> None
      | Some (k, s1) \<Rightarrow>
          if length s1 < length s then
            (case parse_value d s1 of
               None \<Rightarrow> None
             | Some (v, r) \<Rightarrow>
                 (case skip_ws r of
                    [] \<Rightarrow> None
                  | e # s2 \<Rightarrow>
                      if e = CHR '','' then
                        if length s2 < length s then map_option (\<lambda>(ms, t). ((k, v) # ms, t)) (parse_members d s2) else None
                      else if e = CHR ''}'' then Some ([(k, v)], s2)
                      else None))
          else None)"
  by pat_completeness auto
termination
  by (relation "measure (\<lambda>x. case x of Inl (_, s) \<Rightarrow> 2 * length s | Inr (Inl (_, s)) \<Rightarrow> 2 * length s + 1
                                | Inr (Inr (_, s)) \<Rightarrow> 2 * length s + 1)") auto

declare parse_value.simps [simp del] parse_elements.simps [simp del] parse_members.simps [simp del]

text \<open>A complete JSON text.\<close>

definition parse_json :: "string \<Rightarrow> json option" where
  "parse_json s =
     (case parse_value 0 s of
        Some (v, r) \<Rightarrow> if skip_ws r = [] then Some v else None
      | None \<Rightarrow> None)"

section \<open>Structures\<close>

text \<open>
  \<^verbatim>\<open>json.Unmarshal\<close> into a structure. Keys match field names exactly or up to case, where the
  long s and the Kelvin sign count as letters. A \<open>null\<close> leaves a bool or string as it is and clears a
  slice; a value of another type is an error.
\<close>

function fold_name :: "string \<Rightarrow> string" where
  "fold_name s =
     (if s = [] then []
      else if take 2 s = [CHR 0xC5, CHR 0xBF] then CHR ''S'' # fold_name (drop 2 s)
      else if take 3 s = [CHR 0xE2, CHR 0x84, CHR 0xAA] then CHR ''K'' # fold_name (drop 3 s)
      else (if 97 \<le> code (hd s) \<and> code (hd s) \<le> 122 then char_of (code (hd s) - 32) else hd s) # fold_name (tl s))"
  by auto
termination by (relation "measure length") auto

declare fold_name.simps [simp del]

definition field_matches :: "string \<Rightarrow> string \<Rightarrow> bool" where
  "field_matches name key \<longleftrightarrow> key = name \<or> fold_name key = fold_name name"

definition decode_string :: "string \<Rightarrow> json \<Rightarrow> string option" where
  "decode_string old v = (case v of JStr t \<Rightarrow> Some t | JNull \<Rightarrow> Some old | _ \<Rightarrow> None)"

fun decode_strings :: "string list \<Rightarrow> json list \<Rightarrow> string list option" where
  "decode_strings old [] = Some []"
| "decode_strings old (v # vs) =
     (case decode_string (case old of [] \<Rightarrow> [] | x # _ \<Rightarrow> x) v of
        None \<Rightarrow> None
      | Some t \<Rightarrow> map_option (\<lambda>ts. t # ts) (decode_strings (tl old) vs))"

fun decode_fields :: "('a \<Rightarrow> string \<times> json \<Rightarrow> 'a option) \<Rightarrow> 'a \<Rightarrow> (string \<times> json) list \<Rightarrow> 'a option" where
  "decode_fields f x [] = Some x"
| "decode_fields f x (m # ms) = (case f x m of None \<Rightarrow> None | Some y \<Rightarrow> decode_fields f y ms)"

definition decode_object :: "('a \<Rightarrow> string \<times> json \<Rightarrow> 'a option) \<Rightarrow> 'a \<Rightarrow> json \<Rightarrow> 'a option" where
  "decode_object f x v =
     (case v of JObj ms \<Rightarrow> decode_fields f x ms | JNull \<Rightarrow> Some x | _ \<Rightarrow> None)"

section \<open>Round trips\<close>

lemma code_less [simp]: "code c < 256"
  by (rule of_char_less)

lemma rune_len_le: "rune_len s \<le> length s"
  by (cases s rule: rune_len.cases) (auto split: list.splits)

lemma rune_len_ascii: "rune_len (a # s) = 1 \<longleftrightarrow> code a < 128"
  by (auto split: list.splits)

lemma rune_len_prefix:
  assumes "rune_len s = k" "k \<noteq> 0"
  shows "rune_len (take k s @ t) = k"
  using assms by (cases s rule: rune_len.cases) (auto split: list.splits if_splits)

lemma hex_val_digit [simp]: "n < 16 \<Longrightarrow> hex_val (hex_digit n) = Some n"
  by (auto simp: hex_val_def hex_digit_def of_char_of)


lemma append_rune_ascii: "code c < 128 \<Longrightarrow> append_rune (code c) = [c]"
  by (simp add: append_rune_def)

lemma parse_unicode_ascii:
  assumes "code c < 128"
  shows "parse_unicode (CHR ''0'' # CHR ''0'' # hex_digit (code c div 16) # hex_digit (code c mod 16) # t) = Some ([c], t)"
proof -
  have "hex_val (CHR ''0'') = Some 0" by (simp add: hex_val_def)
  moreover have "code c div 16 < 16" using assms by simp
  ultimately show ?thesis using assms by (simp add: parse_unicode_def append_rune_ascii)
qed

lemma backslash_quote [simp]: "backslash \<noteq> quote" "quote \<noteq> backslash" "code backslash = 92" "code quote = 34"
  by (simp_all add: backslash_def quote_def)

lemma simple_escape_letters:
  "simple_escape quote = Some quote" "simple_escape backslash = Some backslash"
  "simple_escape (CHR ''b'') = Some (char_of (8::nat))" "simple_escape (CHR ''f'') = Some (char_of (12::nat))"
  "simple_escape (CHR ''n'') = Some (char_of (10::nat))" "simple_escape (CHR ''r'') = Some (char_of (13::nat))"
  "simple_escape (CHR ''t'') = Some (char_of (9::nat))"
  by (simp_all add: simple_escape_def quote_def backslash_def)

lemma char_of_code: "code c = n \<Longrightarrow> char_of n = c"
  by auto

lemma parse_char_backslash:
  "e \<noteq> CHR ''u'' \<Longrightarrow> simple_escape e = Some c \<Longrightarrow> parse_char (backslash # e # t) = Some ([c], t)"
  by (simp add: parse_char_def)

lemma parse_char_u: "parse_char (backslash # CHR ''u'' # t) = parse_unicode t"
  by (simp add: parse_char_def)

lemma quote_not_u [simp]: "quote \<noteq> CHR ''u''" "backslash \<noteq> CHR ''u''"
  by (simp_all add: quote_def backslash_def)

lemma parse_char_escape:
  assumes "code c < 128"
  shows "parse_char (escape_ascii c @ t) = Some ([c], t)"
  using assms
  by (auto simp: escape_ascii_def parse_char_backslash simple_escape_letters parse_char_u parse_unicode_ascii char_of_code)
    (simp add: parse_char_def)

lemma hd_escape_ascii: "hd (escape_ascii c @ t) \<noteq> quote" "escape_ascii c \<noteq> []"
  by (auto simp: escape_ascii_def)

lemma parse_char_rune:
  assumes "rune_len s = k" "1 < k"
  shows "parse_char (take k s @ t) = Some (take k s, t)" "hd (take k s @ t) \<noteq> quote"
proof -
  obtain a r where s: "s = a # r" using assms by (cases s) auto
  have a: "128 \<le> code a" using assms rune_len_ascii[of a r] s by (cases "code a < 128") auto
  then have ne: "a \<noteq> quote" "a \<noteq> backslash" by auto
  have tk: "take k s @ t = a # take (k - 1) r @ t" using assms s by (cases k) auto
  have len: "length (take k s) = k" using rune_len_le[of s] assms by simp
  have "rune_len (take k s @ t) = k" using rune_len_prefix assms by auto
  moreover have "take k (take k s @ t) = take k s" "drop k (take k s @ t) = t" using len by simp_all
  ultimately show "parse_char (take k s @ t) = Some (take k s, t)"
    using ne a assms unfolding parse_char_def tk by (simp del: rune_len.simps)
  show "hd (take k s @ t) \<noteq> quote" using tk ne by simp
qed

lemma parse_string_step:
  assumes "parse_char s = Some (b, r)" "hd s \<noteq> quote" "s \<noteq> []" "length r < length s"
  shows "parse_string s = map_option (\<lambda>(t, u). (b @ t, u)) (parse_string r)"
  using assms by (simp add: parse_string.simps[of s])

lemma parse_string_bytes:
  assumes "parse_char (b @ r) = Some (c, r)" "hd (b @ r) \<noteq> quote" "b \<noteq> []"
  shows "parse_string (b @ r) = map_option (\<lambda>(t, u). (c @ t, u)) (parse_string r)"
  using assms by (intro parse_string_step) auto

lemma parse_u4_sample:
  "parse_u4 (''fffd'' @ t) = Some (65533, t)" "parse_u4 (''2028'' @ t) = Some (8232, t)"
  "parse_u4 (''2029'' @ t) = Some (8233, t)"
  by (simp_all add: hex_val_def)

lemma append_rune_sample:
  "append_rune 65533 = rune_error" "append_rune 8232 = line_separator" "append_rune 8233 = paragraph_separator"
  by (simp_all add: append_rune_def rune_error_def line_separator_def paragraph_separator_def char_of_eq_iff)

lemma parse_char_special:
  "parse_char (backslash # ''ufffd'' @ t) = Some (rune_error, t)"
  "parse_char (backslash # ''u2028'' @ t) = Some (line_separator, t)"
  "parse_char (backslash # ''u2029'' @ t) = Some (paragraph_separator, t)"
  using parse_u4_sample[of t] append_rune_sample
  by (simp_all add: parse_char_u parse_unicode_def del: parse_u4.simps)

lemma parse_escape_string: "parse_string (escape_string s @ quote # t) = Some (to_valid s, t)"
proof (induction s rule: to_valid.induct)
  case (1 s)
  consider "s = []" | "s \<noteq> []" "rune_len s = 0" | "s \<noteq> []" "rune_len s = 1" | "s \<noteq> []" "1 < rune_len s"
    by linarith
  then show ?case
  proof cases
    case 1
    then show ?thesis by (simp add: escape_string.simps to_valid.simps parse_string.simps)
  next
    case 2
    have "parse_string ((backslash # ''ufffd'') @ escape_string (tl s) @ quote # t) =
        map_option (\<lambda>(u, v). (rune_error @ u, v)) (parse_string (escape_string (tl s) @ quote # t))"
      by (rule parse_string_bytes) (use parse_char_special in auto)
    then show ?thesis using 2 1 by (simp add: escape_string.simps[of s] to_valid.simps[of s])
  next
    case 3
    obtain a r where s: "s = a # r" using 3 by (cases s) auto
    then have "code a < 128" using 3 rune_len_ascii by auto
    then have "parse_string (escape_ascii a @ escape_string r @ quote # t) =
        map_option (\<lambda>(u, v). ([a] @ u, v)) (parse_string (escape_string r @ quote # t))"
      by (intro parse_string_bytes parse_char_escape hd_escape_ascii)
    then show ?thesis using 3 1(2) s by (simp add: escape_string.simps[of "a # r"] to_valid.simps[of "a # r"] del: rune_len.simps)
  next
    case 4
    let ?k = "rune_len s"
    let ?b = "if take ?k s = line_separator then backslash # ''u2028''
              else if take ?k s = paragraph_separator then backslash # ''u2029'' else take ?k s"
    have "parse_string (?b @ escape_string (drop ?k s) @ quote # t) =
        map_option (\<lambda>(u, v). (take ?k s @ u, v)) (parse_string (escape_string (drop ?k s) @ quote # t))"
      by (rule parse_string_bytes)
        (use parse_char_special parse_char_rune[OF refl 4(2)] 4 in \<open>auto simp del: rune_len.simps\<close>)
    then show ?thesis using 4 1(2) by (simp add: escape_string.simps[of s] to_valid.simps[of s] del: rune_len.simps)
  qed
qed

lemma to_valid_id: "utf8_valid s \<Longrightarrow> to_valid s = s"
  by (induction s rule: utf8_valid.induct)
    (subst (asm) utf8_valid.simps, subst to_valid.simps, auto split: if_splits)

definition int_literal :: "string \<Rightarrow> bool" where
  "int_literal n \<longleftrightarrow>
     (let ds = (case n of c # r \<Rightarrow> if c = CHR ''-'' then r else n | [] \<Rightarrow> n) in
      ds \<noteq> [] \<and> list_all is_digit ds \<and> (hd ds = CHR ''0'' \<longrightarrow> tl ds = []))"

text \<open>The values that the structure codecs write: integers as numbers, within the nesting limit.\<close>

fun json_ok :: "nat \<Rightarrow> json \<Rightarrow> bool" where
  "json_ok d (JNum n) = int_literal n"
| "json_ok d (JArr vs) = (d < max_nesting \<and> (\<forall>v \<in> set vs. json_ok (Suc d) v))"
| "json_ok d (JObj ms) = (d < max_nesting \<and> (\<forall>m \<in> set ms. json_ok (Suc d) (snd m)))"
| "json_ok d _ = True"

fun json_valid :: "json \<Rightarrow> json" where
  "json_valid (JStr s) = JStr (to_valid s)"
| "json_valid (JArr vs) = JArr (map json_valid vs)"
| "json_valid (JObj ms) = JObj (map (\<lambda>(k, v). (to_valid k, json_valid v)) ms)"
| "json_valid v = v"

definition delimited :: "string \<Rightarrow> bool" where
  "delimited r \<longleftrightarrow> r = [] \<or> hd r \<in> {CHR '','', CHR '']'', CHR ''}''}"

lemma delimited_Cons: "delimited (c # r) \<longleftrightarrow> c \<in> {CHR '','', CHR '']'', CHR ''}''}"
  by (simp add: delimited_def)

lemma delimited_not_digit: "delimited r \<Longrightarrow> takeWhile is_digit r = [] \<and> dropWhile is_digit r = r"
  by (cases r) (auto simp: delimited_def is_digit_def)

lemma parse_tail_delimited:
  assumes "delimited r"
  shows "parse_fraction r = Some ([], r)" "parse_exponent r = Some ([], r)"
  using assms by (cases r; auto simp: delimited_def parse_fraction_def parse_exponent_def)+

lemma parse_int_part_digits:
  assumes "ds \<noteq> []" "list_all is_digit ds" "hd ds = CHR ''0'' \<longrightarrow> tl ds = []" "delimited r"
  shows "parse_int_part (ds @ r) = Some (ds, r)"
proof -
  obtain c t where ds: "ds = c # t" using assms(1) by (cases ds) auto
  have "list_all is_digit ds \<Longrightarrow> take_digits (ds @ r) = (ds, r)"
    using delimited_not_digit[OF assms(4)] by (simp add: take_digits_def takeWhile_append dropWhile_append list_all_iff)
  then show ?thesis using assms ds by (auto simp: parse_int_part_def)
qed

lemma parse_int_literal:
  assumes n: "int_literal n" and r: "delimited r"
  shows "parse_number (n @ r) = Some (n, r)"
proof -
  obtain sg ds where ds: "n = sg @ ds" "sg = [] \<or> sg = [CHR ''-'']" "ds \<noteq> []" "list_all is_digit ds"
      "hd ds = CHR ''0'' \<longrightarrow> tl ds = []"
  proof (cases "n \<noteq> [] \<and> hd n = CHR ''-''")
    case True
    then show ?thesis using n by (intro that[of "[CHR ''-'']" "tl n"]) (auto simp: int_literal_def neq_Nil_conv)
  next
    case False
    then show ?thesis using n by (intro that[of "[]" n]) (cases n; auto simp: int_literal_def)+
  qed
  have "hd ds \<noteq> CHR ''-''" using ds by (cases ds) (auto simp: is_digit_def)
  then show ?thesis
    using ds(2) parse_int_part_digits[OF ds(3,4,5) r] parse_tail_delimited[OF r] ds(3)
    by (cases ds) (auto simp: parse_number_def ds(1))
qed

lemma is_digit_neq: "is_digit c \<Longrightarrow> c \<notin> {CHR '']'', CHR ''}'', CHR ''['', CHR ''{'', CHR ''t'', CHR ''f'', CHR ''n'', quote}"
  by (auto simp: is_digit_def)

lemma quote_letters [simp]:
  "quote \<noteq> CHR ''t''" "quote \<noteq> CHR ''f''" "quote \<noteq> CHR ''n''" "quote \<noteq> CHR ''[''" "quote \<noteq> CHR ''{''"
  "CHR ''t'' \<noteq> quote" "CHR ''f'' \<noteq> quote" "CHR ''n'' \<noteq> quote" "CHR ''-'' \<noteq> quote" "quote \<noteq> CHR ''-''" "quote \<noteq> CHR ''}''"
  by (simp_all add: quote_def)

lemma skip_ws_id: "\<not> white_space c \<Longrightarrow> skip_ws (c # s) = c # s"
  by (simp add: skip_ws_def)

lemma punctuation_no_ws [simp]:
  "\<not> white_space (CHR '','')" "\<not> white_space (CHR '']'')" "\<not> white_space (CHR ''}'')" "\<not> white_space (CHR '':'')"
  "\<not> white_space (CHR ''['')" "\<not> white_space (CHR ''{'')" "\<not> white_space quote"
  by (simp_all add: white_space_def quote_def)

lemma json_print_head:
  assumes "json_ok d j"
  obtains c s where "json_print j = c # s" "\<not> white_space c" "c \<noteq> CHR '']''" "c \<noteq> CHR ''}''"
proof (cases j)
  case (JNum n)
  have "n \<noteq> [] \<and> (hd n = CHR ''-'' \<or> is_digit (hd n))"
    using assms JNum by (cases n) (auto simp: int_literal_def split: if_splits)
  then show ?thesis using JNum that[of "hd n" "tl n"] is_digit_neq[of "hd n"] by (auto simp: is_digit_def white_space_def)
next
  case (JBool b)
  then show ?thesis using that by (cases b) (auto simp: white_space_def)
next
  case JNull
  then show ?thesis using that by (auto simp: white_space_def)
qed (use that in \<open>auto simp: white_space_def quote_string_def quote_def\<close>)

lemma parse_quoted: "parse_string (escape_string k @ quote # t) = Some (to_valid k, t)"
  by (rule parse_escape_string)

lemma parse_key_printed: "parse_key (quote_string k @ CHR '':'' # s) = Some (to_valid k, s)"
  by (simp add: parse_key_def quote_string_def skip_ws_id parse_quoted)

lemma parse_scalar_printed:
  assumes "json_ok d j" "delimited r" "\<And>vs. j \<noteq> JArr vs" "\<And>ms. j \<noteq> JObj ms"
  shows "parse_scalar (json_print j @ r) = Some (json_valid j, r)"
proof (cases j)
  case (JNum n)
  have "n \<noteq> [] \<and> (hd n = CHR ''-'' \<or> is_digit (hd n))"
    using assms JNum by (cases n) (auto simp: int_literal_def split: if_splits)
  then have "hd (n @ r) \<notin> {quote, CHR ''t'', CHR ''f'', CHR ''n''}" "n \<noteq> []"
    using is_digit_neq[of "hd n"] by auto
  then show ?thesis using JNum assms(1) parse_int_literal[OF _ assms(2), of n] by (simp add: parse_scalar_def)
qed (use assms in \<open>auto simp: parse_scalar_def quote_string_def parse_quoted literal_def\<close>)


lemma parse_value_scalar:
  assumes "json_ok d j" "delimited r" "\<And>vs. j \<noteq> JArr vs" "\<And>ms. j \<noteq> JObj ms"
  shows "parse_value d (json_print j @ r) = Some (json_valid j, r)"
proof -
  obtain c s where p: "json_print j = c # s" "\<not> white_space c" using json_print_head[OF assms(1)] by metis
  have "c \<noteq> CHR ''['' \<and> c \<noteq> CHR ''{''"
    using p assms is_digit_neq
    by (cases j) (auto simp: quote_string_def int_literal_def split: if_splits)
  then show ?thesis
    using p parse_scalar_printed[OF assms] by (simp add: parse_value.simps skip_ws_id)
qed

lemma join_Cons: "join (x # xs) = x @ (if xs = [] then [] else CHR '','' # join xs)"
  by (cases xs) auto

lemma parse_elements_printed:
  assumes "\<And>v r. v \<in> set vs \<Longrightarrow> delimited r \<Longrightarrow> parse_value d (json_print v @ r) = Some (json_valid v, r)"
    and "vs \<noteq> []"
  shows "parse_elements d (join (map json_print vs) @ CHR '']'' # r) = Some (map json_valid vs, r)"
  using assms
proof (induction vs)
  case (Cons v vs)
  let ?rest = "(if vs = [] then [] else CHR '','' # join (map json_print vs)) @ CHR '']'' # r"
  have v: "parse_value d (json_print v @ ?rest) = Some (json_valid v, ?rest)"
    using Cons.prems by (auto simp: delimited_Cons)
  show ?case
    using v Cons.IH Cons.prems
    by (cases "vs = []") (auto simp: parse_elements.simps[of d "_ @ _"] join_Cons skip_ws_id)
qed simp

lemma parse_members_printed:
  assumes "\<And>m r. m \<in> set ms \<Longrightarrow> delimited r \<Longrightarrow> parse_value d (json_print (snd m) @ r) = Some (json_valid (snd m), r)"
    and "ms \<noteq> []"
  shows "parse_members d (join (map (\<lambda>(k, v). quote_string k @ CHR '':'' # json_print v) ms) @ CHR ''}'' # r) =
    Some (map (\<lambda>(k, v). (to_valid k, json_valid v)) ms, r)"
  using assms
proof (induction ms)
  case (Cons m ms)
  obtain k v where m: "m = (k, v)" by (cases m)
  let ?rest = "(if ms = [] then [] else CHR '','' # join (map (\<lambda>(k, v). quote_string k @ CHR '':'' # json_print v) ms)) @ CHR ''}'' # r"
  have v: "parse_value d (json_print v @ ?rest) = Some (json_valid v, ?rest)"
    using Cons.prems(1)[of m] m by (auto simp: delimited_Cons)
  show ?case
    using v Cons.IH Cons.prems m
    by (cases "ms = []") (auto simp: parse_members.simps[of d "_ @ _"] join_Cons skip_ws_id parse_key_printed)
qed simp

lemma join_head:
  assumes "vs \<noteq> []" "\<And>v. v \<in> set vs \<Longrightarrow> \<exists>c s. f v = c # s \<and> P c"
  shows "\<exists>c s. join (map f vs) = c # s \<and> P c"
  using assms by (cases vs) (fastforce simp: join_Cons)+

lemma parse_value_printed:
  "json_ok d j \<Longrightarrow> delimited r \<Longrightarrow> parse_value d (json_print j @ r) = Some (json_valid j, r)"
proof (induction d j arbitrary: r rule: json_ok.induct)
  case (2 d vs)
  show ?case
  proof (cases "vs = []")
    case True
    then show ?thesis using 2 by (simp add: parse_value.simps skip_ws_id)
  next
    case False
    have "\<exists>c s. join (map json_print vs) = c # s \<and> (\<not> white_space c \<and> c \<noteq> CHR '']'')"
      by (rule join_head[OF False]) (use 2 json_print_head in \<open>metis json_ok.simps(2)\<close>)
    then obtain c s where h: "join (map json_print vs) = c # s" "\<not> white_space c" "c \<noteq> CHR '']''" by blast
    have "parse_elements (Suc d) (join (map json_print vs) @ CHR '']'' # r) = Some (map json_valid vs, r)"
      by (rule parse_elements_printed) (use 2 False in auto)
    then show ?thesis using 2 h by (simp add: parse_value.simps skip_ws_id)
  qed
next
  case (3 d ms)
  let ?f = "\<lambda>(k, v). quote_string k @ CHR '':'' # json_print v"
  show ?case
  proof (cases "ms = []")
    case True
    then show ?thesis using 3 by (simp add: parse_value.simps skip_ws_id)
  next
    case False
    have "\<exists>c s. join (map ?f ms) = c # s \<and> (\<not> white_space c \<and> c \<noteq> CHR ''}'')"
    proof (rule join_head[OF False])
      fix m :: "string \<times> json"
      obtain k v where "m = (k, v)" by (cases m)
      then show "\<exists>c s. ?f m = c # s \<and> (\<not> white_space c \<and> c \<noteq> CHR ''}'')" by (simp add: quote_string_def)
    qed
    then obtain c s where h: "join (map ?f ms) = c # s" "\<not> white_space c" "c \<noteq> CHR ''}''" by blast
    have "parse_members (Suc d) (join (map ?f ms) @ CHR ''}'' # r) = Some (map (\<lambda>(k, v). (to_valid k, json_valid v)) ms, r)"
      by (rule parse_members_printed) (use 3 False in auto)
    then show ?thesis using 3 h by (simp add: parse_value.simps skip_ws_id)
  qed
qed (rule parse_value_scalar; simp)+

text \<open>Reading what \<^verbatim>\<open>json.Marshal\<close> wrote gives the value with its strings made valid.\<close>

lemma parse_json_print: "json_ok 0 j \<Longrightarrow> parse_json (json_print j) = Some (json_valid j)"
  using parse_value_printed[of 0 j "[]"] by (simp add: parse_json_def delimited_def skip_ws_def)

lemma to_valid_fixed_iff: "to_valid s = s \<longleftrightarrow> utf8_valid s"
proof (induction s rule: to_valid.induct)
  case (1 s)
  have err: "to_valid s \<noteq> s" if "s \<noteq> []" "rune_len s = 0"
  proof
    assume "to_valid s = s"
    then have s: "s = rune_error @ to_valid (tl s)" using that by (subst (asm) to_valid.simps) auto
    have "rune_len (rune_error @ t) = 3" for t
      by (simp add: rune_error_def second_byte_def cont_byte_def)
    from this[of "to_valid (tl s)"] s that(2) show False by (simp del: rune_len.simps)
  qed
  have ok: "to_valid s = s \<longleftrightarrow> to_valid (drop (rune_len s) s) = drop (rune_len s) s" if "s \<noteq> []" "rune_len s \<noteq> 0"
  proof -
    have "to_valid s = take (rune_len s) s @ to_valid (drop (rune_len s) s)" using that by (subst to_valid.simps) simp
    then show ?thesis by (metis append_take_drop_id same_append_eq)
  qed
  show ?case
    using 1 err ok by (cases "s = []"; cases "rune_len s = 0") (auto simp: utf8_valid.simps[of s] utf8_valid.simps[of "[]"] to_valid.simps[of "[]"])
qed

lemma decode_strings_map: "decode_strings old (map JStr ps) = Some ps"
  by (induction ps arbitrary: old) (auto simp: decode_string_def)

end
