(* ===== verification/Batch_Codec.thy ===== *)
theory Batch_Codec
  imports Go_Json
begin

text \<open>
  The wire format of batched proposals (\<^verbatim>\<open>internal/batch/codec.go\<close>). A single proposal is sent as it
  is; several are wrapped in a JSON object, which the receiver recognises by its \<^verbatim>\<open>is_batch\<close> field.
\<close>

section \<open>Codec\<close>

record BatchProposal =
  IsBatch :: bool
  Proposals :: "string list"

datatype batch_error = EmptyProposals | EmptyData

text \<open>\<^verbatim>\<open>json.Marshal\<close> of the structure, for a slice that is not nil.\<close>

definition batch_json :: "BatchProposal \<Rightarrow> json" where
  "batch_json b = JObj [(''is_batch'', JBool (IsBatch b)), (''proposals'', JArr (map JStr (Proposals b)))]"

text \<open>\<^verbatim>\<open>json.Unmarshal\<close> into the structure.\<close>

definition decode_batch_field :: "BatchProposal \<Rightarrow> string \<times> json \<Rightarrow> BatchProposal option" where
  "decode_batch_field b m =
     (if field_matches ''is_batch'' (fst m) then
        (case snd m of JBool x \<Rightarrow> Some (b\<lparr>IsBatch := x\<rparr>) | JNull \<Rightarrow> Some b | _ \<Rightarrow> None)
      else if field_matches ''proposals'' (fst m) then
        (case snd m of
           JArr vs \<Rightarrow> map_option (\<lambda>ps. b\<lparr>Proposals := ps\<rparr>) (decode_strings (Proposals b) vs)
         | JNull \<Rightarrow> Some (b\<lparr>Proposals := []\<rparr>)
         | _ \<Rightarrow> None)
      else Some b)"

definition unmarshal_batch :: "string \<Rightarrow> BatchProposal option" where
  "unmarshal_batch data =
     Option.bind (parse_json data) (decode_object decode_batch_field \<lparr>IsBatch = False, Proposals = []\<rparr>)"

definition EncodeBatch :: "string list \<Rightarrow> batch_error + string" where
  "EncodeBatch proposals =
     (if length proposals = 0 then Inl EmptyProposals
      else if length proposals = 1 then Inr (proposals ! 0)
      else Inr (json_print (batch_json \<lparr>IsBatch = True, Proposals = proposals\<rparr>)))"

definition DecodeBatch :: "string \<Rightarrow> batch_error + string list" where
  "DecodeBatch data =
     (if length data = 0 then Inl EmptyData
      else case unmarshal_batch data of
        None \<Rightarrow> Inr [data]
      | Some b \<Rightarrow> if IsBatch b then Inr (Proposals b) else Inr [data])"

definition IsBatchProposal :: "string \<Rightarrow> bool" where
  "IsBatchProposal data = (case unmarshal_batch data of None \<Rightarrow> False | Some b \<Rightarrow> IsBatch b)"

section \<open>Round trip\<close>

lemma batch_json_ok: "json_ok 0 (batch_json b)"
  by (auto simp: batch_json_def max_nesting_def)

lemma batch_field_names:
  "field_matches ''is_batch'' ''is_batch''" "field_matches ''proposals'' ''proposals''"
  "\<not> field_matches ''is_batch'' ''proposals''"
  by code_simp+

lemma field_names_valid: "to_valid ''is_batch'' = ''is_batch''" "to_valid ''proposals'' = ''proposals''"
  by code_simp+

lemma unmarshal_marshal:
  "unmarshal_batch (json_print (batch_json b)) = Some (b\<lparr>Proposals := map to_valid (Proposals b)\<rparr>)"
proof -
  have v: "json_valid (batch_json b) =
      JObj [(''is_batch'', JBool (IsBatch b)), (''proposals'', JArr (map JStr (map to_valid (Proposals b))))]"
    by (simp add: batch_json_def field_names_valid)
  show ?thesis
    unfolding unmarshal_batch_def parse_json_print[OF batch_json_ok] v
    by (cases b) (simp add: decode_object_def decode_batch_field_def batch_field_names decode_strings_map del: map_map)
qed

lemma json_print_batch_nonempty: "json_print (batch_json b) \<noteq> []"
  by (simp add: batch_json_def)

lemma decode_encoded:
  assumes "2 \<le> length ps"
  shows "\<exists>d. EncodeBatch ps = Inr d \<and> d \<noteq> [] \<and> DecodeBatch d = Inr (map to_valid ps)"
  using assms json_print_batch_nonempty
  by (cases ps) (auto simp: EncodeBatch_def DecodeBatch_def unmarshal_marshal)

lemma decode_single: "d \<noteq> [] \<Longrightarrow> \<not> IsBatchProposal d \<Longrightarrow> DecodeBatch d = Inr [d]"
  by (auto simp: DecodeBatch_def IsBatchProposal_def split: option.splits)

section \<open>Property\<close>

text \<open>
  C40: decoding an encoded batch of two or more proposals always succeeds and gives the proposals with
  every byte outside a valid UTF-8 sequence replaced by the replacement character. The batch comes
  back unchanged exactly when all its proposals are valid UTF-8; a proposal in the binary wire format
  of protocol buffers in general is not, and is altered on its way through a batch.
\<close>

theorem batch_roundtrip_iff_utf8:
  assumes "2 \<le> length proposals"
  shows "\<exists>data. EncodeBatch proposals = Inr data \<and> IsBatchProposal data \<and>
    DecodeBatch data = Inr (map to_valid proposals) \<and>
    (DecodeBatch data = Inr proposals \<longleftrightarrow> list_all utf8_valid proposals)"
proof -
  obtain d where d: "EncodeBatch proposals = Inr d" "DecodeBatch d = Inr (map to_valid proposals)"
    using decode_encoded[OF assms] by blast
  have "proposals \<noteq> []" "length proposals \<noteq> 1" using assms by auto
  then have "d = json_print (batch_json \<lparr>IsBatch = True, Proposals = proposals\<rparr>)" using d(1) by (simp add: EncodeBatch_def)
  then have "IsBatchProposal d" by (simp add: IsBatchProposal_def unmarshal_marshal)
  moreover have "map to_valid proposals = proposals \<longleftrightarrow> list_all utf8_valid proposals"
    by (simp add: list_all_iff map_eq_conv[of _ _ "\<lambda>x. x", simplified] to_valid_fixed_iff)
  ultimately show ?thesis using d by auto
qed

text \<open>A put of a 200-byte value: its length prefix is the byte pair \<open>C8 01\<close>, which is not UTF-8.\<close>

theorem batch_roundtrip_iff_utf8_witness:
  "\<exists>data. EncodeBatch [[CHR 0x1A, CHR 0xC8, CHR 0x01], ''x''] = Inr data \<and>
     DecodeBatch data = Inr [[CHR 0x1A, CHR 0xEF, CHR 0xBF, CHR 0xBD, CHR 0x01], ''x'']"
proof -
  have "map to_valid [[CHR 0x1A, CHR 0xC8, CHR 0x01], ''x''] = [[CHR 0x1A, CHR 0xEF, CHR 0xBF, CHR 0xBD, CHR 0x01], ''x'']"
    by code_simp
  then show ?thesis using batch_roundtrip_iff_utf8[of "[[CHR 0x1A, CHR 0xC8, CHR 0x01], ''x'']"] by auto
qed

end
