(* ===== verification/Proposal_Batcher.thy ===== *)
theory Proposal_Batcher
  imports Complex_Main Batch_Codec
begin

text \<open>
  The batcher between the store and the Raft node (\<^verbatim>\<open>internal/batch/proposal_batcher.go\<close>): it
  collects proposals, sends them in batches and adapts the batch size to the load. The goroutine of
  \<^verbatim>\<open>run\<close> is a step relation whose steps are the cases of its \<^verbatim>\<open>select\<close>; a \<^verbatim>\<open>float64\<close> is an exact rational
  number. The lemmas hold for every rounding, since the loads they speak about are zero.
\<close>

section \<open>State and operations\<close>

record BatchConfig =
  MinBatchSize :: int
  MaxBatchSize :: int
  MinTimeout :: int
  MaxTimeout :: int
  LoadThreshold :: rat

definition DefaultBatchConfig :: BatchConfig where
  "DefaultBatchConfig =
     \<lparr>MinBatchSize = 1, MaxBatchSize = 256, MinTimeout = 5 * 1000000, MaxTimeout = 20 * 1000000,
      LoadThreshold = 7 / 10\<rparr>"

text \<open>
  The output channel is the queue of the data sent and not yet received, with a flag for its
  closing; the stop channel is only ever closed.
\<close>

record ProposalBatcher =
  minBatchSize :: int
  maxBatchSize :: int
  minTimeout :: int
  maxTimeout :: int
  loadThreshold :: rat
  buffer :: "string list"
  currentLoad :: rat
  proposalCount :: int
  batchCount :: int
  proposeC :: "string list"
  proposeC_closed :: bool
  stopC_closed :: bool
  currentBatchSize :: int
  currentTimeout :: int

definition NewProposalBatcher :: "BatchConfig \<Rightarrow> ProposalBatcher" where
  "NewProposalBatcher config =
     \<lparr>minBatchSize = MinBatchSize config, maxBatchSize = MaxBatchSize config,
      minTimeout = MinTimeout config, maxTimeout = MaxTimeout config,
      loadThreshold = LoadThreshold config, buffer = [], currentLoad = 0, proposalCount = 0,
      batchCount = 0, proposeC = [], proposeC_closed = False, stopC_closed = False,
      currentBatchSize = MinBatchSize config, currentTimeout = MinTimeout config\<rparr>"

definition proposeC_cap :: nat where
  "proposeC_cap = 256"

text \<open>Closing a closed channel panics, which is \<^const>\<open>None\<close>.\<close>

definition batcher_Stop :: "ProposalBatcher \<Rightarrow> ProposalBatcher option" where
  "batcher_Stop b = (if stopC_closed b then None else Some (b\<lparr>stopC_closed := True\<rparr>))"

text \<open>
  The \<^verbatim>\<open>select\<close> of \<^verbatim>\<open>flush\<close> sends when the channel has room and gives up when the batcher is stopped;
  when both are possible either may happen, which the first argument decides. \<^const>\<open>None\<close> is a call
  that blocks.
\<close>

datatype flush_choice = ChooseSend | ChooseStop

definition flush_select :: "flush_choice \<Rightarrow> string \<Rightarrow> ProposalBatcher \<Rightarrow> ProposalBatcher option" where
  "flush_select c d b =
     (case c of
        ChooseSend \<Rightarrow> if length (proposeC b) < proposeC_cap then Some (b\<lparr>proposeC := proposeC b @ [d]\<rparr>) else None
      | ChooseStop \<Rightarrow> if stopC_closed b then Some b else None)"

definition flush :: "flush_choice \<Rightarrow> ProposalBatcher \<Rightarrow> ProposalBatcher option" where
  "flush c b =
     (if length (buffer b) = 0 then Some b
      else
        let batch = buffer b;
            b1 = b\<lparr>buffer := [], proposalCount := proposalCount b + int (length batch), batchCount := batchCount b + 1\<rparr>
        in case EncodeBatch batch of
             Inl _ \<Rightarrow> Some b1
           | Inr d \<Rightarrow> flush_select c d b1)"

text \<open>Conversion of a \<^verbatim>\<open>float64\<close> to \<^verbatim>\<open>int\<close> truncates.\<close>

definition trunc_int :: "rat \<Rightarrow> int" where
  "trunc_int x = (if x < 0 then - \<lfloor>- x\<rfloor> else \<lfloor>x\<rfloor>)"

definition interpolate :: "rat \<Rightarrow> rat \<Rightarrow> rat \<Rightarrow> rat \<Rightarrow> rat \<Rightarrow> int" where
  "interpolate v mn mx targetMin targetMax =
     (if v \<le> mn then trunc_int targetMin
      else if mx \<le> v then trunc_int targetMax
      else
        let ratio = (v - mn) / (mx - mn)
        in trunc_int (targetMin + ratio * (targetMax - targetMin)))"

definition adjustParameters :: "ProposalBatcher \<Rightarrow> ProposalBatcher" where
  "adjustParameters b =
     (let bufferUsage = rat_of_nat (length (buffer b)) / rat_of_int (maxBatchSize b);
          loadDelta = \<bar>bufferUsage - currentLoad b\<bar>;
          alpha = (if 3 / 10 < loadDelta then 7 / 10 else if 15 / 100 < loadDelta then 1 / 2 else 3 / 10);
          load = alpha * bufferUsage + (1 - alpha) * currentLoad b;
          effectiveLoad = (if 8 / 10 < bufferUsage then max load (loadThreshold b + 1 / 10) else load);
          mxs = rat_of_int (maxBatchSize b);
          mxt = rat_of_int (maxTimeout b)
      in if loadThreshold b < effectiveLoad then
           b\<lparr>currentLoad := load,
             currentBatchSize := interpolate load (loadThreshold b) 1 (mxs / 2) mxs,
             currentTimeout := interpolate load (loadThreshold b) 1 (mxt / 2) mxt\<rparr>
         else
           b\<lparr>currentLoad := load,
             currentBatchSize := interpolate load 0 (loadThreshold b) (rat_of_int (minBatchSize b)) (mxs / 2),
             currentTimeout := interpolate load 0 (loadThreshold b) (rat_of_int (minTimeout b)) (mxt / 2)\<rparr>)"

text \<open>The cases of the main loop: a proposal from the input channel, a tick of the timer, the return.\<close>

definition run_input :: "flush_choice \<Rightarrow> string \<Rightarrow> ProposalBatcher \<Rightarrow> ProposalBatcher option" where
  "run_input c p b =
     (let b1 = b\<lparr>buffer := buffer b @ [p]\<rparr> in
      if currentBatchSize b1 \<le> int (length (buffer b1)) then flush c b1 else Some b1)"

definition run_tick :: "flush_choice \<Rightarrow> ProposalBatcher \<Rightarrow> ProposalBatcher option" where
  "run_tick c b = map_option adjustParameters (flush c b)"

definition run_return :: "flush_choice \<Rightarrow> ProposalBatcher \<Rightarrow> ProposalBatcher option" where
  "run_return c b = map_option (\<lambda>b'. b'\<lparr>proposeC_closed := True\<rparr>) (flush c b)"

record BatchStats =
  TotalProposals :: int
  TotalBatches :: int
  AvgBatchSize :: rat
  CurrentLoad :: rat
  CurrentBatchSize :: int
  CurrentTimeout :: int
  BufferLen :: int

definition batcher_Stats :: "ProposalBatcher \<Rightarrow> BatchStats" where
  "batcher_Stats b =
     \<lparr>TotalProposals = proposalCount b, TotalBatches = batchCount b,
      AvgBatchSize = (if 0 < batchCount b then rat_of_int (proposalCount b) / rat_of_int (batchCount b) else 0),
      CurrentLoad = currentLoad b, CurrentBatchSize = currentBatchSize b,
      CurrentTimeout = currentTimeout b, BufferLen = int (length (buffer b))\<rparr>"

section \<open>Runs\<close>

text \<open>
  A step of the batcher together with its environment: the goroutine takes a case of its loop, the
  Raft node receives from the output channel, or \<^verbatim>\<open>Stop\<close> is called.
\<close>

datatype batcher_event = Input string | Tick | Return | Receive string | StopCalled

inductive batcher_step :: "ProposalBatcher \<Rightarrow> batcher_event \<Rightarrow> ProposalBatcher \<Rightarrow> bool" where
  step_input: "\<not> proposeC_closed b \<Longrightarrow> run_input c p b = Some b' \<Longrightarrow> batcher_step b (Input p) b'"
| step_tick: "\<not> proposeC_closed b \<Longrightarrow> run_tick c b = Some b' \<Longrightarrow> batcher_step b Tick b'"
| step_return: "\<not> proposeC_closed b \<Longrightarrow> run_return c b = Some b' \<Longrightarrow> batcher_step b Return b'"
| step_receive: "proposeC b = d # ds \<Longrightarrow> batcher_step b (Receive d) (b\<lparr>proposeC := ds\<rparr>)"
| step_stop: "batcher_Stop b = Some b' \<Longrightarrow> batcher_step b StopCalled b'"

inductive batcher_run :: "ProposalBatcher \<Rightarrow> batcher_event list \<Rightarrow> ProposalBatcher \<Rightarrow> bool" where
  run_start: "batcher_run b [] b"
| run_more: "batcher_run b es b1 \<Longrightarrow> batcher_step b1 e b2 \<Longrightarrow> batcher_run b (es @ [e]) b2"

fun inputs :: "batcher_event list \<Rightarrow> string list" where
  "inputs [] = []"
| "inputs (Input p # es) = p # inputs es"
| "inputs (_ # es) = inputs es"

fun received :: "batcher_event list \<Rightarrow> string list" where
  "received [] = []"
| "received (Receive d # es) = d # received es"
| "received (_ # es) = received es"

lemma inputs_append [simp]: "inputs (es @ fs) = inputs es @ inputs fs"
  by (induction es rule: inputs.induct) auto

lemma received_append [simp]: "received (es @ fs) = received es @ received fs"
  by (induction es rule: received.induct) auto

text \<open>What is in the channel and behind it are encoded batches, which make up the input with the buffer.\<close>

definition encoded :: "string list \<Rightarrow> string" where
  "encoded ps = projr (EncodeBatch ps)"

lemma EncodeBatch_total: "ps \<noteq> [] \<Longrightarrow> EncodeBatch ps = Inr (encoded ps)"
  by (auto simp: EncodeBatch_def encoded_def)

lemma flush_cases:
  assumes "flush c b = Some b'"
  obtains (idle) "buffer b = []" "b' = b"
  | (sent) "buffer b \<noteq> []" "length (proposeC b) < proposeC_cap"
      "b' = b\<lparr>buffer := [], proposalCount := proposalCount b + int (length (buffer b)), batchCount := batchCount b + 1,
              proposeC := proposeC b @ [encoded (buffer b)]\<rparr>"
  | (dropped) "buffer b \<noteq> []" "stopC_closed b"
      "b' = b\<lparr>buffer := [], proposalCount := proposalCount b + int (length (buffer b)), batchCount := batchCount b + 1\<rparr>"
  using assms
  by (cases "buffer b = []"; cases c)
    (auto simp: flush_def flush_select_def Let_def EncodeBatch_total split: if_splits)

lemma flush_empties: "flush c b = Some b' \<Longrightarrow> buffer b' = []"
  by (erule flush_cases) auto

text \<open>The parts that never change, and the ones that a flush leaves alone.\<close>

definition fixed_part :: "ProposalBatcher \<Rightarrow> int \<times> int \<times> int \<times> int \<times> rat" where
  "fixed_part b = (minBatchSize b, maxBatchSize b, minTimeout b, maxTimeout b, loadThreshold b)"

lemma flush_keeps:
  assumes "flush c b = Some b'"
  shows "fixed_part b' = fixed_part b" "currentLoad b' = currentLoad b" "currentBatchSize b' = currentBatchSize b"
    "currentTimeout b' = currentTimeout b" "stopC_closed b' = stopC_closed b" "proposeC_closed b' = proposeC_closed b"
  using assms by (auto elim!: flush_cases simp: fixed_part_def)

lemma trunc_int_of_int [simp]: "trunc_int (rat_of_int n) = n"
  by (simp add: trunc_int_def flip: of_int_minus)

text \<open>With an empty buffer and no load the parameters stay at their minimum.\<close>

lemma adjust_idle:
  assumes "buffer b = []" "currentLoad b = 0" "0 \<le> loadThreshold b"
  shows "adjustParameters b = b\<lparr>currentLoad := 0, currentBatchSize := minBatchSize b, currentTimeout := minTimeout b\<rparr>"
  using assms by (simp add: adjustParameters_def Let_def interpolate_def)

definition batcher_inv :: "BatchConfig \<Rightarrow> ProposalBatcher \<Rightarrow> bool" where
  "batcher_inv cfg b \<longleftrightarrow>
     fixed_part b = (MinBatchSize cfg, MaxBatchSize cfg, MinTimeout cfg, MaxTimeout cfg, LoadThreshold cfg) \<and>
     currentLoad b = 0 \<and> currentBatchSize b = MinBatchSize cfg \<and> currentTimeout b = MinTimeout cfg \<and>
     (buffer b \<noteq> [] \<longrightarrow> int (length (buffer b)) < MinBatchSize cfg) \<and>
     (proposeC_closed b \<longrightarrow> buffer b = [])"

lemma batcher_inv_new: "batcher_inv cfg (NewProposalBatcher cfg)"
  by (simp add: batcher_inv_def NewProposalBatcher_def fixed_part_def)

lemma batcher_inv_step:
  assumes "batcher_step b e b'" "batcher_inv cfg b" "0 \<le> LoadThreshold cfg"
  shows "batcher_inv cfg b'"
  using assms
proof cases
  case (step_input c p)
  show ?thesis
  proof (cases "currentBatchSize b \<le> int (Suc (length (buffer b)))")
    case True
    then have f: "flush c (b\<lparr>buffer := buffer b @ [p]\<rparr>) = Some b'" using step_input by (simp add: run_input_def Let_def)
    show ?thesis using flush_keeps[OF f] flush_empties[OF f] assms(2) by (simp add: batcher_inv_def fixed_part_def)
  next
    case False
    then show ?thesis using step_input assms(2) by (auto simp: run_input_def Let_def batcher_inv_def fixed_part_def)
  qed
next
  case (step_tick c)
  then obtain b1 where f: "flush c b = Some b1" and b': "b' = adjustParameters b1" by (auto simp: run_tick_def)
  have "b' = b1\<lparr>currentLoad := 0, currentBatchSize := minBatchSize b1, currentTimeout := minTimeout b1\<rparr>"
    unfolding b' using flush_keeps[OF f] flush_empties[OF f] assms(2,3)
    by (intro adjust_idle) (auto simp: batcher_inv_def fixed_part_def)
  then show ?thesis
    using flush_keeps[OF f] flush_empties[OF f] assms(2) by (auto simp: batcher_inv_def fixed_part_def)
next
  case (step_return c)
  then obtain b1 where f: "flush c b = Some b1" and b': "b' = b1\<lparr>proposeC_closed := True\<rparr>" by (auto simp: run_return_def)
  then show ?thesis
    using flush_keeps[OF f] flush_empties[OF f] assms(2) by (auto simp: batcher_inv_def fixed_part_def)
qed (auto simp: batcher_inv_def fixed_part_def batcher_Stop_def split: if_splits)

lemma batcher_run_inv:
  assumes "batcher_run (NewProposalBatcher cfg) es b" "0 \<le> LoadThreshold cfg"
  shows "batcher_inv cfg b"
proof -
  have "batcher_run b0 es b \<Longrightarrow> b0 = NewProposalBatcher cfg \<Longrightarrow> batcher_inv cfg b" for b0
    by (induction rule: batcher_run.induct) (auto intro: batcher_inv_new batcher_inv_step assms(2))
  then show ?thesis using assms(1) by blast
qed


lemma adjust_keeps: "proposeC (adjustParameters b) = proposeC b" "buffer (adjustParameters b) = buffer b"
    "stopC_closed (adjustParameters b) = stopC_closed b"
  by (simp_all add: adjustParameters_def Let_def)

lemma step_keeps_stop: "batcher_step b e b' \<Longrightarrow> stopC_closed b \<Longrightarrow> stopC_closed b'"
proof (induction rule: batcher_step.induct)
  case (step_input b c p b')
  then show ?case using flush_keeps(5)[of c "b\<lparr>buffer := buffer b @ [p]\<rparr>" b']
    by (auto simp: run_input_def Let_def split: if_splits)
next
  case (step_tick b c b')
  then show ?case by (auto simp: run_tick_def adjust_keeps dest: flush_keeps(5))
next
  case (step_return b c b')
  then show ?case by (auto simp: run_return_def dest: flush_keeps(5))
qed (auto simp: batcher_Stop_def split: if_splits)

definition accounted :: "BatchConfig \<Rightarrow> batcher_event list \<Rightarrow> ProposalBatcher \<Rightarrow> string list list \<Rightarrow> bool" where
  "accounted cfg es b batches \<longleftrightarrow>
     received es @ proposeC b = map encoded batches \<and> concat batches @ buffer b = inputs es \<and>
     (\<forall>ps \<in> set batches. ps \<noteq> [] \<and> int (length ps) \<le> max 1 (MinBatchSize cfg))"

lemma flush_accounted:
  assumes "flush c b = Some b'" "\<not> stopC_closed b" "accounted cfg es b batches"
    "buffer b \<noteq> [] \<Longrightarrow> int (length (buffer b)) \<le> max 1 (MinBatchSize cfg)"
  shows "\<exists>batches'. accounted cfg es b' batches'"
  using assms(1)
proof (cases rule: flush_cases)
  case sent
  then have "accounted cfg es b' (batches @ [buffer b])"
    using assms(3,4) by (auto simp: accounted_def simp flip: append_assoc)
  then show ?thesis by blast
qed (use assms in auto)

lemma step_accounted:
  assumes "batcher_step b e b'" "\<not> stopC_closed b'" "batcher_inv cfg b" "accounted cfg es b batches"
  shows "\<exists>batches'. accounted cfg (es @ [e]) b' batches'"
  using assms(1)
proof cases
  case (step_input c p)
  let ?b = "b\<lparr>buffer := buffer b @ [p]\<rparr>"
  have a: "accounted cfg (es @ [e]) ?b batches" using assms(4) step_input by (simp add: accounted_def)
  have l: "int (length (buffer ?b)) \<le> max 1 (MinBatchSize cfg)"
    using assms(3) by (cases "buffer b = []") (auto simp: batcher_inv_def)
  have ns: "\<not> stopC_closed ?b" using step_keeps_stop[OF assms(1)] assms(2) by auto
  show ?thesis
  proof (cases "currentBatchSize ?b \<le> int (length (buffer ?b))")
    case True
    then have "flush c ?b = Some b'" using step_input by (simp add: run_input_def Let_def)
    then show ?thesis using flush_accounted ns a l by blast
  next
    case False
    then show ?thesis using step_input a by (auto simp: run_input_def Let_def)
  qed
next
  case (step_tick c)
  then obtain b1 where f: "flush c b = Some b1" and b': "b' = adjustParameters b1" by (auto simp: run_tick_def)
  have "\<exists>batches'. accounted cfg (es @ [e]) b1 batches'"
    using step_tick assms(3,4) step_keeps_stop[OF assms(1)] assms(2)
    by (intro flush_accounted[OF f, of _ _ batches]) (auto simp: accounted_def batcher_inv_def)
  then show ?thesis by (simp add: accounted_def b' adjust_keeps)
next
  case (step_return c)
  then obtain b1 where f: "flush c b = Some b1" and b': "b' = b1\<lparr>proposeC_closed := True\<rparr>" by (auto simp: run_return_def)
  have "\<exists>batches'. accounted cfg (es @ [e]) b1 batches'"
    using step_return assms(3,4) step_keeps_stop[OF assms(1)] assms(2)
    by (intro flush_accounted[OF f, of _ _ batches]) (auto simp: accounted_def batcher_inv_def)
  then show ?thesis by (simp add: accounted_def b')
next
  case (step_receive d ds)
  then show ?thesis using assms(4) by (auto simp: accounted_def)
next
  case step_stop
  then show ?thesis using assms(2) by (auto simp: batcher_Stop_def split: if_splits)
qed

lemma run_accounted:
  assumes "batcher_run (NewProposalBatcher cfg) es b" "0 \<le> LoadThreshold cfg" "\<not> stopC_closed b"
  shows "\<exists>batches. accounted cfg es b batches"
proof -
  have "batcher_run b0 es b \<Longrightarrow> b0 = NewProposalBatcher cfg \<Longrightarrow> \<not> stopC_closed b \<Longrightarrow> \<exists>batches. accounted cfg es b batches" for b0
  proof (induction rule: batcher_run.induct)
    case (run_start b)
    then show ?case by (auto simp: accounted_def NewProposalBatcher_def intro!: exI[of _ "[]"])
  next
    case (run_more b es b1 e b2)
    then have "\<not> stopC_closed b1" using step_keeps_stop by blast
    then show ?case using run_more step_accounted batcher_run_inv[OF _ assms(2)] by blast
  qed
  then show ?thesis using assms by blast
qed

lemma decode_encoded_batch:
  assumes "ps \<noteq> []" "\<And>p. p \<in> set ps \<Longrightarrow> p \<noteq> [] \<and> utf8_valid p \<and> \<not> IsBatchProposal p"
  shows "DecodeBatch (encoded ps) = Inr ps"
proof (cases "2 \<le> length ps")
  case True
  have "map to_valid ps = ps" using assms by (auto intro!: map_idI simp: to_valid_fixed_iff)
  then show ?thesis using decode_encoded[OF True] EncodeBatch_total[OF assms(1)] by auto
next
  case False
  then obtain p where "ps = [p]" using assms(1) by (cases ps) (auto simp: Suc_le_eq)
  then show ?thesis using decode_single[of p] assms by (simp add: encoded_def EncodeBatch_def)
qed

section \<open>Bounds of the adapted parameters\<close>

lemma trunc_int_mono: "0 \<le> x \<Longrightarrow> x \<le> y \<Longrightarrow> trunc_int x \<le> trunc_int y"
  by (simp add: trunc_int_def floor_mono)

lemma interpolate_bounds:
  assumes "0 \<le> lo" "lo \<le> hi"
  shows "trunc_int lo \<le> interpolate v mn mx lo hi \<and> interpolate v mn mx lo hi \<le> trunc_int hi"
proof (cases "v \<le> mn \<or> mx \<le> v")
  case True
  then show ?thesis using assms trunc_int_mono[OF assms] by (auto simp: interpolate_def)
next
  case False
  define q where "q = (v - mn) / (mx - mn)"
  have q: "0 \<le> q" "q \<le> 1" using False by (auto simp: q_def)
  have "lo \<le> lo + q * (hi - lo)" "lo + q * (hi - lo) \<le> hi"
    using q assms mult_right_mono[OF q(2), of "hi - lo"] by auto
  then show ?thesis using False assms trunc_int_mono by (auto simp: interpolate_def q_def[symmetric])
qed

lemma convex_unit: "0 \<le> (a::rat) \<Longrightarrow> a \<le> 1 \<Longrightarrow> 0 \<le> x \<Longrightarrow> x \<le> 1 \<Longrightarrow> 0 \<le> y \<Longrightarrow> y \<le> 1 \<Longrightarrow>
    0 \<le> a * x + (1 - a) * y \<and> a * x + (1 - a) * y \<le> 1"
  using convex_bound_le[of x 1 y a "1 - a"] by (auto intro: add_nonneg_nonneg mult_nonneg_nonneg)


section \<open>Properties\<close>

definition sample_config :: BatchConfig where
  "sample_config = DefaultBatchConfig\<lparr>MinBatchSize := 2\<rparr>"

definition sample_events :: "batcher_event list" where
  "sample_events = [Input ''a'', Input ''b'', Input ''c'', Tick]"

lemma sample_run: "\<exists>b. batcher_run (NewProposalBatcher sample_config) sample_events b \<and> \<not> stopC_closed b"
proof -
  define b0 where "b0 = NewProposalBatcher sample_config"
  define b1 where "b1 = b0\<lparr>buffer := [''a'']\<rparr>"
  define b2 where "b2 = b0\<lparr>proposalCount := 2, batchCount := 1, proposeC := [encoded [''a'', ''b'']]\<rparr>"
  define b3 where "b3 = b2\<lparr>buffer := [''c'']\<rparr>"
  define b4 where "b4 = b2\<lparr>proposalCount := 3, batchCount := 2, proposeC := [encoded [''a'', ''b''], encoded [''c'']]\<rparr>"
  note d = b0_def b1_def b2_def b3_def b4_def NewProposalBatcher_def sample_config_def DefaultBatchConfig_def
  note r = run_input_def run_tick_def flush_def flush_select_def EncodeBatch_total proposeC_cap_def Let_def
  have s: "run_input ChooseSend ''a'' b0 = Some b1" "run_input ChooseSend ''b'' b1 = Some b2"
    "run_input ChooseSend ''c'' b2 = Some b3" by (simp_all add: d r)
  have "flush ChooseSend b3 = Some b4" by (simp add: d r)
  moreover have "adjustParameters b4 = b4" by (subst adjust_idle) (simp_all add: d)
  ultimately have t: "run_tick ChooseSend b3 = Some b4" by (simp add: run_tick_def)
  have o: "\<not> proposeC_closed b0" "\<not> proposeC_closed b1" "\<not> proposeC_closed b2" "\<not> proposeC_closed b3"
    by (simp_all add: d)
  have "batcher_run b0 (((([] @ [Input ''a'']) @ [Input ''b'']) @ [Input ''c'']) @ [Tick]) b4"
    by (rule run_more[OF run_more[OF run_more[OF run_more[OF run_start step_input[OF o(1) s(1)]]
        step_input[OF o(2) s(2)]] step_input[OF o(3) s(3)]] step_tick[OF o(4) t]])
  then show ?thesis by (auto simp: sample_events_def b0_def[symmetric]) (auto simp: d)
qed



text \<open>
  C39: the batch size never adapts. The timer case of the loop flushes the buffer before it measures
  the load from the buffer, so the measured load is always zero: in every reachable state the load is
  zero, the batch size and the timeout are the configured minima, and the buffer is shorter than the
  minimal batch. Without \<^verbatim>\<open>Stop\<close> everything sent is a batch of at most the minimal size, and with the
  default configuration every proposal is sent alone.
\<close>

theorem batch_size_never_adapts:
  assumes "batcher_run (NewProposalBatcher config) events b"
    and "0 \<le> LoadThreshold config" "0 < MaxBatchSize config"
  shows "currentLoad b = 0 \<and> currentBatchSize b = MinBatchSize config \<and> currentTimeout b = MinTimeout config \<and>
    (buffer b = [] \<or> int (length (buffer b)) < MinBatchSize config) \<and>
    (\<not> stopC_closed b \<longrightarrow>
       (\<exists>batches. received events @ proposeC b = map (\<lambda>ps. projr (EncodeBatch ps)) batches \<and>
          concat batches @ buffer b = inputs events \<and>
          list_all (\<lambda>ps. ps \<noteq> [] \<and> int (length ps) \<le> max 1 (MinBatchSize config)) batches))"
proof -
  have "\<not> stopC_closed b \<longrightarrow> (\<exists>batches. accounted config events b batches)" using run_accounted[OF assms(1,2)] by blast
  then show ?thesis
    using batcher_run_inv[OF assms(1,2)]
    unfolding batcher_inv_def accounted_def encoded_def list_all_iff by blast
qed

theorem batch_size_never_adapts_witness:
  "\<exists>b. batcher_run (NewProposalBatcher sample_config) sample_events b \<and> currentBatchSize b = 2"
proof -
  obtain b where b: "batcher_run (NewProposalBatcher sample_config) sample_events b" using sample_run by blast
  have c: "0 \<le> LoadThreshold sample_config" "0 < MaxBatchSize sample_config" "MinBatchSize sample_config = 2"
    by (simp_all add: sample_config_def DefaultBatchConfig_def)
  show ?thesis using b batch_size_never_adapts[OF b c(1,2)] c(3) by auto
qed

text \<open>
  The parameters that \<^verbatim>\<open>adjustParameters\<close> computes stay within their bounds. For a buffer of at
  most the maximal batch size and a load between zero and one, the new load is again between zero
  and one, the batch size lies between the configured minimum and maximum and so does the timeout,
  provided the minima are at most half of the maxima.
\<close>

theorem adjustParameters_bounds:
  assumes "0 < maxBatchSize b" "int (length (buffer b)) \<le> maxBatchSize b"
    and "0 \<le> currentLoad b" "currentLoad b \<le> 1"
    and "0 \<le> minBatchSize b" "2 * minBatchSize b \<le> maxBatchSize b"
    and "0 \<le> minTimeout b" "2 * minTimeout b \<le> maxTimeout b"
  shows "let b' = adjustParameters b in
    0 \<le> currentLoad b' \<and> currentLoad b' \<le> 1 \<and>
    minBatchSize b \<le> currentBatchSize b' \<and> currentBatchSize b' \<le> maxBatchSize b \<and>
    minTimeout b \<le> currentTimeout b' \<and> currentTimeout b' \<le> maxTimeout b"
proof -
  define u where "u = rat_of_nat (length (buffer b)) / rat_of_int (maxBatchSize b)"
  have "rat_of_int (int (length (buffer b))) \<le> rat_of_int (maxBatchSize b)" using assms(2) by linarith
  then have u: "0 \<le> u" "u \<le> 1" using assms(1) by (simp_all add: u_def)
  have half: "rat_of_int mn \<le> rat_of_int mx / 2" "0 \<le> rat_of_int mn" "0 \<le> rat_of_int mx / 2"
    "rat_of_int mx / 2 \<le> rat_of_int mx"
    if "2 * mn \<le> mx" "0 \<le> mn" for mn mx :: int
  proof -
    have "rat_of_int (2 * mn) \<le> rat_of_int mx" using that by linarith
    then show "rat_of_int mn \<le> rat_of_int mx / 2" "0 \<le> rat_of_int mn" "0 \<le> rat_of_int mx / 2"
      "rat_of_int mx / 2 \<le> rat_of_int mx" using that by simp_all
  qed
  have i: "mn \<le> interpolate v p q (rat_of_int mx / 2) (rat_of_int mx)"
      "interpolate v p q (rat_of_int mx / 2) (rat_of_int mx) \<le> mx"
      "mn \<le> interpolate v p q (rat_of_int mn) (rat_of_int mx / 2)"
      "interpolate v p q (rat_of_int mn) (rat_of_int mx / 2) \<le> mx"
    if "2 * mn \<le> mx" "0 \<le> mn" for v p q mn mx
    using interpolate_bounds[OF half(3,4)[OF that], of v p q] interpolate_bounds[OF half(2,1)[OF that], of v p q]
      trunc_int_mono[OF half(2,1)[OF that]] trunc_int_mono[OF half(3,4)[OF that]] by auto
  have load: "0 \<le> a * u + (1 - a) * currentLoad b \<and> a * u + (1 - a) * currentLoad b \<le> 1" if "a \<in> {7/10, 1/2, 3/10}" for a
    using that u assms(3,4) by (intro convex_unit) auto
  show ?thesis
    unfolding adjustParameters_def u_def[symmetric] Let_def
    using i[OF assms(6,5)] i[OF assms(8,7)] load by (auto simp del: of_int_le_iff)
qed

theorem adjustParameters_bounds_witness:
  "let b = (NewProposalBatcher DefaultBatchConfig)\<lparr>buffer := replicate 200 ''p''\<rparr>; b' = adjustParameters b
   in 1 \<le> currentBatchSize b' \<and> currentBatchSize b' \<le> 256"
  using adjustParameters_bounds[of "(NewProposalBatcher DefaultBatchConfig)\<lparr>buffer := replicate 200 ''p''\<rparr>"]
  by (simp add: NewProposalBatcher_def DefaultBatchConfig_def Let_def)

end
