(* ===== verification/Auth_Codec.thy ===== *)
theory Auth_Codec
  imports Go_Json Decimal
begin

text \<open>
  The data of authentication (\<^verbatim>\<open>api/etcd/auth_types.go\<close>) and how it is written to the store: users, roles
  and tokens as JSON, byte slices in base64 (\<^verbatim>\<open>encoding/base64\<close>). The lemmas show that what was written
  is read back.
\<close>

section \<open>Base64\<close>

text \<open>The alphabets of \<^verbatim>\<open>base64.StdEncoding\<close> and \<^verbatim>\<open>base64.URLEncoding\<close> differ in the last two digits.\<close>

definition b64_digit :: "char \<Rightarrow> char \<Rightarrow> nat \<Rightarrow> char" where
  "b64_digit p q n =
     (if n < 26 then char_of (65 + n)
      else if n < 52 then char_of (71 + n)
      else if n < 62 then char_of (n - 4)
      else if n = 62 then p else q)"

definition b64_val :: "char \<Rightarrow> char \<Rightarrow> char \<Rightarrow> nat option" where
  "b64_val p q c =
     (if 65 \<le> code c \<and> code c \<le> 90 then Some (code c - 65)
      else if 97 \<le> code c \<and> code c \<le> 122 then Some (code c - 71)
      else if 48 \<le> code c \<and> code c \<le> 57 then Some (code c + 4)
      else if c = p then Some 62 else if c = q then Some 63 else None)"

fun b64_encode :: "(nat \<Rightarrow> char) \<Rightarrow> string \<Rightarrow> string" where
  "b64_encode dig [] = []"
| "b64_encode dig [a] =
     (let n = code a * 16 in [dig (n div 64), dig (n mod 64), CHR ''='', CHR ''=''])"
| "b64_encode dig [a, b] =
     (let n = (code a * 256 + code b) * 4
      in [dig (n div 4096), dig (n div 64 mod 64), dig (n mod 64), CHR ''=''])"
| "b64_encode dig (a # b # c # s) =
     (let n = code a * 65536 + code b * 256 + code c
      in dig (n div 262144) # dig (n div 4096 mod 64) # dig (n div 64 mod 64) # dig (n mod 64) # b64_encode dig s)"

fun b64_decode_quads :: "(char \<Rightarrow> nat option) \<Rightarrow> string \<Rightarrow> string option" where
  "b64_decode_quads val [] = Some []"
| "b64_decode_quads val (a # b # c # d # s) =
     (case (val a, val b) of
        (Some p, Some q) \<Rightarrow>
          if d = CHR ''='' then
            if s \<noteq> [] then None
            else if c = CHR ''='' then Some [char_of ((p * 64 + q) div 16)]
            else (case val c of
                    None \<Rightarrow> None
                  | Some r \<Rightarrow> (let n = (p * 4096 + q * 64 + r) div 4 in Some [char_of (n div 256), char_of (n mod 256)]))
          else
            (case (val c, val d) of
               (Some r, Some t) \<Rightarrow>
                 (let n = p * 262144 + q * 4096 + r * 64 + t
                  in map_option (\<lambda>u. char_of (n div 65536) # char_of (n div 256 mod 256) # char_of (n mod 256) # u)
                       (b64_decode_quads val s))
             | _ \<Rightarrow> None)
      | _ \<Rightarrow> None)"
| "b64_decode_quads val _ = None"

definition b64_std_encode :: "string \<Rightarrow> string" where
  "b64_std_encode = b64_encode (b64_digit (CHR ''+'') (CHR ''/''))"

definition b64_url_encode :: "string \<Rightarrow> string" where
  "b64_url_encode = b64_encode (b64_digit (CHR ''-'') (CHR ''_''))"

text \<open>The decoder skips line breaks.\<close>

definition b64_std_decode :: "string \<Rightarrow> string option" where
  "b64_std_decode s = b64_decode_quads (b64_val (CHR ''+'') (CHR ''/'')) (filter (\<lambda>c. code c \<notin> {10, 13}) s)"

section \<open>Types\<close>

record UserInfo =
  ui_Name :: string
  PasswordHash :: string
  ui_Roles :: "string list"
  ui_CreatedAt :: int

text \<open>\<^verbatim>\<open>PermissionType\<close> is an \<^verbatim>\<open>int\<close> with three constants.\<close>

definition PermissionRead :: int where "PermissionRead = 0"
definition PermissionWrite :: int where "PermissionWrite = 1"
definition PermissionReadWrite :: int where "PermissionReadWrite = 2"

record Permission =
  pm_Type :: int
  pm_Key :: string
  pm_RangeEnd :: string

record RoleInfo =
  ri_Name :: string
  Permissions :: "Permission list"
  ri_CreatedAt :: int

record TokenInfo =
  ti_Token :: string
  Username :: string
  ExpiresAt :: int

definition authEnabledKey :: string where "authEnabledKey = ''/__auth/enabled''"
definition authUserPrefix :: string where "authUserPrefix = ''/__auth/users/''"
definition authRolePrefix :: string where "authRolePrefix = ''/__auth/roles/''"
definition authTokenPrefix :: string where "authTokenPrefix = ''/__auth/tokens/''"

section \<open>JSON form\<close>

text \<open>
  A nil slice and an empty slice are one value here; \<^verbatim>\<open>json.Marshal\<close> writes the former as \<open>null\<close>, which reads
  back as the same value.
\<close>

definition user_json :: "UserInfo \<Rightarrow> json" where
  "user_json u =
     JObj [(''name'', JStr (ui_Name u)), (''password_hash'', JStr (PasswordHash u)),
           (''roles'', JArr (map JStr (ui_Roles u))), (''created_at'', JNum (show_int (ui_CreatedAt u)))]"

definition permission_json :: "Permission \<Rightarrow> json" where
  "permission_json p =
     JObj [(''type'', JNum (show_int (pm_Type p))), (''key'', JStr (b64_std_encode (pm_Key p))),
           (''range_end'', JStr (b64_std_encode (pm_RangeEnd p)))]"

definition role_json :: "RoleInfo \<Rightarrow> json" where
  "role_json r =
     JObj [(''name'', JStr (ri_Name r)), (''permissions'', JArr (map permission_json (Permissions r))),
           (''created_at'', JNum (show_int (ri_CreatedAt r)))]"

definition token_json :: "TokenInfo \<Rightarrow> json" where
  "token_json t =
     JObj [(''token'', JStr (ti_Token t)), (''username'', JStr (Username t)),
           (''expires_at'', JNum (show_int (ExpiresAt t)))]"

definition decode_int64 :: "int \<Rightarrow> json \<Rightarrow> int option" where
  "decode_int64 old v = (case v of JNum n \<Rightarrow> parse_int64 n | JNull \<Rightarrow> Some old | _ \<Rightarrow> None)"

definition decode_bytes :: "json \<Rightarrow> string option" where
  "decode_bytes v = (case v of JStr s \<Rightarrow> b64_std_decode s | JNull \<Rightarrow> Some [] | _ \<Rightarrow> None)"

definition decode_user_field :: "UserInfo \<Rightarrow> string \<times> json \<Rightarrow> UserInfo option" where
  "decode_user_field u m =
     (if field_matches ''name'' (fst m) then map_option (\<lambda>s. u\<lparr>ui_Name := s\<rparr>) (decode_string (ui_Name u) (snd m))
      else if field_matches ''password_hash'' (fst m) then
        map_option (\<lambda>s. u\<lparr>PasswordHash := s\<rparr>) (decode_string (PasswordHash u) (snd m))
      else if field_matches ''roles'' (fst m) then
        (case snd m of
           JArr vs \<Rightarrow> map_option (\<lambda>rs. u\<lparr>ui_Roles := rs\<rparr>) (decode_strings (ui_Roles u) vs)
         | JNull \<Rightarrow> Some (u\<lparr>ui_Roles := []\<rparr>)
         | _ \<Rightarrow> None)
      else if field_matches ''created_at'' (fst m) then
        map_option (\<lambda>n. u\<lparr>ui_CreatedAt := n\<rparr>) (decode_int64 (ui_CreatedAt u) (snd m))
      else Some u)"

definition decode_permission_field :: "Permission \<Rightarrow> string \<times> json \<Rightarrow> Permission option" where
  "decode_permission_field p m =
     (if field_matches ''type'' (fst m) then map_option (\<lambda>n. p\<lparr>pm_Type := n\<rparr>) (decode_int64 (pm_Type p) (snd m))
      else if field_matches ''key'' (fst m) then map_option (\<lambda>s. p\<lparr>pm_Key := s\<rparr>) (decode_bytes (snd m))
      else if field_matches ''range_end'' (fst m) then map_option (\<lambda>s. p\<lparr>pm_RangeEnd := s\<rparr>) (decode_bytes (snd m))
      else Some p)"

definition zero_permission :: Permission where
  "zero_permission = \<lparr>pm_Type = 0, pm_Key = [], pm_RangeEnd = []\<rparr>"

fun decode_permissions :: "Permission list \<Rightarrow> json list \<Rightarrow> Permission list option" where
  "decode_permissions old [] = Some []"
| "decode_permissions old (v # vs) =
     (case decode_object decode_permission_field (case old of [] \<Rightarrow> zero_permission | p # _ \<Rightarrow> p) v of
        None \<Rightarrow> None
      | Some p \<Rightarrow> map_option (\<lambda>ps. p # ps) (decode_permissions (tl old) vs))"

definition decode_role_field :: "RoleInfo \<Rightarrow> string \<times> json \<Rightarrow> RoleInfo option" where
  "decode_role_field r m =
     (if field_matches ''name'' (fst m) then map_option (\<lambda>s. r\<lparr>ri_Name := s\<rparr>) (decode_string (ri_Name r) (snd m))
      else if field_matches ''permissions'' (fst m) then
        (case snd m of
           JArr vs \<Rightarrow> map_option (\<lambda>ps. r\<lparr>Permissions := ps\<rparr>) (decode_permissions (Permissions r) vs)
         | JNull \<Rightarrow> Some (r\<lparr>Permissions := []\<rparr>)
         | _ \<Rightarrow> None)
      else if field_matches ''created_at'' (fst m) then
        map_option (\<lambda>n. r\<lparr>ri_CreatedAt := n\<rparr>) (decode_int64 (ri_CreatedAt r) (snd m))
      else Some r)"

definition decode_token_field :: "TokenInfo \<Rightarrow> string \<times> json \<Rightarrow> TokenInfo option" where
  "decode_token_field t m =
     (if field_matches ''token'' (fst m) then map_option (\<lambda>s. t\<lparr>ti_Token := s\<rparr>) (decode_string (ti_Token t) (snd m))
      else if field_matches ''username'' (fst m) then
        map_option (\<lambda>s. t\<lparr>Username := s\<rparr>) (decode_string (Username t) (snd m))
      else if field_matches ''expires_at'' (fst m) then
        map_option (\<lambda>n. t\<lparr>ExpiresAt := n\<rparr>) (decode_int64 (ExpiresAt t) (snd m))
      else Some t)"

definition unmarshal_user :: "string \<Rightarrow> UserInfo option" where
  "unmarshal_user data =
     Option.bind (parse_json data)
       (decode_object decode_user_field \<lparr>ui_Name = [], PasswordHash = [], ui_Roles = [], ui_CreatedAt = 0\<rparr>)"

definition unmarshal_role :: "string \<Rightarrow> RoleInfo option" where
  "unmarshal_role data =
     Option.bind (parse_json data) (decode_object decode_role_field \<lparr>ri_Name = [], Permissions = [], ri_CreatedAt = 0\<rparr>)"

definition unmarshal_token :: "string \<Rightarrow> TokenInfo option" where
  "unmarshal_token data =
     Option.bind (parse_json data) (decode_object decode_token_field \<lparr>ti_Token = [], Username = [], ExpiresAt = 0\<rparr>)"

section \<open>Round trips\<close>

lemma b64_val_digit:
  assumes "n < 64" "code p \<in> {43, 45}" "code q \<in> {47, 95}"
  shows "b64_val p q (b64_digit p q n) = Some n"
  using assms by (auto simp: b64_val_def b64_digit_def of_char_of)

lemma b64_digit_not_special:
  assumes "n < 64" "code p \<in> {43, 45}" "code q \<in> {47, 95}"
  shows "code (b64_digit p q n) \<notin> {10, 13, 61}" "code (b64_digit p q n) < 128"
  using assms by (auto simp: b64_digit_def of_char_of)


abbreviation std_digit :: "nat \<Rightarrow> char" where
  "std_digit \<equiv> b64_digit (CHR ''+'') (CHR ''/'')"

abbreviation std_val :: "char \<Rightarrow> nat option" where
  "std_val \<equiv> b64_val (CHR ''+'') (CHR ''/'')"

lemma std_val_digit [simp]: "n < 64 \<Longrightarrow> std_val (std_digit n) = Some n"
  by (rule b64_val_digit) auto

lemma std_digit_neq [simp]: "n < 64 \<Longrightarrow> std_digit n \<noteq> CHR ''=''"
  using b64_digit_not_special(1)[of n "CHR ''+''" "CHR ''/''"] by auto

lemma quad_digits:
  assumes "n < 16777216"
  shows "n div 262144 < 64" "(n::nat) div 262144 * 262144 + n div 4096 mod 64 * 4096 + n div 64 mod 64 * 64 + n mod 64 = n"
proof -
  show "n div 262144 < 64" using assms by (simp add: less_mult_imp_div_less)
  have a: "n = n div 64 * 64 + n mod 64" by simp
  have b: "n div 64 = n div 4096 * 64 + n div 64 mod 64"
    using div_mult_mod_eq[of "n div 64" 64] by (simp add: div_mult2_eq[symmetric])
  have c: "n div 4096 = n div 262144 * 64 + n div 4096 mod 64"
    using div_mult_mod_eq[of "n div 4096" 64] by (simp add: div_mult2_eq[symmetric])
  show "n div 262144 * 262144 + n div 4096 mod 64 * 4096 + n div 64 mod 64 * 64 + n mod 64 = n"
    using a b c by linarith
qed

lemma three_bytes:
  assumes "n = code a * 65536 + code b * 256 + code c"
  shows "n < 16777216" "char_of (n div 65536) = a" "char_of (n div 256 mod 256) = b" "char_of (n mod 256) = c"
proof -
  have l: "code a < 256" "code b < 256" "code c < 256" by simp_all
  show "n < 16777216" using l assms by linarith
  have "code b * 256 + code c < 65536" using l by linarith
  then have "n div 65536 = code a" using assms by (intro div_nat_eqI) auto
  then show "char_of (n div 65536) = a" by simp
  have "n div 256 = code a * 256 + code b" using l assms by (intro div_nat_eqI) auto
  then show "char_of (n div 256 mod 256) = b" by simp
  have "n = (code a * 256 + code b) * 256 + code c" using assms by simp
  then show "char_of (n mod 256) = c" by (simp only: mod_mult_self3) simp
qed

lemma char_of_last: "char_of (x * 256 + code b) = b"
  by (simp add: char_of_eq_iff take_bit_eq_mod)

lemma quad_decode:
  assumes "p < 64" "q < 64" "r < 64" "t < 64" "n = p * 262144 + q * 4096 + r * 64 + t"
  shows "b64_decode_quads std_val (std_digit p # std_digit q # std_digit r # std_digit t # s) =
    map_option (\<lambda>u. char_of (n div 65536) # char_of (n div 256 mod 256) # char_of (n mod 256) # u) (b64_decode_quads std_val s)"
  using assms by (simp add: Let_def)

lemma b64_quads_roundtrip: "b64_decode_quads std_val (b64_encode std_digit s) = Some s"
proof (induction "std_digit" s rule: b64_encode.induct)
  case 1
  show ?case by simp
next
  case (2 a)
  have l: "code a * 16 div 64 < 64" using code_less[of a] by linarith
  have "code a * 16 div 64 * 64 + code a * 16 mod 64 = code a * 16" by (rule div_mult_mod_eq)
  then show ?case using l by (simp add: Let_def)
next
  case (3 a b)
  define n where "n = (code a * 256 + code b) * 4"
  have "code a * 256 + code b < 65536" using code_less[of a] code_less[of b] by linarith
  then have "n < 262144" unfolding n_def by simp
  then have l: "n div 4096 < 64" by (simp add: less_mult_imp_div_less)
  have q: "n div 4096 * 4096 + n div 64 mod 64 * 64 + n mod 64 = n"
  proof -
    have "n = n div 64 * 64 + n mod 64" by simp
    moreover have "n div 64 = n div 4096 * 64 + n div 64 mod 64"
      using div_mult_mod_eq[of "n div 64" 64] by (simp add: div_mult2_eq[symmetric])
    ultimately show ?thesis by linarith
  qed
  have "n div 4 = code a * 256 + code b" by (simp add: n_def)
  moreover have "(code a * 256 + code b) div 256 = code a" "(code a * 256 + code b) mod 256 = code b"
    using code_less[of b] by simp_all
  ultimately have "char_of (n div 4 div 256) = a" "char_of (n div 4) = b" using char_of_last by simp_all
  then show ?case using l q unfolding b64_encode.simps Let_def n_def[symmetric] by simp
next
  case (4 a b c s)
  define n where n: "n = code a * 65536 + code b * 256 + code c"
  note t = three_bytes[OF n] and q = quad_digits[OF three_bytes(1)[OF n]]
  have "b64_decode_quads std_val (std_digit (n div 262144) # std_digit (n div 4096 mod 64) # std_digit (n div 64 mod 64) #
      std_digit (n mod 64) # b64_encode std_digit s) =
    map_option (\<lambda>u. char_of (n div 65536) # char_of (n div 256 mod 256) # char_of (n mod 256) # u)
      (b64_decode_quads std_val (b64_encode std_digit s))"
    by (rule quad_decode) (use q in auto)
  moreover have "b64_decode_quads std_val (b64_encode std_digit s) = Some s" by (rule 4[OF refl])
  ultimately show ?case unfolding b64_encode.simps Let_def n[symmetric] by (simp only: t option.map)
qed

lemma b64_encode_chars: "set (b64_encode std_digit s) \<subseteq> insert (CHR ''='') (std_digit ` {..<64})"
proof (induction "std_digit" s rule: b64_encode.induct)
  case (2 a)
  have "code a * 16 div 64 < 64" using code_less[of a] by linarith
  then show ?case by (auto simp: Let_def intro!: imageI)
next
  case (3 a b)
  have "code a * 256 + code b < 65536" using code_less[of a] code_less[of b] by linarith
  then have "(code a * 256 + code b) * 4 div 4096 < 64" by (simp add: less_mult_imp_div_less)
  then show ?case by (auto simp: Let_def intro!: imageI)
next
  case (4 a b c s)
  then show ?case using quad_digits(1)[OF three_bytes(1)[OF refl], of a b c] by (auto simp: Let_def intro!: imageI)
qed simp

lemma b64_std_chars:
  assumes "c \<in> set (b64_std_encode s)"
  shows "code c < 128" "code c \<notin> {10, 13}"
  using assms b64_encode_chars[of s] b64_digit_not_special[of _ "CHR ''+''" "CHR ''/''"]
  by (auto simp: b64_std_encode_def dest!: subsetD)

lemma ascii_valid: "list_all (\<lambda>c. code c < 128) s \<Longrightarrow> utf8_valid s"
  by (induction s) (simp_all add: utf8_valid.simps)

lemma b64_std_valid [simp]: "to_valid (b64_std_encode s) = b64_std_encode s"
  by (simp add: to_valid_fixed_iff ascii_valid list_all_iff b64_std_chars)

lemma b64_std_roundtrip: "b64_std_decode (b64_std_encode s) = Some s"
proof -
  have "filter (\<lambda>c. code c \<notin> {10, 13}) (b64_std_encode s) = b64_std_encode s"
    using b64_std_chars(2) by (simp add: filter_id_conv)
  then show ?thesis unfolding b64_std_decode_def by (simp add: b64_std_encode_def b64_quads_roundtrip)
qed

lemma show_int_literal: "int_literal (show_int n)"
proof -
  have d: "list_all is_digit (show_nat m)" for m
    using show_nat_digits[of m] by (simp add: is_digit_def[abs_def])
  have h: "hd (show_nat m) = CHR ''0'' \<longrightarrow> tl (show_nat m) = []" for m
    using show_nat_head(2)[of m] by (auto simp: show_nat.simps[of 0])
  have m: "hd (show_nat m) \<noteq> CHR ''-''" for m
    using d[of m] show_nat_head(1)[of m] by (cases "show_nat m") (auto simp: is_digit_def)
  have "int_literal (show_nat k)" "int_literal (CHR ''-'' # show_nat k)" for k
    using d[of k] h[of k] m[of k] show_nat_head(1)[of k]
    by (cases "show_nat k"; simp add: int_literal_def)+
  then show ?thesis by (simp add: show_int_def)
qed

lemma auth_field_names:
  "to_valid ''name'' = ''name''" "to_valid ''password_hash'' = ''password_hash''" "to_valid ''roles'' = ''roles''"
  "to_valid ''created_at'' = ''created_at''" "to_valid ''type'' = ''type''" "to_valid ''key'' = ''key''"
  "to_valid ''range_end'' = ''range_end''" "to_valid ''permissions'' = ''permissions''" "to_valid ''token'' = ''token''"
  "to_valid ''username'' = ''username''" "to_valid ''expires_at'' = ''expires_at''"
  by code_simp+


text \<open>The strings of a stored structure are valid UTF-8 and its integers have 64 bits.\<close>

definition user_ok :: "UserInfo \<Rightarrow> bool" where
  "user_ok u \<longleftrightarrow> utf8_valid (ui_Name u) \<and> utf8_valid (PasswordHash u) \<and> list_all utf8_valid (ui_Roles u) \<and>
     int64_range (ui_CreatedAt u)"

definition role_ok :: "RoleInfo \<Rightarrow> bool" where
  "role_ok r \<longleftrightarrow> utf8_valid (ri_Name r) \<and> list_all (\<lambda>p. int64_range (pm_Type p)) (Permissions r) \<and>
     int64_range (ri_CreatedAt r)"

definition token_ok :: "TokenInfo \<Rightarrow> bool" where
  "token_ok t \<longleftrightarrow> utf8_valid (ti_Token t) \<and> utf8_valid (Username t) \<and> int64_range (ExpiresAt t)"

lemma valid_id: "utf8_valid s \<Longrightarrow> to_valid s = s"
  by (simp add: to_valid_fixed_iff)

lemma auth_field_matches:
  "field_matches ''name'' ''name''" "field_matches ''password_hash'' ''password_hash''"
  "field_matches ''roles'' ''roles''" "field_matches ''created_at'' ''created_at''"
  "field_matches ''type'' ''type''" "field_matches ''key'' ''key''" "field_matches ''range_end'' ''range_end''"
  "field_matches ''permissions'' ''permissions''" "field_matches ''token'' ''token''"
  "field_matches ''username'' ''username''" "field_matches ''expires_at'' ''expires_at''"
  by (simp_all add: field_matches_def)

lemma auth_field_mismatches:
  "\<not> field_matches ''name'' ''password_hash''" "\<not> field_matches ''name'' ''roles''" "\<not> field_matches ''name'' ''created_at''"
  "\<not> field_matches ''password_hash'' ''roles''" "\<not> field_matches ''password_hash'' ''created_at''"
  "\<not> field_matches ''roles'' ''created_at''" "\<not> field_matches ''name'' ''permissions''"
  "\<not> field_matches ''permissions'' ''created_at''" "\<not> field_matches ''type'' ''key''" "\<not> field_matches ''type'' ''range_end''"
  "\<not> field_matches ''key'' ''range_end''" "\<not> field_matches ''token'' ''username''"
  "\<not> field_matches ''token'' ''expires_at''" "\<not> field_matches ''username'' ''expires_at''"
  by code_simp+

lemmas auth_fields = auth_field_names auth_field_matches auth_field_mismatches

lemma decode_show_int: "int64_range n \<Longrightarrow> decode_int64 old (JNum (show_int n)) = Some n"
  by (simp add: decode_int64_def int64_range_def parse_show_int)

lemma map_valid_id: "list_all utf8_valid xs \<Longrightarrow> map (\<lambda>x. JStr (to_valid x)) xs = map JStr xs"
  by (simp add: list_all_iff valid_id)

lemma user_roundtrip:
  assumes "user_ok u"
  shows "unmarshal_user (json_print (user_json u)) = Some u"
proof -
  have ok: "json_ok 0 (user_json u)" by (auto simp: user_json_def max_nesting_def show_int_literal)
  have v: "json_valid (user_json u) = user_json u"
    using assms by (simp add: user_json_def user_ok_def valid_id auth_fields map_valid_id comp_def)
  show ?thesis
    unfolding unmarshal_user_def parse_json_print[OF ok] v
    using assms
    by (simp add: user_json_def user_ok_def decode_object_def decode_user_field_def auth_fields decode_string_def
        decode_strings_map decode_show_int)
qed

lemma permission_valid: "json_valid (permission_json p) = permission_json p"
  by (simp add: permission_json_def auth_fields)

lemma decode_permission:
  "int64_range (pm_Type p) \<Longrightarrow> decode_object decode_permission_field old (permission_json p) = Some p"
  by (simp add: permission_json_def decode_object_def decode_permission_field_def auth_fields decode_show_int
      decode_bytes_def b64_std_roundtrip)

lemma decode_permissions_map:
  "list_all (\<lambda>p. int64_range (pm_Type p)) ps \<Longrightarrow> decode_permissions old (map permission_json ps) = Some ps"
  by (induction ps arbitrary: old) (auto simp: decode_permission)

lemma role_roundtrip:
  assumes "role_ok r"
  shows "unmarshal_role (json_print (role_json r)) = Some r"
proof -
  have ok: "json_ok 0 (role_json r)" by (auto simp: role_json_def permission_json_def max_nesting_def show_int_literal)
  have v: "json_valid (role_json r) = role_json r"
    using assms by (simp add: role_json_def role_ok_def valid_id auth_fields permission_valid comp_def)
  show ?thesis
    unfolding unmarshal_role_def parse_json_print[OF ok] v
    using assms
    by (simp add: role_json_def role_ok_def decode_object_def decode_role_field_def auth_fields decode_string_def
        decode_permissions_map decode_show_int)
qed

lemma token_roundtrip:
  assumes "token_ok t"
  shows "unmarshal_token (json_print (token_json t)) = Some t"
proof -
  have ok: "json_ok 0 (token_json t)" by (auto simp: token_json_def max_nesting_def show_int_literal)
  have v: "json_valid (token_json t) = token_json t"
    using assms by (simp add: token_json_def token_ok_def valid_id auth_fields)
  show ?thesis
    unfolding unmarshal_token_def parse_json_print[OF ok] v
    using assms
    by (simp add: token_json_def token_ok_def decode_object_def decode_token_field_def auth_fields decode_string_def
        decode_show_int)
qed

end
