(* ===== verification/Store_Interface.thy ===== *)
theory Store_Interface
  imports Memory_Refinement
begin

text \<open>
  The store interface (\<^verbatim>\<open>internal/kvstore/store.go\<close>) as the services above it use it: a record of operations
  over an abstract state, and a contract that says what reads, puts and deletions mean for the key
  space. The in-memory engine fulfils the contract.
\<close>

section \<open>Operations\<close>

record ('s, 'e) store_ops =
  st_Range :: "string \<Rightarrow> string \<Rightarrow> int \<Rightarrow> int \<Rightarrow> 's \<Rightarrow> 'e + range_response"
  st_PutWithLease :: "string \<Rightarrow> string \<Rightarrow> int \<Rightarrow> 's \<Rightarrow> 's \<times> ('e + int \<times> key_value option)"
  st_DeleteRange :: "string \<Rightarrow> string \<Rightarrow> 's \<Rightarrow> 's \<times> ('e + int \<times> key_value list \<times> int)"
  st_Txn :: "compare list \<Rightarrow> op list \<Rightarrow> op list \<Rightarrow> 's \<Rightarrow> 's \<times> ('e + txn_response)"
  st_Compact :: "int \<Rightarrow> 's \<Rightarrow> 's \<times> ('e + unit)"
  st_CurrentRevision :: "'s \<Rightarrow> int"
  st_GetRaftStatus :: "'s \<Rightarrow> raft_status"

definition covers :: "string \<Rightarrow> string \<Rightarrow> string \<Rightarrow> bool" where
  "covers key rangeEnd k \<longleftrightarrow> (if rangeEnd = [] then k = key else in_key_range k key rangeEnd)"

definition pairs :: "range_response \<Rightarrow> (string \<times> string) list" where
  "pairs r = map (\<lambda>kv. (kv_Key kv, kv_Value kv)) (rr_Kvs r)"

section \<open>Contract\<close>

text \<open>
  A failing write leaves the key space as it is. A read of one key ignores the limit; an unlimited
  read of an interval answers every entry in it once.
\<close>

locale kv_store =
  fixes S :: "('s, 'e) store_ops"
    and view :: "'s \<Rightarrow> string \<rightharpoonup> string"
    and ok :: "'s \<Rightarrow> bool"
  assumes range_point: "ok s \<Longrightarrow> st_Range S key [] limit r s = Inr resp \<Longrightarrow> 0 \<le> limit \<Longrightarrow>
      pairs resp = (case view s key of None \<Rightarrow> [] | Some v \<Rightarrow> [(key, v)])"
    and range_scan: "ok s \<Longrightarrow> st_Range S key rangeEnd 0 r s = Inr resp \<Longrightarrow>
      set (pairs resp) = {(k, v). covers key rangeEnd k \<and> view s k = Some v} \<and> distinct (map fst (pairs resp))"
    and put_ok: "ok s \<Longrightarrow> st_PutWithLease S key val l s = (s', res) \<Longrightarrow> ok s'"
    and put_view: "ok s \<Longrightarrow> st_PutWithLease S key val l s = (s', Inr x) \<Longrightarrow> view s' = (view s)(key \<mapsto> val)"
    and put_fail: "ok s \<Longrightarrow> st_PutWithLease S key val l s = (s', Inl e) \<Longrightarrow> view s' = view s"
    and del_ok: "ok s \<Longrightarrow> st_DeleteRange S key rangeEnd s = (s', dres) \<Longrightarrow> ok s'"
    and del_view: "ok s \<Longrightarrow> st_DeleteRange S key rangeEnd s = (s', Inr y) \<Longrightarrow>
      view s' = (\<lambda>k. if covers key rangeEnd k then None else view s k)"
    and del_fail: "ok s \<Longrightarrow> st_DeleteRange S key rangeEnd s = (s', Inl e) \<Longrightarrow> view s' = view s"
begin

text \<open>Scanning an interval reads back what was put into it and nothing that was deleted from it.\<close>

lemma scan_get:
  assumes "ok s" "st_Range S key rangeEnd 0 r s = Inr resp"
  shows "map_of (pairs resp) k = (if covers key rangeEnd k then view s k else None)"
proof -
  note sc = range_scan[OF assms]
  have iff: "map_of (pairs resp) k = Some v \<longleftrightarrow> covers key rangeEnd k \<and> view s k = Some v" for v
    using sc by (subst map_of_eq_Some_iff) auto
  show ?thesis
  proof (cases "covers key rangeEnd k \<and> view s k \<noteq> None")
    case True
    then obtain v where "view s k = Some v" by auto
    then show ?thesis using iff[of v] True by simp
  next
    case False
    then have "map_of (pairs resp) k \<noteq> Some v" for v using iff[of v] by auto
    then have "map_of (pairs resp) k = None" by (cases "map_of (pairs resp) k") auto
    then show ?thesis using False by auto
  qed
qed

lemma scan_after_put:
  assumes "ok s" "st_PutWithLease S k v l s = (s', Inr x)" "st_Range S key rangeEnd 0 r s' = Inr resp"
    and "covers key rangeEnd k"
  shows "map_of (pairs resp) k = Some v"
  using scan_get[OF put_ok[OF assms(1,2)] assms(3)] put_view[OF assms(1,2)] assms(4) by simp

lemma scan_after_delete:
  assumes "ok s" "st_DeleteRange S a b s = (s', Inr y)" "st_Range S key rangeEnd 0 r s' = Inr resp"
    and "covers a b k"
  shows "map_of (pairs resp) k = None"
  using scan_get[OF del_ok[OF assms(1,2)] assms(3)] del_view[OF assms(1,2)] assms(4) by simp

end

section \<open>The in-memory engine as a store\<close>

definition mem_ops :: "int \<Rightarrow> (MemoryEtcd, mem_error) store_ops" where
  "mem_ops now =
     \<lparr>st_Range = (\<lambda>key rangeEnd limit r m. Inr (me_Range key rangeEnd limit r m)),
      st_PutWithLease = (\<lambda>key val l m. case me_PutWithLease now key val l m of
                            Inl e \<Rightarrow> (m, Inl e) | Inr (m', r, p) \<Rightarrow> (m', Inr (r, p))),
      st_DeleteRange = (\<lambda>key rangeEnd m. case me_DeleteRange key rangeEnd m of (m', n, ps, r) \<Rightarrow> (m', Inr (n, ps, r))),
      st_Txn = me_Txn now,
      st_Compact = (\<lambda>r m. (me_Compact r m, Inr ())),
      st_CurrentRevision = CurrentRevision,
      st_GetRaftStatus = me_GetRaftStatus\<rparr>"

definition mem_view :: "MemoryEtcd \<Rightarrow> string \<rightharpoonup> string" where
  "mem_view m = (\<lambda>k. map_option kv_Value (sm_Get (kvData m) k))"

text \<open>A store without failures, as the engine is for keys without a lease.\<close>

definition never_fails :: "('s, 'e) store_ops \<Rightarrow> bool" where
  "never_fails S \<longleftrightarrow>
     (\<forall>key rangeEnd limit r s. \<exists>resp. st_Range S key rangeEnd limit r s = Inr resp) \<and>
     (\<forall>key val s. \<exists>s' x. st_PutWithLease S key val 0 s = (s', Inr x)) \<and>
     (\<forall>key rangeEnd s. \<exists>s' y. st_DeleteRange S key rangeEnd s = (s', Inr y))"

lemma mem_never_fails: "never_fails (mem_ops now)"
  by (auto simp: never_fails_def mem_ops_def me_PutWithLease_def check_lease_def Let_def split: prod.splits)

lemma mem_range_point:
  assumes "me_inv m" "0 \<le> limit"
  shows "pairs (me_Range key [] limit r m) = (case mem_view m key of None \<Rightarrow> [] | Some v \<Rightarrow> [(key, v)])"
proof (cases "sm_Get (kvData m) key")
  case None
  then show ?thesis by (simp add: me_Range_def range_kvs_def range_result_def pairs_def mem_view_def Let_def)
next
  case (Some kv)
  then have "kv_Key kv = key" using me_invD(5)[OF assms(1)] keys_okD by blast
  moreover have "\<not> (0 < limit \<and> limit < 1)" by linarith
  ultimately show ?thesis
    using Some by (simp add: me_Range_def range_kvs_def range_result_def pairs_def mem_view_def Let_def)
qed

lemma mem_range_scan:
  assumes "me_inv m"
  shows "set (pairs (me_Range key rangeEnd 0 r m)) = {(k, v). covers key rangeEnd k \<and> mem_view m k = Some v}"
    and "distinct (map fst (pairs (me_Range key rangeEnd 0 r m)))"
proof -
  note inv = me_invD[OF assms]
  let ?M = "sm_Get (kvData m)" and ?ks = "sel_keys (sm_Get (kvData m)) key rangeEnd"
  have kvs: "rr_Kvs (me_Range key rangeEnd 0 r m) = map (\<lambda>k. the (?M k)) ?ks"
    using delete_kvs_sel[OF assms, of key rangeEnd]
    by (simp add: me_Range_def range_result_def range_kvs_def delete_kvs_def Let_def)
  have ks: "set ?ks = {k \<in> dom ?M. covers key rangeEnd k}"
    using set_sel_keys[OF inv(6), of key rangeEnd] by (auto simp: covers_def)
  have key: "kv_Key (the (?M k)) = k" if "k \<in> set ?ks" for k
    using that inv(5) by (auto simp: ks dest: keys_okD)
  then have p: "pairs (me_Range key rangeEnd 0 r m) = map (\<lambda>k. (k, kv_Value (the (?M k)))) ?ks"
    by (simp add: pairs_def kvs)
  show "set (pairs (me_Range key rangeEnd 0 r m)) = {(k, v). covers key rangeEnd k \<and> mem_view m k = Some v}"
    unfolding p using ks by (force simp: mem_view_def)
  show "distinct (map fst (pairs (me_Range key rangeEnd 0 r m)))"
    unfolding p by (simp add: comp_def)
qed

lemma mem_put_frame:
  assumes "me_inv m" "me_PutWithLease now key val l m = Inr (m', x)"
  shows "me_inv m'" "mem_view m' = (mem_view m)(key \<mapsto> val)"
proof -
  have "check_lease now l m = None" using assms(2) by (auto simp: me_PutWithLease_def split: option.splits)
  then obtain e where m': "m' = notifyWatches e (store_kv key val l m)"
    using assms(2) by (auto simp: me_PutWithLease_def Let_def)
  then show "me_inv m'" using assms(1) by (simp add: me_inv_notifyWatches me_inv_store_kv)
  show "mem_view m' = (mem_view m)(key \<mapsto> val)"
    using me_invD(1)[OF assms(1)] by (simp add: m' mem_view_def next_kv_def fun_eq_iff)
qed

lemma mem_delete_frame:
  assumes "me_inv m" "me_DeleteRange key rangeEnd m = (m', n, ps, r)"
  shows "me_inv m'" "mem_view m' = (\<lambda>k. if covers key rangeEnd k then None else mem_view m k)"
proof -
  show "me_inv m'" using inv_me_DeleteRange assms by (metis fst_conv)
  show "mem_view m' = (\<lambda>k. if covers key rangeEnd k then None else mem_view m k)"
    using me_DeleteRange_eqs(1)[OF assms] set_sel_keys[OF me_invD(6)[OF assms(1)], of key rangeEnd]
    by (auto simp: mem_view_def covers_def restrict_map_def fun_eq_iff split: if_splits)
qed

interpretation mem_store: kv_store "mem_ops now" mem_view me_inv
proof
  fix s :: MemoryEtcd and key rangeEnd val and limit l r :: int and resp s' e x y
  show "me_inv s \<Longrightarrow> st_Range (mem_ops now) key [] limit r s = Inr resp \<Longrightarrow> 0 \<le> limit \<Longrightarrow>
      pairs resp = (case mem_view s key of None \<Rightarrow> [] | Some v \<Rightarrow> [(key, v)])"
    using mem_range_point by (auto simp: mem_ops_def)
  show "me_inv s \<Longrightarrow> st_Range (mem_ops now) key rangeEnd 0 r s = Inr resp \<Longrightarrow>
      set (pairs resp) = {(k, v). covers key rangeEnd k \<and> mem_view s k = Some v} \<and> distinct (map fst (pairs resp))"
    using mem_range_scan by (auto simp: mem_ops_def)
  show "me_inv s'" if "me_inv s" "st_PutWithLease (mem_ops now) key val l s = (s', res)" for res
    using that mem_put_frame(1)[OF that(1)] by (auto simp: mem_ops_def split: sum.splits)
  show "me_inv s \<Longrightarrow> st_PutWithLease (mem_ops now) key val l s = (s', Inr x) \<Longrightarrow> mem_view s' = (mem_view s)(key \<mapsto> val)"
    using mem_put_frame(2) by (auto simp: mem_ops_def split: sum.splits)
  show "me_inv s \<Longrightarrow> st_PutWithLease (mem_ops now) key val l s = (s', Inl e) \<Longrightarrow> mem_view s' = mem_view s"
    by (auto simp: mem_ops_def split: sum.splits)
  show "me_inv s'" if "me_inv s" "st_DeleteRange (mem_ops now) key rangeEnd s = (s', res)" for res
    using that mem_delete_frame(1)[OF that(1)] by (auto simp: mem_ops_def split: prod.splits)
  show "me_inv s \<Longrightarrow> st_DeleteRange (mem_ops now) key rangeEnd s = (s', Inr y) \<Longrightarrow>
      mem_view s' = (\<lambda>k. if covers key rangeEnd k then None else mem_view s k)"
    using mem_delete_frame(2)[of s key rangeEnd s' "fst y" "fst (snd y)" "snd (snd y)"]
    by (cases y) (auto simp: mem_ops_def split: prod.splits)
  show "me_inv s \<Longrightarrow> st_DeleteRange (mem_ops now) key rangeEnd s = (s', Inl e) \<Longrightarrow> mem_view s' = mem_view s"
    by (auto simp: mem_ops_def split: prod.splits)
qed

end
