(* ===== verification/Auth_Manager.thy ===== *)
theory Auth_Manager
  imports Auth_Codec Store_Interface
begin

text \<open>
  Users, roles, permissions and tokens (\<^verbatim>\<open>api/etcd/auth_manager.go\<close>). The manager keeps them in memory
  and writes them through to the store. The store, bcrypt and the source of random bytes are
  parameters; a call of \<^verbatim>\<open>json.Marshal\<close> on these structures never fails. Each operation is one step; the
  audit log is left out.
\<close>

section \<open>State\<close>

text \<open>
  bcrypt: a hash of a password at a cost with a random salt, and the comparison of a hash with a
  password.
\<close>

record bcrypt =
  GenerateFromPassword :: "string \<Rightarrow> string \<Rightarrow> int \<Rightarrow> string option"
  CompareHashAndPassword :: "string \<Rightarrow> string \<Rightarrow> bool"

record 's AuthManager =
  am_store :: 's
  enabled :: bool
  users :: "(string, UserInfo) gomap"
  roles :: "(string, RoleInfo) gomap"
  tokens :: "(string, TokenInfo) gomap"
  tokenTTL :: int
  bcryptCost :: int

datatype 'e auth_error =
    AuthRootMissing
  | AuthUserNotFound string
  | AuthInvalidPassword
  | AuthGenerateToken
  | AuthInvalidToken
  | AuthTokenExpired
  | AuthPermissionDenied
  | AuthUserExists string
  | AuthHashPassword
  | AuthDeleteRootUser
  | AuthRoleNotFound string
  | AuthUserLacksRole string string
  | AuthRoleExists string
  | AuthDeleteRootRole
  | AuthPermissionNotFound string
  | AuthPermissionRequired
  | AuthStore 'e

definition unix_seconds :: "int \<Rightarrow> int" where
  "unix_seconds nanos = nanos div 1000000000"

definition prefix_end :: "string \<Rightarrow> string" where
  "prefix_end prefix = prefix @ [CHR 0xFF]"

text \<open>Writes to the store on behalf of the manager: the new state and the error, if any.\<close>

definition auth_put :: "('s, 'e) store_ops \<Rightarrow> string \<Rightarrow> string \<Rightarrow> 's AuthManager \<Rightarrow> 's AuthManager \<times> 'e option" where
  "auth_put S key val am =
     (case st_PutWithLease S key val 0 (am_store am) of
        (s', Inl e) \<Rightarrow> (am\<lparr>am_store := s'\<rparr>, Some e)
      | (s', Inr _) \<Rightarrow> (am\<lparr>am_store := s'\<rparr>, None))"

definition auth_delete :: "('s, 'e) store_ops \<Rightarrow> string \<Rightarrow> string \<Rightarrow> 's AuthManager \<Rightarrow> 's AuthManager \<times> 'e option" where
  "auth_delete S key rangeEnd am =
     (case st_DeleteRange S key rangeEnd (am_store am) of
        (s', Inl e) \<Rightarrow> (am\<lparr>am_store := s'\<rparr>, Some e)
      | (s', Inr _) \<Rightarrow> (am\<lparr>am_store := s'\<rparr>, None))"

definition store_result :: "'s AuthManager \<times> 'e option \<Rightarrow> 's AuthManager \<times> ('e auth_error + unit)" where
  "store_result r = (fst r, case snd r of None \<Rightarrow> Inr () | Some e \<Rightarrow> Inl (AuthStore e))"

definition put_user :: "('s, 'e) store_ops \<Rightarrow> UserInfo \<Rightarrow> string \<Rightarrow> 's AuthManager \<Rightarrow> 's AuthManager \<times> 'e option" where
  "put_user S user name am = auth_put S (authUserPrefix @ name) (json_print (user_json user)) am"

definition put_role :: "('s, 'e) store_ops \<Rightarrow> RoleInfo \<Rightarrow> string \<Rightarrow> 's AuthManager \<Rightarrow> 's AuthManager \<times> 'e option" where
  "put_role S role name am = auth_put S (authRolePrefix @ name) (json_print (role_json role)) am"

section \<open>Loading\<close>

definition load_user :: "key_value \<Rightarrow> (string, UserInfo) gomap \<Rightarrow> (string, UserInfo) gomap" where
  "load_user kv m = (case unmarshal_user (kv_Value kv) of None \<Rightarrow> m | Some u \<Rightarrow> gm_set (ui_Name u) u m)"

definition load_role :: "key_value \<Rightarrow> (string, RoleInfo) gomap \<Rightarrow> (string, RoleInfo) gomap" where
  "load_role kv m = (case unmarshal_role (kv_Value kv) of None \<Rightarrow> m | Some r \<Rightarrow> gm_set (ri_Name r) r m)"

definition load_token :: "int \<Rightarrow> key_value \<Rightarrow> (string, TokenInfo) gomap \<Rightarrow> (string, TokenInfo) gomap" where
  "load_token now kv m =
     (case unmarshal_token (kv_Value kv) of
        None \<Rightarrow> m
      | Some t \<Rightarrow> if now < ExpiresAt t then gm_set (ti_Token t) t m else m)"

definition range_prefix :: "('s, 'e) store_ops \<Rightarrow> string \<Rightarrow> 's AuthManager \<Rightarrow> key_value list" where
  "range_prefix S prefix am =
     (case st_Range S prefix (prefix_end prefix) 0 0 (am_store am) of Inl _ \<Rightarrow> [] | Inr resp \<Rightarrow> rr_Kvs resp)"

definition loadState :: "('s, 'e) store_ops \<Rightarrow> int \<Rightarrow> 's AuthManager \<Rightarrow> 's AuthManager" where
  "loadState S now am =
     (let am1 = (case st_Range S authEnabledKey [] 1 0 (am_store am) of
                   Inl _ \<Rightarrow> am
                 | Inr resp \<Rightarrow>
                     if 0 < length (rr_Kvs resp) then am\<lparr>enabled := (kv_Value (rr_Kvs resp ! 0) = ''true'')\<rparr> else am);
          am2 = am1\<lparr>users := fold load_user (range_prefix S authUserPrefix am1) (users am1)\<rparr>;
          am3 = am2\<lparr>roles := fold load_role (range_prefix S authRolePrefix am2) (roles am2)\<rparr>
      in am3\<lparr>tokens := fold (load_token (unix_seconds now)) (range_prefix S authTokenPrefix am3) (tokens am3)\<rparr>)"

definition NewAuthManager :: "('s, 'e) store_ops \<Rightarrow> int \<Rightarrow> int \<Rightarrow> int \<Rightarrow> 's \<Rightarrow> 's AuthManager" where
  "NewAuthManager S now ttl cost s =
     loadState S now
       \<lparr>am_store = s, enabled = False, users = [], roles = [], tokens = [], tokenTTL = ttl, bcryptCost = cost\<rparr>"

section \<open>Switching authentication\<close>

definition IsEnabled :: "'s AuthManager \<Rightarrow> bool" where
  "IsEnabled am = enabled am"

definition Enable :: "('s, 'e) store_ops \<Rightarrow> 's AuthManager \<Rightarrow> 's AuthManager \<times> ('e auth_error + unit)" where
  "Enable S am =
     (if gm_get (users am) ''root'' = None then (am, Inl AuthRootMissing)
      else if enabled am then (am, Inr ())
      else store_result (auth_put S authEnabledKey ''true'' (am\<lparr>enabled := True\<rparr>)))"

definition Disable :: "('s, 'e) store_ops \<Rightarrow> 's AuthManager \<Rightarrow> 's AuthManager \<times> ('e auth_error + unit)" where
  "Disable S am =
     (case auth_put S authEnabledKey ''false'' (am\<lparr>enabled := False\<rparr>) of
        (am1, Some e) \<Rightarrow> (am1, Inl (AuthStore e))
      | (am1, None) \<Rightarrow>
          store_result (auth_delete S authTokenPrefix (prefix_end authTokenPrefix) (am1\<lparr>tokens := []\<rparr>)))"

section \<open>Tokens\<close>

text \<open>The random bytes are an argument, \<^const>\<open>None\<close> for an error of the source.\<close>

definition generateToken :: "string option \<Rightarrow> string option" where
  "generateToken rnd = map_option b64_url_encode rnd"

definition hashPassword :: "bcrypt \<Rightarrow> string \<Rightarrow> string \<Rightarrow> 's AuthManager \<Rightarrow> string option" where
  "hashPassword B salt password am = GenerateFromPassword B salt password (bcryptCost am)"

definition checkPasswordHash :: "bcrypt \<Rightarrow> string \<Rightarrow> string \<Rightarrow> bool" where
  "checkPasswordHash B password hash = CompareHashAndPassword B hash password"

definition Authenticate ::
    "('s, 'e) store_ops \<Rightarrow> bcrypt \<Rightarrow> int \<Rightarrow> string option \<Rightarrow> string \<Rightarrow> string \<Rightarrow> 's AuthManager \<Rightarrow>
     's AuthManager \<times> ('e auth_error + string)" where
  "Authenticate S B now rnd username password am =
     (case gm_get (users am) username of
        None \<Rightarrow> (am, Inl (AuthUserNotFound username))
      | Some user \<Rightarrow>
          if \<not> checkPasswordHash B password (PasswordHash user) then (am, Inl AuthInvalidPassword)
          else case generateToken rnd of
            None \<Rightarrow> (am, Inl AuthGenerateToken)
          | Some token \<Rightarrow>
              let info = \<lparr>ti_Token = token, Username = username, ExpiresAt = unix_seconds (now + tokenTTL am)\<rparr>;
                  am1 = am\<lparr>tokens := gm_set token info (tokens am)\<rparr>
              in case auth_put S (authTokenPrefix @ token) (json_print (token_json info)) am1 of
                   (am2, Some e) \<Rightarrow> (am2, Inl (AuthStore e))
                 | (am2, None) \<Rightarrow> (am2, Inr token))"

definition ValidateToken :: "int \<Rightarrow> string \<Rightarrow> 's AuthManager \<Rightarrow> 'e auth_error + TokenInfo" where
  "ValidateToken now token am =
     (case gm_get (tokens am) token of
        None \<Rightarrow> Inl AuthInvalidToken
      | Some info \<Rightarrow> if ExpiresAt info < unix_seconds now then Inl AuthTokenExpired else Inr info)"

text \<open>
  Removal of the tokens that satisfy a condition, from memory and from the store, whose errors are
  ignored; the entries are visited in some order.
\<close>

fun drop_tokens ::
    "('s, 'e) store_ops \<Rightarrow> (TokenInfo \<Rightarrow> bool) \<Rightarrow> (string \<times> TokenInfo) list \<Rightarrow> 's AuthManager \<Rightarrow> 's AuthManager" where
  "drop_tokens S P [] am = am"
| "drop_tokens S P ((token, info) # ts) am =
     drop_tokens S P ts
       (if P info then fst (auth_delete S (authTokenPrefix @ token) [] (am\<lparr>tokens := gm_del token (tokens am)\<rparr>)) else am)"

type_synonym token_order = "(string \<times> TokenInfo) list \<Rightarrow> (string \<times> TokenInfo) list"

definition cleanupExpiredTokens :: "('s, 'e) store_ops \<Rightarrow> token_order \<Rightarrow> int \<Rightarrow> 's AuthManager \<Rightarrow> 's AuthManager" where
  "cleanupExpiredTokens S order now am =
     drop_tokens S (\<lambda>info. ExpiresAt info < unix_seconds now) (order (tokens am)) am"

section \<open>Permissions\<close>

definition keyInRange :: "string \<Rightarrow> string \<Rightarrow> string \<Rightarrow> bool" where
  "keyInRange key start end =
     (if length end = 0 then key = start
      else start \<le> key \<and> (end = [CHR 0x00] \<or> key < end))"

definition hasPermission :: "int \<Rightarrow> Permission \<Rightarrow> bool" where
  "hasPermission permType perm =
     (if permType = PermissionRead then pm_Type perm = PermissionRead \<or> pm_Type perm = PermissionReadWrite
      else if permType = PermissionWrite then pm_Type perm = PermissionWrite \<or> pm_Type perm = PermissionReadWrite
      else if permType = PermissionReadWrite then pm_Type perm = PermissionReadWrite
      else False)"

fun check_perms :: "string \<Rightarrow> int \<Rightarrow> Permission list \<Rightarrow> bool" where
  "check_perms key permType [] = False"
| "check_perms key permType (perm # perms) =
     (if \<not> hasPermission permType perm then check_perms key permType perms
      else if keyInRange key (pm_Key perm) (pm_RangeEnd perm) then True
      else check_perms key permType perms)"

fun check_roles :: "string \<Rightarrow> int \<Rightarrow> string list \<Rightarrow> 's AuthManager \<Rightarrow> bool" where
  "check_roles key permType [] am = False"
| "check_roles key permType (r # rs) am =
     (case gm_get (roles am) r of
        None \<Rightarrow> check_roles key permType rs am
      | Some role \<Rightarrow> if check_perms key permType (Permissions role) then True else check_roles key permType rs am)"

definition CheckPermission :: "string \<Rightarrow> string \<Rightarrow> int \<Rightarrow> 's AuthManager \<Rightarrow> 'e auth_error + unit" where
  "CheckPermission username key permType am =
     (if username = ''root'' then Inr ()
      else case gm_get (users am) username of
        None \<Rightarrow> Inl (AuthUserNotFound username)
      | Some user \<Rightarrow> if check_roles key permType (ui_Roles user) am then Inr () else Inl AuthPermissionDenied)"

section \<open>Users\<close>

definition AddUser ::
    "('s, 'e) store_ops \<Rightarrow> bcrypt \<Rightarrow> int \<Rightarrow> string \<Rightarrow> string \<Rightarrow> string \<Rightarrow> 's AuthManager \<Rightarrow> 's AuthManager \<times> ('e auth_error + unit)" where
  "AddUser S B now salt name password am =
     (if gm_get (users am) name \<noteq> None then (am, Inl (AuthUserExists name))
      else case hashPassword B salt password am of
        None \<Rightarrow> (am, Inl AuthHashPassword)
      | Some h \<Rightarrow>
          let user = \<lparr>ui_Name = name, PasswordHash = h, ui_Roles = [], ui_CreatedAt = unix_seconds now\<rparr>
          in case put_user S user name am of
               (am1, Some e) \<Rightarrow> (am1, Inl (AuthStore e))
             | (am1, None) \<Rightarrow> (am1\<lparr>users := gm_set name user (users am1)\<rparr>, Inr ()))"

definition DeleteUser ::
    "('s, 'e) store_ops \<Rightarrow> token_order \<Rightarrow> string \<Rightarrow> 's AuthManager \<Rightarrow> 's AuthManager \<times> ('e auth_error + unit)" where
  "DeleteUser S order name am =
     (if name = ''root'' then (am, Inl AuthDeleteRootUser)
      else if gm_get (users am) name = None then (am, Inl (AuthUserNotFound name))
      else case auth_delete S (authUserPrefix @ name) [] am of
        (am1, Some e) \<Rightarrow> (am1, Inl (AuthStore e))
      | (am1, None) \<Rightarrow>
          let am2 = am1\<lparr>users := gm_del name (users am1)\<rparr>
          in (drop_tokens S (\<lambda>info. Username info = name) (order (tokens am2)) am2, Inr ()))"

definition GetUser :: "string \<Rightarrow> 's AuthManager \<Rightarrow> 'e auth_error + UserInfo" where
  "GetUser name am = (case gm_get (users am) name of None \<Rightarrow> Inl (AuthUserNotFound name) | Some user \<Rightarrow> Inr user)"

definition ListUsers :: "((string \<times> UserInfo) list \<Rightarrow> (string \<times> UserInfo) list) \<Rightarrow> 's AuthManager \<Rightarrow> UserInfo list" where
  "ListUsers order am = map snd (order (users am))"

text \<open>The password changes in the cached user before it is written to the store.\<close>

definition ChangePassword ::
    "('s, 'e) store_ops \<Rightarrow> bcrypt \<Rightarrow> token_order \<Rightarrow> string \<Rightarrow> string \<Rightarrow> string \<Rightarrow> 's AuthManager \<Rightarrow> 's AuthManager \<times> ('e auth_error + unit)" where
  "ChangePassword S B order salt name newPassword am =
     (case gm_get (users am) name of
        None \<Rightarrow> (am, Inl (AuthUserNotFound name))
      | Some user \<Rightarrow>
          (case hashPassword B salt newPassword am of
             None \<Rightarrow> (am, Inl AuthHashPassword)
           | Some h \<Rightarrow>
               let user' = user\<lparr>PasswordHash := h\<rparr>;
                   am1 = am\<lparr>users := gm_set name user' (users am)\<rparr>
               in case put_user S user' name am1 of
                    (am2, Some e) \<Rightarrow> (am2, Inl (AuthStore e))
                  | (am2, None) \<Rightarrow> (drop_tokens S (\<lambda>info. Username info = name) (order (tokens am2)) am2, Inr ())))"

definition GrantRole ::
    "('s, 'e) store_ops \<Rightarrow> string \<Rightarrow> string \<Rightarrow> 's AuthManager \<Rightarrow> 's AuthManager \<times> ('e auth_error + unit)" where
  "GrantRole S username rolename am =
     (case gm_get (users am) username of
        None \<Rightarrow> (am, Inl (AuthUserNotFound username))
      | Some user \<Rightarrow>
          if gm_get (roles am) rolename = None then (am, Inl (AuthRoleNotFound rolename))
          else if rolename \<in> set (ui_Roles user) then (am, Inr ())
          else
            let user' = user\<lparr>ui_Roles := ui_Roles user @ [rolename]\<rparr>
            in store_result (put_user S user' username (am\<lparr>users := gm_set username user' (users am)\<rparr>)))"

definition RevokeRole ::
    "('s, 'e) store_ops \<Rightarrow> string \<Rightarrow> string \<Rightarrow> 's AuthManager \<Rightarrow> 's AuthManager \<times> ('e auth_error + unit)" where
  "RevokeRole S username rolename am =
     (case gm_get (users am) username of
        None \<Rightarrow> (am, Inl (AuthUserNotFound username))
      | Some user \<Rightarrow>
          let newRoles = filter (\<lambda>r. r \<noteq> rolename) (ui_Roles user)
          in if rolename \<notin> set (ui_Roles user) then (am, Inl (AuthUserLacksRole username rolename))
             else
               let user' = user\<lparr>ui_Roles := newRoles\<rparr>
               in store_result (put_user S user' username (am\<lparr>users := gm_set username user' (users am)\<rparr>)))"

section \<open>Roles\<close>

definition AddRole :: "('s, 'e) store_ops \<Rightarrow> int \<Rightarrow> string \<Rightarrow> 's AuthManager \<Rightarrow> 's AuthManager \<times> ('e auth_error + unit)" where
  "AddRole S now name am =
     (if gm_get (roles am) name \<noteq> None then (am, Inl (AuthRoleExists name))
      else
        let role = \<lparr>ri_Name = name, Permissions = [], ri_CreatedAt = unix_seconds now\<rparr>
        in case put_role S role name am of
             (am1, Some e) \<Rightarrow> (am1, Inl (AuthStore e))
           | (am1, None) \<Rightarrow> (am1\<lparr>roles := gm_set name role (roles am1)\<rparr>, Inr ()))"

fun strip_role :: "('s, 'e) store_ops \<Rightarrow> string \<Rightarrow> (string \<times> UserInfo) list \<Rightarrow> 's AuthManager \<Rightarrow> 's AuthManager" where
  "strip_role S name [] am = am"
| "strip_role S name ((username, user) # us) am =
     strip_role S name us
       (if name \<in> set (ui_Roles user) then
          let user' = user\<lparr>ui_Roles := filter (\<lambda>r. r \<noteq> name) (ui_Roles user)\<rparr>
          in fst (put_user S user' username (am\<lparr>users := gm_set username user' (users am)\<rparr>))
        else am)"

definition DeleteRole ::
    "('s, 'e) store_ops \<Rightarrow> ((string \<times> UserInfo) list \<Rightarrow> (string \<times> UserInfo) list) \<Rightarrow> string \<Rightarrow> 's AuthManager \<Rightarrow>
     's AuthManager \<times> ('e auth_error + unit)" where
  "DeleteRole S order name am =
     (if name = ''root'' then (am, Inl AuthDeleteRootRole)
      else if gm_get (roles am) name = None then (am, Inl (AuthRoleNotFound name))
      else
        let am1 = strip_role S name (order (users am)) am
        in store_result (auth_delete S (authRolePrefix @ name) [] (am1\<lparr>roles := gm_del name (roles am1)\<rparr>)))"

definition GetRole :: "string \<Rightarrow> 's AuthManager \<Rightarrow> 'e auth_error + RoleInfo" where
  "GetRole name am = (case gm_get (roles am) name of None \<Rightarrow> Inl (AuthRoleNotFound name) | Some role \<Rightarrow> Inr role)"

definition ListRoles :: "((string \<times> RoleInfo) list \<Rightarrow> (string \<times> RoleInfo) list) \<Rightarrow> 's AuthManager \<Rightarrow> RoleInfo list" where
  "ListRoles order am = map snd (order (roles am))"

definition GrantPermission ::
    "('s, 'e) store_ops \<Rightarrow> string \<Rightarrow> Permission \<Rightarrow> 's AuthManager \<Rightarrow> 's AuthManager \<times> ('e auth_error + unit)" where
  "GrantPermission S rolename perm am =
     (case gm_get (roles am) rolename of
        None \<Rightarrow> (am, Inl (AuthRoleNotFound rolename))
      | Some role \<Rightarrow>
          let role' = role\<lparr>Permissions := Permissions role @ [perm]\<rparr>
          in store_result (put_role S role' rolename (am\<lparr>roles := gm_set rolename role' (roles am)\<rparr>)))"

definition RevokePermission ::
    "('s, 'e) store_ops \<Rightarrow> string \<Rightarrow> string \<Rightarrow> string \<Rightarrow> 's AuthManager \<Rightarrow> 's AuthManager \<times> ('e auth_error + unit)" where
  "RevokePermission S rolename key rangeEnd am =
     (case gm_get (roles am) rolename of
        None \<Rightarrow> (am, Inl (AuthRoleNotFound rolename))
      | Some role \<Rightarrow>
          let matches = (\<lambda>perm. pm_Key perm = key \<and> pm_RangeEnd perm = rangeEnd);
              newPerms = filter (\<lambda>perm. \<not> matches perm) (Permissions role)
          in if \<not> list_ex matches (Permissions role) then (am, Inl (AuthPermissionNotFound rolename))
             else
               let role' = role\<lparr>Permissions := newPerms\<rparr>
               in store_result (put_role S role' rolename (am\<lparr>roles := gm_set rolename role' (roles am)\<rparr>)))"

end
