(* ===== verification/Auth_Invariant.thy ===== *)
theory Auth_Invariant
  imports Auth_Manager
begin

text \<open>
  The consistency of the cached users, roles and tokens: names agree with map keys, a user only has
  existing roles, a token belongs to an existing user, and while authentication is enabled the root
  user exists. Every operation keeps it, whatever the store does.
\<close>

section \<open>Invariant\<close>

definition users_inv :: "(string, UserInfo) gomap \<Rightarrow> (string, RoleInfo) gomap \<Rightarrow> bool" where
  "users_inv us rs \<longleftrightarrow> gm_wf us \<and>
     (\<forall>n u. gm_get us n = Some u \<longrightarrow> ui_Name u = n \<and> distinct (ui_Roles u) \<and> (\<forall>r \<in> set (ui_Roles u). gm_get rs r \<noteq> None))"

definition roles_inv :: "(string, RoleInfo) gomap \<Rightarrow> bool" where
  "roles_inv rs \<longleftrightarrow> gm_wf rs \<and> (\<forall>n r. gm_get rs n = Some r \<longrightarrow> ri_Name r = n)"

definition tokens_inv :: "(string, TokenInfo) gomap \<Rightarrow> (string, UserInfo) gomap \<Rightarrow> bool" where
  "tokens_inv ts us \<longleftrightarrow> gm_wf ts \<and>
     (\<forall>t i. gm_get ts t = Some i \<longrightarrow> ti_Token i = t \<and> gm_get us (Username i) \<noteq> None)"

definition auth_inv :: "'s AuthManager \<Rightarrow> bool" where
  "auth_inv am \<longleftrightarrow> users_inv (users am) (roles am) \<and> roles_inv (roles am) \<and> tokens_inv (tokens am) (users am) \<and>
     (enabled am \<longrightarrow> gm_get (users am) ''root'' \<noteq> None)"

lemma users_inv_set:
  assumes "users_inv us rs" "ui_Name u = n" "distinct (ui_Roles u)" "\<And>r. r \<in> set (ui_Roles u) \<Longrightarrow> gm_get rs r \<noteq> None"
  shows "users_inv (gm_set n u us) rs"
  using assms by (auto simp: users_inv_def gomap_simps)

lemma users_inv_del: "users_inv us rs \<Longrightarrow> users_inv (gm_del n us) rs"
  by (auto simp: users_inv_def gomap_simps)

lemma users_inv_roles: "users_inv us rs \<Longrightarrow> (\<And>r. gm_get rs r \<noteq> None \<Longrightarrow> gm_get rs' r \<noteq> None) \<Longrightarrow> users_inv us rs'"
  by (simp add: users_inv_def)

lemma users_invD:
  assumes "users_inv us rs" "gm_get us n = Some u"
  shows "ui_Name u = n" "distinct (ui_Roles u)" "\<And>r. r \<in> set (ui_Roles u) \<Longrightarrow> gm_get rs r \<noteq> None"
  using assms by (auto simp: users_inv_def)

lemma roles_inv_set: "roles_inv rs \<Longrightarrow> ri_Name r = n \<Longrightarrow> roles_inv (gm_set n r rs)"
  by (auto simp: roles_inv_def gomap_simps)

lemma roles_inv_del: "roles_inv rs \<Longrightarrow> roles_inv (gm_del n rs)"
  by (auto simp: roles_inv_def gomap_simps)

lemma tokens_inv_set:
  "tokens_inv ts us \<Longrightarrow> ti_Token i = t \<Longrightarrow> gm_get us (Username i) \<noteq> None \<Longrightarrow> tokens_inv (gm_set t i ts) us"
  by (auto simp: tokens_inv_def gomap_simps)

lemma tokens_inv_users:
  "tokens_inv ts us \<Longrightarrow> (\<And>n. gm_get us n \<noteq> None \<Longrightarrow> gm_get us' n \<noteq> None) \<Longrightarrow> tokens_inv ts us'"
  by (simp add: tokens_inv_def)

section \<open>Frames of the store accesses\<close>

lemma auth_put_frame [simp]:
  "users (fst (auth_put S k v am)) = users am" "roles (fst (auth_put S k v am)) = roles am"
  "tokens (fst (auth_put S k v am)) = tokens am" "enabled (fst (auth_put S k v am)) = enabled am"
  "tokenTTL (fst (auth_put S k v am)) = tokenTTL am" "bcryptCost (fst (auth_put S k v am)) = bcryptCost am"
  by (simp_all add: auth_put_def split: prod.splits sum.splits)

lemma auth_delete_frame [simp]:
  "users (fst (auth_delete S k e am)) = users am" "roles (fst (auth_delete S k e am)) = roles am"
  "tokens (fst (auth_delete S k e am)) = tokens am" "enabled (fst (auth_delete S k e am)) = enabled am"
  "tokenTTL (fst (auth_delete S k e am)) = tokenTTL am" "bcryptCost (fst (auth_delete S k e am)) = bcryptCost am"
  by (simp_all add: auth_delete_def split: prod.splits sum.splits)

lemma put_user_frame [simp]:
  "users (fst (put_user S u n am)) = users am" "roles (fst (put_user S u n am)) = roles am"
  "tokens (fst (put_user S u n am)) = tokens am" "enabled (fst (put_user S u n am)) = enabled am"
  "tokenTTL (fst (put_user S u n am)) = tokenTTL am" "bcryptCost (fst (put_user S u n am)) = bcryptCost am"
  by (simp_all add: put_user_def)

lemma put_role_frame [simp]:
  "users (fst (put_role S r n am)) = users am" "roles (fst (put_role S r n am)) = roles am"
  "tokens (fst (put_role S r n am)) = tokens am" "enabled (fst (put_role S r n am)) = enabled am"
  "tokenTTL (fst (put_role S r n am)) = tokenTTL am" "bcryptCost (fst (put_role S r n am)) = bcryptCost am"
  by (simp_all add: put_role_def)

lemma auth_frameD:
  "auth_put S k v am = (am1, e) \<Longrightarrow> auth_inv am1 = auth_inv am \<and> users am1 = users am \<and> roles am1 = roles am \<and>
     tokens am1 = tokens am \<and> enabled am1 = enabled am"
  "auth_delete S k r am = (am1, e) \<Longrightarrow> auth_inv am1 = auth_inv am \<and> users am1 = users am \<and> roles am1 = roles am \<and>
     tokens am1 = tokens am \<and> enabled am1 = enabled am"
  using auth_put_frame[of S k v am] auth_delete_frame[of S k r am] by (simp_all add: auth_inv_def)

lemma fst_store_result [simp]: "fst (store_result r) = fst r"
  by (simp add: store_result_def)

lemma drop_tokens_frame [simp]:
  "users (drop_tokens S P ts am) = users am" "roles (drop_tokens S P ts am) = roles am"
  "enabled (drop_tokens S P ts am) = enabled am" "tokenTTL (drop_tokens S P ts am) = tokenTTL am"
  "bcryptCost (drop_tokens S P ts am) = bcryptCost am"
  by (induction ts arbitrary: am; force)+

lemma drop_tokens_get:
  "gm_get (tokens (drop_tokens S P ts am)) t = (if \<exists>i. (t, i) \<in> set ts \<and> P i then None else gm_get (tokens am) t)"
  by (induction ts arbitrary: am) (auto simp: gomap_simps)

lemma drop_tokens_wf: "gm_wf (tokens am) \<Longrightarrow> gm_wf (tokens (drop_tokens S P ts am))"
  by (induction ts arbitrary: am) auto

lemma drop_tokens_all:
  assumes "iteration_order order" "gm_wf (tokens am)"
  shows "gm_get (tokens (drop_tokens S P (order (tokens am)) am)) t =
    (case gm_get (tokens am) t of None \<Rightarrow> None | Some i \<Rightarrow> if P i then None else Some i)"
proof -
  have iff: "(t, i) \<in> set (order (tokens am)) \<longleftrightarrow> gm_get (tokens am) t = Some i" for i
    using gm_set_entries[OF assms(2)] iteration_orderD(1)[OF assms(1)] by blast
  show ?thesis unfolding drop_tokens_get iff by (cases "gm_get (tokens am) t") auto
qed

lemma drop_tokens_inv:
  assumes "iteration_order order" "gm_wf (tokens am)"
    and "\<And>t i. gm_get (tokens am) t = Some i \<Longrightarrow> \<not> P i \<Longrightarrow> ti_Token i = t \<and> gm_get us (Username i) \<noteq> None"
  shows "tokens_inv (tokens (drop_tokens S P (order (tokens am)) am)) us"
  using assms by (auto simp: tokens_inv_def drop_tokens_all drop_tokens_wf split: option.splits if_splits)

text \<open>Stripping a role visits every user once.\<close>

definition without_role :: "string \<Rightarrow> UserInfo \<Rightarrow> UserInfo" where
  "without_role name u = u\<lparr>ui_Roles := filter (\<lambda>r. r \<noteq> name) (ui_Roles u)\<rparr>"

lemma without_role_id: "name \<notin> set (ui_Roles u) \<Longrightarrow> without_role name u = u"
  by (cases u) (auto simp: without_role_def intro!: filter_True)

lemma strip_role_frame [simp]:
  "roles (strip_role S name us am) = roles am" "tokens (strip_role S name us am) = tokens am"
  "enabled (strip_role S name us am) = enabled am" "tokenTTL (strip_role S name us am) = tokenTTL am"
  "bcryptCost (strip_role S name us am) = bcryptCost am"
  by (induction us arbitrary: am; force simp: Let_def)+

lemma strip_role_wf: "gm_wf (users am) \<Longrightarrow> gm_wf (users (strip_role S name us am))"
  by (induction us arbitrary: am) (auto simp: Let_def)

lemma strip_role_get:
  assumes "distinct (map fst us)" "\<And>n u. (n, u) \<in> set us \<Longrightarrow> gm_get (users am) n = Some u"
  shows "gm_get (users (strip_role S name us am)) n =
    (if n \<in> fst ` set us then map_option (without_role name) (gm_get (users am) n) else gm_get (users am) n)"
  using assms
proof (induction us arbitrary: am)
  case (Cons x us)
  obtain k u where x: "x = (k, u)" by (cases x)
  define am1 where "am1 = (if name \<in> set (ui_Roles u)
      then fst (put_user S (without_role name u) k (am\<lparr>users := gm_set k (without_role name u) (users am)\<rparr>)) else am)"
  have k: "gm_get (users am) k = Some u" using Cons.prems(2) x by simp
  have g: "gm_get (users am1) m = (if m = k then Some (without_role name u) else gm_get (users am) m)" for m
    using k without_role_id by (auto simp: am1_def gomap_simps)
  have nk: "k \<notin> fst ` set us" using Cons.prems(1) x by auto
  have "gm_get (users am1) m = Some w" if "(m, w) \<in> set us" for m w
  proof -
    have "m \<noteq> k" using nk that by force
    then show ?thesis using g that Cons.prems(2) by simp
  qed
  then have "gm_get (users (strip_role S name us am1)) n =
      (if n \<in> fst ` set us then map_option (without_role name) (gm_get (users am1) n) else gm_get (users am1) n)"
    using Cons.IH[of am1] Cons.prems(1) by simp
  moreover have "strip_role S name (x # us) am = strip_role S name us am1"
    by (simp add: x am1_def without_role_def Let_def)
  ultimately show ?case using g k nk by (auto simp: x)
qed simp

lemma strip_role_all:
  assumes "iteration_order order" "gm_wf (users am)"
  shows "gm_get (users (strip_role S name (order (users am)) am)) n =
    map_option (without_role name) (gm_get (users am) n)"
proof -
  have m: "mset (order (users am)) = mset (users am)" using assms(1) by (simp add: iteration_order_def)
  then have "mset (map fst (order (users am))) = mset (map fst (users am))" by simp
  then have d: "distinct (map fst (order (users am)))" using assms(2) mset_eq_imp_distinct_iff by blast
  have s: "set (order (users am)) = set (users am)" using assms(1) by simp
  have o: "gm_get (users am) m = Some u" if "(m, u) \<in> set (order (users am))" for m u
    using that s gm_set_entries[OF assms(2)] by blast
  have "gm_get (users am) n = None" if "n \<notin> fst ` set (order (users am))"
    using that unfolding s by (simp add: map_of_eq_None_iff)
  then show ?thesis using strip_role_get[OF d o, of S name n] by (cases "n \<in> fst ` set (order (users am))") simp_all
qed

section \<open>Preservation\<close>

lemma inv_Enable: "auth_inv am \<Longrightarrow> auth_inv (fst (Enable S am))"
  by (auto simp: Enable_def auth_inv_def)

lemma inv_Disable: "auth_inv am \<Longrightarrow> auth_inv (fst (Disable S am))"
proof -
  assume inv: "auth_inv am"
  obtain am1 e where p: "auth_put S authEnabledKey ''false'' (am\<lparr>enabled := False\<rparr>) = (am1, e)"
    by (cases "auth_put S authEnabledKey ''false'' (am\<lparr>enabled := False\<rparr>)")
  have "auth_inv am1" "auth_inv (am1\<lparr>tokens := []\<rparr>)"
    using auth_put_frame[of S authEnabledKey "''false''" "am\<lparr>enabled := False\<rparr>"] p inv
    by (simp_all add: auth_inv_def tokens_inv_def)
  then show ?thesis using p by (cases e) (simp_all add: Disable_def auth_inv_def)
qed

lemma inv_Authenticate: "auth_inv am \<Longrightarrow> auth_inv (fst (Authenticate S B now rnd n p am))"
proof (cases "gm_get (users am) n")
  case (Some u)
  assume inv: "auth_inv am"
  show ?thesis
  proof (cases "checkPasswordHash B p (PasswordHash u) \<and> generateToken rnd \<noteq> None")
    case True
    then obtain tok where tok: "generateToken rnd = Some tok" by auto
    define info where "info = \<lparr>ti_Token = tok, Username = n, ExpiresAt = unix_seconds (now + tokenTTL am)\<rparr>"
    let ?am = "am\<lparr>tokens := gm_set tok info (tokens am)\<rparr>"
    have "auth_inv ?am" using inv Some by (auto simp: auth_inv_def info_def intro: tokens_inv_set)
    moreover have "fst (Authenticate S B now rnd n p am) = fst (auth_put S (authTokenPrefix @ tok) (json_print (token_json info)) ?am)"
      using True Some tok by (simp add: Authenticate_def info_def Let_def split: prod.splits option.splits)
    ultimately show ?thesis by (simp add: auth_inv_def)
  next
    case False
    then show ?thesis using Some inv by (auto simp: Authenticate_def)
  qed
qed (simp add: Authenticate_def)

lemma inv_cleanup: "auth_inv am \<Longrightarrow> iteration_order order \<Longrightarrow> auth_inv (cleanupExpiredTokens S order now am)"
  using drop_tokens_inv[of order am "\<lambda>info. ExpiresAt info < unix_seconds now" "users am" S]
  by (simp add: auth_inv_def cleanupExpiredTokens_def tokens_inv_def)

lemma inv_AddUser: "auth_inv am \<Longrightarrow> auth_inv (fst (AddUser S B now salt n p am))"
proof (cases "gm_get (users am) n = None \<and> hashPassword B salt p am \<noteq> None")
  case True
  assume inv: "auth_inv am"
  obtain h where h: "hashPassword B salt p am = Some h" using True by auto
  define user where "user = \<lparr>ui_Name = n, PasswordHash = h, ui_Roles = [], ui_CreatedAt = unix_seconds now\<rparr>"
  have "auth_inv (am\<lparr>users := gm_set n user (users am)\<rparr>)"
    using inv by (auto simp: auth_inv_def user_def gomap_simps intro: users_inv_set elim: tokens_inv_users)
  moreover obtain am1 e where p: "put_user S user n am = (am1, e)" by (cases "put_user S user n am")
  ultimately show ?thesis
    using True h inv auth_frameD(1)[OF p[unfolded put_user_def]]
    by (cases e) (auto simp: AddUser_def user_def[symmetric] auth_inv_def Let_def)
qed (auto simp: AddUser_def)

lemma inv_DeleteUser: 
  assumes "auth_inv am" "iteration_order order"
  shows "auth_inv (fst (DeleteUser S order n am))"
proof (cases "n = ''root'' \<or> gm_get (users am) n = None")
  case False
  obtain am1 e where d: "auth_delete S (authUserPrefix @ n) [] am = (am1, e)" by (cases "auth_delete S (authUserPrefix @ n) [] am")
  note f = auth_frameD(2)[OF d]
  define am2 where "am2 = am1\<lparr>users := gm_del n (users am1)\<rparr>"
  have t: "tokens_inv (tokens (drop_tokens S (\<lambda>info. Username info = n) (order (tokens am2)) am2)) (users am2)"
    using assms(1) f by (intro drop_tokens_inv[OF assms(2)]) (auto simp: am2_def auth_inv_def tokens_inv_def gomap_simps)
  have "auth_inv am1" using assms(1) f by simp
  moreover have "auth_inv (drop_tokens S (\<lambda>info. Username info = n) (order (tokens am2)) am2)"
    using t assms(1) f False users_inv_del by (auto simp: auth_inv_def am2_def gomap_simps)
  ultimately show ?thesis
    using False d by (cases e) (auto simp: DeleteUser_def Let_def am2_def)
qed (use assms in \<open>auto simp: DeleteUser_def\<close>)

text \<open>Replacing a cached user by one with the same name and allowed roles.\<close>

lemma inv_set_user:
  assumes "auth_inv am" "gm_get (users am) n = Some u" "ui_Name u' = ui_Name u" "distinct (ui_Roles u')"
    and "\<And>r. r \<in> set (ui_Roles u') \<Longrightarrow> gm_get (roles am) r \<noteq> None"
  shows "auth_inv (am\<lparr>users := gm_set n u' (users am)\<rparr>)"
proof -
  have "ui_Name u' = n" using assms(1,2,3) users_invD(1) by (auto simp: auth_inv_def)
  then show ?thesis
    using assms by (auto simp: auth_inv_def gomap_simps intro: users_inv_set elim!: tokens_inv_users)
qed

lemma inv_ChangePassword:
  assumes "auth_inv am" "iteration_order order"
  shows "auth_inv (fst (ChangePassword S B order salt n p am))"
proof (cases "gm_get (users am) n")
  case (Some u)
  show ?thesis
  proof (cases "hashPassword B salt p am")
    case (Some h)
    define u' where "u' = u\<lparr>PasswordHash := h\<rparr>"
    define am1 where "am1 = am\<lparr>users := gm_set n u' (users am)\<rparr>"
    have i: "auth_inv am1" unfolding am1_def
      by (rule inv_set_user[OF assms(1) \<open>gm_get (users am) n = Some u\<close>])
        (use assms(1) \<open>gm_get (users am) n = Some u\<close> users_invD in \<open>auto simp: u'_def auth_inv_def\<close>)
    obtain am2 e where p: "put_user S u' n am1 = (am2, e)" by (cases "put_user S u' n am1")
    note f = auth_frameD(1)[OF p[unfolded put_user_def]]
    have "tokens_inv (tokens (drop_tokens S (\<lambda>info. Username info = n) (order (tokens am2)) am2)) (users am2)"
      using i f by (intro drop_tokens_inv[OF assms(2)]) (auto simp: auth_inv_def tokens_inv_def)
    then have "auth_inv (drop_tokens S (\<lambda>info. Username info = n) (order (tokens am2)) am2)"
      using i f by (simp add: auth_inv_def)
    then show ?thesis
      using i f p Some \<open>gm_get (users am) n = Some u\<close>
      by (cases e) (simp_all add: ChangePassword_def Let_def u'_def[symmetric] am1_def[symmetric])
  qed (use assms Some in \<open>auto simp: ChangePassword_def\<close>)
qed (use assms in \<open>auto simp: ChangePassword_def\<close>)

lemma auth_inv_put_user [simp]: "auth_inv (fst (put_user S u n am)) = auth_inv am"
  by (simp add: auth_inv_def)

lemma auth_inv_put_role [simp]: "auth_inv (fst (put_role S r n am)) = auth_inv am"
  by (simp add: auth_inv_def)

lemma auth_inv_user:
  assumes "auth_inv am" "gm_get (users am) n = Some u"
  shows "distinct (ui_Roles u)" "r \<in> set (ui_Roles u) \<Longrightarrow> gm_get (roles am) r \<noteq> None"
  using assms users_invD by (auto simp: auth_inv_def)

lemma inv_GrantRole:
  assumes "auth_inv am"
  shows "auth_inv (fst (GrantRole S n r am))"
proof (cases "gm_get (users am) n")
  case (Some u)
  show ?thesis
  proof (cases "gm_get (roles am) r = None \<or> r \<in> set (ui_Roles u)")
    case False
    have "auth_inv (am\<lparr>users := gm_set n (u\<lparr>ui_Roles := ui_Roles u @ [r]\<rparr>) (users am)\<rparr>)"
      using False auth_inv_user[OF assms Some] by (intro inv_set_user[OF assms Some]) auto
    then show ?thesis using False Some by (auto simp: GrantRole_def Let_def)
  qed (use assms Some in \<open>auto simp: GrantRole_def\<close>)
qed (use assms in \<open>simp add: GrantRole_def\<close>)

lemma inv_RevokeRole:
  assumes "auth_inv am"
  shows "auth_inv (fst (RevokeRole S n r am))"
proof (cases "gm_get (users am) n")
  case (Some u)
  have "auth_inv (am\<lparr>users := gm_set n (u\<lparr>ui_Roles := filter (\<lambda>x. x \<noteq> r) (ui_Roles u)\<rparr>) (users am)\<rparr>)"
    using auth_inv_user[OF assms Some] by (intro inv_set_user[OF assms Some]) auto
  then show ?thesis using Some assms by (simp add: RevokeRole_def Let_def)
qed (use assms in \<open>simp add: RevokeRole_def\<close>)

lemma inv_AddRole: "auth_inv am \<Longrightarrow> auth_inv (fst (AddRole S now n am))"
proof (cases "gm_get (roles am) n")
  case None
  assume inv: "auth_inv am"
  define role where "role = \<lparr>ri_Name = n, Permissions = [], ri_CreatedAt = unix_seconds now\<rparr>"
  have "auth_inv (am\<lparr>roles := gm_set n role (roles am)\<rparr>)"
    using inv by (auto simp: auth_inv_def role_def gomap_simps intro: roles_inv_set elim!: users_inv_roles)
  moreover obtain am1 e where p: "put_role S role n am = (am1, e)" by (cases "put_role S role n am")
  ultimately show ?thesis
    using None inv auth_frameD(1)[OF p[unfolded put_role_def]]
    by (cases e) (auto simp: AddRole_def role_def[symmetric] auth_inv_def Let_def)
qed (auto simp: AddRole_def)

lemma inv_set_role:
  assumes "auth_inv am" "gm_get (roles am) n = Some r" "ri_Name r' = ri_Name r"
  shows "auth_inv (am\<lparr>roles := gm_set n r' (roles am)\<rparr>)"
proof -
  have "ri_Name r' = n" using assms by (auto simp: auth_inv_def roles_inv_def)
  then show ?thesis using assms by (auto simp: auth_inv_def gomap_simps intro: roles_inv_set elim!: users_inv_roles)
qed

lemma inv_GrantPermission: "auth_inv am \<Longrightarrow> auth_inv (fst (GrantPermission S n p am))"
  by (auto simp: GrantPermission_def Let_def split: option.splits intro!: inv_set_role)

lemma inv_RevokePermission: "auth_inv am \<Longrightarrow> auth_inv (fst (RevokePermission S n k e am))"
  by (auto simp: RevokePermission_def Let_def split: option.splits intro!: inv_set_role)

lemma inv_DeleteRole:
  assumes "auth_inv am" "iteration_order order"
  shows "auth_inv (fst (DeleteRole S order n am))"
proof (cases "n = ''root'' \<or> gm_get (roles am) n = None")
  case False
  define am1 where "am1 = strip_role S n (order (users am)) am"
  have wf: "gm_wf (users am)" using assms(1) by (simp add: auth_inv_def users_inv_def)
  have g: "gm_get (users am1) m = map_option (without_role n) (gm_get (users am) m)" for m
    unfolding am1_def by (rule strip_role_all[OF assms(2) wf])
  have f: "roles am1 = roles am" "tokens am1 = tokens am" "enabled am1 = enabled am" by (simp_all add: am1_def)
  have u: "users_inv (users am1) (gm_del n (roles am))"
    unfolding users_inv_def
  proof (intro conjI allI impI)
    show "gm_wf (users am1)" using strip_role_wf[OF wf] by (simp add: am1_def)
    fix m u assume "gm_get (users am1) m = Some u"
    then obtain w where w: "gm_get (users am) m = Some w" "u = without_role n w" using g by auto
    note d = users_invD[OF _ w(1), of "roles am"]
    show "ui_Name u = m" "distinct (ui_Roles u)" "\<forall>r \<in> set (ui_Roles u). gm_get (gm_del n (roles am)) r \<noteq> None"
      using d assms(1) by (auto simp: w(2) without_role_def auth_inv_def gomap_simps)
  qed
  have t: "tokens_inv (tokens am) (users am1)"
    using assms(1) g by (auto simp: auth_inv_def elim!: tokens_inv_users)
  have "auth_inv (am1\<lparr>roles := gm_del n (roles am1)\<rparr>)"
    using assms(1) u t f g by (auto simp: auth_inv_def intro: roles_inv_del)
  then show ?thesis using False by (auto simp: DeleteRole_def am1_def[symmetric] Let_def auth_inv_def)
qed (use assms in \<open>auto simp: DeleteRole_def\<close>)

lemma inv_store [simp]: "auth_inv (am\<lparr>am_store := s\<rparr>) = auth_inv am"
  by (simp add: auth_inv_def)

lemma inv_NewAuthManager_empty:
  "auth_inv \<lparr>am_store = s, enabled = False, users = [], roles = [], tokens = [], tokenTTL = ttl, bcryptCost = cost\<rparr>"
  by (simp add: auth_inv_def users_inv_def roles_inv_def tokens_inv_def)

end
