(* ===== verification/Auth_Service.thy ===== *)
theory Auth_Service
  imports Auth_Invariant
begin

text \<open>
  The gRPC side of authentication: the handlers of the Auth service (\<^verbatim>\<open>api/etcd/auth.go\<close>) and the
  interceptor that guards every unary call (\<^verbatim>\<open>api/etcd/auth_interceptor.go\<close>). Response headers, and the
  mapping of errors to gRPC codes after a handler has failed, are left out.
\<close>

section \<open>Handlers\<close>

datatype auth_request =
    AuthEnable
  | AuthDisable
  | AuthStatus
  | AuthAuthenticate string string
  | UserAdd string string
  | UserDelete string
  | UserGet string
  | UserList
  | UserChangePassword string string
  | UserGrantRole string string
  | UserRevokeRole string string
  | RoleAdd string
  | RoleDelete string
  | RoleGet string
  | RoleList
  | RoleGrantPermission string "Permission option"
  | RoleRevokePermission string string string

datatype auth_response =
    HeaderOnly
  | StatusResponse bool
  | TokenResponse string
  | RolesResponse "string list"
  | NamesResponse "string list"
  | PermissionsResponse "Permission list"

text \<open>What a call draws from its environment: the time, salt and random bytes, the iteration orders of the maps.\<close>

record auth_env =
  ae_now :: int
  ae_salt :: string
  ae_random :: "string option"
  ae_tokens :: token_order
  ae_users :: "(string \<times> UserInfo) list \<Rightarrow> (string \<times> UserInfo) list"
  ae_roles :: "(string \<times> RoleInfo) list \<Rightarrow> (string \<times> RoleInfo) list"

definition header_only :: "'a \<times> ('x + unit) \<Rightarrow> 'a \<times> ('x + auth_response)" where
  "header_only r = (fst r, case snd r of Inl e \<Rightarrow> Inl e | Inr _ \<Rightarrow> Inr HeaderOnly)"

fun auth_handler ::
    "('s, 'e) store_ops \<Rightarrow> bcrypt \<Rightarrow> auth_env \<Rightarrow> auth_request \<Rightarrow> 's AuthManager \<Rightarrow> 's AuthManager \<times> ('e auth_error + auth_response)" where
  "auth_handler S B env AuthEnable am = header_only (Enable S am)"
| "auth_handler S B env AuthDisable am = header_only (Disable S am)"
| "auth_handler S B env AuthStatus am = (am, Inr (StatusResponse (IsEnabled am)))"
| "auth_handler S B env (AuthAuthenticate name password) am =
     (case Authenticate S B (ae_now env) (ae_random env) name password am of
        (am', Inl e) \<Rightarrow> (am', Inl e)
      | (am', Inr token) \<Rightarrow> (am', Inr (TokenResponse token)))"
| "auth_handler S B env (UserAdd name password) am = header_only (AddUser S B (ae_now env) (ae_salt env) name password am)"
| "auth_handler S B env (UserDelete name) am = header_only (DeleteUser S (ae_tokens env) name am)"
| "auth_handler S B env (UserGet name) am =
     (am, case GetUser name am of Inl e \<Rightarrow> Inl e | Inr user \<Rightarrow> Inr (RolesResponse (ui_Roles user)))"
| "auth_handler S B env UserList am = (am, Inr (NamesResponse (map ui_Name (ListUsers (ae_users env) am))))"
| "auth_handler S B env (UserChangePassword name password) am =
     header_only (ChangePassword S B (ae_tokens env) (ae_salt env) name password am)"
| "auth_handler S B env (UserGrantRole user role) am = header_only (GrantRole S user role am)"
| "auth_handler S B env (UserRevokeRole user role) am = header_only (RevokeRole S user role am)"
| "auth_handler S B env (RoleAdd name) am = header_only (AddRole S (ae_now env) name am)"
| "auth_handler S B env (RoleDelete role) am = header_only (DeleteRole S (ae_users env) role am)"
| "auth_handler S B env (RoleGet role) am =
     (am, case GetRole role am of Inl e \<Rightarrow> Inl e | Inr r \<Rightarrow> Inr (PermissionsResponse (Permissions r)))"
| "auth_handler S B env RoleList am = (am, Inr (NamesResponse (map ri_Name (ListRoles (ae_roles env) am))))"
| "auth_handler S B env (RoleGrantPermission name perm) am =
     (case perm of
        None \<Rightarrow> (am, Inl AuthPermissionRequired)
      | Some p \<Rightarrow> header_only (GrantPermission S name p am))"
| "auth_handler S B env (RoleRevokePermission role key rangeEnd) am = header_only (RevokePermission S role key rangeEnd am)"

text \<open>The full gRPC method names of the handlers.\<close>

definition auth_service :: string where
  "auth_service = ''/etcdserverpb.Auth/''"

fun auth_method :: "auth_request \<Rightarrow> string" where
  "auth_method AuthEnable = auth_service @ ''AuthEnable''"
| "auth_method AuthDisable = auth_service @ ''AuthDisable''"
| "auth_method AuthStatus = auth_service @ ''AuthStatus''"
| "auth_method (AuthAuthenticate _ _) = auth_service @ ''Authenticate''"
| "auth_method (UserAdd _ _) = auth_service @ ''UserAdd''"
| "auth_method (UserDelete _) = auth_service @ ''UserDelete''"
| "auth_method (UserGet _) = auth_service @ ''UserGet''"
| "auth_method UserList = auth_service @ ''UserList''"
| "auth_method (UserChangePassword _ _) = auth_service @ ''UserChangePassword''"
| "auth_method (UserGrantRole _ _) = auth_service @ ''UserGrantRole''"
| "auth_method (UserRevokeRole _ _) = auth_service @ ''UserRevokeRole''"
| "auth_method (RoleAdd _) = auth_service @ ''RoleAdd''"
| "auth_method (RoleDelete _) = auth_service @ ''RoleDelete''"
| "auth_method (RoleGet _) = auth_service @ ''RoleGet''"
| "auth_method RoleList = auth_service @ ''RoleList''"
| "auth_method (RoleGrantPermission _ _) = auth_service @ ''RoleGrantPermission''"
| "auth_method (RoleRevokePermission _ _ _) = auth_service @ ''RoleRevokePermission''"

section \<open>Interceptor\<close>

datatype grpc_code = Unauthenticated | PermissionDenied | InvalidArgument

text \<open>
  The requests that the interceptor looks into. The key of a request is \<^const>\<open>None\<close> when the client
  left the field out, which protocol buffers decode to a nil slice.
\<close>

datatype pb_request =
    RangeRequest "string option" string
  | PutRequest "string option" string
  | DeleteRangeRequest "string option" string
  | TxnRequest nat nat
  | OtherRequest

definition isAuthAPI :: "string \<Rightarrow> bool" where
  "isAuthAPI method = (take (length auth_service) method = auth_service)"

definition kv_method :: "string \<Rightarrow> string" where
  "kv_method m = ''/etcdserverpb.KV/'' @ m"

definition admin_methods :: "string list" where
  "admin_methods =
     [''/etcdserverpb.Cluster/MemberAdd'', ''/etcdserverpb.Cluster/MemberRemove'',
      ''/etcdserverpb.Cluster/MemberUpdate'', ''/etcdserverpb.Cluster/MemberPromote'',
      ''/etcdserverpb.Maintenance/Defragment'', ''/etcdserverpb.Maintenance/MoveLeader'']"

text \<open>
  The key and the permission type that a request needs; \<^const>\<open>None\<close> is an error. A nil key means that no
  permission is checked, as for the watch, lease, member list and maintenance reads and every method
  that is not named.
\<close>

definition extractPermissionFromRequest :: "string \<Rightarrow> pb_request \<Rightarrow> (string option \<times> int) option" where
  "extractPermissionFromRequest method req =
     (if method = kv_method ''Range'' then
        (case req of RangeRequest key _ \<Rightarrow> Some (key, PermissionRead) | _ \<Rightarrow> None)
      else if method = kv_method ''Put'' then
        (case req of PutRequest key _ \<Rightarrow> Some (key, PermissionWrite) | _ \<Rightarrow> None)
      else if method = kv_method ''DeleteRange'' then
        (case req of DeleteRangeRequest key _ \<Rightarrow> Some (key, PermissionWrite) | _ \<Rightarrow> None)
      else if method = kv_method ''Txn'' then
        (case req of
           TxnRequest success failure \<Rightarrow>
             Some (if 0 < success \<or> 0 < failure then Some [] else None, PermissionReadWrite)
         | _ \<Rightarrow> None)
      else if method = kv_method ''Compact'' \<or> method \<in> set admin_methods then Some (Some [], PermissionWrite)
      else Some (None, PermissionRead))"

text \<open>A call is rejected, or handled on behalf of a user if one was authenticated.\<close>

datatype verdict = Reject grpc_code | Handle "string option"

definition authenticated :: "int \<Rightarrow> string list option \<Rightarrow> 's AuthManager \<Rightarrow> (string \<Rightarrow> verdict) \<Rightarrow> verdict" where
  "authenticated now md am k =
     (case md of
        None \<Rightarrow> Reject Unauthenticated
      | Some [] \<Rightarrow> Reject Unauthenticated
      | Some (token # _) \<Rightarrow>
          (case ValidateToken now token am :: unit auth_error + TokenInfo of
             Inl _ \<Rightarrow> Reject Unauthenticated
           | Inr info \<Rightarrow> k (Username info)))"

definition checkRootPermission :: "int \<Rightarrow> string list option \<Rightarrow> 's AuthManager \<Rightarrow> verdict" where
  "checkRootPermission now md am =
     authenticated now md am (\<lambda>user. if user \<noteq> ''root'' then Reject PermissionDenied else Handle (Some user))"

definition AuthInterceptor :: "int \<Rightarrow> string list option \<Rightarrow> string \<Rightarrow> pb_request \<Rightarrow> 's AuthManager \<Rightarrow> verdict" where
  "AuthInterceptor now md method req am =
     (if \<not> IsEnabled am then Handle None
      else if isAuthAPI method then
        if method = auth_service @ ''AuthDisable'' then checkRootPermission now md am else Handle None
      else
        authenticated now md am (\<lambda>user.
          case extractPermissionFromRequest method req of
            None \<Rightarrow> Reject InvalidArgument
          | Some (None, _) \<Rightarrow> Handle (Some user)
          | Some (Some key, permType) \<Rightarrow>
              (case CheckPermission user key permType am :: unit auth_error + unit of
                 Inl _ \<Rightarrow> Reject PermissionDenied
               | Inr _ \<Rightarrow> Handle (Some user))))"

text \<open>A call of the Auth service through the interceptor.\<close>

datatype 'e call_result = Rejected grpc_code | Failed "'e auth_error" | Answered auth_response

definition auth_call ::
    "('s, 'e) store_ops \<Rightarrow> bcrypt \<Rightarrow> auth_env \<Rightarrow> string list option \<Rightarrow> auth_request \<Rightarrow> 's AuthManager \<Rightarrow>
     's AuthManager \<times> 'e call_result" where
  "auth_call S B env md req am =
     (case AuthInterceptor (ae_now env) md (auth_method req) OtherRequest am of
        Reject c \<Rightarrow> (am, Rejected c)
      | Handle _ \<Rightarrow>
          (case auth_handler S B env req am of
             (am', Inl e) \<Rightarrow> (am', Failed e)
           | (am', Inr r) \<Rightarrow> (am', Answered r)))"

section \<open>Reachable managers\<close>

definition env_ok :: "auth_env \<Rightarrow> bool" where
  "env_ok env \<longleftrightarrow> iteration_order (ae_tokens env) \<and> iteration_order (ae_users env) \<and> iteration_order (ae_roles env)"

text \<open>Calls of the service, ticks of the cleanup, and other writers of the store.\<close>

inductive auth_step :: "('s, 'e) store_ops \<Rightarrow> bcrypt \<Rightarrow> 's AuthManager \<Rightarrow> 's AuthManager \<Rightarrow> bool" for S B where
  auth_step_call: "env_ok env \<Longrightarrow> auth_step S B am (fst (auth_call S B env md req am))"
| auth_step_cleanup: "env_ok env \<Longrightarrow> auth_step S B am (cleanupExpiredTokens S (ae_tokens env) (ae_now env) am)"
| auth_step_store: "auth_step S B am (am\<lparr>am_store := s\<rparr>)"

definition empty_manager :: "int \<Rightarrow> int \<Rightarrow> 's \<Rightarrow> 's AuthManager" where
  "empty_manager ttl cost s =
     \<lparr>am_store = s, enabled = False, users = [], roles = [], tokens = [], tokenTTL = ttl, bcryptCost = cost\<rparr>"

definition auth_reach :: "('s, 'e) store_ops \<Rightarrow> bcrypt \<Rightarrow> 's AuthManager \<Rightarrow> bool" where
  "auth_reach S B am \<longleftrightarrow> (\<exists>ttl cost s. (auth_step S B)\<^sup>*\<^sup>* (empty_manager ttl cost s) am)"

lemma fst_header_only [simp]: "fst (header_only r) = fst r"
  by (simp add: header_only_def)

lemma inv_auth_handler: "auth_inv am \<Longrightarrow> env_ok env \<Longrightarrow> auth_inv (fst (auth_handler S B env req am))"
proof (cases req)
  case (AuthAuthenticate n p)
  assume "auth_inv am"
  moreover obtain am1 r where "Authenticate S B (ae_now env) (ae_random env) n p am = (am1, r)"
    by (cases "Authenticate S B (ae_now env) (ae_random env) n p am")
  ultimately show ?thesis
    using inv_Authenticate[of am S B "ae_now env" "ae_random env" n p] AuthAuthenticate by (cases r) simp_all
qed (auto simp: env_ok_def inv_Enable inv_Disable inv_AddUser inv_DeleteUser inv_ChangePassword inv_GrantRole
      inv_RevokeRole inv_AddRole inv_DeleteRole inv_GrantPermission inv_RevokePermission split: option.splits)

lemma fst_auth_call: "fst (auth_call S B env md req am) = am \<or>
    fst (auth_call S B env md req am) = fst (auth_handler S B env req am)"
  by (auto simp: auth_call_def split: verdict.splits prod.splits sum.splits)

lemma inv_auth_step: "auth_step S B am am' \<Longrightarrow> auth_inv am \<Longrightarrow> auth_inv am'"
proof (induction rule: auth_step.induct)
  case (auth_step_call env am md req)
  then show ?case using fst_auth_call[of S B env md req am] inv_auth_handler by metis
qed (auto simp: env_ok_def inv_cleanup)

lemma inv_auth_reach: "auth_reach S B am \<Longrightarrow> auth_inv am"
proof -
  assume "auth_reach S B am"
  then obtain ttl cost s where r: "(auth_step S B)\<^sup>*\<^sup>* (empty_manager ttl cost s) am" by (auto simp: auth_reach_def)
  show ?thesis using r
    by (induction rule: rtranclp_induct) (auto simp: empty_manager_def inv_NewAuthManager_empty intro: inv_auth_step)
qed

section \<open>Permissions\<close>

text \<open>The set of permissions that a user holds through the roles.\<close>

definition granted :: "'s AuthManager \<Rightarrow> UserInfo \<Rightarrow> Permission set" where
  "granted am u = {p. \<exists>r \<in> set (ui_Roles u). \<exists>role. gm_get (roles am) r = Some role \<and> p \<in> set (Permissions role)}"

definition allows :: "int \<Rightarrow> string \<Rightarrow> Permission \<Rightarrow> bool" where
  "allows permType key p \<longleftrightarrow>
     (pm_Type p = PermissionReadWrite \<or> pm_Type p = permType \<and> permType \<noteq> PermissionReadWrite) \<and> covers (pm_Key p) (pm_RangeEnd p) key"

lemma keyInRange_covers: "keyInRange key start end = covers start end key"
  by (simp add: keyInRange_def covers_def in_key_range_def zero_byte_def)

lemma check_perms_iff: "check_perms key t ps \<longleftrightarrow> (\<exists>p \<in> set ps. hasPermission t p \<and> covers (pm_Key p) (pm_RangeEnd p) key)"
  by (induction ps) (auto simp: keyInRange_covers)

lemma check_roles_iff:
  "check_roles key t rs am \<longleftrightarrow>
     (\<exists>r \<in> set rs. \<exists>role. gm_get (roles am) r = Some role \<and>
        (\<exists>p \<in> set (Permissions role). hasPermission t p \<and> covers (pm_Key p) (pm_RangeEnd p) key))"
  by (induction rs) (auto simp: check_perms_iff split: option.splits)

lemma hasPermission_allows:
  "t \<in> {PermissionRead, PermissionWrite, PermissionReadWrite} \<Longrightarrow>
   hasPermission t p \<and> covers (pm_Key p) (pm_RangeEnd p) key \<longleftrightarrow> allows t key p"
  by (auto simp: hasPermission_def allows_def PermissionRead_def PermissionWrite_def PermissionReadWrite_def)

lemma check_roles_granted:
  assumes "t \<in> {PermissionRead, PermissionWrite, PermissionReadWrite}"
  shows "check_roles key t (ui_Roles u) am \<longleftrightarrow>
    (\<exists>p \<in> granted am u. (pm_Type p = PermissionReadWrite \<or> pm_Type p = t) \<and> covers (pm_Key p) (pm_RangeEnd p) key)"
  unfolding check_roles_iff granted_def hasPermission_allows[OF assms] allows_def by blast

end
