(* ===== verification/Auth_Recovery.thy ===== *)
theory Auth_Recovery
  imports Auth_Service
begin

text \<open>
  Restart of the authentication manager. On a store whose writes do not fail, the users, roles and
  tokens in memory are at every moment those under their prefixes in the store, so that a manager
  created on the same store comes back with them.
\<close>

section \<open>Prefix intervals\<close>

definition no_ff :: "string \<Rightarrow> bool" where
  "no_ff s \<longleftrightarrow> s = [] \<or> hd s \<noteq> CHR 0xFF"

lemma char_le_ff: "c \<le> CHR 0xFF"
  using code_less[of c] by (simp add: less_eq_char_def del: code_less)

lemma char_less_ff: "c < CHR 0xFF \<longleftrightarrow> c \<noteq> CHR 0xFF"
  using char_le_ff[of c] by (auto simp: less_le)

lemma prefix_less: "p @ s < p @ [CHR 0xFF] \<longleftrightarrow> no_ff s"
proof (induction p)
  case Nil
  show ?case by (cases s) (simp_all add: no_ff_def char_less_ff)
qed simp

lemma between_prefix: "p \<le> k \<Longrightarrow> k < p @ [c] \<Longrightarrow> \<exists>s. k = p @ (s :: string)"
proof (induction p arbitrary: k)
  case (Cons a p)
  obtain b k' where k: "k = b # k'" using Cons.prems(1) by (cases k) auto
  then have "b = a \<and> p \<le> k' \<and> k' < p @ [c]" using Cons.prems by (auto simp: Cons_le_Cons)
  then show ?case using Cons.IH k by auto
qed simp

lemma covers_prefix: "covers p (prefix_end p) k \<longleftrightarrow> (\<exists>s. k = p @ s \<and> no_ff s)"
proof
  assume c: "covers p (prefix_end p) k"
  have ne: "prefix_end p \<noteq> zero_byte" by (cases p) (auto simp: prefix_end_def zero_byte_def)
  then have b: "p \<le> k" "k < p @ [CHR 0xFF]" using c by (auto simp: covers_def in_key_range_def prefix_end_def)
  then show "\<exists>s. k = p @ s \<and> no_ff s" using between_prefix prefix_less by blast
next
  assume "\<exists>s. k = p @ s \<and> no_ff s"
  then show "covers p (prefix_end p) k" by (auto simp: covers_def in_key_range_def prefix_end_def prefix_le prefix_less)
qed

lemma utf8_no_ff: "utf8_valid s \<Longrightarrow> no_ff s"
  by (cases s) (auto simp: no_ff_def utf8_valid.simps)

lemma b64_url_no_ff: "no_ff (b64_url_encode s)"
proof -
  have d: "b64_digit (CHR ''-'') (CHR ''_'') n \<noteq> CHR 0xFF" for n
    by (auto simp: b64_digit_def char_of_eq_iff take_bit_eq_mod)
  show ?thesis
    by (cases "(b64_digit (CHR ''-'') (CHR ''_''), s)" rule: b64_encode.cases)
      (auto simp: b64_url_encode_def no_ff_def Let_def d)
qed

section \<open>What is persisted\<close>

definition persisted :: "(string \<rightharpoonup> string) \<Rightarrow> 's AuthManager \<Rightarrow> bool" where
  "persisted v am \<longleftrightarrow>
     (\<forall>n. v (authUserPrefix @ n) = map_option (\<lambda>u. json_print (user_json u)) (gm_get (users am) n)) \<and>
     (\<forall>n. v (authRolePrefix @ n) = map_option (\<lambda>r. json_print (role_json r)) (gm_get (roles am) n)) \<and>
     (\<forall>t. v (authTokenPrefix @ t) = map_option (\<lambda>i. json_print (token_json i)) (gm_get (tokens am) t)) \<and>
     (v authEnabledKey = Some ''true'' \<longleftrightarrow> enabled am) \<and>
     (\<forall>t. gm_get (tokens am) t \<noteq> None \<longrightarrow> no_ff t)"

lemmas auth_keys = authEnabledKey_def authUserPrefix_def authRolePrefix_def authTokenPrefix_def

lemma persisted_store [simp]: "persisted v (am\<lparr>am_store := s\<rparr>) = persisted v am"
  by (simp add: persisted_def)

lemma persisted_user:
  "persisted v am \<Longrightarrow> persisted (v(authUserPrefix @ n \<mapsto> json_print (user_json u))) (am\<lparr>users := gm_set n u (users am)\<rparr>)"
  by (simp add: persisted_def gomap_simps) (simp add: auth_keys)

lemma persisted_role:
  "persisted v am \<Longrightarrow> persisted (v(authRolePrefix @ n \<mapsto> json_print (role_json r))) (am\<lparr>roles := gm_set n r (roles am)\<rparr>)"
  by (simp add: persisted_def gomap_simps) (simp add: auth_keys)

lemma persisted_token:
  "persisted v am \<Longrightarrow> no_ff t \<Longrightarrow>
   persisted (v(authTokenPrefix @ t \<mapsto> json_print (token_json i))) (am\<lparr>tokens := gm_set t i (tokens am)\<rparr>)"
  by (simp add: persisted_def gomap_simps) (simp add: auth_keys)

lemma persisted_enabled:
  "persisted v am \<Longrightarrow> persisted (v(authEnabledKey \<mapsto> (if b then ''true'' else ''false''))) (am\<lparr>enabled := b\<rparr>)"
  by (simp add: persisted_def) (simp add: auth_keys)

lemma persisted_del_user:
  "persisted v am \<Longrightarrow> persisted (v(authUserPrefix @ n := None)) (am\<lparr>users := gm_del n (users am)\<rparr>)"
  by (simp add: persisted_def gomap_simps) (simp add: auth_keys)

lemma persisted_del_role:
  "persisted v am \<Longrightarrow> persisted (v(authRolePrefix @ n := None)) (am\<lparr>roles := gm_del n (roles am)\<rparr>)"
  by (simp add: persisted_def gomap_simps) (simp add: auth_keys)

lemma persisted_del_token:
  "persisted v am \<Longrightarrow> persisted (v(authTokenPrefix @ t := None)) (am\<lparr>tokens := gm_del t (tokens am)\<rparr>)"
  by (simp add: persisted_def gomap_simps) (simp add: auth_keys)

lemma persisted_del_tokens:
  "persisted v am \<Longrightarrow> persisted (\<lambda>k. if \<exists>s. k = authTokenPrefix @ s \<and> no_ff s then None else v k) (am\<lparr>tokens := []\<rparr>)"
  by (simp add: persisted_def) (auto simp: auth_keys)

section \<open>Loading\<close>

text \<open>The three loops of the loader at once: decode each value, keep it under its own name.\<close>

definition load_entry :: "(string \<Rightarrow> 'a option) \<Rightarrow> ('a \<Rightarrow> string) \<Rightarrow> ('a \<Rightarrow> bool) \<Rightarrow> key_value \<Rightarrow> (string, 'a) gomap \<Rightarrow> (string, 'a) gomap" where
  "load_entry dec name keep kv m = (case dec (kv_Value kv) of None \<Rightarrow> m | Some x \<Rightarrow> if keep x then gm_set (name x) x m else m)"

lemma load_entry_eqs:
  "load_user = load_entry unmarshal_user ui_Name (\<lambda>_. True)"
  "load_role = load_entry unmarshal_role ri_Name (\<lambda>_. True)"
  "load_token now = load_entry unmarshal_token ti_Token (\<lambda>t. now < ExpiresAt t)"
  by (simp_all add: fun_eq_iff load_user_def load_role_def load_token_def load_entry_def split: option.split)

lemma fold_load_entry:
  assumes "distinct (map kv_Key kvs)" "\<And>kv. kv \<in> set kvs \<Longrightarrow> \<exists>x. dec (kv_Value kv) = Some x \<and> kv_Key kv = p @ name x"
  shows "gm_get (fold (load_entry dec name keep) kvs m) n =
    (case map_of (map (\<lambda>kv. (kv_Key kv, kv_Value kv)) kvs) (p @ n) of
       None \<Rightarrow> gm_get m n
     | Some v \<Rightarrow> if keep (the (dec v)) then dec v else gm_get m n)"
  using assms
proof (induction kvs arbitrary: m)
  case (Cons kv kvs)
  obtain x where x: "dec (kv_Value kv) = Some x" "kv_Key kv = p @ name x" using Cons.prems(2) by auto
  have "map_of (map (\<lambda>kv. (kv_Key kv, kv_Value kv)) kvs) (p @ name x) = None"
    using Cons.prems(1) x(2) by (auto simp: map_of_eq_None_iff comp_def)
  then show ?case
    using Cons.IH[of "load_entry dec name keep kv m"] Cons.prems x
    by (auto simp: load_entry_def gomap_simps split: option.splits)
qed simp

text \<open>
  Managers reached from an empty key space by calls of the service and ticks of the cleanup, while
  other writers of the store stay away from the keys of the manager.
\<close>

inductive quiet_step ::
    "('s, 'e) store_ops \<Rightarrow> bcrypt \<Rightarrow> ('s \<Rightarrow> string \<rightharpoonup> string) \<Rightarrow> ('s \<Rightarrow> bool) \<Rightarrow> 's AuthManager \<Rightarrow> 's AuthManager \<Rightarrow> bool"
    for S B view ok where
  quiet_call: "env_ok env \<Longrightarrow> quiet_step S B view ok am (fst (auth_call S B env md req am))"
| quiet_cleanup: "env_ok env \<Longrightarrow> quiet_step S B view ok am (cleanupExpiredTokens S (ae_tokens env) (ae_now env) am)"
| quiet_store: "ok s \<Longrightarrow> (\<And>k. take 8 k = ''/__auth/'' \<Longrightarrow> view s k = view (am_store am) k) \<Longrightarrow>
    quiet_step S B view ok am (am\<lparr>am_store := s\<rparr>)"

definition quiet_reach ::
    "('s, 'e) store_ops \<Rightarrow> bcrypt \<Rightarrow> ('s \<Rightarrow> string \<rightharpoonup> string) \<Rightarrow> ('s \<Rightarrow> bool) \<Rightarrow> 's AuthManager \<Rightarrow> bool" where
  "quiet_reach S B view ok am \<longleftrightarrow>
     (\<exists>ttl cost s. ok s \<and> (\<forall>k. take 8 k = ''/__auth/'' \<longrightarrow> view s k = None) \<and>
        (quiet_step S B view ok)\<^sup>*\<^sup>* (empty_manager ttl cost s) am)"

lemma persisted_same:
  "(\<And>k. take 8 k = ''/__auth/'' \<Longrightarrow> v' k = v k) \<Longrightarrow> persisted v' am = persisted v am"
  by (simp add: persisted_def auth_keys)

lemma persisted_empty:
  "(\<And>k. take 8 k = ''/__auth/'' \<Longrightarrow> v k = None) \<Longrightarrow> persisted v (empty_manager ttl cost s)"
  by (simp add: persisted_def auth_keys empty_manager_def)

definition json_stable :: "'s AuthManager \<Rightarrow> bool" where
  "json_stable am \<longleftrightarrow> (\<forall>n u. gm_get (users am) n = Some u \<longrightarrow> user_ok u) \<and>
     (\<forall>n r. gm_get (roles am) n = Some r \<longrightarrow> role_ok r) \<and> (\<forall>t i. gm_get (tokens am) t = Some i \<longrightarrow> token_ok i)"

context kv_store
begin

lemma load_prefix:
  assumes "ok s" "never_fails S" "am_store am = s"
    and "\<And>n. view s (p @ n) = map_option enc (M n)"
    and "\<And>n x. M n = Some x \<Longrightarrow> dec (enc x) = Some x \<and> name x = n \<and> no_ff n"
  shows "gm_get (fold (load_entry dec name keep) (range_prefix S p am) []) n =
    (case M n of None \<Rightarrow> None | Some x \<Rightarrow> if keep x then Some x else None)"
proof -
  obtain resp where r: "st_Range S p (prefix_end p) 0 0 s = Inr resp" using assms(2) by (metis never_fails_def)
  have kvs: "range_prefix S p am = rr_Kvs resp" using r assms(3) by (simp add: range_prefix_def)
  note sc = range_scan[OF assms(1) r]
  have d: "distinct (map kv_Key (rr_Kvs resp))" using sc by (simp add: pairs_def comp_def)
  have e: "\<exists>x. dec (kv_Value kv) = Some x \<and> kv_Key kv = p @ name x" if "kv \<in> set (rr_Kvs resp)" for kv
  proof -
    have "(kv_Key kv, kv_Value kv) \<in> set (pairs resp)" using that by (auto simp: pairs_def)
    then obtain n where "kv_Key kv = p @ n" "view s (kv_Key kv) = Some (kv_Value kv)"
      using sc by (auto simp: covers_prefix)
    then show ?thesis using assms(4)[of n] assms(5) by fastforce
  qed
  have m: "map_of (map (\<lambda>kv. (kv_Key kv, kv_Value kv)) (rr_Kvs resp)) (p @ n) = (if no_ff n then map_option enc (M n) else None)"
    using scan_get[OF assms(1) r, of "p @ n"] assms(4) by (simp add: pairs_def covers_prefix)
  have "gm_get (fold (load_entry dec name keep) (rr_Kvs resp) []) n =
    (case map_of (map (\<lambda>kv. (kv_Key kv, kv_Value kv)) (rr_Kvs resp)) (p @ n) of
       None \<Rightarrow> None | Some v \<Rightarrow> if keep (the (dec v)) then dec v else None)"
    using fold_load_entry[where dec = dec and name = name and p = p and m = "[]" and keep = keep and n = n, OF d e]
    by (simp split: option.split)
  then show ?thesis unfolding kvs m using assms(5) by (cases "M n") auto
qed

text \<open>Every write goes to the store and to memory.\<close>

definition synced :: "'s AuthManager \<Rightarrow> bool" where
  "synced am \<longleftrightarrow> ok (am_store am) \<and> persisted (view (am_store am)) am"

lemma put_synced:
  assumes "never_fails S" "ok (am_store am)" "persisted ((view (am_store am))(k \<mapsto> v)) am"
  shows "\<exists>am'. auth_put S k v am = (am', None) \<and> synced am'"
proof -
  obtain s' x where "st_PutWithLease S k v 0 (am_store am) = (s', Inr x)" using assms(1) by (metis never_fails_def)
  then show ?thesis using put_ok[OF assms(2)] put_view[OF assms(2)] assms(3) by (auto simp: auth_put_def synced_def)
qed

lemma delete_synced:
  assumes "never_fails S" "ok (am_store am)"
    and "persisted (\<lambda>x. if covers k e x then None else view (am_store am) x) am"
  shows "\<exists>am'. auth_delete S k e am = (am', None) \<and> synced am'"
proof -
  obtain s' y where "st_DeleteRange S k e (am_store am) = (s', Inr y)" using assms(1) by (metis never_fails_def)
  then show ?thesis using del_ok[OF assms(2)] del_view[OF assms(2)] assms(3) by (auto simp: auth_delete_def synced_def)
qed

lemma synced_put_user:
  "never_fails S \<Longrightarrow> synced am \<Longrightarrow> \<exists>am'. put_user S u n (am\<lparr>users := gm_set n u (users am)\<rparr>) = (am', None) \<and> synced am'"
  unfolding put_user_def by (rule put_synced) (auto simp: synced_def intro: persisted_user)

lemma synced_put_role:
  "never_fails S \<Longrightarrow> synced am \<Longrightarrow> \<exists>am'. put_role S r n (am\<lparr>roles := gm_set n r (roles am)\<rparr>) = (am', None) \<and> synced am'"
  unfolding put_role_def by (rule put_synced) (auto simp: synced_def intro: persisted_role)

lemma synced_delete_token:
  assumes "never_fails S" "synced am"
  shows "synced (fst (auth_delete S (authTokenPrefix @ t) [] (am\<lparr>tokens := gm_del t (tokens am)\<rparr>)))"
proof -
  let ?am = "am\<lparr>tokens := gm_del t (tokens am)\<rparr>"
  have "persisted (\<lambda>x. if covers (authTokenPrefix @ t) [] x then None else view (am_store ?am) x) ?am"
    using persisted_del_token[of "view (am_store am)" am t] assms(2) by (simp add: synced_def covers_def fun_upd_def cong: if_cong)
  then show ?thesis using delete_synced[OF assms(1), of ?am] assms(2) by (force simp: synced_def)
qed

lemma synced_drop_tokens: "never_fails S \<Longrightarrow> synced am \<Longrightarrow> synced (drop_tokens S P ts am)"
  by (induction ts arbitrary: am) (auto simp: synced_delete_token)

lemma synced_strip_role: "never_fails S \<Longrightarrow> synced am \<Longrightarrow> synced (strip_role S name us am)"
proof (induction us arbitrary: am)
  case (Cons x us)
  obtain k u where x: "x = (k, u)" by (cases x)
  show ?case
    using Cons synced_put_user[OF Cons.prems, of "u\<lparr>ui_Roles := filter (\<lambda>r. r \<noteq> name) (ui_Roles u)\<rparr>" k]
    by (auto simp: x Let_def)
qed simp

section \<open>Preservation\<close>

lemma synced_Enable: "never_fails S \<Longrightarrow> synced am \<Longrightarrow> synced (fst (Enable S am))"
  using put_synced[of "am\<lparr>enabled := True\<rparr>" authEnabledKey "''true''"] persisted_enabled[of "view (am_store am)" am True]
  by (auto simp: Enable_def synced_def)

lemma synced_Disable:
  assumes "never_fails S" "synced am"
  shows "synced (fst (Disable S am))"
proof -
  obtain am1 where p: "auth_put S authEnabledKey ''false'' (am\<lparr>enabled := False\<rparr>) = (am1, None)" "synced am1"
    using put_synced[of "am\<lparr>enabled := False\<rparr>" authEnabledKey "''false''"] assms
      persisted_enabled[of "view (am_store am)" am False] by (auto simp: synced_def)
  let ?am = "am1\<lparr>tokens := []\<rparr>"
  have "persisted (\<lambda>x. if covers authTokenPrefix (prefix_end authTokenPrefix) x then None else view (am_store ?am) x) ?am"
    using persisted_del_tokens[of "view (am_store am1)" am1] p(2) by (simp add: synced_def covers_prefix cong: if_cong)
  then show ?thesis using delete_synced[OF assms(1), of ?am] p by (force simp: synced_def Disable_def)
qed

lemma synced_Authenticate:
  assumes "never_fails S" "synced am"
  shows "synced (fst (Authenticate S B now rnd n pw am))"
proof (cases "gm_get (users am) n")
  case (Some u)
  show ?thesis
  proof (cases "checkPasswordHash B pw (PasswordHash u) \<and> rnd \<noteq> None")
    case True
    then obtain b where b: "rnd = Some b" by auto
    define tok where "tok = b64_url_encode b"
    define info where "info = \<lparr>ti_Token = tok, Username = n, ExpiresAt = unix_seconds (now + tokenTTL am)\<rparr>"
    obtain am2 where "auth_put S (authTokenPrefix @ tok) (json_print (token_json info)) (am\<lparr>tokens := gm_set tok info (tokens am)\<rparr>) =
        (am2, None)" "synced am2"
      using put_synced[of "am\<lparr>tokens := gm_set tok info (tokens am)\<rparr>" "authTokenPrefix @ tok" "json_print (token_json info)"]
        assms persisted_token[of "view (am_store am)" am tok info] b64_url_no_ff[of b] by (auto simp: synced_def tok_def)
    then show ?thesis
      using Some True b by (simp add: Authenticate_def generateToken_def tok_def[symmetric] info_def[symmetric] Let_def)
  qed (use Some assms in \<open>auto simp: Authenticate_def generateToken_def\<close>)
qed (use assms in \<open>simp add: Authenticate_def\<close>)

lemma auth_put_commute:
  "auth_put S k v am = (am1, e) \<Longrightarrow> auth_put S k v (am\<lparr>users := us\<rparr>) = (am1\<lparr>users := us\<rparr>, e)"
  "auth_put S k v am = (am1, e) \<Longrightarrow> auth_put S k v (am\<lparr>roles := rs\<rparr>) = (am1\<lparr>roles := rs\<rparr>, e)"
  "auth_delete S k r am = (am1, e) \<Longrightarrow> auth_delete S k r (am\<lparr>users := us\<rparr>) = (am1\<lparr>users := us\<rparr>, e)"
  by (auto simp: auth_put_def auth_delete_def split: prod.splits sum.splits)

lemma synced_AddUser:
  assumes "never_fails S" "synced am"
  shows "synced (fst (AddUser S B now salt n pw am))"
proof (cases "gm_get (users am) n = None \<and> hashPassword B salt pw am \<noteq> None")
  case True
  then obtain h where h: "hashPassword B salt pw am = Some h" by auto
  define u where "u = \<lparr>ui_Name = n, PasswordHash = h, ui_Roles = [], ui_CreatedAt = unix_seconds now\<rparr>"
  obtain am1 e where p: "put_user S u n am = (am1, e)" by (cases "put_user S u n am")
  have us: "users am1 = users am" using put_user_frame(1)[of S u n am] p by simp
  have "e = None" "synced (am1\<lparr>users := gm_set n u (users am)\<rparr>)"
    using synced_put_user[OF assms, of u n] auth_put_commute(1)[OF p[unfolded put_user_def]]
    by (auto simp: put_user_def)
  then show ?thesis using True h p us by (simp add: AddUser_def u_def[symmetric] Let_def)
qed (use assms in \<open>auto simp: AddUser_def\<close>)

lemma synced_AddRole:
  assumes "never_fails S" "synced am"
  shows "synced (fst (AddRole S now n am))"
proof (cases "gm_get (roles am) n")
  case None
  define r where "r = \<lparr>ri_Name = n, Permissions = [], ri_CreatedAt = unix_seconds now\<rparr>"
  obtain am1 e where p: "put_role S r n am = (am1, e)" by (cases "put_role S r n am")
  have rs: "roles am1 = roles am" using put_role_frame(2)[of S r n am] p by simp
  have "e = None" "synced (am1\<lparr>roles := gm_set n r (roles am)\<rparr>)"
    using synced_put_role[OF assms, of r n] auth_put_commute(2)[OF p[unfolded put_role_def]]
    by (auto simp: put_role_def)
  then show ?thesis using None p rs by (simp add: AddRole_def r_def[symmetric] Let_def)
qed (use assms in \<open>auto simp: AddRole_def\<close>)

lemma synced_DeleteUser:
  assumes "never_fails S" "synced am"
  shows "synced (fst (DeleteUser S order n am))"
proof (cases "n = ''root'' \<or> gm_get (users am) n = None")
  case False
  let ?am = "am\<lparr>users := gm_del n (users am)\<rparr>"
  obtain am1 e where d: "auth_delete S (authUserPrefix @ n) [] am = (am1, e)" by (cases "auth_delete S (authUserPrefix @ n) [] am")
  have us: "users am1 = users am" using auth_frameD(2)[OF d] by simp
  have "persisted (\<lambda>x. if covers (authUserPrefix @ n) [] x then None else view (am_store ?am) x) ?am"
    using persisted_del_user[of "view (am_store am)" am n] assms(2) by (simp add: synced_def covers_def fun_upd_def cong: if_cong)
  then have "e = None" "synced (am1\<lparr>users := gm_del n (users am)\<rparr>)"
    using delete_synced[OF assms(1), of ?am "authUserPrefix @ n" "[]"] auth_put_commute(3)[OF d] assms(2) by (auto simp: synced_def)
  then show ?thesis using False d us synced_drop_tokens[OF assms(1)] by (auto simp: DeleteUser_def Let_def)
qed (use assms in \<open>auto simp: DeleteUser_def\<close>)

lemma synced_DeleteRole:
  assumes "never_fails S" "synced am"
  shows "synced (fst (DeleteRole S order n am))"
proof (cases "n = ''root'' \<or> gm_get (roles am) n = None")
  case False
  define am1 where "am1 = strip_role S n (order (users am)) am"
  have s: "synced am1" unfolding am1_def by (rule synced_strip_role[OF assms])
  let ?am = "am1\<lparr>roles := gm_del n (roles am1)\<rparr>"
  have "persisted (\<lambda>x. if covers (authRolePrefix @ n) [] x then None else view (am_store ?am) x) ?am"
    using persisted_del_role[of "view (am_store am1)" am1 n] s by (simp add: synced_def covers_def fun_upd_def cong: if_cong)
  then show ?thesis
    using delete_synced[OF assms(1), of ?am "authRolePrefix @ n" "[]"] False s
    by (auto simp: DeleteRole_def Let_def am1_def[symmetric] synced_def)
qed (use assms in \<open>auto simp: DeleteRole_def\<close>)

lemma synced_ChangePassword:
  assumes "never_fails S" "synced am"
  shows "synced (fst (ChangePassword S B order salt n pw am))"
proof (cases "gm_get (users am) n")
  case (Some u)
  show ?thesis
  proof (cases "hashPassword B salt pw am")
    case (Some h)
    obtain am2 where "put_user S (u\<lparr>PasswordHash := h\<rparr>) n (am\<lparr>users := gm_set n (u\<lparr>PasswordHash := h\<rparr>) (users am)\<rparr>) = (am2, None)"
      "synced am2" using synced_put_user[OF assms, of "u\<lparr>PasswordHash := h\<rparr>" n] by blast
    then show ?thesis
      using Some \<open>gm_get (users am) n = Some u\<close> synced_drop_tokens[OF assms(1)] by (simp add: ChangePassword_def Let_def)
  qed (use Some assms in \<open>simp add: ChangePassword_def\<close>)
qed (use assms in \<open>simp add: ChangePassword_def\<close>)

lemma synced_cached:
  "never_fails S \<Longrightarrow> synced am \<Longrightarrow> synced (fst (GrantRole S n r am))"
  "never_fails S \<Longrightarrow> synced am \<Longrightarrow> synced (fst (RevokeRole S n r am))"
  "never_fails S \<Longrightarrow> synced am \<Longrightarrow> synced (fst (GrantPermission S n p am))"
  "never_fails S \<Longrightarrow> synced am \<Longrightarrow> synced (fst (RevokePermission S n k e am))"
proof -
  assume nf: "never_fails S" and sy: "synced am"
  have u: "synced (fst (put_user S u m (am\<lparr>users := gm_set m u (users am)\<rparr>)))" for u m
    using synced_put_user[OF nf sy, of u m] by auto
  have r: "synced (fst (put_role S q m (am\<lparr>roles := gm_set m q (roles am)\<rparr>)))" for q m
    using synced_put_role[OF nf sy, of q m] by auto
  show "synced (fst (GrantRole S n r am))" "synced (fst (RevokeRole S n r am))"
    "synced (fst (GrantPermission S n p am))" "synced (fst (RevokePermission S n k e am))"
    using u r sy by (auto simp: GrantRole_def RevokeRole_def GrantPermission_def RevokePermission_def Let_def split: option.splits)
qed

lemma synced_handler: "never_fails S \<Longrightarrow> synced am \<Longrightarrow> synced (fst (auth_handler S B env req am))"
proof (cases req)
  case (AuthAuthenticate n p)
  assume "never_fails S" "synced am"
  moreover obtain am1 r where "Authenticate S B (ae_now env) (ae_random env) n p am = (am1, r)"
    by (cases "Authenticate S B (ae_now env) (ae_random env) n p am")
  ultimately show ?thesis
    using synced_Authenticate[of am B "ae_now env" "ae_random env" n p] AuthAuthenticate by (cases r) simp_all
qed (auto simp: synced_Enable synced_Disable synced_AddUser synced_DeleteUser synced_ChangePassword synced_AddRole
      synced_DeleteRole synced_cached split: option.splits)

text \<open>The loader reads back exactly what is synchronised, apart from expired tokens.\<close>

lemma restart_synced:
  assumes "never_fails S" "synced am" "auth_inv am" "json_stable am"
  shows "enabled (NewAuthManager S now ttl cost (am_store am)) = enabled am"
    and "gm_get (users (NewAuthManager S now ttl cost (am_store am))) n = gm_get (users am) n"
    and "gm_get (roles (NewAuthManager S now ttl cost (am_store am))) n = gm_get (roles am) n"
    and "gm_get (tokens (NewAuthManager S now ttl cost (am_store am))) n =
      (case gm_get (tokens am) n of None \<Rightarrow> None | Some i \<Rightarrow> if unix_seconds now < ExpiresAt i then Some i else None)"
proof -
  let ?s = "am_store am"
  note sy = assms(2)[unfolded synced_def persisted_def]
  obtain resp where r: "st_Range S authEnabledKey [] 1 0 ?s = Inr resp" using assms(1) by (metis never_fails_def)
  have en: "(if 0 < length (rr_Kvs resp) then kv_Value (rr_Kvs resp ! 0) = ''true'' else False) = enabled am"
    using range_point[OF _ r] sy by (cases "rr_Kvs resp") (auto simp: pairs_def split: option.splits)
  have u: "gm_get (fold load_user (range_prefix S authUserPrefix am0) []) n = gm_get (users am) n" if "am_store am0 = ?s" for am0 :: "'s AuthManager"
    unfolding load_entry_eqs
    using load_prefix[of ?s am0 authUserPrefix "\<lambda>u. json_print (user_json u)" "gm_get (users am)" unmarshal_user ui_Name "\<lambda>_. True" n]
      assms sy that by (auto simp: json_stable_def auth_inv_def user_roundtrip users_inv_def user_ok_def utf8_no_ff split: option.splits)
  have ro: "gm_get (fold load_role (range_prefix S authRolePrefix am0) []) n = gm_get (roles am) n" if "am_store am0 = ?s" for am0 :: "'s AuthManager"
    unfolding load_entry_eqs
    using load_prefix[of ?s am0 authRolePrefix "\<lambda>u. json_print (role_json u)" "gm_get (roles am)" unmarshal_role ri_Name "\<lambda>_. True" n]
      assms sy that by (auto simp: json_stable_def auth_inv_def role_roundtrip roles_inv_def role_ok_def utf8_no_ff split: option.splits)
  have t: "gm_get (fold (load_token (unix_seconds now)) (range_prefix S authTokenPrefix am0) []) n =
      (case gm_get (tokens am) n of None \<Rightarrow> None | Some i \<Rightarrow> if unix_seconds now < ExpiresAt i then Some i else None)"
    if "am_store am0 = ?s" for am0 :: "'s AuthManager"
    unfolding load_entry_eqs
    using load_prefix[of ?s am0 authTokenPrefix "\<lambda>u. json_print (token_json u)" "gm_get (tokens am)" unmarshal_token ti_Token
        "\<lambda>i. unix_seconds now < ExpiresAt i" n]
      assms sy that by (auto simp: json_stable_def auth_inv_def token_roundtrip tokens_inv_def)
  show "enabled (NewAuthManager S now ttl cost ?s) = enabled am"
    using r en by (auto simp: NewAuthManager_def loadState_def Let_def)
  show "gm_get (users (NewAuthManager S now ttl cost ?s)) n = gm_get (users am) n"
    using r u by (auto simp: NewAuthManager_def loadState_def Let_def)
  show "gm_get (roles (NewAuthManager S now ttl cost ?s)) n = gm_get (roles am) n"
    using r ro by (auto simp: NewAuthManager_def loadState_def Let_def)
  show "gm_get (tokens (NewAuthManager S now ttl cost ?s)) n =
      (case gm_get (tokens am) n of None \<Rightarrow> None | Some i \<Rightarrow> if unix_seconds now < ExpiresAt i then Some i else None)"
    using r t by (auto simp: NewAuthManager_def loadState_def Let_def)
qed

lemma synced_quiet_step:
  assumes "quiet_step S B view ok am am'" "never_fails S" "synced am"
  shows "synced am'"
  using assms
proof (induction rule: quiet_step.induct)
  case (quiet_call env am md req)
  then show ?case using fst_auth_call[of S B env md req am] synced_handler by metis
next
  case (quiet_cleanup env am)
  then show ?case by (simp add: cleanupExpiredTokens_def synced_drop_tokens)
next
  case (quiet_store s am)
  then show ?case using persisted_same[of "view s" "view (am_store am)" am] by (simp add: synced_def)
qed

lemma quiet_reach_synced:
  assumes "quiet_reach S B view ok am" "never_fails S"
  shows "synced am" "auth_inv am"
proof -
  obtain ttl cost s where s: "ok s" "\<And>k. take 8 k = ''/__auth/'' \<Longrightarrow> view s k = None"
    and r: "(quiet_step S B view ok)\<^sup>*\<^sup>* (empty_manager ttl cost s) am" using assms(1) by (auto simp: quiet_reach_def)
  have "synced am \<and> auth_inv am"
    using r
  proof (induction rule: rtranclp_induct)
    case base
    show ?case using s persisted_empty[of "view s"] by (simp add: synced_def empty_manager_def inv_NewAuthManager_empty)
  next
    case (step am1 am2)
    have "auth_step S B am1 am2" using step(2) by (cases rule: quiet_step.cases) (auto intro: auth_step.intros)
    then show ?case using step synced_quiet_step[OF step(2) assms(2)] inv_auth_step by blast
  qed
  then show "synced am" "auth_inv am" by simp_all
qed

end

end
