(* ===== verification/Kv_Service.thy ===== *)
theory Kv_Service
  imports Store_Interface
begin

text \<open>
  The handlers of the etcd KV service (\<^verbatim>\<open>api/etcd/kv.go\<close>) and the response header
  (\<^verbatim>\<open>api/etcd/server.go\<close>). The messages of \<^verbatim>\<open>etcdserverpb\<close> and \<^verbatim>\<open>mvccpb\<close> are records and datatypes; a message
  \<^verbatim>\<open>KeyValue\<close> has the fields of a stored entry and is the same type here. A failing store call is
  returned as the store's error, without the gRPC code it is mapped to.
\<close>

section \<open>Messages\<close>

record server_ids =
  clusterID :: nat
  memberID :: nat

record response_header =
  ClusterId :: nat
  MemberId :: nat
  hd_Revision :: int
  RaftTerm :: int

record pb_range_request =
  rq_Key :: string
  rq_RangeEnd :: string
  rq_Limit :: int
  rq_Revision :: int

record pb_range_response =
  rp_Header :: "response_header option"
  rp_Kvs :: "key_value list"
  rp_More :: bool
  rp_Count :: int

record pb_put_request =
  pq_Key :: string
  pq_Value :: string
  pq_Lease :: int
  pq_PrevKv :: bool

record pb_put_response =
  pp_Header :: "response_header option"
  pp_PrevKv :: "key_value option"

record pb_delete_request =
  dq_Key :: string
  dq_RangeEnd :: string
  dq_PrevKv :: bool

record pb_delete_response =
  dp_Header :: "response_header option"
  dp_Deleted :: int
  dp_PrevKvs :: "key_value list"

text \<open>The enumerations of a comparison and the value it compares with, of which at most one is set.\<close>

datatype pb_target = PB_VERSION | PB_CREATE | PB_MOD | PB_VALUE | PB_LEASE | PB_TARGET_OTHER int

datatype pb_result = PB_EQUAL | PB_GREATER | PB_LESS | PB_NOT_EQUAL | PB_RESULT_OTHER int

datatype pb_union =
    UnionVersion int
  | UnionCreateRevision int
  | UnionModRevision int
  | UnionValue string
  | UnionLease int
  | UnionUnset

record etcd_compare =
  pc_Target :: pb_target
  pc_Result :: pb_result
  pc_Key :: string
  pc_Union :: pb_union

text \<open>An operation of a transaction; the last two cases are a nested transaction and an unset one.\<close>

datatype pb_request_op =
    RequestRange pb_range_request
  | RequestPut pb_put_request
  | RequestDeleteRange pb_delete_request
  | RequestTxn
  | RequestUnset

datatype pb_response_op =
    ResponseRange pb_range_response
  | ResponsePut pb_put_response
  | ResponseDeleteRange pb_delete_response
  | ResponseUnset

record pb_txn_request =
  tq_Compare :: "etcd_compare list"
  tq_Success :: "pb_request_op list"
  tq_Failure :: "pb_request_op list"

record pb_txn_response =
  tp_Header :: response_header
  tp_Succeeded :: bool
  tp_Responses :: "pb_response_op list"

section \<open>Handlers\<close>

definition getResponseHeader :: "server_ids \<Rightarrow> ('s, 'e) store_ops \<Rightarrow> 's \<Rightarrow> response_header" where
  "getResponseHeader ids S s =
     \<lparr>ClusterId = clusterID ids, MemberId = memberID ids, hd_Revision = st_CurrentRevision S s,
      RaftTerm = rs_Term (st_GetRaftStatus S s)\<rparr>"

definition kvs_Range :: "server_ids \<Rightarrow> ('s, 'e) store_ops \<Rightarrow> pb_range_request \<Rightarrow> 's \<Rightarrow> 'e + pb_range_response" where
  "kvs_Range ids S req s =
     (case st_Range S (rq_Key req) (rq_RangeEnd req) (rq_Limit req) (rq_Revision req) s of
        Inl e \<Rightarrow> Inl e
      | Inr resp \<Rightarrow>
          Inr \<lparr>rp_Header = Some (getResponseHeader ids S s), rp_Kvs = rr_Kvs resp, rp_More = rr_More resp,
               rp_Count = rr_Count resp\<rparr>)"

definition kvs_Put :: "server_ids \<Rightarrow> ('s, 'e) store_ops \<Rightarrow> pb_put_request \<Rightarrow> 's \<Rightarrow> 's \<times> ('e + pb_put_response)" where
  "kvs_Put ids S req s =
     (case st_PutWithLease S (pq_Key req) (pq_Value req) (pq_Lease req) s of
        (s', Inl e) \<Rightarrow> (s', Inl e)
      | (s', Inr (r, prevKv)) \<Rightarrow>
          (s', Inr \<lparr>pp_Header = Some ((getResponseHeader ids S s')\<lparr>hd_Revision := r\<rparr>),
                    pp_PrevKv = (if pq_PrevKv req then prevKv else None)\<rparr>))"

definition kvs_DeleteRange ::
    "server_ids \<Rightarrow> ('s, 'e) store_ops \<Rightarrow> pb_delete_request \<Rightarrow> 's \<Rightarrow> 's \<times> ('e + pb_delete_response)" where
  "kvs_DeleteRange ids S req s =
     (case st_DeleteRange S (dq_Key req) (dq_RangeEnd req) s of
        (s', Inl e) \<Rightarrow> (s', Inl e)
      | (s', Inr (deleted, prevKvs, r)) \<Rightarrow>
          (s', Inr \<lparr>dp_Header = Some ((getResponseHeader ids S s')\<lparr>hd_Revision := r\<rparr>), dp_Deleted = deleted,
                    dp_PrevKvs = (if dq_PrevKv req \<and> 0 < length prevKvs then prevKvs else [])\<rparr>))"

definition no_union :: compare_union where
  "no_union = \<lparr>cu_Version = 0, cu_CreateRevision = 0, cu_ModRevision = 0, cu_Value = [], cu_Lease = 0\<rparr>"

text \<open>An unknown target or result leaves the zero value, which is version and equal.\<close>

definition convertCompare :: "etcd_compare \<Rightarrow> compare" where
  "convertCompare cmp =
     (let (target, union) =
            (case pc_Target cmp of
               PB_VERSION \<Rightarrow> (CompareVersion, no_union\<lparr>cu_Version := (case pc_Union cmp of UnionVersion n \<Rightarrow> n | _ \<Rightarrow> 0)\<rparr>)
             | PB_CREATE \<Rightarrow> (CompareCreate, no_union\<lparr>cu_CreateRevision := (case pc_Union cmp of UnionCreateRevision n \<Rightarrow> n | _ \<Rightarrow> 0)\<rparr>)
             | PB_MOD \<Rightarrow> (CompareMod, no_union\<lparr>cu_ModRevision := (case pc_Union cmp of UnionModRevision n \<Rightarrow> n | _ \<Rightarrow> 0)\<rparr>)
             | PB_VALUE \<Rightarrow> (CompareValue, no_union\<lparr>cu_Value := (case pc_Union cmp of UnionValue v \<Rightarrow> v | _ \<Rightarrow> [])\<rparr>)
             | PB_LEASE \<Rightarrow> (CompareLease, no_union\<lparr>cu_Lease := (case pc_Union cmp of UnionLease n \<Rightarrow> n | _ \<Rightarrow> 0)\<rparr>)
             | PB_TARGET_OTHER _ \<Rightarrow> (CompareVersion, no_union));
          result =
            (case pc_Result cmp of
               PB_EQUAL \<Rightarrow> CompareEqual
             | PB_GREATER \<Rightarrow> CompareGreater
             | PB_LESS \<Rightarrow> CompareLess
             | PB_NOT_EQUAL \<Rightarrow> CompareNotEqual
             | PB_RESULT_OTHER _ \<Rightarrow> CompareEqual)
      in \<lparr>cmp_Target = target, cmp_Result = result, cmp_Key = pc_Key cmp, cmp_TargetUnion = union\<rparr>)"

definition zero_op :: op where
  "zero_op = \<lparr>op_Type = OpRange, op_Key = [], op_RangeEnd = [], op_Value = [], op_Limit = 0, op_LeaseID = 0\<rparr>"

definition convertRequestOp :: "pb_request_op \<Rightarrow> op" where
  "convertRequestOp r =
     (case r of
        RequestRange q \<Rightarrow>
          zero_op\<lparr>op_Type := OpRange, op_Key := rq_Key q, op_RangeEnd := rq_RangeEnd q, op_Limit := rq_Limit q\<rparr>
      | RequestPut q \<Rightarrow>
          zero_op\<lparr>op_Type := OpPut, op_Key := pq_Key q, op_Value := pq_Value q, op_LeaseID := pq_Lease q\<rparr>
      | RequestDeleteRange q \<Rightarrow>
          zero_op\<lparr>op_Type := OpDelete, op_Key := dq_Key q, op_RangeEnd := dq_RangeEnd q\<rparr>
      | _ \<Rightarrow> zero_op)"

definition convertOpResponse :: "op_response \<Rightarrow> pb_response_op" where
  "convertOpResponse r =
     (case or_Type r of
        OpRange \<Rightarrow>
          (case or_RangeResp r of
             None \<Rightarrow> ResponseUnset
           | Some q \<Rightarrow> ResponseRange \<lparr>rp_Header = None, rp_Kvs = rr_Kvs q, rp_More = rr_More q, rp_Count = rr_Count q\<rparr>)
      | OpPut \<Rightarrow>
          (case or_PutResp r of
             None \<Rightarrow> ResponseUnset
           | Some q \<Rightarrow> ResponsePut \<lparr>pp_Header = None, pp_PrevKv = pr_PrevKv q\<rparr>)
      | OpDelete \<Rightarrow>
          (case or_DeleteResp r of
             None \<Rightarrow> ResponseUnset
           | Some q \<Rightarrow> ResponseDeleteRange \<lparr>dp_Header = None, dp_Deleted = dr_Deleted q, dp_PrevKvs = dr_PrevKvs q\<rparr>)
      | _ \<Rightarrow> ResponseUnset)"

definition kvs_Txn :: "server_ids \<Rightarrow> ('s, 'e) store_ops \<Rightarrow> pb_txn_request \<Rightarrow> 's \<Rightarrow> 's \<times> ('e + pb_txn_response)" where
  "kvs_Txn ids S req s =
     (case st_Txn S (map convertCompare (tq_Compare req)) (map convertRequestOp (tq_Success req))
             (map convertRequestOp (tq_Failure req)) s of
        (s', Inl e) \<Rightarrow> (s', Inl e)
      | (s', Inr resp) \<Rightarrow>
          (s', Inr \<lparr>tp_Header = (getResponseHeader ids S s')\<lparr>hd_Revision := tr_Revision resp\<rparr>,
                    tp_Succeeded = tr_Succeeded resp, tp_Responses = map convertOpResponse (tr_Responses resp)\<rparr>))"

definition kvs_Compact :: "server_ids \<Rightarrow> ('s, 'e) store_ops \<Rightarrow> int \<Rightarrow> 's \<Rightarrow> 's \<times> ('e + response_header)" where
  "kvs_Compact ids S r s =
     (case st_Compact S r s of
        (s', Inl e) \<Rightarrow> (s', Inl e)
      | (s', Inr _) \<Rightarrow> (s', Inr (getResponseHeader ids S s')))"

end
