(* ===== verification/Auth_Properties.thy ===== *)
theory Auth_Properties
  imports Auth_Recovery Kv_Service
begin

text \<open>
  Properties of authentication and authorisation, and of the KV service behind the interceptor.
\<close>

section \<open>Calls on a store that does not fail\<close>

lemma auth_put_total: "never_fails S \<Longrightarrow> \<exists>am'. auth_put S k v am = (am', None)"
  by (metis (no_types, lifting) auth_put_def never_fails_def case_prod_conv sum.case(2))

lemma auth_delete_total: "never_fails S \<Longrightarrow> \<exists>am'. auth_delete S k e am = (am', None)"
  by (metis (no_types, lifting) auth_delete_def never_fails_def case_prod_conv sum.case(2))

lemma auth_method_prefix: "isAuthAPI (auth_method req)"
  by (cases req) (simp_all add: isAuthAPI_def auth_service_def)

text \<open>The interceptor lets a call of the Auth service through without a token, unless it disables authentication.\<close>

lemma auth_call_unchecked:
  assumes "auth_method req \<noteq> auth_service @ ''AuthDisable''" "auth_handler S B env req am = (am', Inr r)"
  shows "auth_call S B env md req am = (am', Answered r)"
  using assms auth_method_prefix[of req] by (simp add: auth_call_def AuthInterceptor_def)

lemma CheckPermission_root: "CheckPermission ''root'' key t am = Inr ()"
  by (simp add: CheckPermission_def)

lemma root_passes:
  assumes "gm_get (tokens am) token = Some info" "Username info = ''root''" "unix_seconds now \<le> ExpiresAt info"
    and "isAuthAPI method \<or> extractPermissionFromRequest method req \<noteq> None"
  shows "AuthInterceptor now (Some [token]) method req am \<in> {Handle None, Handle (Some ''root'')}"
  using assms
  by (auto simp: AuthInterceptor_def checkRootPermission_def authenticated_def ValidateToken_def CheckPermission_root
      split: option.splits prod.splits)

section \<open>Sample manager\<close>

definition sample_bcrypt :: bcrypt where
  "sample_bcrypt = \<lparr>GenerateFromPassword = (\<lambda>salt p cost. Some (salt @ p)),
     CompareHashAndPassword = (\<lambda>h p. drop 1 h = p)\<rparr>"

definition sample_env :: auth_env where
  "sample_env = \<lparr>ae_now = 5000000000, ae_salt = ''s'', ae_random = Some ''abc'', ae_tokens = (\<lambda>xs. xs),
     ae_users = (\<lambda>xs. xs), ae_roles = (\<lambda>xs. xs)\<rparr>"

lemma sample_env_ok: "env_ok sample_env"
  by (simp add: env_ok_def sample_env_def)

definition sample_manager :: "MemoryEtcd AuthManager" where
  "sample_manager =
     fst (auth_call (mem_ops 0) sample_bcrypt sample_env None AuthEnable
       (fst (auth_call (mem_ops 0) sample_bcrypt sample_env None (UserAdd ''root'' ''pw'')
         (empty_manager 60000000000 10 NewMemoryEtcd))))"

lemma sample_manager_reach: "auth_reach (mem_ops 0) sample_bcrypt sample_manager"
  unfolding auth_reach_def sample_manager_def
  by (intro exI[of _ 60000000000] exI[of _ 10] exI[of _ NewMemoryEtcd])
    (rule rtranclp.rtrancl_into_rtrancl[OF r_into_rtranclp]; rule auth_step_call[OF sample_env_ok])

lemma sample_manager_quiet: "quiet_reach (mem_ops 0) sample_bcrypt mem_view me_inv sample_manager"
  unfolding quiet_reach_def sample_manager_def
proof (intro exI conjI)
  show "me_inv NewMemoryEtcd" by simp
  show "\<forall>k. take 8 k = ''/__auth/'' \<longrightarrow> mem_view NewMemoryEtcd k = None" by (simp add: mem_view_def NewMemoryEtcd_def sm.get_empty)
qed (rule rtranclp.rtrancl_into_rtrancl[OF r_into_rtranclp]; rule quiet_call[OF sample_env_ok])

lemma sample_manager_state: "enabled sample_manager" "tokenTTL sample_manager = 60000000000" "bcryptCost sample_manager = 10"
  "users sample_manager = [(''root'', \<lparr>ui_Name = ''root'', PasswordHash = ''spw'', ui_Roles = [], ui_CreatedAt = 5\<rparr>)]"
  "roles sample_manager = []" "tokens sample_manager = []"
proof -
  let ?S = "mem_ops 0" and ?m0 = "empty_manager 60000000000 10 NewMemoryEtcd"
  define u where "u = \<lparr>ui_Name = ''root'', PasswordHash = ''spw'', ui_Roles = [], ui_CreatedAt = 5\<rparr>"
  obtain m1 where m1: "auth_put ?S (authUserPrefix @ ''root'') (json_print (user_json u)) ?m0 = (m1, None)"
    using auth_put_total[OF mem_never_fails] by blast
  note f1 = auth_put_frame[of ?S "authUserPrefix @ ''root''" "json_print (user_json u)" ?m0, unfolded m1, simplified]
  have c1: "fst (auth_call ?S sample_bcrypt sample_env None (UserAdd ''root'' ''pw'') ?m0) = m1\<lparr>users := [(''root'', u)]\<rparr>"
    using m1 f1
    by (simp add: auth_call_def AuthInterceptor_def IsEnabled_def empty_manager_def AddUser_def hashPassword_def
        sample_bcrypt_def sample_env_def put_user_def u_def unix_seconds_def header_only_def)
  define m2 where "m2 = m1\<lparr>users := [(''root'', u)], enabled := True\<rparr>"
  obtain m3 where m3: "auth_put ?S authEnabledKey ''true'' m2 = (m3, None)"
    using auth_put_total[OF mem_never_fails] by blast
  note f3 = auth_put_frame[of ?S authEnabledKey "''true''" m2, unfolded m3, simplified]
  have "sample_manager = m3"
    unfolding sample_manager_def c1 using m3 f1
    by (simp add: m2_def auth_call_def AuthInterceptor_def IsEnabled_def empty_manager_def Enable_def
        store_result_def header_only_def)
  then show "enabled sample_manager" "tokenTTL sample_manager = 60000000000" "bcryptCost sample_manager = 10"
    "users sample_manager = [(''root'', \<lparr>ui_Name = ''root'', PasswordHash = ''spw'', ui_Roles = [], ui_CreatedAt = 5\<rparr>)]"
    "roles sample_manager = []" "tokens sample_manager = []"
    using f3 f1 by (simp_all add: m2_def u_def empty_manager_def)
qed

definition sample_eve :: UserInfo where
  "sample_eve = \<lparr>ui_Name = ''eve'', PasswordHash = [], ui_Roles = [''reader''], ui_CreatedAt = 0\<rparr>"

definition sample_acl :: "MemoryEtcd AuthManager" where
  "sample_acl =
     \<lparr>am_store = sample_engine, enabled = True, users = [(''eve'', sample_eve)],
      roles = [(''reader'', \<lparr>ri_Name = ''reader'',
                 Permissions = [\<lparr>pm_Type = PermissionRead, pm_Key = ''k'', pm_RangeEnd = []\<rparr>], ri_CreatedAt = 0\<rparr>)],
      tokens = [(''t'', \<lparr>ti_Token = ''t'', Username = ''eve'', ExpiresAt = 100\<rparr>)], tokenTTL = 0, bcryptCost = 10\<rparr>"

section \<open>Properties\<close>



text \<open>
  A permission check succeeds exactly for the root user and for users who hold, through one of
  their roles, a permission that covers the key and includes the type of access; a read-write
  permission includes reading and writing. Otherwise the error says whether the user is unknown.
\<close>

theorem CheckPermission_correct:
  assumes "permType \<in> {PermissionRead, PermissionWrite, PermissionReadWrite}"
  shows "CheckPermission username key permType am =
    (if username = ''root'' then Inr ()
     else case gm_get (users am) username of
       None \<Rightarrow> Inl (AuthUserNotFound username)
     | Some u \<Rightarrow>
         if \<exists>p \<in> granted am u. (pm_Type p = PermissionReadWrite \<or> pm_Type p = permType) \<and> covers (pm_Key p) (pm_RangeEnd p) key
         then Inr () else Inl AuthPermissionDenied)"
  by (simp add: CheckPermission_def check_roles_granted[OF assms] split: option.split)

theorem CheckPermission_correct_witness:
  "(CheckPermission ''eve'' ''k'' PermissionRead sample_acl :: unit auth_error + unit) = Inr () \<and>
   (CheckPermission ''eve'' ''k'' PermissionWrite sample_acl :: unit auth_error + unit) = Inl AuthPermissionDenied"
proof -
  have g: "granted sample_acl sample_eve = {\<lparr>pm_Type = PermissionRead, pm_Key = ''k'', pm_RangeEnd = []\<rparr>}"
    by (auto simp: granted_def sample_acl_def sample_eve_def)
  have u: "gm_get (users sample_acl) ''eve'' = Some sample_eve" by (simp add: sample_acl_def)
  show ?thesis
    using CheckPermission_correct[of PermissionRead "''eve''" "''k''" sample_acl]
      CheckPermission_correct[of PermissionWrite "''eve''" "''k''" sample_acl]
    by (simp add: g u covers_def PermissionRead_def PermissionWrite_def PermissionReadWrite_def)
qed

text \<open>
  C9: with authentication enabled, a request that needs a permission on a key reaches its handler on
  behalf of a user exactly when the first token of its metadata is valid, not expired and of that
  user, and the user is root or holds a permission for the key.
\<close>

theorem interceptor_guards_keys:
  assumes "enabled am" "\<not> isAuthAPI method" "extractPermissionFromRequest method req = Some (Some key, permType)"
  shows "AuthInterceptor now md method req am = Handle (Some user) \<longleftrightarrow>
    (\<exists>token rest info. md = Some (token # rest) \<and> gm_get (tokens am) token = Some info \<and>
       unix_seconds now \<le> ExpiresAt info \<and> Username info = user \<and>
       (user = ''root'' \<or>
        (\<exists>u. gm_get (users am) user = Some u \<and>
           (\<exists>p \<in> granted am u. (pm_Type p = PermissionReadWrite \<or> pm_Type p = permType) \<and> covers (pm_Key p) (pm_RangeEnd p) key))))"
proof -
  have t: "permType \<in> {PermissionRead, PermissionWrite, PermissionReadWrite}"
    using assms(3) by (auto simp: extractPermissionFromRequest_def split: if_splits pb_request.splits)
  show ?thesis
    unfolding check_roles_granted[OF t, symmetric] using assms
    by (auto simp: AuthInterceptor_def IsEnabled_def authenticated_def ValidateToken_def CheckPermission_def
        split: option.splits list.splits if_splits sum.splits)
qed

theorem interceptor_guards_keys_witness:
  "AuthInterceptor 0 (Some [''t'']) (kv_method ''Range'') (RangeRequest (Some ''k'') []) sample_acl = Handle (Some ''eve'') \<and>
   AuthInterceptor 0 (Some [''t'']) (kv_method ''Put'') (PutRequest (Some ''k'') ''v'') sample_acl \<noteq> Handle (Some ''eve'')"
proof -
  have e: "enabled sample_acl" by (simp add: sample_acl_def)
  have m: "\<not> isAuthAPI (kv_method ''Range'')" "\<not> isAuthAPI (kv_method ''Put'')"
    "extractPermissionFromRequest (kv_method ''Range'') (RangeRequest (Some ''k'') []) = Some (Some ''k'', PermissionRead)"
    "extractPermissionFromRequest (kv_method ''Put'') (PutRequest (Some ''k'') ''v'') = Some (Some ''k'', PermissionWrite)"
    by (simp_all add: isAuthAPI_def auth_service_def kv_method_def extractPermissionFromRequest_def)
  have g: "granted sample_acl sample_eve = {\<lparr>pm_Type = PermissionRead, pm_Key = ''k'', pm_RangeEnd = []\<rparr>}"
    by (auto simp: granted_def sample_acl_def sample_eve_def)
  have u: "gm_get (users sample_acl) ''eve'' = Some sample_eve"
    "gm_get (tokens sample_acl) ''t'' = Some \<lparr>ti_Token = ''t'', Username = ''eve'', ExpiresAt = 100\<rparr>"
    by (simp_all add: sample_acl_def)
  show ?thesis
    using interceptor_guards_keys[OF e m(1,3), of 0 "Some [''t'']" "''eve''"]
      interceptor_guards_keys[OF e m(2,4), of 0 "Some [''t'']" "''eve''"]
    by (simp add: g u covers_def unix_seconds_def PermissionRead_def PermissionWrite_def PermissionReadWrite_def)
qed



text \<open>
  C11: authentication can be taken over without any credentials. While it is enabled, a client that
  sends no token can set a new password for the root user and then authenticate with it, since the
  interceptor lets every call of the Auth service but \<^verbatim>\<open>AuthDisable\<close> pass; with the token it receives, every
  method is handled on behalf of root. This holds in every reachable state, for a store without
  failures and a bcrypt that accepts the password it has hashed.
\<close>

theorem anonymous_takeover:
  assumes "auth_reach S B am" "enabled am" "never_fails S" "env_ok env" "0 \<le> tokenTTL am"
    and "GenerateFromPassword B (ae_salt env) pw (bcryptCost am) = Some h" "CompareHashAndPassword B h pw"
    and "ae_random env = Some rnd"
  shows "\<exists>am1 am2 token.
    auth_call S B env None (UserChangePassword ''root'' pw) am = (am1, Answered HeaderOnly) \<and>
    auth_call S B env None (AuthAuthenticate ''root'' pw) am1 = (am2, Answered (TokenResponse token)) \<and>
    AuthInterceptor (ae_now env) (Some [token]) (auth_method AuthDisable) OtherRequest am2 = Handle (Some ''root'') \<and>
    AuthInterceptor (ae_now env) (Some [token]) (kv_method ''DeleteRange'') (DeleteRangeRequest (Some key) rangeEnd) am2 =
      Handle (Some ''root'')"
proof -
  obtain u where u: "gm_get (users am) ''root'' = Some u"
    using inv_auth_reach[OF assms(1)] assms(2) by (auto simp: auth_inv_def)
  define u' where "u' = u\<lparr>PasswordHash := h\<rparr>"
  obtain m1 where m1: "put_user S u' ''root'' (am\<lparr>users := gm_set ''root'' u' (users am)\<rparr>) = (m1, None)"
    using auth_put_total[OF assms(3)] unfolding put_user_def by blast
  note f1 = auth_frameD(1)[OF m1[unfolded put_user_def]]
  have ttl1: "tokenTTL m1 = tokenTTL am"
    using put_user_frame(5)[of S u' "''root''" "am\<lparr>users := gm_set ''root'' u' (users am)\<rparr>"] m1 by simp
  define am1 where "am1 = drop_tokens S (\<lambda>info. Username info = ''root'') (ae_tokens env (tokens m1)) m1"
  have "auth_handler S B env (UserChangePassword ''root'' pw) am = (am1, Inr HeaderOnly)"
    using u m1 assms(6)
    by (simp add: ChangePassword_def hashPassword_def u'_def[symmetric] am1_def header_only_def Let_def)
  then have c1: "auth_call S B env None (UserChangePassword ''root'' pw) am = (am1, Answered HeaderOnly)"
    by (intro auth_call_unchecked) simp_all
  have a1: "gm_get (users am1) ''root'' = Some u'" "tokenTTL am1 = tokenTTL am" "enabled am1"
    using f1 ttl1 assms(2) by (simp_all add: am1_def gomap_simps)
  define tok where "tok = b64_url_encode rnd"
  define info where "info = \<lparr>ti_Token = tok, Username = ''root'', ExpiresAt = unix_seconds (ae_now env + tokenTTL am1)\<rparr>"
  obtain am2 where am2: "auth_put S (authTokenPrefix @ tok) (json_print (token_json info))
      (am1\<lparr>tokens := gm_set tok info (tokens am1)\<rparr>) = (am2, None)"
    using auth_put_total[OF assms(3)] by blast
  have "auth_handler S B env (AuthAuthenticate ''root'' pw) am1 = (am2, Inr (TokenResponse tok))"
    using a1(1) am2 assms(7,8)
    by (simp add: Authenticate_def checkPasswordHash_def u'_def generateToken_def tok_def[symmetric] info_def[symmetric] Let_def)
  then have c2: "auth_call S B env None (AuthAuthenticate ''root'' pw) am1 = (am2, Answered (TokenResponse tok))"
    by (intro auth_call_unchecked) simp_all
  have t: "gm_get (tokens am2) tok = Some info" "enabled am2"
    using auth_frameD(1)[OF am2] a1 by (simp_all add: gomap_simps)
  have e: "unix_seconds (ae_now env) \<le> ExpiresAt info"
    using assms(5) a1(2) by (simp add: info_def unix_seconds_def zdiv_mono1)
  have "AuthInterceptor (ae_now env) (Some [tok]) (auth_method AuthDisable) OtherRequest am2 = Handle (Some ''root'')"
    using t e by (simp add: AuthInterceptor_def IsEnabled_def isAuthAPI_def auth_service_def checkRootPermission_def
        authenticated_def ValidateToken_def info_def)
  moreover have "AuthInterceptor (ae_now env) (Some [tok]) (kv_method ''DeleteRange'')
      (DeleteRangeRequest (Some key) rangeEnd) am2 = Handle (Some ''root'')"
    using t e by (simp add: AuthInterceptor_def IsEnabled_def isAuthAPI_def auth_service_def kv_method_def
        extractPermissionFromRequest_def authenticated_def ValidateToken_def info_def CheckPermission_root)
  ultimately show ?thesis using c1 c2 by blast
qed

theorem anonymous_takeover_witness:
  "\<exists>am1 am2 token.
    auth_call (mem_ops 0) sample_bcrypt sample_env None (UserChangePassword ''root'' ''x'') sample_manager = (am1, Answered HeaderOnly) \<and>
    auth_call (mem_ops 0) sample_bcrypt sample_env None (AuthAuthenticate ''root'' ''x'') am1 = (am2, Answered (TokenResponse token)) \<and>
    AuthInterceptor (ae_now sample_env) (Some [token]) (kv_method ''DeleteRange'') (DeleteRangeRequest (Some []) zero_byte) am2 =
      Handle (Some ''root'')"
  using anonymous_takeover[OF sample_manager_reach sample_manager_state(1) mem_never_fails sample_env_ok, of "''x''" "''sx''" "''abc''" "[]" zero_byte]
  by (auto simp: sample_manager_state sample_bcrypt_def sample_env_def)

section \<open>The KV service behind the interceptor\<close>



end
