(* ===== verification/Kv_Properties.thy ===== *)
theory Kv_Properties
  imports Kv_Service
begin

text \<open>
  Properties of the KV service on the in-memory engine, from the request message to the response.
\<close>

section \<open>Create if absent\<close>

text \<open>
  The transaction on which locks and elections are built: put the key if it has never been created,
  and read it otherwise.
\<close>

definition create_request :: "string \<Rightarrow> string \<Rightarrow> pb_txn_request" where
  "create_request k v =
     \<lparr>tq_Compare = [\<lparr>pc_Target = PB_CREATE, pc_Result = PB_EQUAL, pc_Key = k, pc_Union = UnionCreateRevision 0\<rparr>],
      tq_Success = [RequestPut \<lparr>pq_Key = k, pq_Value = v, pq_Lease = 0, pq_PrevKv = False\<rparr>],
      tq_Failure = [RequestRange \<lparr>rq_Key = k, rq_RangeEnd = [], rq_Limit = 0, rq_Revision = 0\<rparr>]\<rparr>"

lemma create_absent:
  assumes "sm_Get (kvData m) k = None"
  shows "kvs_Txn ids (mem_ops now) (create_request k v) m =
    (store_kv k v 0 m,
     Inr \<lparr>tp_Header = (getResponseHeader ids (mem_ops now) (store_kv k v 0 m))\<lparr>hd_Revision := revision m + 1\<rparr>,
          tp_Succeeded = True, tp_Responses = [ResponsePut \<lparr>pp_Header = None, pp_PrevKv = None\<rparr>]\<rparr>)"
  using assms
  by (simp add: kvs_Txn_def create_request_def mem_ops_def me_Txn_def txnUnlocked_def convertCompare_def no_union_def
      convertRequestOp_def zero_op_def evaluateCompare_spec me_abs_def txn_op_def putUnlocked_def convertOpResponse_def
      zero_op_response_def)

lemma create_present:
  assumes "me_inv m" "sm_Get (kvData m) k = Some kv"
  shows "kvs_Txn ids (mem_ops now) (create_request k v) m =
    (m, Inr \<lparr>tp_Header = (getResponseHeader ids (mem_ops now) m)\<lparr>hd_Revision := revision m\<rparr>, tp_Succeeded = False,
             tp_Responses = [ResponseRange \<lparr>rp_Header = None, rp_Kvs = [kv], rp_More = False, rp_Count = 1\<rparr>]\<rparr>)"
proof -
  have "kv_CreateRevision kv \<noteq> 0" using data_okD(2)[OF me_invD(2)[OF assms(1)] assms(2)] by (simp add: kv_ok_def)
  then show ?thesis
    using assms(2)
    by (simp add: kvs_Txn_def create_request_def mem_ops_def me_Txn_def txnUnlocked_def convertCompare_def no_union_def
        convertRequestOp_def zero_op_def evaluateCompare_spec me_abs_def txn_op_def rangeUnlocked_def convertOpResponse_def
        zero_op_response_def range_kvs_def range_result_def)
qed

text \<open>Clients that race for the key, in the order in which the server runs their requests.\<close>

fun race :: "server_ids \<Rightarrow> string \<Rightarrow> (int \<times> string) list \<Rightarrow> MemoryEtcd \<Rightarrow> MemoryEtcd \<times> (mem_error + pb_txn_response) list" where
  "race ids k [] m = (m, [])"
| "race ids k ((now, v) # cs) m =
     (let (m1, r) = kvs_Txn ids (mem_ops now) (create_request k v) m; (m2, rs) = race ids k cs m1 in (m2, r # rs))"

lemma race_lost:
  assumes "me_inv m" "sm_Get (kvData m) k = Some kv"
  shows "fst (race ids k cs m) = m"
    and "\<forall>r \<in> set (snd (race ids k cs m)). \<exists>resp. r = Inr resp \<and> \<not> tp_Succeeded resp \<and>
      tp_Responses resp = [ResponseRange \<lparr>rp_Header = None, rp_Kvs = [kv], rp_More = False, rp_Count = 1\<rparr>]"
  by (induction cs) (auto simp: create_present[OF assms] split: prod.splits)

section \<open>Properties\<close>

text \<open>
  C13: a lock has one owner. Of any number of clients that try to create the same absent key with the
  create-if-absent transaction of the KV service, the first succeeds and its value is stored; every
  other one is told that it failed and is answered with the entry of the winner.
\<close>

theorem kv_create_has_one_winner:
  assumes "me_inv m" "sm_Get (kvData m) k = None" "race ids k ((now, v) # cs) m = (m', r # rs)"
  shows "m' = store_kv k v 0 m \<and> (\<exists>resp. r = Inr resp \<and> tp_Succeeded resp) \<and>
    (\<forall>r' \<in> set rs. \<exists>resp. r' = Inr resp \<and> \<not> tp_Succeeded resp \<and>
       tp_Responses resp = [ResponseRange \<lparr>rp_Header = None, rp_Kvs = [next_kv k v 0 (revision m + 1) None],
                                          rp_More = False, rp_Count = 1\<rparr>])"
proof -
  have inv: "me_inv (store_kv k v 0 m)" using assms(1) by (simp add: me_inv_store_kv)
  have g: "sm_Get (kvData (store_kv k v 0 m)) k = Some (next_kv k v 0 (revision m + 1) None)"
    using assms me_invD(1)[OF assms(1)] by simp
  show ?thesis
    using assms(3) race_lost[OF inv g, of ids cs] by (auto simp: create_absent[OF assms(2)] split: prod.splits)
qed

theorem kv_create_has_one_winner_witness:
  "\<exists>m r1 r2. race \<lparr>clusterID = 1, memberID = 1\<rparr> ''lock'' [(0, ''a''), (5, ''b'')] NewMemoryEtcd = (m, [Inr r1, Inr r2]) \<and>
     tp_Succeeded r1 \<and> \<not> tp_Succeeded r2 \<and> mem_view m ''lock'' = Some ''a''"
proof -
  let ?ids = "\<lparr>clusterID = 1, memberID = 1\<rparr>"
  obtain m1 r where t: "kvs_Txn ?ids (mem_ops 0) (create_request ''lock'' ''a'') NewMemoryEtcd = (m1, r)" by fastforce
  obtain m' r' where "kvs_Txn ?ids (mem_ops 5) (create_request ''lock'' ''b'') m1 = (m', r')" by fastforce
  then have r: "race \<lparr>clusterID = 1, memberID = 1\<rparr> ''lock'' [(0, ''a''), (5, ''b'')] NewMemoryEtcd = (m', [r, r'])"
    using t by simp
  have n: "sm_Get (kvData NewMemoryEtcd) ''lock'' = None" by (simp add: NewMemoryEtcd_def sm.get_empty)
  have "mem_view (store_kv ''lock'' ''a'' 0 NewMemoryEtcd) ''lock'' = Some ''a''"
    using me_invD(1)[OF me_inv_New(1)] by (simp add: mem_view_def next_kv_def)
  then show ?thesis using kv_create_has_one_winner[OF me_inv_New(1) n r] r by auto
qed

text \<open>
  A client reads its writes. After a successful put, a range read of the key answers exactly one
  entry: the value and lease that were put, the revision of the put response as modification
  revision, and a version one above the version before, where the previous entry in the response is
  the one that was there before.
\<close>

theorem kv_read_your_write:
  assumes "me_inv m" "kvs_Put ids (mem_ops now) req m = (m', Inr resp)"
  shows "\<exists>kv rresp h. kvs_Range ids (mem_ops now') \<lparr>rq_Key = pq_Key req, rq_RangeEnd = [], rq_Limit = 0, rq_Revision = 0\<rparr> m' = Inr rresp \<and>
    rp_Kvs rresp = [kv] \<and> rp_Count rresp = 1 \<and> rp_Header rresp = Some h \<and> map_option hd_Revision (pp_Header resp) = Some (hd_Revision h) \<and>
    kv_Key kv = pq_Key req \<and> kv_Value kv = pq_Value req \<and> kv_Lease kv = pq_Lease req \<and> kv_ModRevision kv = hd_Revision h \<and>
    kv_Version kv = (case sm_Get (kvData m) (pq_Key req) of None \<Rightarrow> 0 | Some old \<Rightarrow> kv_Version old) + 1 \<and>
    pp_PrevKv resp = (if pq_PrevKv req then sm_Get (kvData m) (pq_Key req) else None)"
proof -
  have c: "check_lease now (pq_Lease req) m = None"
    using assms(2) by (auto simp: kvs_Put_def mem_ops_def me_PutWithLease_def split: option.splits)
  show ?thesis
    using assms(2) c me_invD(1)[OF assms(1)]
    by (auto simp: kvs_Put_def mem_ops_def me_PutWithLease_def kvs_Range_def getResponseHeader_def me_Range_def range_kvs_def
        range_result_def next_kv_def CurrentRevision_def Let_def split: option.splits)
qed

theorem kv_read_your_write_witness:
  "\<exists>rresp. kvs_Range \<lparr>clusterID = 1, memberID = 1\<rparr> (mem_ops 0) \<lparr>rq_Key = ''k'', rq_RangeEnd = [], rq_Limit = 0, rq_Revision = 0\<rparr>
      (fst (kvs_Put \<lparr>clusterID = 1, memberID = 1\<rparr> (mem_ops 0) \<lparr>pq_Key = ''k'', pq_Value = ''v'', pq_Lease = 0, pq_PrevKv = True\<rparr> NewMemoryEtcd)) = Inr rresp \<and>
      map kv_Value (rp_Kvs rresp) = [''v'']"
proof -
  obtain m' resp where p: "kvs_Put \<lparr>clusterID = 1, memberID = 1\<rparr> (mem_ops 0)
      \<lparr>pq_Key = ''k'', pq_Value = ''v'', pq_Lease = 0, pq_PrevKv = True\<rparr> NewMemoryEtcd = (m', Inr resp)"
    by (simp add: kvs_Put_def mem_ops_def me_PutWithLease_def check_lease_def Let_def)
  show ?thesis using kv_read_your_write[OF me_inv_New(1) p, of 0] p by auto
qed

end
