(* ===== verification/Rocks_Codec.thy ===== *)
theory Rocks_Codec
  imports Serialization Raft_Log
begin

text \<open>
  The data formats of the RocksDB engine: the binary form of a stored entry (\<open>internal/rocksdb/pools.go\<close>)
  and the protobuf messages of its Raft log (\<open>internal/rocksdb/raft_proto.go\<close>). Decoding an entry indexes into the
  data without a check, which is a panic when the data are too short. The protobuf runtime is a parameter.
\<close>

section \<open>Little-endian integers\<close>

definition PutUint32LE :: "nat \<Rightarrow> string" where
  "PutUint32LE n = rev (be_bytes 4 n)"

definition PutUint64LE :: "nat \<Rightarrow> string" where
  "PutUint64LE n = rev (be_bytes 8 n)"

definition Uint32LE :: "string \<Rightarrow> nat" where
  "Uint32LE s = be_val (rev (take 4 s))"

definition Uint64LE :: "string \<Rightarrow> nat" where
  "Uint64LE s = be_val (rev (take 8 s))"

lemma length_LE [simp]: "length (PutUint32LE n) = 4" "length (PutUint64LE n) = 8"
  by (simp_all add: PutUint32LE_def PutUint64LE_def)

lemma Uint32LE_Put: "n < 2 ^ 32 \<Longrightarrow> Uint32LE (PutUint32LE n @ rest) = n"
  by (simp add: Uint32LE_def PutUint32LE_def be_val_bytes)

lemma Uint64LE_Put: "n < 2 ^ 64 \<Longrightarrow> Uint64LE (PutUint64LE n @ rest) = n"
  by (simp add: Uint64LE_def PutUint64LE_def be_val_bytes)

lemma int64_LE: "int64_range n \<Longrightarrow> int64 (Uint64LE (PutUint64LE (uint64 n) @ rest)) = n"
  by (simp add: Uint64LE_Put int64_uint64)

section \<open>Stored entries\<close>

definition encodeKeyValue :: "key_value \<Rightarrow> string" where
  "encodeKeyValue kv =
     PutUint32LE (length (kv_Key kv) mod 2 ^ 32) @ kv_Key kv @
     PutUint32LE (length (kv_Value kv) mod 2 ^ 32) @ kv_Value kv @
     PutUint64LE (uint64 (kv_CreateRevision kv)) @ PutUint64LE (uint64 (kv_ModRevision kv)) @
     PutUint64LE (uint64 (kv_Version kv)) @ PutUint64LE (uint64 (kv_Lease kv))"

datatype decoded = DecodeNil | DecodePanic | Decoded key_value

definition decodeKeyValue :: "string \<Rightarrow> decoded" where
  "decodeKeyValue data =
     (if length data < 8 then DecodeNil
      else
        let keyLen = Uint32LE data; d1 = drop 4 data
        in if length d1 < keyLen then DecodePanic
           else
             let key = take keyLen d1; d2 = drop keyLen d1
             in if length d2 < 4 then DecodePanic
                else
                  let valueLen = Uint32LE d2; d3 = drop 4 d2
                  in if length d3 < valueLen then DecodePanic
                     else
                       let val = take valueLen d3; d4 = drop valueLen d3
                       in if length d4 < 32 then DecodePanic
                          else Decoded \<lparr>kv_Key = key, kv_Value = val, kv_CreateRevision = int64 (Uint64LE d4),
                                 kv_ModRevision = int64 (Uint64LE (drop 8 d4)), kv_Version = int64 (Uint64LE (drop 16 d4)),
                                 kv_Lease = int64 (Uint64LE (drop 24 d4))\<rparr>)"

definition kv_fits :: "key_value \<Rightarrow> bool" where
  "kv_fits kv \<longleftrightarrow> length (kv_Key kv) < 2 ^ 32 \<and> length (kv_Value kv) < 2 ^ 32 \<and> int64_range (kv_CreateRevision kv) \<and>
     int64_range (kv_ModRevision kv) \<and> int64_range (kv_Version kv) \<and> int64_range (kv_Lease kv)"

lemma encodeKeyValue_length: "length (encodeKeyValue kv) = length (kv_Key kv) + length (kv_Value kv) + 40"
  by (simp add: encodeKeyValue_def)

lemma encodeKeyValue_nonempty [simp]: "encodeKeyValue kv \<noteq> []"
  using encodeKeyValue_length[of kv] by auto

lemma decode_encode: "kv_fits kv \<Longrightarrow> decodeKeyValue (encodeKeyValue kv) = Decoded kv"
proof -
  assume f: "kv_fits kv"
  have l8: "\<not> length (encodeKeyValue kv) < 8" by (simp add: encodeKeyValue_length)
  have k: "length (kv_Key kv) mod 2 ^ 32 = length (kv_Key kv)" "length (kv_Value kv) mod 2 ^ 32 = length (kv_Value kv)"
    using f by (simp_all add: kv_fits_def)
  have u: "Uint32LE (PutUint32LE (length (kv_Key kv)) @ rest) = length (kv_Key kv)"
    "Uint32LE (PutUint32LE (length (kv_Value kv)) @ rest) = length (kv_Value kv)" for rest
    using f by (simp_all add: kv_fits_def Uint32LE_Put)
  show ?thesis
    unfolding decodeKeyValue_def if_not_P[OF l8] unfolding encodeKeyValue_def k Let_def
    using f by (simp add: u kv_fits_def int64_LE int64_LE[where rest = "[]", simplified])
qed

text \<open>A value of at least eight bytes that is too short for its own lengths panics.\<close>

lemma decode_short: "8 \<le> length data \<Longrightarrow> length data < 40 \<Longrightarrow> decodeKeyValue data = DecodePanic"
  by (auto simp: decodeKeyValue_def Let_def)

section \<open>Raft operations\<close>

definition rk_compareToProto :: "compare \<Rightarrow> pb_compare" where
  "rk_compareToProto cmp =
     \<lparr>pbc_Key = cmp_Key cmp,
      pbc_Result = int32 (of_compare_result (cmp_Result cmp)),
      pbc_Target = int32 (of_compare_target (cmp_Target cmp)),
      pbc_TargetUnion =
        (let u = cmp_TargetUnion cmp
         in case cmp_Target cmp of
              CompareVersion \<Rightarrow> Some (PbVersion (cu_Version u))
            | CompareCreate \<Rightarrow> Some (PbCreateRevision (cu_CreateRevision u))
            | CompareMod \<Rightarrow> Some (PbModRevision (cu_ModRevision u))
            | CompareValue \<Rightarrow> Some (PbValue (cu_Value u))
            | CompareLease \<Rightarrow> Some (PbLease (cu_Lease u))
            | CompareTargetOther _ \<Rightarrow> None)\<rparr>"

definition rk_compareFromProto :: "pb_compare \<Rightarrow> compare" where
  "rk_compareFromProto pbCmp =
     \<lparr>cmp_Target = to_compare_target (pbc_Target pbCmp), cmp_Result = to_compare_result (pbc_Result pbCmp),
      cmp_Key = pbc_Key pbCmp,
      cmp_TargetUnion =
        (case pbc_TargetUnion pbCmp of
           None \<Rightarrow> zero_union
         | Some (PbVersion v) \<Rightarrow> zero_union\<lparr>cu_Version := v\<rparr>
         | Some (PbCreateRevision v) \<Rightarrow> zero_union\<lparr>cu_CreateRevision := v\<rparr>
         | Some (PbModRevision v) \<Rightarrow> zero_union\<lparr>cu_ModRevision := v\<rparr>
         | Some (PbValue v) \<Rightarrow> zero_union\<lparr>cu_Value := v\<rparr>
         | Some (PbLease v) \<Rightarrow> zero_union\<lparr>cu_Lease := v\<rparr>)\<rparr>"

definition rk_opToProto :: "op \<Rightarrow> pb_op" where
  "rk_opToProto opn =
     \<lparr>pbo_Type = int32 (of_op_type (op_Type opn)), pbo_Key = op_Key opn, pbo_Value = op_Value opn,
      pbo_RangeEnd = op_RangeEnd opn, pbo_Lease = op_LeaseID opn\<rparr>"

definition rk_opFromProto :: "pb_op \<Rightarrow> op" where
  "rk_opFromProto pbOp =
     \<lparr>op_Type = to_op_type (pbo_Type pbOp), op_Key = pbo_Key pbOp, op_RangeEnd = pbo_RangeEnd pbOp,
      op_Value = pbo_Value pbOp, op_Limit = 0, op_LeaseID = pbo_Lease pbOp\<rparr>"

definition toProto :: "RaftOperation \<Rightarrow> pb_raft_operation" where
  "toProto opn =
     \<lparr>pb_Type = ro_Type opn, pb_Key = ro_Key opn, pb_Value = ro_Value opn, pb_LeaseId = ro_LeaseID opn,
      pb_RangeEnd = ro_RangeEnd opn, pb_SeqNum = ro_SeqNum opn, pb_Ttl = ro_TTL opn,
      pb_Compares = (if 0 < length (ro_Compares opn) then map rk_compareToProto (ro_Compares opn) else []),
      pb_ThenOps = (if 0 < length (ro_ThenOps opn) then map rk_opToProto (ro_ThenOps opn) else []),
      pb_ElseOps = (if 0 < length (ro_ElseOps opn) then map rk_opToProto (ro_ElseOps opn) else [])\<rparr>"

definition fromProto :: "pb_raft_operation \<Rightarrow> RaftOperation" where
  "fromProto pbOp =
     \<lparr>ro_Type = pb_Type pbOp, ro_Key = pb_Key pbOp, ro_Value = pb_Value pbOp, ro_LeaseID = pb_LeaseId pbOp,
      ro_RangeEnd = pb_RangeEnd pbOp, ro_SeqNum = pb_SeqNum pbOp, ro_TTL = pb_Ttl pbOp,
      ro_Compares = (if 0 < length (pb_Compares pbOp) then map rk_compareFromProto (pb_Compares pbOp) else []),
      ro_ThenOps = (if 0 < length (pb_ThenOps pbOp) then map rk_opFromProto (pb_ThenOps pbOp) else []),
      ro_ElseOps = (if 0 < length (pb_ElseOps pbOp) then map rk_opFromProto (pb_ElseOps pbOp) else [])\<rparr>"

text \<open>Both engines convert alike.\<close>

lemma toProto_eq: "toProto = raftOperationToProto" "fromProto = protoToRaftOperation"
proof -
  have "rk_compareToProto = compareToProto" "rk_opToProto = opToProto"
    by (simp_all add: fun_eq_iff rk_compareToProto_def compareToProto_def rk_opToProto_def opToProto_def Let_def)
  then show "toProto = raftOperationToProto" by (simp add: fun_eq_iff toProto_def raftOperationToProto_def)
  have "rk_compareFromProto = protoToCompare" "rk_opFromProto = protoToOp"
    by (simp_all add: fun_eq_iff rk_compareFromProto_def protoToCompare_def rk_opFromProto_def protoToOp_def
        split: option.split pb_target_union.split)
  then show "fromProto = protoToRaftOperation" by (simp add: fun_eq_iff fromProto_def protoToRaftOperation_def)
qed

datatype raft_payload = PayloadSingle pb_raft_operation | PayloadBatch "pb_raft_operation list" | PayloadUnset

record rocks_codec =
  op_Marshal :: "pb_raft_operation \<Rightarrow> string option"
  op_Unmarshal :: "string \<Rightarrow> pb_raft_operation option"
  msg_Marshal :: "raft_payload \<Rightarrow> string option"
  msg_Unmarshal :: "string \<Rightarrow> raft_payload option"

definition marshalRaftOperation :: "rocks_codec \<Rightarrow> RaftOperation \<Rightarrow> string option" where
  "marshalRaftOperation c opn = op_Marshal c (toProto opn)"

definition unmarshalRaftOperation :: "rocks_codec \<Rightarrow> string \<Rightarrow> RaftOperation option" where
  "unmarshalRaftOperation c data = map_option fromProto (op_Unmarshal c data)"

definition marshalBatchOperations :: "rocks_codec \<Rightarrow> RaftOperation list \<Rightarrow> string option" where
  "marshalBatchOperations c ops = msg_Marshal c (PayloadBatch (map toProto ops))"

text \<open>The outer option is an error; a message without payload gives no operations, which is nil in Go.\<close>

definition unmarshalRaftMessage :: "rocks_codec \<Rightarrow> string \<Rightarrow> RaftOperation list option option" where
  "unmarshalRaftMessage c data =
     (case msg_Unmarshal c data of
        None \<Rightarrow> None
      | Some (PayloadSingle pbOp) \<Rightarrow> Some (Some [fromProto pbOp])
      | Some (PayloadBatch pbOps) \<Rightarrow> Some (Some (map fromProto pbOps))
      | Some PayloadUnset \<Rightarrow> Some None)"

end
