(* ===== verification/Rocks_Store.thy ===== *)
theory Rocks_Store
  imports Rocks_Codec Memory_Node "HOL-Library.Monad_Syntax"
begin

text \<open>
  The RocksDB engine, \<open>internal/rocksdb/kvstore.go\<close>: state, reads, the operations that are applied after a
  commit one by one or in a batch, transactions, leases, watches and compaction. The client calls and
  the commit loop are in \<open>Rocks_Node\<close>.

  The database is an ordered map of byte strings, with an iterator that reads the state at its creation. Which
  calls of the database fail, the clock, the order of a map iteration, the lease codec and gob are fields of an
  environment. \<^const>\<open>None\<close> as a result means that the process stops, by a panic of the decoder or a fatal
  error. The watch subscriptions have the fields of the in-memory engine. Each operation is one step.
\<close>

section \<open>Environment and state\<close>

record rocks_gob =
  gob_int :: "string \<Rightarrow> int option"
  gob_kv :: "string \<Rightarrow> key_value option"
  gob_legacy :: "string \<Rightarrow> (string \<times> string) option"
  gob_enc_map :: "(string, string) gomap \<Rightarrow> string option"
  gob_dec_map :: "string \<Rightarrow> (string, string) gomap option"

record 'd rocks_env =
  re_D :: "'d rocks"
  get_fails :: "string \<Rightarrow> bool"
  put_fails :: "string \<Rightarrow> bool"
  write_fails :: "batch_op list \<Rightarrow> bool"
  re_now :: int
  re_keys :: "string list \<Rightarrow> string list"
  re_lease :: lease_codec
  re_gob :: rocks_gob

record 'd RocksDB =
  rk_db :: 'd
  rk_proposeC :: "string list"
  rk_pendingOps :: "string list"
  rk_closedOps :: "string list"
  rk_pendingTxnResults :: "(string, txn_response) gomap"
  rk_seqNum :: int
  rk_watches :: "(int, watch_subscription) gomap"
  rk_goroutines :: "goroutine list"
  cachedRevision :: int

datatype rk_error =
    RkDatabase
  | RkLease codec_error
  | RkLeaseNotFound int
  | RkWatchExists int
  | RkWatchNotFound int
  | RkCompactFuture int int
  | RkCompactInvalid int
  | RkCompacted int int

definition revisionKey :: string where "revisionKey = ''meta:revision''"
definition kvPrefix :: string where "kvPrefix = ''kv:''"
definition leasePrefix :: string where "leasePrefix = ''lease:''"
definition compactedKey :: string where "compactedKey = ''meta:compacted_revision''"

definition leaseKey :: "int \<Rightarrow> string" where
  "leaseKey i = leasePrefix @ show_int i"

text \<open>The calls of the database; a missing key reads as empty data.\<close>

definition rk_get :: "'d rocks_env \<Rightarrow> string \<Rightarrow> 'd \<Rightarrow> string option" where
  "rk_get E k db = (if get_fails E k then None else Some (case bt_Get (re_D E) db k of None \<Rightarrow> [] | Some v \<Rightarrow> v))"

definition rk_put :: "'d rocks_env \<Rightarrow> string \<Rightarrow> string \<Rightarrow> 'd \<Rightarrow> 'd option" where
  "rk_put E k v db = (if put_fails E k then None else Some (bt_ReplaceOrInsert (re_D E) k v db))"

definition rk_delete :: "'d rocks_env \<Rightarrow> string \<Rightarrow> 'd \<Rightarrow> 'd option" where
  "rk_delete E k db = (if put_fails E k then None else Some (bt_Delete (re_D E) k db))"

definition rk_write :: "'d rocks_env \<Rightarrow> batch_op list \<Rightarrow> 'd \<Rightarrow> 'd option" where
  "rk_write E wb db = (if write_fails E wb then None else Some (fold (apply_op (re_D E)) wb db))"

definition rk_seek :: "'d rocks_env \<Rightarrow> string \<Rightarrow> 'd \<Rightarrow> (string \<times> string) list" where
  "rk_seek E k db = bt_AscendGreaterOrEqual (re_D E) k db"

section \<open>Entries, leases and revisions\<close>

definition getKeyValue :: "'d rocks_env \<Rightarrow> string \<Rightarrow> 'd \<Rightarrow> (rk_error + key_value option) option" where
  "getKeyValue E key db =
     (case rk_get E (kvPrefix @ key) db of
        None \<Rightarrow> Some (Inl RkDatabase)
      | Some data \<Rightarrow>
          if length data = 0 then Some (Inr None)
          else (case decodeKeyValue data of
                  DecodeNil \<Rightarrow> Some (Inr None)
                | DecodePanic \<Rightarrow> None
                | Decoded kv \<Rightarrow> Some (Inr (Some kv))))"

text \<open>The entry of a key where the caller ignores the error.\<close>

definition prev_kv :: "'d rocks_env \<Rightarrow> string \<Rightarrow> 'd \<Rightarrow> key_value option option" where
  "prev_kv E key db = map_option (\<lambda>r. case r of Inl _ \<Rightarrow> None | Inr kv \<Rightarrow> kv) (getKeyValue E key db)"

definition getLease :: "'d rocks_env \<Rightarrow> int \<Rightarrow> 'd \<Rightarrow> rk_error + lease option" where
  "getLease E i db =
     (case rk_get E (leaseKey i) db of
        None \<Rightarrow> Inl RkDatabase
      | Some data \<Rightarrow>
          if length data = 0 then Inr None
          else (case DeserializeLease (re_lease E) data of Inl e \<Rightarrow> Inl (RkLease e) | Inr l \<Rightarrow> Inr (Some l)))"

definition loadCurrentRevision :: "'d rocks_env \<Rightarrow> 'd \<Rightarrow> int" where
  "loadCurrentRevision E db =
     (case rk_get E revisionKey db of
        None \<Rightarrow> 0
      | Some data \<Rightarrow> if length data = 0 then 0 else (case gob_int (re_gob E) data of None \<Rightarrow> 0 | Some r \<Rightarrow> r))"

definition rk_CurrentRevision :: "'d RocksDB \<Rightarrow> int" where
  "rk_CurrentRevision s = cachedRevision s"

definition incrementRevision :: "'d rocks_env \<Rightarrow> 'd RocksDB \<Rightarrow> 'd RocksDB \<times> (rk_error + int)" where
  "incrementRevision E s =
     (let r = cachedRevision s + 1
      in case rk_put E revisionKey (PutUint64LE (uint64 r)) (rk_db s) of
           None \<Rightarrow> (s, Inl RkDatabase)
         | Some db \<Rightarrow> (s\<lparr>rk_db := db, cachedRevision := r\<rparr>, Inr r))"

section \<open>Reads\<close>

fun range_loop ::
    "string \<Rightarrow> string \<Rightarrow> int \<Rightarrow> (string \<times> string) list \<Rightarrow> key_value list \<Rightarrow> key_value list option" where
  "range_loop key rangeEnd limit [] kvs = Some kvs"
| "range_loop key rangeEnd limit ((dk, v) # es) kvs =
     (if \<not> has_prefix kvPrefix dk then Some kvs
      else
        let k = drop (length kvPrefix) dk;
            next = (\<lambda>kvs. if rangeEnd \<noteq> zero_byte \<and> rangeEnd \<le> k then Some kvs else range_loop key rangeEnd limit es kvs)
        in if in_key_range k key rangeEnd then
             (case decodeKeyValue v of
                DecodePanic \<Rightarrow> None
              | DecodeNil \<Rightarrow> if 0 < limit \<and> limit \<le> int (length kvs) then Some kvs else next kvs
              | Decoded kv \<Rightarrow>
                  if 0 < limit \<and> limit \<le> int (length (kvs @ [kv])) then Some (kvs @ [kv]) else next (kvs @ [kv]))
           else next kvs)"

definition rk_local_range :: "'d rocks_env \<Rightarrow> string \<Rightarrow> string \<Rightarrow> int \<Rightarrow> 'd RocksDB \<Rightarrow> range_response option" where
  "rk_local_range E key rangeEnd limit s =
     do {
       kvs \<leftarrow> (if rangeEnd = [] then map_option (case_option [] (\<lambda>kv. [kv])) (prev_kv E key (rk_db s))
              else map_option (sort_key kv_Key) (range_loop key rangeEnd limit (rk_seek E (kvPrefix @ key) (rk_db s)) []));
       let more = 0 < limit \<and> limit < int (length kvs);
       Some \<lparr>rr_Kvs = (if more then take (nat limit) kvs else kvs), rr_More = more, rr_Count = int (length kvs),
              rr_Revision = rk_CurrentRevision s\<rparr>
     }"

text \<open>A read on a leader with a valid lease is counted as a fast-path read; every path reads locally.\<close>

definition rk_Range ::
    "'d rocks_env \<Rightarrow> raft_node option \<Rightarrow> string \<Rightarrow> string \<Rightarrow> int \<Rightarrow> int \<Rightarrow> 'd RocksDB \<Rightarrow> (range_response \<times> bool) option" where
  "rk_Range E node key rangeEnd limit r s =
     map_option (\<lambda>resp.
       (resp, case node of
                None \<Rightarrow> False
              | Some n \<Rightarrow> (case rn_LeaseRead n of None \<Rightarrow> False | Some (isLeader, hasValidLease) \<Rightarrow> isLeader \<and> hasValidLease)))
       (rk_local_range E key rangeEnd limit s)"

definition rk_Lookup :: "'d rocks_env \<Rightarrow> string \<Rightarrow> 'd RocksDB \<Rightarrow> (string \<times> bool) option" where
  "rk_Lookup E key s = map_option (\<lambda>kv. case kv of None \<Rightarrow> ([], False) | Some kv \<Rightarrow> (kv_Value kv, True)) (prev_kv E key (rk_db s))"

text \<open>
  The scans of the deletions: the covered database keys with their data, until the end of the interval or of the
  prefix. The deletions decode the data with gob.
\<close>

fun scan_range :: "string \<Rightarrow> string \<Rightarrow> (string \<times> string) list \<Rightarrow> (string \<times> string) list" where
  "scan_range key rangeEnd [] = []"
| "scan_range key rangeEnd ((dk, v) # es) =
     (if \<not> has_prefix kvPrefix dk then []
      else
        let k = drop (length kvPrefix) dk;
            rest = (if rangeEnd \<noteq> zero_byte \<and> rangeEnd \<le> k then [] else scan_range key rangeEnd es)
        in if in_key_range k key rangeEnd then (dk, v) # rest else rest)"

definition gob_scan :: "'d rocks_env \<Rightarrow> string \<Rightarrow> string \<Rightarrow> 'd \<Rightarrow> (string \<times> key_value option) list" where
  "gob_scan E key rangeEnd db =
     map (\<lambda>(dk, v). (dk, gob_kv (re_gob E) v)) (scan_range key rangeEnd (rk_seek E (kvPrefix @ key) db))"

definition found_kvs :: "(string \<times> key_value option) list \<Rightarrow> key_value list" where
  "found_kvs es = map (\<lambda>(dk, kv). the kv) (filter (\<lambda>(dk, kv). kv \<noteq> None) es)"

definition rk_delete_kvs :: "'d rocks_env \<Rightarrow> string \<Rightarrow> string \<Rightarrow> 'd \<Rightarrow> key_value list option" where
  "rk_delete_kvs E key rangeEnd db =
     (if rangeEnd = [] then map_option (case_option [] (\<lambda>kv. [kv])) (prev_kv E key db)
      else Some (found_kvs (gob_scan E key rangeEnd db)))"

section \<open>Watches\<close>

definition rk_matchWatch :: "string \<Rightarrow> string \<Rightarrow> string \<Rightarrow> bool" where
  "rk_matchWatch key watchKey rangeEnd =
     (if rangeEnd = [] then key = watchKey else watchKey \<le> key \<and> (rangeEnd = zero_byte \<or> key < rangeEnd))"

fun rk_shouldFilter :: "event_type \<Rightarrow> watch_filter_type list \<Rightarrow> bool" where
  "rk_shouldFilter t [] = False"
| "rk_shouldFilter t (f # fs) =
     (if f = FilterNoPut \<and> t = EventTypePut \<or> f = FilterNoDelete \<and> t = EventTypeDelete then True
      else rk_shouldFilter t fs)"

definition rk_wants :: "watch_event \<Rightarrow> watch_subscription \<Rightarrow> bool" where
  "rk_wants event sub \<longleftrightarrow>
     \<not> ws_closed sub \<and> rk_matchWatch (event_key event) (ws_key sub) (ws_rangeEnd sub)
       \<and> \<not> rk_shouldFilter (we_Type event) (ws_filters sub)"

definition rk_notifyWatches :: "watch_event \<Rightarrow> 'd RocksDB \<Rightarrow> 'd RocksDB" where
  "rk_notifyWatches event s =
     s\<lparr>rk_watches := map (\<lambda>(i, sub).
            (i, if rk_wants event sub then push_event (event_to_send event sub) sub else sub)) (rk_watches s),
       rk_goroutines := rk_goroutines s @
         map (\<lambda>(i, sub). SlowSendEvent i (event_to_send event sub))
           (filter (\<lambda>(i, sub). rk_wants event sub \<and> \<not> length (ws_eventCh sub) < eventChCap) (rk_watches s))\<rparr>"

definition rk_WatchWithOptions ::
    "string \<Rightarrow> string \<Rightarrow> int \<Rightarrow> int \<Rightarrow> watch_options option \<Rightarrow> 'd RocksDB \<Rightarrow> rk_error + 'd RocksDB" where
  "rk_WatchWithOptions key rangeEnd startRevision watchID opts s =
     (if gm_get (rk_watches s) watchID \<noteq> None then Inl (RkWatchExists watchID)
      else
        let opt = (\<lambda>f d. case opts of None \<Rightarrow> d | Some opt \<Rightarrow> f opt);
            sub = \<lparr>ws_watchID = watchID, ws_key = key, ws_rangeEnd = rangeEnd, ws_startRev = startRevision,
                   ws_eventCh = [], ws_closed = False, ws_prevKV = opt wo_PrevKV False,
                   ws_progressNotify = opt wo_ProgressNotify False,
                   ws_filters = (case opts of None \<Rightarrow> [] | Some opt \<Rightarrow> wo_Filters opt),
                   ws_fragment = opt wo_Fragment False\<rparr>
        in Inr (s\<lparr>rk_watches := gm_set watchID sub (rk_watches s),
                  rk_goroutines := rk_goroutines s @
                    (if 0 < startRevision \<and> startRevision < rk_CurrentRevision s
                     then [SendHistoricalEvents watchID key rangeEnd] else [])\<rparr>))"

definition rk_Watch :: "string \<Rightarrow> string \<Rightarrow> int \<Rightarrow> int \<Rightarrow> 'd RocksDB \<Rightarrow> rk_error + 'd RocksDB" where
  "rk_Watch key rangeEnd startRevision watchID s = rk_WatchWithOptions key rangeEnd startRevision watchID None s"

definition rk_CancelWatch :: "int \<Rightarrow> 'd RocksDB \<Rightarrow> rk_error + 'd RocksDB" where
  "rk_CancelWatch watchID s =
     (case gm_get (rk_watches s) watchID of
        None \<Rightarrow> Inl (RkWatchNotFound watchID)
      | Some sub \<Rightarrow> if ws_closed sub then Inr s else Inr (s\<lparr>rk_watches := gm_del watchID (rk_watches s)\<rparr>))"

definition rk_slowSendEvent :: "select_case \<Rightarrow> int \<Rightarrow> watch_event \<Rightarrow> 'd RocksDB \<Rightarrow> 'd RocksDB outcome" where
  "rk_slowSendEvent choice watchID event s =
     (case choice of
        CaseSend \<Rightarrow>
          (case gm_get (rk_watches s) watchID of
             None \<Rightarrow> Panicked
           | Some sub \<Rightarrow>
               if length (ws_eventCh sub) < eventChCap
               then Finished (s\<lparr>rk_watches := gm_set watchID (push_event event sub) (rk_watches s)\<rparr>)
               else Waiting)
      | CaseCancel \<Rightarrow> (if gm_get (rk_watches s) watchID = None then Finished s else Waiting)
      | CaseTimer \<Rightarrow> (case rk_CancelWatch watchID s of Inl _ \<Rightarrow> Finished s | Inr s' \<Rightarrow> Finished s'))"

text \<open>The historical events: the current entries in the interval, skipped when the channel is full.\<close>

definition rk_sendHistoricalEvents ::
    "'d rocks_env \<Rightarrow> select_case \<Rightarrow> int \<Rightarrow> string \<Rightarrow> string \<Rightarrow> 'd RocksDB \<Rightarrow> 'd RocksDB outcome" where
  "rk_sendHistoricalEvents E choice watchID key rangeEnd s =
     (case rk_local_range E key rangeEnd 0 s of
        None \<Rightarrow> Panicked
      | Some resp \<Rightarrow>
          (case gm_get (rk_watches s) watchID of
             None \<Rightarrow> if choice = CaseSend \<and> rr_Kvs resp \<noteq> [] then Panicked else Finished s
           | Some sub \<Rightarrow>
               Finished (s\<lparr>rk_watches := gm_set watchID
                 (fold (\<lambda>kv sub. push_event (historical_event kv) sub) (rr_Kvs resp) sub) (rk_watches s)\<rparr>)))"

section \<open>Puts\<close>

text \<open>
  The operations of a put on the write batch: the entry, and the lease with the key added. An error leaves
  those that were added before it.
\<close>

definition put_ops :: "'d rocks_env \<Rightarrow> string \<Rightarrow> key_value \<Rightarrow> int \<Rightarrow> 'd \<Rightarrow> batch_op list \<times> rk_error option" where
  "put_ops E key kv leaseID db =
     (let entry = [WPut (kvPrefix @ key) (encodeKeyValue kv)]
      in if leaseID = 0 then (entry, None)
         else case getLease E leaseID db of
                Inl e \<Rightarrow> (entry, Some e)
              | Inr None \<Rightarrow> (entry, None)
              | Inr (Some l) \<Rightarrow>
                  (case SerializeLease (re_keys E) (re_lease E) (Some (l\<lparr>ls_Keys := List.insert key (ls_Keys l)\<rparr>)) of
                     Inl e \<Rightarrow> (entry, Some (RkLease e))
                   | Inr data \<Rightarrow> (entry @ [WPut (leaseKey leaseID) data], None)))"

definition put_event :: "int \<Rightarrow> key_value \<Rightarrow> key_value option \<Rightarrow> watch_event" where
  "put_event r kv prevKv = \<lparr>we_Type = EventTypePut, we_Kv = Some kv, we_PrevKv = prevKv, we_Revision = r\<rparr>"

definition preparePutBatch ::
    "'d rocks_env \<Rightarrow> string \<Rightarrow> string \<Rightarrow> int \<Rightarrow> batch_op list \<Rightarrow> 'd RocksDB \<Rightarrow>
     ('d RocksDB \<times> batch_op list \<times> (rk_error + watch_event list)) option" where
  "preparePutBatch E key val leaseID batch s =
     do {
       prevKv \<leftarrow> prev_kv E key (rk_db s);
       (case incrementRevision E s of
          (s1, Inl e) \<Rightarrow> Some (s1, batch, Inl e)
        | (s1, Inr r) \<Rightarrow>
            let kv = next_kv key val leaseID r prevKv; (ops, err) = put_ops E key kv leaseID (rk_db s1)
            in Some (s1, batch @ ops, case err of Some e \<Rightarrow> Inl e | None \<Rightarrow> Inr [put_event r kv prevKv]))
     }"

definition rk_putUnlocked ::
    "'d rocks_env \<Rightarrow> string \<Rightarrow> string \<Rightarrow> int \<Rightarrow> 'd RocksDB \<Rightarrow> ('d RocksDB \<times> rk_error option) option" where
  "rk_putUnlocked E key val leaseID s =
     do {
       prevKv \<leftarrow> prev_kv E key (rk_db s);
       (case incrementRevision E s of
          (s1, Inl e) \<Rightarrow> Some (s1, Some e)
        | (s1, Inr r) \<Rightarrow>
            let kv = next_kv key val leaseID r prevKv; (ops, err) = put_ops E key kv leaseID (rk_db s1)
            in case err of
                 Some e \<Rightarrow> Some (s1, Some e)
               | None \<Rightarrow>
                   (case rk_write E ops (rk_db s1) of
                      None \<Rightarrow> Some (s1, Some RkDatabase)
                    | Some db \<Rightarrow> Some (rk_notifyWatches (put_event r kv prevKv) (s1\<lparr>rk_db := db\<rparr>), None)))
     }"

section \<open>Deletions\<close>

definition delete_events :: "int \<Rightarrow> key_value option \<Rightarrow> watch_event list" where
  "delete_events r prevKv = (case prevKv of None \<Rightarrow> [] | Some kv \<Rightarrow> [tombstone_event r kv])"

text \<open>The keys of a range deletion in a batch: up to the first key that is not below the end key.\<close>

definition batch_delete_keys :: "'d rocks_env \<Rightarrow> string \<Rightarrow> string \<Rightarrow> 'd \<Rightarrow> string list" where
  "batch_delete_keys E key rangeEnd db =
     map (\<lambda>(dk, v). drop (length kvPrefix) dk)
       (takeWhile (\<lambda>(dk, v). dk < kvPrefix @ rangeEnd) (rk_seek E (kvPrefix @ key) db))"

fun batch_delete_loop ::
    "'d rocks_env \<Rightarrow> int \<Rightarrow> 'd \<Rightarrow> string list \<Rightarrow> (batch_op list \<times> watch_event list) option" where
  "batch_delete_loop E r db [] = Some ([], [])"
| "batch_delete_loop E r db (k # ks) =
     do {
       prevKv \<leftarrow> prev_kv E k db;
       (ops, events) \<leftarrow> batch_delete_loop E r db ks;
       Some (WDelete (kvPrefix @ k) # ops, delete_events r prevKv @ events)
     }"

definition prepareDeleteBatch ::
    "'d rocks_env \<Rightarrow> string \<Rightarrow> string \<Rightarrow> batch_op list \<Rightarrow> 'd RocksDB \<Rightarrow>
     ('d RocksDB \<times> batch_op list \<times> (rk_error + watch_event list)) option" where
  "prepareDeleteBatch E key rangeEnd batch s =
     (case incrementRevision E s of
        (s1, Inl e) \<Rightarrow> Some (s1, batch, Inl e)
      | (s1, Inr r) \<Rightarrow>
          do {
            (ops, events) \<leftarrow> batch_delete_loop E r (rk_db s1)
              (if rangeEnd = [] then [key] else batch_delete_keys E key rangeEnd (rk_db s1));
            Some (s1, batch @ ops, Inr events)
          })"

definition rk_deleteUnlocked ::
    "'d rocks_env \<Rightarrow> string \<Rightarrow> string \<Rightarrow> 'd RocksDB \<Rightarrow> ('d RocksDB \<times> rk_error option) option" where
  "rk_deleteUnlocked E key rangeEnd s =
     (case incrementRevision E s of
        (s1, Inl e) \<Rightarrow> Some (s1, Some e)
      | (s1, Inr r) \<Rightarrow>
          if rangeEnd = [] then
            do {
              prevKv \<leftarrow> prev_kv E key (rk_db s1);
              (case rk_delete E (kvPrefix @ key) (rk_db s1) of
                 None \<Rightarrow> Some (s1, Some RkDatabase)
               | Some db \<Rightarrow> Some (fold rk_notifyWatches (delete_events r prevKv) (s1\<lparr>rk_db := db\<rparr>), None))
            }
          else
            let es = gob_scan E key rangeEnd (rk_db s1)
            in case rk_write E (map (\<lambda>(dk, kv). WDelete dk) es) (rk_db s1) of
                 None \<Rightarrow> Some (s1, Some RkDatabase)
               | Some db \<Rightarrow>
                   Some (fold rk_notifyWatches (map (tombstone_event r) (found_kvs es)) (s1\<lparr>rk_db := db\<rparr>), None))"

section \<open>Leases\<close>

definition new_lease :: "'d rocks_env \<Rightarrow> int \<Rightarrow> int \<Rightarrow> lease" where
  "new_lease E i ttl = \<lparr>ls_ID = i, ls_TTL = ttl, ls_GrantTime = re_now E, ls_Keys = []\<rparr>"

definition prepareLeaseGrantBatch :: "'d rocks_env \<Rightarrow> int \<Rightarrow> int \<Rightarrow> batch_op list \<Rightarrow> batch_op list \<times> rk_error option" where
  "prepareLeaseGrantBatch E i ttl batch =
     (case SerializeLease (re_keys E) (re_lease E) (Some (new_lease E i ttl)) of
        Inl e \<Rightarrow> (batch, Some (RkLease e))
      | Inr data \<Rightarrow> (batch @ [WPut (leaseKey i) data], None))"

definition prepareLeaseRevokeBatch :: "'d rocks_env \<Rightarrow> int \<Rightarrow> batch_op list \<Rightarrow> 'd \<Rightarrow> batch_op list \<times> rk_error option" where
  "prepareLeaseRevokeBatch E i batch db =
     (case getLease E i db of
        Inl e \<Rightarrow> (batch, Some e)
      | Inr None \<Rightarrow> (batch, None)
      | Inr (Some l) \<Rightarrow>
          (batch @ map (\<lambda>k. WDelete (kvPrefix @ k)) (re_keys E (ls_Keys l)) @ [WDelete (leaseKey i)], None))"

definition leaseGrantUnlocked :: "'d rocks_env \<Rightarrow> int \<Rightarrow> int \<Rightarrow> 'd RocksDB \<Rightarrow> 'd RocksDB \<times> rk_error option" where
  "leaseGrantUnlocked E i ttl s =
     (case SerializeLease (re_keys E) (re_lease E) (Some (new_lease E i ttl)) of
        Inl e \<Rightarrow> (s, Some (RkLease e))
      | Inr data \<Rightarrow>
          (case rk_put E (leaseKey i) data (rk_db s) of
             None \<Rightarrow> (s, Some RkDatabase)
           | Some db \<Rightarrow> (s\<lparr>rk_db := db\<rparr>, None)))"

text \<open>A failing deletion of a key is logged, and the revocation goes on.\<close>

fun revoke_keys :: "'d rocks_env \<Rightarrow> string list \<Rightarrow> 'd RocksDB \<Rightarrow> 'd RocksDB option" where
  "revoke_keys E [] s = Some s"
| "revoke_keys E (k # ks) s = do { (s', err) \<leftarrow> rk_deleteUnlocked E k [] s; revoke_keys E ks s' }"

definition leaseRevokeUnlocked :: "'d rocks_env \<Rightarrow> int \<Rightarrow> 'd RocksDB \<Rightarrow> ('d RocksDB \<times> rk_error option) option" where
  "leaseRevokeUnlocked E i s =
     (case getLease E i (rk_db s) of
        Inl e \<Rightarrow> Some (s, Some e)
      | Inr None \<Rightarrow> Some (s, None)
      | Inr (Some l) \<Rightarrow>
          do {
            s' \<leftarrow> revoke_keys E (re_keys E (ls_Keys l)) s;
            (case rk_delete E (leaseKey i) (rk_db s') of
               None \<Rightarrow> Some (s', Some RkDatabase)
             | Some db \<Rightarrow> Some (s'\<lparr>rk_db := db\<rparr>, None))
          })"

definition rk_LeaseRenew :: "'d rocks_env \<Rightarrow> int \<Rightarrow> 'd RocksDB \<Rightarrow> 'd RocksDB \<times> (rk_error + lease)" where
  "rk_LeaseRenew E i s =
     (case getLease E i (rk_db s) of
        Inl e \<Rightarrow> (s, Inl e)
      | Inr None \<Rightarrow> (s, Inl (RkLeaseNotFound i))
      | Inr (Some l) \<Rightarrow>
          let l' = l\<lparr>ls_GrantTime := re_now E\<rparr>
          in case SerializeLease (re_keys E) (re_lease E) (Some l') of
               Inl e \<Rightarrow> (s, Inl (RkLease e))
             | Inr data \<Rightarrow>
                 (case rk_put E (leaseKey i) data (rk_db s) of
                    None \<Rightarrow> (s, Inl RkDatabase)
                  | Some db \<Rightarrow> (s\<lparr>rk_db := db\<rparr>, Inr l')))"

definition rk_LeaseTimeToLive :: "'d rocks_env \<Rightarrow> int \<Rightarrow> 'd RocksDB \<Rightarrow> rk_error + lease option" where
  "rk_LeaseTimeToLive E i s = getLease E i (rk_db s)"

definition lease_entries :: "'d rocks_env \<Rightarrow> 'd \<Rightarrow> (string \<times> string) list" where
  "lease_entries E db = takeWhile (\<lambda>(dk, v). has_prefix leasePrefix dk) (rk_seek E leasePrefix db)"

definition rk_Leases :: "'d rocks_env \<Rightarrow> 'd RocksDB \<Rightarrow> lease list" where
  "rk_Leases E s =
     concat (map (\<lambda>(dk, v). case DeserializeLease (re_lease E) v of Inl _ \<Rightarrow> [] | Inr l \<Rightarrow> [l]) (lease_entries E (rk_db s)))"

section \<open>Transactions\<close>

definition rk_compareInt :: "int \<Rightarrow> int \<Rightarrow> compare_result \<Rightarrow> bool" where
  "rk_compareInt a b result =
     (case result of CompareEqual \<Rightarrow> a = b | CompareGreater \<Rightarrow> b < a | CompareLess \<Rightarrow> a < b | CompareNotEqual \<Rightarrow> a \<noteq> b
      | CompareResultOther _ \<Rightarrow> False)"

definition rk_compareBytes :: "string \<Rightarrow> string \<Rightarrow> compare_result \<Rightarrow> bool" where
  "rk_compareBytes a b result =
     (let cmp = bytes_Compare a b
      in case result of CompareEqual \<Rightarrow> cmp = 0 | CompareGreater \<Rightarrow> 0 < cmp | CompareLess \<Rightarrow> cmp < 0
         | CompareNotEqual \<Rightarrow> cmp \<noteq> 0 | CompareResultOther _ \<Rightarrow> False)"

definition rk_evaluateCompare :: "'d rocks_env \<Rightarrow> compare \<Rightarrow> 'd \<Rightarrow> bool option" where
  "rk_evaluateCompare E cmp db =
     map_option (\<lambda>kv.
       let num = (\<lambda>f. case kv of None \<Rightarrow> 0 | Some kv \<Rightarrow> f kv); u = cmp_TargetUnion cmp
       in case cmp_Target cmp of
            CompareVersion \<Rightarrow> rk_compareInt (num kv_Version) (cu_Version u) (cmp_Result cmp)
          | CompareCreate \<Rightarrow> rk_compareInt (num kv_CreateRevision) (cu_CreateRevision u) (cmp_Result cmp)
          | CompareMod \<Rightarrow> rk_compareInt (num kv_ModRevision) (cu_ModRevision u) (cmp_Result cmp)
          | CompareValue \<Rightarrow>
              rk_compareBytes (case kv of None \<Rightarrow> [] | Some kv \<Rightarrow> kv_Value kv) (cu_Value u) (cmp_Result cmp)
          | CompareLease \<Rightarrow> rk_compareInt (num kv_Lease) (cu_Lease u) (cmp_Result cmp)
          | CompareTargetOther _ \<Rightarrow> False)
       (prev_kv E (cmp_Key cmp) db)"

fun eval_compares :: "'d rocks_env \<Rightarrow> compare list \<Rightarrow> 'd \<Rightarrow> bool option" where
  "eval_compares E [] db = Some True"
| "eval_compares E (cmp # cmps) db =
     do { b \<leftarrow> rk_evaluateCompare E cmp db; if b then eval_compares E cmps db else Some False }"

definition rk_txn_op :: "'d rocks_env \<Rightarrow> op \<Rightarrow> 'd RocksDB \<Rightarrow> ('d RocksDB \<times> (rk_error + op_response)) option" where
  "rk_txn_op E opn s =
     (case op_Type opn of
        OpRange \<Rightarrow>
          map_option (\<lambda>resp. (s, Inr (zero_op_response\<lparr>or_Type := OpRange, or_RangeResp := Some resp\<rparr>)))
            (rk_local_range E (op_Key opn) (op_RangeEnd opn) (op_Limit opn) s)
      | OpPut \<Rightarrow>
          do {
            prevKv \<leftarrow> prev_kv E (op_Key opn) (rk_db s);
            (s', err) \<leftarrow> rk_putUnlocked E (op_Key opn) (op_Value opn) (op_LeaseID opn) s;
            Some (s', case err of
                Some e \<Rightarrow> Inl e
              | None \<Rightarrow> Inr (zero_op_response\<lparr>or_Type := OpPut,
                               or_PutResp := Some \<lparr>pr_PrevKv = prevKv, pr_Revision = rk_CurrentRevision s'\<rparr>\<rparr>))
          }
      | OpDelete \<Rightarrow>
          do {
            prevKvs \<leftarrow> rk_delete_kvs E (op_Key opn) (op_RangeEnd opn) (rk_db s);
            (s', err) \<leftarrow> rk_deleteUnlocked E (op_Key opn) (op_RangeEnd opn) s;
            Some (s', case err of
                Some e \<Rightarrow> Inl e
              | None \<Rightarrow> Inr (zero_op_response\<lparr>or_Type := OpDelete,
                               or_DeleteResp := Some \<lparr>dr_Deleted = int (length prevKvs), dr_PrevKvs = prevKvs,
                                                       dr_Revision = rk_CurrentRevision s'\<rparr>\<rparr>))
          }
      | _ \<Rightarrow> Some (s, Inr zero_op_response))"

fun rk_txn_ops :: "'d rocks_env \<Rightarrow> op list \<Rightarrow> 'd RocksDB \<Rightarrow> ('d RocksDB \<times> (rk_error + op_response list)) option" where
  "rk_txn_ops E [] s = Some (s, Inr [])"
| "rk_txn_ops E (opn # ops) s =
     do {
       (s1, r) \<leftarrow> rk_txn_op E opn s;
       (case r of
          Inl e \<Rightarrow> Some (s1, Inl e)
        | Inr resp \<Rightarrow>
            map_option (\<lambda>(s2, rs). (s2, case rs of Inl e \<Rightarrow> Inl e | Inr resps \<Rightarrow> Inr (resp # resps))) (rk_txn_ops E ops s1))
     }"

definition rk_txnUnlocked ::
    "'d rocks_env \<Rightarrow> compare list \<Rightarrow> op list \<Rightarrow> op list \<Rightarrow> 'd RocksDB \<Rightarrow> ('d RocksDB \<times> (rk_error + txn_response)) option" where
  "rk_txnUnlocked E cmps thenOps elseOps s =
     do {
       succeeded \<leftarrow> eval_compares E cmps (rk_db s);
       (s', r) \<leftarrow> rk_txn_ops E (if succeeded then thenOps else elseOps) s;
       Some (s', case r of
           Inl e \<Rightarrow> Inl e
         | Inr resps \<Rightarrow> Inr \<lparr>tr_Succeeded = succeeded, tr_Responses = resps, tr_Revision = rk_CurrentRevision s'\<rparr>)
     }"

section \<open>Applying committed operations\<close>

definition save_txn_result :: "RaftOperation \<Rightarrow> rk_error + txn_response \<Rightarrow> 'd RocksDB \<Rightarrow> 'd RocksDB" where
  "save_txn_result opn r s =
     (case r of
        Inl _ \<Rightarrow> s
      | Inr txnResp \<Rightarrow>
          if ro_SeqNum opn \<noteq> [] then s\<lparr>rk_pendingTxnResults := gm_set (ro_SeqNum opn) txnResp (rk_pendingTxnResults s)\<rparr> else s)"

definition rk_notify_waiter :: "RaftOperation \<Rightarrow> 'd RocksDB \<Rightarrow> 'd RocksDB" where
  "rk_notify_waiter opn s =
     (if ro_SeqNum opn \<noteq> [] \<and> ro_SeqNum opn \<in> set (rk_pendingOps s)
      then s\<lparr>rk_closedOps := ro_SeqNum opn # rk_closedOps s, rk_pendingOps := removeAll (ro_SeqNum opn) (rk_pendingOps s)\<rparr>
      else s)"

definition rk_applyOperation :: "'d rocks_env \<Rightarrow> RaftOperation \<Rightarrow> 'd RocksDB \<Rightarrow> 'd RocksDB option" where
  "rk_applyOperation E opn s =
     map_option (rk_notify_waiter opn)
       (if ro_Type opn = ''PUT'' then map_option fst (rk_putUnlocked E (ro_Key opn) (ro_Value opn) (ro_LeaseID opn) s)
        else if ro_Type opn = ''DELETE'' then map_option fst (rk_deleteUnlocked E (ro_Key opn) (ro_RangeEnd opn) s)
        else if ro_Type opn = ''LEASE_GRANT'' then Some (fst (leaseGrantUnlocked E (ro_LeaseID opn) (ro_TTL opn) s))
        else if ro_Type opn = ''LEASE_REVOKE'' then map_option fst (leaseRevokeUnlocked E (ro_LeaseID opn) s)
        else if ro_Type opn = ''TXN'' then
          map_option (\<lambda>(s', r). save_txn_result opn r s') (rk_txnUnlocked E (ro_Compares opn) (ro_ThenOps opn) (ro_ElseOps opn) s)
        else Some s)"

text \<open>
  One operation of a batch. Puts, deletions and leases are collected on the write batch; a transaction is
  applied to the database at once.
\<close>

definition prepare_op ::
    "'d rocks_env \<Rightarrow> RaftOperation \<Rightarrow> 'd RocksDB \<times> batch_op list \<times> watch_event list \<Rightarrow>
     ('d RocksDB \<times> batch_op list \<times> watch_event list) option" where
  "prepare_op E opn st =
     (case st of (s, batch, events) \<Rightarrow>
        let collect = (\<lambda>(s', batch', r). (s', batch', case r of Inl _ \<Rightarrow> events | Inr es \<Rightarrow> events @ es))
        in if ro_Type opn = ''PUT'' then
             map_option collect (preparePutBatch E (ro_Key opn) (ro_Value opn) (ro_LeaseID opn) batch s)
           else if ro_Type opn = ''DELETE'' then
             map_option collect (prepareDeleteBatch E (ro_Key opn) (ro_RangeEnd opn) batch s)
           else if ro_Type opn = ''LEASE_GRANT'' then
             Some (s, fst (prepareLeaseGrantBatch E (ro_LeaseID opn) (ro_TTL opn) batch), events)
           else if ro_Type opn = ''LEASE_REVOKE'' then
             Some (s, fst (prepareLeaseRevokeBatch E (ro_LeaseID opn) batch (rk_db s)), events)
           else if ro_Type opn = ''TXN'' then
             map_option (\<lambda>(s', r). (save_txn_result opn r s', batch, events))
               (rk_txnUnlocked E (ro_Compares opn) (ro_ThenOps opn) (ro_ElseOps opn) s)
           else Some st)"

fun prepare_ops ::
    "'d rocks_env \<Rightarrow> RaftOperation list \<Rightarrow> 'd RocksDB \<times> batch_op list \<times> watch_event list \<Rightarrow>
     ('d RocksDB \<times> batch_op list \<times> watch_event list) option" where
  "prepare_ops E [] st = Some st"
| "prepare_ops E (opn # ops) st = do { st' \<leftarrow> prepare_op E opn st; prepare_ops E ops st' }"

definition applyOperationsBatch :: "'d rocks_env \<Rightarrow> RaftOperation list \<Rightarrow> 'd RocksDB \<Rightarrow> 'd RocksDB option" where
  "applyOperationsBatch E ops s =
     (if length ops = 0 then Some s
      else
        do {
          (s1, batch, events) \<leftarrow> prepare_ops E ops (s, [], []);
          (case rk_write E batch (rk_db s1) of
             None \<Rightarrow> Some s1
           | Some db \<Rightarrow> Some (fold rk_notifyWatches events (fold rk_notify_waiter ops (s1\<lparr>rk_db := db\<rparr>))))
        })"

section \<open>Compaction\<close>

definition getCompactedRevisionUnlocked :: "'d rocks_env \<Rightarrow> 'd \<Rightarrow> int" where
  "getCompactedRevisionUnlocked E db =
     (case rk_get E compactedKey db of
        None \<Rightarrow> 0
      | Some data \<Rightarrow> if length data = 0 \<or> length data \<noteq> 8 then 0 else int64 (Uint64 data))"

definition setCompactedRevisionUnlocked :: "'d rocks_env \<Rightarrow> int \<Rightarrow> 'd \<Rightarrow> 'd option" where
  "setCompactedRevisionUnlocked E r db = rk_put E compactedKey (PutUint64 (uint64 r)) db"

definition drop_lease :: "'d rocks_env \<Rightarrow> string \<times> string \<Rightarrow> 'd \<times> nat \<Rightarrow> 'd \<times> nat" where
  "drop_lease E entry st =
     (case DeserializeLease (re_lease E) (snd entry) of
        Inl _ \<Rightarrow> st
      | Inr l \<Rightarrow>
          if ls_TTL l * nanos_per_second < re_now E - ls_GrantTime l then
            (case rk_delete E (fst entry) (fst st) of None \<Rightarrow> st | Some db \<Rightarrow> (db, snd st + 1))
          else st)"

definition cleanupExpiredLeasesUnlocked :: "'d rocks_env \<Rightarrow> 'd \<Rightarrow> 'd \<times> nat" where
  "cleanupExpiredLeasesUnlocked E db = fold (drop_lease E) (lease_entries E db) (db, 0)"

text \<open>The physical compaction of the database files changes no content.\<close>

definition rk_Compact :: "'d rocks_env \<Rightarrow> int \<Rightarrow> 'd RocksDB \<Rightarrow> 'd RocksDB \<times> rk_error option" where
  "rk_Compact E r s =
     (let currentRev = rk_CurrentRevision s; compactedRev = getCompactedRevisionUnlocked E (rk_db s)
      in if currentRev < r then (s, Some (RkCompactFuture r currentRev))
         else if r \<le> 0 then (s, Some (RkCompactInvalid r))
         else if r \<le> compactedRev then (s, Some (RkCompacted compactedRev r))
         else case setCompactedRevisionUnlocked E r (rk_db s) of
                None \<Rightarrow> (s, Some RkDatabase)
              | Some db \<Rightarrow> (s\<lparr>rk_db := fst (cleanupExpiredLeasesUnlocked E db)\<rparr>, None))"

end
