(* ===== verification/Rocks_Node.thy ===== *)
theory Rocks_Node
  imports Rocks_Store
begin

text \<open>
  The Raft side of the RocksDB engine, \<open>internal/rocksdb/kvstore.go\<close>: the client calls, which number an operation,
  propose it and wait for its commit, the commit loop, snapshots, recovery and node status. A client
  call is two steps, as for the in-memory engine.
\<close>

section \<open>Proposals\<close>

datatype rk_call_error = RkMarshal | RkProposeTimeout | RkWaitTimeout | RkContext | RkTxnResultNotFound | RkStore rk_error

definition rk_propose :: "propose_result \<Rightarrow> string \<Rightarrow> 'd RocksDB \<Rightarrow> rk_call_error + 'd RocksDB" where
  "rk_propose res data s =
     (case res of
        ProposeSent \<Rightarrow> Inr (s\<lparr>rk_proposeC := rk_proposeC s @ [data]\<rparr>)
      | ProposeTimeout \<Rightarrow> Inl RkProposeTimeout
      | ProposeCtxDone \<Rightarrow> Inl RkContext)"

definition rk_forget :: "string \<Rightarrow> 'd RocksDB \<Rightarrow> 'd RocksDB" where
  "rk_forget sq s = s\<lparr>rk_pendingOps := removeAll sq (rk_pendingOps s)\<rparr>"

definition rk_submit ::
    "rocks_codec \<Rightarrow> propose_result \<Rightarrow> (string \<Rightarrow> RaftOperation) \<Rightarrow> 'd RocksDB \<Rightarrow> 'd RocksDB \<times> (rk_call_error + string)" where
  "rk_submit c res mkOp s =
     (let sq = seq_name (rk_seqNum s + 1);
          s1 = s\<lparr>rk_seqNum := rk_seqNum s + 1, rk_pendingOps := List.insert sq (rk_pendingOps s)\<rparr>
      in case marshalRaftOperation c (mkOp sq) of
           None \<Rightarrow> (rk_forget sq s1, Inl RkMarshal)
         | Some data \<Rightarrow>
             (case rk_propose res data s1 of
                Inl err \<Rightarrow> (rk_forget sq s1, Inl err)
              | Inr s2 \<Rightarrow> (s2, Inr sq)))"

text \<open>The wait can take its first branch only once the channel is closed; \<^const>\<open>None\<close> is a call that still waits.\<close>

definition rk_await :: "wait_result \<Rightarrow> string \<Rightarrow> 'd RocksDB \<Rightarrow> ('d RocksDB \<times> rk_call_error option) option" where
  "rk_await res sq s =
     (case res of
        WaitClosed \<Rightarrow> if sq \<in> set (rk_closedOps s) then Some (s, None) else None
      | WaitTimeout \<Rightarrow> Some (rk_forget sq s, Some RkWaitTimeout)
      | WaitCtxDone \<Rightarrow> Some (rk_forget sq s, Some RkContext))"

section \<open>Client calls\<close>

text \<open>The outer option of a first half is a panic while it reads the previous entries.\<close>

definition rk_PutWithLease_start ::
    "'d rocks_env \<Rightarrow> rocks_codec \<Rightarrow> propose_result \<Rightarrow> string \<Rightarrow> string \<Rightarrow> int \<Rightarrow> 'd RocksDB \<Rightarrow>
     ('d RocksDB \<times> (rk_call_error + string \<times> key_value option)) option" where
  "rk_PutWithLease_start E c res key val leaseID s =
     do {
       prevKv \<leftarrow> prev_kv E key (rk_db s);
       (case rk_submit c res (put_operation key val leaseID) s of
          (s', Inl e) \<Rightarrow> Some (s', Inl e)
        | (s', Inr sq) \<Rightarrow> Some (s', Inr (sq, prevKv)))
     }"

definition rk_PutWithLease_finish ::
    "wait_result \<Rightarrow> string \<times> key_value option \<Rightarrow> 'd RocksDB \<Rightarrow>
     ('d RocksDB \<times> (rk_call_error + int \<times> key_value option)) option" where
  "rk_PutWithLease_finish res call s =
     (case rk_await res (fst call) s of
        None \<Rightarrow> None
      | Some (s', Some e) \<Rightarrow> Some (s', Inl e)
      | Some (s', None) \<Rightarrow> Some (s', Inr (rk_CurrentRevision s', snd call)))"

definition rk_Propose ::
    "'d rocks_env \<Rightarrow> rocks_codec \<Rightarrow> propose_result \<Rightarrow> string \<Rightarrow> string \<Rightarrow> 'd RocksDB \<Rightarrow>
     ('d RocksDB \<times> (rk_call_error + string \<times> key_value option)) option" where
  "rk_Propose E c res k v s = rk_PutWithLease_start E c res k v 0 s"

definition rk_DeleteRange_start ::
    "'d rocks_env \<Rightarrow> rocks_codec \<Rightarrow> propose_result \<Rightarrow> string \<Rightarrow> string \<Rightarrow> 'd RocksDB \<Rightarrow>
     ('d RocksDB \<times> (rk_call_error + (int \<times> key_value list \<times> int) + string \<times> int \<times> key_value list)) option" where
  "rk_DeleteRange_start E c res key rangeEnd s =
     do {
       prevKvs \<leftarrow> rk_delete_kvs E key rangeEnd (rk_db s);
       let deleted = int (length prevKvs);
       if deleted = 0 then Some (s, Inr (Inl (0, [], rk_CurrentRevision s)))
       else (case rk_submit c res (delete_operation key rangeEnd) s of
               (s', Inl e) \<Rightarrow> Some (s', Inl e)
             | (s', Inr sq) \<Rightarrow> Some (s', Inr (Inr (sq, deleted, prevKvs))))
     }"

definition rk_DeleteRange_finish ::
    "wait_result \<Rightarrow> string \<times> int \<times> key_value list \<Rightarrow> 'd RocksDB \<Rightarrow>
     ('d RocksDB \<times> (rk_call_error + int \<times> key_value list \<times> int)) option" where
  "rk_DeleteRange_finish res call s =
     (case call of (sq, deleted, prevKvs) \<Rightarrow>
        (case rk_await res sq s of
           None \<Rightarrow> None
         | Some (s', Some e) \<Rightarrow> Some (s', Inl e)
         | Some (s', None) \<Rightarrow> Some (s', Inr (deleted, prevKvs, rk_CurrentRevision s'))))"

definition rk_LeaseGrant_start ::
    "rocks_codec \<Rightarrow> propose_result \<Rightarrow> int \<Rightarrow> int \<Rightarrow> 'd RocksDB \<Rightarrow> 'd RocksDB \<times> (rk_call_error + string)" where
  "rk_LeaseGrant_start c res i ttl s = rk_submit c res (grant_operation i ttl) s"

definition rk_LeaseGrant_finish ::
    "'d rocks_env \<Rightarrow> wait_result \<Rightarrow> string \<Rightarrow> int \<Rightarrow> 'd RocksDB \<Rightarrow> ('d RocksDB \<times> (rk_call_error + lease option)) option" where
  "rk_LeaseGrant_finish E res sq i s =
     (case rk_await res sq s of
        None \<Rightarrow> None
      | Some (s', Some e) \<Rightarrow> Some (s', Inl e)
      | Some (s', None) \<Rightarrow> Some (s', case getLease E i (rk_db s') of Inl e \<Rightarrow> Inl (RkStore e) | Inr l \<Rightarrow> Inr l))"

definition rk_LeaseRevoke_start ::
    "rocks_codec \<Rightarrow> propose_result \<Rightarrow> int \<Rightarrow> 'd RocksDB \<Rightarrow> 'd RocksDB \<times> (rk_call_error + string)" where
  "rk_LeaseRevoke_start c res i s = rk_submit c res (revoke_operation i) s"

definition rk_LeaseRevoke_finish :: "wait_result \<Rightarrow> string \<Rightarrow> 'd RocksDB \<Rightarrow> ('d RocksDB \<times> (rk_call_error + unit)) option" where
  "rk_LeaseRevoke_finish res sq s =
     (case rk_await res sq s of
        None \<Rightarrow> None
      | Some (s', Some e) \<Rightarrow> Some (s', Inl e)
      | Some (s', None) \<Rightarrow> Some (s', Inr ()))"

definition rk_Txn_start ::
    "rocks_codec \<Rightarrow> propose_result \<Rightarrow> compare list \<Rightarrow> op list \<Rightarrow> op list \<Rightarrow> 'd RocksDB \<Rightarrow> 'd RocksDB \<times> (rk_call_error + string)" where
  "rk_Txn_start c res cmps thenOps elseOps s =
     (case rk_submit c res (txn_operation cmps thenOps elseOps) s of
        (s', Inl e) \<Rightarrow> (s'\<lparr>rk_pendingTxnResults := gm_del (seq_name (rk_seqNum s')) (rk_pendingTxnResults s')\<rparr>, Inl e)
      | (s', Inr sq) \<Rightarrow> (s', Inr sq))"

text \<open>The cleanup of a transaction that gives up removes its result as well.\<close>

definition rk_Txn_finish :: "wait_result \<Rightarrow> string \<Rightarrow> 'd RocksDB \<Rightarrow> ('d RocksDB \<times> (rk_call_error + txn_response)) option" where
  "rk_Txn_finish res sq s =
     (case rk_await res sq s of
        None \<Rightarrow> None
      | Some (s', err) \<Rightarrow>
          let s'' = s'\<lparr>rk_pendingTxnResults := gm_del sq (rk_pendingTxnResults s')\<rparr>
          in Some (s'', case err of
                 Some e \<Rightarrow> Inl e
               | None \<Rightarrow> (case gm_get (rk_pendingTxnResults s') sq of None \<Rightarrow> Inl RkTxnResultNotFound | Some r \<Rightarrow> Inr r)))"

section \<open>Snapshots\<close>

definition rk_GetSnapshot :: "'d rocks_env \<Rightarrow> 'd RocksDB \<Rightarrow> string option" where
  "rk_GetSnapshot E s = gob_enc_map (re_gob E) (fold (\<lambda>(k, v). gm_set k v) (bt_Ascend (re_D E) (rk_db s)) [])"

definition rk_recoverFromSnapshot :: "'d rocks_env \<Rightarrow> string \<Rightarrow> 'd RocksDB \<Rightarrow> 'd RocksDB option" where
  "rk_recoverFromSnapshot E snapshot s =
     do {
       snapshotData \<leftarrow> gob_dec_map (re_gob E) snapshot;
       db \<leftarrow> rk_write E (map (\<lambda>(k, v). WDelete k) (bt_Ascend (re_D E) (rk_db s)) @ map (\<lambda>(k, v). WPut k v) snapshotData) (rk_db s);
       Some (s\<lparr>rk_db := db\<rparr>)
     }"

definition rk_loadSnapshot :: "load_result \<Rightarrow> unit + string option" where
  "rk_loadSnapshot file = (case file of NoSnapshot \<Rightarrow> Inr None | LoadFailed \<Rightarrow> Inl () | Loaded data \<Rightarrow> Inr (Some data))"

definition rk_reload :: "'d rocks_env \<Rightarrow> load_result \<Rightarrow> 'd RocksDB \<Rightarrow> 'd RocksDB option" where
  "rk_reload E file s =
     (case rk_loadSnapshot file of
        Inl _ \<Rightarrow> None
      | Inr None \<Rightarrow> Some s
      | Inr (Some data) \<Rightarrow> rk_recoverFromSnapshot E data s)"

definition NewRocksDB :: "'d rocks_env \<Rightarrow> load_result \<Rightarrow> 'd \<Rightarrow> 'd RocksDB option" where
  "NewRocksDB E file db =
     map_option (\<lambda>s. s\<lparr>cachedRevision := loadCurrentRevision E (rk_db s)\<rparr>)
       (rk_reload E file
          \<lparr>rk_db = db, rk_proposeC = [], rk_pendingOps = [], rk_closedOps = [], rk_pendingTxnResults = [], rk_seqNum = 0,
           rk_watches = [], rk_goroutines = [], cachedRevision = 0\<rparr>)"

section \<open>The commit loop\<close>

definition rk_applyLegacyOp :: "'d rocks_env \<Rightarrow> string \<Rightarrow> 'd RocksDB \<Rightarrow> 'd RocksDB option" where
  "rk_applyLegacyOp E data s =
     do { (k, v) \<leftarrow> gob_legacy (re_gob E) data; (s', err) \<leftarrow> rk_putUnlocked E k v 0 s; Some s' }"

fun rk_collect ::
    "'d rocks_env \<Rightarrow> rocks_codec \<Rightarrow> string list \<Rightarrow> RaftOperation list \<Rightarrow> 'd RocksDB \<Rightarrow> (RaftOperation list \<times> 'd RocksDB) option" where
  "rk_collect E c [] batchOps s = Some (batchOps, s)"
| "rk_collect E c (data # datas) batchOps s =
     (case unmarshalRaftMessage c data of
        Some (Some ops) \<Rightarrow> rk_collect E c datas (batchOps @ ops) s
      | _ \<Rightarrow>
          (case unmarshalRaftOperation c data of
             Some opn \<Rightarrow> rk_collect E c datas (batchOps @ [opn]) s
           | None \<Rightarrow> do { s' \<leftarrow> rk_applyLegacyOp E data s; rk_collect E c datas batchOps s' }))"

definition rk_handle_commit ::
    "'d rocks_env \<Rightarrow> rocks_codec \<Rightarrow> load_result \<Rightarrow> string list option \<Rightarrow> 'd RocksDB \<Rightarrow> 'd RocksDB option" where
  "rk_handle_commit E c file commit s =
     (case commit of
        None \<Rightarrow> rk_reload E file s
      | Some datas \<Rightarrow>
          do {
            (batchOps, s') \<leftarrow> rk_collect E c datas [] s;
            if 0 < length batchOps then applyOperationsBatch E batchOps s' else Some s'
          })"

fun rk_readCommits ::
    "'d rocks_env \<Rightarrow> rocks_codec \<Rightarrow> load_result \<Rightarrow> string list option list \<Rightarrow> 'd RocksDB \<Rightarrow> 'd RocksDB option" where
  "rk_readCommits E c file [] s = Some s"
| "rk_readCommits E c file (commit # commits) s =
     do { s' \<leftarrow> rk_handle_commit E c file commit s; rk_readCommits E c file commits s' }"

section \<open>Node status\<close>

definition rk_GetRaftStatus :: "raft_node option \<Rightarrow> int \<Rightarrow> raft_status" where
  "rk_GetRaftStatus node self =
     (case node of
        None \<Rightarrow> \<lparr>rs_NodeID = self, rs_Term = 0, rs_LeaderID = 0, rs_State = ''standalone'', rs_Applied = 0, rs_Commit = 0\<rparr>
      | Some n \<Rightarrow> rn_Status n)"

definition rk_TransferLeadership :: "raft_node option \<Rightarrow> int \<Rightarrow> int \<Rightarrow> transfer_error + unit" where
  "rk_TransferLeadership node self targetID =
     (case node of
        None \<Rightarrow> Inl ErrNoRaftNode
      | Some n \<Rightarrow>
          if rs_LeaderID (rn_Status n) \<noteq> self then Inl (ErrNotLeader (rs_LeaderID (rn_Status n)))
          else if rn_TransferLeadership n targetID then Inr () else Inl ErrTransferFailed)"

end
