(* ===== verification/Rocks_Invariant.thy ===== *)
theory Rocks_Invariant
  imports Rocks_Node
begin

text \<open>
  The invariant of the RocksDB engine: every value under the entry prefix is the encoding of a well-formed
  entry of that key, with revisions up to the current one. Every operation keeps it, whichever calls of the
  database fail, and while it holds no operation panics.
\<close>

section \<open>Well-formed databases\<close>

definition entry_ok :: "int \<Rightarrow> string \<Rightarrow> string \<Rightarrow> bool" where
  "entry_ok r k v \<longleftrightarrow> (\<exists>kv. v = encodeKeyValue kv \<and> kv_fits kv \<and> kv_ok r k kv)"

definition db_ok :: "'d rocks \<Rightarrow> int \<Rightarrow> 'd \<Rightarrow> bool" where
  "db_ok D r db \<longleftrightarrow> (\<forall>k v. bt_Get D db (kvPrefix @ k) = Some v \<longrightarrow> entry_ok r k v)"

definition rk_ok :: "'d rocks \<Rightarrow> 'd RocksDB \<Rightarrow> bool" where
  "rk_ok D s \<longleftrightarrow> btree_ok D \<and> 0 \<le> cachedRevision s \<and> db_ok D (cachedRevision s) (rk_db s)"

definition good_op :: "int \<Rightarrow> batch_op \<Rightarrow> bool" where
  "good_op r opn \<longleftrightarrow> (case opn of WPut dk v \<Rightarrow> \<forall>k. dk = kvPrefix @ k \<longrightarrow> entry_ok r k v | WDelete _ \<Rightarrow> True)"

lemma entry_ok_mono: "entry_ok r k v \<Longrightarrow> r \<le> r' \<Longrightarrow> entry_ok r' k v"
  unfolding entry_ok_def using kv_ok_mono by blast

lemma good_op_mono: "good_op r opn \<Longrightarrow> r \<le> r' \<Longrightarrow> good_op r' opn"
  by (auto simp: good_op_def split: batch_op.splits intro: entry_ok_mono)

lemma db_ok_mono: "db_ok D r db \<Longrightarrow> r \<le> r' \<Longrightarrow> db_ok D r' db"
  unfolding db_ok_def using entry_ok_mono by blast

lemma db_ok_op: "btree_ok D \<Longrightarrow> db_ok D r db \<Longrightarrow> good_op r opn \<Longrightarrow> db_ok D r (apply_op D opn db)"
  by (cases opn) (auto simp: db_ok_def good_op_def btree_simps(2,3) split: if_splits)

lemma db_ok_batch: "btree_ok D \<Longrightarrow> db_ok D r db \<Longrightarrow> list_all (good_op r) wb \<Longrightarrow> db_ok D r (fold (apply_op D) wb db)"
  by (induction wb arbitrary: db) (auto simp: db_ok_op)

lemmas rocks_keys = revisionKey_def kvPrefix_def leasePrefix_def compactedKey_def leaseKey_def

lemma keys_differ [simp]:
  "revisionKey \<noteq> kvPrefix @ k" "kvPrefix @ k \<noteq> revisionKey" "leaseKey i \<noteq> kvPrefix @ k" "kvPrefix @ k \<noteq> leaseKey i"
  "compactedKey \<noteq> kvPrefix @ k" "kvPrefix @ k \<noteq> compactedKey" "revisionKey \<noteq> leaseKey i" "leaseKey i \<noteq> revisionKey"
  by (simp_all add: rocks_keys)

lemma good_op_simps [simp]:
  "good_op r (WDelete k)" "good_op r (WPut (leaseKey i) v)" "good_op r (WPut revisionKey v)" "good_op r (WPut compactedKey v)"
  "good_op r (WPut (kvPrefix @ k) v) = entry_ok r k v"
  by (auto simp: good_op_def)

section \<open>Reads cannot panic\<close>

lemma db_ok_decode:
  assumes "db_ok D r db" "bt_Get D db (kvPrefix @ k) = Some v"
  obtains kv where "decodeKeyValue v = Decoded kv" "kv_ok r k kv" "kv_fits kv" "v = encodeKeyValue kv"
  using assms unfolding db_ok_def entry_ok_def using decode_encode by metis

lemma prev_kv_ok:
  assumes "db_ok (re_D E) r db"
  obtains p where "prev_kv E k db = Some p" "\<And>kv. p = Some kv \<Longrightarrow> kv_ok r k kv \<and> kv_fits kv"
proof (cases "get_fails E (kvPrefix @ k) \<or> bt_Get (re_D E) db (kvPrefix @ k) = None")
  case True
  then have "prev_kv E k db = Some None" by (auto simp: prev_kv_def getKeyValue_def rk_get_def)
  then show ?thesis using that by blast
next
  case False
  then obtain v where v: "bt_Get (re_D E) db (kvPrefix @ k) = Some v" by auto
  from db_ok_decode[OF assms v] obtain kv where kv: "decodeKeyValue v = Decoded kv" "kv_ok r k kv" "kv_fits kv" "v = encodeKeyValue kv" .
  then have "prev_kv E k db = Some (Some kv)"
    using False v by (simp add: prev_kv_def getKeyValue_def rk_get_def)
  then show ?thesis using that kv by blast
qed

lemma range_loop_total:
  assumes "\<And>dk v. (dk, v) \<in> set es \<Longrightarrow> has_prefix kvPrefix dk \<Longrightarrow> decodeKeyValue v \<noteq> DecodePanic"
  shows "range_loop key rangeEnd limit es kvs \<noteq> None"
  using assms
proof (induction es arbitrary: kvs)
  case (Cons e es)
  obtain dk v where e: "e = (dk, v)" by (cases e)
  show ?case
    using Cons.IH Cons.prems[of dk v] Cons.prems by (auto simp: e Let_def split: decoded.splits)
qed simp

lemma has_prefixE: "has_prefix p s \<Longrightarrow> \<exists>t. s = p @ t"
  by (metis append_take_drop_id has_prefix_def)

lemma seek_mem: "btree_ok (re_D E) \<Longrightarrow> (dk, v) \<in> set (rk_seek E k db) \<longleftrightarrow> bt_Get (re_D E) db dk = Some v \<and> k \<le> dk"
  by (auto simp: rk_seek_def btree_simps(4,5))

lemma local_range_total:
  assumes "btree_ok (re_D E)" "db_ok (re_D E) r (rk_db s)"
  shows "\<exists>resp. rk_local_range E key rangeEnd limit s = Some resp"
proof -
  obtain p where "prev_kv E key (rk_db s) = Some p" using prev_kv_ok[OF assms(2)] by metis
  moreover have "decodeKeyValue v \<noteq> DecodePanic" if "(dk, v) \<in> set (rk_seek E (kvPrefix @ key) (rk_db s))" "has_prefix kvPrefix dk" for dk v
    using that has_prefixE[OF that(2)] db_ok_decode[OF assms(2)] seek_mem[OF assms(1)] by (metis decoded.distinct(5))
  then have "range_loop key rangeEnd limit (rk_seek E (kvPrefix @ key) (rk_db s)) [] \<noteq> None" by (rule range_loop_total)
  ultimately show ?thesis by (auto simp: rk_local_range_def Let_def)
qed

lemma eval_compares_total:
  assumes "db_ok (re_D E) r db"
  shows "\<exists>b. eval_compares E cmps db = Some b"
proof (induction cmps)
  case (Cons cmp cmps)
  obtain p where "prev_kv E (cmp_Key cmp) db = Some p" using prev_kv_ok[OF assms] by metis
  then obtain b where "rk_evaluateCompare E cmp db = Some b" by (simp add: rk_evaluateCompare_def)
  then show ?case using Cons by (cases b) auto
qed auto

section \<open>Writes\<close>

lemma incrementRevision_ok:
  assumes "rk_ok (re_D E) s" "incrementRevision E s = (s1, r)"
  shows "rk_ok (re_D E) s1" "cachedRevision s \<le> cachedRevision s1" "cachedRevision s1 \<le> cachedRevision s + 1"
    "\<And>n. r = Inr n \<Longrightarrow> n = cachedRevision s + 1 \<and> cachedRevision s1 = n"
    "bt_Get (re_D E) (rk_db s1) (kvPrefix @ k) = bt_Get (re_D E) (rk_db s) (kvPrefix @ k)"
proof -
  have b: "btree_ok (re_D E)" using assms(1) by (simp add: rk_ok_def)
  let ?db = "bt_ReplaceOrInsert (re_D E) revisionKey (PutUint64LE (uint64 (cachedRevision s + 1))) (rk_db s)"
  have c: "s1 = s \<and> r = Inl RkDatabase \<or>
      s1 = s\<lparr>rk_db := ?db, cachedRevision := cachedRevision s + 1\<rparr> \<and> r = Inr (cachedRevision s + 1)"
    using assms(2) by (auto simp: incrementRevision_def rk_put_def Let_def split: if_splits)
  have "db_ok (re_D E) (cachedRevision s + 1) (rk_db s)"
    using assms(1) db_ok_mono[of "re_D E" "cachedRevision s" "rk_db s" "cachedRevision s + 1"] by (simp add: rk_ok_def)
  from db_ok_op[OF b this, of "WPut revisionKey (PutUint64LE (uint64 (cachedRevision s + 1)))"]
  have "db_ok (re_D E) (cachedRevision s + 1) ?db" by simp
  then show "rk_ok (re_D E) s1" using assms(1) c by (elim disjE) (simp_all add: rk_ok_def)
  show "cachedRevision s \<le> cachedRevision s1" "cachedRevision s1 \<le> cachedRevision s + 1"
    "\<And>n. r = Inr n \<Longrightarrow> n = cachedRevision s + 1 \<and> cachedRevision s1 = n"
    using c by (elim disjE; simp)+
  have "bt_Get (re_D E) ?db (kvPrefix @ k) = bt_Get (re_D E) (rk_db s) (kvPrefix @ k)" by (simp add: btree_simps(2)[OF b])
  then show "bt_Get (re_D E) (rk_db s1) (kvPrefix @ k) = bt_Get (re_D E) (rk_db s) (kvPrefix @ k)" using c by (elim disjE) simp_all
qed

definition max_rev :: int where "max_rev = 2 ^ 63"

definition small_put :: "string \<Rightarrow> string \<Rightarrow> int \<Rightarrow> bool" where
  "small_put key val leaseID \<longleftrightarrow> length key < 2 ^ 32 \<and> length val < 2 ^ 32 \<and> int64_range leaseID"

lemma next_kv_fits:
  assumes "\<And>kv. p = Some kv \<Longrightarrow> kv_ok r k kv \<and> kv_fits kv" "small_put k v l" "0 \<le> r" "r + 1 < max_rev"
  shows "kv_ok (r + 1) k (next_kv k v l (r + 1) p)" "kv_fits (next_kv k v l (r + 1) p)"
proof -
  show ok: "kv_ok (r + 1) k (next_kv k v l (r + 1) p)"
    using assms(1,3) by (cases p) (auto simp: kv_ok_def next_kv_def)
  then have "kv_Version (next_kv k v l (r + 1) p) \<le> r + 1" "1 \<le> kv_CreateRevision (next_kv k v l (r + 1) p)"
    "kv_CreateRevision (next_kv k v l (r + 1) p) \<le> r + 1" "1 \<le> kv_Version (next_kv k v l (r + 1) p)"
    by (auto simp: kv_ok_def next_kv_def)
  then show "kv_fits (next_kv k v l (r + 1) p)"
    using assms(2-4) by (auto simp: kv_fits_def small_put_def max_rev_def int64_range_def next_kv_def)
qed

lemma put_ops_good:
  assumes "kv_ok r k kv" "kv_fits kv" "put_ops E k kv l db = (ops, err)"
  shows "list_all (good_op r) ops"
proof -
  have "entry_ok r k (encodeKeyValue kv)" using assms(1,2) by (auto simp: entry_ok_def)
  then show ?thesis using assms(3) by (auto simp: put_ops_def Let_def split: if_splits sum.splits option.splits)
qed

lemma notifyWatches_rk [simp]:
  "rk_db (rk_notifyWatches e s) = rk_db s" "cachedRevision (rk_notifyWatches e s) = cachedRevision s"
  "rk_pendingOps (rk_notifyWatches e s) = rk_pendingOps s" "rk_closedOps (rk_notifyWatches e s) = rk_closedOps s"
  "rk_pendingTxnResults (rk_notifyWatches e s) = rk_pendingTxnResults s"
  by (simp_all add: rk_notifyWatches_def)

lemma fold_notifyWatches_rk [simp]:
  "rk_db (fold rk_notifyWatches es s) = rk_db s" "cachedRevision (fold rk_notifyWatches es s) = cachedRevision s"
  "rk_pendingOps (fold rk_notifyWatches es s) = rk_pendingOps s" "rk_closedOps (fold rk_notifyWatches es s) = rk_closedOps s"
  "rk_pendingTxnResults (fold rk_notifyWatches es s) = rk_pendingTxnResults s"
  by (induction es arbitrary: s) simp_all

lemma notify_waiter_rk [simp]:
  "rk_db (rk_notify_waiter opn s) = rk_db s" "cachedRevision (rk_notify_waiter opn s) = cachedRevision s"
  "rk_watches (rk_notify_waiter opn s) = rk_watches s" "rk_pendingTxnResults (rk_notify_waiter opn s) = rk_pendingTxnResults s"
  by (simp_all add: rk_notify_waiter_def)

lemma fold_notify_waiter_rk [simp]:
  "rk_db (fold rk_notify_waiter ops s) = rk_db s" "cachedRevision (fold rk_notify_waiter ops s) = cachedRevision s"
  "rk_watches (fold rk_notify_waiter ops s) = rk_watches s" "rk_pendingTxnResults (fold rk_notify_waiter ops s) = rk_pendingTxnResults s"
  by (induction ops arbitrary: s) simp_all

lemma save_txn_result_rk [simp]:
  "rk_db (save_txn_result opn r s) = rk_db s" "cachedRevision (save_txn_result opn r s) = cachedRevision s"
  by (simp_all add: save_txn_result_def split: sum.splits)

lemma rk_ok_same: "rk_db s' = rk_db s \<Longrightarrow> cachedRevision s' = cachedRevision s \<Longrightarrow> rk_ok D s' = rk_ok D s"
  by (simp add: rk_ok_def)

lemma rk_ok_write:
  assumes "rk_ok (re_D E) s" "list_all (good_op (cachedRevision s)) wb" "rk_write E wb (rk_db s) = Some db"
  shows "rk_ok (re_D E) (s\<lparr>rk_db := db\<rparr>)"
  using assms db_ok_batch by (auto simp: rk_ok_def rk_write_def split: if_splits)

text \<open>A put: it returns, keeps the invariant and moves the revision by at most one.\<close>

lemma putUnlocked_ok:
  assumes "rk_ok (re_D E) s" "small_put k v l" "cachedRevision s + 1 < max_rev"
  shows "\<exists>s' err. rk_putUnlocked E k v l s = Some (s', err) \<and> rk_ok (re_D E) s' \<and>
    cachedRevision s \<le> cachedRevision s' \<and> cachedRevision s' \<le> cachedRevision s + 1"
proof -
  have db: "db_ok (re_D E) (cachedRevision s) (rk_db s)" "0 \<le> cachedRevision s" using assms(1) by (auto simp: rk_ok_def)
  obtain p where p: "prev_kv E k (rk_db s) = Some p" "\<And>kv. p = Some kv \<Longrightarrow> kv_ok (cachedRevision s) k kv \<and> kv_fits kv"
    using prev_kv_ok[OF db(1)] by metis
  obtain s1 r where i: "incrementRevision E s = (s1, r)" by fastforce
  note ok = incrementRevision_ok[OF assms(1) i]
  show ?thesis
  proof (cases r)
    case (Inl e)
    then show ?thesis using p(1) i ok by (auto simp: rk_putUnlocked_def)
  next
    case (Inr n)
    then have n: "n = cachedRevision s + 1" "cachedRevision s1 = n" using ok(4) by auto
    obtain ops err where o: "put_ops E k (next_kv k v l n p) l (rk_db s1) = (ops, err)" by fastforce
    have g: "list_all (good_op (cachedRevision s1)) ops"
      using put_ops_good[OF _ _ o] next_kv_fits[OF p(2) assms(2) db(2) assms(3)] n by auto
    show ?thesis
    proof (cases "err = None \<and> rk_write E ops (rk_db s1) \<noteq> None")
      case True
      then obtain db' where "rk_write E ops (rk_db s1) = Some db'" by auto
      then show ?thesis
        using True p(1) i o ok Inr rk_ok_write[OF ok(1) g] by (auto simp: rk_putUnlocked_def rk_ok_def)
    next
      case False
      then show ?thesis using p(1) i o ok Inr by (cases err) (auto simp: rk_putUnlocked_def)
    qed
  qed
qed

lemma preparePutBatch_ok:
  assumes "rk_ok (re_D E) s" "small_put k v l" "cachedRevision s + 1 < max_rev" "list_all (good_op (cachedRevision s)) batch"
  shows "\<exists>s' batch' res. preparePutBatch E k v l batch s = Some (s', batch', res) \<and> rk_ok (re_D E) s' \<and>
    list_all (good_op (cachedRevision s')) batch' \<and> cachedRevision s \<le> cachedRevision s' \<and> cachedRevision s' \<le> cachedRevision s + 1"
proof -
  have db: "db_ok (re_D E) (cachedRevision s) (rk_db s)" "0 \<le> cachedRevision s" using assms(1) by (auto simp: rk_ok_def)
  obtain p where p: "prev_kv E k (rk_db s) = Some p" "\<And>kv. p = Some kv \<Longrightarrow> kv_ok (cachedRevision s) k kv \<and> kv_fits kv"
    using prev_kv_ok[OF db(1)] by metis
  obtain s1 r where i: "incrementRevision E s = (s1, r)" by fastforce
  note ok = incrementRevision_ok[OF assms(1) i]
  have b: "list_all (good_op (cachedRevision s1)) batch" using assms(4) ok(2) by (auto simp: list_all_iff intro: good_op_mono)
  show ?thesis
  proof (cases r)
    case (Inl e)
    then show ?thesis using p(1) i ok b by (auto simp: preparePutBatch_def)
  next
    case (Inr n)
    then have n: "n = cachedRevision s + 1" "cachedRevision s1 = n" using ok(4) by auto
    obtain ops err where o: "put_ops E k (next_kv k v l n p) l (rk_db s1) = (ops, err)" by fastforce
    have "list_all (good_op (cachedRevision s1)) ops"
      using put_ops_good[OF _ _ o] next_kv_fits[OF p(2) assms(2) db(2) assms(3)] n by auto
    then show ?thesis using p(1) i o ok Inr b by (auto simp: preparePutBatch_def)
  qed
qed

lemma batch_delete_loop_ok:
  assumes "db_ok (re_D E) r db"
  shows "\<exists>ops events. batch_delete_loop E n db ks = Some (ops, events) \<and> list_all (good_op m) ops"
proof (induction ks)
  case (Cons k ks)
  obtain p where "prev_kv E k db = Some p" using prev_kv_ok[OF assms] by metis
  then show ?case using Cons by auto
qed simp

lemma prepareDeleteBatch_ok:
  assumes "rk_ok (re_D E) s" "list_all (good_op (cachedRevision s)) batch"
  shows "\<exists>s' batch' res. prepareDeleteBatch E k rangeEnd batch s = Some (s', batch', res) \<and> rk_ok (re_D E) s' \<and>
    list_all (good_op (cachedRevision s')) batch' \<and> cachedRevision s \<le> cachedRevision s' \<and> cachedRevision s' \<le> cachedRevision s + 1"
proof -
  obtain s1 r where i: "incrementRevision E s = (s1, r)" by fastforce
  note ok = incrementRevision_ok[OF assms(1) i]
  have b: "list_all (good_op (cachedRevision s1)) batch" using assms(2) ok(2) by (auto simp: list_all_iff intro: good_op_mono)
  have "db_ok (re_D E) (cachedRevision s1) (rk_db s1)" using ok(1) by (simp add: rk_ok_def)
  then obtain ops events where "batch_delete_loop E n (rk_db s1) (if rangeEnd = [] then [k] else batch_delete_keys E k rangeEnd (rk_db s1)) =
      Some (ops n, events n)" "list_all (good_op (cachedRevision s1)) (ops n)" for n
    using batch_delete_loop_ok by metis
  then show ?thesis using i ok b by (cases r) (auto simp: prepareDeleteBatch_def)
qed

lemma deleteUnlocked_ok:
  assumes "rk_ok (re_D E) s"
  shows "\<exists>s' err. rk_deleteUnlocked E k rangeEnd s = Some (s', err) \<and> rk_ok (re_D E) s' \<and>
    cachedRevision s \<le> cachedRevision s' \<and> cachedRevision s' \<le> cachedRevision s + 1"
proof -
  obtain s1 r where i: "incrementRevision E s = (s1, r)" by fastforce
  note ok = incrementRevision_ok[OF assms i]
  have db: "db_ok (re_D E) (cachedRevision s1) (rk_db s1)" "btree_ok (re_D E)" using ok(1) by (auto simp: rk_ok_def)
  obtain p where p: "prev_kv E k (rk_db s1) = Some p" using prev_kv_ok[OF db(1)] by metis
  have d: "rk_ok (re_D E) (s1\<lparr>rk_db := db'\<rparr>)" if "rk_delete E dk (rk_db s1) = Some db'" for dk db'
    using that ok(1) db_ok_op[OF db(2,1), of "WDelete dk"] by (auto simp: rk_delete_def rk_ok_def split: if_splits)
  have w: "rk_ok (re_D E) (s1\<lparr>rk_db := db'\<rparr>)" if "rk_write E (map (\<lambda>(dk, kv). WDelete dk) es) (rk_db s1) = Some db'"
    for es :: "(string \<times> key_value option) list" and db'
    by (rule rk_ok_write[OF ok(1) _ that]) (auto simp: list_all_iff)
  show ?thesis
    using i ok p d w
    by (cases r) (auto simp: rk_deleteUnlocked_def rk_ok_def Let_def split: option.splits)
qed

section \<open>Transactions\<close>

definition small_op :: "op \<Rightarrow> bool" where
  "small_op opn \<longleftrightarrow> small_put (op_Key opn) (op_Value opn) (op_LeaseID opn)"

lemma rk_delete_kvs_total:
  assumes "db_ok (re_D E) r db"
  shows "\<exists>kvs. rk_delete_kvs E k rangeEnd db = Some kvs"
proof -
  obtain p where "prev_kv E k db = Some p" using prev_kv_ok[OF assms] by metis
  then show ?thesis by (simp add: rk_delete_kvs_def)
qed

lemma txn_op_ok:
  assumes "rk_ok (re_D E) s" "small_op opn" "cachedRevision s + 1 < max_rev"
  shows "\<exists>s' res. rk_txn_op E opn s = Some (s', res) \<and> rk_ok (re_D E) s' \<and>
    cachedRevision s \<le> cachedRevision s' \<and> cachedRevision s' \<le> cachedRevision s + 1"
proof -
  have db: "db_ok (re_D E) (cachedRevision s) (rk_db s)" "btree_ok (re_D E)" using assms(1) by (auto simp: rk_ok_def)
  obtain p where p: "prev_kv E (op_Key opn) (rk_db s) = Some p" using prev_kv_ok[OF db(1)] by metis
  show ?thesis
    using local_range_total[OF db(2,1), of "op_Key opn" "op_RangeEnd opn" "op_Limit opn"] p assms(1)
      putUnlocked_ok[OF assms(1) assms(2)[unfolded small_op_def] assms(3)]
      rk_delete_kvs_total[OF db(1), of "op_Key opn" "op_RangeEnd opn"] deleteUnlocked_ok[OF assms(1), of "op_Key opn" "op_RangeEnd opn"]
    by (cases "op_Type opn") (auto simp: rk_txn_op_def)
qed

lemma txn_ops_ok:
  assumes "rk_ok (re_D E) s" "list_all small_op ops" "cachedRevision s + int (length ops) < max_rev"
  shows "\<exists>s' res. rk_txn_ops E ops s = Some (s', res) \<and> rk_ok (re_D E) s' \<and>
    cachedRevision s \<le> cachedRevision s' \<and> cachedRevision s' \<le> cachedRevision s + int (length ops)"
  using assms
proof (induction ops arbitrary: s)
  case (Cons opn ops)
  have "cachedRevision s + 1 < max_rev" using Cons.prems(3) by simp
  then obtain s1 res where s1: "rk_txn_op E opn s = Some (s1, res)" "rk_ok (re_D E) s1"
      "cachedRevision s \<le> cachedRevision s1" "cachedRevision s1 \<le> cachedRevision s + 1"
    using txn_op_ok[OF Cons.prems(1), of opn] Cons.prems(2) by auto
  then obtain s2 res2 where "rk_txn_ops E ops s1 = Some (s2, res2)" "rk_ok (re_D E) s2"
      "cachedRevision s1 \<le> cachedRevision s2" "cachedRevision s2 \<le> cachedRevision s1 + int (length ops)"
    using Cons.IH[OF s1(2)] Cons.prems by auto
  then show ?case using s1 by (cases res) auto
qed auto

lemma txnUnlocked_ok:
  assumes "rk_ok (re_D E) s" "list_all small_op (thenOps @ elseOps)" "cachedRevision s + int (length (thenOps @ elseOps)) < max_rev"
  shows "\<exists>s' res. rk_txnUnlocked E cmps thenOps elseOps s = Some (s', res) \<and> rk_ok (re_D E) s' \<and>
    cachedRevision s \<le> cachedRevision s' \<and> cachedRevision s' \<le> cachedRevision s + int (length (thenOps @ elseOps))"
proof -
  have "db_ok (re_D E) (cachedRevision s) (rk_db s)" using assms(1) by (simp add: rk_ok_def)
  then obtain b where b: "eval_compares E cmps (rk_db s) = Some b" using eval_compares_total by metis
  have "\<exists>s' res. rk_txn_ops E (if b then thenOps else elseOps) s = Some (s', res) \<and> rk_ok (re_D E) s' \<and>
    cachedRevision s \<le> cachedRevision s' \<and> cachedRevision s' \<le> cachedRevision s + int (length (if b then thenOps else elseOps))"
    using assms by (intro txn_ops_ok) auto
  then show ?thesis using b by (auto simp: rk_txnUnlocked_def)
qed

section \<open>Batches\<close>

definition small_raft_op :: "RaftOperation \<Rightarrow> bool" where
  "small_raft_op opn \<longleftrightarrow> small_put (ro_Key opn) (ro_Value opn) (ro_LeaseID opn) \<and> list_all small_op (ro_ThenOps opn @ ro_ElseOps opn)"

definition weight :: "RaftOperation \<Rightarrow> int" where
  "weight opn = 1 + int (length (ro_ThenOps opn @ ro_ElseOps opn))"

lemma weight_pos: "1 \<le> weight opn"
  by (simp add: weight_def)

lemma prepare_op_ok:
  assumes "rk_ok (re_D E) s" "small_raft_op opn" "cachedRevision s + weight opn < max_rev" "list_all (good_op (cachedRevision s)) batch"
  shows "\<exists>s' batch' events'. prepare_op E opn (s, batch, events) = Some (s', batch', events') \<and> rk_ok (re_D E) s' \<and>
    list_all (good_op (cachedRevision s')) batch' \<and> cachedRevision s \<le> cachedRevision s' \<and> cachedRevision s' \<le> cachedRevision s + weight opn"
proof -
  have l: "cachedRevision s + 1 < max_rev" "cachedRevision s + int (length (ro_ThenOps opn @ ro_ElseOps opn)) < max_rev"
    using assms(3) by (auto simp: weight_def)
  have sm: "small_put (ro_Key opn) (ro_Value opn) (ro_LeaseID opn)" "list_all small_op (ro_ThenOps opn @ ro_ElseOps opn)"
    using assms(2) by (simp_all add: small_raft_op_def)
  obtain s1 b1 r1 where p: "preparePutBatch E (ro_Key opn) (ro_Value opn) (ro_LeaseID opn) batch s = Some (s1, b1, r1)" "rk_ok (re_D E) s1"
      "list_all (good_op (cachedRevision s1)) b1" "cachedRevision s \<le> cachedRevision s1" "cachedRevision s1 \<le> cachedRevision s + 1"
    using preparePutBatch_ok[OF assms(1) sm(1) l(1) assms(4)] by blast
  obtain s2 b2 r2 where d: "prepareDeleteBatch E (ro_Key opn) (ro_RangeEnd opn) batch s = Some (s2, b2, r2)" "rk_ok (re_D E) s2"
      "list_all (good_op (cachedRevision s2)) b2" "cachedRevision s \<le> cachedRevision s2" "cachedRevision s2 \<le> cachedRevision s + 1"
    using prepareDeleteBatch_ok[OF assms(1,4)] by blast
  obtain s3 r3 where t: "rk_txnUnlocked E (ro_Compares opn) (ro_ThenOps opn) (ro_ElseOps opn) s = Some (s3, r3)" "rk_ok (re_D E) s3"
      "cachedRevision s \<le> cachedRevision s3" "cachedRevision s3 \<le> cachedRevision s + weight opn"
    using txnUnlocked_ok[OF assms(1) sm(2) l(2), of "ro_Compares opn"] by (auto simp: weight_def)
  have g: "list_all (good_op (cachedRevision s)) (fst (prepareLeaseGrantBatch E i n batch))"
      "list_all (good_op (cachedRevision s)) (fst (prepareLeaseRevokeBatch E i batch db))" for i n db
    using assms(4) by (auto simp: prepareLeaseGrantBatch_def prepareLeaseRevokeBatch_def list_all_iff split: sum.splits option.splits)
  have tb: "list_all (good_op (cachedRevision s3)) batch" using assms(4) t(3) by (auto simp: list_all_iff intro: good_op_mono)
  have rest: "cachedRevision s \<le> cachedRevision s + weight opn" "cachedRevision s + 1 \<le> cachedRevision s + weight opn"
    using weight_pos[of opn] by auto
  consider "ro_Type opn = ''PUT''" | "ro_Type opn = ''DELETE''" | "ro_Type opn = ''TXN''"
    | "ro_Type opn \<notin> {''PUT'', ''DELETE'', ''TXN''}" by auto
  then show ?thesis
  proof cases
    case 1
    then show ?thesis using p rest by (auto simp: prepare_op_def Let_def)
  next
    case 2
    then show ?thesis using d rest by (auto simp: prepare_op_def Let_def)
  next
    case 3
    then show ?thesis using t tb by (auto simp: prepare_op_def Let_def rk_ok_def)
  next
    case 4
    then show ?thesis using g rest assms(1,4) by (auto simp: prepare_op_def Let_def)
  qed
qed

lemma prepare_ops_ok:
  assumes "rk_ok (re_D E) s" "list_all small_raft_op ops" "cachedRevision s + sum_list (map weight ops) < max_rev"
    and "list_all (good_op (cachedRevision s)) batch"
  shows "\<exists>s' batch' events'. prepare_ops E ops (s, batch, events) = Some (s', batch', events') \<and> rk_ok (re_D E) s' \<and>
    list_all (good_op (cachedRevision s')) batch' \<and> cachedRevision s \<le> cachedRevision s' \<and>
    cachedRevision s' \<le> cachedRevision s + sum_list (map weight ops)"
  using assms
proof (induction ops arbitrary: s batch events)
  case (Cons opn ops)
  have nn: "0 \<le> sum_list (map weight ops)" using weight_pos by (auto intro!: sum_list_nonneg) (metis int_one_le_iff_zero_less less_imp_le)
  then have w: "cachedRevision s + weight opn < max_rev" using Cons.prems(3) by simp
  obtain s1 b1 e1 where s1: "prepare_op E opn (s, batch, events) = Some (s1, b1, e1)" "rk_ok (re_D E) s1"
      "list_all (good_op (cachedRevision s1)) b1" "cachedRevision s \<le> cachedRevision s1" "cachedRevision s1 \<le> cachedRevision s + weight opn"
    using prepare_op_ok[OF Cons.prems(1) _ w Cons.prems(4)] Cons.prems(2) by (auto, blast)
  then obtain s2 b2 e2 where "prepare_ops E ops (s1, b1, e1) = Some (s2, b2, e2)" "rk_ok (re_D E) s2"
      "list_all (good_op (cachedRevision s2)) b2" "cachedRevision s1 \<le> cachedRevision s2"
      "cachedRevision s2 \<le> cachedRevision s1 + sum_list (map weight ops)"
    using Cons.IH[OF s1(2) _ _ s1(3), of e1] Cons.prems by auto
  then show ?case using s1 by auto
qed auto

lemma applyOperationsBatch_ok:
  assumes "rk_ok (re_D E) s" "list_all small_raft_op ops" "cachedRevision s + sum_list (map weight ops) < max_rev"
  shows "\<exists>s'. applyOperationsBatch E ops s = Some s' \<and> rk_ok (re_D E) s' \<and> cachedRevision s \<le> cachedRevision s'"
proof (cases "ops = []")
  case False
  obtain s1 b e where p: "prepare_ops E ops (s, [], []) = Some (s1, b, e)" "rk_ok (re_D E) s1"
      "list_all (good_op (cachedRevision s1)) b" "cachedRevision s \<le> cachedRevision s1"
    using prepare_ops_ok[OF assms, of "[]" "[]"] by auto
  show ?thesis
  proof (cases "rk_write E b (rk_db s1)")
    case None
    then show ?thesis using False p by (auto simp: applyOperationsBatch_def)
  next
    case (Some db)
    then show ?thesis using False p rk_ok_write[OF p(2,3) Some] by (auto simp: applyOperationsBatch_def rk_ok_def)
  qed
qed (use assms in \<open>auto simp: applyOperationsBatch_def\<close>)

end
