(* ===== verification/Rocks_Refinement.thy ===== *)
theory Rocks_Refinement
  imports Rocks_Invariant Memory_Refinement
begin

text \<open>
  Both engines promise the same. On a database whose calls do not fail, range reads, puts and transactions of
  reads and puts on the RocksDB engine implement the specification over a plain map that the in-memory engine
  implements, and a batch agrees with the log order when its keys differ.
\<close>

section \<open>Abstract key space\<close>

definition quiet_env :: "'d rocks_env \<Rightarrow> bool" where
  "quiet_env E \<longleftrightarrow> (\<forall>k. \<not> get_fails E k) \<and> (\<forall>k. \<not> put_fails E k) \<and> (\<forall>wb. \<not> write_fails E wb)"

definition entry_of :: "string option \<Rightarrow> key_value option" where
  "entry_of data = (case data of None \<Rightarrow> None | Some v \<Rightarrow> (case decodeKeyValue v of Decoded kv \<Rightarrow> Some kv | _ \<Rightarrow> None))"

definition rk_view :: "'d rocks \<Rightarrow> 'd \<Rightarrow> string \<rightharpoonup> key_value" where
  "rk_view D db = (\<lambda>k. entry_of (bt_Get D db (kvPrefix @ k)))"

definition rk_abs :: "'d rocks \<Rightarrow> 'd RocksDB \<Rightarrow> kv_spec" where
  "rk_abs D s = (cachedRevision s, rk_view D (rk_db s))"

lemma quiet_io [simp]:
  assumes "quiet_env E"
  shows "rk_get E k db = Some (case bt_Get (re_D E) db k of None \<Rightarrow> [] | Some v \<Rightarrow> v)"
    "rk_put E k v db = Some (bt_ReplaceOrInsert (re_D E) k v db)" "rk_delete E k db = Some (bt_Delete (re_D E) k db)"
    "rk_write E wb db = Some (fold (apply_op (re_D E)) wb db)"
  using assms by (simp_all add: quiet_env_def rk_get_def rk_put_def rk_delete_def rk_write_def)

lemma entry_of_encode: "kv_fits kv \<Longrightarrow> entry_of (Some (encodeKeyValue kv)) = Some kv"
  by (simp add: entry_of_def decode_encode)

lemma rk_viewD:
  assumes "db_ok D r db"
  shows "rk_view D db k = Some kv \<longleftrightarrow> bt_Get D db (kvPrefix @ k) = Some (encodeKeyValue kv) \<and> kv_fits kv \<and> kv_ok r k kv"
proof (cases "bt_Get D db (kvPrefix @ k)")
  case None
  then show ?thesis by (simp add: rk_view_def entry_of_def)
next
  case (Some v)
  from db_ok_decode[OF assms Some] obtain kv' where "decodeKeyValue v = Decoded kv'" "kv_ok r k kv'" "kv_fits kv'" "v = encodeKeyValue kv'" .
  moreover have "kv' = kv" if "kv_fits kv" "encodeKeyValue kv' = encodeKeyValue kv" "kv_fits kv'"
    using that decode_encode by (metis decoded.inject)
  ultimately show ?thesis using Some by (auto simp: rk_view_def entry_of_def decode_encode)
qed

lemma rk_view_None: "db_ok D r db \<Longrightarrow> rk_view D db k = None \<longleftrightarrow> bt_Get D db (kvPrefix @ k) = None"
  by (cases "bt_Get D db (kvPrefix @ k)") (auto simp: rk_view_def entry_of_def elim: db_ok_decode)

lemma prev_kv_view:
  assumes "quiet_env E" "db_ok (re_D E) r db"
  shows "prev_kv E k db = Some (rk_view (re_D E) db k)"
proof (cases "bt_Get (re_D E) db (kvPrefix @ k)")
  case None
  then show ?thesis using assms(1) by (simp add: prev_kv_def getKeyValue_def rk_view_def entry_of_def)
next
  case (Some v)
  from db_ok_decode[OF assms(2) Some] obtain kv where "decodeKeyValue v = Decoded kv" "v = encodeKeyValue kv" .
  then show ?thesis using Some assms(1) by (simp add: prev_kv_def getKeyValue_def rk_view_def entry_of_def)
qed

section \<open>Range reads\<close>

lemma append_le_iff [simp]: "p @ a \<le> p @ b \<longleftrightarrow> a \<le> (b :: string)"
  by (induction p) simp_all

lemma has_prefix_iff: "has_prefix p s \<longleftrightarrow> (\<exists>t. s = p @ t)"
  using has_prefixE by auto

definition hit :: "string \<Rightarrow> string \<Rightarrow> string \<times> string \<Rightarrow> bool" where
  "hit key rangeEnd e \<longleftrightarrow> has_prefix kvPrefix (fst e) \<and> in_key_range (drop (length kvPrefix) (fst e)) key rangeEnd"

text \<open>The early exits of the scans lose nothing, since the iterator is ordered.\<close>

lemma no_later_hit:
  assumes "kvPrefix \<le> dk" "dk \<le> dk'"
    and "\<not> has_prefix kvPrefix dk \<or> rangeEnd \<noteq> zero_byte \<and> rangeEnd \<le> drop (length kvPrefix) dk"
  shows "\<not> hit key rangeEnd (dk', v)"
proof
  assume h: "hit key rangeEnd (dk', v)"
  then obtain t where t: "dk' = kvPrefix @ t" by (auto simp: hit_def has_prefix_iff)
  then obtain u where u: "dk = kvPrefix @ u" using between_prefixes assms(1,2) by metis
  then have "u \<le> t" using assms(2) t by simp
  moreover have "rangeEnd = zero_byte \<or> t < rangeEnd" using h t by (simp add: hit_def in_key_range_def)
  ultimately show False using assms(3) u by auto
qed

lemma scan_range_filter:
  assumes "sorted (map fst es)" "\<And>dk v. (dk, v) \<in> set es \<Longrightarrow> kvPrefix \<le> dk"
  shows "scan_range key rangeEnd es = filter (hit key rangeEnd) es"
  using assms
proof (induction es)
  case (Cons e es)
  obtain dk v where e: "e = (dk, v)" by (cases e)
  have le: "kvPrefix \<le> dk" "\<And>x. x \<in> set es \<Longrightarrow> dk \<le> fst x" using Cons.prems e by auto
  have none: "filter (hit key rangeEnd) es = []"
    if "\<not> has_prefix kvPrefix dk \<or> rangeEnd \<noteq> zero_byte \<and> rangeEnd \<le> drop (length kvPrefix) dk"
    using no_later_hit[OF le(1) _ that] le(2) by (force simp: filter_empty_conv)
  have "scan_range key rangeEnd es = filter (hit key rangeEnd) es" using Cons by auto
  moreover have "hit key rangeEnd (dk, v) \<longleftrightarrow> has_prefix kvPrefix dk \<and> in_key_range (drop (length kvPrefix) dk) key rangeEnd"
    by (simp add: hit_def)
  ultimately show ?case using none by (auto simp: e Let_def)
qed simp

definition scan_kvs :: "(string \<times> string) list \<Rightarrow> key_value list" where
  "scan_kvs es = map (\<lambda>(dk, v). the (entry_of (Some v))) es"

lemma range_loop_scan:
  assumes "\<And>dk v. (dk, v) \<in> set es \<Longrightarrow> has_prefix kvPrefix dk \<Longrightarrow> \<exists>kv. decodeKeyValue v = Decoded kv"
    and "limit \<le> 0 \<or> int (length kvs) < limit"
  shows "range_loop key rangeEnd limit es kvs = Some (apply_limit limit (kvs @ scan_kvs (scan_range key rangeEnd es)))"
  using assms
proof (induction es arbitrary: kvs)
  case Nil
  then show ?case by (auto simp: scan_kvs_def apply_limit_def)
next
  case (Cons e es)
  obtain dk v where e: "e = (dk, v)" by (cases e)
  have lim: "apply_limit limit kvs = kvs" using Cons.prems(2) by (auto simp: apply_limit_def)
  show ?case
  proof (cases "has_prefix kvPrefix dk")
    case False
    then show ?thesis using lim by (simp add: e scan_kvs_def)
  next
    case True
    then obtain kv where kv: "decodeKeyValue v = Decoded kv" using Cons.prems(1) e by auto
    let ?k = "drop (length kvPrefix) dk"
    have IH: "range_loop key rangeEnd limit es kvs' = Some (apply_limit limit (kvs' @ scan_kvs (scan_range key rangeEnd es)))"
      if "limit \<le> 0 \<or> int (length kvs') < limit" for kvs'
      using Cons.IH[OF _ that] Cons.prems(1) by auto
    have full: "apply_limit limit (kvs @ kv # xs) = kvs @ [kv]" if "0 < limit" "limit \<le> int (length kvs) + 1" for xs
    proof -
      have "nat limit = length kvs + 1" using that Cons.prems(2) by linarith
      then show ?thesis using that(1) by (simp add: apply_limit_def)
    qed
    have one: "apply_limit limit (kvs @ [kv]) = kvs @ [kv]" if "\<not> (0 < limit \<and> limit \<le> int (length kvs) + 1)"
      using that by (auto simp: apply_limit_def)
    show ?thesis
    proof (cases "in_key_range ?k key rangeEnd")
      case hit: True
      show ?thesis
      proof (cases "0 < limit \<and> limit \<le> int (length kvs) + 1")
        case True
        then show ?thesis using \<open>has_prefix kvPrefix dk\<close> kv hit full by (simp add: e Let_def scan_kvs_def entry_of_def)
      next
        case False
        then have "limit \<le> 0 \<or> int (length (kvs @ [kv])) < limit" by auto
        from IH[OF this] show ?thesis
          using \<open>has_prefix kvPrefix dk\<close> kv hit False one[OF False] by (auto simp: e Let_def scan_kvs_def entry_of_def)
      qed
    next
      case False
      then show ?thesis
        using \<open>has_prefix kvPrefix dk\<close> IH[OF Cons.prems(2)] lim by (auto simp: e Let_def scan_kvs_def)
    qed
  qed
qed

lemma filter_entries:
  assumes "sorted (map fst xs)" "distinct (map fst xs)"
  shows "sorted (map fst (filter P xs))" "distinct (map fst (filter P xs))"
  using assms by (induction xs) auto

lemma seek_sorted:
  assumes "btree_ok (re_D E)"
  shows "sorted (map fst (rk_seek E k db))" "distinct (map fst (rk_seek E k db))"
  unfolding rk_seek_def btree_simps(5)[OF assms]
  using filter_entries[OF btree_simps(6,7)[OF assms]] by blast+

lemma scan_view:
  fixes key :: string
  assumes "quiet_env E" "rk_ok (re_D E) s" "rangeEnd \<noteq> []"
  defines "es \<equiv> scan_range key rangeEnd (rk_seek E (kvPrefix @ key) (rk_db s))"
  shows "scan_kvs es = spec_kvs (rk_view (re_D E) (rk_db s)) key rangeEnd" "finite (dom (rk_view (re_D E) (rk_db s)))"
proof -
  let ?D = "re_D E" and ?M = "rk_view (re_D E) (rk_db s)" and ?sk = "rk_seek E (kvPrefix @ key) (rk_db s)"
  have bt: "btree_ok ?D" and db: "db_ok ?D (cachedRevision s) (rk_db s)" using assms(2) by (auto simp: rk_ok_def)
  have "kvPrefix \<le> dk" if "(dk, v) \<in> set ?sk" for dk v
    using that seek_mem[OF bt] append_le_iff[of kvPrefix "[]" key] by auto
  then have es: "es = filter (hit key rangeEnd) ?sk" unfolding es_def using scan_range_filter seek_sorted(1)[OF bt] by blast
  have mem: "(dk, v) \<in> set es \<longleftrightarrow> (\<exists>k. dk = kvPrefix @ k \<and> in_key_range k key rangeEnd \<and> bt_Get ?D (rk_db s) dk = Some v)" for dk v
    using seek_mem[OF bt] by (auto simp: es hit_def has_prefix_iff in_key_range_def)
  define ks where "ks = map (\<lambda>(dk, v). drop (length kvPrefix) dk) es"
  have keys: "map fst es = map ((@) kvPrefix) ks"
    using mem by (auto simp: ks_def comp_def intro!: map_cong)
  have "sorted (map fst es)" "distinct (map fst es)"
    unfolding es by (rule filter_entries[OF seek_sorted[OF bt]])+
  then have sd: "sorted ks" "distinct ks" unfolding keys by (simp_all add: sorted_wrt_map distinct_map)
  have fin: "finite (dom ?M)"
  proof -
    have "(\<lambda>k. kvPrefix @ k) ` dom ?M \<subseteq> fst ` set (bt_Ascend ?D (rk_db s))"
      using rk_viewD[OF db] btree_simps(4)[OF bt] by force
    then have "finite ((\<lambda>k. kvPrefix @ k) ` dom ?M)" by (rule finite_subset) simp
    then show ?thesis by (rule finite_imageD) (simp add: inj_on_def)
  qed
  then show "finite (dom ?M)" .
  have "k \<in> set ks \<longleftrightarrow> (\<exists>v. (kvPrefix @ k, v) \<in> set es)" for k
  proof
    assume "k \<in> set ks"
    then obtain dk v where dk: "(dk, v) \<in> set es" "k = drop (length kvPrefix) dk" by (auto simp: ks_def)
    then have "dk = kvPrefix @ k" using mem by fastforce
    then show "\<exists>v. (kvPrefix @ k, v) \<in> set es" using dk by blast
  next
    assume "\<exists>v. (kvPrefix @ k, v) \<in> set es"
    then obtain v where "(kvPrefix @ k, v) \<in> set es" by blast
    then show "k \<in> set ks" by (force simp: ks_def)
  qed
  moreover have "k \<in> dom ?M \<longleftrightarrow> (\<exists>v. bt_Get ?D (rk_db s) (kvPrefix @ k) = Some v)" for k
    using rk_view_None[OF db, of k] by auto
  ultimately have set: "set ks = {k \<in> dom ?M. in_key_range k key rangeEnd}" unfolding mem by auto
  have "sorted_list_of_set (set ks) = ks" by (rule sorted_list_of_set.idem_if_sorted_distinct[OF sd])
  then have sel: "ks = sel_keys ?M key rangeEnd" unfolding set using assms(3) by (simp add: sel_keys_def range_keys_def)
  have "the (entry_of (Some v)) = the (?M (drop (length kvPrefix) dk))" if "(dk, v) \<in> set es" for dk v
    using that mem by (auto simp: rk_view_def)
  then show "scan_kvs es = spec_kvs ?M key rangeEnd"
    unfolding spec_kvs_def sel[symmetric] by (auto simp: scan_kvs_def ks_def comp_def)
qed

lemma spec_kvs_keys:
  assumes "db_ok D r db" "finite (dom (rk_view D db))"
  shows "map kv_Key (spec_kvs (rk_view D db) key rangeEnd) = sel_keys (rk_view D db) key rangeEnd"
proof -
  have "kv_Key (the (rk_view D db k)) = k" if k: "k \<in> set (sel_keys (rk_view D db) key rangeEnd)" for k
  proof -
    obtain kv where kv: "rk_view D db k = Some kv" using k by (auto simp: set_sel_keys[OF assms(2)])
    then have "kv_ok r k kv" using rk_viewD[OF assms(1)] by blast
    then show ?thesis using kv by (simp add: kv_ok_def)
  qed
  then show ?thesis by (auto simp: spec_kvs_def comp_def intro: map_idI)
qed

lemma sorted_sel_keys: "finite (dom M) \<Longrightarrow> sorted (sel_keys M key rangeEnd)"
  by (simp add: sel_keys_def range_keys_def)

lemma local_range_spec:
  assumes "quiet_env E" "rk_ok (re_D E) s"
  shows "rk_local_range E key rangeEnd limit s = Some (spec_range key rangeEnd limit (rk_abs (re_D E) s))"
proof -
  let ?D = "re_D E" and ?M = "rk_view (re_D E) (rk_db s)"
  have bt: "btree_ok ?D" and db: "db_ok ?D (cachedRevision s) (rk_db s)" using assms(2) by (auto simp: rk_ok_def)
  show ?thesis
  proof (cases "rangeEnd = []")
    case True
    have "\<not> (0 < limit \<and> limit < 1)" by linarith
    then show ?thesis
      using True prev_kv_view[OF assms(1) db, of key]
      by (cases "?M key") (auto simp: rk_local_range_def rk_abs_def spec_kvs_def sel_keys_def apply_limit_def rk_CurrentRevision_def take_Cons')
  next
    case False
    have dec: "\<exists>kv. decodeKeyValue v = Decoded kv" if "(dk, v) \<in> set (rk_seek E (kvPrefix @ key) (rk_db s))" "has_prefix kvPrefix dk" for dk v
      using that has_prefixE[OF that(2)] db_ok_decode[OF db] seek_mem[OF bt] by metis
    note sv = scan_view(1)[OF assms False, of key] scan_view(2)[OF assms False]
    have loop: "range_loop key rangeEnd limit (rk_seek E (kvPrefix @ key) (rk_db s)) [] = Some (apply_limit limit (spec_kvs ?M key rangeEnd))"
      using range_loop_scan[OF dec, where limit = limit and kvs = "[]" and rangeEnd = rangeEnd] sv(1) by (cases "limit \<le> 0") auto
    have srt: "sort_key kv_Key (apply_limit limit (spec_kvs ?M key rangeEnd)) = apply_limit limit (spec_kvs ?M key rangeEnd)"
    proof (rule sort_key_id_if_sorted)
      have "map kv_Key (apply_limit limit (spec_kvs ?M key rangeEnd)) = apply_limit limit (sel_keys ?M key rangeEnd)"
        using spec_kvs_keys[OF db sv(2)] by (simp add: apply_limit_def take_map[symmetric])
      then show "sorted (map kv_Key (apply_limit limit (spec_kvs ?M key rangeEnd)))"
        using sorted_sel_keys[OF sv(2)] by (simp add: apply_limit_def sorted_wrt_take)
    qed
    have "\<not> (0 < limit \<and> limit < int (length (apply_limit limit (spec_kvs ?M key rangeEnd))))"
      using length_apply_limit[of limit "spec_kvs ?M key rangeEnd"] by linarith
    then show ?thesis
      using False by (auto simp: rk_local_range_def loop srt rk_abs_def rk_CurrentRevision_def Let_def)
  qed
qed

section \<open>Puts\<close>

lemma view_after:
  assumes "btree_ok D" "kv_fits kv"
  shows "rk_view D (apply_op D (WPut (kvPrefix @ k) (encodeKeyValue kv)) db) = (rk_view D db)(k \<mapsto> kv)"
    "rk_view D (apply_op D (WDelete (kvPrefix @ k)) db) = (rk_view D db)(k := None)"
    "rk_view D (apply_op D (WPut revisionKey v) db) = rk_view D db"
  using assms(2) by (auto simp: rk_view_def fun_eq_iff btree_simps(2,3)[OF assms(1)] entry_of_def decode_encode)

lemma increment_quiet:
  "quiet_env E \<Longrightarrow> incrementRevision E s =
     (s\<lparr>rk_db := apply_op (re_D E) (WPut revisionKey (PutUint64LE (uint64 (cachedRevision s + 1)))) (rk_db s),
        cachedRevision := cachedRevision s + 1\<rparr>, Inr (cachedRevision s + 1))"
  by (simp add: incrementRevision_def Let_def)

lemma putUnlocked_spec:
  assumes "quiet_env E" "rk_ok (re_D E) s" "small_put k v 0" "cachedRevision s + 1 < max_rev"
  shows "\<exists>s'. rk_putUnlocked E k v 0 s = Some (s', None) \<and> rk_ok (re_D E) s' \<and> rk_abs (re_D E) s' = spec_put k v 0 (rk_abs (re_D E) s)"
proof -
  have bt: "btree_ok (re_D E)" and db: "db_ok (re_D E) (cachedRevision s) (rk_db s)" and r: "0 \<le> cachedRevision s"
    using assms(2) by (auto simp: rk_ok_def)
  note p = prev_kv_view[OF assms(1) db, of k]
  have pk: "kv_ok (cachedRevision s) k kv \<and> kv_fits kv" if "rk_view (re_D E) (rk_db s) k = Some kv" for kv
    using that rk_viewD[OF db] by blast
  note fits = next_kv_fits(2)[OF pk assms(3) r assms(4), simplified]
  obtain s' err where s': "rk_putUnlocked E k v 0 s = Some (s', err)" "rk_ok (re_D E) s'" using putUnlocked_ok[OF assms(2-4)] by blast
  then have "err = None" "rk_db s' = apply_op (re_D E) (WPut (kvPrefix @ k) (encodeKeyValue
        (next_kv k v 0 (cachedRevision s + 1) (rk_view (re_D E) (rk_db s) k))))
      (apply_op (re_D E) (WPut revisionKey (PutUint64LE (uint64 (cachedRevision s + 1)))) (rk_db s))"
    "cachedRevision s' = cachedRevision s + 1"
    using assms(1) p by (auto simp: rk_putUnlocked_def increment_quiet put_ops_def Let_def)
  then show ?thesis using s' fits by (auto simp: rk_abs_def view_after[OF bt] view_after(3)[OF bt fits] simp del: apply_op.simps)
qed

section \<open>Transactions\<close>

lemma rk_evaluateCompare_spec:
  assumes "quiet_env E" "db_ok (re_D E) r db"
  shows "rk_evaluateCompare E cmp db = Some (spec_compare cmp (n, rk_view (re_D E) db))"
  using prev_kv_view[OF assms, of "cmp_Key cmp"]
  by (cases "cmp_Target cmp"; cases "cmp_Result cmp"; cases "rk_view (re_D E) db (cmp_Key cmp)")
     (auto simp: rk_evaluateCompare_def rk_compareInt_def rk_compareBytes_def bytes_Compare_def Let_def)

lemma eval_compares_spec:
  assumes "quiet_env E" "rk_ok (re_D E) s"
  shows "eval_compares E cmps (rk_db s) = Some (\<forall>cmp \<in> set cmps. spec_compare cmp (rk_abs (re_D E) s))"
proof (induction cmps)
  case (Cons cmp cmps)
  have "db_ok (re_D E) (cachedRevision s) (rk_db s)" using assms(2) by (simp add: rk_ok_def)
  then show ?case using Cons rk_evaluateCompare_spec[OF assms(1), of _ "rk_db s" cmp "cachedRevision s"] by (auto simp: rk_abs_def)
qed simp

text \<open>Reads, and puts without a lease.\<close>

definition plain_op :: "op \<Rightarrow> bool" where
  "plain_op opn \<longleftrightarrow> op_Type opn \<noteq> OpDelete \<and> (op_Type opn = OpPut \<longrightarrow> op_LeaseID opn = 0) \<and> small_op opn"

lemma rk_txn_op_spec:
  assumes "quiet_env E" "rk_ok (re_D E) s" "plain_op opn" "cachedRevision s + 1 < max_rev"
  shows "\<exists>s' resp. rk_txn_op E opn s = Some (s', Inr resp) \<and> rk_ok (re_D E) s' \<and> cachedRevision s' \<le> cachedRevision s + 1 \<and>
    spec_op alive opn (rk_abs (re_D E) s) = Some (rk_abs (re_D E) s', resp)"
proof (cases "op_Type opn = OpPut")
  case True
  have db: "db_ok (re_D E) (cachedRevision s) (rk_db s)" using assms(2) by (simp add: rk_ok_def)
  have sp: "small_put (op_Key opn) (op_Value opn) 0" "op_LeaseID opn = 0" using assms(3) True by (auto simp: plain_op_def small_op_def)
  obtain s' where s': "rk_putUnlocked E (op_Key opn) (op_Value opn) 0 s = Some (s', None)" "rk_ok (re_D E) s'"
      "rk_abs (re_D E) s' = spec_put (op_Key opn) (op_Value opn) 0 (rk_abs (re_D E) s)"
    using putUnlocked_spec[OF assms(1,2) sp(1) assms(4)] by blast
  then have "cachedRevision s' = cachedRevision s + 1" by (simp add: rk_abs_def)
  then show ?thesis
    using True sp s' prev_kv_view[OF assms(1) db, of "op_Key opn"] by (simp add: rk_txn_op_def spec_op_def rk_abs_def rk_CurrentRevision_def)
next
  case False
  then show ?thesis
    using assms(2,3) local_range_spec[OF assms(1,2)]
    by (cases "op_Type opn") (auto simp: rk_txn_op_def spec_op_def plain_op_def)
qed

lemma rk_txn_ops_spec:
  assumes "quiet_env E" "rk_ok (re_D E) s" "list_all plain_op ops" "cachedRevision s + int (length ops) < max_rev"
  shows "\<exists>s' resps. rk_txn_ops E ops s = Some (s', Inr resps) \<and> rk_ok (re_D E) s' \<and>
    spec_ops alive ops (rk_abs (re_D E) s) = (rk_abs (re_D E) s', Some resps)"
  using assms(2-4)
proof (induction ops arbitrary: s)
  case (Cons opn ops)
  have b: "cachedRevision s + 1 < max_rev" "plain_op opn" using Cons.prems by auto
  obtain s1 resp where s1: "rk_txn_op E opn s = Some (s1, Inr resp)" "rk_ok (re_D E) s1" "cachedRevision s1 \<le> cachedRevision s + 1"
      "spec_op alive opn (rk_abs (re_D E) s) = Some (rk_abs (re_D E) s1, resp)"
    using rk_txn_op_spec[OF assms(1) Cons.prems(1) b(2,1)] by blast
  then obtain s2 resps where "rk_txn_ops E ops s1 = Some (s2, Inr resps)" "rk_ok (re_D E) s2"
      "spec_ops alive ops (rk_abs (re_D E) s1) = (rk_abs (re_D E) s2, Some resps)"
    using Cons.IH[OF s1(2)] Cons.prems by auto
  then show ?case using s1 by simp
qed simp

lemma rk_txn_spec:
  assumes "quiet_env E" "rk_ok (re_D E) s" "list_all plain_op (thenOps @ elseOps)"
    and "cachedRevision s + int (length (thenOps @ elseOps)) < max_rev"
  shows "\<exists>s' resp. rk_txnUnlocked E cmps thenOps elseOps s = Some (s', Inr resp) \<and> rk_ok (re_D E) s' \<and>
    spec_txn alive cmps thenOps elseOps (rk_abs (re_D E) s) = (rk_abs (re_D E) s', Some resp)"
proof -
  let ?b = "\<forall>cmp \<in> set cmps. spec_compare cmp (rk_abs (re_D E) s)"
  obtain s' resps where "rk_txn_ops E (if ?b then thenOps else elseOps) s = Some (s', Inr resps)" "rk_ok (re_D E) s'"
      "spec_ops alive (if ?b then thenOps else elseOps) (rk_abs (re_D E) s) = (rk_abs (re_D E) s', Some resps)"
    using rk_txn_ops_spec[OF assms(1,2), of "if ?b then thenOps else elseOps" alive] assms(3,4) by (cases ?b) auto
  then show ?thesis
    using eval_compares_spec[OF assms(1,2), of cmps] by (simp add: rk_txnUnlocked_def spec_txn_def rk_abs_def rk_CurrentRevision_def)
qed

section \<open>Batches in log order\<close>

fun apply_all :: "'d rocks_env \<Rightarrow> RaftOperation list \<Rightarrow> 'd RocksDB \<Rightarrow> 'd RocksDB option" where
  "apply_all E [] s = Some s"
| "apply_all E (opn # ops) s = do { s' \<leftarrow> rk_applyOperation E opn s; apply_all E ops s' }"

definition single_key :: "RaftOperation \<Rightarrow> bool" where
  "single_key opn \<longleftrightarrow> ro_Type opn = ''PUT'' \<and> ro_LeaseID opn = 0 \<or> ro_Type opn = ''DELETE'' \<and> ro_RangeEnd opn = []"

fun op_key :: "batch_op \<Rightarrow> string" where
  "op_key (WPut k v) = k"
| "op_key (WDelete k) = k"

lemma batch_map_other: "k \<notin> op_key ` set wb \<Longrightarrow> batch_map wb m k = m k"
  by (induction wb arbitrary: m) (auto elim!: op_map.elims split: batch_op.splits, case_tac a, auto)

lemma op_map_cong: "m k = m' k \<Longrightarrow> op_map opn m k = op_map opn m' k"
  by (cases opn) auto

lemma batch_map_upd: "k \<notin> op_key ` set wb \<Longrightarrow> batch_map wb (m(k := v)) = (batch_map wb m)(k := v)"
proof (induction wb arbitrary: m)
  case (Cons opn wb)
  then have "op_map opn (m(k := v)) = (op_map opn m)(k := v)" by (cases opn) auto
  moreover have "batch_map wb ((op_map opn m)(k := v)) = (batch_map wb (op_map opn m))(k := v)"
    by (rule Cons.IH) (use Cons.prems in simp)
  ultimately show ?case unfolding batch_map_simps by (simp only:)
qed (simp only: batch_map_simps)

lemma waiter_watch_commute: "rk_notify_waiter opn (rk_notifyWatches e s) = rk_notifyWatches e (rk_notify_waiter opn s)"
  by (simp add: rk_notify_waiter_def rk_notifyWatches_def)

lemma waiter_watches_commute: "rk_notify_waiter opn (fold rk_notifyWatches es s) = fold rk_notifyWatches es (rk_notify_waiter opn s)"
  by (induction es arbitrary: s) (simp_all add: waiter_watch_commute)

lemma notify_update:
  "rk_notifyWatches e (s\<lparr>rk_db := d, cachedRevision := r\<rparr>) = (rk_notifyWatches e s)\<lparr>rk_db := d, cachedRevision := r\<rparr>"
  "rk_notify_waiter opn (s\<lparr>rk_db := d, cachedRevision := r\<rparr>) = (rk_notify_waiter opn s)\<lparr>rk_db := d, cachedRevision := r\<rparr>"
  by (simp_all add: rk_notify_waiter_def rk_notifyWatches_def)

lemma fold_notify_update:
  "fold rk_notifyWatches es (s\<lparr>rk_db := d, cachedRevision := r\<rparr>) = (fold rk_notifyWatches es s)\<lparr>rk_db := d, cachedRevision := r\<rparr>"
  "fold rk_notify_waiter ops (s\<lparr>rk_db := d, cachedRevision := r\<rparr>) = (fold rk_notify_waiter ops s)\<lparr>rk_db := d, cachedRevision := r\<rparr>"
  by (induction es arbitrary: s; simp add: notify_update) (induction ops arbitrary: s; simp add: notify_update)

lemma waiters_watches_commute:
  "fold rk_notify_waiter ops (fold rk_notifyWatches es s) = fold rk_notifyWatches es (fold rk_notify_waiter ops s)"
  by (induction ops arbitrary: s) (simp_all add: waiter_watches_commute)

lemma view_cong: "bt_Get D db (kvPrefix @ k) = bt_Get D db' (kvPrefix @ k) \<Longrightarrow> rk_view D db k = rk_view D db' k"
  by (simp add: rk_view_def)

lemma rk_upd_commute: "f\<lparr>cachedRevision := r, rk_db := d\<rparr> = f\<lparr>rk_db := d, cachedRevision := r\<rparr>"
  by (cases f) simp

text \<open>
  One operation, collected in a batch on one side and applied on the other: the batch side has the operations
  collected so far still to be written.
\<close>

lemma batch_step:
  assumes q: "quiet_env E" and ok: "rk_ok (re_D E) s" and good: "list_all (good_op (cachedRevision s)) batch"
    and op: "single_key opn" and new: "kvPrefix @ ro_Key opn \<notin> op_key ` set batch" "revisionKey \<notin> op_key ` set batch"
    and dt: "bt_Get (re_D E) dt = batch_map batch (bt_Get (re_D E) (rk_db s))"
  shows "\<exists>ds r opb ev dt'. prepare_op E opn (s, batch, events) = Some (s\<lparr>rk_db := ds, cachedRevision := r\<rparr>, batch @ [opb], events @ ev) \<and>
    op_key opb = kvPrefix @ ro_Key opn \<and> bt_Get (re_D E) dt' = batch_map (batch @ [opb]) (bt_Get (re_D E) ds) \<and>
    (\<forall>f. rk_applyOperation E opn (f\<lparr>rk_db := dt, cachedRevision := cachedRevision s\<rparr>) =
       Some (rk_notify_waiter opn (fold rk_notifyWatches ev (f\<lparr>rk_db := dt', cachedRevision := r\<rparr>))))"
proof -
  let ?D = "re_D E" and ?k = "ro_Key opn" and ?r = "cachedRevision s + 1"
  let ?inc = "WPut revisionKey (PutUint64LE (uint64 ?r))"
  have bt: "btree_ok ?D" and db: "db_ok ?D (cachedRevision s) (rk_db s)" using ok by (auto simp: rk_ok_def)
  have "bt_Get ?D dt = bt_Get ?D (fold (apply_op ?D) batch (rk_db s))" using dt batch_effect[OF bt] by simp
  then have dbt: "db_ok ?D (cachedRevision s) dt" using db_ok_batch[OF bt db good] by (simp add: db_ok_def)
  have inc: "bt_Get ?D (apply_op ?D ?inc d) = (bt_Get ?D d)(revisionKey \<mapsto> PutUint64LE (uint64 ?r))" for d
    by (simp add: btree_simps(2)[OF bt])
  have same: "bt_Get ?D dt (kvPrefix @ ?k) = bt_Get ?D (rk_db s) (kvPrefix @ ?k)" using dt batch_map_other[OF new(1)] by simp
  define p where "p = rk_view ?D (rk_db s) ?k"
  have pv: "prev_kv E ?k (rk_db s) = Some p" "prev_kv E ?k dt = Some p"
    using prev_kv_view[OF q db] prev_kv_view[OF q dbt] view_cong[OF same] by (simp_all add: p_def)
  have dbi: "db_ok ?D ?r (apply_op ?D ?inc d)" if "db_ok ?D (cachedRevision s) d" for d
    by (rule db_ok_op[OF bt]) (use that db_ok_mono in \<open>auto, force\<close>)
  have vi: "rk_view ?D (apply_op ?D ?inc d) ?k = rk_view ?D d ?k" for d by (rule view_cong) (simp add: btree_simps(2)[OF bt])
  have pi: "prev_kv E ?k (apply_op ?D ?inc (rk_db s)) = Some p" "prev_kv E ?k (apply_op ?D ?inc dt) = Some p"
    using prev_kv_view[OF q dbi[OF db]] prev_kv_view[OF q dbi[OF dbt]] view_cong[OF same] vi by (simp_all add: p_def)
  have mp: "bt_Get ?D (apply_op ?D opb (apply_op ?D ?inc dt)) = batch_map (batch @ [opb]) (bt_Get ?D (apply_op ?D ?inc (rk_db s)))" for opb
    using batch_map_upd[OF new(2)] by (cases opb) (simp_all add: btree_simps(2,3)[OF bt] dt)
  show ?thesis
  proof (cases "ro_Type opn = ''PUT''")
    case True
    then have l: "ro_LeaseID opn = 0" using op by (auto simp: single_key_def)
    define kv where "kv = next_kv ?k (ro_Value opn) 0 ?r p"
    show ?thesis
      by (rule exI[of _ "apply_op ?D ?inc (rk_db s)"], rule exI[of _ ?r], rule exI[of _ "WPut (kvPrefix @ ?k) (encodeKeyValue kv)"],
          rule exI[of _ "[put_event ?r kv p]"], rule exI[of _ "apply_op ?D (WPut (kvPrefix @ ?k) (encodeKeyValue kv)) (apply_op ?D ?inc dt)"])
        (use q True l pv mp[of "WPut (kvPrefix @ ?k) (encodeKeyValue kv)"] in \<open>simp add: prepare_op_def preparePutBatch_def
            rk_applyOperation_def rk_putUnlocked_def increment_quiet put_ops_def kv_def[symmetric] Let_def rk_upd_commute del: batch_map_simps\<close>)
  next
    case False
    then have t: "ro_Type opn = ''DELETE''" "ro_RangeEnd opn = []" using op by (auto simp: single_key_def)
    show ?thesis
      by (rule exI[of _ "apply_op ?D ?inc (rk_db s)"], rule exI[of _ ?r], rule exI[of _ "WDelete (kvPrefix @ ?k)"],
          rule exI[of _ "delete_events ?r p"], rule exI[of _ "apply_op ?D (WDelete (kvPrefix @ ?k)) (apply_op ?D ?inc dt)"])
        (use q t pi mp[of "WDelete (kvPrefix @ ?k)"] in \<open>simp add: prepare_op_def prepareDeleteBatch_def rk_applyOperation_def rk_deleteUnlocked_def
            increment_quiet Let_def rk_upd_commute del: batch_map_simps\<close>)
  qed
qed

lemma batch_run:
  assumes q: "quiet_env E" and ok: "rk_ok (re_D E) s" and good: "list_all (good_op (cachedRevision s)) batch"
    and ops: "list_all single_key ops" "list_all small_raft_op ops" "cachedRevision s + sum_list (map weight ops) < max_rev"
    and new: "distinct (map ro_Key ops)" "\<forall>opn \<in> set ops. kvPrefix @ ro_Key opn \<notin> op_key ` set batch" "revisionKey \<notin> op_key ` set batch"
    and dt: "bt_Get (re_D E) dt = batch_map batch (bt_Get (re_D E) (rk_db s))"
  shows "\<exists>ds r batch' ev dt'. prepare_ops E ops (s, batch, events) = Some (s\<lparr>rk_db := ds, cachedRevision := r\<rparr>, batch', events @ ev) \<and>
    bt_Get (re_D E) dt' = batch_map batch' (bt_Get (re_D E) ds) \<and>
    apply_all E ops (f\<lparr>rk_db := dt, cachedRevision := cachedRevision s\<rparr>) =
      Some ((fold rk_notifyWatches ev (fold rk_notify_waiter ops f))\<lparr>rk_db := dt', cachedRevision := r\<rparr>)"
  using ok good ops new dt
proof (induction ops arbitrary: s batch events dt f)
  case Nil
  have "s = s\<lparr>rk_db := rk_db s, cachedRevision := cachedRevision s\<rparr>" by simp
  then show ?case using Nil.prems(9)
    by (intro exI[of _ "rk_db s"] exI[of _ "cachedRevision s"] exI[of _ batch] exI[of _ "[]"] exI[of _ dt]) simp
next
  case (Cons opn ops)
  have nn: "0 \<le> sum_list (map weight ops)" using weight_pos by (auto intro!: sum_list_nonneg) (metis int_one_le_iff_zero_less less_imp_le)
  obtain ds r opb ev dt1 where s: "prepare_op E opn (s, batch, events) = Some (s\<lparr>rk_db := ds, cachedRevision := r\<rparr>, batch @ [opb], events @ ev)"
      "op_key opb = kvPrefix @ ro_Key opn" "bt_Get (re_D E) dt1 = batch_map (batch @ [opb]) (bt_Get (re_D E) ds)"
      "\<And>f. rk_applyOperation E opn (f\<lparr>rk_db := dt, cachedRevision := cachedRevision s\<rparr>) =
       Some (rk_notify_waiter opn (fold rk_notifyWatches ev (f\<lparr>rk_db := dt1, cachedRevision := r\<rparr>)))"
    using batch_step[OF q Cons.prems(1,2), of opn dt events] Cons.prems(3,7,8,9) by auto
  let ?s = "s\<lparr>rk_db := ds, cachedRevision := r\<rparr>" and ?f = "fold rk_notifyWatches ev (rk_notify_waiter opn f)"
  have w: "cachedRevision s + weight opn < max_rev" using Cons.prems(5) nn by simp
  from prepare_op_ok[OF Cons.prems(1) _ w Cons.prems(2), of events] s(1) Cons.prems(4)
  have inv: "rk_ok (re_D E) ?s" "list_all (good_op (cachedRevision ?s)) (batch @ [opb])" "cachedRevision ?s \<le> cachedRevision s + weight opn" by auto
  have fresh: "ro_Key opn' \<noteq> ro_Key opn" if "opn' \<in> set ops" for opn'
    using that Cons.prems(6) by (metis distinct.simps(2) image_eqI list.set_map list.simps(9))
  have "\<exists>ds' r' batch' ev' dt'. prepare_ops E ops (?s, batch @ [opb], events @ ev) = Some (?s\<lparr>rk_db := ds', cachedRevision := r'\<rparr>, batch', (events @ ev) @ ev') \<and>
    bt_Get (re_D E) dt' = batch_map batch' (bt_Get (re_D E) ds') \<and>
    apply_all E ops (?f\<lparr>rk_db := dt1, cachedRevision := cachedRevision ?s\<rparr>) =
      Some ((fold rk_notifyWatches ev' (fold rk_notify_waiter ops ?f))\<lparr>rk_db := dt', cachedRevision := r'\<rparr>)"
    by (rule Cons.IH[OF inv(1,2)]) (use Cons.prems inv(3) s(2,3) fresh in auto)
  then obtain ds' r' batch' ev' dt' where t: "prepare_ops E ops (?s, batch @ [opb], events @ ev) = Some (s\<lparr>rk_db := ds', cachedRevision := r'\<rparr>, batch', events @ ev @ ev')"
    "bt_Get (re_D E) dt' = batch_map batch' (bt_Get (re_D E) ds')"
    "apply_all E ops (?f\<lparr>rk_db := dt1, cachedRevision := r\<rparr>) =
      Some ((fold rk_notifyWatches ev' (fold rk_notify_waiter ops ?f))\<lparr>rk_db := dt', cachedRevision := r'\<rparr>)" by auto
  have "rk_notify_waiter opn (fold rk_notifyWatches ev (f\<lparr>rk_db := dt1, cachedRevision := r\<rparr>)) = ?f\<lparr>rk_db := dt1, cachedRevision := r\<rparr>"
    by (simp add: fold_notify_update notify_update waiter_watches_commute)
  then have a: "apply_all E (opn # ops) (f\<lparr>rk_db := dt, cachedRevision := cachedRevision s\<rparr>) =
      Some ((fold rk_notifyWatches (ev @ ev') (fold rk_notify_waiter (opn # ops) f))\<lparr>rk_db := dt', cachedRevision := r'\<rparr>)"
    using s(4)[of f] t(3) by (simp add: waiters_watches_commute)
  show ?case
    by (rule exI[of _ ds'], rule exI[of _ r'], rule exI[of _ batch'], rule exI[of _ "ev @ ev'"], rule exI[of _ dt'])
      (use s(1) t(1,2) a in \<open>simp del: apply_all.simps\<close>)
qed

end
