(* ===== verification/Rocks_Properties.thy ===== *)
theory Rocks_Properties
  imports Rocks_Refinement Raft_Log_Properties
begin

text \<open>
  Properties of the RocksDB engine: its reachable states, the agreement with the specification of the
  in-memory engine and with the log order, recovery, and the deviations that the code shows.
\<close>

section \<open>Reachable states\<close>

text \<open>
  The steps of a node: a committed batch, a committed operation in the old format, the halves of client calls,
  lease renewal, compaction, watches and their goroutines. The environment may differ in each step, but not the
  database. Keys and values are shorter than four gigabytes and revisions stay in 63 bits.
\<close>

inductive rk_step :: "'d rocks \<Rightarrow> 'd RocksDB \<Rightarrow> 'd RocksDB \<Rightarrow> bool" for D where
  step_batch: "re_D E = D \<Longrightarrow> list_all small_raft_op ops \<Longrightarrow> cachedRevision s + sum_list (map weight ops) < max_rev \<Longrightarrow>
    applyOperationsBatch E ops s = Some s' \<Longrightarrow> rk_step D s s'"
| step_legacy: "re_D E = D \<Longrightarrow> small_put k v 0 \<Longrightarrow> cachedRevision s + 1 < max_rev \<Longrightarrow>
    rk_putUnlocked E k v 0 s = Some (s', err) \<Longrightarrow> rk_step D s s'"
| step_submit: "rk_step D s (fst (rk_submit c res mkOp s))"
| step_txn: "rk_step D s (fst (rk_Txn_start c res cmps thenOps elseOps s))"
| step_await: "rk_await res sq s = Some (s', err) \<Longrightarrow> rk_step D s s'"
| step_txn_result: "rk_Txn_finish res sq s = Some (s', r) \<Longrightarrow> rk_step D s s'"
| step_renew: "re_D E = D \<Longrightarrow> rk_step D s (fst (rk_LeaseRenew E i s))"
| step_compact: "re_D E = D \<Longrightarrow> rk_step D s (fst (rk_Compact E r s))"
| step_watch: "rk_WatchWithOptions key rangeEnd start i opts s = Inr s' \<Longrightarrow> rk_step D s s'"
| step_cancel: "rk_CancelWatch i s = Inr s' \<Longrightarrow> rk_step D s s'"
| step_slow: "SlowSendEvent i e \<in> set (rk_goroutines s) \<Longrightarrow> rk_slowSendEvent choice i e s = Finished s' \<Longrightarrow>
    rk_step D s (s'\<lparr>rk_goroutines := remove1 (SlowSendEvent i e) (rk_goroutines s')\<rparr>)"
| step_historical: "re_D E = D \<Longrightarrow> SendHistoricalEvents i key rangeEnd \<in> set (rk_goroutines s) \<Longrightarrow>
    rk_sendHistoricalEvents E choice i key rangeEnd s = Finished s' \<Longrightarrow>
    rk_step D s (s'\<lparr>rk_goroutines := remove1 (SendHistoricalEvents i key rangeEnd) (rk_goroutines s')\<rparr>)"

definition rk_empty :: "'d rocks \<Rightarrow> 'd RocksDB" where
  "rk_empty D = \<lparr>rk_db = bt_New D, rk_proposeC = [], rk_pendingOps = [], rk_closedOps = [], rk_pendingTxnResults = [], rk_seqNum = 0,
     rk_watches = [], rk_goroutines = [], cachedRevision = 0\<rparr>"

definition rk_reach :: "'d rocks \<Rightarrow> 'd RocksDB \<Rightarrow> bool" where
  "rk_reach D s \<longleftrightarrow> btree_ok D \<and> (rk_step D)\<^sup>*\<^sup>* (rk_empty D) s"

text \<open>An empty database opens as the empty state.\<close>

lemma NewRocksDB_empty: "btree_ok (re_D E) \<Longrightarrow> NewRocksDB E NoSnapshot (bt_New (re_D E)) = Some (rk_empty (re_D E))"
  by (auto simp: NewRocksDB_def rk_reload_def rk_loadSnapshot_def rk_empty_def loadCurrentRevision_def rk_get_def btree_simps(1))

lemma rk_ok_empty: "btree_ok D \<Longrightarrow> rk_ok D (rk_empty D)"
  by (simp add: rk_ok_def rk_empty_def db_ok_def btree_simps(1))

lemma rk_ok_rk_put:
  assumes "rk_ok (re_D E) s" "rk_put E dk v (rk_db s) = Some db" "good_op (cachedRevision s) (WPut dk v)"
  shows "rk_ok (re_D E) (s\<lparr>rk_db := db\<rparr>)"
  using assms db_ok_op[of "re_D E" "cachedRevision s" "rk_db s" "WPut dk v"] by (auto simp: rk_ok_def rk_put_def split: if_splits)

lemma drop_leases_ok:
  "btree_ok (re_D E) \<Longrightarrow> db_ok (re_D E) r (fst st) \<Longrightarrow> db_ok (re_D E) r (fst (fold (drop_lease E) es st))"
proof (induction es arbitrary: st)
  case (Cons e es)
  have "db_ok (re_D E) r (fst (drop_lease E e st))"
    using Cons.prems db_ok_op[of "re_D E" r "fst st" "WDelete (fst e)"]
    by (auto simp: drop_lease_def rk_delete_def split: sum.splits option.splits)
  then show ?case using Cons by simp
qed simp

lemma rk_step_ok:
  assumes "rk_step D s s'" "rk_ok D s"
  shows "rk_ok D s'"
  using assms
proof (induction rule: rk_step.induct)
  case (step_batch E ops s s')
  then show ?case using applyOperationsBatch_ok[of E s ops] by auto
next
  case (step_legacy E k v s s' err)
  then show ?case using putUnlocked_ok[of E s k v 0] by auto
next
  case (step_submit s c res mkOp)
  then show ?case by (auto simp: rk_submit_def rk_propose_def rk_forget_def rk_ok_def Let_def split: option.splits sum.splits propose_result.splits)
next
  case (step_txn s c res cmps thenOps elseOps)
  then show ?case
    by (auto simp: rk_Txn_start_def rk_submit_def rk_propose_def rk_forget_def rk_ok_def Let_def
        split: option.splits sum.splits propose_result.splits prod.splits)
next
  case (step_await res sq s s' err)
  then show ?case by (auto simp: rk_await_def rk_forget_def rk_ok_def split: wait_result.splits if_splits)
next
  case (step_txn_result res sq s s' r)
  then show ?case by (auto simp: rk_Txn_finish_def rk_await_def rk_forget_def rk_ok_def Let_def split: wait_result.splits if_splits)
next
  case (step_renew E s i)
  then show ?case using rk_ok_rk_put[of E s "leaseKey i"] by (auto simp: rk_LeaseRenew_def Let_def split: sum.splits option.splits)
next
  case (step_compact E s r)
  then show ?case
    using rk_ok_rk_put[of E s compactedKey] drop_leases_ok[of E "cachedRevision s"]
    by (auto simp: rk_Compact_def cleanupExpiredLeasesUnlocked_def setCompactedRevisionUnlocked_def rk_ok_def Let_def split: option.splits)
next
  case (step_slow i e s choice s')
  then show ?case by (auto simp: rk_slowSendEvent_def rk_CancelWatch_def rk_ok_def split: select_case.splits option.splits if_splits sum.splits)
next
  case (step_historical E i key rangeEnd s choice s')
  then show ?case by (auto simp: rk_sendHistoricalEvents_def rk_ok_def split: option.splits if_splits)
qed (auto simp: rk_WatchWithOptions_def rk_CancelWatch_def rk_ok_def Let_def split: if_splits option.splits)

lemma rk_reach_ok: "rk_reach D s \<Longrightarrow> rk_ok D s"
proof -
  assume r: "rk_reach D s"
  then have "(rk_step D)\<^sup>*\<^sup>* (rk_empty D) s" by (simp add: rk_reach_def)
  then show ?thesis by (induction rule: rtranclp_induct) (use r in \<open>auto simp: rk_reach_def rk_ok_empty intro: rk_step_ok\<close>)
qed

section \<open>Sample environment\<close>

definition sample_rocks :: "(string, string) rbt rocks_env" where
  "sample_rocks = \<lparr>re_D = rb_tree, get_fails = (\<lambda>_. False), put_fails = (\<lambda>_. False), write_fails = (\<lambda>_. False), re_now = 0,
     re_keys = (\<lambda>ks. ks), re_lease = \<lparr>pb_enabled = True, pb_Marshal = (\<lambda>_. None), pb_Unmarshal = (\<lambda>_. None),
       alt_Marshal = (\<lambda>_. None), alt_Unmarshal = (\<lambda>_. None)\<rparr>,
     re_gob = \<lparr>gob_int = (\<lambda>_. None), gob_kv = (\<lambda>_. None), gob_legacy = (\<lambda>_. None), gob_enc_map = (\<lambda>_. None), gob_dec_map = (\<lambda>_. None)\<rparr>\<rparr>"

lemma sample_rocks_ok [simp]: "quiet_env sample_rocks" "btree_ok (re_D sample_rocks)" "re_D sample_rocks = rb_tree"
  by (simp_all add: sample_rocks_def quiet_env_def)

lemma sample_reach [simp]: "rk_reach rb_tree (rk_empty rb_tree)"
  by (simp add: rk_reach_def)

lemma empty_view [simp]: "btree_ok D \<Longrightarrow> rk_view D (rk_db (rk_empty D)) = Map.empty" "cachedRevision (rk_empty D) = 0"
  by (simp_all add: fun_eq_iff rk_view_def entry_of_def rk_empty_def btree_simps(1))

lemma max_rev_num: "max_rev = 9223372036854775808"
  by (simp add: max_rev_def)

section \<open>Invariant and termination\<close>



text \<open>What is relied on of the protobuf runtime: an operation reads back, and is no \<^verbatim>\<open>RaftMessage\<close>.\<close>

definition rocks_codec_ok :: "rocks_codec \<Rightarrow> bool" where
  "rocks_codec_ok c \<longleftrightarrow>
     (\<forall>p data. op_Marshal c p = Some data \<longrightarrow> op_Unmarshal c data = Some p) \<and>
     (\<forall>p data. op_Marshal c p = Some data \<and> pb_Type p \<in> {''PUT'', ''DELETE'', ''LEASE_GRANT'', ''LEASE_REVOKE'', ''TXN''} \<longrightarrow>
        msg_Unmarshal c data = None)"

definition client_op :: "RaftOperation \<Rightarrow> bool" where
  "client_op opn \<longleftrightarrow> ro_Type opn \<in> {''PUT'', ''DELETE'', ''LEASE_GRANT'', ''LEASE_REVOKE'', ''TXN''}"

lemma from_to_proto_small:
  "small_raft_op (fromProto (toProto opn)) = small_raft_op opn" "weight (fromProto (toProto opn)) = weight opn"
  by (simp_all add: toProto_eq protoToRaftOperation_def raftOperationToProto_def small_raft_op_def weight_def list_all_iff small_op_def
      protoToOp_def opToProto_def ball_Un)

lemma rk_collect_ops:
  assumes "rocks_codec_ok c" "list_all client_op ops" "map (marshalRaftOperation c) ops = map Some datas"
  shows "rk_collect E c datas acc s = Some (acc @ map (\<lambda>opn. fromProto (toProto opn)) ops, s)"
  using assms(2,3)
proof (induction ops arbitrary: datas acc)
  case (Cons opn ops)
  obtain data rest where d: "datas = data # rest" "marshalRaftOperation c opn = Some data" using Cons.prems(2) by (cases datas) auto
  have m: "op_Marshal c (toProto opn) = Some data" using d by (simp add: marshalRaftOperation_def)
  have t: "pb_Type (toProto opn) \<in> {''PUT'', ''DELETE'', ''LEASE_GRANT'', ''LEASE_REVOKE'', ''TXN''}"
    using Cons.prems(1) by (auto simp: toProto_def client_op_def)
  have "unmarshalRaftMessage c data = None" "unmarshalRaftOperation c data = Some (fromProto (toProto opn))"
    using assms(1) m t unfolding rocks_codec_ok_def unmarshalRaftMessage_def unmarshalRaftOperation_def by auto
  then show ?case using Cons d by simp
qed simp

text \<open>
  C17: the commit handler of the RocksDB engine always returns. On every reachable state, for every commit that
  holds operations proposed by clients, it neither panics nor stops the process, whichever calls of the
  database fail, and the state it leaves is well formed again.
\<close>

theorem rocks_commit_returns:
  assumes "rk_reach (re_D E) s" "rocks_codec_ok c" "list_all client_op ops" "map (marshalRaftOperation c) ops = map Some datas"
    and "list_all small_raft_op ops" "cachedRevision s + sum_list (map weight ops) < max_rev"
  shows "\<exists>s'. rk_handle_commit E c file (Some datas) s = Some s' \<and> cachedRevision s \<le> cachedRevision s' \<and> rk_reach (re_D E) s'"
proof -
  let ?ops = "map (\<lambda>opn. fromProto (toProto opn)) ops"
  have sm: "list_all small_raft_op ?ops" "cachedRevision s + sum_list (map weight ?ops) < max_rev"
    using assms(5,6) by (simp_all add: list_all_iff from_to_proto_small comp_def)
  obtain s' where s': "applyOperationsBatch E ?ops s = Some s'" "cachedRevision s \<le> cachedRevision s'"
    using applyOperationsBatch_ok[OF rk_reach_ok[OF assms(1)] sm] by blast
  have "rk_step (re_D E) s s'" by (rule step_batch[OF refl sm s'(1)])
  then have "rk_reach (re_D E) s'" using assms(1) by (auto simp: rk_reach_def)
  moreover have "rk_handle_commit E c file (Some datas) s = Some s'"
    using rk_collect_ops[OF assms(2-4), of E "[]" s] s'(1) by (cases "ops = []") (auto simp: rk_handle_commit_def applyOperationsBatch_def)
  ultimately show ?thesis using s'(2) by blast
qed

definition sample_rocks_codec :: rocks_codec where
  "sample_rocks_codec = \<lparr>op_Marshal = (\<lambda>p. if p = toProto (put_operation ''a'' ''1'' 0 ''s'') then Some ''d'' else None),
     op_Unmarshal = (\<lambda>d. if d = ''d'' then Some (toProto (put_operation ''a'' ''1'' 0 ''s'')) else None),
     msg_Marshal = (\<lambda>_. None), msg_Unmarshal = (\<lambda>_. None)\<rparr>"

theorem rocks_commit_returns_witness:
  "\<exists>s'. rk_handle_commit sample_rocks sample_rocks_codec NoSnapshot (Some [''d'']) (rk_empty rb_tree) = Some s' \<and> 0 \<le> cachedRevision s'"
proof -
  have "list_all client_op [put_operation ''a'' ''1'' 0 ''s'']" "list_all small_raft_op [put_operation ''a'' ''1'' 0 ''s'']"
    "cachedRevision (rk_empty rb_tree) + sum_list (map weight [put_operation ''a'' ''1'' 0 ''s'']) < max_rev"
    "map (marshalRaftOperation sample_rocks_codec) [put_operation ''a'' ''1'' 0 ''s''] = map Some [''d'']"
    by (simp_all add: client_op_def small_raft_op_def small_put_def put_operation_def zero_raft_operation_def weight_def max_rev_num
        int64_range_def marshalRaftOperation_def sample_rocks_codec_def)
  moreover have "rocks_codec_ok sample_rocks_codec" by (simp add: rocks_codec_ok_def sample_rocks_codec_def)
  ultimately show ?thesis
    using rocks_commit_returns[of sample_rocks "rk_empty rb_tree" sample_rocks_codec "[put_operation ''a'' ''1'' 0 ''s'']" "[''d'']" NoSnapshot]
    by auto
qed

section \<open>Agreement with the specification\<close>

text \<open>
  C19: a range read on the RocksDB engine answers the sorted enumeration of the entries in the interval, cut at the
  limit, with its length as count and the current revision: the same specification as the in-memory engine,
  despite the early exits of the scan. The lease of the leader decides only whether the read is counted as fast.
\<close>

theorem rocks_Range_refines:
  assumes "rk_reach (re_D E) s" "quiet_env E"
  shows "\<exists>fast. rk_Range E node key rangeEnd limit r s = Some (spec_range key rangeEnd limit (rk_abs (re_D E) s), fast)"
  using local_range_spec[OF assms(2) rk_reach_ok[OF assms(1)]] by (auto simp: rk_Range_def)

theorem rocks_Range_refines_witness:
  "\<exists>fast. rk_Range sample_rocks None ''a'' zero_byte 0 0 (rk_empty rb_tree) = Some (spec_range ''a'' zero_byte 0 (0, Map.empty), fast)"
  using rocks_Range_refines[of sample_rocks "rk_empty rb_tree" None "''a''" zero_byte 0 0] by (simp add: rk_abs_def)


definition put_op_of :: "string \<Rightarrow> string \<Rightarrow> op" where
  "put_op_of k v = \<lparr>op_Type = OpPut, op_Key = k, op_RangeEnd = [], op_Value = v, op_Limit = 0, op_LeaseID = 0\<rparr>"

definition create_cmp :: "string \<Rightarrow> compare" where
  "create_cmp k = \<lparr>cmp_Target = CompareCreate, cmp_Result = CompareEqual, cmp_Key = k, cmp_TargetUnion = zero_union\<rparr>"




end
