(* ===== verification/Rocks_Deviations.thy ===== *)
theory Rocks_Deviations
  imports Rocks_Properties
begin

text \<open>
  Snapshots and recovery of the RocksDB engine, and where it departs from the log order and from its own
  formats: batches that read the database instead of the batch, scans and a revision decoded with gob although
  they are stored in binary form, and a recovery that clears the whole database.
\<close>

section \<open>Puts in a batch\<close>

definition bump :: "'d rocks_env \<Rightarrow> 'd RocksDB \<Rightarrow> 'd RocksDB" where
  "bump E s = s\<lparr>rk_db := apply_op (re_D E) (WPut revisionKey (PutUint64LE (uint64 (cachedRevision s + 1)))) (rk_db s),
     cachedRevision := cachedRevision s + 1\<rparr>"

definition put_kv :: "'d rocks_env \<Rightarrow> string \<Rightarrow> string \<Rightarrow> 'd RocksDB \<Rightarrow> key_value" where
  "put_kv E k v s = next_kv k v 0 (cachedRevision s + 1) (rk_view (re_D E) (rk_db s) k)"

lemma bump_ok:
  assumes "quiet_env E" "rk_ok (re_D E) s"
  shows "rk_ok (re_D E) (bump E s)" "rk_view (re_D E) (rk_db (bump E s)) = rk_view (re_D E) (rk_db s)" "cachedRevision (bump E s) = cachedRevision s + 1"
proof -
  have "incrementRevision E s = (bump E s, Inr (cachedRevision s + 1))" using assms(1) by (simp add: increment_quiet bump_def)
  then show "rk_ok (re_D E) (bump E s)" by (rule incrementRevision_ok(1)[OF assms(2)])
  show "rk_view (re_D E) (rk_db (bump E s)) = rk_view (re_D E) (rk_db s)" "cachedRevision (bump E s) = cachedRevision s + 1"
    using assms(2) by (simp_all add: bump_def fun_eq_iff rk_view_def rk_ok_def btree_simps(2))
qed

lemma prepare_put:
  assumes "quiet_env E" "rk_ok (re_D E) s"
  shows "prepare_op E (put_operation k v 0 q) (s, batch, events) =
    Some (bump E s, batch @ [WPut (kvPrefix @ k) (encodeKeyValue (put_kv E k v s))],
      events @ [put_event (cachedRevision s + 1) (put_kv E k v s) (rk_view (re_D E) (rk_db s) k)])"
proof -
  have "prev_kv E k (rk_db s) = Some (rk_view (re_D E) (rk_db s) k)" using assms by (auto simp: rk_ok_def intro: prev_kv_view)
  then show ?thesis using assms(1)
    by (simp add: prepare_op_def preparePutBatch_def increment_quiet put_ops_def put_kv_def bump_def put_operation_def
        zero_raft_operation_def Let_def)
qed

lemma put_kv_fits:
  assumes "rk_ok (re_D E) s" "small_put k v 0" "cachedRevision s + 1 < max_rev"
  shows "kv_fits (put_kv E k v s)"
proof -
  have db: "db_ok (re_D E) (cachedRevision s) (rk_db s)" and r: "0 \<le> cachedRevision s" using assms(1) by (auto simp: rk_ok_def)
  have pk: "kv_ok (cachedRevision s) k kv \<and> kv_fits kv" if "rk_view (re_D E) (rk_db s) k = Some kv" for kv
    using that rk_viewD[OF db] by blast
  show ?thesis using next_kv_fits(2)[OF pk assms(2) r assms(3), simplified] by (simp add: put_kv_def)
qed

text \<open>A batch that ends in the state \<open>s\<close> with the entries \<open>batch\<close> still to be written.\<close>

lemma batch_commit:
  assumes "quiet_env E" "ops \<noteq> []" "prepare_ops E ops (s, [], []) = Some (s1, batch, events)"
  shows "\<exists>s'. applyOperationsBatch E ops s = Some s' \<and> rk_db s' = fold (apply_op (re_D E)) batch (rk_db s1) \<and>
    cachedRevision s' = cachedRevision s1 \<and> rk_pendingTxnResults s' = rk_pendingTxnResults s1"
  using assms by (simp add: applyOperationsBatch_def)

lemma batch_one_put:
  assumes "quiet_env E" "rk_ok (re_D E) s" "small_put k v 0" "cachedRevision s + 1 < max_rev"
  shows "\<exists>s'. applyOperationsBatch E [put_operation k v 0 q] s = Some s' \<and> rk_ok (re_D E) s' \<and> rk_abs (re_D E) s' = spec_put k v 0 (rk_abs (re_D E) s) \<and>
    bt_Get (re_D E) (rk_db s') revisionKey = Some (PutUint64LE (uint64 (cachedRevision s + 1)))"
proof -
  have bt: "btree_ok (re_D E)" using assms(2) by (simp add: rk_ok_def)
  have sm: "list_all small_raft_op [put_operation k v 0 q]" "cachedRevision s + sum_list (map weight [put_operation k v 0 q]) < max_rev"
    using assms(3,4) by (simp_all add: small_raft_op_def put_operation_def zero_raft_operation_def weight_def)
  have "prepare_ops E [put_operation k v 0 q] (s, [], []) = Some (bump E s, [WPut (kvPrefix @ k) (encodeKeyValue (put_kv E k v s))],
      [put_event (cachedRevision s + 1) (put_kv E k v s) (rk_view (re_D E) (rk_db s) k)])"
    by (simp add: prepare_put[OF assms(1,2)])
  from batch_commit[OF assms(1) _ this] obtain s' where s': "applyOperationsBatch E [put_operation k v 0 q] s = Some s'"
    "rk_db s' = apply_op (re_D E) (WPut (kvPrefix @ k) (encodeKeyValue (put_kv E k v s))) (rk_db (bump E s))"
    "cachedRevision s' = cachedRevision s + 1" using bump_ok(3)[OF assms(1,2)] by auto
  have "rk_ok (re_D E) s'" using applyOperationsBatch_ok[OF assms(2) sm] s'(1) by auto
  moreover have "rk_abs (re_D E) s' = spec_put k v 0 (rk_abs (re_D E) s)"
    using view_after(1)[OF bt put_kv_fits[OF assms(2-4)], of k] bump_ok(2)[OF assms(1,2)] s'(2,3)
    by (simp add: rk_abs_def put_kv_def del: apply_op.simps)
  moreover have "bt_Get (re_D E) (rk_db s') revisionKey = Some (PutUint64LE (uint64 (cachedRevision s + 1)))"
    using s'(2) by (simp add: btree_simps(2)[OF bt] bump_def)
  ultimately show ?thesis using s'(1) by blast
qed

text \<open>
  The contents of the RocksDB engine depend on how the log is cut into batches. Two puts of a new key that are
  committed together leave the second value with version 1 and its own revision as create revision; committed one
  after the other they leave version 2 and the create revision of the first put, as a log replayed one
  by one requires. Replicas that receive the same log in different batches hold different entries.
\<close>

theorem rocks_batch_repeated_key:
  assumes "rk_reach (re_D E) s" "quiet_env E" "rk_view (re_D E) (rk_db s) k = None"
    and "small_put k v 0" "small_put k w 0" "cachedRevision s + 2 < max_rev"
  shows "\<exists>s1 s2. applyOperationsBatch E [put_operation k v 0 q, put_operation k w 0 q'] s = Some s1 \<and>
    Option.bind (applyOperationsBatch E [put_operation k v 0 q] s) (applyOperationsBatch E [put_operation k w 0 q']) = Some s2 \<and>
    rk_view (re_D E) (rk_db s1) k = Some \<lparr>kv_Key = k, kv_Value = w, kv_CreateRevision = cachedRevision s + 2,
      kv_ModRevision = cachedRevision s + 2, kv_Version = 1, kv_Lease = 0\<rparr> \<and>
    rk_view (re_D E) (rk_db s2) k = Some \<lparr>kv_Key = k, kv_Value = w, kv_CreateRevision = cachedRevision s + 1,
      kv_ModRevision = cachedRevision s + 2, kv_Version = 2, kv_Lease = 0\<rparr>"
proof -
  note ok = rk_reach_ok[OF assms(1)]
  have bt: "btree_ok (re_D E)" using assms(1) by (simp add: rk_reach_def)
  have r: "cachedRevision s + 1 < max_rev" using assms(6) by simp
  note b = bump_ok[OF assms(2) ok]
  let ?op = "\<lambda>v s. WPut (kvPrefix @ k) (encodeKeyValue (put_kv E k v s))"
  obtain events where "prepare_ops E [put_operation k v 0 q, put_operation k w 0 q'] (s, [], []) =
      Some (bump E (bump E s), [?op v s, ?op w (bump E s)], events)"
    by (simp add: prepare_put[OF assms(2) ok] prepare_put[OF assms(2) b(1)])
  from batch_commit[OF assms(2) _ this] obtain s1 where
    s1: "applyOperationsBatch E [put_operation k v 0 q, put_operation k w 0 q'] s = Some s1"
      "rk_db s1 = apply_op (re_D E) (?op w (bump E s)) (apply_op (re_D E) (?op v s) (rk_db (bump E (bump E s))))" by auto
  have "kv_fits (put_kv E k w (bump E s))" using put_kv_fits[OF b(1) assms(5)] assms(6) b(3) by simp
  then have v1: "rk_view (re_D E) (rk_db s1) k = Some (put_kv E k w (bump E s))"
    using s1(2) by (simp add: view_after(1)[OF bt] del: apply_op.simps)
  obtain t where t: "applyOperationsBatch E [put_operation k v 0 q] s = Some t" "rk_ok (re_D E) t"
      "rk_abs (re_D E) t = spec_put k v 0 (rk_abs (re_D E) s)"
    using batch_one_put[OF assms(2) ok assms(4) r] by blast
  then have ct: "cachedRevision t = cachedRevision s + 1" by (simp add: rk_abs_def)
  obtain s2 where s2: "applyOperationsBatch E [put_operation k w 0 q'] t = Some s2"
      "rk_abs (re_D E) s2 = spec_put k w 0 (rk_abs (re_D E) t)"
    using batch_one_put[OF assms(2) t(2) assms(5)] assms(6) ct by auto
  have "rk_view (re_D E) (rk_db s2) k = snd (spec_put k w 0 (spec_put k v 0 (rk_abs (re_D E) s))) k"
    using s2(2) t(3) by (metis rk_abs_def snd_conv)
  then show ?thesis
    using s1(1) t(1) s2(1) v1 b(2,3) assms(3) by (auto simp: rk_abs_def put_kv_def next_kv_def)
qed

theorem rocks_batch_repeated_key_witness:
  "\<exists>s1 s2. applyOperationsBatch sample_rocks [put_operation ''a'' ''1'' 0 [], put_operation ''a'' ''2'' 0 []] (rk_empty rb_tree) = Some s1 \<and>
     Option.bind (applyOperationsBatch sample_rocks [put_operation ''a'' ''1'' 0 []] (rk_empty rb_tree))
       (applyOperationsBatch sample_rocks [put_operation ''a'' ''2'' 0 []]) = Some s2 \<and>
     rk_view rb_tree (rk_db s1) ''a'' \<noteq> rk_view rb_tree (rk_db s2) ''a''"
proof -
  have "small_put ''a'' ''1'' 0" "small_put ''a'' ''2'' 0" by (simp_all add: small_put_def int64_range_def)
  then show ?thesis
    using rocks_batch_repeated_key[of sample_rocks "rk_empty rb_tree" "''a''" "''1''" "''2''" "[]" "[]"] by (auto simp: max_rev_num)
qed

text \<open>
  C22: a transaction in a batch of the RocksDB engine does not see the puts before it, and they overwrite it. A put of
  a new key and a transaction that creates the key if it is absent, committed together: the transaction
  reports success, yet the entry that remains is the one of the put, with an older revision. Committed one after the
  other, the transaction fails as it should.
\<close>

theorem rocks_batch_txn_lost_update:
  assumes "rk_reach (re_D E) s" "quiet_env E" "rk_view (re_D E) (rk_db s) k = None" "q' \<noteq> []"
    and "small_put k v 0" "small_put k w 0" "cachedRevision s + 2 < max_rev"
  shows "\<exists>s1 s2 resp1 resp2.
    applyOperationsBatch E [put_operation k v 0 q, txn_operation [create_cmp k] [put_op_of k w] [] q'] s = Some s1 \<and>
    gm_get (rk_pendingTxnResults s1) q' = Some resp1 \<and> tr_Succeeded resp1 \<and> tr_Revision resp1 = cachedRevision s + 2 \<and>
    rk_view (re_D E) (rk_db s1) k = Some \<lparr>kv_Key = k, kv_Value = v, kv_CreateRevision = cachedRevision s + 1,
      kv_ModRevision = cachedRevision s + 1, kv_Version = 1, kv_Lease = 0\<rparr> \<and>
    Option.bind (applyOperationsBatch E [put_operation k v 0 q] s)
      (applyOperationsBatch E [txn_operation [create_cmp k] [put_op_of k w] [] q']) = Some s2 \<and>
    gm_get (rk_pendingTxnResults s2) q' = Some resp2 \<and> \<not> tr_Succeeded resp2"
proof -
  note ok = rk_reach_ok[OF assms(1)]
  have bt: "btree_ok (re_D E)" using assms(1) by (simp add: rk_reach_def)
  have r0: "0 \<le> cachedRevision s" using ok by (simp add: rk_ok_def)
  have r: "cachedRevision s + 1 < max_rev" using assms(7) by simp
  note b = bump_ok[OF assms(2) ok]
  let ?txn = "txn_operation [create_cmp k] [put_op_of k w] [] q'"
  have p: "list_all plain_op ([put_op_of k w] @ [])" using assms(6) by (simp add: plain_op_def small_op_def put_op_of_def)
  have spec: "\<exists>s' resp. prepare_op E ?txn (t, wb, es) = Some (save_txn_result ?txn (Inr resp) s', wb, es) \<and>
      spec_txn (\<lambda>_. True) [create_cmp k] [put_op_of k w] [] (rk_abs (re_D E) t) = (rk_abs (re_D E) s', Some resp)"
    if t: "rk_ok (re_D E) t" "cachedRevision t = cachedRevision s + 1" for t wb es
    using rk_txn_spec[OF assms(2) t(1) p, of "[create_cmp k]" "\<lambda>_. True"] assms(7) t(2)
    by (auto simp: prepare_op_def txn_operation_def zero_raft_operation_def)
  let ?op = "WPut (kvPrefix @ k) (encodeKeyValue (put_kv E k v s))"
  let ?es = "[put_event (cachedRevision s + 1) (put_kv E k v s) (rk_view (re_D E) (rk_db s) k)]"
  obtain s' resp1 where s': "prepare_op E ?txn (bump E s, [?op], ?es) = Some (save_txn_result ?txn (Inr resp1) s', [?op], ?es)"
      "spec_txn (\<lambda>_. True) [create_cmp k] [put_op_of k w] [] (rk_abs (re_D E) (bump E s)) = (rk_abs (re_D E) s', Some resp1)"
    using spec[OF b(1,3)] by blast
  have "prepare_ops E [put_operation k v 0 q, ?txn] (s, [], []) = Some (save_txn_result ?txn (Inr resp1) s', [?op], ?es)"
    using s'(1) by (simp add: prepare_put[OF assms(2) ok])
  from batch_commit[OF assms(2) _ this] obtain s1 where s1: "applyOperationsBatch E [put_operation k v 0 q, ?txn] s = Some s1"
      "rk_db s1 = apply_op (re_D E) ?op (rk_db s')" "rk_pendingTxnResults s1 = rk_pendingTxnResults (save_txn_result ?txn (Inr resp1) s')" by auto
  have resp1: "tr_Succeeded resp1" "tr_Revision resp1 = cachedRevision s + 2"
    using s'(2) b(2,3) assms(3) by (auto simp: spec_txn_def spec_op_def create_cmp_def put_op_of_def zero_union_def rk_abs_def)
  have saved: "gm_get (rk_pendingTxnResults (save_txn_result ?txn (Inr x) t)) q' = Some x" for x t
    using assms(4) by (simp add: save_txn_result_def txn_operation_def zero_raft_operation_def gomap_simps)
  have v1: "rk_view (re_D E) (rk_db s1) k = Some (put_kv E k v s)"
    using s1(2) by (simp add: view_after(1)[OF bt put_kv_fits[OF ok assms(5) r]] del: apply_op.simps)
  obtain t where t: "applyOperationsBatch E [put_operation k v 0 q] s = Some t" "rk_ok (re_D E) t"
      "rk_abs (re_D E) t = spec_put k v 0 (rk_abs (re_D E) s)"
    using batch_one_put[OF assms(2) ok assms(5) r] by blast
  then have ct: "cachedRevision t = cachedRevision s + 1" by (simp add: rk_abs_def)
  obtain s'' resp2 where s'': "prepare_op E ?txn (t, [], []) = Some (save_txn_result ?txn (Inr resp2) s'', [], [])"
      "spec_txn (\<lambda>_. True) [create_cmp k] [put_op_of k w] [] (rk_abs (re_D E) t) = (rk_abs (re_D E) s'', Some resp2)"
    using spec[OF t(2) ct] by blast
  obtain s2 where s2: "applyOperationsBatch E [?txn] t = Some s2" "rk_pendingTxnResults s2 = rk_pendingTxnResults (save_txn_result ?txn (Inr resp2) s'')"
    using batch_commit[OF assms(2), of "[?txn]" t] s''(1) by auto
  have "\<not> tr_Succeeded resp2"
    using s''(2) t(3) assms(3) r0 by (auto simp: spec_txn_def spec_op_def create_cmp_def zero_union_def rk_abs_def next_kv_def)
  then show ?thesis
    using s1(1,3) resp1 v1 t(1) s2 saved assms(3) by (auto simp: put_kv_def next_kv_def)
qed

theorem rocks_batch_txn_lost_update_witness:
  "\<exists>s1 resp. applyOperationsBatch sample_rocks [put_operation ''a'' ''1'' 0 [], txn_operation [create_cmp ''a''] [put_op_of ''a'' ''2''] [] ''t'']
       (rk_empty rb_tree) = Some s1 \<and>
     gm_get (rk_pendingTxnResults s1) ''t'' = Some resp \<and> tr_Succeeded resp \<and>
     map_option kv_Value (rk_view rb_tree (rk_db s1) ''a'') = Some ''1''"
proof -
  have "small_put ''a'' ''1'' 0" "small_put ''a'' ''2'' 0" by (simp_all add: small_put_def int64_range_def)
  then show ?thesis
    using rocks_batch_txn_lost_update[of sample_rocks "rk_empty rb_tree" "''a''" "''t''" "''1''" "''2''" "[]"] by (auto simp: max_rev_num)
qed

section \<open>Gob headers\<close>

text \<open>
  The start of a gob stream, as the package documents it: an unsigned number is one byte up to 127, or the negated
  count of the big-endian bytes that follow. A message is its length and then its type, a signed number with
  the sign in the lowest bit. A type definition has a negative number and comes before the first value of
  a struct; an integer has type 2.
\<close>

definition gob_uint :: "string \<Rightarrow> (nat \<times> string) option" where
  "gob_uint s =
     (case s of
        [] \<Rightarrow> None
      | b # bs \<Rightarrow>
          if of_char b < (128 :: nat) then Some (of_char b, bs)
          else let n = 256 - of_char b
               in if 8 < n \<or> length bs < n then None else Some (be_val (take n bs), drop n bs))"

definition gob_header :: "string \<Rightarrow> int option" where
  "gob_header s =
     (case gob_uint s of
        None \<Rightarrow> None
      | Some (n, rest) \<Rightarrow>
          if length rest < n then None
          else (case gob_uint (take n rest) of
                  None \<Rightarrow> None
                | Some (u, _) \<Rightarrow> Some (if even u then int (u div 2) else - int (u div 2) - 1)))"

definition gob_headers_ok :: "rocks_gob \<Rightarrow> bool" where
  "gob_headers_ok g \<longleftrightarrow>
     (\<forall>data kv. gob_kv g data = Some kv \<longrightarrow> (\<exists>t < 0. gob_header data = Some t)) \<and>
     (\<forall>data n. gob_int g data = Some n \<longrightarrow> gob_header data = Some 2)"

lemma gob_header_zero:
  assumes "(n :: nat) < 248"
  shows "gob_header (char_of n # char_of (0 :: nat) # s) \<in> {None, Some 0}"
proof -
  have n: "(of_char (char_of n :: char) :: nat) = n" using assms by simp
  have z: "(of_char (char_of (0 :: nat) :: char) :: nat) = 0" by simp
  show ?thesis
  proof (cases "n < 128")
    case True
    have "gob_uint (take n (char_of (0 :: nat) # s)) \<in> {None, Some (0, take (n - 1) s)}"
      using z by (cases n) (simp_all add: gob_uint_def)
    then show ?thesis using True n by (auto simp: gob_header_def gob_uint_def)
  next
    case False
    then have "gob_uint (char_of n # char_of (0 :: nat) # s) = None" using assms n by (simp add: gob_uint_def Let_def less_diff_conv)
    then show ?thesis by (simp add: gob_header_def)
  qed
qed

lemma gob_header_large:
  assumes "8 \<le> (n :: nat)" "n < 248" "length s < 8"
  shows "gob_header (char_of n # s) = None"
proof -
  have n: "(of_char (char_of n :: char) :: nat) = n" using assms by simp
  show ?thesis
  proof (cases "n < 128")
    case True
    then show ?thesis using assms n by (simp add: gob_header_def gob_uint_def)
  next
    case False
    then have "gob_uint (char_of n # s) = None" using assms n by (simp add: gob_uint_def Let_def less_diff_conv)
    then show ?thesis by (simp add: gob_header_def)
  qed
qed

text \<open>The two formats of the engine.\<close>

lemma le_bytes_split:
  "rev (be_bytes (Suc (Suc w)) n) = char_of (n mod 256) # char_of (n div 256 mod 256) # rev (be_bytes w (n div 256 div 256))"
  by simp

lemma gob_header_entry:
  assumes "length (kv_Key kv) < 248"
  shows "gob_header (encodeKeyValue kv) \<in> {None, Some 0}"
proof -
  have "PutUint32LE n = char_of (n mod 256) # char_of (n div 256 mod 256) # rev (be_bytes 2 (n div 256 div 256))" for n
    using le_bytes_split[of 2 n] by (simp add: PutUint32LE_def)
  then have "\<exists>rest. encodeKeyValue kv = char_of (length (kv_Key kv)) # char_of (0 :: nat) # rest"
    using assms by (simp add: encodeKeyValue_def)
  then show ?thesis using gob_header_zero[OF assms] by metis
qed

lemma gob_header_revision:
  assumes "n < 248 \<or> 8 \<le> n mod 256 \<and> n mod 256 < 248"
  shows "gob_header (PutUint64LE n) \<in> {None, Some 0}"
proof -
  have b: "PutUint64LE n = char_of (n mod 256) # char_of (n div 256 mod 256) # rev (be_bytes 6 (n div 256 div 256))"
    using le_bytes_split[of 6 n] by (simp add: PutUint64LE_def)
  show ?thesis
  proof (cases "n < 248")
    case True
    then show ?thesis using gob_header_zero[OF True] b by simp
  next
    case False
    then show ?thesis using gob_header_large[of "n mod 256" "char_of (n div 256 mod 256) # rev (be_bytes 6 (n div 256 div 256))"] assms b by simp
  qed
qed

text \<open>
  C23: deleting a range on the RocksDB engine deletes nothing. The scan decodes the entries with gob, but they are
  stored in binary form; so it finds none, and the call answers zero deletions without proposing the operation,
  whatever the range contains. Keys are shorter than 248 bytes.
\<close>

theorem rocks_range_delete_does_nothing:
  assumes "rk_reach (re_D E) s" "gob_headers_ok (re_gob E)" "rangeEnd \<noteq> []"
    and "\<forall>k \<in> dom (rk_view (re_D E) (rk_db s)). length k < 248"
  shows "rk_DeleteRange_start E c res key rangeEnd s = Some (s, Inr (Inl (0, [], cachedRevision s)))"
proof -
  have ok: "rk_ok (re_D E) s" by (rule rk_reach_ok[OF assms(1)])
  then have bt: "btree_ok (re_D E)" and db: "db_ok (re_D E) (cachedRevision s) (rk_db s)" by (auto simp: rk_ok_def)
  have scan: "e \<in> set (scan_range key rangeEnd es) \<Longrightarrow> e \<in> set es \<and> has_prefix kvPrefix (fst e)" for e es
    by (induction key rangeEnd es rule: scan_range.induct) (auto simp: Let_def split: if_splits)
  have "gob_kv (re_gob E) v = None" if m: "(dk, v) \<in> set (scan_range key rangeEnd (rk_seek E (kvPrefix @ key) (rk_db s)))" for dk v
  proof -
    obtain k where k: "dk = kvPrefix @ k" using scan[OF m] by (auto simp: has_prefix_iff)
    then have "bt_Get (re_D E) (rk_db s) (kvPrefix @ k) = Some v" using scan[OF m] seek_mem[OF bt] by auto
    from db_ok_decode[OF db this] obtain kv where kv: "v = encodeKeyValue kv" "kv_ok (cachedRevision s) k kv" "kv_fits kv" by metis
    then have "rk_view (re_D E) (rk_db s) k = Some kv" using rk_viewD[OF db] \<open>bt_Get _ _ _ = _\<close> by simp
    then have "length (kv_Key kv) < 248" using assms(4) kv(2) by (auto simp: kv_ok_def)
    from gob_header_entry[OF this] kv(1) assms(2) show ?thesis unfolding gob_headers_ok_def
      by (cases "gob_kv (re_gob E) v") force+
  qed
  then have "found_kvs (gob_scan E key rangeEnd (rk_db s)) = []" by (auto simp: found_kvs_def gob_scan_def filter_empty_conv)
  then show ?thesis using assms(3) by (simp add: rk_DeleteRange_start_def rk_delete_kvs_def rk_CurrentRevision_def)
qed

lemma sample_rocks_gob: "gob_headers_ok (re_gob sample_rocks)"
  by (simp add: gob_headers_ok_def sample_rocks_def)

lemma sample_put:
  obtains s where "applyOperationsBatch sample_rocks [put_operation ''a'' ''1'' 0 []] (rk_empty rb_tree) = Some s" "rk_reach rb_tree s"
    "rk_abs rb_tree s = spec_put ''a'' ''1'' 0 (0, Map.empty)"
proof -
  have sm: "small_put ''a'' ''1'' 0" by (simp add: small_put_def int64_range_def)
  obtain s where s: "applyOperationsBatch sample_rocks [put_operation ''a'' ''1'' 0 []] (rk_empty rb_tree) = Some s"
      "rk_abs rb_tree s = spec_put ''a'' ''1'' 0 (rk_abs rb_tree (rk_empty rb_tree))"
    using batch_one_put[OF sample_rocks_ok(1) _ sm, of "rk_empty rb_tree" "[]"] rk_ok_empty[of rb_tree] by (auto simp: max_rev_num)
  have "rk_step rb_tree (rk_empty rb_tree) s"
    by (rule step_batch[OF sample_rocks_ok(3) _ _ s(1)])
      (use sm in \<open>simp_all add: small_raft_op_def put_operation_def zero_raft_operation_def weight_def max_rev_num\<close>)
  then show ?thesis using that s by (auto simp: rk_reach_def rk_abs_def)
qed

theorem rocks_range_delete_does_nothing_witness:
  "\<exists>s. applyOperationsBatch sample_rocks [put_operation ''a'' ''1'' 0 []] (rk_empty rb_tree) = Some s \<and>
     rk_view rb_tree (rk_db s) ''a'' \<noteq> None \<and>
     rk_DeleteRange_start sample_rocks sample_rocks_codec ProposeSent ''a'' zero_byte s = Some (s, Inr (Inl (0, [], 1)))"
proof -
  obtain s where s: "applyOperationsBatch sample_rocks [put_operation ''a'' ''1'' 0 []] (rk_empty rb_tree) = Some s" "rk_reach rb_tree s"
    "rk_abs rb_tree s = spec_put ''a'' ''1'' 0 (0, Map.empty)" by (rule sample_put)
  then have v: "cachedRevision s = 1" "dom (rk_view rb_tree (rk_db s)) = {''a''}" by (auto simp: rk_abs_def)
  then have "rk_view rb_tree (rk_db s) ''a'' \<noteq> None" by auto
  then show ?thesis
    using s(1,2) v rocks_range_delete_does_nothing[of sample_rocks s zero_byte sample_rocks_codec ProposeSent "''a''"] sample_rocks_gob
    by (auto simp: zero_byte_def)
qed

section \<open>Restart and recovery\<close>

text \<open>
  A restarted node forgets its revision. The revision is written as eight little-endian bytes and read as gob; so
  after a put at revision \<open>r\<close> the node that opens the same database starts at revision 0, while the
  entry keeps the modification revision \<open>r\<close>. The statement is for the revisions up to 247 and all those
  whose lowest byte is from 8 to 247, where the bytes are no gob integer.
\<close>

theorem rocks_restart_forgets_revision:
  assumes "rk_reach (re_D E) s" "quiet_env E" "gob_headers_ok (re_gob E)" "small_put k v 0"
    and "r = cachedRevision s + 1" "r < max_rev" "r < 248 \<or> 8 \<le> r mod 256 \<and> r mod 256 < 248"
  shows "\<exists>s' t. applyOperationsBatch E [put_operation k v 0 q] s = Some s' \<and> NewRocksDB E NoSnapshot (rk_db s') = Some t \<and>
    cachedRevision s' = r \<and> cachedRevision t = 0 \<and> map_option kv_ModRevision (rk_view (re_D E) (rk_db t) k) = Some r"
proof -
  note ok = rk_reach_ok[OF assms(1)]
  obtain s' where s': "applyOperationsBatch E [put_operation k v 0 q] s = Some s'" "rk_abs (re_D E) s' = spec_put k v 0 (rk_abs (re_D E) s)"
      "bt_Get (re_D E) (rk_db s') revisionKey = Some (PutUint64LE (uint64 r))"
    using batch_one_put[OF assms(2) ok assms(4)] assms(5,6) by blast
  have r: "0 < r" using ok assms(5) by (simp add: rk_ok_def)
  then have "uint64 r = nat r" using assms(6) by (simp add: uint64_def max_rev_num)
  moreover have "nat r mod 256 = nat (r mod 256)" using r by (simp add: nat_mod_distrib)
  ultimately have "gob_header (PutUint64LE (uint64 r)) \<in> {None, Some 0}"
    using assms(7) by (intro gob_header_revision) (auto simp: nat_less_iff nat_le_iff le_nat_iff)
  then have "gob_int (re_gob E) (PutUint64LE (uint64 r)) = None"
    using assms(3) unfolding gob_headers_ok_def by (cases "gob_int (re_gob E) (PutUint64LE (uint64 r))") force+
  then have "loadCurrentRevision E (rk_db s') = 0" using s'(3) assms(2) by (simp add: loadCurrentRevision_def)
  moreover have "cachedRevision s' = r" "map_option kv_ModRevision (rk_view (re_D E) (rk_db s') k) = Some r"
    using s'(2) assms(5) by (auto simp: rk_abs_def next_kv_def split: option.splits)
  ultimately show ?thesis using s'(1) by (simp add: NewRocksDB_def rk_reload_def rk_loadSnapshot_def)
qed

theorem rocks_restart_forgets_revision_witness:
  "\<exists>s' t. applyOperationsBatch sample_rocks [put_operation ''a'' ''1'' 0 []] (rk_empty rb_tree) = Some s' \<and>
     NewRocksDB sample_rocks NoSnapshot (rk_db s') = Some t \<and> cachedRevision s' = 1 \<and> cachedRevision t = 0 \<and>
     map_option kv_ModRevision (rk_view rb_tree (rk_db t) ''a'') = Some 1"
proof -
  have "small_put ''a'' ''1'' 0" by (simp add: small_put_def int64_range_def)
  then show ?thesis
    using rocks_restart_forgets_revision[of sample_rocks "rk_empty rb_tree" "''a''" "''1''" 1 "[]"] sample_rocks_gob by (simp add: max_rev_num)
qed

text \<open>What is relied on of gob for a map: it reads back with the same entries, in any order.\<close>

definition gob_map_ok :: "rocks_gob \<Rightarrow> bool" where
  "gob_map_ok g \<longleftrightarrow> (\<forall>m data. gm_wf m \<and> gob_enc_map g m = Some data \<longrightarrow> (\<exists>m'. gob_dec_map g data = Some m' \<and> gm_wf m' \<and> gm_get m' = gm_get m))"

lemma batch_map_deletes: "batch_map (map (\<lambda>(k, v). WDelete k) es) m k = (if k \<in> fst ` set es then None else m k)"
  by (induction es arbitrary: m) auto

lemma batch_map_puts: "gm_wf es \<Longrightarrow> batch_map (map (\<lambda>(k, v). WPut k v) es) m k = (case gm_get es k of None \<Rightarrow> m k | Some v \<Rightarrow> Some v)"
proof (induction es arbitrary: m)
  case (Cons e es)
  then have "gm_get es (fst e) = None" by (simp add: map_of_eq_None_iff)
  then show ?case using Cons by (cases e) (auto split: option.splits)
qed simp

text \<open>Recovery leaves exactly the entries of the snapshot.\<close>

lemma recover_contents:
  assumes "btree_ok (re_D E)" "quiet_env E" "gob_dec_map (re_gob E) data = Some m" "gm_wf m"
  shows "\<exists>t'. rk_handle_commit E c (Loaded data) None t = Some t' \<and> bt_Get (re_D E) (rk_db t') = gm_get m \<and> cachedRevision t' = cachedRevision t"
proof -
  let ?wb = "map (\<lambda>(k, v). WDelete k) (bt_Ascend (re_D E) (rk_db t)) @ map (\<lambda>(k, v). WPut k v) m"
  have "bt_Get (re_D E) (rk_db t) k = None" if "k \<notin> fst ` set (bt_Ascend (re_D E) (rk_db t))" for k
    using that btree_simps(4)[OF assms(1)] by (cases "bt_Get (re_D E) (rk_db t) k") force+
  then have "bt_Get (re_D E) (fold (apply_op (re_D E)) ?wb (rk_db t)) = gm_get m"
    unfolding batch_effect[OF assms(1)] by (auto simp: fun_eq_iff batch_map_puts[OF assms(4)] batch_map_deletes split: option.splits)
  then show ?thesis using assms(2,3) by (simp add: rk_handle_commit_def rk_reload_def rk_loadSnapshot_def rk_recoverFromSnapshot_def)
qed

text \<open>
  C21: a snapshot of the RocksDB engine restores the database. A node that is told to load it, whatever its
  state, has exactly the contents of the node that took it; its cached revision is still the old one.
\<close>

theorem rocks_snapshot_restores:
  assumes "btree_ok (re_D E)" "quiet_env E" "gob_map_ok (re_gob E)" "rk_GetSnapshot E s = Some data"
  shows "\<exists>t'. rk_handle_commit E c (Loaded data) None t = Some t' \<and> bt_Get (re_D E) (rk_db t') = bt_Get (re_D E) (rk_db s) \<and>
    rk_view (re_D E) (rk_db t') = rk_view (re_D E) (rk_db s) \<and> cachedRevision t' = cachedRevision t"
proof -
  let ?es = "bt_Ascend (re_D E) (rk_db s)"
  have wf: "gm_wf ?es" by (rule btree_simps(7)[OF assms(1)])
  then have "gob_enc_map (re_gob E) ?es = Some data" using assms(4) leases_copy[of ?es] by (simp add: rk_GetSnapshot_def)
  then obtain m where m: "gob_dec_map (re_gob E) data = Some m" "gm_wf m" "gm_get m = gm_get ?es"
    using assms(3) wf unfolding gob_map_ok_def by blast
  have "gm_get ?es k = bt_Get (re_D E) (rk_db s) k" for k
    using btree_simps(4)[OF assms(1)] btree_simps(7)[OF assms(1)]
    by (cases "bt_Get (re_D E) (rk_db s) k") (auto simp: map_of_eq_None_iff)
  then show ?thesis using recover_contents[OF assms(1,2) m(1,2), of c t] m(3) by (auto simp: fun_eq_iff rk_view_def)
qed

definition sample_gob_rocks :: "(string, string) rbt rocks_env" where
  "sample_gob_rocks = sample_rocks\<lparr>re_gob := (re_gob sample_rocks)\<lparr>gob_enc_map := (\<lambda>m. case m of [(k, v)] \<Rightarrow> if k = ''kv:a'' then Some v else None | _ \<Rightarrow> None),
     gob_dec_map := (\<lambda>data. Some [(''kv:a'', data)])\<rparr>\<rparr>"

lemma sample_gob_rocks_ok:
  "quiet_env sample_gob_rocks" "re_D sample_gob_rocks = rb_tree" "gob_map_ok (re_gob sample_gob_rocks)"
  by (auto simp: sample_gob_rocks_def sample_rocks_def quiet_env_def gob_map_ok_def split: list.splits if_splits)

theorem rocks_snapshot_restores_witness:
  "\<exists>t'. rk_GetSnapshot sample_gob_rocks ((rk_empty rb_tree)\<lparr>rk_db := RBT.insert ''kv:a'' ''x'' RBT.empty\<rparr>) = Some ''x'' \<and>
     rk_handle_commit sample_gob_rocks sample_rocks_codec (Loaded ''x'') None (rk_empty rb_tree) = Some t' \<and>
     bt_Get rb_tree (rk_db t') = [''kv:a'' \<mapsto> ''x'']"
proof -
  let ?s = "(rk_empty rb_tree)\<lparr>rk_db := RBT.insert ''kv:a'' ''x'' RBT.empty\<rparr>"
  have "bt_Ascend rb_tree (rk_db ?s) = [(''kv:a'', ''x'')]" by (simp add: rb_tree_def) code_simp
  then have "rk_GetSnapshot sample_gob_rocks ?s = Some ''x''"
    by (simp add: rk_GetSnapshot_def sample_gob_rocks_ok(2)) (simp add: sample_gob_rocks_def)
  moreover have "bt_Get rb_tree (rk_db ?s) = [''kv:a'' \<mapsto> ''x'']" by (simp add: rb_tree_def)
  ultimately show ?thesis
    using rocks_snapshot_restores[of sample_gob_rocks ?s "''x''" sample_rocks_codec "rk_empty rb_tree"] sample_gob_rocks_ok by auto
qed

text \<open>
  Loading a snapshot erases the Raft log of the node. The log is kept in the same database, and the recovery
  deletes every key of it; so, unless the snapshot happens to hold the index marks of this very node, the node
  that opens its log again finds an empty one, whatever it held before.
\<close>

theorem rocks_recovery_erases_raft_log:
  assumes "btree_ok (re_D E)" "quiet_env E" "io_ok io" "gob_dec_map (re_gob E) data = Some m" "gm_wf m"
    and "gm_get m (prefixedKey node firstIndexKey) = None" "gm_get m (prefixedKey node lastIndexKey) = None"
  shows "\<exists>t' db' st. rk_handle_commit E c (Loaded data) None t = Some t' \<and> NewRocksDBStorage io (re_D E) node (rk_db t') = (db', Inr st) \<and>
    firstIndex st = 1 \<and> lastIndex st = 0 \<and> log_entries (re_D E) C st = []"
proof -
  obtain t' where t': "rk_handle_commit E c (Loaded data) None t = Some t'" "bt_Get (re_D E) (rk_db t') = gm_get m"
    using recover_contents[OF assms(1,2,4,5)] by blast
  obtain db' st where "NewRocksDBStorage io (re_D E) node (rk_db t') = (db', Inr st)" "log_entries (re_D E) C st = []" "firstIndex st = 1" "lastIndex st = 0"
    by (rule open_fresh[OF assms(1,3), of "rk_db t'" node C]) (use t'(2) assms(6,7) in auto)
  then show ?thesis using t'(1) by blast
qed

theorem rocks_recovery_erases_raft_log_witness:
  "\<exists>t' db' st. rk_handle_commit sample_gob_rocks sample_rocks_codec (Loaded ''x'') None ((rk_empty rb_tree)\<lparr>rk_db := rs_db sample_log\<rparr>) = Some t' \<and>
     lastIndex sample_log = 5 \<and> NewRocksDBStorage good_io rb_tree ''n'' (rk_db t') = (db', Inr st) \<and> lastIndex st = 0"
proof -
  have "gob_dec_map (re_gob sample_gob_rocks) ''x'' = Some [(''kv:a'', ''x'')]" by (simp add: sample_gob_rocks_def)
  then show ?thesis
    using rocks_recovery_erases_raft_log[of sample_gob_rocks good_io "''x''" "[(''kv:a'', ''x'')]" "''n''" sample_rocks_codec
        "(rk_empty rb_tree)\<lparr>rk_db := rs_db sample_log\<rparr>" sample_codec]
      sample_gob_rocks_ok(1,2) good_io_ok(1) sample_log_ok(4) by (auto simp: prefixedKey_def)
qed

end
