(* ===== verification/Mvcc_Rocks.thy ===== *)
theory Mvcc_Rocks
  imports Mvcc_Properties Raft_Log
begin

text \<open>
  The MVCC store on RocksDB, \<open>internal/mvcc/rocksdb_store.go\<close>: entries under keys made of the user key and the
  encoded revision, the same key index as the in-memory store kept beside them, the two revisions cached and
  persisted, and transactions that collect their writes in one batch. The database is the ordered map \<open>D\<close> of
  the Raft log storage, which of its calls fail is the argument \<open>io\<close>, and an iterator reads the state at its
  creation. The mutex makes every operation atomic.
\<close>

section \<open>State and keys\<close>

record ('t, 'd) RocksDBStore =
  mr_db :: 'd
  mr_keyIndex :: 't
  mr_currentRev :: Revision
  mr_compactedRev :: Revision
  mr_closed :: bool

datatype mr_error = MrErr mvcc_error | MrDatabase

definition kvMVCCPrefix :: string where "kvMVCCPrefix = ''mvcc:kv:''"
definition metaCurrentRevision :: string where "metaCurrentRevision = ''mvcc:meta:current_revision''"
definition metaCompactedRevision :: string where "metaCompactedRevision = ''mvcc:meta:compacted_revision''"

definition makeStorageKey :: "string \<Rightarrow> Revision \<Rightarrow> string" where
  "makeStorageKey key r = kvMVCCPrefix @ key @ ''/'' @ rev_Bytes r"

definition parseStorageKey :: "string \<Rightarrow> (string \<times> Revision) option" where
  "parseStorageKey storageKey =
     (if take (length kvMVCCPrefix) storageKey \<noteq> kvMVCCPrefix then None
      else
        let remainder = drop (length kvMVCCPrefix) storageKey
        in if length remainder < RevisionSize + 1 then None
           else
             let sepIdx = length remainder - RevisionSize - 1
             in if remainder ! sepIdx \<noteq> CHR ''/'' then None
                else Some (take sepIdx remainder, ParseRevision (drop (sepIdx + 1) remainder)))"

section \<open>Opening\<close>

definition load_revision :: "io \<Rightarrow> 'd rocks \<Rightarrow> string \<Rightarrow> 'd \<Rightarrow> Revision option" where
  "load_revision io D key db =
     map_option (\<lambda>data. if 16 \<le> length data then ParseRevision data else Zero) (db_Get io D key db)"

definition loadMetadata :: "io \<Rightarrow> 'd rocks \<Rightarrow> 'd \<Rightarrow> (Revision \<times> Revision) option" where
  "loadMetadata io D db =
     (case load_revision io D metaCurrentRevision db of
        None \<Rightarrow> None
      | Some cur \<Rightarrow> map_option (\<lambda>cpt. (cur, cpt)) (load_revision io D metaCompactedRevision db))"

text \<open>The entries under the prefix, as the iterator gives them.\<close>

definition mvcc_entries :: "'d rocks \<Rightarrow> 'd \<Rightarrow> (string \<times> string) list" where
  "mvcc_entries D db =
     takeWhile (\<lambda>(dk, v). take (length kvMVCCPrefix) dk = kvMVCCPrefix) (bt_AscendGreaterOrEqual D kvMVCCPrefix db)"

definition rebuild_entry :: "'t key_tree \<Rightarrow> Revision \<Rightarrow> string \<times> string \<Rightarrow> 't \<Rightarrow> 't" where
  "rebuild_entry K cpt e idx =
     (case parseStorageKey (fst e) of
        None \<Rightarrow> idx
      | Some (userKey, r) \<Rightarrow>
          if LessThan r cpt then idx
          else (case kv_Decode (snd e) of
                  None \<Rightarrow> idx
                | Some kv \<Rightarrow> if mk_Version kv = 0 then fst (idx_Delete K userKey r idx) else idx_Put K userKey r idx))"

definition rebuildKeyIndex :: "'t key_tree \<Rightarrow> 'd rocks \<Rightarrow> Revision \<Rightarrow> 'd \<Rightarrow> 't \<Rightarrow> 't" where
  "rebuildKeyIndex K D cpt db idx = fold (rebuild_entry K cpt) (mvcc_entries D db) idx"

definition NewRocksDBStore :: "'t key_tree \<Rightarrow> io \<Rightarrow> 'd rocks \<Rightarrow> bool \<Rightarrow> 'd \<Rightarrow> mr_error + ('t, 'd) RocksDBStore" where
  "NewRocksDBStore K io D iterErr db =
     (case loadMetadata io D db of
        None \<Rightarrow> Inl MrDatabase
      | Some (cur, cpt) \<Rightarrow>
          if iterErr then Inl MrDatabase
          else Inr \<lparr>mr_db = db, mr_keyIndex = rebuildKeyIndex K D cpt db (NewKeyIndex K), mr_currentRev = cur,
                    mr_compactedRev = cpt, mr_closed = False\<rparr>)"

section \<open>Reads\<close>

text \<open>An entry where the caller treats a failing read, missing data and undecodable data alike.\<close>

definition stored_kv :: "io \<Rightarrow> 'd rocks \<Rightarrow> string \<Rightarrow> Revision \<Rightarrow> 'd \<Rightarrow> mvcc_kv option" where
  "stored_kv io D key r db =
     (case db_Get io D (makeStorageKey key r) db of
        None \<Rightarrow> None
      | Some data \<Rightarrow> if length data = 0 then None else kv_Decode data)"

definition mr_read_revision :: "int \<Rightarrow> ('t, 'd) RocksDBStore \<Rightarrow> Revision" where
  "mr_read_revision rv s = (if rv = 0 then mr_currentRev s else Revision rv 0)"

definition mr_check_revision :: "Revision \<Rightarrow> ('t, 'd) RocksDBStore \<Rightarrow> mvcc_error option" where
  "mr_check_revision atRev s =
     (if LessThan atRev (mr_compactedRev s) then Some ErrCompacted
      else if GreaterThan atRev (mr_currentRev s) then Some ErrFutureRevision
      else None)"

definition mr_Get :: "'t key_tree \<Rightarrow> io \<Rightarrow> 'd rocks \<Rightarrow> string \<Rightarrow> int \<Rightarrow> ('t, 'd) RocksDBStore \<Rightarrow> mr_error + mvcc_kv" where
  "mr_Get K io D key rv s =
     (if length key = 0 then Inl (MrErr ErrEmptyKey)
      else if mr_closed s then Inl (MrErr ErrClosed)
      else
        let atRev = mr_read_revision rv s
        in case mr_check_revision atRev s of
             Some e \<Rightarrow> Inl (MrErr e)
           | None \<Rightarrow>
               let keyRev = GetRevision K key atRev (mr_keyIndex s)
               in if IsZero keyRev then Inl (MrErr ErrKeyNotFound)
                  else (case db_Get io D (makeStorageKey key keyRev) (mr_db s) of
                          None \<Rightarrow> Inl MrDatabase
                        | Some data \<Rightarrow>
                            if length data = 0 then Inl (MrErr ErrKeyNotFound)
                            else (case kv_Decode data of
                                    None \<Rightarrow> Inl (MrErr ErrInvalidData)
                                  | Some kv \<Rightarrow> if mk_Version kv = 0 then Inl (MrErr ErrKeyNotFound) else Inr kv)))"

definition mr_range_visit ::
    "io \<Rightarrow> 'd rocks \<Rightarrow> int \<Rightarrow> 'd \<Rightarrow> string \<Rightarrow> Revision \<Rightarrow> mvcc_kv list \<times> int \<Rightarrow> (mvcc_kv list \<times> int) \<times> bool" where
  "mr_range_visit io D limit db key keyRev = (\<lambda>(result, count).
     if limit > 0 \<and> count \<ge> limit then ((result, count), False)
     else case stored_kv io D key keyRev db of
            None \<Rightarrow> ((result, count), True)
          | Some kv \<Rightarrow>
              if mk_Version kv = 0 then ((result, count), True)
              else ((result @ [kv], count + 1), True))"

definition mr_Range ::
    "'t key_tree \<Rightarrow> io \<Rightarrow> 'd rocks \<Rightarrow> string \<Rightarrow> string option \<Rightarrow> int \<Rightarrow> int \<Rightarrow> ('t, 'd) RocksDBStore \<Rightarrow> mr_error + mvcc_kv list \<times> int" where
  "mr_Range K io D start end rv limit s =
     (if length start = 0 then Inl (MrErr ErrEmptyKey)
      else if mr_closed s then Inl (MrErr ErrClosed)
      else
        let atRev = mr_read_revision rv s
        in case mr_check_revision atRev s of
             Some e \<Rightarrow> Inl (MrErr e)
           | None \<Rightarrow> Inr (idx_Range K start end atRev (mr_range_visit io D limit (mr_db s)) (mr_keyIndex s) ([], 0)))"

definition mr_CurrentRevision :: "('t, 'd) RocksDBStore \<Rightarrow> int" where
  "mr_CurrentRevision s = Main (mr_currentRev s)"

definition mr_CompactedRevision :: "('t, 'd) RocksDBStore \<Rightarrow> int" where
  "mr_CompactedRevision s = Main (mr_compactedRev s)"

text \<open>The hash over all stored keys and values, as an unsigned 32-bit number.\<close>

definition hash_bytes :: "string \<Rightarrow> nat \<Rightarrow> nat" where
  "hash_bytes bs h = fold (\<lambda>b h. (h * 31 + of_char b) mod 2 ^ 32) bs h"

definition mr_Hash :: "'d rocks \<Rightarrow> bool \<Rightarrow> ('t, 'd) RocksDBStore \<Rightarrow> mr_error + nat" where
  "mr_Hash D iterErr s =
     (if mr_closed s then Inl (MrErr ErrClosed)
      else
        let h = fold (\<lambda>(dk, v) h. hash_bytes v (hash_bytes dk h)) (mvcc_entries D (mr_db s)) 0
        in if iterErr then Inl MrDatabase else Inr h)"

section \<open>Writes\<close>

definition saveCurrentRevision :: "('t, 'd) RocksDBStore \<Rightarrow> batch_op list \<Rightarrow> batch_op list" where
  "saveCurrentRevision s batch = batch @ [WPut metaCurrentRevision (rev_Bytes (mr_currentRev s))]"

definition next_main :: "('t, 'd) RocksDBStore \<Rightarrow> ('t, 'd) RocksDBStore" where
  "next_main s = s\<lparr>mr_currentRev := Revision (Main (mr_currentRev s) + 1) 0\<rparr>"

definition mr_new_entry :: "string \<Rightarrow> string \<Rightarrow> int \<Rightarrow> Revision \<Rightarrow> int \<times> int \<Rightarrow> mvcc_kv" where
  "mr_new_entry key val lease r cv =
     \<lparr>mk_Key = key, mk_Value = val, mk_CreateRevision = fst cv, mk_ModRevision = Main r, mk_Version = snd cv, mk_Lease = lease\<rparr>"

definition prev_info :: "mvcc_kv option \<Rightarrow> int \<times> int" where
  "prev_info prev = (case prev of Some prevKv \<Rightarrow> (mk_CreateRevision prevKv, mk_Version prevKv + 1) | None \<Rightarrow> (0, 1))"

definition mr_Put ::
    "'t key_tree \<Rightarrow> io \<Rightarrow> 'd rocks \<Rightarrow> string \<Rightarrow> string \<Rightarrow> int \<Rightarrow> ('t, 'd) RocksDBStore \<Rightarrow> ('t, 'd) RocksDBStore \<times> (mr_error + int)" where
  "mr_Put K io D key val lease s =
     (if length key = 0 then (s, Inl (MrErr ErrEmptyKey))
      else if mr_closed s then (s, Inl (MrErr ErrClosed))
      else
        let s1 = next_main s;
            r = mr_currentRev s1;
            prevKeyRev = GetRevision K key r (mr_keyIndex s1);
            cv = (if \<not> IsZero prevKeyRev then prev_info (stored_kv io D key prevKeyRev (mr_db s1)) else (Main r, 1));
            kv = mr_new_entry key val lease r cv
        in case db_Write io D (saveCurrentRevision s1 [WPut (makeStorageKey key r) (kv_Encode kv)]) (mr_db s1) of
             None \<Rightarrow> (s1, Inl MrDatabase)
           | Some db \<Rightarrow> (s1\<lparr>mr_db := db, mr_keyIndex := idx_Put K key r (mr_keyIndex s1)\<rparr>, Inr (Main r)))"

text \<open>The item of a key that is there and not deleted, and its last entry.\<close>

definition mr_live_item :: "'t key_tree \<Rightarrow> string \<Rightarrow> ('t, 'd) RocksDBStore \<Rightarrow> KeyItem option" where
  "mr_live_item K key s =
     (case idx_Get K key (mr_keyIndex s) of
        Some ki \<Rightarrow> if \<not> IsDeleted ki then Some ki else None
      | None \<Rightarrow> None)"

definition mr_last_kv :: "io \<Rightarrow> 'd rocks \<Rightarrow> string \<Rightarrow> KeyItem \<Rightarrow> ('t, 'd) RocksDBStore \<Rightarrow> mvcc_kv option" where
  "mr_last_kv io D key ki s =
     (case CurrentGeneration ki of
        None \<Rightarrow> None
      | Some gen \<Rightarrow>
          let prevRev = LastRevision gen
          in if \<not> IsZero prevRev then stored_kv io D key prevRev (mr_db s) else None)"

definition mr_tombstone :: "string \<Rightarrow> Revision \<Rightarrow> mvcc_kv option \<Rightarrow> mvcc_kv" where
  "mr_tombstone key r prev =
     \<lparr>mk_Key = key, mk_Value = [], mk_CreateRevision = (case prev of Some prevKv \<Rightarrow> mk_CreateRevision prevKv | None \<Rightarrow> 0),
      mk_ModRevision = Main r, mk_Version = 0, mk_Lease = 0\<rparr>"

definition mr_Delete ::
    "'t key_tree \<Rightarrow> io \<Rightarrow> 'd rocks \<Rightarrow> string \<Rightarrow> ('t, 'd) RocksDBStore \<Rightarrow> ('t, 'd) RocksDBStore \<times> (mr_error + int \<times> int)" where
  "mr_Delete K io D key s =
     (if length key = 0 then (s, Inl (MrErr ErrEmptyKey))
      else if mr_closed s then (s, Inl (MrErr ErrClosed))
      else case mr_live_item K key s of
             None \<Rightarrow> (s, Inr (Main (mr_currentRev s), 0))
           | Some ki \<Rightarrow>
               let s1 = next_main s;
                   r = mr_currentRev s1;
                   kv = mr_tombstone key r (mr_last_kv io D key ki s1)
               in case db_Write io D (saveCurrentRevision s1 [WPut (makeStorageKey key r) (kv_Encode kv)]) (mr_db s1) of
                    None \<Rightarrow> (s1, Inl MrDatabase)
                  | Some db \<Rightarrow> (s1\<lparr>mr_db := db, mr_keyIndex := fst (idx_Delete K key r (mr_keyIndex s1))\<rparr>, Inr (Main r, 1)))"

definition mr_collect_keys :: "'t key_tree \<Rightarrow> string \<Rightarrow> string option \<Rightarrow> ('t, 'd) RocksDBStore \<Rightarrow> string list" where
  "mr_collect_keys K start end s = idx_Range K start end Zero (\<lambda>key keyRev ks. (ks @ [key], True)) (mr_keyIndex s) []"

text \<open>The loop of the range deletions: the entries go to the batch, the index is updated at once.\<close>

fun mr_delete_loop ::
    "'t key_tree \<Rightarrow> io \<Rightarrow> 'd rocks \<Rightarrow> int \<Rightarrow> int \<Rightarrow> string list \<Rightarrow> ('t, 'd) RocksDBStore \<times> batch_op list \<times> int \<Rightarrow>
     ('t, 'd) RocksDBStore \<times> batch_op list \<times> int" where
  "mr_delete_loop K io D main i [] st = st"
| "mr_delete_loop K io D main i (key # keys) (s, batch, deleted) =
     mr_delete_loop K io D main (i + 1) keys
       (case mr_live_item K key s of
          None \<Rightarrow> (s, batch, deleted)
        | Some ki \<Rightarrow>
            let r = Revision main i; kv = mr_tombstone key r (mr_last_kv io D key ki s)
            in (s\<lparr>mr_keyIndex := fst (idx_Delete K key r (mr_keyIndex s))\<rparr>,
                batch @ [WPut (makeStorageKey key r) (kv_Encode kv)], deleted + 1))"

definition mr_DeleteRange ::
    "'t key_tree \<Rightarrow> io \<Rightarrow> 'd rocks \<Rightarrow> string \<Rightarrow> string option \<Rightarrow> ('t, 'd) RocksDBStore \<Rightarrow> ('t, 'd) RocksDBStore \<times> (mr_error + int \<times> int)" where
  "mr_DeleteRange K io D start end s =
     (if length start = 0 then (s, Inl (MrErr ErrEmptyKey))
      else if mr_closed s then (s, Inl (MrErr ErrClosed))
      else
        let keysToDelete = mr_collect_keys K start end s
        in if length keysToDelete = 0 then (s, Inr (Main (mr_currentRev s), 0))
           else
             let s1 = next_main s;
                 baseRev = mr_currentRev s1;
                 (s2, batch, deleted) = mr_delete_loop K io D (Main baseRev) 0 keysToDelete (s1, [], 0);
                 s3 = (if deleted > 0
                       then s2\<lparr>mr_currentRev := Revision (Main (mr_currentRev s2)) (int (length keysToDelete) - 1)\<rparr> else s2)
             in case db_Write io D (saveCurrentRevision s3 batch) (mr_db s3) of
                  None \<Rightarrow> (s3, Inl MrDatabase)
                | Some db \<Rightarrow> (s3\<lparr>mr_db := db\<rparr>, Inr (Main baseRev, deleted)))"

definition mr_Compact :: "'t key_tree \<Rightarrow> io \<Rightarrow> 'd rocks \<Rightarrow> int \<Rightarrow> ('t, 'd) RocksDBStore \<Rightarrow> ('t, 'd) RocksDBStore \<times> (mr_error + unit)" where
  "mr_Compact K io D rv s =
     (let targetRev = Revision rv 0
      in if mr_closed s then (s, Inl (MrErr ErrClosed))
         else if LessThanOrEqual targetRev (mr_compactedRev s) then (s, Inl (MrErr ErrCompacted))
         else if GreaterThan targetRev (mr_currentRev s) then (s, Inl (MrErr ErrFutureRevision))
         else
           let old = filter (\<lambda>(dk, v). case parseStorageKey dk of None \<Rightarrow> False | Some (_, keyRev) \<Rightarrow> LessThan keyRev targetRev)
                       (mvcc_entries D (mr_db s));
               s1 = s\<lparr>mr_compactedRev := targetRev\<rparr>
           in case db_Write io D (map (\<lambda>(dk, v). WDelete dk) old @ [WPut metaCompactedRevision (rev_Bytes targetRev)]) (mr_db s1) of
                None \<Rightarrow> (s1, Inl MrDatabase)
              | Some db \<Rightarrow> (s1\<lparr>mr_db := db, mr_keyIndex := fst (idx_Compact K targetRev (mr_keyIndex s1))\<rparr>, Inr ()))"

definition saveCompactedRevision :: "io \<Rightarrow> 'd rocks \<Rightarrow> ('t, 'd) RocksDBStore \<Rightarrow> ('t, 'd) RocksDBStore \<times> (mr_error + unit)" where
  "saveCompactedRevision io D s =
     (case db_Put io D metaCompactedRevision (rev_Bytes (mr_compactedRev s)) (mr_db s) of
        None \<Rightarrow> (s, Inl MrDatabase)
      | Some db \<Rightarrow> (s\<lparr>mr_db := db\<rparr>, Inr ()))"

definition mr_Close :: "('t, 'd) RocksDBStore \<Rightarrow> ('t, 'd) RocksDBStore \<times> (mr_error + unit)" where
  "mr_Close s = (if mr_closed s then (s, Inl (MrErr ErrClosed)) else (s\<lparr>mr_closed := True\<rparr>, Inr ()))"

definition mr_Sync :: "io \<Rightarrow> 'd rocks \<Rightarrow> ('t, 'd) RocksDBStore \<Rightarrow> ('t, 'd) RocksDBStore \<times> (mr_error + unit)" where
  "mr_Sync io D s =
     (if mr_closed s then (s, Inl (MrErr ErrClosed))
      else case db_Put io D metaCurrentRevision (rev_Bytes (mr_currentRev s)) (mr_db s) of
             None \<Rightarrow> (s, Inl MrDatabase)
           | Some db \<Rightarrow> (s\<lparr>mr_db := db\<rparr>, Inr ()))"

section \<open>Transactions\<close>

text \<open>The pending transaction has the fields of the one of the in-memory store.\<close>

type_synonym rocksDBTxn = memoryTxn

definition mr_Txn :: rocksDBTxn where
  "mr_Txn = \<lparr>conditions = [], thenOps = [], elseOps = []\<rparr>"

definition rtxn_If :: "Condition list \<Rightarrow> rocksDBTxn \<Rightarrow> rocksDBTxn" where
  "rtxn_If conds t = t\<lparr>conditions := conditions t @ conds\<rparr>"

definition rtxn_Then :: "Op list \<Rightarrow> rocksDBTxn \<Rightarrow> rocksDBTxn" where
  "rtxn_Then ops t = t\<lparr>thenOps := thenOps t @ ops\<rparr>"

definition rtxn_Else :: "Op list \<Rightarrow> rocksDBTxn \<Rightarrow> rocksDBTxn" where
  "rtxn_Else ops t = t\<lparr>elseOps := elseOps t @ ops\<rparr>"

text \<open>\<^const>\<open>None\<close> is the panic of a type assertion.\<close>

definition mr_compare :: "cond_value \<Rightarrow> CompareType \<Rightarrow> cond_value \<Rightarrow> bool option" where
  "mr_compare actual cmp expected =
     (case actual of
        Int64 a \<Rightarrow>
          (case expected of
             Int64 e \<Rightarrow>
               Some (case cmp of CompareEqual \<Rightarrow> a = e | CompareNotEqual \<Rightarrow> a \<noteq> e | CompareLess \<Rightarrow> a < e
                     | CompareGreater \<Rightarrow> a > e | CompareTypeOther _ \<Rightarrow> False)
           | _ \<Rightarrow> None)
      | ByteSlice a \<Rightarrow>
          (case expected of
             ByteSlice e \<Rightarrow>
               Some (case cmp of CompareEqual \<Rightarrow> a = e | CompareNotEqual \<Rightarrow> a \<noteq> e | CompareLess \<Rightarrow> a < e
                     | CompareGreater \<Rightarrow> a > e | CompareTypeOther _ \<Rightarrow> False)
           | _ \<Rightarrow> None)
      | NilValue \<Rightarrow> Some False)"

definition mr_live_kv :: "'t key_tree \<Rightarrow> io \<Rightarrow> 'd rocks \<Rightarrow> string \<Rightarrow> ('t, 'd) RocksDBStore \<Rightarrow> mvcc_kv option" where
  "mr_live_kv K io D key s = (case mr_live_item K key s of None \<Rightarrow> None | Some ki \<Rightarrow> mr_last_kv io D key ki s)"

definition mr_evaluateCondition :: "'t key_tree \<Rightarrow> io \<Rightarrow> 'd rocks \<Rightarrow> Condition \<Rightarrow> ('t, 'd) RocksDBStore \<Rightarrow> bool option" where
  "mr_evaluateCondition K io D cond s =
     (let kv = mr_live_kv K io D (c_Key cond) s;
          num = (\<lambda>f. case kv of Some kv \<Rightarrow> Int64 (f kv) | None \<Rightarrow> Int64 0);
          actual =
            (case c_Target cond of
               ConditionTargetVersion \<Rightarrow> num mk_Version
             | ConditionTargetCreateRevision \<Rightarrow> num mk_CreateRevision
             | ConditionTargetModRevision \<Rightarrow> num mk_ModRevision
             | ConditionTargetValue \<Rightarrow> (case kv of Some kv \<Rightarrow> ByteSlice (mk_Value kv) | None \<Rightarrow> ByteSlice [])
             | ConditionTargetOther _ \<Rightarrow> NilValue)
      in mr_compare actual (c_Compare cond) (c_Value cond))"

fun mr_eval_conditions :: "'t key_tree \<Rightarrow> io \<Rightarrow> 'd rocks \<Rightarrow> Condition list \<Rightarrow> ('t, 'd) RocksDBStore \<Rightarrow> bool option" where
  "mr_eval_conditions K io D [] s = Some True"
| "mr_eval_conditions K io D (cond # conds) s =
     (case mr_evaluateCondition K io D cond s of
        None \<Rightarrow> None
      | Some False \<Rightarrow> Some False
      | Some True \<Rightarrow> mr_eval_conditions K io D conds s)"

text \<open>The executors thread the store, whose index changes at once, and the batch, which is not yet written.\<close>

type_synonym ('t, 'd) txn_state = "('t, 'd) RocksDBStore \<times> batch_op list"

definition mr_executePut :: "'t key_tree \<Rightarrow> io \<Rightarrow> 'd rocks \<Rightarrow> Op \<Rightarrow> Revision \<Rightarrow> ('t, 'd) txn_state \<Rightarrow> ('t, 'd) txn_state \<times> OpResponse" where
  "mr_executePut K io D opn r st =
     (case st of (s, batch) \<Rightarrow>
        let key = o_Key opn;
            cv = (case mr_live_item K key s of
                    Some ki \<Rightarrow> prev_info (mr_last_kv io D key ki s)
                  | None \<Rightarrow> (Main r, 1));
            kv = mr_new_entry key (o_Value opn) (o_Lease opn) r cv
        in ((s\<lparr>mr_keyIndex := idx_Put K key r (mr_keyIndex s)\<rparr>, batch @ [WPut (makeStorageKey key r) (kv_Encode kv)]),
            empty_response OpTypePut))"

definition mr_get_visit :: "io \<Rightarrow> 'd rocks \<Rightarrow> 'd \<Rightarrow> string \<Rightarrow> Revision \<Rightarrow> mvcc_kv list \<Rightarrow> mvcc_kv list \<times> bool" where
  "mr_get_visit io D db key keyRev kvs =
     (case stored_kv io D key keyRev db of
        Some kv \<Rightarrow> if mk_Version kv > 0 then (kvs @ [kv], True) else (kvs, True)
      | None \<Rightarrow> (kvs, True))"

definition mr_executeGet :: "'t key_tree \<Rightarrow> io \<Rightarrow> 'd rocks \<Rightarrow> Op \<Rightarrow> ('t, 'd) RocksDBStore \<Rightarrow> OpResponse" where
  "mr_executeGet K io D opn s =
     (empty_response OpTypeGet)
       \<lparr>or_Kvs := (case o_End opn of
          None \<Rightarrow> (case mr_live_kv K io D (o_Key opn) s of Some kv \<Rightarrow> if mk_Version kv > 0 then [kv] else [] | None \<Rightarrow> [])
        | Some e \<Rightarrow> idx_Range K (o_Key opn) (Some e) Zero (mr_get_visit io D (mr_db s)) (mr_keyIndex s) [])\<rparr>"

definition mr_executeDelete :: "'t key_tree \<Rightarrow> io \<Rightarrow> 'd rocks \<Rightarrow> Op \<Rightarrow> Revision \<Rightarrow> ('t, 'd) txn_state \<Rightarrow> ('t, 'd) txn_state \<times> OpResponse" where
  "mr_executeDelete K io D opn r st =
     (case st of (s, batch) \<Rightarrow>
        let key = o_Key opn
        in case mr_live_item K key s of
             None \<Rightarrow> ((s, batch), empty_response OpTypeDelete)
           | Some ki \<Rightarrow>
               let kv = mr_tombstone key r (mr_last_kv io D key ki s)
               in ((s\<lparr>mr_keyIndex := fst (idx_Delete K key r (mr_keyIndex s))\<rparr>,
                    batch @ [WPut (makeStorageKey key r) (kv_Encode kv)]),
                   (empty_response OpTypeDelete)\<lparr>or_Deleted := 1\<rparr>))"

definition mr_executeDeleteRange :: "'t key_tree \<Rightarrow> io \<Rightarrow> 'd rocks \<Rightarrow> Op \<Rightarrow> Revision \<Rightarrow> ('t, 'd) txn_state \<Rightarrow> ('t, 'd) txn_state \<times> OpResponse" where
  "mr_executeDeleteRange K io D opn baseRev st =
     (case st of (s, batch) \<Rightarrow>
        let (s', batch', deleted) =
          mr_delete_loop K io D (Main baseRev) (Sub baseRev) (mr_collect_keys K (o_Key opn) (o_End opn) s) (s, batch, 0)
        in ((s', batch'), (empty_response OpTypeDeleteRange)\<lparr>or_Deleted := deleted\<rparr>))"

definition mr_executeOp :: "'t key_tree \<Rightarrow> io \<Rightarrow> 'd rocks \<Rightarrow> Op \<Rightarrow> Revision \<Rightarrow> ('t, 'd) txn_state \<Rightarrow> ('t, 'd) txn_state \<times> OpResponse" where
  "mr_executeOp K io D opn r st =
     (case o_Type opn of
        OpTypePut \<Rightarrow> mr_executePut K io D opn r st
      | OpTypeGet \<Rightarrow> (st, mr_executeGet K io D opn (fst st))
      | OpTypeDelete \<Rightarrow> mr_executeDelete K io D opn r st
      | OpTypeDeleteRange \<Rightarrow> mr_executeDeleteRange K io D opn r st
      | OpTypeOther n \<Rightarrow> (st, empty_response (OpTypeOther n)))"

fun mr_executeOps :: "'t key_tree \<Rightarrow> io \<Rightarrow> 'd rocks \<Rightarrow> int \<Rightarrow> nat \<Rightarrow> Op list \<Rightarrow> ('t, 'd) txn_state \<Rightarrow> ('t, 'd) txn_state \<times> OpResponse list" where
  "mr_executeOps K io D main i [] st = (st, [])"
| "mr_executeOps K io D main i (opn # ops) st =
     (let (st', resp) = mr_executeOp K io D opn (Revision main (int i)) st;
          (st'', resps) = mr_executeOps K io D main (i + 1) ops st'
      in (st'', resp # resps))"

definition mr_Commit ::
    "'t key_tree \<Rightarrow> io \<Rightarrow> 'd rocks \<Rightarrow> rocksDBTxn \<Rightarrow> ('t, 'd) RocksDBStore \<Rightarrow> (('t, 'd) RocksDBStore \<times> (mr_error + TxnResponse)) option" where
  "mr_Commit K io D t s =
     (if mr_closed s then Some (s, Inl (MrErr ErrClosed))
      else case mr_eval_conditions K io D (conditions t) s of
             None \<Rightarrow> None
           | Some succeeded \<Rightarrow>
               let ops = (if succeeded then thenOps t else elseOps t);
                   s1 = next_main s;
                   m = Main (mr_currentRev s1);
                   ((s2, batch), responses) = mr_executeOps K io D m 0 ops (s1, []);
                   s3 = (if 0 < length ops then s2\<lparr>mr_currentRev := Revision (Main (mr_currentRev s2)) (int (length ops) - 1)\<rparr> else s2)
               in (case db_Write io D (saveCurrentRevision s3 batch) (mr_db s3) of
                     None \<Rightarrow> Some (s3, Inl MrDatabase)
                   | Some db \<Rightarrow>
                       Some (s3\<lparr>mr_db := db\<rparr>, Inr \<lparr>tr_Succeeded = succeeded, tr_Revision = m, tr_Responses = responses\<rparr>)))"

section \<open>Number encoding\<close>

definition encodeUint64 :: "nat \<Rightarrow> string" where
  "encodeUint64 v = PutUint64 v"

definition decodeUint64 :: "string \<Rightarrow> nat" where
  "decodeUint64 b = (if length b < 8 then 0 else Uint64 b)"

end
