(* ===== verification/Mvcc_Rocks_Agreement.thy ===== *)
theory Mvcc_Rocks_Agreement
  imports Mvcc_Rocks Raft_Log_Properties
begin

text \<open>
  The MVCC store on RocksDB against the in-memory one: a simulation relation between the two states, kept by every
  operation but transactions, and the same answers to the same sequence of calls. The one exception is a put
  of a deleted key, which keeps the old create revision on RocksDB.
\<close>

section \<open>Storage keys\<close>

definition rev_ok :: "Revision \<Rightarrow> bool" where
  "rev_ok r \<longleftrightarrow> 0 \<le> Main r \<and> Main r < 2 ^ 63 \<and> 0 \<le> Sub r \<and> Sub r < 2 ^ 63"

lemma rev_ok_range: "rev_ok r \<Longrightarrow> int64_range (Main r) \<and> int64_range (Sub r)"
  by (simp add: rev_ok_def int64_range_def)

lemma parse_make: "rev_ok r \<Longrightarrow> parseStorageKey (makeStorageKey k r) = Some (k, r)"
  using parse_rev_bytes[of r] rev_ok_range[of r]
  by (simp add: parseStorageKey_def makeStorageKey_def Let_def nth_append)

lemma storage_key_inj: "rev_ok r \<Longrightarrow> rev_ok q \<Longrightarrow> makeStorageKey k r = makeStorageKey j q \<longleftrightarrow> k = j \<and> r = q"
  using parse_make by (metis option.inject prod.inject)

lemma storage_key_meta [simp]:
  "makeStorageKey k r \<noteq> metaCurrentRevision" "makeStorageKey k r \<noteq> metaCompactedRevision"
  "metaCurrentRevision \<noteq> makeStorageKey k r" "metaCompactedRevision \<noteq> makeStorageKey k r"
  "metaCurrentRevision \<noteq> metaCompactedRevision" "metaCompactedRevision \<noteq> metaCurrentRevision"
  by (simp_all add: makeStorageKey_def metaCurrentRevision_def metaCompactedRevision_def kvMVCCPrefix_def)

lemma decode_encode_kv: "kv_encodable kv \<Longrightarrow> kv_Decode (kv_Encode kv) = Some kv"
  using kv_codec_roundtrip[of kv "[]"] by simp

lemma encode_nonempty [simp]: "kv_Encode kv \<noteq> []" "[] \<noteq> kv_Encode kv"
  by (simp_all add: kv_Encode_def flip: length_0_conv)

section \<open>The simulation relation\<close>

definition entry_small :: "string \<Rightarrow> Revision \<Rightarrow> mvcc_kv \<Rightarrow> bool" where
  "entry_small k r kv \<longleftrightarrow> length k < 2 ^ 32 \<and> mk_Key kv = k \<and> length (mk_Value kv) < 2 ^ 32 \<and> int64_range (mk_Lease kv) \<and>
     mk_ModRevision kv = Main r \<and> 0 \<le> mk_CreateRevision kv \<and> mk_CreateRevision kv \<le> Main r \<and> 0 \<le> mk_Version kv \<and> mk_Version kv \<le> Main r"

lemma entry_small_encodable: "rev_ok r \<Longrightarrow> entry_small k r kv \<Longrightarrow> kv_encodable kv"
  by (auto simp: entry_small_def kv_encodable_def rev_ok_def int64_range_def)

definition sim :: "'t key_tree \<Rightarrow> 'r rev_tree \<Rightarrow> 'd rocks \<Rightarrow> ('t, 'r) MemoryStore \<Rightarrow> ('t, 'd) RocksDBStore \<Rightarrow> bool" where
  "sim K R D m s \<longleftrightarrow> mr_keyIndex s = keyIndex m \<and> mr_currentRev s = revisionGen m \<and> mr_compactedRev s = compactedRev m \<and>
     mr_closed s = ms_closed m \<and>
     (\<forall>k. \<forall>r \<in> set (revs_of K (keyIndex m) k). rev_ok r \<and>
        (\<exists>kv. bt_Get R (revisionStore m) r = Some kv \<and> entry_small k r kv \<and> bt_Get D (mr_db s) (makeStorageKey k r) = Some (kv_Encode kv)))"

lemma simD:
  assumes "sim K R D m s"
  shows "mr_keyIndex s = keyIndex m" "mr_currentRev s = revisionGen m" "mr_compactedRev s = compactedRev m" "mr_closed s = ms_closed m"
    "r \<in> set (revs_of K (keyIndex m) k) \<Longrightarrow> rev_ok r"
    "r \<in> set (revs_of K (keyIndex m) k) \<Longrightarrow> \<exists>kv. bt_Get R (revisionStore m) r = Some kv \<and> entry_small k r kv \<and>
       bt_Get D (mr_db s) (makeStorageKey k r) = Some (kv_Encode kv)"
  using assms by (auto simp: sim_def)

lemma io_get: "io_ok io \<Longrightarrow> db_Get io D k db = Some (case bt_Get D db k of None \<Rightarrow> [] | Some v \<Rightarrow> v)"
  by (simp add: io_ok_def db_Get_def)

lemma io_write: "io_ok io \<Longrightarrow> db_Write io D wb db = Some (fold (apply_op D) wb db)"
  by (simp add: io_ok_def db_Write_def)

lemma sim_stored:
  assumes "sim K R D m s" "io_ok io" "r \<in> set (revs_of K (keyIndex m) k)"
  shows "stored_kv io D k r (mr_db s) = bt_Get R (revisionStore m) r"
proof -
  obtain kv where kv: "bt_Get R (revisionStore m) r = Some kv" "entry_small k r kv" "bt_Get D (mr_db s) (makeStorageKey k r) = Some (kv_Encode kv)"
    using simD(6)[OF assms(1,3)] by blast
  have "kv_encodable kv" using entry_small_encodable kv(2) simD(5)[OF assms(1,3)] by blast
  then show ?thesis using kv by (simp add: stored_kv_def io_get[OF assms(2)] decode_encode_kv)
qed

lemma sim_live_item: "sim K R D m s \<Longrightarrow> mr_live_item K k s = live_item K k m"
  by (simp add: sim_def mr_live_item_def live_item_def)

lemma live_item_revs:
  assumes "index_ok K (keyIndex m)" "live_item K k m = Some ki"
  shows "CurrentGeneration ki = Some (last (ki_Generations ki))" "LastRevision (last (ki_Generations ki)) = last (revs_of K (keyIndex m) k)"
    "revs_of K (keyIndex m) k \<noteq> []"
proof -
  have get: "bt_Get K (keyIndex m) k = Some ki" "\<not> IsDeleted ki"
    using assms(2) by (auto simp: live_item_def idx_Get_def split: option.splits if_splits)
  note ok = index_okD[OF assms(1) get(1)]
  show "CurrentGeneration ki = Some (last (ki_Generations ki))" by (rule CurrentGeneration_last[OF ok(2)])
  show "LastRevision (last (ki_Generations ki)) = last (revs_of K (keyIndex m) k)" "revs_of K (keyIndex m) k \<noteq> []"
    using last_all_revs[OF ok(2) get(2)] get(1) by (simp_all add: revs_of_def)
qed

lemma sim_last_kv:
  assumes "sim K R D m s" "io_ok io" "ms_inv K R m" "live_item K k m = Some ki"
  shows "mr_last_kv io D k ki s = last_kv R ki m"
proof -
  note l = live_item_revs[OF ms_invD(1)[OF assms(3)] assms(4)]
  have "last (revs_of K (keyIndex m) k) \<in> set (revs_of K (keyIndex m) k)" using l(3) by simp
  then show ?thesis using l sim_stored[OF assms(1,2)] by (simp add: mr_last_kv_def last_kv_def Let_def)
qed

section \<open>Reads\<close>

lemma sim_revision: "sim K R D m s \<Longrightarrow> mr_read_revision rv s = read_revision rv m \<and> mr_check_revision at s = check_revision at m"
  by (simp add: sim_def mr_read_revision_def read_revision_def mr_check_revision_def check_revision_def gen_Current_def)

lemma newest_mem: "newest_upto at xs \<noteq> Zero \<Longrightarrow> newest_upto at xs \<in> set xs"
proof -
  assume a: "newest_upto at xs \<noteq> Zero"
  then have ne: "filter (\<lambda>r. r \<le> at) xs \<noteq> []" by (auto simp: newest_upto_def Let_def)
  then have "newest_upto at xs = last (filter (\<lambda>r. r \<le> at) xs)" by (simp add: newest_upto_def Let_def)
  then show ?thesis using last_in_set[OF ne] by simp
qed

lemma sim_Get:
  assumes "sim K R D m s" "io_ok io" "ms_inv K R m"
  shows "mr_Get K io D k rv s = map_sum MrErr id (ms_Get K R k rv m)"
proof -
  define at where "at = read_revision rv m"
  define r where "r = GetRevision K k at (keyIndex m)"
  have idx: "mr_keyIndex s = keyIndex m" by (rule simD(1)[OF assms(1)])
  note rv = sim_revision[OF assms(1)]
  have mem: "r \<in> set (revs_of K (keyIndex m) k)" if "r \<noteq> Zero"
    using that newest_mem by (simp add: r_def GetRevision_newest[OF ms_invD(1)[OF assms(3)]])
  have get: "db_Get io D (makeStorageKey k r) (mr_db s) = Some (kv_Encode kv) \<and> kv_Decode (kv_Encode kv) = Some kv"
    if "r \<noteq> Zero" "bt_Get R (revisionStore m) r = Some kv" for kv
    using simD(5,6)[OF assms(1) mem] that entry_small_encodable decode_encode_kv by (force simp: io_get[OF assms(2)])
  have "\<exists>kv. bt_Get R (revisionStore m) r = Some kv" if "r \<noteq> Zero" using simD(6)[OF assms(1) mem[OF that]] by blast
  then show ?thesis
    unfolding mr_Get_def ms_Get_def
    using simD(4)[OF assms(1)] get idx rv
    by (auto simp: at_def[symmetric] r_def[symmetric] Let_def split: option.splits)
qed

lemma scan_keys_mem:
  assumes "btree_ok K" "ms_inv K R m" "(k, r) \<in> set (scan_keys K start end at (keyIndex m))"
  shows "r \<in> set (revs_of K (keyIndex m) k)"
proof -
  obtain ki where ki: "bt_Get K (keyIndex m) k = Some ki" "r = current_revision at ki" "r \<noteq> Zero"
    using assms(3) by (auto simp: scan_keys_def btree_simps(4)[OF assms(1)])
  show ?thesis
  proof (cases "at = Zero")
    case True
    then have live: "live_key K (keyIndex m) k" and r: "r = last (revs_of K (keyIndex m) k)"
      using ki current_revision_live[OF ms_invD(1)[OF assms(2)] ki(1)] by (auto split: if_splits)
    obtain ki' where "live_item K k m = Some ki'" using live live_item_iff[of K k m] by auto
    from live_item_revs(3)[OF ms_invD(1)[OF assms(2)] this] r show ?thesis by simp
  next
    case False
    then show ?thesis using ki current_revision_find[OF ms_invD(1)[OF assms(2)] ki(1) False] newest_mem by metis
  qed
qed

lemma ascend_cong: "(\<And>x st. x \<in> set xs \<Longrightarrow> f x st = g x st) \<Longrightarrow> ascend_loop f xs st = ascend_loop g xs st"
  by (induction xs arbitrary: st) (auto split: prod.splits)

lemma sim_scan:
  assumes "btree_ok K" "sim K R D m s" "ms_inv K R m"
    and "\<And>k r st. r \<in> set (revs_of K (keyIndex m) k) \<Longrightarrow> f k r st = g k r st"
  shows "idx_Range K start end at f (mr_keyIndex s) st = idx_Range K start end at g (keyIndex m) st"
  using assms(4) scan_keys_mem[OF assms(1,3)]
  by (simp add: simD(1)[OF assms(2)] idx_Range_scan[OF assms(1) ms_invD(1)[OF assms(3)]] split: prod.splits) (auto intro!: ascend_cong)

lemma sim_Range:
  assumes "btree_ok K" "sim K R D m s" "io_ok io" "ms_inv K R m"
  shows "mr_Range K io D start end rv limit s = map_sum MrErr id (ms_Range K R start end rv limit m)"
proof -
  have "idx_Range K start end at (mr_range_visit io D limit (mr_db s)) (mr_keyIndex s) st =
      idx_Range K start end at (range_visit R limit m) (keyIndex m) st" for at st
    by (rule sim_scan[OF assms(1,2,4)]) (auto simp: mr_range_visit_def range_visit_def sim_stored[OF assms(2,3)])
  then show ?thesis
    using simD(4)[OF assms(2)] sim_revision[OF assms(2)] by (simp add: mr_Range_def ms_Range_def Let_def split: option.splits)
qed

section \<open>Writes\<close>

lemma bt_apply_put: "btree_ok D \<Longrightarrow> bt_Get D (apply_op D (WPut k v) db) = (bt_Get D db)(k \<mapsto> v)"
  by (simp add: btree_simps(2))

text \<open>One entry, written at a fresh revision on both sides.\<close>

lemma sim_write:
  assumes D: "btree_ok D" and R: "btree_ok R" and sim: "sim K R D m s" and fresh: "fresh_rev K r m"
    and r: "rev_ok r" and kv: "entry_small k r kv"
    and idx: "\<And>j. revs_of K idx' j = (if j = k then revs_of K (keyIndex m) k @ [r] else revs_of K (keyIndex m) j)"
  shows "sim K R D (m\<lparr>revisionStore := bt_ReplaceOrInsert R r kv (revisionStore m), keyIndex := idx'\<rparr>)
    (s\<lparr>mr_db := apply_op D (WPut (makeStorageKey k r) (kv_Encode kv)) (mr_db s), mr_keyIndex := idx'\<rparr>)"
proof -
  have "rev_ok q \<and> (\<exists>kv'. ((bt_Get R (revisionStore m))(r \<mapsto> kv)) q = Some kv' \<and> entry_small j q kv' \<and>
      ((bt_Get D (mr_db s))(makeStorageKey k r \<mapsto> kv_Encode kv)) (makeStorageKey j q) = Some (kv_Encode kv'))"
    if q: "q \<in> set (revs_of K idx' j)" for q j
  proof (cases "q \<in> set (revs_of K (keyIndex m) j)")
    case True
    then have "q < r" using fresh by (auto simp: fresh_rev_def)
    moreover have "makeStorageKey j q \<noteq> makeStorageKey k r" using \<open>q < r\<close> storage_key_inj simD(5)[OF sim True] r by auto
    ultimately show ?thesis using simD(5,6)[OF sim True] by auto
  next
    case False
    then have "j = k" "q = r" using q by (auto simp: idx split: if_splits)
    then show ?thesis using r kv by simp
  qed
  then show ?thesis using sim unfolding sim_def
    by (simp add: btree_simps(2)[OF R] btree_simps(2)[OF D])
qed

lemma mr_upd_commute: "s\<lparr>mr_keyIndex := i, mr_db := d\<rparr> = s\<lparr>mr_db := d, mr_keyIndex := i\<rparr>"
  by simp

lemma sim_meta:
  assumes "btree_ok D" "sim K R D m s"
  shows "sim K R D m (s\<lparr>mr_db := apply_op D (WPut metaCurrentRevision v) (mr_db s)\<rparr>)"
  using assms(2) by (simp add: sim_def btree_simps(2)[OF assms(1)])

lemma sim_next:
  assumes "sim K R D m s" "gen_Next (revisionGen m) = (g, r)"
  shows "sim K R D (m\<lparr>revisionGen := g\<rparr>) (next_main s)" "mr_currentRev (next_main s) = r"
  using assms by (auto simp: sim_def next_main_def gen_Next_def Let_def)

text \<open>The revisions that a run may draw: room for one more main revision.\<close>

lemma next_rev_ok: "rev_ok g \<Longrightarrow> Main g + 1 < 2 ^ 63 \<Longrightarrow> rev_ok (Revision (Main g + 1) 0)"
  by (simp add: rev_ok_def)

lemma sim_entry_bounds:
  assumes "sim K R D m s" "ms_inv K R m" "live_item K k m = Some ki" "fresh_rev K r m"
  shows "\<exists>kv. last_kv R ki m = Some kv \<and> length k < 2 ^ 32 \<and> 0 \<le> mk_CreateRevision kv \<and> mk_CreateRevision kv \<le> Main r \<and>
    0 \<le> mk_Version kv \<and> (Sub r = 0 \<longrightarrow> mk_Version kv < Main r)"
proof -
  note l = live_item_revs[OF ms_invD(1)[OF assms(2)] assms(3)]
  let ?q = "last (revs_of K (keyIndex m) k)"
  have q: "?q \<in> set (revs_of K (keyIndex m) k)" using l(3) by simp
  obtain kv where kv: "bt_Get R (revisionStore m) ?q = Some kv" "entry_small k ?q kv" using simD(6)[OF assms(1) q] by blast
  have nz: "0 < Main ?q" "0 \<le> Sub ?q" using ms_invD(2)[OF assms(2) q] by auto
  then have "?q \<noteq> Zero" by (auto simp: Zero_def)
  then have "last_kv R ki m = Some kv" using l kv(1) by (simp add: last_kv_def Let_def)
  moreover have "Main ?q \<le> Main r" "Sub r = 0 \<longrightarrow> Main ?q < Main r" using assms(4) q nz by (force simp: fresh_rev_def less_Revision_def)+
  ultimately show ?thesis using kv(2) by (auto simp: entry_small_def)
qed

lemma put_small:
  assumes "sim K R D m s" "ms_inv K R m" "fresh_rev K r m" "Sub r = 0" "length k < 2 ^ 32" "length v < 2 ^ 32" "int64_range l"
  shows "entry_small k r (new_entry K R k v l r m)"
proof (cases "live_item K k m")
  case None
  then show ?thesis using assms(3,5-7) by (auto simp: entry_small_def new_entry_def fresh_rev_def)
next
  case (Some ki)
  then show ?thesis using assms(5-7) sim_entry_bounds[OF assms(1,2) Some assms(3)] assms(4) by (auto simp: entry_small_def new_entry_def)
qed

text \<open>A put of a key that is live or unknown reads the same previous entry on both sides.\<close>

definition put_plain :: "'t key_tree \<Rightarrow> string \<Rightarrow> ('t, 'r) MemoryStore \<Rightarrow> bool" where
  "put_plain K k m \<longleftrightarrow> live_key K (keyIndex m) k \<or> revs_of K (keyIndex m) k = []"

lemma newest_last: "xs \<noteq> [] \<Longrightarrow> (\<And>q. q \<in> set xs \<Longrightarrow> q < r) \<Longrightarrow> newest_upto r xs = last xs"
  by (simp add: newest_upto_def Let_def less_imp_le filter_id_conv)

lemma sim_new_entry:
  assumes "sim K R D m s" "io_ok io" "ms_inv K R m" "fresh_rev K r m" "put_plain K k m"
  shows "mr_new_entry k v l r
      (if \<not> IsZero (GetRevision K k r (mr_keyIndex s)) then prev_info (stored_kv io D k (GetRevision K k r (mr_keyIndex s)) (mr_db s)) else (Main r, 1))
    = new_entry K R k v l r m"
proof -
  note ix = ms_invD(1)[OF assms(3)]
  have gr: "GetRevision K k r (mr_keyIndex s) = newest_upto r (revs_of K (keyIndex m) k)"
    by (simp add: simD(1)[OF assms(1)] GetRevision_newest[OF ix])
  show ?thesis
  proof (cases "live_item K k m")
    case None
    then have "revs_of K (keyIndex m) k = []" using assms(5) live_item_iff[of K k m] by (auto simp: put_plain_def)
    then show ?thesis using None by (simp add: gr newest_upto_def mr_new_entry_def new_entry_def)
  next
    case (Some ki)
    note l = live_item_revs[OF ix Some]
    let ?q = "last (revs_of K (keyIndex m) k)"
    have q: "?q \<in> set (revs_of K (keyIndex m) k)" using l(3) by simp
    have n: "newest_upto r (revs_of K (keyIndex m) k) = ?q"
      by (rule newest_last[OF l(3)]) (use assms(4) in \<open>auto simp: fresh_rev_def\<close>)
    have nz: "?q \<noteq> Zero" using ms_invD(2)[OF assms(3) q] by (auto simp: Zero_def)
    then have "last_kv R ki m = bt_Get R (revisionStore m) ?q" using l by (simp add: last_kv_def Let_def)
    then show ?thesis using Some nz
      by (simp add: gr n sim_stored[OF assms(1,2) q] mr_new_entry_def new_entry_def prev_info_def split: option.splits)
  qed
qed

lemma sim_Put:
  assumes ok: "btree_ok K" "btree_ok R" "btree_ok D" and sim: "sim K R D m s" and io: "io_ok io" and inv: "ms_inv K R m"
    and bound: "Main (revisionGen m) + 1 < 2 ^ 63" and plain: "put_plain K k m"
    and small: "length k < 2 ^ 32" "length v < 2 ^ 32" "int64_range l"
  shows "case (mr_Put K io D k v l s, ms_Put K R k v l m) of ((s', a), (m', b)) \<Rightarrow> sim K R D m' s' \<and> a = map_sum MrErr id b"
proof (cases "k = [] \<or> ms_closed m")
  case True
  then show ?thesis using sim simD(4)[OF sim] by (auto simp: mr_Put_def ms_Put_def)
next
  case False
  obtain g r where g: "gen_Next (revisionGen m) = (g, r)" by force
  note nx = fresh_next[OF inv g] and sn = sim_next[OF sim g]
  let ?m = "m\<lparr>revisionGen := g\<rparr>" and ?s = "next_main s"
  have r: "rev_ok r" using nx(3) bound ms_invD(5)[OF inv] by (simp add: rev_ok_def)
  have plain': "put_plain K k ?m" using plain by (simp add: put_plain_def)
  have e: "entry_small k r (new_entry K R k v l r ?m)"
    by (rule put_small[OF sn(1) nx(1,2) _ small]) (simp add: nx(3))
  have new: "q < r" if "q \<in> set (revs_of K (keyIndex ?m) k)" for q using nx(2) that by (auto simp: fresh_rev_def)
  note w = sim_write[OF ok(3,2) sn(1) nx(2) r e, of "idx_Put K k r (keyIndex ?m)"]
  have "sim K R D (write_entry K R k v l r ?m)
      (?s\<lparr>mr_db := apply_op D (WPut (makeStorageKey k r) (kv_Encode (new_entry K R k v l r ?m))) (mr_db ?s), mr_keyIndex := idx_Put K k r (keyIndex ?m)\<rparr>)"
    unfolding write_entry_def by (rule w) (rule idx_Put_laws(2)[OF ok(1) ms_invD(1)[OF nx(1)] new])
  note sim' = sim_meta[OF ok(3) this, of "rev_Bytes r"]
  have "mr_Put K io D k v l s =
      (case db_Write io D (saveCurrentRevision ?s [WPut (makeStorageKey k r) (kv_Encode (new_entry K R k v l r ?m))]) (mr_db ?s) of
         None \<Rightarrow> (?s, Inl MrDatabase)
       | Some db \<Rightarrow> (?s\<lparr>mr_db := db, mr_keyIndex := idx_Put K k r (mr_keyIndex ?s)\<rparr>, Inr (Main r)))"
    using False simD(4)[OF sim] unfolding mr_Put_def Let_def sn(2) sim_new_entry[OF sn(1) io nx(1,2) plain', of v l] by simp
  then show ?thesis
    using False sim' sn(2) by (simp add: ms_Put_def g io_write[OF io] saveCurrentRevision_def simD(1)[OF sn(1)] mr_upd_commute)
qed

lemma tombstone_small:
  assumes "sim K R D m s" "ms_inv K R m" "live_item K k m = Some ki" "fresh_rev K r m"
  shows "entry_small k r (tombstone R k ki r m)"
  using sim_entry_bounds[OF assms] assms(4) by (auto simp: entry_small_def tombstone_def int64_range_def fresh_rev_def)

lemma sim_tombstone:
  assumes "sim K R D m s" "io_ok io" "ms_inv K R m" "live_item K k m = Some ki"
  shows "mr_tombstone k r (mr_last_kv io D k ki s) = tombstone R k ki r m"
  by (simp add: mr_tombstone_def tombstone_def sim_last_kv[OF assms])

lemma sim_put_tombstone:
  assumes ok: "btree_ok K" "btree_ok R" "btree_ok D" and sim: "sim K R D m s" and inv: "ms_inv K R m"
    and live: "live_item K k m = Some ki" and fresh: "fresh_rev K r m" and r: "rev_ok r"
  shows "sim K R D (put_tombstone K R k ki r m)
    (s\<lparr>mr_db := apply_op D (WPut (makeStorageKey k r) (kv_Encode (tombstone R k ki r m))) (mr_db s),
       mr_keyIndex := fst (idx_Delete K k r (keyIndex m))\<rparr>)"
proof -
  have new: "q < r" if "q \<in> set (revs_of K (keyIndex m) k)" for q using fresh that by (auto simp: fresh_rev_def)
  have lk: "live_key K (keyIndex m) k" using live live_item_iff[of K k m] by simp
  show ?thesis unfolding put_tombstone_def
    by (rule sim_write[OF ok(3,2) sim fresh r tombstone_small[OF sim inv live fresh]])
      (rule idx_Delete_laws(3)[OF ok(1) ms_invD(1)[OF inv] new lk])
qed

lemma sim_Delete:
  assumes ok: "btree_ok K" "btree_ok R" "btree_ok D" and sim: "sim K R D m s" and io: "io_ok io" and inv: "ms_inv K R m"
    and bound: "Main (revisionGen m) + 1 < 2 ^ 63"
  shows "case (mr_Delete K io D k s, ms_Delete K R k m) of ((s', a), (m', b)) \<Rightarrow> sim K R D m' s' \<and> a = map_sum MrErr id b"
proof (cases "k = [] \<or> ms_closed m \<or> live_item K k m = None")
  case True
  then show ?thesis using sim simD(2,4)[OF sim] sim_live_item[OF sim, of k] by (auto simp: mr_Delete_def ms_Delete_def gen_Current_def)
next
  case False
  then obtain ki where ki: "live_item K k m = Some ki" by auto
  obtain g r where g: "gen_Next (revisionGen m) = (g, r)" by force
  note nx = fresh_next[OF inv g] and sn = sim_next[OF sim g]
  let ?m = "m\<lparr>revisionGen := g\<rparr>" and ?s = "next_main s"
  have ki': "live_item K k ?m = Some ki" using ki by (simp add: live_item_def)
  have r: "rev_ok r" using nx(3) bound ms_invD(5)[OF inv] by (simp add: rev_ok_def)
  note t = sim_meta[OF ok(3) sim_put_tombstone[OF ok sn(1) nx(1) ki' nx(2) r], of "rev_Bytes r"]
  have l: "mr_live_item K k s = Some ki" using ki sim_live_item[OF sim] by simp
  show ?thesis
    using False t sn(2) simD(4)[OF sim]
    by (simp add: mr_Delete_def l ms_Delete_def ki g Let_def io_write[OF io] saveCurrentRevision_def simD(1)[OF sn(1)]
        sim_tombstone[OF sn(1) io nx(1) ki'] mr_upd_commute)
qed

subsection \<open>Range deletions\<close>

text \<open>The state with the collected batch written.\<close>

definition flushed :: "'d rocks \<Rightarrow> batch_op list \<Rightarrow> ('t, 'd) RocksDBStore \<Rightarrow> ('t, 'd) RocksDBStore" where
  "flushed D batch s = s\<lparr>mr_db := fold (apply_op D) batch (mr_db s)\<rparr>"

definition batch_keys :: "batch_op list \<Rightarrow> string set \<Rightarrow> bool" where
  "batch_keys batch ks \<longleftrightarrow> (\<forall>opn \<in> set batch. \<exists>k r v. opn = WPut (makeStorageKey k r) v \<and> rev_ok r \<and> k \<in> ks)"

lemma flushed_other:
  assumes "btree_ok D" "batch_keys batch ks" "k \<notin> ks" "rev_ok r"
  shows "bt_Get D (fold (apply_op D) batch db) (makeStorageKey k r) = bt_Get D db (makeStorageKey k r)"
  using assms(2)
proof (induction batch arbitrary: db)
  case (Cons opn batch)
  then obtain k' q v where o: "opn = WPut (makeStorageKey k' q) v" "rev_ok q" "k' \<in> ks" by (auto simp: batch_keys_def)
  have "makeStorageKey k r \<noteq> makeStorageKey k' q" using o assms(3) storage_key_inj[OF assms(4) o(2)] by auto
  then show ?case using Cons o(1) by (simp add: batch_keys_def btree_simps(2)[OF assms(1)])
qed simp

lemma flushed_last_kv:
  assumes D: "btree_ok D" and sim: "sim K R D m (flushed D batch s)" and io: "io_ok io" and inv: "ms_inv K R m"
    and live: "live_item K k m = Some ki" and bk: "batch_keys batch ks" "k \<notin> ks"
  shows "mr_last_kv io D k ki s = mr_last_kv io D k ki (flushed D batch s)"
proof -
  note l = live_item_revs[OF ms_invD(1)[OF inv] live]
  let ?q = "last (revs_of K (keyIndex m) k)"
  have "rev_ok ?q" by (rule simD(5)[OF sim, where k = k]) (use l(3) in simp)
  then have "stored_kv io D k ?q (mr_db (flushed D batch s)) = stored_kv io D k ?q (mr_db s)"
    using flushed_other[OF D bk] by (simp add: stored_kv_def io_get[OF io] flushed_def)
  then show ?thesis using l by (simp add: mr_last_kv_def Let_def)
qed

lemma flushed_snoc: "(flushed D batch s)\<lparr>mr_db := apply_op D opn (mr_db (flushed D batch s)), mr_keyIndex := i\<rparr> = flushed D (batch @ [opn]) (s\<lparr>mr_keyIndex := i\<rparr>)"
  by (simp add: flushed_def)

lemma sim_delete_loop:
  assumes ok: "btree_ok K" "btree_ok R" "btree_ok D" and io: "io_ok io"
    and "sim K R D m (flushed D batch s)" "ms_inv K R m" "fresh_rev K (Revision mn i) m" "distinct keys"
    and "\<And>k. k \<in> set keys \<Longrightarrow> live_key K (keyIndex m) k" "batch_keys batch ks" "set keys \<inter> ks = {}"
    and "mn < 2 ^ 63" "i + int (length keys) < 2 ^ 63"
  shows "case (mr_delete_loop K io D mn i keys (s, batch, d), delete_keys_loop K R mn i keys (m, d, l)) of
    ((s', batch', d'), (m', d'', l')) \<Rightarrow> sim K R D m' (flushed D batch' s') \<and> d' = d''"
  using assms(5-)
proof (induction keys arbitrary: s batch d m i l ks)
  case (Cons k keys)
  obtain ki where ki: "live_item K k m = Some ki" using Cons.prems(5)[of k] live_item_iff[of K k m] by auto
  let ?r = "Revision mn i"
  have r: "rev_ok ?r" using Cons.prems(3,8,9) by (simp add: rev_ok_def fresh_rev_def)
  have kn: "k \<notin> ks" using Cons.prems(7) by auto
  have t: "mr_tombstone k ?r (mr_last_kv io D k ki s) = tombstone R k ki ?r m"
    unfolding flushed_last_kv[OF ok(3) Cons.prems(1) io Cons.prems(2) ki Cons.prems(6) kn]
    by (rule sim_tombstone[OF Cons.prems(1) io Cons.prems(2) ki])
  let ?opn = "WPut (makeStorageKey k ?r) (kv_Encode (tombstone R k ki ?r m))"
  let ?s = "s\<lparr>mr_keyIndex := fst (idx_Delete K k ?r (mr_keyIndex s))\<rparr>"
  have ix: "mr_keyIndex s = keyIndex m" using simD(1)[OF Cons.prems(1)] by (simp add: flushed_def)
  have sim': "sim K R D (put_tombstone K R k ki ?r m) (flushed D (batch @ [?opn]) ?s)"
    using sim_put_tombstone[OF ok Cons.prems(1,2) ki Cons.prems(3) r] unfolding flushed_snoc ix .
  note tl = put_tombstone_laws[OF ok(1,2) Cons.prems(2,3) ki]
  have lk: "mr_live_item K k s = Some ki" using ki ix by (simp add: mr_live_item_def live_item_def)
  have bk: "batch_keys (batch @ [?opn]) (insert k ks)" using Cons.prems(6) r unfolding batch_keys_def by (metis Un_iff insertCI list.set(1) list.set(2) set_append singletonD)
  have "case (mr_delete_loop K io D mn (i + 1) keys (?s, batch @ [?opn], d + 1), delete_keys_loop K R mn (i + 1) keys (put_tombstone K R k ki ?r m, d + 1, i)) of
    ((s', batch', d'), (m', d'', l')) \<Rightarrow> sim K R D m' (flushed D batch' s') \<and> d' = d''"
    by (rule Cons.IH[OF sim' tl(1) tl(3)  _ _ bk]) (use Cons.prems tl(6) in \<open>auto\<close>)
  then show ?case by (simp add: lk ki t Let_def)
qed simp

lemma sim_gen: "sim K R D m s \<Longrightarrow> sim K R D (m\<lparr>revisionGen := g\<rparr>) (s\<lparr>mr_currentRev := g\<rparr>)"
  by (simp add: sim_def)

lemma sim_DeleteRange:
  assumes ok: "btree_ok K" "btree_ok R" "btree_ok D" and sim: "sim K R D m s" and io: "io_ok io" and inv: "ms_inv K R m"
    and bound: "Main (revisionGen m) + 1 < 2 ^ 63" and len: "int (length (collect_keys K start end m)) < 2 ^ 63"
  shows "case (mr_DeleteRange K io D start end s, ms_DeleteRange K R start end m) of ((s', a), (m', b)) \<Rightarrow> sim K R D m' s' \<and> a = map_sum MrErr id b"
proof -
  define keys where "keys = collect_keys K start end m"
  have ck: "mr_collect_keys K start end s = keys" by (simp add: keys_def mr_collect_keys_def collect_keys_def simD(1)[OF sim])
  show ?thesis
  proof (cases "start = [] \<or> ms_closed m \<or> keys = []")
    case True
    then show ?thesis using sim simD(2,4)[OF sim] ck
      by (auto simp: mr_DeleteRange_def ms_DeleteRange_def gen_Current_def keys_def[symmetric] Let_def)
  next
    case False
    obtain g r where g: "gen_Next (revisionGen m) = (g, r)" by force
    note nx = fresh_next[OF inv g] and sn = sim_next[OF sim g]
    let ?m = "m\<lparr>revisionGen := g\<rparr>" and ?s = "next_main s" and ?n = "Main (revisionGen m) + 1"
    obtain s2 batch d where L: "mr_delete_loop K io D ?n 0 keys (?s, [], 0) = (s2, batch, d)" by (cases "mr_delete_loop K io D ?n 0 keys (?s, [], 0)")
    obtain m2 d2 l2 where M: "delete_keys_loop K R ?n 0 keys (?m, 0, 0) = (m2, d2, l2)" by (cases "delete_keys_loop K R ?n 0 keys (?m, 0, 0)")
    have live: "live_key K (keyIndex ?m) k" if "k \<in> set keys" for k
      using that collect_keys_live(3)[OF ok(1) inv, of start "end"] by (simp add: keys_def)
    have dist: "distinct keys" using collect_keys_live(2)[OF ok(1) inv] by (simp add: keys_def)
    have fresh: "fresh_rev K (Revision ?n 0) ?m" using nx(2,3) by simp
    have fs: "flushed D [] ?s = ?s" by (simp add: flushed_def)
    have "case (mr_delete_loop K io D ?n 0 keys (?s, [], 0), delete_keys_loop K R ?n 0 keys (?m, 0, 0)) of
      ((s', batch', d'), (m', d'', l')) \<Rightarrow> sim K R D m' (flushed D batch' s') \<and> d' = d''"
      by (rule sim_delete_loop[OF ok io _ nx(1) fresh dist live, of "[]" _ "{}"]) (use sn(1) fs bound len in \<open>simp_all add: batch_keys_def keys_def\<close>)
    then have sim2: "sim K R D m2 (flushed D batch s2)" and d: "d = d2" by (simp_all add: L M)
    from delete_keys_loop_laws[OF ok(1,2) nx(1) fresh dist live, of 0 0, unfolded M]
    have m2: "revisionGen m2 = Revision ?n 0" "d2 = int (length keys)" "l2 = int (length keys) - 1"
      using False nx(3,4) by (simp_all add: same_frame_def)
    have pos: "0 < length keys" using False by simp
    let ?g = "Revision ?n (int (length keys) - 1)"
    have out: "ms_DeleteRange K R start end m = (m2\<lparr>revisionGen := ?g\<rparr>, Inr (?n, int (length keys)))"
    proof -
      have eq: "m2 = m2\<lparr>revisionGen := ?g\<rparr>" if "\<not> Suc 0 < length keys"
      proof -
        have "length keys = 1" using that pos by linarith
        then show ?thesis using m2(1) by simp
      qed
      show ?thesis using False g nx(3) M m2 pos by (auto simp: ms_DeleteRange_def keys_def[symmetric] Let_def intro: eq split: if_splits)
    qed
    have cur: "mr_currentRev s2 = Revision ?n 0" using simD(2)[OF sim2] m2(1) by (simp add: flushed_def)
    have "sim K R D (m2\<lparr>revisionGen := ?g\<rparr>) ((flushed D batch s2)\<lparr>mr_currentRev := ?g\<rparr>)" by (rule sim_gen[OF sim2])
    note fin = sim_meta[OF ok(3) this, of "rev_Bytes ?g"]
    have "mr_DeleteRange K io D start end s =
        (s2\<lparr>mr_currentRev := ?g, mr_db := apply_op D (WPut metaCurrentRevision (rev_Bytes ?g)) (fold (apply_op D) batch (mr_db s2))\<rparr>, Inr (?n, int (length keys)))"
      using False ck sn(2) nx(3) L d m2(2) pos cur simD(4)[OF sim] by (auto simp: mr_DeleteRange_def Let_def saveCurrentRevision_def io_write[OF io])
    then show ?thesis using out fin by (simp add: flushed_def)
  qed
qed

subsection \<open>Compaction\<close>

lemma fold_delete_get:
  "btree_ok D \<Longrightarrow> bt_Get D (fold (apply_op D) (map (\<lambda>(dk, v). WDelete dk) es) db) k = (if k \<in> fst ` set es then None else bt_Get D db k)"
  by (induction es arbitrary: db) (auto simp: btree_simps(3))

lemma fold_bt_Delete_get:
  "btree_ok R \<Longrightarrow> bt_Get R (fold (\<lambda>ri. bt_Delete R (fst ri)) es t) k = (if k \<in> fst ` set es then None else bt_Get R t k)"
  by (induction es arbitrary: t) (auto simp: btree_simps(3))

lemma sim_Compact:
  assumes ok: "btree_ok K" "btree_ok R" "btree_ok D" and sim: "sim K R D m s" and io: "io_ok io" and inv: "ms_inv K R m"
  shows "case (mr_Compact K io D rv s, ms_Compact K R rv m) of ((s', a), (m', b)) \<Rightarrow> sim K R D m' s' \<and> a = map_sum MrErr id b"
proof (cases "ms_closed m \<or> Revision rv 0 \<le> compactedRev m \<or> revisionGen m < Revision rv 0")
  case True
  then show ?thesis using sim simD(2-4)[OF sim] by (auto simp: mr_Compact_def ms_Compact_def gen_Current_def Let_def)
next
  case False
  let ?t = "Revision rv 0"
  define old where "old = filter (\<lambda>(dk, v). case parseStorageKey dk of None \<Rightarrow> False | Some (_, keyRev) \<Rightarrow> LessThan keyRev ?t) (mvcc_entries D (mr_db s))"
  define dead where "dead = filter (\<lambda>ri. LessThan (fst ri) ?t) (bt_Ascend R (revisionStore m))"
  define db where "db = fold (apply_op D) (map (\<lambda>(dk, v). WDelete dk) old @ [WPut metaCompactedRevision (rev_Bytes ?t)]) (mr_db s)"
  let ?m = "m\<lparr>keyIndex := fst (idx_Compact K ?t (keyIndex m)), revisionStore := fold (\<lambda>ri. bt_Delete R (fst ri)) dead (revisionStore m), compactedRev := ?t\<rparr>"
  let ?s = "s\<lparr>mr_compactedRev := ?t, mr_db := db, mr_keyIndex := fst (idx_Compact K ?t (keyIndex m))\<rparr>"
  have "mr_Compact K io D rv s = (?s, Inr ())" "ms_Compact K R rv m = (?m, Inr ())"
    using False simD(1-4)[OF sim] by (simp_all add: mr_Compact_def ms_Compact_def gen_Current_def Let_def io_write[OF io] db_def old_def dead_def not_less not_le)
  moreover have "sim K R D ?m ?s"
  proof -
    have "rev_ok q \<and> (\<exists>kv. bt_Get R (revisionStore ?m) q = Some kv \<and> entry_small j q kv \<and> bt_Get D db (makeStorageKey j q) = Some (kv_Encode kv))"
      if q: "q \<in> set (revs_of K (keyIndex ?m) j)" for q j
    proof -
      have q': "q \<in> set (revs_of K (keyIndex m) j)" "?t \<le> q" using q idx_Compact_laws(2)[OF ok(1) ms_invD(1)[OF inv], of ?t j] by auto
      have "makeStorageKey j q \<notin> fst ` set old" using parse_make[OF simD(5)[OF sim q'(1)], of j] q'(2) by (auto simp: old_def)
      then have "bt_Get D db (makeStorageKey j q) = bt_Get D (mr_db s) (makeStorageKey j q)"
        by (simp add: db_def btree_simps(2)[OF ok(3)] fold_delete_get[OF ok(3)])
      moreover have "q \<notin> fst ` set dead" using q'(2) by (auto simp: dead_def)
      ultimately show ?thesis using simD(5,6)[OF sim q'(1)] by (simp add: fold_bt_Delete_get[OF ok(2)])
    qed
    then show ?thesis using simD(1-4)[OF sim] by (simp add: sim_def)
  qed
  ultimately show ?thesis by simp
qed

section \<open>Sequences of calls\<close>

datatype mvcc_call =
    PutCall string string int
  | DeleteCall string
  | DeleteRangeCall string "string option"
  | GetCall string int
  | RangeCall string "string option" int int
  | CompactCall int
  | RevisionsCall
  | CloseCall

datatype mvcc_answer =
  AnsError mvcc_error | AnsDatabase | AnsRevision int | AnsDeleted int int | AnsKv mvcc_kv | AnsKvs "mvcc_kv list" int | AnsRevisions int int | AnsOk

definition answer :: "('a \<Rightarrow> mvcc_answer) \<Rightarrow> mr_error + 'a \<Rightarrow> mvcc_answer" where
  "answer f r = (case r of Inl (MrErr e) \<Rightarrow> AnsError e | Inl MrDatabase \<Rightarrow> AnsDatabase | Inr x \<Rightarrow> f x)"

fun ms_call :: "'t key_tree \<Rightarrow> 'r rev_tree \<Rightarrow> mvcc_call \<Rightarrow> ('t, 'r) MemoryStore \<Rightarrow> ('t, 'r) MemoryStore \<times> mvcc_answer" where
  "ms_call K R (PutCall k v l) m = map_prod id (answer AnsRevision \<circ> map_sum MrErr id) (ms_Put K R k v l m)"
| "ms_call K R (DeleteCall k) m = map_prod id (answer (\<lambda>(r, n). AnsDeleted r n) \<circ> map_sum MrErr id) (ms_Delete K R k m)"
| "ms_call K R (DeleteRangeCall a b) m = map_prod id (answer (\<lambda>(r, n). AnsDeleted r n) \<circ> map_sum MrErr id) (ms_DeleteRange K R a b m)"
| "ms_call K R (GetCall k rv) m = (m, answer AnsKv (map_sum MrErr id (ms_Get K R k rv m)))"
| "ms_call K R (RangeCall a b rv n) m = (m, answer (\<lambda>(kvs, c). AnsKvs kvs c) (map_sum MrErr id (ms_Range K R a b rv n m)))"
| "ms_call K R (CompactCall rv) m = map_prod id (answer (\<lambda>_. AnsOk) \<circ> map_sum MrErr id) (ms_Compact K R rv m)"
| "ms_call K R RevisionsCall m = (m, AnsRevisions (ms_CurrentRevision m) (ms_CompactedRevision m))"
| "ms_call K R CloseCall m = map_prod id (answer (\<lambda>_. AnsOk) \<circ> map_sum MrErr id) (ms_Close m)"

fun mr_call :: "'t key_tree \<Rightarrow> io \<Rightarrow> 'd rocks \<Rightarrow> mvcc_call \<Rightarrow> ('t, 'd) RocksDBStore \<Rightarrow> ('t, 'd) RocksDBStore \<times> mvcc_answer" where
  "mr_call K io D (PutCall k v l) s = map_prod id (answer AnsRevision) (mr_Put K io D k v l s)"
| "mr_call K io D (DeleteCall k) s = map_prod id (answer (\<lambda>(r, n). AnsDeleted r n)) (mr_Delete K io D k s)"
| "mr_call K io D (DeleteRangeCall a b) s = map_prod id (answer (\<lambda>(r, n). AnsDeleted r n)) (mr_DeleteRange K io D a b s)"
| "mr_call K io D (GetCall k rv) s = (s, answer AnsKv (mr_Get K io D k rv s))"
| "mr_call K io D (RangeCall a b rv n) s = (s, answer (\<lambda>(kvs, c). AnsKvs kvs c) (mr_Range K io D a b rv n s))"
| "mr_call K io D (CompactCall rv) s = map_prod id (answer (\<lambda>_. AnsOk)) (mr_Compact K io D rv s)"
| "mr_call K io D RevisionsCall s = (s, AnsRevisions (mr_CurrentRevision s) (mr_CompactedRevision s))"
| "mr_call K io D CloseCall s = map_prod id (answer (\<lambda>_. AnsOk)) (mr_Close s)"

fun ms_calls :: "'t key_tree \<Rightarrow> 'r rev_tree \<Rightarrow> mvcc_call list \<Rightarrow> ('t, 'r) MemoryStore \<Rightarrow> ('t, 'r) MemoryStore \<times> mvcc_answer list" where
  "ms_calls K R [] m = (m, [])"
| "ms_calls K R (c # cs) m = (let (m', a) = ms_call K R c m; (m'', as) = ms_calls K R cs m' in (m'', a # as))"

fun mr_calls :: "'t key_tree \<Rightarrow> io \<Rightarrow> 'd rocks \<Rightarrow> mvcc_call list \<Rightarrow> ('t, 'd) RocksDBStore \<Rightarrow> ('t, 'd) RocksDBStore \<times> mvcc_answer list" where
  "mr_calls K io D [] s = (s, [])"
| "mr_calls K io D (c # cs) s = (let (s', a) = mr_call K io D c s; (s'', as) = mr_calls K io D cs s' in (s'', a # as))"

text \<open>The calls for which the stores agree: sizes within the formats, and no put of a key whose last write was a deletion.\<close>

fun call_ok :: "'t key_tree \<Rightarrow> mvcc_call \<Rightarrow> ('t, 'r) MemoryStore \<Rightarrow> bool" where
  "call_ok K (PutCall k v l) m \<longleftrightarrow> put_plain K k m \<and> length k < 2 ^ 32 \<and> length v < 2 ^ 32 \<and> int64_range l"
| "call_ok K (DeleteRangeCall a b) m \<longleftrightarrow> int (length (collect_keys K a b m)) < 2 ^ 63"
| "call_ok K _ m \<longleftrightarrow> True"

fun calls_ok :: "'t key_tree \<Rightarrow> 'r rev_tree \<Rightarrow> mvcc_call list \<Rightarrow> ('t, 'r) MemoryStore \<Rightarrow> bool" where
  "calls_ok K R [] m \<longleftrightarrow> True"
| "calls_ok K R (c # cs) m \<longleftrightarrow> call_ok K c m \<and> calls_ok K R cs (fst (ms_call K R c m))"

lemma ms_call_inv:
  assumes "btree_ok K" "btree_ok R" "ms_inv K R m"
  shows "ms_inv K R (fst (ms_call K R c m))"
proof -
  have "mvcc_step K R m (fst (ms_call K R c m)) \<or> fst (ms_call K R c m) = m"
  proof (cases c)
    case (PutCall k v l)
    then show ?thesis by (auto intro!: step_write put[of K R k v l m "fst (ms_Put K R k v l m)" "snd (ms_Put K R k v l m)"])
  next
    case (DeleteCall k)
    then show ?thesis by (auto intro!: step_write delete[of K R k m "fst (ms_Delete K R k m)" "snd (ms_Delete K R k m)"])
  next
    case (DeleteRangeCall a b)
    then show ?thesis by (auto intro!: step_write delete_range[of K R a b m "fst (ms_DeleteRange K R a b m)" "snd (ms_DeleteRange K R a b m)"])
  next
    case (CompactCall rv)
    then show ?thesis by (auto intro!: step_compact[of K R rv m "fst (ms_Compact K R rv m)" "snd (ms_Compact K R rv m)"])
  next
    case CloseCall
    then show ?thesis by (auto intro!: step_close[of m "fst (ms_Close m)" "snd (ms_Close m)"])
  qed auto
  then show ?thesis using mvcc_step_inv[OF assms(1,2) _ assms(3)] assms(3) by auto
qed

lemma ms_call_main:
  assumes "btree_ok K" "btree_ok R" "ms_inv K R m"
  shows "Main (revisionGen (fst (ms_call K R c m))) \<le> Main (revisionGen m) + 1"
proof (cases c)
  case (DeleteRangeCall a b)
  obtain m' out where o: "ms_DeleteRange K R a b m = (m', out)" by force
  have "Main (revisionGen m') \<le> Main (revisionGen m) + 1"
  proof (cases "a = [] \<or> ms_closed m")
    case True
    then show ?thesis using o by (auto simp: ms_DeleteRange_def split: if_splits)
  next
    case False
    then show ?thesis using ms_DeleteRange_cases(1,2)[OF assms _ _ o] by (cases "collect_keys K a b m = []") auto
  qed
  then show ?thesis using DeleteRangeCall o by simp
qed (auto simp: ms_Put_def ms_Delete_def ms_Compact_def ms_Close_def gen_Next_def write_entry_def put_tombstone_def Let_def split: option.splits)

lemma sim_call:
  assumes ok: "btree_ok K" "btree_ok R" "btree_ok D" and sim: "sim K R D m s" and io: "io_ok io" and inv: "ms_inv K R m"
    and bound: "Main (revisionGen m) + 1 < 2 ^ 63" and cok: "call_ok K c m"
  shows "sim K R D (fst (ms_call K R c m)) (fst (mr_call K io D c s))" "snd (mr_call K io D c s) = snd (ms_call K R c m)"
proof -
  have "sim K R D (fst (ms_call K R c m)) (fst (mr_call K io D c s)) \<and> snd (mr_call K io D c s) = snd (ms_call K R c m)"
  proof (cases c)
    case (PutCall k v l)
    then show ?thesis using sim_Put[OF ok sim io inv bound, of k v l] cok by (auto simp: split: prod.splits)
  next
    case (DeleteCall k)
    then show ?thesis using sim_Delete[OF ok sim io inv bound, of k] by (auto split: prod.splits)
  next
    case (DeleteRangeCall a b)
    then show ?thesis using sim_DeleteRange[OF ok sim io inv bound, of a b] cok by (auto split: prod.splits)
  next
    case (CompactCall rv)
    then show ?thesis using sim_Compact[OF ok sim io inv, of rv] by (auto split: prod.splits)
  next
    case (GetCall k rv)
    then show ?thesis using sim sim_Get[OF sim io inv, of k rv] by simp
  next
    case (RangeCall a b rv n)
    then show ?thesis using sim sim_Range[OF ok(1) sim io inv, of a b rv n] by simp
  next
    case RevisionsCall
    then show ?thesis using sim by (simp add: mr_CurrentRevision_def mr_CompactedRevision_def ms_CurrentRevision_def ms_CompactedRevision_def sim_def gen_Current_def)
  next
    case CloseCall
    then show ?thesis using sim by (auto simp: mr_Close_def ms_Close_def sim_def answer_def)
  qed
  then show "sim K R D (fst (ms_call K R c m)) (fst (mr_call K io D c s))" "snd (mr_call K io D c s) = snd (ms_call K R c m)" by auto
qed

lemma sim_calls:
  assumes ok: "btree_ok K" "btree_ok R" "btree_ok D" and io: "io_ok io"
    and "sim K R D m s" "ms_inv K R m" "Main (revisionGen m) + int (length cs) < 2 ^ 63" "calls_ok K R cs m"
  shows "sim K R D (fst (ms_calls K R cs m)) (fst (mr_calls K io D cs s)) \<and> snd (mr_calls K io D cs s) = snd (ms_calls K R cs m)"
  using assms(5-)
proof (induction cs arbitrary: m s)
  case (Cons c cs)
  have c: "call_ok K c m" "calls_ok K R cs (fst (ms_call K R c m))" "Main (revisionGen m) + 1 < 2 ^ 63" using Cons.prems(3,4) by simp_all
  note st = sim_call[OF ok Cons.prems(1) io Cons.prems(2) c(3,1)]
  have b: "Main (revisionGen (fst (ms_call K R c m))) + int (length cs) < 2 ^ 63"
    using ms_call_main[OF ok(1,2) Cons.prems(2), of c] Cons.prems(3) by simp
  show ?case using Cons.IH[OF st(1) ms_call_inv[OF ok(1,2) Cons.prems(2)] b c(2)] st(2) by (simp add: Let_def case_prod_unfold)
qed simp

lemma mvcc_entries_new: "btree_ok D \<Longrightarrow> mvcc_entries D (bt_New D) = []"
proof -
  assume D: "btree_ok D"
  have "bt_Ascend D (bt_New D) = []" using btree_simps(1)[OF D] btree_simps(4)[OF D] by (metis list.set_intros(1) neq_Nil_conv option.distinct(1) surj_pair)
  then show ?thesis by (simp add: mvcc_entries_def btree_simps(5)[OF D])
qed

lemma open_empty:
  assumes "btree_ok D" "io_ok io"
  shows "NewRocksDBStore K io D False (bt_New D) =
    Inr \<lparr>mr_db = bt_New D, mr_keyIndex = NewKeyIndex K, mr_currentRev = Zero, mr_compactedRev = Zero, mr_closed = False\<rparr>"
  by (simp add: NewRocksDBStore_def loadMetadata_def load_revision_def io_get[OF assms(2)] btree_simps(1)[OF assms(1)]
      rebuildKeyIndex_def mvcc_entries_new[OF assms(1)])



end
