(* ===== verification/Mvcc_Rocks_Recovery.thy ===== *)
theory Mvcc_Rocks_Recovery
  imports Mvcc_Rocks_Agreement
begin

text \<open>
  Opening the MVCC store on RocksDB again: the scan over the stored entries rebuilds the key index that the calls
  had built. Then two ways in which the store departs from the in-memory one: a put after a deletion, and two
  puts of one key in a transaction.
\<close>

section \<open>Order of storage keys\<close>

lemma append_less_same [simp]: "p @ a < p @ b \<longleftrightarrow> a < (b :: string)"
  by (induction p) auto

lemma storage_key_less: "rev_ok r \<Longrightarrow> rev_ok q \<Longrightarrow> makeStorageKey k r < makeStorageKey k q \<longleftrightarrow> r < q"
  using rev_bytes_less [of r q] rev_ok_range [of r] rev_ok_range [of q] by (simp add: makeStorageKey_def rev_ok_def)

definition is_entry :: "string \<Rightarrow> bool" where
  "is_entry dk \<longleftrightarrow> take (length kvMVCCPrefix) dk = kvMVCCPrefix"

lemma is_entry_iff: "is_entry dk \<longleftrightarrow> (\<exists>t. dk = kvMVCCPrefix @ t)"
  by (metis append_eq_conv_conj append_take_drop_id is_entry_def)

lemma storage_is_entry [simp]: "is_entry (makeStorageKey k r)" "\<not> is_entry metaCurrentRevision" "\<not> is_entry metaCompactedRevision"
  by (simp_all add: is_entry_def makeStorageKey_def metaCurrentRevision_def metaCompactedRevision_def kvMVCCPrefix_def)

lemma takeWhile_entries:
  "sorted (map fst es) \<Longrightarrow> (\<And>e. e \<in> set es \<Longrightarrow> kvMVCCPrefix \<le> fst e) \<Longrightarrow>
     takeWhile (\<lambda>(dk, v). is_entry dk) es = filter (\<lambda>(dk, v). is_entry dk) es"
proof (induction es)
  case (Cons e es)
  show ?case
  proof (cases "is_entry (fst e)")
    case False
    have "\<not> is_entry (fst e')" if "e' \<in> set es" for e'
    proof
      assume "is_entry (fst e')"
      then obtain t where "fst e' = kvMVCCPrefix @ t" by (auto simp: is_entry_iff)
      moreover have "fst e \<le> fst e'" using Cons.prems(1) that by auto
      ultimately show False using False between_prefixes[of kvMVCCPrefix "fst e" t] Cons.prems(2)[of e] by (auto simp: is_entry_iff)
    qed
    then have "filter (\<lambda>(dk, v). is_entry dk) es = []" by (auto simp: filter_empty_conv)
    then show ?thesis using False by (cases e) simp
  qed (use Cons in \<open>cases e, auto\<close>)
qed simp

lemma mvcc_entries_filter:
  assumes "btree_ok D"
  shows "mvcc_entries D db = filter (\<lambda>(dk, v). is_entry dk) (bt_Ascend D db)"
proof -
  have "mvcc_entries D db = filter (\<lambda>(dk, v). is_entry dk) (filter (\<lambda>(k', v). kvMVCCPrefix \<le> k') (bt_Ascend D db))"
    unfolding mvcc_entries_def is_entry_def[symmetric] btree_simps(5)[OF assms]
    by (rule takeWhile_entries) (use btree_simps(6)[OF assms] in \<open>auto intro: sorted_filter\<close>)
  also have "\<dots> = filter (\<lambda>(dk, v). is_entry dk) (bt_Ascend D db)"
    by (auto simp: filter_filter case_prod_unfold is_entry_iff prefix_le intro!: filter_cong)
  finally show ?thesis .
qed

section \<open>Items built from events\<close>

text \<open>The index operations on the item of one key.\<close>

definition put_item :: "string \<Rightarrow> Revision \<Rightarrow> KeyItem option \<Rightarrow> KeyItem option" where
  "put_item k r item =
     (case item of
        None \<Rightarrow> Some \<lparr>ki_Key = k, ki_Generations = [\<lparr>g_Created = r, g_Revisions = [r]\<rparr>], ki_Modified = r\<rparr>
      | Some ki \<Rightarrow> Some (ki\<lparr>ki_Generations := (if IsDeleted ki then ki_Generations ki @ [\<lparr>g_Created = r, g_Revisions = [r]\<rparr>]
                      else append_to_current r ki), ki_Modified := r\<rparr>))"

definition delete_item :: "Revision \<Rightarrow> KeyItem option \<Rightarrow> KeyItem option" where
  "delete_item r item =
     (case item of
        None \<Rightarrow> None
      | Some ki \<Rightarrow> if IsDeleted ki then Some ki
                   else Some (ki\<lparr>ki_Modified := r, ki_Generations := append_to_current r ki @ [\<lparr>g_Created = r, g_Revisions = []\<rparr>]\<rparr>))"

definition event_item :: "string \<Rightarrow> Revision \<times> bool \<Rightarrow> KeyItem option \<Rightarrow> KeyItem option" where
  "event_item k e = (if snd e then delete_item (fst e) else put_item k (fst e))"

lemma idx_get:
  assumes "btree_ok K"
  shows "bt_Get K (idx_Put K k r idx) j = (if j = k then put_item k r (bt_Get K idx k) else bt_Get K idx j)"
    "bt_Get K (fst (idx_Delete K k r idx)) j = (if j = k then delete_item r (bt_Get K idx k) else bt_Get K idx j)"
  by (auto simp: idx_Put_def idx_Delete_def put_item_def delete_item_def btree_simps(2)[OF assms] Let_def split: option.splits)

text \<open>The events that a scan finds for a key.\<close>

definition entry_event :: "string \<times> string \<Rightarrow> (string \<times> Revision \<times> bool) option" where
  "entry_event e =
     (case parseStorageKey (fst e) of
        None \<Rightarrow> None
      | Some (k, r) \<Rightarrow> map_option (\<lambda>kv. (k, r, mk_Version kv = 0)) (kv_Decode (snd e)))"

definition key_events :: "string \<Rightarrow> (string \<times> string) list \<Rightarrow> (Revision \<times> bool) list" where
  "key_events k es = map snd (filter (\<lambda>(k', e). k' = k) (List.map_filter entry_event es))"

lemma map_filter_Cons: "List.map_filter f (x # xs) = (case f x of None \<Rightarrow> List.map_filter f xs | Some y \<Rightarrow> y # List.map_filter f xs)"
  by (simp add: List.map_filter_simps)

lemma rebuild_get:
  assumes "btree_ok K" "\<And>e ev. e \<in> set es \<Longrightarrow> entry_event e = Some ev \<Longrightarrow> \<not> fst (snd ev) < cpt"
  shows "bt_Get K (fold (rebuild_entry K cpt) es idx) k = fold (event_item k) (key_events k es) (bt_Get K idx k)"
  using assms(2)
proof (induction es arbitrary: idx)
  case (Cons e es)
  have "bt_Get K (rebuild_entry K cpt e idx) k =
      (case entry_event e of None \<Rightarrow> bt_Get K idx k | Some (k', ev) \<Rightarrow> if k' = k then event_item k ev (bt_Get K idx k) else bt_Get K idx k)"
  proof (cases "entry_event e")
    case (Some ev)
    then obtain k' r kv where e: "parseStorageKey (fst e) = Some (k', r)" "kv_Decode (snd e) = Some kv" "ev = (k', r, mk_Version kv = 0)"
      by (auto simp: entry_event_def split: option.splits)
    then have "\<not> r < cpt" using Cons.prems[OF _ Some] by simp
    then show ?thesis using e Some by (simp add: rebuild_entry_def event_item_def idx_get[OF assms(1)])
  qed (auto simp: rebuild_entry_def entry_event_def split: option.splits)
  moreover have "bt_Get K (fold (rebuild_entry K cpt) es (rebuild_entry K cpt e idx)) k =
      fold (event_item k) (key_events k es) (bt_Get K (rebuild_entry K cpt e idx) k)"
    by (rule Cons.IH) (rule Cons.prems, auto)
  ultimately show ?case
    by (auto simp: key_events_def map_filter_Cons split: option.splits)
qed (simp add: key_events_def List.map_filter_simps)

section \<open>What is stored and what is indexed\<close>

definition tomb_at :: "'d rocks \<Rightarrow> 'd \<Rightarrow> string \<Rightarrow> Revision \<Rightarrow> bool" where
  "tomb_at D db k r \<longleftrightarrow>
     (case bt_Get D db (makeStorageKey k r) of None \<Rightarrow> False
      | Some v \<Rightarrow> (case kv_Decode v of None \<Rightarrow> False | Some kv \<Rightarrow> mk_Version kv = 0))"

definition core :: "'t key_tree \<Rightarrow> 'd rocks \<Rightarrow> 't \<Rightarrow> 'd \<Rightarrow> bool" where
  "core K D idx db \<longleftrightarrow> index_ok K idx \<and>
     (\<forall>k. \<forall>r \<in> set (revs_of K idx k). rev_ok r \<and> 0 < Main r \<and>
        (\<exists>kv. bt_Get D db (makeStorageKey k r) = Some (kv_Encode kv) \<and> entry_small k r kv)) \<and>
     (\<forall>dk v. is_entry dk \<longrightarrow> bt_Get D db dk = Some v \<longrightarrow> (\<exists>k. \<exists>r \<in> set (revs_of K idx k). dk = makeStorageKey k r)) \<and>
     (\<forall>k. bt_Get K idx k = fold (event_item k) (map (\<lambda>r. (r, tomb_at D db k r)) (revs_of K idx k)) None)"

lemma coreD:
  assumes "core K D idx db"
  shows "index_ok K idx" "r \<in> set (revs_of K idx k) \<Longrightarrow> rev_ok r \<and> 0 < Main r"
    "r \<in> set (revs_of K idx k) \<Longrightarrow> \<exists>kv. bt_Get D db (makeStorageKey k r) = Some (kv_Encode kv) \<and> entry_small k r kv"
    "is_entry dk \<Longrightarrow> bt_Get D db dk = Some v \<Longrightarrow> \<exists>k. \<exists>r \<in> set (revs_of K idx k). dk = makeStorageKey k r"
    "bt_Get K idx k = fold (event_item k) (map (\<lambda>r. (r, tomb_at D db k r)) (revs_of K idx k)) None"
  using assms unfolding core_def by blast+

lemma core_cong: "(\<And>dk. is_entry dk \<Longrightarrow> bt_Get D db' dk = bt_Get D db dk) \<Longrightarrow> core K D idx db \<Longrightarrow> core K D idx db'"
  by (auto simp: core_def tomb_at_def)

definition event_index :: "'t key_tree \<Rightarrow> string \<Rightarrow> Revision \<Rightarrow> mvcc_kv \<Rightarrow> 't \<Rightarrow> 't" where
  "event_index K k r kv idx = (if mk_Version kv = 0 then fst (idx_Delete K k r idx) else idx_Put K k r idx)"

lemma core_event:
  assumes ok: "btree_ok K" "btree_ok D" and core: "core K D idx db" and r: "rev_ok r" "0 < Main r"
    and fresh: "\<forall>j. \<forall>q \<in> set (revs_of K idx j). q < r" and kv: "entry_small k r kv" "mk_Version kv = 0 \<longrightarrow> live_key K idx k"
  shows "core K D (event_index K k r kv idx) (apply_op D (WPut (makeStorageKey k r) (kv_Encode kv)) db)"
    "revs_of K (event_index K k r kv idx) j = (if j = k then revs_of K idx k @ [r] else revs_of K idx j)"
proof -
  let ?idx = "event_index K k r kv idx" and ?db = "apply_op D (WPut (makeStorageKey k r) (kv_Encode kv)) db"
  note ix = coreD(1)[OF core]
  have new: "q < r" if "q \<in> set (revs_of K idx k)" for q using fresh that by blast
  have idx: "index_ok K ?idx" "\<And>j. revs_of K ?idx j = (if j = k then revs_of K idx k @ [r] else revs_of K idx j)"
    using idx_Put_laws(1,2)[OF ok(1) ix new] idx_Delete_laws(2,3)[OF ok(1) ix new] kv(2) by (auto simp: event_index_def)
  show "revs_of K ?idx j = (if j = k then revs_of K idx k @ [r] else revs_of K idx j)" by (rule idx(2))
  have db: "bt_Get D ?db = (bt_Get D db)(makeStorageKey k r \<mapsto> kv_Encode kv)" by (simp add: btree_simps(2)[OF ok(2)])
  have ne: "makeStorageKey j q \<noteq> makeStorageKey k r" if "q \<in> set (revs_of K idx j)" for j q
    using that fresh storage_key_inj coreD(2)[OF core that] r(1) by auto
  have enc: "kv_Decode (kv_Encode kv) = Some kv" by (rule decode_encode_kv[OF entry_small_encodable[OF r(1) kv(1)]])
  have tn: "tomb_at D ?db k r = (mk_Version kv = 0)" using enc by (simp add: tomb_at_def db del: apply_op.simps)
  have told: "tomb_at D ?db j q = tomb_at D db j q" if "q \<in> set (revs_of K idx j)" for j q
    using ne[OF that] by (simp add: tomb_at_def db del: apply_op.simps)
  have tmap: "map (\<lambda>q. (q, tomb_at D ?db j q)) (revs_of K idx j) = map (\<lambda>q. (q, tomb_at D db j q)) (revs_of K idx j)" for j
    using told by auto
  have g: "bt_Get K ?idx j = (if j = k then event_item k (r, mk_Version kv = 0) (bt_Get K idx k) else bt_Get K idx j)" for j
    by (simp add: event_index_def event_item_def idx_get[OF ok(1)])
  have item: "bt_Get K ?idx j = fold (event_item j) (map (\<lambda>q. (q, tomb_at D ?db j q)) (revs_of K ?idx j)) None" for j
    using coreD(5)[OF core, of j] by (cases "j = k") (simp_all add: tn tmap g idx(2) del: apply_op.simps)
  have "\<exists>k'. \<exists>r' \<in> set (revs_of K ?idx k'). dk = makeStorageKey k' r'" if e: "is_entry dk" "bt_Get D ?db dk = Some v" for dk v
  proof (cases "dk = makeStorageKey k r")
    case True
    then show ?thesis using idx(2)[of k] by (intro exI[of _ k] bexI[of _ r]) simp_all
  next
    case False
    then obtain k' r' where "r' \<in> set (revs_of K idx k')" "dk = makeStorageKey k' r'"
      using e coreD(4)[OF core e(1)] by (auto simp: db simp del: apply_op.simps)
    then show ?thesis using idx(2)[of k'] by (intro exI[of _ k'] bexI[of _ r']) auto
  qed
  moreover have "rev_ok q \<and> 0 < Main q \<and> (\<exists>kv. bt_Get D ?db (makeStorageKey j q) = Some (kv_Encode kv) \<and> entry_small j q kv)"
    if "q \<in> set (revs_of K ?idx j)" for j q
  proof (cases "q \<in> set (revs_of K idx j)")
    case True
    then show ?thesis using coreD(2,3)[OF core True] ne[OF True] by (simp add: db del: apply_op.simps)
  next
    case False
    then have "j = k" "q = r" using that idx(2)[of j] by (auto split: if_splits)
    then show ?thesis using r kv(1) by (auto simp: db simp del: apply_op.simps)
  qed
  ultimately show "core K D ?idx ?db" unfolding core_def using idx(1) item by blast
qed

section \<open>The invariant\<close>

definition mr_inv :: "'t key_tree \<Rightarrow> 'd rocks \<Rightarrow> ('t, 'd) RocksDBStore \<Rightarrow> bool" where
  "mr_inv K D s \<longleftrightarrow> core K D (mr_keyIndex s) (mr_db s) \<and> rev_ok (mr_currentRev s) \<and>
     (\<forall>k. \<forall>r \<in> set (revs_of K (mr_keyIndex s) k). Main r \<le> Main (mr_currentRev s)) \<and> mr_compactedRev s = Zero \<and>
     bt_Get D (mr_db s) metaCompactedRevision = None \<and>
     (bt_Get D (mr_db s) metaCurrentRevision = Some (rev_Bytes (mr_currentRev s)) \<or>
      bt_Get D (mr_db s) metaCurrentRevision = None \<and> mr_currentRev s = Zero)"

lemma core_stored:
  assumes "core K D idx db" "io_ok io" "q \<in> set (revs_of K idx k)"
  shows "\<exists>kv. stored_kv io D k q db = Some kv \<and> entry_small k q kv"
proof -
  obtain kv where "bt_Get D db (makeStorageKey k q) = Some (kv_Encode kv)" "entry_small k q kv" using coreD(3)[OF assms(1,3)] by blast
  moreover have "kv_Decode (kv_Encode kv) = Some kv" by (rule decode_encode_kv[OF entry_small_encodable]) (use coreD(2)[OF assms(1,3)] calculation in auto)
  ultimately show ?thesis by (simp add: stored_kv_def io_get[OF assms(2)])
qed

lemma mr_live_revs:
  assumes "index_ok K (mr_keyIndex s)" "mr_live_item K k s = Some ki"
  shows "CurrentGeneration ki = Some (last (ki_Generations ki))" "LastRevision (last (ki_Generations ki)) = last (revs_of K (mr_keyIndex s) k)"
    "revs_of K (mr_keyIndex s) k \<noteq> []" "live_key K (mr_keyIndex s) k"
proof -
  have get: "bt_Get K (mr_keyIndex s) k = Some ki" "\<not> IsDeleted ki"
    using assms(2) by (auto simp: mr_live_item_def idx_Get_def split: option.splits if_splits)
  note ok = index_okD[OF assms(1) get(1)]
  show "CurrentGeneration ki = Some (last (ki_Generations ki))" by (rule CurrentGeneration_last[OF ok(2)])
  show "LastRevision (last (ki_Generations ki)) = last (revs_of K (mr_keyIndex s) k)" "revs_of K (mr_keyIndex s) k \<noteq> []"
    using last_all_revs[OF ok(2) get(2)] get(1) by (simp_all add: revs_of_def)
  show "live_key K (mr_keyIndex s) k" using get by (simp add: live_key_def)
qed

lemma tombstone_fits:
  assumes core: "core K D (mr_keyIndex s) db" and io: "io_ok io" and live: "mr_live_item K k s = Some ki"
    and same: "\<And>q. q \<in> set (revs_of K (mr_keyIndex s) k) \<Longrightarrow> bt_Get D (mr_db s) (makeStorageKey k q) = bt_Get D db (makeStorageKey k q)"
    and le: "\<And>q. q \<in> set (revs_of K (mr_keyIndex s) k) \<Longrightarrow> Main q \<le> Main r"
  shows "entry_small k r (mr_tombstone k r (mr_last_kv io D k ki s))"
proof -
  note l = mr_live_revs[OF coreD(1)[OF core] live]
  let ?q = "last (revs_of K (mr_keyIndex s) k)"
  have q: "?q \<in> set (revs_of K (mr_keyIndex s) k)" using l(3) by simp
  obtain kv where kv: "stored_kv io D k ?q db = Some kv" "entry_small k ?q kv" using core_stored[OF core io q] by blast
  have "stored_kv io D k ?q (mr_db s) = Some kv" using kv(1) same[OF q] by (simp add: stored_kv_def io_get[OF io])
  moreover have "?q \<noteq> Zero" using coreD(2)[OF core q] by (auto simp: Zero_def)
  ultimately have "mr_last_kv io D k ki s = Some kv" using l by (simp add: mr_last_kv_def Let_def)
  then show ?thesis using kv(2) le[OF q] coreD(2)[OF core q] by (auto simp: mr_tombstone_def entry_small_def int64_range_def)
qed

lemma fresh_main: "Main q \<le> m \<Longrightarrow> q < Revision (m + 1) i"
  by (simp add: less_Revision_def)

lemma core_meta: "btree_ok D \<Longrightarrow> core K D idx db \<Longrightarrow> core K D idx (apply_op D (WPut metaCurrentRevision v) db)"
  by (erule core_cong[rotated]) (auto simp: btree_simps(2))

text \<open>A batch of entries and the new current revision, written over a state that satisfies the invariant.\<close>

lemma mr_inv_write:
  assumes "btree_ok D" "mr_inv K D s" "core K D idx db" "rev_ok r" "\<And>k q. q \<in> set (revs_of K idx k) \<Longrightarrow> Main q \<le> Main r"
    "bt_Get D db metaCompactedRevision = None"
  shows "mr_inv K D (s\<lparr>mr_currentRev := r, mr_db := apply_op D (WPut metaCurrentRevision (rev_Bytes r)) db, mr_keyIndex := idx\<rparr>)"
  using core_meta[OF assms(1,3)] assms(2,4-) by (auto simp: mr_inv_def btree_simps(2)[OF assms(1)])

lemma mr_Put_inv:
  assumes ok: "btree_ok K" "btree_ok D" and io: "io_ok io" and inv: "mr_inv K D s" and bound: "Main (mr_currentRev s) + 1 < 2 ^ 63"
    and small: "length k < 2 ^ 32" "length v < 2 ^ 32" "int64_range l"
  shows "mr_inv K D (fst (mr_Put K io D k v l s))" "Main (mr_currentRev (fst (mr_Put K io D k v l s))) \<le> Main (mr_currentRev s) + 1"
proof -
  have core: "core K D (mr_keyIndex s) (mr_db s)" and cur: "rev_ok (mr_currentRev s)" and le: "\<And>j q. q \<in> set (revs_of K (mr_keyIndex s) j) \<Longrightarrow> Main q \<le> Main (mr_currentRev s)"
    and meta: "mr_compactedRev s = Zero" "bt_Get D (mr_db s) metaCompactedRevision = None" using inv by (auto simp: mr_inv_def)
  let ?r = "Revision (Main (mr_currentRev s) + 1) 0"
  define pr where "pr = GetRevision K k ?r (mr_keyIndex s)"
  define kv where "kv = mr_new_entry k v l ?r (if \<not> IsZero pr then prev_info (stored_kv io D k pr (mr_db s)) else (Main ?r, 1))"
  have r: "rev_ok ?r" "0 < Main ?r" using cur bound by (simp_all add: rev_ok_def)
  have mem: "pr \<in> set (revs_of K (mr_keyIndex s) k)" if "pr \<noteq> Zero"
    using that newest_mem by (simp add: pr_def GetRevision_newest[OF coreD(1)[OF core]])
  have e: "entry_small k ?r kv" "mk_Version kv \<noteq> 0"
  proof -
    have "entry_small k ?r kv \<and> mk_Version kv \<noteq> 0"
    proof (cases "pr = Zero")
      case True
      then show ?thesis using small r(2) by (simp add: kv_def mr_new_entry_def entry_small_def)
    next
      case False
      obtain kv' where kv': "stored_kv io D k pr (mr_db s) = Some kv'" "entry_small k pr kv'" using core_stored[OF core io mem[OF False]] by blast
      then show ?thesis using False small le[OF mem[OF False]] by (auto simp: kv_def mr_new_entry_def entry_small_def prev_info_def)
    qed
    then show "entry_small k ?r kv" "mk_Version kv \<noteq> 0" by auto
  qed
  have fresh: "\<forall>j. \<forall>q \<in> set (revs_of K (mr_keyIndex s) j). q < ?r" using fresh_main le by blast
  let ?idx = "idx_Put K k ?r (mr_keyIndex s)" and ?db = "apply_op D (WPut metaCurrentRevision (rev_Bytes ?r)) (apply_op D (WPut (makeStorageKey k ?r) (kv_Encode kv)) (mr_db s))"
  have ev: "event_index K k ?r kv (mr_keyIndex s) = ?idx" using e(2) by (simp add: event_index_def)
  note ce = core_event[OF ok core r fresh e(1), unfolded ev]
  have ce1: "core K D ?idx (apply_op D (WPut (makeStorageKey k ?r) (kv_Encode kv)) (mr_db s))"
      "revs_of K ?idx j = (if j = k then revs_of K (mr_keyIndex s) k @ [?r] else revs_of K (mr_keyIndex s) j)" for j
    by (rule ce; use e(2) in simp)+
  have put: "fst (mr_Put K io D k v l s) = s \<or> fst (mr_Put K io D k v l s) = s\<lparr>mr_currentRev := ?r, mr_db := ?db, mr_keyIndex := ?idx\<rparr>"
    unfolding mr_Put_def Let_def next_main_def
    by (simp add: pr_def[symmetric] io_write[OF io] saveCurrentRevision_def) (simp add: kv_def)
  have "mr_inv K D (s\<lparr>mr_currentRev := ?r, mr_db := ?db, mr_keyIndex := ?idx\<rparr>)"
    by (rule mr_inv_write[OF ok(2) inv ce1(1) r(1)])
      (use ce1(2) le meta in \<open>auto simp: btree_simps(2)[OF ok(2)] intro: order_trans[OF le] split: if_splits\<close>)
  then show "mr_inv K D (fst (mr_Put K io D k v l s))" using put inv by metis
  show "Main (mr_currentRev (fst (mr_Put K io D k v l s))) \<le> Main (mr_currentRev s) + 1" using put by auto
qed

lemma mr_last_kv_rev [simp]: "mr_last_kv io D k ki (s\<lparr>mr_currentRev := r\<rparr>) = mr_last_kv io D k ki s"
  by (simp add: mr_last_kv_def Let_def split: option.split)

lemma mr_Delete_inv:
  assumes ok: "btree_ok K" "btree_ok D" and io: "io_ok io" and inv: "mr_inv K D s" and bound: "Main (mr_currentRev s) + 1 < 2 ^ 63"
  shows "mr_inv K D (fst (mr_Delete K io D k s))" "Main (mr_currentRev (fst (mr_Delete K io D k s))) \<le> Main (mr_currentRev s) + 1"
proof -
  have "mr_inv K D (fst (mr_Delete K io D k s)) \<and> Main (mr_currentRev (fst (mr_Delete K io D k s))) \<le> Main (mr_currentRev s) + 1"
  proof (cases "k = [] \<or> mr_closed s \<or> mr_live_item K k s = None")
    case True
    then show ?thesis using inv by (auto simp: mr_Delete_def)
  next
    case False
    then obtain ki where ki: "mr_live_item K k s = Some ki" by auto
    have core: "core K D (mr_keyIndex s) (mr_db s)" and cur: "rev_ok (mr_currentRev s)"
      and le: "\<And>j q. q \<in> set (revs_of K (mr_keyIndex s) j) \<Longrightarrow> Main q \<le> Main (mr_currentRev s)"
      and meta: "bt_Get D (mr_db s) metaCompactedRevision = None" using inv by (auto simp: mr_inv_def)
    let ?r = "Revision (Main (mr_currentRev s) + 1) 0"
    let ?kv = "mr_tombstone k ?r (mr_last_kv io D k ki s)"
    have r: "rev_ok ?r" "0 < Main ?r" using cur bound by (simp_all add: rev_ok_def)
    have e: "entry_small k ?r ?kv" by (rule tombstone_fits[OF core io ki]) (use le in force)+
    have v: "mk_Version ?kv = 0" by (simp add: mr_tombstone_def)
    have fresh: "\<forall>j. \<forall>q \<in> set (revs_of K (mr_keyIndex s) j). q < ?r" using fresh_main le by blast
    let ?idx = "fst (idx_Delete K k ?r (mr_keyIndex s))" and ?db = "apply_op D (WPut (makeStorageKey k ?r) (kv_Encode ?kv)) (mr_db s)"
    have ev: "event_index K k ?r ?kv (mr_keyIndex s) = ?idx" using v by (simp add: event_index_def)
    note ce = core_event[OF ok core r fresh e impI[OF mr_live_revs(4)[OF coreD(1)[OF core] ki]], unfolded ev]
    have "mr_inv K D (s\<lparr>mr_currentRev := ?r, mr_db := apply_op D (WPut metaCurrentRevision (rev_Bytes ?r)) ?db, mr_keyIndex := ?idx\<rparr>)"
      by (rule mr_inv_write[OF ok(2) inv ce(1) r(1)])
        (use ce(2) le meta in \<open>auto simp: btree_simps(2)[OF ok(2)] intro: order_trans[OF le] split: if_splits\<close>)
    moreover have "fst (mr_Delete K io D k s) = s\<lparr>mr_currentRev := ?r, mr_db := apply_op D (WPut metaCurrentRevision (rev_Bytes ?r)) ?db, mr_keyIndex := ?idx\<rparr>"
      using False ki by (simp add: mr_Delete_def next_main_def Let_def io_write[OF io] saveCurrentRevision_def)
    ultimately show ?thesis by simp
  qed
  then show "mr_inv K D (fst (mr_Delete K io D k s))" "Main (mr_currentRev (fst (mr_Delete K io D k s))) \<le> Main (mr_currentRev s) + 1" by auto
qed

section \<open>Range deletions\<close>

lemma fold_entries_meta:
  assumes "btree_ok D" "batch_keys batch ks" "\<not> is_entry dk"
  shows "bt_Get D (fold (apply_op D) batch db) dk = bt_Get D db dk"
  using assms(2)
proof (induction batch arbitrary: db)
  case (Cons opn batch)
  then obtain k r v where o: "opn = WPut (makeStorageKey k r) v" by (auto simp: batch_keys_def)
  then have "dk \<noteq> makeStorageKey k r" using assms(3) by auto
  then show ?case using Cons o by (simp add: batch_keys_def btree_simps(2)[OF assms(1)])
qed simp

definition loop_inv :: "'t key_tree \<Rightarrow> 'd rocks \<Rightarrow> ('t, 'd) RocksDBStore \<Rightarrow> int \<Rightarrow> int \<Rightarrow> string set \<Rightarrow> ('t, 'd) RocksDBStore \<times> batch_op list \<times> int \<Rightarrow> bool" where
  "loop_inv K D s0 mn i ks st \<longleftrightarrow> (case st of (s, batch, d) \<Rightarrow>
     core K D (mr_keyIndex s) (fold (apply_op D) batch (mr_db s)) \<and> s = s0\<lparr>mr_keyIndex := mr_keyIndex s\<rparr> \<and> batch_keys batch ks \<and>
     (\<forall>k. \<forall>q \<in> set (revs_of K (mr_keyIndex s) k). Main q \<le> mn \<and> q < Revision mn i))"

lemma delete_loop_step:
  assumes ok: "btree_ok K" "btree_ok D" and io: "io_ok io" and inv: "loop_inv K D s0 mn i ks (s, batch, d)" and new: "k \<notin> ks"
    and r: "rev_ok (Revision mn i)" "0 < mn" and live: "mr_live_item K k s = Some ki"
  shows "loop_inv K D s0 mn (i + 1) (insert k ks)
    (s\<lparr>mr_keyIndex := fst (idx_Delete K k (Revision mn i) (mr_keyIndex s))\<rparr>,
     batch @ [WPut (makeStorageKey k (Revision mn i)) (kv_Encode (mr_tombstone k (Revision mn i) (mr_last_kv io D k ki s)))], d')"
proof -
  let ?r = "Revision mn i"
  let ?kv = "mr_tombstone k ?r (mr_last_kv io D k ki s)" and ?db = "fold (apply_op D) batch (mr_db s)"
  have core: "core K D (mr_keyIndex s) ?db" and bk: "batch_keys batch ks" and s: "s = s0\<lparr>mr_keyIndex := mr_keyIndex s\<rparr>"
    and le: "\<And>j q. q \<in> set (revs_of K (mr_keyIndex s) j) \<Longrightarrow> Main q \<le> mn \<and> q < ?r" using inv by (auto simp: loop_inv_def)
  have e: "entry_small k ?r ?kv"
    by (rule tombstone_fits[OF core io live]) (use le flushed_other[OF ok(2) bk new] coreD(2)[OF core] in auto)
  let ?idx = "fst (idx_Delete K k ?r (mr_keyIndex s))"
  have ev: "event_index K k ?r ?kv (mr_keyIndex s) = ?idx" by (simp add: event_index_def mr_tombstone_def)
  have r': "0 < Main ?r" using r(2) by simp
  have fresh: "\<forall>j. \<forall>q \<in> set (revs_of K (mr_keyIndex s) j). q < ?r" using le by blast
  note ce = core_event[OF ok core r(1) r' fresh e impI[OF mr_live_revs(4)[OF coreD(1)[OF core] live]], unfolded ev]
  have bk': "batch_keys (batch @ [WPut (makeStorageKey k ?r) (kv_Encode ?kv)]) (insert k ks)"
    using bk r(1) unfolding batch_keys_def by (metis Un_iff insertCI list.set(1) list.set(2) set_append singletonD)
  have rv: "revs_of K ?idx j = (if j = k then revs_of K (mr_keyIndex s) k @ [?r] else revs_of K (mr_keyIndex s) j)" for j by (rule ce(2))
  have rest: "Main q \<le> mn \<and> q < Revision mn (i + 1)" if "q \<in> set (revs_of K ?idx j)" for q j
  proof (cases "q = ?r")
    case False
    then have "q \<in> set (revs_of K (mr_keyIndex s) j)" using that rv[of j] by (auto split: if_splits)
    from le[OF this] show ?thesis by (auto simp: less_Revision_def)
  qed (simp add: less_Revision_def)
  have "s\<lparr>mr_keyIndex := ?idx\<rparr> = s0\<lparr>mr_keyIndex := ?idx\<rparr>" "mr_db s = mr_db s0" by (subst s, simp, subst s, simp)
  moreover have "core K D ?idx (apply_op D (WPut (makeStorageKey k ?r) (kv_Encode ?kv)) ?db)" by (rule ce(1))
  ultimately show ?thesis using bk' rest by (simp add: loop_inv_def)
qed

lemma loop_inv_mono: "loop_inv K D s0 mn i ks st \<Longrightarrow> i \<le> j \<Longrightarrow> ks \<subseteq> ks' \<Longrightarrow> loop_inv K D s0 mn j ks' st"
proof -
  assume a: "loop_inv K D s0 mn i ks st" "i \<le> j" "ks \<subseteq> ks'"
  have "batch_keys batch ks'" if "batch_keys batch ks" for batch using that a(3) unfolding batch_keys_def by blast
  moreover have "q < Revision mn j" if "q < Revision mn i" for q using that a(2) by (auto simp: less_Revision_def)
  ultimately show ?thesis using a(1) by (auto simp: loop_inv_def simp del: apply_op.simps)
qed

lemma delete_loop_inv:
  assumes ok: "btree_ok K" "btree_ok D" and io: "io_ok io" and mn: "0 < mn" "mn < 2 ^ 63"
    and "loop_inv K D s0 mn i ks st" "distinct keys" "set keys \<inter> ks = {}" "0 \<le> i" "i + int (length keys) < 2 ^ 63"
  shows "loop_inv K D s0 mn (i + int (length keys)) (ks \<union> set keys) (mr_delete_loop K io D mn i keys st)"
  using assms(6-)
proof (induction keys arbitrary: i ks st)
  case (Cons k keys)
  obtain s batch d where st: "st = (s, batch, d)" by (cases st)
  have r: "rev_ok (Revision mn i)" using mn Cons.prems(4,5) by (simp add: rev_ok_def)
  define st' where "st' = (case mr_live_item K k s of None \<Rightarrow> (s, batch, d)
     | Some ki \<Rightarrow> let r = Revision mn i; kv = mr_tombstone k r (mr_last_kv io D k ki s)
         in (s\<lparr>mr_keyIndex := fst (idx_Delete K k r (mr_keyIndex s))\<rparr>, batch @ [WPut (makeStorageKey k r) (kv_Encode kv)], d + 1))"
  have "loop_inv K D s0 mn (i + 1) (insert k ks) st'"
  proof (cases "mr_live_item K k s")
    case None
    then show ?thesis using loop_inv_mono[OF Cons.prems(1), of "i + 1" "insert k ks"] by (auto simp: st'_def st)
  next
    case (Some ki)
    show ?thesis using delete_loop_step[OF ok io Cons.prems(1)[unfolded st] _ r mn(1) Some] Cons.prems(3) by (simp add: st'_def Some Let_def)
  qed
  then have "loop_inv K D s0 mn (i + 1 + int (length keys)) (insert k ks \<union> set keys) (mr_delete_loop K io D mn (i + 1) keys st')"
    by (rule Cons.IH) (use Cons.prems in auto)
  moreover have "i + 1 + int (length keys) = i + int (length (k # keys))" "insert k ks \<union> set keys = ks \<union> set (k # keys)" by auto
  moreover have "mr_delete_loop K io D mn i (k # keys) st = mr_delete_loop K io D mn (i + 1) keys st'" unfolding st st'_def by simp
  ultimately show ?case by metis
qed simp

lemma collect_keys_distinct:
  assumes "btree_ok K" "index_ok K (mr_keyIndex s)"
  shows "distinct (mr_collect_keys K start end s)"
  using index_scan_sorted[OF assms(1)]
  by (simp add: mr_collect_keys_def idx_Range_scan[OF assms] ascend_append[of _ "[]", simplified])

lemma mr_DeleteRange_inv:
  assumes ok: "btree_ok K" "btree_ok D" and io: "io_ok io" and inv: "mr_inv K D s" and bound: "Main (mr_currentRev s) + 1 < 2 ^ 63"
    and len: "int (length (mr_collect_keys K start end s)) < 2 ^ 63"
  shows "mr_inv K D (fst (mr_DeleteRange K io D start end s)) \<and> Main (mr_currentRev (fst (mr_DeleteRange K io D start end s))) \<le> Main (mr_currentRev s) + 1"
proof (cases "start = [] \<or> mr_closed s \<or> mr_collect_keys K start end s = []")
  case True
  then show ?thesis using inv by (auto simp: mr_DeleteRange_def Let_def)
next
  case False
  define keys where "keys = mr_collect_keys K start end s"
  define mn where "mn = Main (mr_currentRev s) + 1"
  have core: "core K D (mr_keyIndex s) (mr_db s)" and cur: "rev_ok (mr_currentRev s)"
    and le: "\<And>j q. q \<in> set (revs_of K (mr_keyIndex s) j) \<Longrightarrow> Main q \<le> Main (mr_currentRev s)"
    and meta: "bt_Get D (mr_db s) metaCompactedRevision = None" using inv by (auto simp: mr_inv_def)
  have mn: "0 < mn" "mn < 2 ^ 63" using cur bound by (simp_all add: rev_ok_def mn_def)
  let ?s = "next_main s"
  have s: "mr_keyIndex ?s = mr_keyIndex s" "mr_db ?s = mr_db s" "mr_currentRev ?s = Revision mn 0" by (simp_all add: next_main_def mn_def)
  obtain s2 batch d where L: "mr_delete_loop K io D mn 0 keys (?s, [], 0) = (s2, batch, d)" by (cases "mr_delete_loop K io D mn 0 keys (?s, [], 0)")
  have "loop_inv K D ?s mn 0 {} (?s, [], 0)"
    unfolding loop_inv_def using core le by (force simp: s batch_keys_def mn_def less_Revision_def)
  then have "loop_inv K D ?s mn (0 + int (length keys)) ({} \<union> set keys) (mr_delete_loop K io D mn 0 keys (?s, [], 0))"
    by (rule delete_loop_inv[OF ok io mn]) (use collect_keys_distinct[OF ok(1) coreD(1)[OF core]] len in \<open>simp_all add: keys_def\<close>)
  then have l: "core K D (mr_keyIndex s2) (fold (apply_op D) batch (mr_db s2))" "s2 = ?s\<lparr>mr_keyIndex := mr_keyIndex s2\<rparr>" "batch_keys batch (set keys)"
      "\<And>j q. q \<in> set (revs_of K (mr_keyIndex s2) j) \<Longrightarrow> Main q \<le> mn"
    unfolding L by (auto simp: loop_inv_def simp del: apply_op.simps)
  define r where "r = (if d > 0 then Revision mn (int (length keys) - 1) else Revision mn 0)"
  have pos: "0 < length keys" using False by (simp add: keys_def)
  have r: "rev_ok r" "Main r = mn" using pos mn len by (simp_all add: r_def rev_ok_def keys_def[symmetric])
  have c2: "mr_currentRev s2 = Revision mn 0" "mr_db s2 = mr_db s" using l(2) s by (metis RocksDBStore.select_convs RocksDBStore.surjective RocksDBStore.update_convs(2))+
  have "mr_inv K D (s\<lparr>mr_currentRev := r, mr_db := apply_op D (WPut metaCurrentRevision (rev_Bytes r)) (fold (apply_op D) batch (mr_db s2)), mr_keyIndex := mr_keyIndex s2\<rparr>)"
    by (rule mr_inv_write[OF ok(2) inv l(1) r(1)]) (use l(4) r(2) meta c2(2) fold_entries_meta[OF ok(2) l(3)] in auto)
  moreover have "fst (mr_DeleteRange K io D start end s) =
      s\<lparr>mr_currentRev := r, mr_db := apply_op D (WPut metaCurrentRevision (rev_Bytes r)) (fold (apply_op D) batch (mr_db s2)), mr_keyIndex := mr_keyIndex s2\<rparr>"
  proof -
    define ix where "ix = mr_keyIndex s2"
    have s2: "s2 = s\<lparr>mr_currentRev := Revision mn 0, mr_keyIndex := ix\<rparr>" using l(2) by (simp add: next_main_def mn_def ix_def)
    show ?thesis using False L c2 pos unfolding s2
      by (simp add: mr_DeleteRange_def keys_def[symmetric] s Let_def saveCurrentRevision_def io_write[OF io] r_def)
  qed
  ultimately show ?thesis using r(2) by (simp add: mn_def)
qed

section \<open>Reopening\<close>

lemma key_events_set: "(r, t) \<in> set (key_events k es) \<longleftrightarrow> (\<exists>e \<in> set es. entry_event e = Some (k, r, t))"
  by (force simp: key_events_def List.map_filter_def image_iff)

lemma key_events_sorted:
  assumes "sorted_wrt P es"
    "\<And>e e' x y. e \<in> set es \<Longrightarrow> e' \<in> set es \<Longrightarrow> P e e' \<Longrightarrow> entry_event e = Some (k, x) \<Longrightarrow> entry_event e' = Some (k, y) \<Longrightarrow> fst x < fst y"
  shows "sorted_wrt (<) (map fst (key_events k es))"
  using assms
proof (induction es)
  case (Cons e es)
  have IH: "sorted_wrt (<) (map fst (key_events k es))" by (rule Cons.IH) (use Cons.prems(1) in simp, rule Cons.prems(2), auto)
  show ?case
  proof (cases "\<exists>x. entry_event e = Some (k, x)")
    case True
    then obtain x where x: "entry_event e = Some (k, x)" by blast
    have "fst x < fst y" if y: "y \<in> set (key_events k es)" for y
    proof -
      obtain e' where "e' \<in> set es" "entry_event e' = Some (k, y)" using y key_events_set[of "fst y" "snd y" k es] by auto
      then show ?thesis using Cons.prems(1) x by (intro Cons.prems(2)[of e e']) simp_all
    qed
    then show ?thesis using IH x by (auto simp: key_events_def map_filter_Cons)
  next
    case False
    then show ?thesis using IH by (auto simp: key_events_def map_filter_Cons split: option.splits)
  qed
qed (simp add: key_events_def List.map_filter_simps)

lemma core_entry_event:
  assumes "core K D idx db" "r \<in> set (revs_of K idx k)" "bt_Get D db (makeStorageKey k r) = Some v"
  shows "entry_event (makeStorageKey k r, v) = Some (k, r, tomb_at D db k r)"
proof -
  obtain kv where kv: "v = kv_Encode kv" "entry_small k r kv" using coreD(3)[OF assms(1,2)] assms(3) by auto
  have r: "rev_ok r" using coreD(2)[OF assms(1,2)] by simp
  have "kv_Decode v = Some kv" unfolding kv(1) by (rule decode_encode_kv[OF entry_small_encodable[OF r kv(2)]])
  then show ?thesis using assms(3) by (simp add: entry_event_def parse_make[OF r] tomb_at_def)
qed

lemma core_key_events:
  assumes D: "btree_ok D" and core: "core K D idx db"
  shows "key_events k (mvcc_entries D db) = map (\<lambda>r. (r, tomb_at D db k r)) (revs_of K idx k)"
proof -
  let ?es = "mvcc_entries D db" and ?t = "\<lambda>r. (r, tomb_at D db k r)"
  have mem: "(dk, v) \<in> set ?es \<longleftrightarrow> is_entry dk \<and> bt_Get D db dk = Some v" for dk v
    by (auto simp: mvcc_entries_filter[OF D] btree_simps(4)[OF D])
  have at: "\<exists>j. \<exists>r \<in> set (revs_of K idx j). e = (makeStorageKey j r, snd e) \<and> entry_event e = Some (j, r, tomb_at D db j r)" if e: "e \<in> set ?es" for e
  proof -
    have g: "is_entry (fst e)" "bt_Get D db (fst e) = Some (snd e)" using e mem[of "fst e" "snd e"] by simp_all
    obtain j r where "r \<in> set (revs_of K idx j)" "fst e = makeStorageKey j r" using coreD(4)[OF core g] by blast
    then show ?thesis using core_entry_event[OF core, of r j "snd e"] g(2) by (metis prod.collapse)
  qed
  have set_eq: "set (key_events k ?es) = ?t ` set (revs_of K idx k)"
  proof -
    have "(\<exists>e \<in> set ?es. entry_event e = Some (k, r, b)) \<longleftrightarrow> r \<in> set (revs_of K idx k) \<and> b = tomb_at D db k r" for r b
    proof
      assume "r \<in> set (revs_of K idx k) \<and> b = tomb_at D db k r"
      then obtain v where "bt_Get D db (makeStorageKey k r) = Some v" "r \<in> set (revs_of K idx k)" "b = tomb_at D db k r" using coreD(3)[OF core] by blast
      then show "\<exists>e \<in> set ?es. entry_event e = Some (k, r, b)" using core_entry_event[OF core] mem by fastforce
    qed (use at in fastforce)
    then show ?thesis using key_events_set[of _ _ k ?es] by auto
  qed
  have "sorted_wrt (\<lambda>e e'. fst e < fst e') ?es"
  proof -
    have "sorted_wrt (<) (map fst (bt_Ascend D db))" using btree_simps(6,7)[OF D] by (simp add: strict_sorted_iff)
    then show ?thesis by (simp add: mvcc_entries_filter[OF D] sorted_wrt_map sorted_wrt_filter)
  qed
  then have "sorted_wrt (<) (map fst (key_events k ?es))"
  proof (rule key_events_sorted)
    fix e e' x y assume a: "e \<in> set ?es" "e' \<in> set ?es" "fst e < fst e'" "entry_event e = Some (k, x)" "entry_event e' = Some (k, y)"
    obtain r where r: "r \<in> set (revs_of K idx k)" "fst e = makeStorageKey k r" "fst x = r" using at[OF a(1)] a(4) by (metis Pair_inject fst_conv option.inject)
    obtain q where q: "q \<in> set (revs_of K idx k)" "fst e' = makeStorageKey k q" "fst y = q" using at[OF a(2)] a(5) by (metis Pair_inject fst_conv option.inject)
    show "fst x < fst y" using a(3) r q storage_key_less[of r q k] coreD(2)[OF core] by simp
  qed
  moreover have "set (map fst (key_events k ?es)) = set (revs_of K idx k)" using set_eq by (simp add: image_image)
  ultimately have m: "map fst (key_events k ?es) = revs_of K idx k" using strict_sorted_equal sorted_revs_of[OF coreD(1)[OF core]] by blast
  have "map ?t (map fst (key_events k ?es)) = key_events k ?es" unfolding map_map by (rule map_idI) (use set_eq in auto)
  then show ?thesis using m by simp
qed

lemma mr_inv_reopen:
  assumes ok: "btree_ok K" "btree_ok D" and io: "io_ok io" and inv: "mr_inv K D s"
  shows "\<exists>s1. NewRocksDBStore K io D False (mr_db s) = Inr s1 \<and> mr_db s1 = mr_db s \<and> mr_currentRev s1 = mr_currentRev s \<and>
    mr_compactedRev s1 = mr_compactedRev s \<and> \<not> mr_closed s1 \<and> (\<forall>k. bt_Get K (mr_keyIndex s1) k = bt_Get K (mr_keyIndex s) k)"
proof -
  have core: "core K D (mr_keyIndex s) (mr_db s)" and cur: "rev_ok (mr_currentRev s)" and cz: "mr_compactedRev s = Zero"
    and meta: "bt_Get D (mr_db s) metaCompactedRevision = None" "bt_Get D (mr_db s) metaCurrentRevision = Some (rev_Bytes (mr_currentRev s)) \<or>
      bt_Get D (mr_db s) metaCurrentRevision = None \<and> mr_currentRev s = Zero" using inv by (auto simp: mr_inv_def)
  have "length (rev_Bytes (mr_currentRev s)) = 16" "ParseRevision (rev_Bytes (mr_currentRev s)) = mr_currentRev s"
    using parse_rev_bytes[of "mr_currentRev s"] rev_ok_range[OF cur] by (simp_all add: RevisionSize_def)
  then have load: "loadMetadata io D (mr_db s) = Some (mr_currentRev s, Zero)"
    using meta by (auto simp: loadMetadata_def load_revision_def io_get[OF io])
  have "\<not> fst (snd ev) < Zero" if e: "e \<in> set (mvcc_entries D (mr_db s))" "entry_event e = Some ev" for e ev
  proof -
    have "(fst (snd ev), snd (snd ev)) \<in> set (key_events (fst ev) (mvcc_entries D (mr_db s)))" using e unfolding key_events_set by auto
    then have "fst (snd ev) \<in> set (revs_of K (mr_keyIndex s) (fst ev))" by (auto simp: core_key_events[OF ok(2) core])
    from coreD(2)[OF core this] show ?thesis by (auto simp: Zero_def less_Revision_def)
  qed
  from rebuild_get[OF ok(1) this] have "bt_Get K (rebuildKeyIndex K D Zero (mr_db s) (NewKeyIndex K)) k = bt_Get K (mr_keyIndex s) k" for k
    using coreD(5)[OF core, of k] by (simp add: rebuildKeyIndex_def core_key_events[OF ok(2) core] NewKeyIndex_def btree_simps(1)[OF ok(1)])
  then show ?thesis using load cz by (simp add: NewRocksDBStore_def)
qed

text \<open>The reads depend on the tree only through its contents.\<close>

lemma ascend_from_get:
  assumes "btree_ok K" "\<And>k. bt_Get K t1 k = bt_Get K t2 k"
  shows "bt_Ascend K t1 = bt_Ascend K t2"
proof (rule map_sorted_distinct_set_unique[of fst])
  show "set (bt_Ascend K t1) = set (bt_Ascend K t2)" using assms(2) btree_simps(4)[OF assms(1)] by auto
  then show "inj_on fst (set (bt_Ascend K t1) \<union> set (bt_Ascend K t2))" using btree_simps(7)[OF assms(1), of t1] by (simp add: distinct_map)
qed (use btree_simps(6,7)[OF assms(1)] in auto)

lemma mr_reads_cong:
  assumes "btree_ok K" "\<And>k. bt_Get K (mr_keyIndex s1) k = bt_Get K (mr_keyIndex s) k" "mr_db s1 = mr_db s" "mr_currentRev s1 = mr_currentRev s"
    "mr_compactedRev s1 = mr_compactedRev s" "mr_closed s1 = mr_closed s"
  shows "mr_Get K io D k rv s1 = mr_Get K io D k rv s" "mr_Range K io D a b rv n s1 = mr_Range K io D a b rv n s"
proof -
  have ck: "mr_read_revision rv s1 = mr_read_revision rv s" "mr_check_revision at s1 = mr_check_revision at s" for at
    by (simp_all add: mr_read_revision_def mr_check_revision_def assms)
  have gr: "GetRevision K k at (mr_keyIndex s1) = GetRevision K k at (mr_keyIndex s)" for at by (simp add: GetRevision_def idx_Get_def assms(2))
  show "mr_Get K io D k rv s1 = mr_Get K io D k rv s" unfolding mr_Get_def ck gr assms(3,6) ..
  have ra: "idx_Range K a b at f (mr_keyIndex s1) st = idx_Range K a b at f (mr_keyIndex s) st" for at f and st :: "mvcc_kv list \<times> int"
    by (simp add: idx_Range_def btree_simps(5)[OF assms(1)] ascend_from_get[OF assms(1,2)])
  show "mr_Range K io D a b rv n s1 = mr_Range K io D a b rv n s" unfolding mr_Range_def ck ra assms(3,6) ..
qed

text \<open>The calls after which the store is opened again: any but compactions, with sizes within the formats.\<close>

fun call_fits :: "'t key_tree \<Rightarrow> mvcc_call \<Rightarrow> ('t, 'd) RocksDBStore \<Rightarrow> bool" where
  "call_fits K (PutCall k v l) s \<longleftrightarrow> length k < 2 ^ 32 \<and> length v < 2 ^ 32 \<and> int64_range l"
| "call_fits K (DeleteRangeCall a b) s \<longleftrightarrow> int (length (mr_collect_keys K a b s)) < 2 ^ 63"
| "call_fits K (CompactCall rv) s \<longleftrightarrow> False"
| "call_fits K _ s \<longleftrightarrow> True"

fun calls_fit :: "'t key_tree \<Rightarrow> io \<Rightarrow> 'd rocks \<Rightarrow> mvcc_call list \<Rightarrow> ('t, 'd) RocksDBStore \<Rightarrow> bool" where
  "calls_fit K io D [] s \<longleftrightarrow> True"
| "calls_fit K io D (c # cs) s \<longleftrightarrow> call_fits K c s \<and> calls_fit K io D cs (fst (mr_call K io D c s))"

lemma mr_call_inv:
  assumes ok: "btree_ok K" "btree_ok D" and io: "io_ok io" and inv: "mr_inv K D s" and bound: "Main (mr_currentRev s) + 1 < 2 ^ 63" and fits: "call_fits K c s"
  shows "mr_inv K D (fst (mr_call K io D c s)) \<and> Main (mr_currentRev (fst (mr_call K io D c s))) \<le> Main (mr_currentRev s) + 1"
proof (cases c)
  case (PutCall k v l)
  then show ?thesis using mr_Put_inv[OF ok io inv bound, of k v l] fits by simp
next
  case (DeleteCall k)
  then show ?thesis using mr_Delete_inv[OF ok io inv bound, of k] by simp
next
  case (DeleteRangeCall a b)
  then show ?thesis using mr_DeleteRange_inv[OF ok io inv bound, of a b] fits by simp
next
  case CloseCall
  then show ?thesis using inv by (simp add: mr_Close_def mr_inv_def)
qed (use inv fits in auto)

lemma mr_calls_inv:
  assumes ok: "btree_ok K" "btree_ok D" and io: "io_ok io"
    and "mr_inv K D s" "Main (mr_currentRev s) + int (length cs) < 2 ^ 63" "calls_fit K io D cs s"
  shows "mr_inv K D (fst (mr_calls K io D cs s))"
  using assms(4-)
proof (induction cs arbitrary: s)
  case (Cons c cs)
  have c: "mr_inv K D (fst (mr_call K io D c s)) \<and> Main (mr_currentRev (fst (mr_call K io D c s))) \<le> Main (mr_currentRev s) + 1"
    by (rule mr_call_inv[OF ok io Cons.prems(1)]) (use Cons.prems in simp_all)
  show ?case using Cons.IH[of "fst (mr_call K io D c s)"] c Cons.prems by (simp add: Let_def case_prod_unfold)
qed simp

lemma mr_inv_empty:
  assumes "btree_ok K" "btree_ok D"
  shows "mr_inv K D \<lparr>mr_db = bt_New D, mr_keyIndex = NewKeyIndex K, mr_currentRev = Zero, mr_compactedRev = Zero, mr_closed = False\<rparr>"
proof -
  have "revs_of K (NewKeyIndex K) k = []" for k by (simp add: revs_of_def NewKeyIndex_def btree_simps(1)[OF assms(1)])
  then show ?thesis
    using index_ok_new[OF assms(1)] by (simp add: mr_inv_def core_def btree_simps(1)[OF assms(2)] rev_ok_def Zero_def NewKeyIndex_def btree_simps(1)[OF assms(1)])
qed



end
