(* ===== verification/Mvcc_Rocks_Deviations.thy ===== *)
theory Mvcc_Rocks_Deviations
  imports Mvcc_Rocks_Recovery
begin

text \<open>
  Two ways in which the MVCC store on RocksDB departs from the in-memory one: a put after a deletion continues the
  deleted entry, and the second put of a key in a transaction does not see the first.
\<close>

lemma reached_inv:
  assumes "btree_ok K" "btree_ok D" "io_ok io" "NewRocksDBStore K io D False (bt_New D) = Inr s0"
    "calls_fit K io D calls s0" "int (length calls) < 2 ^ 63"
  shows "mr_inv K D (fst (mr_calls K io D calls s0))"
proof -
  have "s0 = \<lparr>mr_db = bt_New D, mr_keyIndex = NewKeyIndex K, mr_currentRev = Zero, mr_compactedRev = Zero, mr_closed = False\<rparr>"
    using assms(4) open_empty[OF assms(2,3), of K] by simp
  then show ?thesis
    by (intro mr_calls_inv[OF assms(1-3) _ _ assms(5)]) (use mr_inv_empty[OF assms(1,2)] assms(6) in \<open>simp_all add: Zero_def\<close>)
qed

lemma mr_invD:
  assumes "mr_inv K D s"
  shows "core K D (mr_keyIndex s) (mr_db s)" "rev_ok (mr_currentRev s)" "mr_compactedRev s = Zero"
    "q \<in> set (revs_of K (mr_keyIndex s) k) \<Longrightarrow> Main q \<le> Main (mr_currentRev s)"
  using assms by (auto simp: mr_inv_def)

lemma live_kv_small:
  assumes "mr_inv K D s" "io_ok io" "mr_live_kv K io D k s = Some kv"
  shows "\<exists>ki. mr_live_item K k s = Some ki \<and> mr_last_kv io D k ki s = Some kv" "length k < 2 ^ 32"
    "0 \<le> mk_CreateRevision kv" "mk_CreateRevision kv \<le> Main (mr_currentRev s)" "mk_Key kv = k"
proof -
  note core = mr_invD(1)[OF assms(1)]
  show ki: "\<exists>ki. mr_live_item K k s = Some ki \<and> mr_last_kv io D k ki s = Some kv" using assms(3) by (simp add: mr_live_kv_def split: option.splits)
  then obtain ki where ki: "mr_live_item K k s = Some ki" "mr_last_kv io D k ki s = Some kv" by blast
  note l = mr_live_revs[OF coreD(1)[OF core] ki(1)]
  let ?q = "last (revs_of K (mr_keyIndex s) k)"
  have q: "?q \<in> set (revs_of K (mr_keyIndex s) k)" using l(3) by simp
  have "stored_kv io D k ?q (mr_db s) = Some kv" using ki(2) l by (simp add: mr_last_kv_def Let_def split: if_splits)
  then have "entry_small k ?q kv" using core_stored[OF core assms(2) q] by auto
  then show "length k < 2 ^ 32" "0 \<le> mk_CreateRevision kv" "mk_CreateRevision kv \<le> Main (mr_currentRev s)" "mk_Key kv = k"
    using mr_invD(4)[OF assms(1) q] by (auto simp: entry_small_def)
qed

lemma newest_snoc: "(\<And>q. q \<in> set xs \<Longrightarrow> q < r) \<Longrightarrow> newest_upto r (xs @ [r]) = r"
  by (simp add: newest_upto_def Let_def)

text \<open>The two writes and the read, with their states.\<close>

lemma put_after_delete:
  assumes ok: "btree_ok K" "btree_ok D" and io: "io_ok io" and inv: "mr_inv K D s" and bound: "Main (mr_currentRev s) + 2 < 2 ^ 63"
    and s: "\<not> mr_closed s" "k \<noteq> []" and live: "mr_live_kv K io D k s = Some kv" and small: "length v < 2 ^ 32" "int64_range l"
  shows "snd (mr_calls K io D [DeleteCall k, PutCall k v l, GetCall k 0] s) =
    [AnsDeleted (Main (mr_currentRev s) + 1) 1, AnsRevision (Main (mr_currentRev s) + 2),
     AnsKv \<lparr>mk_Key = k, mk_Value = v, mk_CreateRevision = mk_CreateRevision kv, mk_ModRevision = Main (mr_currentRev s) + 2, mk_Version = 1, mk_Lease = l\<rparr>]"
proof -
  define n where "n = Main (mr_currentRev s)"
  let ?r1 = "Revision (n + 1) 0" and ?r2 = "Revision (n + 2) 0"
  note core = mr_invD(1)[OF inv] and sm = live_kv_small[OF inv io live]
  obtain ki where ki: "mr_live_item K k s = Some ki" "mr_last_kv io D k ki s = Some kv" using sm(1) by blast
  have n: "0 \<le> n" "n + 2 < 2 ^ 63" using mr_invD(2)[OF inv] bound by (simp_all add: n_def rev_ok_def)
  define t where "t = mr_tombstone k ?r1 (Some kv)"
  define s1 where "s1 = fst (mr_Delete K io D k s)"
  have del: "mr_Delete K io D k s = (s1, Inr (n + 1, 1))"
    "mr_currentRev s1 = ?r1" "mr_closed s1 = False" "mr_keyIndex s1 = fst (idx_Delete K k ?r1 (mr_keyIndex s))"
    "bt_Get D (mr_db s1) (makeStorageKey k ?r1) = Some (kv_Encode t)"
    using ki s by (auto simp: s1_def mr_Delete_def next_main_def n_def t_def Let_def io_write[OF io] saveCurrentRevision_def btree_simps(2)[OF ok(2)])
  have inv1: "mr_inv K D s1" unfolding s1_def by (rule mr_Delete_inv[OF ok io inv]) (use bound in simp)
  have new: "q < ?r1" if "q \<in> set (revs_of K (mr_keyIndex s) k)" for q using fresh_main[OF mr_invD(4)[OF inv that]] by (simp add: n_def)
  have rv1: "revs_of K (mr_keyIndex s1) k = revs_of K (mr_keyIndex s) k @ [?r1]"
    using idx_Delete_laws(3)[OF ok(1) coreD(1)[OF core] new mr_live_revs(4)[OF coreD(1)[OF core] ki(1)], of k] by (simp add: del(4))
  have new2: "q < ?r2" if "q \<in> set (revs_of K (mr_keyIndex s1) k)" for q using that rv1 new[of q] by (auto simp: less_Revision_def)
  have dec: "kv_Decode (kv_Encode t) = Some t"
    by (rule decode_encode_kv[OF entry_small_encodable[of ?r1 k]]) (use sm(2-4) n in \<open>auto simp: t_def mr_tombstone_def entry_small_def rev_ok_def int64_range_def n_def\<close>)
  have st: "stored_kv io D k ?r1 (mr_db s1) = Some t" using del(5) dec by (simp add: stored_kv_def io_get[OF io])
  have "newest_upto ?r2 (revs_of K (mr_keyIndex s1) k) = last (revs_of K (mr_keyIndex s1) k)"
    by (rule newest_last[OF _ new2]) (use rv1 in auto)
  then have gr: "GetRevision K k ?r2 (mr_keyIndex s1) = ?r1" using rv1 by (simp add: GetRevision_newest[OF coreD(1)[OF mr_invD(1)[OF inv1]]])
  define kv2 where "kv2 = mr_new_entry k v l ?r2 (mk_CreateRevision kv, 1)"
  define s2 where "s2 = fst (mr_Put K io D k v l s1)"
  have nz: "?r1 \<noteq> Zero" "?r2 \<noteq> Zero" using n(1) by (auto simp: Zero_def)
  have nx: "next_main s1 = s1\<lparr>mr_currentRev := ?r2\<rparr>" by (simp add: next_main_def del(2) add.assoc)
  have put: "mr_Put K io D k v l s1 = (s2, Inr (n + 2))" "mr_currentRev s2 = ?r2" "mr_closed s2 = False"
    "mr_keyIndex s2 = idx_Put K k ?r2 (mr_keyIndex s1)" "mr_compactedRev s2 = mr_compactedRev s1"
    "bt_Get D (mr_db s2) (makeStorageKey k ?r2) = Some (kv_Encode kv2)"
    using s(2) del(3) nz(1) st
    by (simp_all add: s2_def mr_Put_def nx gr Let_def io_write[OF io] saveCurrentRevision_def btree_simps(2)[OF ok(2)] kv2_def prev_info_def t_def mr_tombstone_def)
  have ix2: "index_ok K (mr_keyIndex s2)" "revs_of K (mr_keyIndex s2) k = revs_of K (mr_keyIndex s1) k @ [?r2]"
    using idx_Put_laws(1,2)[OF ok(1) coreD(1)[OF mr_invD(1)[OF inv1]] new2, of k] by (simp_all add: put(4))
  have "GetRevision K k ?r2 (mr_keyIndex s2) = ?r2" unfolding GetRevision_newest[OF ix2(1)] ix2(2) by (rule newest_snoc[OF new2])
  moreover have "kv_Decode (kv_Encode kv2) = Some kv2"
    by (rule decode_encode_kv[OF entry_small_encodable[of ?r2 k]]) (use sm(2-4) n small in \<open>auto simp: kv2_def mr_new_entry_def entry_small_def rev_ok_def n_def\<close>)
  moreover have "mr_check_revision ?r2 s2 = None" using put(2,5) mr_invD(3)[OF inv1] n by (simp add: mr_check_revision_def Zero_def less_Revision_def)
  ultimately have "mr_Get K io D k 0 s2 = Inr kv2"
    using s(2) put(2,3,6) nz(2) by (simp add: mr_Get_def mr_read_revision_def Let_def io_get[OF io]) (simp add: kv2_def mr_new_entry_def)
  then show ?thesis using del(1) put(1) by (simp add: answer_def n_def[symmetric] kv2_def mr_new_entry_def)
qed

text \<open>
  On RocksDB a put of a deleted key does not start a new life of the key: with a live entry kv, deleting the
  key, putting it and reading it gives an entry with version 1 but the create revision of kv. The in-memory
  store, and the documented meaning of the create revision, give the revision of the put.
\<close>

theorem mvcc_rocks_put_keeps_create:
  assumes "btree_ok K" "btree_ok D" "io_ok io" "NewRocksDBStore K io D False (bt_New D) = Inr s0"
    "calls_fit K io D calls s0" "int (length calls) < 2 ^ 63" "s = fst (mr_calls K io D calls s0)"
    "mr_CurrentRevision s + 2 < 2 ^ 63" "\<not> mr_closed s" "k \<noteq> []" "mr_live_kv K io D k s = Some kv" "length v < 2 ^ 32" "int64_range l"
  shows "snd (mr_calls K io D [DeleteCall k, PutCall k v l, GetCall k 0] s) =
      [AnsDeleted (mr_CurrentRevision s + 1) 1, AnsRevision (mr_CurrentRevision s + 2),
       AnsKv \<lparr>mk_Key = k, mk_Value = v, mk_CreateRevision = mk_CreateRevision kv, mk_ModRevision = mr_CurrentRevision s + 2,
              mk_Version = 1, mk_Lease = l\<rparr>]
    \<and> mk_CreateRevision kv \<le> mr_CurrentRevision s"
proof -
  have inv: "mr_inv K D s" unfolding assms(7) by (rule reached_inv[OF assms(1-6)])
  show ?thesis using put_after_delete[OF assms(1-3) inv _ assms(9-13)] assms(8) live_kv_small(4)[OF inv assms(3,11)]
    by (simp add: mr_CurrentRevision_def)
qed

lemma first_put_live:
  assumes "btree_ok K" "btree_ok D" "io_ok io" "k \<noteq> []" "length k < 2 ^ 32" "length v < 2 ^ 32" "int64_range l"
    "s = fst (mr_Put K io D k v l \<lparr>mr_db = bt_New D, mr_keyIndex = NewKeyIndex K, mr_currentRev = Zero, mr_compactedRev = Zero, mr_closed = False\<rparr>)"
  shows "mr_live_kv K io D k s = Some (mr_new_entry k v l (Revision 1 0) (1, 1))" "mr_currentRev s = Revision 1 0" "\<not> mr_closed s"
proof -
  let ?kv = "mr_new_entry k v l (Revision 1 0) (1, 1)"
  have get: "bt_Get K (NewKeyIndex K) k = None" by (simp add: NewKeyIndex_def btree_simps(1)[OF assms(1)])
  have s: "mr_keyIndex s = idx_Put K k (Revision 1 0) (NewKeyIndex K)" "mr_currentRev s = Revision 1 0" "\<not> mr_closed s"
    "bt_Get D (mr_db s) (makeStorageKey k (Revision 1 0)) = Some (kv_Encode ?kv)"
    using assms(4) get unfolding assms(8)
    by (simp_all add: mr_Put_def next_main_def Let_def io_write[OF assms(3)] saveCurrentRevision_def GetRevision_def idx_Get_def Zero_def btree_simps(2)[OF assms(2)])
  have "kv_Decode (kv_Encode ?kv) = Some ?kv"
    by (rule decode_encode_kv[OF entry_small_encodable[of "Revision 1 0" k]]) (use assms(5-7) in \<open>simp_all add: mr_new_entry_def entry_small_def rev_ok_def\<close>)
  then have "stored_kv io D k (Revision 1 0) (mr_db s) = Some ?kv" using s(4) by (simp add: stored_kv_def io_get[OF assms(3)])
  then show "mr_live_kv K io D k s = Some ?kv"
    using get by (simp add: mr_live_kv_def mr_live_item_def idx_Get_def s(1) idx_get[OF assms(1)] put_item_def IsDeleted_def gen_IsEmpty_def
        mr_last_kv_def CurrentGeneration_def LastRevision_def Let_def Zero_def)
  show "mr_currentRev s = Revision 1 0" "\<not> mr_closed s" using s by simp_all
qed

theorem mvcc_rocks_put_keeps_create_witness:
  "\<exists>s0. NewRocksDBStore rb_tree good_io rb_tree False (RBT.empty :: (string, string) rbt) = Inr s0 \<and>
     snd (mr_calls (rb_tree :: (string, KeyItem) rbt key_tree) good_io rb_tree [DeleteCall ''a'', PutCall ''a'' ''2'' 0, GetCall ''a'' 0]
            (fst (mr_calls rb_tree good_io rb_tree [PutCall ''a'' ''1'' 0] s0)))
     = [AnsDeleted 2 1, AnsRevision 3,
        AnsKv \<lparr>mk_Key = ''a'', mk_Value = ''2'', mk_CreateRevision = 1, mk_ModRevision = 3, mk_Version = 1, mk_Lease = 0\<rparr>]"
proof -
  let ?K = "rb_tree :: (string, KeyItem) rbt key_tree" and ?D = "rb_tree :: (string, string) rbt rocks"
  let ?e = "\<lparr>mr_db = RBT.empty, mr_keyIndex = NewKeyIndex ?K, mr_currentRev = Zero, mr_compactedRev = Zero, mr_closed = False\<rparr>"
  let ?cs = "[PutCall ''a'' ''1'' 0]"
  let ?s = "fst (mr_calls ?K good_io ?D ?cs ?e)"
  have new: "bt_New ?D = RBT.empty" by (simp add: rb_tree_def)
  have s0: "NewRocksDBStore ?K good_io ?D False (bt_New ?D) = Inr ?e" using open_empty[OF rb_tree_ok good_io_ok(1), of ?K] by (simp add: rb_tree_def)
  have fit: "calls_fit ?K good_io ?D ?cs ?e" by (simp add: int64_range_def)
  have "?s = fst (mr_Put ?K good_io ?D ''a'' ''1'' 0 \<lparr>mr_db = bt_New ?D, mr_keyIndex = NewKeyIndex ?K, mr_currentRev = Zero, mr_compactedRev = Zero, mr_closed = False\<rparr>)"
    unfolding new by (simp add: case_prod_unfold)
  note f = first_put_live[OF rb_tree_ok rb_tree_ok good_io_ok(1) _ _ _ _ this]
  have live: "mr_live_kv ?K good_io ?D ''a'' ?s = Some (mr_new_entry ''a'' ''1'' 0 (Revision 1 0) (1, 1))" by (rule f(1)) (simp_all add: int64_range_def)
  have cl: "\<not> mr_closed ?s" by (rule f(3)) (simp_all add: int64_range_def)
  have "mr_currentRev ?s = Revision 1 0" by (rule f(2)) (simp_all add: int64_range_def)
  then have cur: "mr_CurrentRevision ?s = 1" by (simp add: mr_CurrentRevision_def)
  show ?thesis
    using mvcc_rocks_put_keeps_create[OF rb_tree_ok rb_tree_ok good_io_ok(1) s0 fit _ refl _ cl _ live, of "''2''" 0] s0 cur
    unfolding new cur by (intro exI[of _ ?e]) (simp add: int64_range_def mr_new_entry_def)
qed

section \<open>Two puts of one key in a transaction\<close>

lemma fresh_key_not_stored:
  assumes inv: "mr_inv K D s" and r: "rev_ok r" "Main (mr_currentRev s) < Main r"
  shows "bt_Get D (mr_db s) (makeStorageKey k r) = None"
proof (rule ccontr)
  assume "bt_Get D (mr_db s) (makeStorageKey k r) \<noteq> None"
  then obtain j q where q: "q \<in> set (revs_of K (mr_keyIndex s) j)" "makeStorageKey k r = makeStorageKey j q"
    using coreD(4)[OF mr_invD(1)[OF inv] storage_is_entry(1)] by blast
  then have "r = q" using storage_key_inj[OF r(1)] coreD(2)[OF mr_invD(1)[OF inv] q(1)] by blast
  then show False using mr_invD(4)[OF inv q(1)] r(2) by simp
qed

definition txn_put_op :: "string \<Rightarrow> string \<Rightarrow> int \<Rightarrow> Op" where
  "txn_put_op k v l = \<lparr>o_Type = OpTypePut, o_Key = k, o_End = None, o_Value = v, o_Lease = l\<rparr>"

lemma two_puts:
  assumes ok: "btree_ok K" "btree_ok D" and io: "io_ok io" and inv: "mr_inv K D s" and bound: "Main (mr_currentRev s) + 1 < 2 ^ 63"
    and s: "\<not> mr_closed s" "k \<noteq> []" and small: "length k < 2 ^ 32" "length v' < 2 ^ 32" "int64_range l'"
  shows "\<exists>s' resp. mr_Commit K io D \<lparr>conditions = [], thenOps = [txn_put_op k v l, txn_put_op k v' l'], elseOps = []\<rparr> s = Some (s', Inr resp) \<and>
    mr_Get K io D k 0 s' = Inr \<lparr>mk_Key = k, mk_Value = v', mk_CreateRevision = 0, mk_ModRevision = Main (mr_currentRev s) + 1, mk_Version = 1, mk_Lease = l'\<rparr>"
proof -
  define n where "n = Main (mr_currentRev s)"
  let ?r1 = "Revision (n + 1) 0" and ?r2 = "Revision (n + 1) 1"
  note core = mr_invD(1)[OF inv]
  have n: "0 \<le> n" "n + 1 < 2 ^ 63" using mr_invD(2)[OF inv] bound by (simp_all add: n_def rev_ok_def)
  have ok12: "rev_ok ?r1" "rev_ok ?r2" using n by (simp_all add: rev_ok_def)
  have new: "q < ?r1" if "q \<in> set (revs_of K (mr_keyIndex s) k)" for q using fresh_main[OF mr_invD(4)[OF inv that]] by (simp add: n_def)
  define i1 where "i1 = idx_Put K k ?r1 (mr_keyIndex s)"
  define i2 where "i2 = idx_Put K k ?r2 i1"
  have ix1: "index_ok K i1" "revs_of K i1 k = revs_of K (mr_keyIndex s) k @ [?r1]" "live_key K i1 k"
    using idx_Put_laws[OF ok(1) coreD(1)[OF core] new] by (simp_all add: i1_def)
  have new2: "q < ?r2" if "q \<in> set (revs_of K i1 k)" for q using that new[of q] ix1(2) by (auto simp: less_Revision_def)
  have ix2: "index_ok K i2" "revs_of K i2 k = revs_of K i1 k @ [?r2]" using idx_Put_laws(1,2)[OF ok(1) ix1(1) new2] by (simp_all add: i2_def)
  define t1 where "t1 = s\<lparr>mr_currentRev := ?r1, mr_keyIndex := i1\<rparr>"
  have t1: "mr_keyIndex t1 = i1" by (simp add: t1_def)
  obtain ki where ki: "mr_live_item K k t1 = Some ki" using ix1(3) by (auto simp: mr_live_item_def idx_Get_def t1 live_key_def split: option.splits)
  have "stored_kv io D k ?r1 (mr_db t1) = None"
    using fresh_key_not_stored[OF inv ok12(1)] by (simp add: stored_kv_def io_get[OF io] t1_def n_def)
  then have last: "mr_last_kv io D k ki t1 = None"
    using mr_live_revs(1,2)[of K t1 k ki] ix1(1,2) ki by (simp add: mr_last_kv_def Let_def t1)
  define kv2 where "kv2 = mr_new_entry k v' l' ?r2 (0, 1)"
  define kv1 where "kv1 = mr_new_entry k v l ?r1 (case mr_live_item K k (next_main s) of Some ki \<Rightarrow> prev_info (mr_last_kv io D k ki (next_main s)) | None \<Rightarrow> (Main ?r1, 1))"
  have e1: "mr_executeOp K io D (txn_put_op k v l) ?r1 (next_main s, []) = ((t1, [WPut (makeStorageKey k ?r1) (kv_Encode kv1)]), empty_response OpTypePut)"
    by (simp add: mr_executeOp_def mr_executePut_def txn_put_op_def kv1_def Let_def t1_def next_main_def i1_def n_def split: option.split)
  have e2: "mr_executeOp K io D (txn_put_op k v' l') ?r2 (t1, b) = ((t1\<lparr>mr_keyIndex := i2\<rparr>, b @ [WPut (makeStorageKey k ?r2) (kv_Encode kv2)]), empty_response OpTypePut)" for b
    by (simp add: mr_executeOp_def mr_executePut_def txn_put_op_def kv2_def Let_def ki last prev_info_def i2_def t1)
  define db where "db = fold (apply_op D) [WPut (makeStorageKey k ?r1) (kv_Encode kv1), WPut (makeStorageKey k ?r2) (kv_Encode kv2), WPut metaCurrentRevision (rev_Bytes ?r2)] (mr_db s)"
  define s2 where "s2 = s\<lparr>mr_currentRev := ?r2, mr_keyIndex := i2, mr_db := db\<rparr>"
  have "mr_Commit K io D \<lparr>conditions = [], thenOps = [txn_put_op k v l, txn_put_op k v' l'], elseOps = []\<rparr> s =
      Some (s2, Inr \<lparr>tr_Succeeded = True, tr_Revision = n + 1, tr_Responses = [empty_response OpTypePut, empty_response OpTypePut]\<rparr>)"
  proof -
    have "Main (mr_currentRev (next_main s)) = n + 1" by (simp add: next_main_def n_def)
    then show ?thesis using s(1) by (simp add: mr_Commit_def Let_def e1[unfolded t1_def] e2[unfolded t1_def] io_write[OF io] saveCurrentRevision_def s2_def db_def t1_def)
  qed
  moreover have "mr_Get K io D k 0 s2 = Inr kv2"
  proof -
    have g: "GetRevision K k ?r2 i2 = ?r2" unfolding GetRevision_newest[OF ix2(1)] ix2(2) by (rule newest_snoc[OF new2])
    have d: "kv_Decode (kv_Encode kv2) = Some kv2"
      by (rule decode_encode_kv[OF entry_small_encodable[OF ok12(2), of k]]) (use n small in \<open>auto simp: kv2_def mr_new_entry_def entry_small_def\<close>)
    have b: "bt_Get D db (makeStorageKey k ?r2) = Some (kv_Encode kv2)" by (simp add: db_def btree_simps(2)[OF ok(2)])
    have c: "mr_check_revision ?r2 s2 = None" using mr_invD(3)[OF inv] n by (simp add: mr_check_revision_def s2_def Zero_def less_Revision_def)
    have z: "?r2 \<noteq> Zero" by (simp add: Zero_def)
    have "mk_Version kv2 = 1" by (simp add: kv2_def mr_new_entry_def)
    then show ?thesis using s g d b c z by (simp add: mr_Get_def mr_read_revision_def Let_def s2_def io_get[OF io])
  qed
  ultimately show ?thesis by (simp add: kv2_def mr_new_entry_def n_def)
qed

text \<open>
  On RocksDB the second put of a key in a transaction does not see the first: a committed transaction that
  puts a key twice leaves an entry with create revision 0 and version 1, whatever the key held before.
\<close>

theorem mvcc_rocks_txn_second_put:
  assumes "btree_ok K" "btree_ok D" "io_ok io" "NewRocksDBStore K io D False (bt_New D) = Inr s0"
    "calls_fit K io D calls s0" "int (length calls) < 2 ^ 63" "s = fst (mr_calls K io D calls s0)"
    "mr_CurrentRevision s + 1 < 2 ^ 63" "\<not> mr_closed s" "k \<noteq> []" "length k < 2 ^ 32" "length v' < 2 ^ 32" "int64_range l'"
  shows "\<exists>s' resp. mr_Commit K io D \<lparr>conditions = [], thenOps = [txn_put_op k v l, txn_put_op k v' l'], elseOps = []\<rparr> s = Some (s', Inr resp) \<and>
    mr_Get K io D k 0 s' = Inr \<lparr>mk_Key = k, mk_Value = v', mk_CreateRevision = 0, mk_ModRevision = mr_CurrentRevision s + 1, mk_Version = 1, mk_Lease = l'\<rparr>"
proof -
  have "mr_inv K D s" unfolding assms(7) by (rule reached_inv[OF assms(1-6)])
  from two_puts[OF assms(1-3) this _ assms(9-13)] assms(8) show ?thesis by (simp add: mr_CurrentRevision_def)
qed

theorem mvcc_rocks_txn_second_put_witness:
  "\<exists>s0 s' resp. NewRocksDBStore rb_tree good_io rb_tree False (RBT.empty :: (string, string) rbt) = Inr s0 \<and>
     mr_Commit (rb_tree :: (string, KeyItem) rbt key_tree) good_io rb_tree
       \<lparr>conditions = [], thenOps = [txn_put_op ''a'' ''1'' 0, txn_put_op ''a'' ''2'' 0], elseOps = []\<rparr> s0 = Some (s', Inr resp) \<and>
     mr_Get rb_tree good_io rb_tree ''a'' 0 s' =
       Inr \<lparr>mk_Key = ''a'', mk_Value = ''2'', mk_CreateRevision = 0, mk_ModRevision = 1, mk_Version = 1, mk_Lease = 0\<rparr>"
proof -
  let ?K = "rb_tree :: (string, KeyItem) rbt key_tree" and ?D = "rb_tree :: (string, string) rbt rocks"
  let ?e = "\<lparr>mr_db = RBT.empty, mr_keyIndex = NewKeyIndex ?K, mr_currentRev = Zero, mr_compactedRev = Zero, mr_closed = False\<rparr>"
  have e: "NewRocksDBStore ?K good_io ?D False (bt_New ?D) = Inr ?e" using open_empty[OF rb_tree_ok good_io_ok(1), of ?K] by (simp add: rb_tree_def)
  have new: "bt_New ?D = RBT.empty" by (simp add: rb_tree_def)
  have fit: "calls_fit ?K good_io ?D [] ?e" by simp
  have cur: "mr_CurrentRevision (fst (mr_calls ?K good_io ?D [] ?e)) = 0" by (simp add: mr_CurrentRevision_def Zero_def)
  show ?thesis using mvcc_rocks_txn_second_put[OF rb_tree_ok rb_tree_ok good_io_ok(1) e fit _ refl, of "''a''" "''2''" 0 "''1''" 0] e cur
    unfolding new by (auto simp: int64_range_def)
qed

end
