(* ===== verification/Lease_Read.thy ===== *)
theory Lease_Read
  imports Complex_Main Bytes Decimal
begin

text \<open>
  The leader lease and the read index, \<open>internal/lease\<close>: the switch that follows the cluster size
  (\<open>smart_config.go\<close>), the lease of the leader (\<open>lease_manager.go\<close>), the read requests that wait for the state
  machine (\<open>readindex_manager.go\<close>) and the health check over both (\<open>health_checker.go\<close>). Times and durations
  are nanoseconds in signed 64-bit integers whose wrap-around is written out; every reading of the clock is an
  argument. The configuration that the managers share by pointer is passed as the argument \<open>sc\<close>. The
  fields are atomic variables and one goroutine writes the lease, so an operation is one step; the two critical
  sections of a read request are two steps.
\<close>

declare map_of_eq_Some_iff [simp del] Some_eq_map_of_iff [simp del]

definition wrap64 :: "int \<Rightarrow> int" where
  "wrap64 n = int64 (uint64 n)"

definition wrap32 :: "int \<Rightarrow> int" where
  "wrap32 n = (n + 2 ^ 31) mod 2 ^ 32 - 2 ^ 31"

text \<open>Go's division truncates towards zero.\<close>

definition go_div :: "int \<Rightarrow> int \<Rightarrow> int" where
  "go_div a b = sgn a * sgn b * (\<bar>a\<bar> div \<bar>b\<bar>)"

definition millisecond :: int where "millisecond = 1000000"
definition second :: int where "second = 1000 * millisecond"

section \<open>The switch\<close>

record SmartLeaseConfig =
  userEnabled :: bool
  actualEnabled :: bool
  clusterSize :: int
  lastUpdateTime :: int

definition NewSmartLeaseConfig :: "int \<Rightarrow> bool \<Rightarrow> SmartLeaseConfig" where
  "NewSmartLeaseConfig now enabled = \<lparr>userEnabled = enabled, actualEnabled = False, clusterSize = 0, lastUpdateTime = now\<rparr>"

definition shouldEnableLeaseRead :: "int \<Rightarrow> SmartLeaseConfig \<Rightarrow> bool" where
  "shouldEnableLeaseRead sz slc =
     (if \<not> userEnabled slc then False
      else if sz = 0 then False
      else if sz \<ge> 1 then True
      else False)"

datatype enable_reason = UserDisabled | UnknownSize | SingleNode | MultiNode | InvalidSize

definition getEnableReason :: "int \<Rightarrow> SmartLeaseConfig \<Rightarrow> enable_reason" where
  "getEnableReason sz slc =
     (if \<not> userEnabled slc then UserDisabled
      else if sz = 0 then UnknownSize
      else if sz = 1 then SingleNode
      else if sz \<ge> 2 then MultiNode
      else InvalidSize)"

definition UpdateClusterSize :: "int \<Rightarrow> int \<Rightarrow> SmartLeaseConfig \<Rightarrow> SmartLeaseConfig" where
  "UpdateClusterSize now sz slc =
     slc\<lparr>clusterSize := wrap32 sz, lastUpdateTime := now, actualEnabled := shouldEnableLeaseRead sz slc\<rparr>"

definition slc_IsEnabled :: "SmartLeaseConfig \<Rightarrow> bool" where
  "slc_IsEnabled slc = actualEnabled slc"

definition GetClusterSize :: "SmartLeaseConfig \<Rightarrow> int" where
  "GetClusterSize slc = clusterSize slc"

definition SetUserEnabled :: "bool \<Rightarrow> SmartLeaseConfig \<Rightarrow> SmartLeaseConfig" where
  "SetUserEnabled enabled slc =
     (let oldEnabled = userEnabled slc; slc1 = slc\<lparr>userEnabled := enabled\<rparr>
      in if oldEnabled \<noteq> enabled then slc1\<lparr>actualEnabled := shouldEnableLeaseRead (clusterSize slc1) slc1\<rparr> else slc1)"

record SmartConfigStatus =
  scs_UserEnabled :: bool
  scs_ActualEnabled :: bool
  scs_ClusterSize :: int
  scs_LastUpdateTime :: int
  scs_Reason :: enable_reason

definition slc_GetStatus :: "SmartLeaseConfig \<Rightarrow> SmartConfigStatus" where
  "slc_GetStatus slc =
     \<lparr>scs_UserEnabled = userEnabled slc, scs_ActualEnabled = actualEnabled slc, scs_ClusterSize = clusterSize slc,
      scs_LastUpdateTime = lastUpdateTime slc, scs_Reason = getEnableReason (clusterSize slc) slc\<rparr>"

definition DetectClusterSizeFromPeers :: "string list \<Rightarrow> int" where
  "DetectClusterSizeFromPeers peers = int (length peers)"

text \<open>The detection loop: one update at the start and one at every tick until it is stopped, each with the time and the size then.\<close>

definition StartAutoDetection :: "int \<times> int \<Rightarrow> (int \<times> int) list \<Rightarrow> SmartLeaseConfig \<Rightarrow> SmartLeaseConfig" where
  "StartAutoDetection first ticks slc = fold (\<lambda>(now, sz). UpdateClusterSize now sz) (first # ticks) slc"

section \<open>The lease\<close>

record LeaseManager =
  electionTimeout :: int
  heartbeatTick :: int
  clockDrift :: int
  leaseExpireTime :: int
  isLeader :: bool
  leaseRenewCount :: int
  leaseExpireCount :: int

record LeaseConfig =
  lc_ElectionTimeout :: int
  lc_HeartbeatTick :: int
  lc_ClockDrift :: int

definition NewLeaseManager :: "LeaseConfig \<Rightarrow> LeaseManager" where
  "NewLeaseManager config =
     \<lparr>electionTimeout = lc_ElectionTimeout config, heartbeatTick = lc_HeartbeatTick config,
      clockDrift = (if lc_ClockDrift config = 0 then 500 * millisecond else lc_ClockDrift config),
      leaseExpireTime = 0, isLeader = False, leaseRenewCount = 0, leaseExpireCount = 0\<rparr>"

definition minDuration :: "int \<Rightarrow> int \<Rightarrow> int" where
  "minDuration a b = (if a < b then a else b)"

definition go_max :: "int \<Rightarrow> int \<Rightarrow> int" where
  "go_max a b = (if a > b then a else b)"

definition minLeaseDuration :: int where
  "minLeaseDuration = 50 * millisecond"

definition lease_duration :: "LeaseManager \<Rightarrow> int" where
  "lease_duration lm =
     (let leaseDuration = wrap64 (minDuration (go_div (electionTimeout lm) 2) (wrap64 (heartbeatTick lm * 3)) - clockDrift lm)
      in if leaseDuration \<le> 0 then minLeaseDuration
         else if leaseDuration < minLeaseDuration then minLeaseDuration
         else leaseDuration)"

definition RenewLease :: "SmartLeaseConfig option \<Rightarrow> int \<Rightarrow> int \<Rightarrow> int \<Rightarrow> LeaseManager \<Rightarrow> LeaseManager \<times> bool" where
  "RenewLease sc now receivedAcks totalNodes lm =
     (if (case sc of Some slc \<Rightarrow> \<not> slc_IsEnabled slc | None \<Rightarrow> False) then (lm, False)
      else if \<not> isLeader lm then (lm, False)
      else
        let (totalNodes, receivedAcks) = (if totalNodes \<le> 1 then (1, go_max receivedAcks 1) else (totalNodes, receivedAcks));
            majority = go_div totalNodes 2 + 1
        in if receivedAcks < majority then (lm, False)
           else (lm\<lparr>leaseExpireTime := wrap64 (now + lease_duration lm), leaseRenewCount := wrap64 (leaseRenewCount lm + 1)\<rparr>, True))"

definition HasValidLease :: "int \<Rightarrow> LeaseManager \<Rightarrow> LeaseManager \<times> bool" where
  "HasValidLease now lm =
     (if \<not> isLeader lm then (lm, False)
      else if now \<ge> leaseExpireTime lm then (lm\<lparr>leaseExpireCount := wrap64 (leaseExpireCount lm + 1)\<rparr>, False)
      else (lm, True))"

definition GetLeaseRemaining :: "int \<Rightarrow> LeaseManager \<Rightarrow> int" where
  "GetLeaseRemaining now lm =
     (if \<not> isLeader lm then 0
      else if now \<ge> leaseExpireTime lm then 0
      else wrap64 (leaseExpireTime lm - now))"

definition OnBecomeLeader :: "LeaseManager \<Rightarrow> LeaseManager" where
  "OnBecomeLeader lm = lm\<lparr>isLeader := True, leaseExpireTime := 0\<rparr>"

definition OnBecomeFollower :: "LeaseManager \<Rightarrow> LeaseManager" where
  "OnBecomeFollower lm = (if isLeader lm then lm\<lparr>isLeader := False, leaseExpireTime := 0\<rparr> else lm\<lparr>isLeader := False\<rparr>)"

definition lm_IsLeader :: "LeaseManager \<Rightarrow> bool" where
  "lm_IsLeader lm = isLeader lm"

record LeaseStats =
  st_IsLeader :: bool
  st_HasValidLease :: bool
  st_LeaseRemaining :: int
  st_LeaseRenewCount :: int
  st_LeaseExpireCount :: int

text \<open>The statistics read the clock twice and count a failing validity check like any other.\<close>

definition lm_Stats :: "int \<Rightarrow> int \<Rightarrow> LeaseManager \<Rightarrow> LeaseManager \<times> LeaseStats" where
  "lm_Stats now now' lm =
     (let (lm', valid) = HasValidLease now lm
      in (lm', \<lparr>st_IsLeader = isLeader lm, st_HasValidLease = valid, st_LeaseRemaining = GetLeaseRemaining now' lm',
               st_LeaseRenewCount = leaseRenewCount lm', st_LeaseExpireCount = leaseExpireCount lm'\<rparr>))"

section \<open>Read requests\<close>

text \<open>
  The response channel of a request has room for one index; the channels are kept by request id, since the
  waiting goroutine holds its channel after the request has left the map.
\<close>

record ReadIndexRequest =
  rr_RequestID :: string
  rr_ReadIndex :: nat
  rr_RecvTime :: int

record ReadIndexManager =
  pendingReads :: "(string, ReadIndexRequest) gomap"
  lastApplied :: nat
  totalReadIndexReqs :: int
  fastPathReads :: int
  slowPathReads :: int
  forwardedReads :: int
  responses :: "string \<Rightarrow> nat option"

definition NewReadIndexManager :: ReadIndexManager where
  "NewReadIndexManager =
     \<lparr>pendingReads = [], lastApplied = 0, totalReadIndexReqs = 0, fastPathReads = 0, slowPathReads = 0, forwardedReads = 0,
      responses = Map.empty\<rparr>"

definition generateRequestID :: "int \<Rightarrow> int \<Rightarrow> string" where
  "generateRequestID now counter = ''read-'' @ show_int now @ ''-'' @ show_int counter"

text \<open>The first part of a request: it returns at once when the index is applied already.\<close>

definition request_check :: "nat \<Rightarrow> ReadIndexManager \<Rightarrow> ReadIndexManager \<times> bool" where
  "request_check readIndex rm =
     (rm\<lparr>totalReadIndexReqs := wrap64 (totalReadIndexReqs rm + 1), slowPathReads := wrap64 (slowPathReads rm + 1)\<rparr>,
      readIndex \<le> lastApplied rm)"

definition request_register :: "int \<Rightarrow> string \<Rightarrow> nat \<Rightarrow> ReadIndexManager \<Rightarrow> ReadIndexManager" where
  "request_register now requestID readIndex rm =
     rm\<lparr>pendingReads := gm_set requestID \<lparr>rr_RequestID = requestID, rr_ReadIndex = readIndex, rr_RecvTime = now\<rparr> (pendingReads rm)\<rparr>"

text \<open>The second part: a response in the channel, or the end of the context, which gives up the request.\<close>

definition request_receive :: "string \<Rightarrow> ReadIndexManager \<Rightarrow> (ReadIndexManager \<times> nat) option" where
  "request_receive requestID rm =
     map_option (\<lambda>confirmedIndex. (rm\<lparr>responses := (responses rm)(requestID := None)\<rparr>, confirmedIndex)) (responses rm requestID)"

definition request_cancel :: "string \<Rightarrow> ReadIndexManager \<Rightarrow> ReadIndexManager" where
  "request_cancel requestID rm = rm\<lparr>pendingReads := gm_del requestID (pendingReads rm)\<rparr>"

definition confirm_request :: "nat \<Rightarrow> string \<times> ReadIndexRequest \<Rightarrow> ReadIndexManager \<Rightarrow> ReadIndexManager" where
  "confirm_request appliedIndex e rm =
     (case e of (requestID, req) \<Rightarrow>
        if rr_ReadIndex req \<le> appliedIndex
        then rm\<lparr>responses := (if responses rm requestID = None then (responses rm)(requestID \<mapsto> rr_ReadIndex req) else responses rm),
                pendingReads := gm_del requestID (pendingReads rm)\<rparr>
        else rm)"

definition NotifyApplied :: "((string \<times> ReadIndexRequest) list \<Rightarrow> (string \<times> ReadIndexRequest) list) \<Rightarrow> nat \<Rightarrow> ReadIndexManager \<Rightarrow> ReadIndexManager" where
  "NotifyApplied order appliedIndex rm =
     (let rm1 = (if appliedIndex > lastApplied rm then rm\<lparr>lastApplied := appliedIndex\<rparr> else rm)
      in fold (confirm_request appliedIndex) (order (pendingReads rm1)) rm1)"

definition RecordFastPathRead :: "SmartLeaseConfig option \<Rightarrow> ReadIndexManager \<Rightarrow> ReadIndexManager" where
  "RecordFastPathRead sc rm =
     (if (case sc of Some slc \<Rightarrow> \<not> slc_IsEnabled slc | None \<Rightarrow> False) then rm
      else rm\<lparr>fastPathReads := wrap64 (fastPathReads rm + 1)\<rparr>)"

definition RecordForwardedRead :: "ReadIndexManager \<Rightarrow> ReadIndexManager" where
  "RecordForwardedRead rm = rm\<lparr>forwardedReads := wrap64 (forwardedReads rm + 1)\<rparr>"

definition GetPendingCount :: "ReadIndexManager \<Rightarrow> nat" where
  "GetPendingCount rm = length (pendingReads rm)"

text \<open>Rates are rational numbers; the rounding of floating-point division is not modelled.\<close>

record ReadIndexStats =
  ri_TotalRequests :: int
  ri_FastPathReads :: int
  ri_SlowPathReads :: int
  ri_ForwardedReads :: int
  ri_PendingReads :: nat
  ri_LastAppliedIndex :: nat
  ri_FastPathRate :: rat

definition rim_Stats :: "ReadIndexManager \<Rightarrow> ReadIndexStats" where
  "rim_Stats rm =
     (let totalReads = wrap64 (fastPathReads rm + slowPathReads rm)
      in \<lparr>ri_TotalRequests = totalReadIndexReqs rm, ri_FastPathReads = fastPathReads rm, ri_SlowPathReads = slowPathReads rm,
          ri_ForwardedReads = forwardedReads rm, ri_PendingReads = length (pendingReads rm), ri_LastAppliedIndex = lastApplied rm,
          ri_FastPathRate = (if totalReads > 0 then Fract (fastPathReads rm) totalReads else 0)\<rparr>)"

section \<open>The health check\<close>

datatype lease_issue =
    LeaseNotEstablished int int
  | LowRenewRate rat
  | FastPathUnused int int
  | TooManyPending nat

record HealthStatus =
  Healthy :: bool
  Issues :: "lease_issue list"
  LeaseEstablished :: bool
  LeaseRenewRate :: rat
  FastPathRate :: rat

record HealthChecker =
  alertThreshold :: int
  consecutiveFailures :: int
  lastAlertTime :: int
  hc_alerts :: nat

definition NewHealthChecker :: "int \<Rightarrow> HealthChecker" where
  "NewHealthChecker zeroTime = \<lparr>alertThreshold = 3, consecutiveFailures = 0, lastAlertTime = zeroTime, hc_alerts = 0\<rparr>"

definition isSingleNodeScenario :: "int \<Rightarrow> int \<Rightarrow> LeaseManager \<Rightarrow> LeaseManager \<times> bool" where
  "isSingleNodeScenario now now' lm =
     (let (lm', stats) = lm_Stats now now' lm
      in (lm', st_LeaseRenewCount stats > 0 \<and> st_LeaseExpireCount stats = 0 \<and> st_LeaseRenewCount stats < 10))"

text \<open>An alert is logged at most every five minutes; the field \<open>hc_alerts\<close> counts them.\<close>

definition hc_alert :: "int \<Rightarrow> HealthChecker \<Rightarrow> HealthChecker" where
  "hc_alert now hc =
     (if now - lastAlertTime hc < 300 * second then hc else hc\<lparr>lastAlertTime := now, hc_alerts := hc_alerts hc + 1\<rparr>)"

text \<open>The check of the lease; every reading of the clock during the check gives the same time.\<close>

definition check_lease_health :: "int \<Rightarrow> LeaseManager \<Rightarrow> HealthStatus \<Rightarrow> LeaseManager \<times> HealthStatus" where
  "check_lease_health now lm status =
     (if \<not> lm_IsLeader lm then (lm, status)
      else
        let (lm1, stats) = lm_Stats now now lm;
            status1 = status\<lparr>LeaseEstablished := st_HasValidLease stats\<rparr>;
            (lm2, status2) =
              (if \<not> LeaseEstablished status1
               then let (lm2, single) = isSingleNodeScenario now now lm1
                    in (lm2, status1\<lparr>Issues := Issues status1 @ [LeaseNotEstablished (st_LeaseRenewCount stats) (st_LeaseExpireCount stats)],
                                     Healthy := single\<rparr>)
               else (lm1, status1));
            totalAttempts = wrap64 (st_LeaseRenewCount stats + st_LeaseExpireCount stats)
        in if totalAttempts > 0
           then let rate = Fract (st_LeaseRenewCount stats) totalAttempts; status3 = status2\<lparr>LeaseRenewRate := rate\<rparr>
                in if rate < 4 / 5 \<and> totalAttempts > 10
                   then (lm2, status3\<lparr>Issues := Issues status3 @ [LowRenewRate rate], Healthy := False\<rparr>)
                   else (lm2, status3)
           else (lm2, status2))"

definition check_reads_health :: "int \<Rightarrow> LeaseManager option \<Rightarrow> ReadIndexManager \<Rightarrow> HealthStatus \<Rightarrow> LeaseManager option \<times> HealthStatus" where
  "check_reads_health now lm rm status =
     (let stats = rim_Stats rm;
          status1 = status\<lparr>FastPathRate := ri_FastPathRate stats\<rparr>;
          (lm1, status2) =
            (if ri_TotalRequests stats > 100 \<and> ri_FastPathRate stats = 0
             then (case lm of
                     None \<Rightarrow> (lm, status1)
                   | Some l \<Rightarrow>
                       if lm_IsLeader l
                       then let (l', valid) = HasValidLease now l
                            in (Some l', if valid
                                         then status1\<lparr>Issues := Issues status1 @ [FastPathUnused (ri_TotalRequests stats) (ri_FastPathReads stats)],
                                                      Healthy := False\<rparr>
                                         else status1)
                       else (lm, status1))
             else (lm, status1))
      in if ri_PendingReads stats > 1000
         then (lm1, status2\<lparr>Issues := Issues status2 @ [TooManyPending (ri_PendingReads stats)], Healthy := False\<rparr>)
         else (lm1, status2))"

definition hc_Check ::
    "int \<Rightarrow> LeaseManager option \<Rightarrow> ReadIndexManager option \<Rightarrow> HealthChecker \<Rightarrow> (LeaseManager option \<times> HealthChecker) \<times> HealthStatus" where
  "hc_Check now lm rm hc =
     (let status0 = \<lparr>Healthy = True, Issues = [], LeaseEstablished = False, LeaseRenewRate = 0, FastPathRate = 0\<rparr>;
          (lm1, status1) = (case lm of None \<Rightarrow> (None, status0) | Some l \<Rightarrow> map_prod Some id (check_lease_health now l status0));
          (lm2, status2) = (case rm of None \<Rightarrow> (lm1, status1) | Some r \<Rightarrow> check_reads_health now lm1 r status1);
          hc1 = (if \<not> Healthy status2
                 then let hc' = hc\<lparr>consecutiveFailures := consecutiveFailures hc + 1\<rparr>
                      in if consecutiveFailures hc' \<ge> alertThreshold hc' then (hc_alert now hc')\<lparr>consecutiveFailures := 0\<rparr> else hc'
                 else hc\<lparr>consecutiveFailures := 0\<rparr>)
      in ((lm2, hc1), status2))"

text \<open>The monitoring loop: one check at every tick.\<close>

definition StartMonitoring ::
    "int list \<Rightarrow> LeaseManager option \<Rightarrow> ReadIndexManager option \<Rightarrow> HealthChecker \<Rightarrow> LeaseManager option \<times> HealthChecker" where
  "StartMonitoring ticks lm rm hc = fold (\<lambda>now (lm, hc). fst (hc_Check now lm rm hc)) ticks (lm, hc)"

definition GetMetrics ::
    "int \<Rightarrow> LeaseManager option \<Rightarrow> ReadIndexManager option \<Rightarrow> HealthChecker \<Rightarrow> (LeaseManager option \<times> HealthChecker) \<times> (string, rat) gomap" where
  "GetMetrics now lm rm hc =
     (let (st, status) = hc_Check now lm rm hc
      in (st, [(''lease_read_healthy'', if Healthy status then 1 else 0), (''lease_established'', if LeaseEstablished status then 1 else 0),
               (''lease_renew_rate'', LeaseRenewRate status), (''lease_fast_path_rate'', FastPathRate status),
               (''lease_issues_count'', of_nat (length (Issues status))),
               (''lease_consecutive_failures'', of_int (consecutiveFailures (snd st)))]))"

end
