(* ===== verification/Lease_Properties.thy ===== *)
theory Lease_Properties
  imports Lease_Read
begin

text \<open>
  What the lease and the read index guarantee. A valid lease goes back to a renewal with a quorum in the current
  leadership, less than the lease duration ago, and the duration stays within half an election timeout
  unless that timeout is below the fallback. A read request answers the index it asked for and only when the state
  machine has applied it; a notification wakes every registered request it covers, but a request that
  has not yet registered can miss it.
\<close>

lemma wrap64_id: "int64_range n \<Longrightarrow> wrap64 n = n"
  by (simp add: wrap64_def int64_uint64)

lemma wrap64_range: "int64_range (wrap64 n)"
  by (auto simp: wrap64_def int64_def uint64_def int64_range_def)

section \<open>The lease over a history of events\<close>

datatype lease_event =
    LeRenew "SmartLeaseConfig option" int int int
  | LeLeader
  | LeFollower
  | LeCheck int

fun lease_step :: "lease_event \<Rightarrow> LeaseManager \<Rightarrow> LeaseManager" where
  "lease_step (LeRenew sc now acks nodes) lm = fst (RenewLease sc now acks nodes lm)"
| "lease_step LeLeader lm = OnBecomeLeader lm"
| "lease_step LeFollower lm = OnBecomeFollower lm"
| "lease_step (LeCheck now) lm = fst (HasValidLease now lm)"

definition lease_run :: "lease_event list \<Rightarrow> LeaseManager \<Rightarrow> LeaseManager" where
  "lease_run es lm = fold lease_step es lm"

definition quorum :: "int \<Rightarrow> int \<Rightarrow> bool" where
  "quorum acks nodes \<longleftrightarrow> nodes \<le> 1 \<or> nodes < 2 * acks"

definition role_change :: "lease_event \<Rightarrow> bool" where
  "role_change e \<longleftrightarrow> e = LeLeader \<or> e = LeFollower"

lemma go_div_half: "0 \<le> n \<Longrightarrow> go_div n 2 = n div 2"
  by (cases "n = 0") (simp_all add: go_div_def)

lemma RenewLease_cases:
  "RenewLease sc now acks nodes lm = (lm, False) \<or>
   isLeader lm \<and> quorum acks nodes \<and> (\<forall>slc. sc = Some slc \<longrightarrow> slc_IsEnabled slc) \<and>
   RenewLease sc now acks nodes lm = (lm\<lparr>leaseExpireTime := wrap64 (now + lease_duration lm), leaseRenewCount := wrap64 (leaseRenewCount lm + 1)\<rparr>, True)"
proof (cases "nodes \<le> 1")
  case True
  then show ?thesis by (auto simp: RenewLease_def quorum_def Let_def split: option.splits)
next
  case False
  then have "\<not> acks < go_div nodes 2 + 1 \<Longrightarrow> nodes < 2 * acks" by (simp add: go_div_half)
  with False show ?thesis by (auto simp: RenewLease_def quorum_def Let_def split: option.splits)
qed

lemma lease_duration_step: "lease_duration (lease_step e lm) = lease_duration lm"
proof (cases e)
  case (LeRenew sc now acks nodes)
  then show ?thesis using RenewLease_cases[of sc now acks nodes lm] by (auto simp: lease_duration_def)
qed (auto simp: lease_duration_def OnBecomeLeader_def OnBecomeFollower_def HasValidLease_def)

lemma lease_duration_run: "lease_duration (lease_run es lm) = lease_duration lm"
  by (induction es arbitrary: lm) (simp_all add: lease_run_def lease_duration_step)

lemma lease_run_snoc: "lease_run (es @ [e]) lm = lease_step e (lease_run es lm)"
  by (simp add: lease_run_def)

lemma follower_no_lease:
  assumes "leaseExpireTime lm = 0"
  shows "\<not> isLeader (lease_run es lm) \<longrightarrow> leaseExpireTime (lease_run es lm) = 0"
proof (induction es rule: rev_induct)
  case (snoc e es)
  show ?case
  proof (cases e)
    case (LeRenew sc t acks nodes)
    then show ?thesis using snoc RenewLease_cases[of sc t acks nodes "lease_run es lm"] by (auto simp: lease_run_snoc)
  qed (use snoc in \<open>auto simp: lease_run_snoc OnBecomeLeader_def OnBecomeFollower_def HasValidLease_def\<close>)
qed (use assms in \<open>simp add: lease_run_def\<close>)

text \<open>An expiry time other than zero was set by a renewal after which the role has not changed.\<close>

lemma lease_origin:
  assumes "leaseExpireTime lm = 0" "leaseExpireTime (lease_run es lm) \<noteq> 0"
  shows "\<exists>pre post sc t acks nodes. es = pre @ LeRenew sc t acks nodes # post \<and> isLeader (lease_run pre lm) \<and> quorum acks nodes \<and>
    (\<forall>slc. sc = Some slc \<longrightarrow> slc_IsEnabled slc) \<and> (\<forall>e \<in> set post. \<not> role_change e) \<and>
    leaseExpireTime (lease_run es lm) = wrap64 (t + lease_duration lm)"
  using assms(2)
proof (induction es rule: rev_induct)
  case (snoc e es)
  let ?m = "lease_run es lm"
  have old: ?case if same: "leaseExpireTime (lease_step e ?m) = leaseExpireTime ?m" and nr: "\<not> role_change e"
  proof -
    have "leaseExpireTime ?m \<noteq> 0" using snoc.prems same by (simp add: lease_run_snoc)
    from snoc.IH[OF this] obtain pre post sc t acks nodes where h: "es = pre @ LeRenew sc t acks nodes # post" "isLeader (lease_run pre lm)" "quorum acks nodes"
      "\<forall>slc. sc = Some slc \<longrightarrow> slc_IsEnabled slc" "\<forall>e \<in> set post. \<not> role_change e" "leaseExpireTime ?m = wrap64 (t + lease_duration lm)" by blast
    have "leaseExpireTime (lease_run (es @ [e]) lm) = wrap64 (t + lease_duration lm)" unfolding lease_run_snoc same h(6) ..
    moreover have "es @ [e] = pre @ LeRenew sc t acks nodes # post @ [e]" "\<forall>e' \<in> set (post @ [e]). \<not> role_change e'" using h nr by simp_all
    ultimately show ?thesis using h(2-4) by blast
  qed
  show ?case
  proof (cases e)
    case (LeRenew sc t acks nodes)
    from RenewLease_cases[of sc t acks nodes ?m] show ?thesis
    proof
      assume "RenewLease sc t acks nodes ?m = (?m, False)"
      then show ?thesis using old LeRenew by (simp add: role_change_def)
    next
      assume a: "isLeader ?m \<and> quorum acks nodes \<and> (\<forall>slc. sc = Some slc \<longrightarrow> slc_IsEnabled slc) \<and>
        RenewLease sc t acks nodes ?m = (?m\<lparr>leaseExpireTime := wrap64 (t + lease_duration ?m), leaseRenewCount := wrap64 (leaseRenewCount ?m + 1)\<rparr>, True)"
      show ?thesis
        by (rule exI[of _ es], rule exI[of _ "[]"], rule exI[of _ sc], rule exI[of _ t], rule exI[of _ acks], rule exI[of _ nodes])
          (use a LeRenew in \<open>auto simp: lease_run_snoc lease_duration_run\<close>)
    qed
  next
    case LeLeader
    then show ?thesis using snoc.prems by (simp add: lease_run_snoc OnBecomeLeader_def)
  next
    case LeFollower
    then show ?thesis using snoc.prems follower_no_lease[OF assms(1), of es] by (auto simp: lease_run_snoc OnBecomeFollower_def split: if_splits)
  next
    case (LeCheck now)
    then show ?thesis using old by (simp add: HasValidLease_def role_change_def)
  qed
qed (use assms(1) in \<open>simp add: lease_run_def\<close>)

lemma lease_duration_bounds:
  assumes "0 \<le> lc_ElectionTimeout config" "lc_ElectionTimeout config < 2 ^ 62" "0 \<le> lc_HeartbeatTick config" "lc_HeartbeatTick config < 2 ^ 60"
    "0 \<le> lc_ClockDrift config" "lc_ClockDrift config < 2 ^ 62"
  shows "minLeaseDuration \<le> lease_duration (NewLeaseManager config)"
    "lease_duration (NewLeaseManager config) \<le> max minLeaseDuration (lc_ElectionTimeout config div 2 - clockDrift (NewLeaseManager config))"
    "lease_duration (NewLeaseManager config) \<le> max minLeaseDuration (3 * lc_HeartbeatTick config - clockDrift (NewLeaseManager config))"
proof -
  let ?lm = "NewLeaseManager config"
  let ?d = "minDuration (lc_ElectionTimeout config div 2) (lc_HeartbeatTick config * 3) - clockDrift ?lm"
  have hb: "wrap64 (heartbeatTick ?lm * 3) = lc_HeartbeatTick config * 3"
    using assms(3,4) by (subst wrap64_id) (simp_all add: NewLeaseManager_def int64_range_def)
  have el: "go_div (electionTimeout ?lm) 2 = lc_ElectionTimeout config div 2" using assms(1) by (simp add: NewLeaseManager_def go_div_half)
  have "0 < clockDrift ?lm" "clockDrift ?lm < 2 ^ 62" using assms(5,6) by (auto simp: NewLeaseManager_def millisecond_def)
  then have "int64_range ?d" using assms by (auto simp: int64_range_def minDuration_def)
  then have "lease_duration ?lm = (if ?d < minLeaseDuration then minLeaseDuration else ?d)"
    unfolding lease_duration_def hb el by (simp add: wrap64_id minLeaseDuration_def millisecond_def Let_def)
  then show "minLeaseDuration \<le> lease_duration ?lm" "lease_duration ?lm \<le> max minLeaseDuration (lc_ElectionTimeout config div 2 - clockDrift ?lm)"
    "lease_duration ?lm \<le> max minLeaseDuration (3 * lc_HeartbeatTick config - clockDrift ?lm)"
    by (auto simp: minDuration_def)
qed

text \<open>Configurations and clock readings for which no time computation leaves the range of 64 bits.\<close>

definition lease_config_ok :: "LeaseConfig \<Rightarrow> bool" where
  "lease_config_ok config \<longleftrightarrow> 0 \<le> lc_ElectionTimeout config \<and> lc_ElectionTimeout config < 2 ^ 62 \<and> 0 \<le> lc_HeartbeatTick config \<and>
     lc_HeartbeatTick config < 2 ^ 60 \<and> 0 \<le> lc_ClockDrift config \<and> lc_ClockDrift config < 2 ^ 62"

definition renew_times_ok :: "lease_event list \<Rightarrow> bool" where
  "renew_times_ok es \<longleftrightarrow> (\<forall>sc t acks nodes. LeRenew sc t acks nodes \<in> set es \<longrightarrow> 0 \<le> t \<and> t < 2 ^ 62)"



section \<open>Read requests\<close>

lemma request_id_suffix:
  assumes "0 \<le> n"
  shows "takeWhile (\<lambda>c. c \<noteq> CHR ''-'') (rev (generateRequestID t n)) = rev (show_nat (nat n))"
proof -
  have "c \<noteq> CHR ''-''" if c: "c \<in> set (rev (show_nat (nat n)))" for c
    using c show_nat_digits[of "nat n"] by (auto simp: list_all_iff)
  then have "takeWhile (\<lambda>c. c \<noteq> CHR ''-'') (rev (show_nat (nat n)) @ CHR ''-'' # x) = rev (show_nat (nat n))" for x
    by (subst takeWhile_append2) auto
  then show ?thesis using assms by (simp add: generateRequestID_def show_int_def)
qed

lemma request_id_inj: "0 \<le> n \<Longrightarrow> 0 \<le> m \<Longrightarrow> generateRequestID t n = generateRequestID u m \<Longrightarrow> n = m"
  using request_id_suffix[of n t] request_id_suffix[of m u] by (simp add: show_nat_inj)

text \<open>
  The manager with the goroutines that call it. A goroutine has compared its index, has registered and waits,
  or has returned. The counter behind the request ids is below its maximum.
\<close>

datatype read_thread = RtIdle | RtChecked nat | RtWaiting string nat | RtDone nat nat | RtTimeout nat

record read_system =
  sys_rm :: ReadIndexManager
  sys_counter :: int
  sys_thread :: "nat \<Rightarrow> read_thread"

definition read_init :: read_system where
  "read_init = \<lparr>sys_rm = NewReadIndexManager, sys_counter = 0, sys_thread = (\<lambda>_. RtIdle)\<rparr>"

inductive read_step :: "read_system \<Rightarrow> read_system \<Rightarrow> bool" where
  read_fast: "sys_thread s i = RtIdle \<Longrightarrow> request_check idx (sys_rm s) = (rm, True) \<Longrightarrow>
     read_step s (s\<lparr>sys_rm := rm, sys_thread := (sys_thread s)(i := RtDone idx idx)\<rparr>)"
| read_slow: "sys_thread s i = RtIdle \<Longrightarrow> request_check idx (sys_rm s) = (rm, False) \<Longrightarrow>
     read_step s (s\<lparr>sys_rm := rm, sys_thread := (sys_thread s)(i := RtChecked idx)\<rparr>)"
| read_register: "sys_thread s i = RtChecked idx \<Longrightarrow> sys_counter s + 1 < 2 ^ 63 \<Longrightarrow> rid = generateRequestID now (sys_counter s + 1) \<Longrightarrow>
     read_step s (s\<lparr>sys_rm := request_register now rid idx (sys_rm s), sys_counter := sys_counter s + 1,
                    sys_thread := (sys_thread s)(i := RtWaiting rid idx)\<rparr>)"
| read_receive: "sys_thread s i = RtWaiting rid idx \<Longrightarrow> request_receive rid (sys_rm s) = Some (rm, c) \<Longrightarrow>
     read_step s (s\<lparr>sys_rm := rm, sys_thread := (sys_thread s)(i := RtDone idx c)\<rparr>)"
| read_cancel: "sys_thread s i = RtWaiting rid idx \<Longrightarrow>
     read_step s (s\<lparr>sys_rm := request_cancel rid (sys_rm s), sys_thread := (sys_thread s)(i := RtTimeout idx)\<rparr>)"
| read_notify: "iteration_order order \<Longrightarrow> read_step s (s\<lparr>sys_rm := NotifyApplied order applied (sys_rm s)\<rparr>)"

inductive read_reach :: "read_system \<Rightarrow> bool" where
  read_start: "read_reach read_init"
| read_next: "read_reach s \<Longrightarrow> read_step s s' \<Longrightarrow> read_reach s'"

text \<open>A waiting request is registered without a response, or confirmed.\<close>

definition waiting_ok :: "ReadIndexManager \<Rightarrow> string \<Rightarrow> nat \<Rightarrow> bool" where
  "waiting_ok rm rid idx \<longleftrightarrow>
     (\<exists>req. gm_get (pendingReads rm) rid = Some req \<and> rr_ReadIndex req = idx) \<and> responses rm rid = None \<or>
     gm_get (pendingReads rm) rid = None \<and> responses rm rid = Some idx \<and> idx \<le> lastApplied rm"

definition read_inv :: "read_system \<Rightarrow> bool" where
  "read_inv s \<longleftrightarrow> gm_wf (pendingReads (sys_rm s)) \<and> 0 \<le> sys_counter s \<and>
     (\<forall>i rid idx. sys_thread s i = RtWaiting rid idx \<longrightarrow> waiting_ok (sys_rm s) rid idx) \<and>
     (\<forall>i j rid x y. sys_thread s i = RtWaiting rid x \<longrightarrow> sys_thread s j = RtWaiting rid y \<longrightarrow> i = j) \<and>
     (\<forall>rid. (\<exists>i x. sys_thread s i = RtWaiting rid x) \<or> gm_get (pendingReads (sys_rm s)) rid \<noteq> None \<or> responses (sys_rm s) rid \<noteq> None \<longrightarrow>
        (\<exists>t n. rid = generateRequestID t n \<and> 0 \<le> n \<and> n \<le> sys_counter s)) \<and>
     (\<forall>i idx c. sys_thread s i = RtDone idx c \<longrightarrow> c = idx \<and> idx \<le> lastApplied (sys_rm s))"

text \<open>What a notification does to one request.\<close>

lemma fold_confirm:
  assumes "distinct (map fst es)"
  shows "gm_get (pendingReads (fold (confirm_request a) es rm)) rid =
      (case map_of es rid of Some req \<Rightarrow> if rr_ReadIndex req \<le> a then None else gm_get (pendingReads rm) rid | None \<Rightarrow> gm_get (pendingReads rm) rid)"
    "responses (fold (confirm_request a) es rm) rid =
      (case map_of es rid of Some req \<Rightarrow> if rr_ReadIndex req \<le> a \<and> responses rm rid = None then Some (rr_ReadIndex req) else responses rm rid
       | None \<Rightarrow> responses rm rid)"
    "lastApplied (fold (confirm_request a) es rm) = lastApplied rm" "gm_wf (pendingReads rm) \<Longrightarrow> gm_wf (pendingReads (fold (confirm_request a) es rm))"
proof -
  have "gm_get (pendingReads (fold (confirm_request a) es rm)) rid =
      (case map_of es rid of Some req \<Rightarrow> if rr_ReadIndex req \<le> a then None else gm_get (pendingReads rm) rid | None \<Rightarrow> gm_get (pendingReads rm) rid) \<and>
    responses (fold (confirm_request a) es rm) rid =
      (case map_of es rid of Some req \<Rightarrow> if rr_ReadIndex req \<le> a \<and> responses rm rid = None then Some (rr_ReadIndex req) else responses rm rid
       | None \<Rightarrow> responses rm rid) \<and>
    lastApplied (fold (confirm_request a) es rm) = lastApplied rm \<and> (gm_wf (pendingReads rm) \<longrightarrow> gm_wf (pendingReads (fold (confirm_request a) es rm)))"
    using assms
  proof (induction es arbitrary: rm)
    case (Cons e es)
    obtain k req where e: "e = (k, req)" by (cases e)
    have k: "map_of es k = None" using Cons.prems e by (simp add: map_of_eq_None_iff)
    let ?rm = "confirm_request a e rm"
    have c: "gm_get (pendingReads ?rm) rid = (if rid = k \<and> rr_ReadIndex req \<le> a then None else gm_get (pendingReads rm) rid)"
      "responses ?rm rid = (if rid = k \<and> rr_ReadIndex req \<le> a \<and> responses rm k = None then Some (rr_ReadIndex req) else responses rm rid)"
      "lastApplied ?rm = lastApplied rm" "gm_wf (pendingReads rm) \<longrightarrow> gm_wf (pendingReads ?rm)"
      by (auto simp: confirm_request_def e gm_get_del)
    show ?case using Cons.IH[of ?rm] Cons.prems c k by (auto simp: e split: option.splits if_splits)
  qed simp
  then show "gm_get (pendingReads (fold (confirm_request a) es rm)) rid =
      (case map_of es rid of Some req \<Rightarrow> if rr_ReadIndex req \<le> a then None else gm_get (pendingReads rm) rid | None \<Rightarrow> gm_get (pendingReads rm) rid)"
    "responses (fold (confirm_request a) es rm) rid =
      (case map_of es rid of Some req \<Rightarrow> if rr_ReadIndex req \<le> a \<and> responses rm rid = None then Some (rr_ReadIndex req) else responses rm rid
       | None \<Rightarrow> responses rm rid)"
    "lastApplied (fold (confirm_request a) es rm) = lastApplied rm" "gm_wf (pendingReads rm) \<Longrightarrow> gm_wf (pendingReads (fold (confirm_request a) es rm))" by auto
qed

lemma map_of_order: "gm_wf m \<Longrightarrow> iteration_order order \<Longrightarrow> map_of (order m) = map_of m \<and> distinct (map fst (order m))"
proof -
  assume a: "gm_wf m" "iteration_order order"
  then have ms: "mset (order m) = mset m" by (simp add: iteration_order_def)
  then have "mset (map fst (order m)) = mset (map fst m)" by simp
  then have d: "distinct (map fst (order m))" using a(1) by (metis mset_eq_imp_distinct_iff)
  then show ?thesis using map_of_inject_set[OF d a(1)] mset_eq_setD[OF ms] by simp
qed

lemma notify_laws:
  assumes "gm_wf (pendingReads rm)" "iteration_order order"
  shows "gm_get (pendingReads (NotifyApplied order a rm)) rid =
      (case gm_get (pendingReads rm) rid of Some req \<Rightarrow> if rr_ReadIndex req \<le> a then None else Some req | None \<Rightarrow> None)"
    "responses (NotifyApplied order a rm) rid =
      (case gm_get (pendingReads rm) rid of Some req \<Rightarrow> if rr_ReadIndex req \<le> a \<and> responses rm rid = None then Some (rr_ReadIndex req) else responses rm rid
       | None \<Rightarrow> responses rm rid)"
    "lastApplied (NotifyApplied order a rm) = max a (lastApplied rm)" "gm_wf (pendingReads (NotifyApplied order a rm))"
proof -
  define rm1 where "rm1 = (if a > lastApplied rm then rm\<lparr>lastApplied := a\<rparr> else rm)"
  have r: "pendingReads rm1 = pendingReads rm" "responses rm1 = responses rm" "lastApplied rm1 = max a (lastApplied rm)" by (simp_all add: rm1_def)
  have n: "NotifyApplied order a rm = fold (confirm_request a) (order (pendingReads rm)) rm1"
    unfolding NotifyApplied_def rm1_def[symmetric] Let_def r ..
  note m = map_of_order[OF assms]
  note f = fold_confirm[OF conjunct2[OF m], where a = a and rm = rm1, unfolded n[symmetric] conjunct1[OF m] r]
  show "gm_get (pendingReads (NotifyApplied order a rm)) rid =
      (case gm_get (pendingReads rm) rid of Some req \<Rightarrow> if rr_ReadIndex req \<le> a then None else Some req | None \<Rightarrow> None)"
    using f(1)[of rid] by (simp split: option.splits)
  show "responses (NotifyApplied order a rm) rid =
      (case gm_get (pendingReads rm) rid of Some req \<Rightarrow> if rr_ReadIndex req \<le> a \<and> responses rm rid = None then Some (rr_ReadIndex req) else responses rm rid
       | None \<Rightarrow> responses rm rid)" by (rule f(2))
  show "lastApplied (NotifyApplied order a rm) = max a (lastApplied rm)" "gm_wf (pendingReads (NotifyApplied order a rm))" using f(3,4) assms(1) by auto
qed

lemma read_inv_init: "read_inv read_init"
  by (simp add: read_inv_def read_init_def NewReadIndexManager_def)

lemma read_invD:
  assumes "read_inv s"
  shows "gm_wf (pendingReads (sys_rm s))" "0 \<le> sys_counter s" "sys_thread s i = RtWaiting rid idx \<Longrightarrow> waiting_ok (sys_rm s) rid idx"
    "sys_thread s i = RtWaiting rid x \<Longrightarrow> sys_thread s j = RtWaiting rid y \<Longrightarrow> i = j"
    "(\<exists>i x. sys_thread s i = RtWaiting rid x) \<or> gm_get (pendingReads (sys_rm s)) rid \<noteq> None \<or> responses (sys_rm s) rid \<noteq> None \<Longrightarrow>
        \<exists>t n. rid = generateRequestID t n \<and> 0 \<le> n \<and> n \<le> sys_counter s"
    "sys_thread s i = RtDone idx c \<Longrightarrow> c = idx \<and> idx \<le> lastApplied (sys_rm s)"
  using assms unfolding read_inv_def by blast+

lemma read_fresh_id:
  assumes "read_inv s" "rid = generateRequestID now (sys_counter s + 1)"
  shows "sys_thread s i \<noteq> RtWaiting rid x" "gm_get (pendingReads (sys_rm s)) rid = None" "responses (sys_rm s) rid = None"
proof -
  have "False" if e: "rid = generateRequestID t n" "0 \<le> n" "n \<le> sys_counter s" for t n
    using request_id_inj[of "sys_counter s + 1" n now t] e assms(2) read_invD(2)[OF assms(1)] by simp
  then show "sys_thread s i \<noteq> RtWaiting rid x" "gm_get (pendingReads (sys_rm s)) rid = None" "responses (sys_rm s) rid = None"
    using read_invD(5)[OF assms(1), of rid] by blast+
qed

lemma read_inv_check:
  assumes inv: "read_inv s" and rm: "pendingReads rm = pendingReads (sys_rm s)" "responses rm = responses (sys_rm s)" "lastApplied rm = lastApplied (sys_rm s)"
    and t: "\<And>rid x. t \<noteq> RtWaiting rid x" "\<And>x c. t = RtDone x c \<Longrightarrow> c = x \<and> x \<le> lastApplied (sys_rm s)"
  shows "read_inv (s\<lparr>sys_rm := rm, sys_thread := (sys_thread s)(i := t)\<rparr>)"
proof -
  let ?s = "s\<lparr>sys_rm := rm, sys_thread := (sys_thread s)(i := t)\<rparr>"
  have old: "sys_thread s j = RtWaiting r x" if "sys_thread ?s j = RtWaiting r x" for j r x using that t(1) by (auto split: if_splits)
  have "waiting_ok rm = waiting_ok (sys_rm s)" by (intro ext) (simp add: waiting_ok_def rm)
  show ?thesis unfolding read_inv_def
  proof (intro conjI allI impI)
    fix r assume "(\<exists>j x. sys_thread ?s j = RtWaiting r x) \<or> gm_get (pendingReads (sys_rm ?s)) r \<noteq> None \<or> responses (sys_rm ?s) r \<noteq> None"
    then have "(\<exists>j x. sys_thread s j = RtWaiting r x) \<or> gm_get (pendingReads (sys_rm s)) r \<noteq> None \<or> responses (sys_rm s) r \<noteq> None"
      using old[of _ r] rm(1,2) read_system.select_convs(1) by (metis read_system.select_convs(1) read_system.surjective read_system.update_convs(1) read_system.update_convs(3))
    from read_invD(5)[OF inv this] show "\<exists>t n. r = generateRequestID t n \<and> 0 \<le> n \<and> n \<le> sys_counter ?s" by simp
  next
    fix j r x assume "sys_thread ?s j = RtWaiting r x"
    from read_invD(3)[OF inv old[OF this]] show "waiting_ok (sys_rm ?s) r x" using \<open>waiting_ok rm = waiting_ok (sys_rm s)\<close> by simp
  next
    fix j j' r x y assume "sys_thread ?s j = RtWaiting r x" "sys_thread ?s j' = RtWaiting r y"
    from read_invD(4)[OF inv old[OF this(1)] old[OF this(2)]] show "j = j'" .
  next
    fix j x c assume "sys_thread ?s j = RtDone x c"
    then show "c = x" "x \<le> lastApplied (sys_rm ?s)" using read_invD(6)[OF inv, of j x c] t(2)[of x c] rm(3) by (auto split: if_splits)
  qed (use read_invD(1,2)[OF inv] rm in auto)
qed

lemma read_step_inv:
  assumes "read_step s s'" "read_inv s"
  shows "read_inv s'"
  using assms
proof (induction rule: read_step.induct)
  case (read_fast s i idx rm)
  then show ?case by (intro read_inv_check) (auto simp: request_check_def)
next
  case (read_slow s i idx rm)
  then show ?case by (intro read_inv_check) (auto simp: request_check_def)
next
  case (read_register s i idx rid now)
  note inv = read_register.prems
  note f = read_fresh_id[OF inv read_register.hyps(3)]
  let ?s = "s\<lparr>sys_rm := request_register now rid idx (sys_rm s), sys_counter := sys_counter s + 1, sys_thread := (sys_thread s)(i := RtWaiting rid idx)\<rparr>"
  have w: "waiting_ok (sys_rm ?s) rid' x" if t: "sys_thread ?s j = RtWaiting rid' x" for j rid' x
  proof (cases "j = i")
    case True
    then show ?thesis using t f(3) by (simp add: waiting_ok_def request_register_def gm_get_set)
  next
    case False
    then have "sys_thread s j = RtWaiting rid' x" "rid' \<noteq> rid" using t f(1)[of j x] by auto
    then show ?thesis using read_invD(3)[OF inv] by (auto simp: waiting_ok_def request_register_def gm_get_set)
  qed
  have ids: "\<exists>t n. r = generateRequestID t n \<and> 0 \<le> n \<and> n \<le> sys_counter ?s"
    if "(\<exists>i x. sys_thread ?s i = RtWaiting r x) \<or> gm_get (pendingReads (sys_rm ?s)) r \<noteq> None \<or> responses (sys_rm ?s) r \<noteq> None" for r
  proof (cases "r = rid")
    case True
    then have "r = generateRequestID now (sys_counter s + 1) \<and> 0 \<le> sys_counter s + 1 \<and> sys_counter s + 1 \<le> sys_counter ?s"
      using read_register.hyps(3) read_invD(2)[OF inv] by simp
    then show ?thesis by blast
  next
    case False
    then have "(\<exists>i x. sys_thread s i = RtWaiting r x) \<or> gm_get (pendingReads (sys_rm s)) r \<noteq> None \<or> responses (sys_rm s) r \<noteq> None"
      using that by (auto simp: request_register_def gm_get_set split: if_splits)
    from read_invD(5)[OF inv this] show ?thesis by fastforce
  qed
  show ?case unfolding read_inv_def
  proof (intro conjI allI impI)
    fix j j' r x y assume "sys_thread ?s j = RtWaiting r x" "sys_thread ?s j' = RtWaiting r y"
    then show "j = j'" using f(1) read_invD(4)[OF inv] by (auto split: if_splits)
  next
    fix j x c assume "sys_thread ?s j = RtDone x c"
    then show "c = x" "x \<le> lastApplied (sys_rm ?s)" using read_invD(6)[OF inv, of j x c] by (auto simp: request_register_def split: if_splits)
  qed (use w ids read_invD(1,2)[OF inv] in \<open>auto simp: request_register_def\<close>)
next
  case (read_receive s i rid idx rm c)
  note inv = read_receive.prems
  have w: "waiting_ok (sys_rm s) rid idx" by (rule read_invD(3)[OF inv read_receive.hyps(1)])
  have rm: "rm = (sys_rm s)\<lparr>responses := (responses (sys_rm s))(rid := None)\<rparr>" "responses (sys_rm s) rid = Some c"
    using read_receive.hyps(2) by (auto simp: request_receive_def)
  have c: "c = idx" "idx \<le> lastApplied (sys_rm s)" using w rm(2) by (auto simp: waiting_ok_def)
  have other: "rid' \<noteq> rid" if "sys_thread s j = RtWaiting rid' x" "j \<noteq> i" for j rid' x
    using that read_invD(4)[OF inv read_receive.hyps(1), of j] by auto
  show ?case unfolding read_inv_def
  proof (intro conjI allI impI)
    fix j rid' x assume "sys_thread (s\<lparr>sys_rm := rm, sys_thread := (sys_thread s)(i := RtDone idx c)\<rparr>) j = RtWaiting rid' x"
    then have t: "sys_thread s j = RtWaiting rid' x" "j \<noteq> i" by (auto split: if_splits)
    then show "waiting_ok (sys_rm (s\<lparr>sys_rm := rm, sys_thread := (sys_thread s)(i := RtDone idx c)\<rparr>)) rid' x"
      using read_invD(3)[OF inv t(1)] other[OF t] by (simp add: waiting_ok_def rm(1))
  next
    fix j x c' assume "sys_thread (s\<lparr>sys_rm := rm, sys_thread := (sys_thread s)(i := RtDone idx c)\<rparr>) j = RtDone x c'"
    then show "c' = x" "x \<le> lastApplied (sys_rm (s\<lparr>sys_rm := rm, sys_thread := (sys_thread s)(i := RtDone idx c)\<rparr>))"
      using read_invD(6)[OF inv, of j x c'] c by (auto simp: rm(1) split: if_splits)
  next
    fix r assume "(\<exists>j x. sys_thread (s\<lparr>sys_rm := rm, sys_thread := (sys_thread s)(i := RtDone idx c)\<rparr>) j = RtWaiting r x) \<or>
      gm_get (pendingReads (sys_rm (s\<lparr>sys_rm := rm, sys_thread := (sys_thread s)(i := RtDone idx c)\<rparr>))) r \<noteq> None \<or>
      responses (sys_rm (s\<lparr>sys_rm := rm, sys_thread := (sys_thread s)(i := RtDone idx c)\<rparr>)) r \<noteq> None"
    then have "(\<exists>j x. sys_thread s j = RtWaiting r x) \<or> gm_get (pendingReads (sys_rm s)) r \<noteq> None \<or> responses (sys_rm s) r \<noteq> None"
      by (auto simp: rm(1) split: if_splits)
    from read_invD(5)[OF inv this] show "\<exists>t n. r = generateRequestID t n \<and> 0 \<le> n \<and> n \<le> sys_counter (s\<lparr>sys_rm := rm, sys_thread := (sys_thread s)(i := RtDone idx c)\<rparr>)"
      by simp
  qed (use read_invD(1,2)[OF inv] read_invD(4)[OF inv] in \<open>auto simp: rm(1) split: if_splits\<close>)
next
  case (read_cancel s i rid idx)
  note inv = read_cancel.prems
  have other: "rid' \<noteq> rid" if "sys_thread s j = RtWaiting rid' x" "j \<noteq> i" for j rid' x
    using that read_invD(4)[OF inv read_cancel.hyps(1), of j] by auto
  let ?s = "s\<lparr>sys_rm := request_cancel rid (sys_rm s), sys_thread := (sys_thread s)(i := RtTimeout idx)\<rparr>"
  show ?case unfolding read_inv_def
  proof (intro conjI allI impI)
    fix j rid' x assume "sys_thread ?s j = RtWaiting rid' x"
    then have t: "sys_thread s j = RtWaiting rid' x" "j \<noteq> i" by (auto split: if_splits)
    then show "waiting_ok (sys_rm ?s) rid' x" using read_invD(3)[OF inv t(1)] other[OF t] by (simp add: waiting_ok_def request_cancel_def gm_get_del)
  next
    fix r assume "(\<exists>j x. sys_thread ?s j = RtWaiting r x) \<or> gm_get (pendingReads (sys_rm ?s)) r \<noteq> None \<or> responses (sys_rm ?s) r \<noteq> None"
    then have "(\<exists>j x. sys_thread s j = RtWaiting r x) \<or> gm_get (pendingReads (sys_rm s)) r \<noteq> None \<or> responses (sys_rm s) r \<noteq> None"
      by (auto simp: request_cancel_def gm_get_del split: if_splits)
    from read_invD(5)[OF inv this] show "\<exists>t n. r = generateRequestID t n \<and> 0 \<le> n \<and> n \<le> sys_counter ?s" by simp
  qed (use read_invD(1,2)[OF inv] read_invD(4)[OF inv] read_invD(6)[OF inv] in \<open>auto simp: request_cancel_def split: if_splits\<close>)
next
  case (read_notify order s applied)
  note inv = read_notify.prems
  note n = notify_laws[OF read_invD(1)[OF inv] read_notify.hyps, where a = applied]
  let ?s = "s\<lparr>sys_rm := NotifyApplied order applied (sys_rm s)\<rparr>"
  show ?case unfolding read_inv_def
  proof (intro conjI allI impI)
    fix j rid x assume t: "sys_thread ?s j = RtWaiting rid x"
    then have w: "waiting_ok (sys_rm s) rid x" using read_invD(3)[OF inv, of j rid x] by simp
    have "gm_get (pendingReads (sys_rm ?s)) rid = (case gm_get (pendingReads (sys_rm s)) rid of Some req \<Rightarrow> if rr_ReadIndex req \<le> applied then None else Some req | None \<Rightarrow> None)"
      using n(1)[of rid] by simp
    then show "waiting_ok (sys_rm ?s) rid x" using w n(2)[of rid] n(3) by (cases "x \<le> applied") (auto simp: waiting_ok_def)
  next
    fix r assume "(\<exists>j x. sys_thread ?s j = RtWaiting r x) \<or> gm_get (pendingReads (sys_rm ?s)) r \<noteq> None \<or> responses (sys_rm ?s) r \<noteq> None"
    then have "(\<exists>j x. sys_thread s j = RtWaiting r x) \<or> gm_get (pendingReads (sys_rm s)) r \<noteq> None \<or> responses (sys_rm s) r \<noteq> None"
      by (auto simp: n split: option.splits if_splits)
    from read_invD(5)[OF inv this] show "\<exists>t n. r = generateRequestID t n \<and> 0 \<le> n \<and> n \<le> sys_counter ?s" by simp
  next
    fix j x c assume "sys_thread ?s j = RtDone x c"
    then have "c = x \<and> x \<le> lastApplied (sys_rm s)" using read_invD(6)[OF inv, of j x c] by simp
    then show "c = x" "x \<le> lastApplied (sys_rm ?s)" using n(3) by (auto simp: max_def)
  qed (use read_invD(2)[OF inv] read_invD(4)[OF inv] n(4) in auto)
qed

lemma read_reach_inv: "read_reach s \<Longrightarrow> read_inv s"
  by (induction rule: read_reach.induct) (auto intro: read_inv_init read_step_inv)

text \<open>
  C6: the read index is safe and its notifications are complete. In every interleaving of read requests,
  cancellations and notifications, a request that returns without an error returns the index it asked for, and
  the state machine has applied that index; and a notification puts the answer of every registered request that it
  covers into its channel, where it stays until it is received.
\<close>

theorem read_index_safe:
  assumes "read_reach s"
  shows "(\<forall>i idx c. sys_thread s i = RtDone idx c \<longrightarrow> c = idx \<and> idx \<le> lastApplied (sys_rm s))
    \<and> (\<forall>i rid idx order a. sys_thread s i = RtWaiting rid idx \<longrightarrow> iteration_order order \<longrightarrow> idx \<le> a \<longrightarrow>
         (\<exists>rm. request_receive rid (NotifyApplied order a (sys_rm s)) = Some (rm, idx)))"
proof (intro conjI allI impI)
  note inv = read_reach_inv[OF assms]
  fix i idx c assume "sys_thread s i = RtDone idx c"
  from read_invD(6)[OF inv this] show "c = idx" "idx \<le> lastApplied (sys_rm s)" by auto
next
  note inv = read_reach_inv[OF assms]
  fix i rid idx a and order :: "(string \<times> ReadIndexRequest) list \<Rightarrow> (string \<times> ReadIndexRequest) list"
  assume h: "sys_thread s i = RtWaiting rid idx" "iteration_order order" "idx \<le> a"
  have "responses (NotifyApplied order a (sys_rm s)) rid = Some idx"
    using read_invD(3)[OF inv h(1)] h(3) by (auto simp: waiting_ok_def notify_laws[OF read_invD(1)[OF inv] h(2)])
  then show "\<exists>rm. request_receive rid (NotifyApplied order a (sys_rm s)) = Some (rm, idx)" by (simp add: request_receive_def)
qed

text \<open>The run behind the next two statements: an index is compared, applied, and only then registered.\<close>

definition missed :: read_system where
  "missed = read_init\<lparr>sys_rm := request_register 7 (generateRequestID 7 1) 5 (NotifyApplied id 5 (fst (request_check 5 NewReadIndexManager))),
     sys_counter := 1, sys_thread := (\<lambda>_. RtIdle)(0 := RtWaiting (generateRequestID 7 1) 5)\<rparr>"

lemma missed_reach: "read_reach missed"
proof -
  let ?rm = "fst (request_check 5 NewReadIndexManager)"
  let ?s1 = "read_init\<lparr>sys_rm := ?rm, sys_thread := (\<lambda>_. RtIdle)(0 := RtChecked 5)\<rparr>"
  have "read_step read_init ?s1"
    using read_slow[of read_init 0 5 ?rm] by (simp add: read_init_def request_check_def NewReadIndexManager_def)
  moreover have "read_step ?s1 (?s1\<lparr>sys_rm := NotifyApplied id 5 ?rm\<rparr>)" using read_notify[of id ?s1 5] by (simp add: iteration_order_def)
  moreover have "read_step (?s1\<lparr>sys_rm := NotifyApplied id 5 ?rm\<rparr>) missed"
    using read_register[of "?s1\<lparr>sys_rm := NotifyApplied id 5 ?rm\<rparr>" 0 5 "generateRequestID 7 1" 7] by (simp add: missed_def read_init_def)
  ultimately show ?thesis by (meson read_start read_next)
qed

theorem read_index_safe_witness:
  "read_reach missed \<and> (\<exists>rm. request_receive (generateRequestID 7 1) (NotifyApplied id 6 (sys_rm missed)) = Some (rm, 5))"
proof -
  have t: "sys_thread missed 0 = RtWaiting (generateRequestID 7 1) 5" by (simp add: missed_def)
  have o: "iteration_order (id :: (string \<times> ReadIndexRequest) list \<Rightarrow> _)" by (simp add: iteration_order_def)
  have le: "(5 :: nat) \<le> 6" by simp
  from conjunct2[OF read_index_safe[OF missed_reach]] t o le
  have "\<exists>rm. request_receive (generateRequestID 7 1) (NotifyApplied id 6 (sys_rm missed)) = Some (rm, 5)" by blast
  then show ?thesis using missed_reach by blast
qed


end
