(* ===== verification/Raft_Node.thy ===== *)
theory Raft_Node
  imports Lease_Read Raft_Log Batch_Codec
begin

text \<open>
  The node around the Raft library with the persistent log, \<open>internal/raft/node_rocksdb.go\<close>, whose parts that do not touch
  the log are the same in \<open>node_memory.go\<close>: recovery at the start,
  the loop that stores, sends and publishes what the library hands over, membership changes, snapshots with
  log compaction, the lease renewal, and the goroutine that proposes. The library itself (its state, what a membership
  change does to it, the progress of the peers) is the parameter \<open>lib\<close>; what it hands over is the argument
  \<open>Ready\<close>. The calls on channels, transport and snapshot files are recorded in order in the field \<open>rn_out\<close>. A call
  of \<open>log.Fatalf\<close> ends the process, a panic too.
\<close>

section \<open>Messages and state\<close>

datatype EntryType = EntryNormal | EntryConfChange | EntryConfChangeV2

record entry_body =
  eb_Type :: EntryType
  eb_Data :: string

type_synonym entry = "entry_body raft_entry"

datatype ConfChangeType = ConfChangeAddNode | ConfChangeRemoveNode | ConfChangeOther

record ConfChange =
  cc_ID :: nat
  cc_Type :: ConfChangeType
  cc_NodeID :: nat
  cc_Context :: string

record ('c, 'm) raft_message =
  ms_IsSnap :: bool
  ms_ConfState :: 'c
  ms_Rest :: 'm

record ('n, 'c) raft_lib =
  lib_Unmarshal :: "string \<Rightarrow> ConfChange"
  lib_ApplyConfChange :: "ConfChange \<Rightarrow> 'n \<Rightarrow> 'n \<times> 'c"
  lib_RecentActive :: "'n \<Rightarrow> bool list"
  lib_Voters :: "'c \<Rightarrow> nat"

record node_config =
  cfg_Batch :: bool
  cfg_LeaseRead :: bool
  cfg_Witness :: bool

datatype ('c, 'h, 'm) node_call =
    CommitData "string list"
  | CommitNil
  | AddPeer nat string
  | RemovePeer nat
  | SendMessages "('c, 'm) raft_message list"
  | SaveSnapFile "'c raft_snapshot"
  | WalSave 'h "entry list"
  | WalSnapshot nat nat
  | WalRelease nat
  | Advance
  | NodeStop

record ('s, 'n, 'c, 'h, 'm) raftNodeRocks =
  rn_id :: nat
  rn_confState :: 'c
  rn_snapshotIndex :: nat
  rn_appliedIndex :: nat
  rn_node :: 'n
  rn_raftStorage :: 's
  rn_snapCount :: nat
  rn_smartLeaseConfig :: SmartLeaseConfig
  rn_leaseManager :: "LeaseManager option"
  rn_readIndexManager :: "ReadIndexManager option"
  rn_cfg :: node_config
  rn_out :: "('c, 'h, 'm) node_call list"

text \<open>
  How a piece of the loop ends: it goes on, it returns after \<open>stop\<close>, or the process dies. Only the last piece of the
  loop can stop it, so a stop is never followed by a next step.
\<close>

datatype 's node_outcome = Running 's | Stopped 's | Fatal | Panicked

fun next_step :: "('s \<Rightarrow> 't node_outcome) \<Rightarrow> 's node_outcome \<Rightarrow> 't node_outcome" where
  "next_step f (Running s) = f s"
| "next_step f (Stopped s) = Fatal"
| "next_step f Fatal = Fatal"
| "next_step f Panicked = Panicked"

definition emit :: "('c, 'h, 'm) node_call list \<Rightarrow> ('s, 'n, 'c, 'h, 'm) raftNodeRocks \<Rightarrow> ('s, 'n, 'c, 'h, 'm) raftNodeRocks" where
  "emit calls s = s\<lparr>rn_out := rn_out s @ calls\<rparr>"

definition defaultSnapshotCount :: nat where "defaultSnapshotCount = 10000"
definition snapshotCatchUpEntriesN :: nat where "snapshotCatchUpEntriesN = 10000"

definition isWitness :: "('s, 'n, 'c, 'h, 'm) raftNodeRocks \<Rightarrow> bool" where
  "isWitness s = cfg_Witness (rn_cfg s)"

section \<open>Publishing\<close>

definition saveSnap :: "bool \<Rightarrow> 'c raft_snapshot \<Rightarrow> ('s, 'n, 'c, 'h, 'm) raftNodeRocks \<Rightarrow> ('s, 'n, 'c, 'h, 'm) raftNodeRocks option" where
  "saveSnap fails snap s = (if fails then None else Some (emit [SaveSnapFile snap] s))"

definition entriesToApply :: "entry list \<Rightarrow> nat \<Rightarrow> entry list node_outcome" where
  "entriesToApply ents applied =
     (if ents = [] then Running ents
      else
        let firstIdx = en_Index (hd ents); k = (applied + 2 ^ 64 - firstIdx + 1) mod 2 ^ 64
        in if firstIdx > uint64_succ applied then Fatal
           else if k < length ents then Running (drop k ents) else Running [])"

definition apply_conf_change :: "('n, 'c) raft_lib \<Rightarrow> string \<Rightarrow> ('s, 'n, 'c, 'h, 'm) raftNodeRocks \<Rightarrow> ('s, 'n, 'c, 'h, 'm) raftNodeRocks \<times> bool" where
  "apply_conf_change lib data s =
     (let cc = lib_Unmarshal lib data;
          (n, cs) = lib_ApplyConfChange lib cc (rn_node s);
          s1 = s\<lparr>rn_node := n, rn_confState := cs\<rparr>
      in case cc_Type cc of
           ConfChangeAddNode \<Rightarrow> (if cc_Context cc \<noteq> [] then emit [AddPeer (cc_NodeID cc) (cc_Context cc)] s1 else s1, True)
         | ConfChangeRemoveNode \<Rightarrow>
             if cc_NodeID cc = rn_id s then (s1, False) else (emit [RemovePeer (cc_NodeID cc)] s1, True)
         | ConfChangeOther \<Rightarrow> (s1, True))"

text \<open>The proposals in an entry; an entry that does not decode is skipped.\<close>

definition entry_data :: "bool \<Rightarrow> entry \<Rightarrow> string list" where
  "entry_data batch e =
     (if eb_Type (en_Rest e) \<noteq> EntryNormal \<or> eb_Data (en_Rest e) = [] then []
      else if batch then (case DecodeBatch (eb_Data (en_Rest e)) of Inl err \<Rightarrow> [] | Inr proposals \<Rightarrow> proposals)
      else [eb_Data (en_Rest e)])"

text \<open>The loop over the entries; the answer False is the removal of this node.\<close>

fun publish_loop ::
    "('n, 'c) raft_lib \<Rightarrow> entry list \<Rightarrow> ('s, 'n, 'c, 'h, 'm) raftNodeRocks \<times> string list \<Rightarrow> (('s, 'n, 'c, 'h, 'm) raftNodeRocks \<times> string list) \<times> bool" where
  "publish_loop lib [] (s, data) = ((s, data), True)"
| "publish_loop lib (e # es) (s, data) =
     (case eb_Type (en_Rest e) of
        EntryNormal \<Rightarrow> publish_loop lib es (s, data @ entry_data (cfg_Batch (rn_cfg s)) e)
      | EntryConfChange \<Rightarrow>
          (case apply_conf_change lib (eb_Data (en_Rest e)) s of
             (s1, True) \<Rightarrow> publish_loop lib es (s1, data)
           | (s1, False) \<Rightarrow> ((s1, data), False))
      | EntryConfChangeV2 \<Rightarrow> publish_loop lib es (s, data))"

text \<open>A witness applies the membership changes only.\<close>

fun witness_loop :: "('n, 'c) raft_lib \<Rightarrow> entry list \<Rightarrow> ('s, 'n, 'c, 'h, 'm) raftNodeRocks \<Rightarrow> ('s, 'n, 'c, 'h, 'm) raftNodeRocks \<times> bool" where
  "witness_loop lib [] s = (s, True)"
| "witness_loop lib (e # es) s =
     (case eb_Type (en_Rest e) of
        EntryNormal \<Rightarrow> witness_loop lib es s
      | EntryConfChange \<Rightarrow>
          (case apply_conf_change lib (eb_Data (en_Rest e)) s of
             (s1, True) \<Rightarrow> witness_loop lib es s1
           | (s1, False) \<Rightarrow> (s1, False))
      | EntryConfChangeV2 \<Rightarrow> witness_loop lib es s)"

definition publishEntriesAsWitness :: "('n, 'c) raft_lib \<Rightarrow> entry list \<Rightarrow> ('s, 'n, 'c, 'h, 'm) raftNodeRocks \<Rightarrow> ('s, 'n, 'c, 'h, 'm) raftNodeRocks \<times> bool" where
  "publishEntriesAsWitness lib ents s =
     (case witness_loop lib ents s of
        (s1, False) \<Rightarrow> (s1, False)
      | (s1, True) \<Rightarrow> (s1\<lparr>rn_appliedIndex := en_Index (last ents)\<rparr>, True))"

type_synonym read_order = "(string \<times> ReadIndexRequest) list \<Rightarrow> (string \<times> ReadIndexRequest) list"

text \<open>
  The commit channel has no buffer: \<open>stopping\<close> says that the select statement took the stop signal. The answer is
  whether to wait for the applied signal of the commit, or the end of the node.
\<close>

definition publishEntries ::
    "('n, 'c) raft_lib \<Rightarrow> read_order \<Rightarrow> bool \<Rightarrow> entry list \<Rightarrow> ('s, 'n, 'c, 'h, 'm) raftNodeRocks \<Rightarrow> ('s, 'n, 'c, 'h, 'm) raftNodeRocks \<times> bool option" where
  "publishEntries lib order stopping ents s =
     (if ents = [] then (s, Some False)
      else if isWitness s then
        (case publishEntriesAsWitness lib ents s of (s1, True) \<Rightarrow> (s1, Some False) | (s1, False) \<Rightarrow> (s1, None))
      else
        case publish_loop lib ents (s, []) of
          ((s1, data), False) \<Rightarrow> (s1, None)
        | ((s1, data), True) \<Rightarrow>
            if data \<noteq> [] \<and> stopping then (s1, None)
            else
              let s2 = (if data \<noteq> [] then emit [CommitData data] s1 else s1);
                  s3 = s2\<lparr>rn_appliedIndex := en_Index (last ents)\<rparr>;
                  s4 = (if cfg_LeaseRead (rn_cfg s3)
                        then s3\<lparr>rn_readIndexManager := map_option (NotifyApplied order (rn_appliedIndex s3)) (rn_readIndexManager s3)\<rparr> else s3)
              in (s4, Some (data \<noteq> [])))"

definition publishSnapshot :: "(entry_body, 'c, 'h) raft_codec \<Rightarrow> 'c raft_snapshot \<Rightarrow> ('s, 'n, 'c, 'h, 'm) raftNodeRocks \<Rightarrow> ('s, 'n, 'c, 'h, 'm) raftNodeRocks node_outcome" where
  "publishSnapshot C snap s =
     (if IsEmptySnap C snap then Running s
      else if sn_Index snap \<le> rn_appliedIndex s then Fatal
      else Running ((emit [CommitNil] s)\<lparr>rn_confState := sn_ConfState snap, rn_snapshotIndex := sn_Index snap, rn_appliedIndex := sn_Index snap\<rparr>))"

text \<open>
  The snapshot after enough applied entries. \<open>wait\<close> is whether there is an applied signal to wait for and \<open>stopping\<close> whether
  the stop signal came first; \<open>snapData\<close> is the answer of \<open>getSnapshot\<close>, None an error.
\<close>

definition maybeTriggerSnapshot ::
    "io \<Rightarrow> 'd rocks \<Rightarrow> (entry_body, 'c, 'h) raft_codec \<Rightarrow> bool \<Rightarrow> bool \<Rightarrow> bool \<Rightarrow> string option \<Rightarrow> ('d RocksDBStorage, 'n, 'c, 'h, 'm) raftNodeRocks \<Rightarrow>
     ('d RocksDBStorage, 'n, 'c, 'h, 'm) raftNodeRocks node_outcome" where
  "maybeTriggerSnapshot io D C fileFails wait stopping snapData s =
     (if (rn_appliedIndex s + 2 ^ 64 - rn_snapshotIndex s) mod 2 ^ 64 \<le> rn_snapCount s then Running s
      else if wait \<and> stopping then Running s
      else
        case snapData of
          None \<Rightarrow> Panicked
        | Some data \<Rightarrow>
            (case CreateSnapshot io D C (rn_appliedIndex s) (rn_confState s) data (rn_raftStorage s) of
               (st, Inl e) \<Rightarrow> Panicked
             | (st, Inr snap) \<Rightarrow>
                 (case saveSnap fileFails snap (s\<lparr>rn_raftStorage := st\<rparr>) of
                    None \<Rightarrow> Panicked
                  | Some s1 \<Rightarrow>
                      let compactIndex = (if rn_appliedIndex s1 > snapshotCatchUpEntriesN then rn_appliedIndex s1 - snapshotCatchUpEntriesN else 1)
                      in case log_Compact io D compactIndex (rn_raftStorage s1) of
                           (st', out) \<Rightarrow>
                             if out \<noteq> Inr () \<and> out \<noteq> Inl LogCompacted then Panicked
                             else Running (s1\<lparr>rn_raftStorage := st', rn_snapshotIndex := rn_appliedIndex s1\<rparr>))))"

section \<open>The lease\<close>

definition tryRenewLease :: "('n, 'c) raft_lib \<Rightarrow> int \<Rightarrow> ('s, 'n, 'c, 'h, 'm) raftNodeRocks \<Rightarrow> ('s, 'n, 'c, 'h, 'm) raftNodeRocks" where
  "tryRenewLease lib now s =
     (let progress = lib_RecentActive lib (rn_node s);
          totalNodes = int (length progress);
          activeNodes = int (length (filter id progress))
      in s\<lparr>rn_leaseManager := map_option (\<lambda>lm. fst (RenewLease (Some (rn_smartLeaseConfig s)) now activeNodes totalNodes lm)) (rn_leaseManager s)\<rparr>)"

definition renew_as_leader :: "('n, 'c) raft_lib \<Rightarrow> int \<Rightarrow> ('s, 'n, 'c, 'h, 'm) raftNodeRocks \<Rightarrow> ('s, 'n, 'c, 'h, 'm) raftNodeRocks" where
  "renew_as_leader lib now s =
     (if cfg_LeaseRead (rn_cfg s) \<and> (case rn_leaseManager s of None \<Rightarrow> False | Some lm \<Rightarrow> lm_IsLeader lm) then tryRenewLease lib now s else s)"

definition lease_tick :: "('n, 'c) raft_lib \<Rightarrow> int \<Rightarrow> ('s, 'n, 'c, 'h, 'm) raftNodeRocks \<Rightarrow> ('s, 'n, 'c, 'h, 'm) raftNodeRocks" where
  "lease_tick lib now s =
     (if cfg_LeaseRead (rn_cfg s) \<and> (case rn_leaseManager s of None \<Rightarrow> False | Some lm \<Rightarrow> lm_IsLeader lm) \<and> length (lib_RecentActive lib (rn_node s)) = 1
      then tryRenewLease lib now s else s)"

definition role_changed :: "bool option \<Rightarrow> ('s, 'n, 'c, 'h, 'm) raftNodeRocks \<Rightarrow> ('s, 'n, 'c, 'h, 'm) raftNodeRocks" where
  "role_changed softState s =
     (case softState of
        None \<Rightarrow> s
      | Some leader \<Rightarrow>
          if cfg_LeaseRead (rn_cfg s) then s\<lparr>rn_leaseManager := map_option (if leader then OnBecomeLeader else OnBecomeFollower) (rn_leaseManager s)\<rparr> else s)"

section \<open>The loop\<close>

record ('c, 'h, 'm) Ready =
  rd_SoftState :: "bool option"
  rd_HardState :: 'h
  rd_Entries :: "entry list"
  rd_Snapshot :: "'c raft_snapshot"
  rd_CommittedEntries :: "entry list"
  rd_Messages :: "('c, 'm) raft_message list"

definition processMessages :: "'c \<Rightarrow> ('c, 'm) raft_message list \<Rightarrow> ('c, 'm) raft_message list" where
  "processMessages cs ms = map (\<lambda>m. if ms_IsSnap m then m\<lparr>ms_ConfState := cs\<rparr> else m) ms"

text \<open>What the surroundings answer while one Ready is handled.\<close>

record surroundings =
  sr_io :: io
  sr_fileFails :: bool
  sr_stopping :: bool
  sr_order :: read_order
  sr_snapData :: "string option"
  sr_now :: int

definition store_hard_state :: "io \<Rightarrow> 'd rocks \<Rightarrow> (entry_body, 'c, 'h) raft_codec \<Rightarrow> 'h \<Rightarrow> ('d RocksDBStorage, 'n, 'c, 'h, 'm) raftNodeRocks \<Rightarrow> ('d RocksDBStorage, 'n, 'c, 'h, 'm) raftNodeRocks node_outcome" where
  "store_hard_state io D C hs s =
     (if hs = hs_zero C then Running s
      else case SetHardState io D C hs (rn_raftStorage s) of
             (st, Inl e) \<Rightarrow> Fatal
           | (st, Inr u) \<Rightarrow> Running (s\<lparr>rn_raftStorage := st\<rparr>))"

definition store_snapshot :: "io \<Rightarrow> 'd rocks \<Rightarrow> (entry_body, 'c, 'h) raft_codec \<Rightarrow> bool \<Rightarrow> 'c raft_snapshot \<Rightarrow> ('d RocksDBStorage, 'n, 'c, 'h, 'm) raftNodeRocks \<Rightarrow> ('d RocksDBStorage, 'n, 'c, 'h, 'm) raftNodeRocks node_outcome" where
  "store_snapshot io D C fileFails snap s =
     (if IsEmptySnap C snap then Running s
      else case log_ApplySnapshot io D C snap (rn_raftStorage s) of
             (st, Inl e) \<Rightarrow> Fatal
           | (st, Inr u) \<Rightarrow>
               (case saveSnap fileFails snap (s\<lparr>rn_raftStorage := st\<rparr>) of
                  None \<Rightarrow> Fatal
                | Some s1 \<Rightarrow> publishSnapshot C snap s1))"

definition store_entries :: "io \<Rightarrow> 'd rocks \<Rightarrow> (entry_body, 'c, 'h) raft_codec \<Rightarrow> entry list \<Rightarrow> ('d RocksDBStorage, 'n, 'c, 'h, 'm) raftNodeRocks \<Rightarrow> ('d RocksDBStorage, 'n, 'c, 'h, 'm) raftNodeRocks node_outcome" where
  "store_entries io D C ents s =
     (if ents = [] then Running s
      else case log_Append io D C ents (rn_raftStorage s) of
             (st, Inl e) \<Rightarrow> Fatal
           | (st, Inr u) \<Rightarrow> Running (s\<lparr>rn_raftStorage := st\<rparr>))"

definition apply_committed ::
    "('n, 'c) raft_lib \<Rightarrow> 'd rocks \<Rightarrow> (entry_body, 'c, 'h) raft_codec \<Rightarrow> surroundings \<Rightarrow> entry list \<Rightarrow> ('d RocksDBStorage, 'n, 'c, 'h, 'm) raftNodeRocks \<Rightarrow> ('d RocksDBStorage, 'n, 'c, 'h, 'm) raftNodeRocks node_outcome" where
  "apply_committed lib D C w ents s =
     next_step (\<lambda>nents.
       case publishEntries lib (sr_order w) (sr_stopping w) nents s of
         (s1, None) \<Rightarrow> Stopped (emit [NodeStop] s1)
       | (s1, Some wait) \<Rightarrow>
           next_step (\<lambda>s2. Running (emit [Advance] s2))
             (maybeTriggerSnapshot (sr_io w) D C (sr_fileFails w) wait (sr_stopping w) (sr_snapData w) s1))
       (entriesToApply ents (rn_appliedIndex s))"

definition handle_Ready ::
    "('n, 'c) raft_lib \<Rightarrow> 'd rocks \<Rightarrow> (entry_body, 'c, 'h) raft_codec \<Rightarrow> surroundings \<Rightarrow> ('c, 'h, 'm) Ready \<Rightarrow> ('d RocksDBStorage, 'n, 'c, 'h, 'm) raftNodeRocks \<Rightarrow>
     ('d RocksDBStorage, 'n, 'c, 'h, 'm) raftNodeRocks node_outcome" where
  "handle_Ready lib D C w rd s =
     next_step (\<lambda>s2.
       next_step (\<lambda>s3.
         next_step (\<lambda>s4.
           apply_committed lib D C w (rd_CommittedEntries rd)
             (renew_as_leader lib (sr_now w) (emit [SendMessages (processMessages (rn_confState s4) (rd_Messages rd))] s4)))
           (store_entries (sr_io w) D C (rd_Entries rd) s3))
         (store_snapshot (sr_io w) D C (sr_fileFails w) (rd_Snapshot rd) s2))
       (store_hard_state (sr_io w) D C (rd_HardState rd) (role_changed (rd_SoftState rd) s))"

text \<open>A run of the loop over the Ready values that arrive, up to its end.\<close>

fun serve_loop ::
    "('n, 'c) raft_lib \<Rightarrow> 'd rocks \<Rightarrow> (entry_body, 'c, 'h) raft_codec \<Rightarrow> (surroundings \<times> ('c, 'h, 'm) Ready) list \<Rightarrow> ('d RocksDBStorage, 'n, 'c, 'h, 'm) raftNodeRocks \<Rightarrow>
     ('d RocksDBStorage, 'n, 'c, 'h, 'm) raftNodeRocks node_outcome" where
  "serve_loop lib D C [] s = Running s"
| "serve_loop lib D C ((w, rd) # rds) s =
     (case handle_Ready lib D C w rd s of
        Running s1 \<Rightarrow> serve_loop lib D C rds s1
      | Stopped s1 \<Rightarrow> Stopped s1
      | Fatal \<Rightarrow> Fatal
      | Panicked \<Rightarrow> Panicked)"

text \<open>The start of the loop takes its position from the stored snapshot.\<close>

definition serve_start :: "io \<Rightarrow> 'd rocks \<Rightarrow> (entry_body, 'c, 'h) raft_codec \<Rightarrow> ('d RocksDBStorage, 'n, 'c, 'h, 'm) raftNodeRocks \<Rightarrow> ('d RocksDBStorage, 'n, 'c, 'h, 'm) raftNodeRocks node_outcome" where
  "serve_start io D C s =
     (case log_Snapshot io D C (rn_raftStorage s) of
        Inl e \<Rightarrow> Panicked
      | Inr snap \<Rightarrow> Running (s\<lparr>rn_confState := sn_ConfState snap, rn_snapshotIndex := sn_Index snap, rn_appliedIndex := sn_Index snap\<rparr>))"

section \<open>Proposals\<close>

text \<open>
  The proposing goroutine reads the proposal channel (that of the batcher when batching is on) and the channel of
  membership changes until one of them is closed, and then closes the stop channel. A channel that is nil from the
  start ends it at once.
\<close>

datatype proposal_input = InProposal string | InProposalClosed | InConfChange ConfChange | InConfClosed

datatype raft_proposal = Propose string | ProposeConfChange ConfChange

fun propose_loop :: "proposal_input list \<Rightarrow> bool \<Rightarrow> bool \<Rightarrow> nat \<Rightarrow> raft_proposal list \<times> bool" where
  "propose_loop ins propOpen confOpen changes = (if \<not> (propOpen \<and> confOpen) then ([], True) else
     (case ins of
        [] \<Rightarrow> ([], False)
      | InProposal p # rest \<Rightarrow> map_prod (Cons (Propose p)) id (propose_loop rest propOpen confOpen changes)
      | InProposalClosed # rest \<Rightarrow> propose_loop rest False confOpen changes
      | InConfChange cc # rest \<Rightarrow>
          map_prod (Cons (ProposeConfChange (cc\<lparr>cc_ID := uint64_succ changes\<rparr>))) id (propose_loop rest propOpen confOpen (uint64_succ changes))
      | InConfClosed # rest \<Rightarrow> propose_loop rest propOpen False changes))"

text \<open>The second component of the result is whether the stop channel was closed.\<close>

definition serve_proposals :: "proposal_input list \<Rightarrow> node_config \<Rightarrow> raft_proposal list \<times> bool" where
  "serve_proposals ins cfg =
     (let batcher = cfg_Batch cfg \<and> \<not> cfg_Witness cfg
      in propose_loop ins (if cfg_Batch cfg then batcher else True) True 0)"

section \<open>The start\<close>

text \<open>\<open>file\<close> is the newest snapshot file; None is a failure to read it other than its absence.\<close>

definition node_loadSnapshot :: "(entry_body, 'c, 'h) raft_codec \<Rightarrow> 'c raft_snapshot option option \<Rightarrow> 'c raft_snapshot node_outcome" where
  "node_loadSnapshot C file =
     (case file of
        None \<Rightarrow> Fatal
      | Some (Some snap) \<Rightarrow> Running snap
      | Some None \<Rightarrow> Running \<lparr>sn_Index = 0, sn_Term = 0, sn_ConfState = cs_zero C, sn_Data = []\<rparr>)"

definition node_name :: "nat \<Rightarrow> string" where
  "node_name n = ''node_'' @ show_nat n"

definition initRocksDBStorage ::
    "io \<Rightarrow> 'd rocks \<Rightarrow> (entry_body, 'c, 'h) raft_codec \<Rightarrow> 'c raft_snapshot option option \<Rightarrow> nat \<Rightarrow> 'd \<Rightarrow> (log_error + 'd RocksDBStorage) node_outcome" where
  "initRocksDBStorage io D C file n db =
     (case NewRocksDBStorage io D (node_name n) db of
        (db', Inl e) \<Rightarrow> Running (Inl e)
      | (db', Inr st) \<Rightarrow>
          next_step (\<lambda>snap.
            if IsEmptySnap C snap then Running (Inr st)
            else case log_ApplySnapshot io D C snap st of
                   (st', Inl e) \<Rightarrow> Running (Inl e)
                 | (st', Inr u) \<Rightarrow> Running (Inr st'))
            (node_loadSnapshot C file))"

record lease_times =
  lt_ElectionTimeout :: int
  lt_HeartbeatInterval :: int
  lt_ClockDrift :: int

text \<open>
  The start up to the goroutines: recovery of the log, the configuration, and the lease system. The answer tells also
  whether the library is restarted with the stored state rather than started with the peers.
\<close>

definition startRaft ::
    "io \<Rightarrow> 'd rocks \<Rightarrow> (entry_body, 'c, 'h) raft_codec \<Rightarrow> ('n, 'c) raft_lib \<Rightarrow> 'c raft_snapshot option option \<Rightarrow> node_config \<Rightarrow> lease_times \<Rightarrow> int \<Rightarrow> nat \<Rightarrow> string list \<Rightarrow> bool \<Rightarrow>
     (bool \<Rightarrow> 'n) \<Rightarrow> 'd \<Rightarrow> (('d RocksDBStorage, 'n, 'c, 'h, 'm) raftNodeRocks \<times> bool) node_outcome" where
  "startRaft io D C lib file cfg lt now n peers joining newNode db =
     next_step (\<lambda>r.
       case r of
         Inl e \<Rightarrow> Fatal
       | Inr st \<Rightarrow>
           (case InitialState io D C st of
              Inl e \<Rightarrow> Fatal
            | Inr (hardState, confState) \<Rightarrow>
                let oldNode = (hardState \<noteq> hs_zero C);
                    smart = UpdateClusterSize now (DetectClusterSizeFromPeers peers) (NewSmartLeaseConfig now True);
                    lm = NewLeaseManager \<lparr>lc_ElectionTimeout = lt_ElectionTimeout lt, lc_HeartbeatTick = lt_HeartbeatInterval lt, lc_ClockDrift = lt_ClockDrift lt\<rparr>
                in Running
                     (\<lparr>rn_id = n, rn_confState = (if lib_Voters lib confState > 0 then confState else cs_zero C), rn_snapshotIndex = 0, rn_appliedIndex = 0,
                       rn_node = newNode (oldNode \<or> joining), rn_raftStorage = st, rn_snapCount = defaultSnapshotCount, rn_smartLeaseConfig = smart,
                       rn_leaseManager = (if cfg_LeaseRead cfg then Some lm else None),
                       rn_readIndexManager = (if cfg_LeaseRead cfg then Some NewReadIndexManager else None), rn_cfg = cfg,
                       rn_out = map (\<lambda>(i, p). AddPeer i p) (filter (\<lambda>(i, p). i \<noteq> n) (enumerate 1 peers))\<rparr>,
                      oldNode \<or> joining)))
       (initRocksDBStorage io D C file n db)"

text \<open>The initial snapshot of a new cluster, a moment after the start.\<close>

definition initial_snapshot ::
    "io \<Rightarrow> 'd rocks \<Rightarrow> (entry_body, 'c, 'h) raft_codec \<Rightarrow> string option \<Rightarrow> ('d RocksDBStorage, 'n, 'c, 'h, 'm) raftNodeRocks \<Rightarrow> ('d RocksDBStorage, 'n, 'c, 'h, 'm) raftNodeRocks" where
  "initial_snapshot io D C snapData s =
     (case log_Snapshot io D C (rn_raftStorage s) of
        Inl e \<Rightarrow> s
      | Inr snap \<Rightarrow>
          if IsEmptySnap C snap
          then (case snapData of
                  None \<Rightarrow> s
                | Some data \<Rightarrow> s\<lparr>rn_raftStorage := fst (CreateSnapshot io D C 0 (rn_confState s) data (rn_raftStorage s))\<rparr>)
          else s)"

end
