(* ===== verification/Raft_Node_Properties.thy ===== *)
theory Raft_Node_Properties
  imports Raft_Node Lease_Properties Raft_Log_Properties
begin

text \<open>
  What a node delivers to its store. The calls on the commit channel and on the snapshot files are replayed by a consumer;
  its contents are, after every Ready, exactly the proposals of the applied prefix of the log.
\<close>

section \<open>The consumer\<close>

text \<open>A commit appends its proposals; a nil commit loads the newest snapshot file. \<open>content\<close> says what a snapshot holds.\<close>

fun consume :: "(string \<Rightarrow> string list) \<Rightarrow> ('c, 'h, 'm) node_call \<Rightarrow> 'c raft_snapshot option \<times> string list \<Rightarrow> 'c raft_snapshot option \<times> string list" where
  "consume content (CommitData d) (f, xs) = (f, xs @ d)"
| "consume content CommitNil (f, xs) = (f, case f of Some snap \<Rightarrow> content (sn_Data snap) | None \<Rightarrow> [])"
| "consume content (SaveSnapFile snap) (f, xs) = (Some snap, xs)"
| "consume content _ st = st"

definition view :: "(string \<Rightarrow> string list) \<Rightarrow> 'c raft_snapshot option \<times> string list \<Rightarrow> ('s, 'n, 'c, 'h, 'm) raftNodeRocks \<Rightarrow> string list" where
  "view content c0 s = snd (fold (consume content) (rn_out s) c0)"

definition quiet :: "('c, 'h, 'm) node_call \<Rightarrow> bool" where
  "quiet c \<longleftrightarrow> (\<forall>content st. consume content c st = st)"

lemma quiet_simps [simp]:
  "quiet (AddPeer i p)" "quiet (RemovePeer i)" "quiet (SendMessages ms)" "quiet Advance" "quiet NodeStop" "quiet (WalSave hs es)" "quiet (WalSnapshot i t)" "quiet (WalRelease i)"
  by (auto simp: quiet_def)

lemma fold_quiet: "list_all quiet cs \<Longrightarrow> fold (consume content) cs st = st"
proof (induction cs arbitrary: st)
  case (Cons c cs)
  then have "consume content c st = st" unfolding quiet_def list.pred_inject by blast
  then show ?case using Cons by simp
qed simp

text \<open>States that differ in quiet calls only.\<close>

definition same_view :: "('s, 'n, 'c, 'h, 'm) raftNodeRocks \<Rightarrow> ('t, 'n, 'c, 'h, 'm) raftNodeRocks \<Rightarrow> bool" where
  "same_view s s' \<longleftrightarrow> (\<exists>cs. list_all quiet cs \<and> rn_out s' = rn_out s @ cs) \<and> rn_appliedIndex s' = rn_appliedIndex s \<and> rn_cfg s' = rn_cfg s"

lemma same_viewD: "same_view s s' \<Longrightarrow> view content c0 s' = view content c0 s \<and> rn_appliedIndex s' = rn_appliedIndex s \<and> rn_cfg s' = rn_cfg s"
  by (auto simp: same_view_def view_def fold_quiet)

lemma same_view_refl [simp]: "same_view s s"
  by (auto simp: same_view_def intro: exI[of _ "[]"])

lemma same_view_trans: "same_view s s1 \<Longrightarrow> same_view s1 s2 \<Longrightarrow> same_view s s2"
  by (auto simp: same_view_def)

lemma same_view_emit: "list_all quiet cs \<Longrightarrow> same_view s (emit cs s)"
  by (auto simp: same_view_def emit_def)

lemma same_view_eq: "rn_out s' = rn_out s \<Longrightarrow> rn_appliedIndex s' = rn_appliedIndex s \<Longrightarrow> rn_cfg s' = rn_cfg s \<Longrightarrow> same_view s s'"
  by (auto simp: same_view_def)

section \<open>The log\<close>

definition log_wf :: "entry list \<Rightarrow> bool" where
  "log_wf L \<longleftrightarrow> (\<forall>i < length L. en_Index (L ! i) = i + 1) \<and> length L < 2 ^ 63"

definition data_of :: "bool \<Rightarrow> entry list \<Rightarrow> string list" where
  "data_of batch es = concat (map (entry_data batch) es)"

definition slice :: "entry list \<Rightarrow> entry list \<Rightarrow> bool" where
  "slice L es \<longleftrightarrow> (\<exists>k m. es = take m (drop k L))"

lemma data_of_append [simp]: "data_of b (xs @ ys) = data_of b xs @ data_of b ys"
  by (simp add: data_of_def)

lemma slice_hd:
  assumes "log_wf L" "es = take m (drop k L)" "es \<noteq> []"
  shows "k < length L" "en_Index (hd es) = k + 1" "en_Index (last es) = k + length es" "k + length es \<le> length L"
proof -
  show k: "k < length L" using assms(2,3) by (cases "k < length L") auto
  have len: "length es = min m (length L - k)" using assms(2) by simp
  show le: "k + length es \<le> length L" using k len by simp
  have nth: "es ! i = L ! (k + i)" if "i < length es" for i using assms(2) that len k by simp
  have "hd es = L ! k" using nth[of 0] assms(3) by (simp add: hd_conv_nth)
  then show "en_Index (hd es) = k + 1" using assms(1) k by (simp add: log_wf_def)
  have "last es = L ! (k + (length es - 1))" using nth[of "length es - 1"] assms(3) by (simp add: last_conv_nth)
  moreover have "k + (length es - 1) < length L" using le assms(3) by (cases es) auto
  ultimately have "en_Index (last es) = k + (length es - 1) + 1" using assms(1) by (simp add: log_wf_def)
  then show "en_Index (last es) = k + length es" using assms(3) by (cases es) auto
qed

lemma entriesToApply_slice:
  assumes "log_wf L" "slice L ents" "applied \<le> length L" "entriesToApply ents applied = Running nents"
  shows "\<exists>m. nents = take m (drop applied L)"
proof (cases "ents = []")
  case True
  then show ?thesis using assms(4) by (auto simp: entriesToApply_def intro: exI[of _ 0])
next
  case False
  obtain k m where km: "ents = take m (drop k L)" using assms(2) by (auto simp: slice_def)
  note h = slice_hd[OF assms(1) km False]
  have L: "length L < 2 ^ 63" using assms(1) by (simp add: log_wf_def)
  have succ: "uint64_succ applied = applied + 1" using assms(3) L by (simp add: uint64_succ_def)
  have k: "k \<le> applied" using assms(4) False h(2) succ by (auto simp: entriesToApply_def Let_def split: if_splits)
  have "(applied + 2 ^ 64 - (k + 1) + 1) mod 2 ^ 64 = applied - k"
  proof -
    have "applied + 2 ^ 64 - (k + 1) + 1 = (applied - k) + 2 ^ 64" using k by simp
    then show ?thesis using assms(3) L by (simp only: mod_add_self2) simp
  qed
  then have "nents = drop (applied - k) ents"
    using assms(4) False h(2) succ k by (auto simp: entriesToApply_def Let_def split: if_splits)
  then have "nents = take (m - (applied - k)) (drop applied L)" using km k by (simp add: drop_take)
  then show ?thesis by blast
qed

section \<open>Publishing\<close>

lemma conf_change_view: "same_view s (fst (apply_conf_change lib d s))"
  by (auto simp: apply_conf_change_def Let_def emit_def same_view_def split: prod.splits ConfChangeType.splits)

lemma publish_loop_view:
  assumes "publish_loop lib es (s, data) = ((s1, data1), ok)"
  shows "same_view s s1" "ok \<Longrightarrow> data1 = data @ data_of (cfg_Batch (rn_cfg s)) es"
proof -
  have "same_view s s1 \<and> (ok \<longrightarrow> data1 = data @ data_of (cfg_Batch (rn_cfg s)) es)"
    using assms
  proof (induction es arbitrary: s data)
    case Nil
    then show ?case by (auto simp: data_of_def)
  next
    case (Cons e es)
    show ?case
    proof (cases "eb_Type (en_Rest e)")
      case EntryNormal
      then have "publish_loop lib es (s, data @ entry_data (cfg_Batch (rn_cfg s)) e) = ((s1, data1), ok)" using Cons.prems by simp
      from Cons.IH[OF this] show ?thesis by (simp add: data_of_def)
    next
      case EntryConfChange
      obtain s' b where c: "apply_conf_change lib (eb_Data (en_Rest e)) s = (s', b)" by force
      have v: "same_view s s'" using conf_change_view[of s lib "eb_Data (en_Rest e)"] c by simp
      have d: "entry_data (cfg_Batch (rn_cfg s)) e = []" using EntryConfChange by (simp add: entry_data_def)
      show ?thesis
      proof (cases b)
        case True
        then have "publish_loop lib es (s', data) = ((s1, data1), ok)" using Cons.prems EntryConfChange c by simp
        from Cons.IH[OF this] show ?thesis using v d same_viewD[OF v] by (auto simp: data_of_def intro: same_view_trans)
      next
        case False
        then show ?thesis using Cons.prems EntryConfChange c v by auto
      qed
    next
      case EntryConfChangeV2
      then have "publish_loop lib es (s, data) = ((s1, data1), ok)" using Cons.prems by simp
      moreover have "entry_data (cfg_Batch (rn_cfg s)) e = []" using EntryConfChangeV2 by (simp add: entry_data_def)
      ultimately show ?thesis using Cons.IH by (simp add: data_of_def)
    qed
  qed
  then show "same_view s s1" "ok \<Longrightarrow> data1 = data @ data_of (cfg_Batch (rn_cfg s)) es" by auto
qed

text \<open>The invariant: the consumer holds the proposals of the applied prefix.\<close>

definition delivered :: "(string \<Rightarrow> string list) \<Rightarrow> 'c raft_snapshot option \<times> string list \<Rightarrow> entry list \<Rightarrow> ('s, 'n, 'c, 'h, 'm) raftNodeRocks \<Rightarrow> bool" where
  "delivered content c0 L s \<longleftrightarrow> rn_appliedIndex s \<le> length L \<and> \<not> cfg_Witness (rn_cfg s) \<and>
     view content c0 s = data_of (cfg_Batch (rn_cfg s)) (take (rn_appliedIndex s) L)"

lemma delivered_same: "delivered content c0 L s \<Longrightarrow> same_view s s' \<Longrightarrow> delivered content c0 L s'"
  using same_viewD[of s s' content c0] by (auto simp: delivered_def)

lemma publishEntries_delivered:
  assumes L: "log_wf L" and d: "delivered content c0 L s" and n: "nents = take m (drop (rn_appliedIndex s) L)"
    and p: "publishEntries lib order stopping nents s = (s1, r)"
  shows "delivered content c0 L s1 \<and> rn_appliedIndex s \<le> rn_appliedIndex s1 \<and> rn_cfg s1 = rn_cfg s"
proof (cases "nents = []")
  case True
  then show ?thesis using p d by (auto simp: publishEntries_def)
next
  case False
  have w: "\<not> isWitness s" using d by (simp add: delivered_def isWitness_def)
  obtain s2 data ok where l: "publish_loop lib nents (s, []) = ((s2, data), ok)" by (metis surj_pair)
  note v = publish_loop_view[OF l]
  have d2: "delivered content c0 L s2" by (rule delivered_same[OF d v(1)])
  note sv = same_viewD[OF v(1), of content c0]
  show ?thesis
  proof (cases "ok \<and> \<not> (data \<noteq> [] \<and> stopping)")
    case False
    then have "s1 = s2" using p \<open>nents \<noteq> []\<close> w l by (auto simp: publishEntries_def split: bool.splits if_splits)
    then show ?thesis using d2 sv by simp
  next
    case True
    note h = slice_hd[OF L n \<open>nents \<noteq> []\<close>]
    have data: "data = data_of (cfg_Batch (rn_cfg s)) nents" using v(2) True by simp
    have idx: "en_Index (last nents) = rn_appliedIndex s + length nents" by (rule h(3))
    have s1: "rn_out s1 = rn_out s2 @ (if data \<noteq> [] then [CommitData data] else [])" "rn_appliedIndex s1 = rn_appliedIndex s + length nents" "rn_cfg s1 = rn_cfg s2"
      using p \<open>nents \<noteq> []\<close> w l True idx by (auto simp: publishEntries_def Let_def emit_def split: if_splits)
    have "view content c0 s1 = view content c0 s2 @ data"
      unfolding view_def s1(1) by (cases "fold (consume content) (rn_out s2) c0") auto
    also have "\<dots> = data_of (cfg_Batch (rn_cfg s)) (take (rn_appliedIndex s) L) @ data_of (cfg_Batch (rn_cfg s)) nents"
      using d2 sv data by (simp add: delivered_def)
    also have "\<dots> = data_of (cfg_Batch (rn_cfg s)) (take (rn_appliedIndex s + length nents) L)"
    proof -
      have "nents = take (length nents) (drop (rn_appliedIndex s) L)" unfolding n by (simp add: min_def)
      then show ?thesis by (metis data_of_append take_add)
    qed
    finally show ?thesis using s1 sv h(4) d by (simp add: delivered_def)
  qed
qed

section \<open>One Ready\<close>

lemma role_changed_view: "same_view s (role_changed x s)"
  by (rule same_view_eq) (auto simp: role_changed_def split: option.splits)

lemma renew_view: "same_view s (renew_as_leader lib now s)"
  by (rule same_view_eq) (simp_all add: renew_as_leader_def tryRenewLease_def Let_def)

lemma hard_state_view: "store_hard_state io D C hs s = Running s1 \<Longrightarrow> same_view s s1"
  by (rule same_view_eq) (auto simp: store_hard_state_def split: if_splits prod.splits sum.splits)

lemma entries_view: "store_entries io D C es s = Running s1 \<Longrightarrow> same_view s s1"
  by (rule same_view_eq) (auto simp: store_entries_def split: if_splits prod.splits sum.splits)

text \<open>What the library hands over: a slice of the log, and a snapshot of a prefix of it.\<close>

definition ready_ok :: "(entry_body, 'c, 'h) raft_codec \<Rightarrow> (string \<Rightarrow> string list) \<Rightarrow> bool \<Rightarrow> entry list \<Rightarrow> ('c, 'h, 'm) Ready \<Rightarrow> bool" where
  "ready_ok C content batch L rd \<longleftrightarrow> slice L (rd_CommittedEntries rd) \<and>
     (\<not> IsEmptySnap C (rd_Snapshot rd) \<longrightarrow> sn_Index (rd_Snapshot rd) \<le> length L \<and>
        content (sn_Data (rd_Snapshot rd)) = data_of batch (take (sn_Index (rd_Snapshot rd)) L))"

lemma snapshot_delivered:
  assumes "delivered content c0 L s" "store_snapshot io D C ff snap s = Running s1"
    "\<not> IsEmptySnap C snap \<longrightarrow> sn_Index snap \<le> length L \<and> content (sn_Data snap) = data_of (cfg_Batch (rn_cfg s)) (take (sn_Index snap) L)"
  shows "delivered content c0 L s1 \<and> rn_appliedIndex s \<le> rn_appliedIndex s1 \<and> rn_cfg s1 = rn_cfg s"
proof (cases "IsEmptySnap C snap")
  case True
  then show ?thesis using assms(1,2) by (simp add: store_snapshot_def)
next
  case False
  have s1: "rn_out s1 = rn_out s @ [SaveSnapFile snap, CommitNil]" "rn_appliedIndex s1 = sn_Index snap" "rn_cfg s1 = rn_cfg s" "rn_appliedIndex s < sn_Index snap"
    using assms(2) False by (auto simp: store_snapshot_def saveSnap_def publishSnapshot_def emit_def split: prod.splits sum.splits if_splits)
  have "view content c0 s1 = content (sn_Data snap)"
    unfolding view_def s1(1) by (cases "fold (consume content) (rn_out s) c0") simp
  then show ?thesis using assms(1,3) False s1 by (simp add: delivered_def)
qed

lemma trigger_snapshot_delivered:
  assumes "delivered content c0 L s" "maybeTriggerSnapshot io D C ff wait stopping sd s = Running s1"
  shows "delivered content c0 L s1 \<and> rn_appliedIndex s1 = rn_appliedIndex s \<and> rn_cfg s1 = rn_cfg s"
proof -
  have "(s1 = s \<or> (\<exists>snap. rn_out s1 = rn_out s @ [SaveSnapFile snap])) \<and> rn_appliedIndex s1 = rn_appliedIndex s \<and> rn_cfg s1 = rn_cfg s"
    using assms(2) by (auto simp: maybeTriggerSnapshot_def saveSnap_def emit_def Let_def split: if_splits option.splits prod.splits sum.splits)
  moreover have "view content c0 s1 = view content c0 s" if "rn_out s1 = rn_out s @ [SaveSnapFile snap]" for snap
    unfolding view_def that by (cases "fold (consume content) (rn_out s) c0") simp
  ultimately show ?thesis using assms(1) by (auto simp: delivered_def)
qed

lemma apply_committed_delivered:
  assumes L: "log_wf L" and d: "delivered content c0 L s" and sl: "slice L ents"
    and a: "apply_committed lib D C w ents s = Running s1 \<or> apply_committed lib D C w ents s = Stopped s1"
  shows "delivered content c0 L s1 \<and> rn_appliedIndex s \<le> rn_appliedIndex s1 \<and> rn_cfg s1 = rn_cfg s"
proof -
  obtain nents where e: "entriesToApply ents (rn_appliedIndex s) = Running nents"
    using a unfolding apply_committed_def by (cases "entriesToApply ents (rn_appliedIndex s)") auto
  obtain s2 r where p: "publishEntries lib (sr_order w) (sr_stopping w) nents s = (s2, r)" by force
  have "rn_appliedIndex s \<le> length L" using d by (simp add: delivered_def)
  then obtain m where "nents = take m (drop (rn_appliedIndex s) L)" using entriesToApply_slice[OF L sl _ e] by blast
  note d2 = publishEntries_delivered[OF L d this p]
  show ?thesis
  proof (cases r)
    case None
    then have "s1 = emit [NodeStop] s2" using a e p by (auto simp: apply_committed_def)
    then show ?thesis using d2 delivered_same[OF _ same_view_emit[of "[NodeStop]" s2], of content c0 L] by (simp add: emit_def)
  next
    case (Some wait)
    obtain s3 where t: "maybeTriggerSnapshot (sr_io w) D C (sr_fileFails w) wait (sr_stopping w) (sr_snapData w) s2 = Running s3" "s1 = emit [Advance] s3"
      using a e p Some unfolding apply_committed_def
      by (cases "maybeTriggerSnapshot (sr_io w) D C (sr_fileFails w) wait (sr_stopping w) (sr_snapData w) s2") auto
    have d3: "delivered content c0 L s3 \<and> rn_appliedIndex s3 = rn_appliedIndex s2 \<and> rn_cfg s3 = rn_cfg s2"
      by (rule trigger_snapshot_delivered[OF _ t(1)]) (use d2 in simp)
    then show ?thesis using d2 t(2) delivered_same[OF _ same_view_emit[of "[Advance]" s3], of content c0 L] by (simp add: emit_def)
  qed
qed

lemma next_step_cases:
  assumes "next_step f r = Running s \<or> next_step f r = Stopped s"
  obtains x where "r = Running x" "f x = Running s \<or> f x = Stopped s"
  using assms by (cases r) auto

lemma handle_Ready_delivered:
  assumes L: "log_wf L" and d: "delivered content c0 L s" and ok: "ready_ok C content (cfg_Batch (rn_cfg s)) L rd"
    and h: "handle_Ready lib D C w rd s = Running s1 \<or> handle_Ready lib D C w rd s = Stopped s1"
  shows "delivered content c0 L s1 \<and> rn_appliedIndex s \<le> rn_appliedIndex s1 \<and> rn_cfg s1 = rn_cfg s"
proof -
  let ?s = "role_changed (rd_SoftState rd) s"
  note v0 = role_changed_view[of s "rd_SoftState rd"]
  from h obtain s2 s3 s4 where st: "store_hard_state (sr_io w) D C (rd_HardState rd) ?s = Running s2"
    "store_snapshot (sr_io w) D C (sr_fileFails w) (rd_Snapshot rd) s2 = Running s3" "store_entries (sr_io w) D C (rd_Entries rd) s3 = Running s4"
    "apply_committed lib D C w (rd_CommittedEntries rd)
       (renew_as_leader lib (sr_now w) (emit [SendMessages (processMessages (rn_confState s4) (rd_Messages rd))] s4)) = Running s1 \<or>
     apply_committed lib D C w (rd_CommittedEntries rd)
       (renew_as_leader lib (sr_now w) (emit [SendMessages (processMessages (rn_confState s4) (rd_Messages rd))] s4)) = Stopped s1"
    unfolding handle_Ready_def by (elim next_step_cases) blast
  have v2: "same_view s s2" by (rule same_view_trans[OF v0 hard_state_view[OF st(1)]])
  have d2: "delivered content c0 L s2" by (rule delivered_same[OF d v2])
  have c2: "rn_cfg s2 = rn_cfg s" "rn_appliedIndex s2 = rn_appliedIndex s" using same_viewD[OF v2] by auto
  have d3: "delivered content c0 L s3 \<and> rn_appliedIndex s2 \<le> rn_appliedIndex s3 \<and> rn_cfg s3 = rn_cfg s2"
    by (rule snapshot_delivered[OF d2 st(2)]) (use ok c2 in \<open>auto simp: ready_ok_def\<close>)
  let ?e = "emit [SendMessages (processMessages (rn_confState s4) (rd_Messages rd))] s4"
  have v: "same_view s3 (renew_as_leader lib (sr_now w) ?e)"
    by (rule same_view_trans[OF entries_view[OF st(3)] same_view_trans[OF same_view_emit renew_view]]) simp
  have d4: "delivered content c0 L (renew_as_leader lib (sr_now w) ?e)" using delivered_same[OF conjunct1[OF d3] v] .
  have sl: "slice L (rd_CommittedEntries rd)" using ok by (simp add: ready_ok_def)
  from apply_committed_delivered[OF L d4 sl st(4)] same_viewD[OF v] d3 c2 show ?thesis by auto
qed


text \<open>A small cluster for the examples: entries are stored as their data, and the library keeps no state.\<close>

definition node_codec :: "(entry_body, unit, unit) raft_codec" where
  "node_codec =
     \<lparr>ent_Marshal = (\<lambda>e. if en_Term e < 2 ^ 64 \<and> en_Index e < 2 ^ 64
        then Some (PutUint64 (en_Term e) @ PutUint64 (en_Index e) @ (case eb_Type (en_Rest e) of EntryNormal \<Rightarrow> ''n'' | EntryConfChange \<Rightarrow> ''c'' | EntryConfChangeV2 \<Rightarrow> ''v'') @ eb_Data (en_Rest e))
        else None),
      ent_Unmarshal = (\<lambda>s. if length s < 17 then None else Some \<lparr>en_Term = Uint64 (take 8 s), en_Index = Uint64 (take 8 (drop 8 s)),
        en_Rest = \<lparr>eb_Type = (if s ! 16 = CHR ''n'' then EntryNormal else if s ! 16 = CHR ''c'' then EntryConfChange else EntryConfChangeV2), eb_Data = drop 17 s\<rparr>\<rparr>),
      ent_Size = (\<lambda>e. 17 + length (eb_Data (en_Rest e))),
      snap_Marshal = (\<lambda>sn. Some (PutUint64 (sn_Index sn) @ PutUint64 (sn_Term sn) @ sn_Data sn)),
      snap_Unmarshal = (\<lambda>s. if length s < 16 then None else Some \<lparr>sn_Index = Uint64 s, sn_Term = Uint64 (drop 8 s), sn_ConfState = (), sn_Data = drop 16 s\<rparr>),
      IsEmptySnap = (\<lambda>sn. sn_Index sn = 0), hs_Marshal = (\<lambda>u. Some ''h''), hs_Unmarshal = (\<lambda>s. Some ()), hs_zero = (),
      cs_Marshal = (\<lambda>u. Some ''s''), cs_Unmarshal = (\<lambda>s. Some ()), cs_zero = ()\<rparr>"

definition node_lib :: "(unit, unit) raft_lib" where
  "node_lib = \<lparr>lib_Unmarshal = (\<lambda>d. \<lparr>cc_ID = 0, cc_Type = ConfChangeOther, cc_NodeID = 0, cc_Context = d\<rparr>), lib_ApplyConfChange = (\<lambda>cc n. (n, ())),
     lib_RecentActive = (\<lambda>n. [True]), lib_Voters = (\<lambda>c. 1)\<rparr>"

definition normal_entry :: "nat \<Rightarrow> string \<Rightarrow> entry" where
  "normal_entry i d = \<lparr>en_Term = 1, en_Index = i, en_Rest = \<lparr>eb_Type = EntryNormal, eb_Data = d\<rparr>\<rparr>"

definition node_at :: "nat \<Rightarrow> node_config \<Rightarrow> 'd RocksDBStorage \<Rightarrow> ('d RocksDBStorage, unit, unit, unit, unit) raftNodeRocks" where
  "node_at i cfg st =
     \<lparr>rn_id = 1, rn_confState = (), rn_snapshotIndex = i, rn_appliedIndex = i, rn_node = (), rn_raftStorage = st, rn_snapCount = defaultSnapshotCount,
      rn_smartLeaseConfig = NewSmartLeaseConfig 0 True, rn_leaseManager = None, rn_readIndexManager = None, rn_cfg = cfg, rn_out = []\<rparr>"

definition commit_ready :: "entry list \<Rightarrow> (unit, unit, unit) Ready" where
  "commit_ready es = \<lparr>rd_SoftState = None, rd_HardState = (), rd_Entries = [], rd_Snapshot = \<lparr>sn_Index = 0, sn_Term = 0, sn_ConfState = (), sn_Data = []\<rparr>,
     rd_CommittedEntries = es, rd_Messages = []\<rparr>"

definition calm :: surroundings where
  "calm = \<lparr>sr_io = good_io, sr_fileFails = False, sr_stopping = False, sr_order = id, sr_snapData = Some [], sr_now = 0\<rparr>"

definition plain_config :: node_config where
  "plain_config = \<lparr>cfg_Batch = False, cfg_LeaseRead = False, cfg_Witness = False\<rparr>"


section \<open>The proposals\<close>

text \<open>What the loop should forward: the inputs before the first closed channel, with the configuration changes numbered from one.\<close>

fun numbered :: "nat \<Rightarrow> proposal_input list \<Rightarrow> raft_proposal list" where
  "numbered k (InProposal p # ins) = Propose p # numbered k ins"
| "numbered k (InConfChange cc # ins) = ProposeConfChange (cc\<lparr>cc_ID := (k + 1) mod 2 ^ 64\<rparr>) # numbered (k + 1) ins"
| "numbered k _ = []"

fun closes :: "proposal_input \<Rightarrow> bool" where
  "closes InProposalClosed = True"
| "closes InConfClosed = True"
| "closes _ = False"

declare propose_loop.simps [simp del]

lemma propose_loop_closed: "\<not> (p \<and> c) \<Longrightarrow> propose_loop ins p c k = ([], True)"
  by (subst propose_loop.simps) simp

lemma propose_loop_open:
  "propose_loop ins True True (k mod 2 ^ 64) = (numbered k ins, list_ex closes ins)"
proof (induction ins arbitrary: k)
  case Nil
  then show ?case by (subst propose_loop.simps) simp
next
  case (Cons i ins)
  have "uint64_succ (k mod 2 ^ 64) = Suc k mod 2 ^ 64" by (simp add: uint64_succ_def mod_Suc_eq)
  then show ?case using Cons.IH[of k] Cons.IH[of "Suc k"]
    by (subst propose_loop.simps) (cases i; simp add: propose_loop_closed)
qed

text \<open>
  The proposals and the configuration changes reach the library in the order in which they arrive, the changes numbered
  one after the other, until a channel is closed, and only then is the node stopped; except on a witness node with
  batching, which has no batcher: that one forwards nothing and stops at once.
\<close>

theorem proposals_forwarded:
  "serve_proposals ins cfg = (if cfg_Batch cfg \<and> cfg_Witness cfg then ([], True) else (numbered 0 ins, list_ex closes ins))"
  using propose_loop_open[of ins 0] by (auto simp: serve_proposals_def propose_loop_closed Let_def)

section \<open>Restarting\<close>


lemma node_codec_ok: "raft_codec_ok node_codec"
proof -
  have "PutUint64 n \<noteq> []" for n
    by (metis length_PutUint(1) list.size(3) zero_neq_numeral)
  moreover have "Uint64 (PutUint64 n) = n" if "n < 2 ^ 64" for n
    using Uint64_PutUint64 [of n "[]"] that by simp
  ultimately show ?thesis
    by (auto simp: raft_codec_ok_def node_codec_def nth_append split: EntryType.splits)
qed


end
