(* ===== verification/Raft_Node_Memory.thy ===== *)
theory Raft_Node_Memory
  imports Raft_Node_Properties
begin

text \<open>
  The node with the log in memory and a write-ahead log on disk, \<open>internal/raft/node_memory.go\<close>. The log storage and the
  write-ahead log belong to the Raft library and are parameters; publishing, the lease and the proposals are those of
  the other node. This node ignores the errors of storing, and so the delivery holds as long as the snapshot
  files are written; the last section shows what happens when one is not.
\<close>

section \<open>The node\<close>

datatype compact_result = CompactDone | CompactCompacted | CompactFailed

record ('s, 'c, 'h) mem_storage =
  ms_New :: 's
  ms_ApplySnapshot :: "'c raft_snapshot \<Rightarrow> 's \<Rightarrow> 's"
  ms_SetHardState :: "'h \<Rightarrow> 's \<Rightarrow> 's"
  ms_Append :: "entry list \<Rightarrow> 's \<Rightarrow> 's"
  ms_CreateSnapshot :: "nat \<Rightarrow> 'c \<Rightarrow> string \<Rightarrow> 's \<Rightarrow> 's \<times> 'c raft_snapshot option"
  ms_Compact :: "nat \<Rightarrow> 's \<Rightarrow> 's \<times> compact_result"
  ms_Snapshot :: "'s \<Rightarrow> 'c raft_snapshot option"

text \<open>The snapshot file first, then the record in the write-ahead log, then the release of older segments; the answer False is an error.\<close>

definition mem_saveSnap :: "bool \<Rightarrow> bool \<Rightarrow> bool \<Rightarrow> 'c raft_snapshot \<Rightarrow> ('s, 'n, 'c, 'h, 'm) raftNodeRocks \<Rightarrow> ('s, 'n, 'c, 'h, 'm) raftNodeRocks \<times> bool" where
  "mem_saveSnap fileFails walFails releaseFails snap s =
     (if fileFails then (s, False)
      else let s1 = emit [SaveSnapFile snap] s
           in if walFails then (s1, False)
              else let s2 = emit [WalSnapshot (sn_Index snap) (sn_Term snap)] s1
                   in if releaseFails then (s2, False) else (emit [WalRelease (sn_Index snap)] s2, True))"

definition mem_maybeTriggerSnapshot ::
    "('s, 'c, 'h) mem_storage \<Rightarrow> bool \<Rightarrow> bool \<Rightarrow> bool \<Rightarrow> bool \<Rightarrow> bool \<Rightarrow> string option \<Rightarrow> ('s, 'n, 'c, 'h, 'm) raftNodeRocks \<Rightarrow> ('s, 'n, 'c, 'h, 'm) raftNodeRocks node_outcome" where
  "mem_maybeTriggerSnapshot S fileFails walFails releaseFails wait stopping snapData s =
     (if (rn_appliedIndex s + 2 ^ 64 - rn_snapshotIndex s) mod 2 ^ 64 \<le> rn_snapCount s then Running s
      else if wait \<and> stopping then Running s
      else
        case snapData of
          None \<Rightarrow> Panicked
        | Some data \<Rightarrow>
            (case ms_CreateSnapshot S (rn_appliedIndex s) (rn_confState s) data (rn_raftStorage s) of
               (st, None) \<Rightarrow> Panicked
             | (st, Some snap) \<Rightarrow>
                 (case mem_saveSnap fileFails walFails releaseFails snap (s\<lparr>rn_raftStorage := st\<rparr>) of
                    (s1, False) \<Rightarrow> Panicked
                  | (s1, True) \<Rightarrow>
                      let compactIndex = (if rn_appliedIndex s1 > snapshotCatchUpEntriesN then rn_appliedIndex s1 - snapshotCatchUpEntriesN else 1)
                      in case ms_Compact S compactIndex (rn_raftStorage s1) of
                           (st', out) \<Rightarrow>
                             if out = CompactFailed then Panicked
                             else Running (s1\<lparr>rn_raftStorage := st', rn_snapshotIndex := rn_appliedIndex s1\<rparr>))))"

record mem_surroundings =
  mr_fileFails :: bool
  mr_walFails :: bool
  mr_releaseFails :: bool
  mr_stopping :: bool
  mr_order :: read_order
  mr_snapData :: "string option"
  mr_now :: int

definition mem_store_snapshot ::
    "('s, 'c, 'h) mem_storage \<Rightarrow> (entry_body, 'c, 'h) raft_codec \<Rightarrow> mem_surroundings \<Rightarrow> ('c, 'h, 'm) Ready \<Rightarrow> ('s, 'n, 'c, 'h, 'm) raftNodeRocks \<Rightarrow> ('s, 'n, 'c, 'h, 'm) raftNodeRocks node_outcome" where
  "mem_store_snapshot S C w rd s =
     (let snap = rd_Snapshot rd;
          s1 = (if \<not> IsEmptySnap C snap then fst (mem_saveSnap (mr_fileFails w) (mr_walFails w) (mr_releaseFails w) snap s) else s);
          s2 = emit [WalSave (rd_HardState rd) (rd_Entries rd)] s1
      in if \<not> IsEmptySnap C snap then publishSnapshot C snap (s2\<lparr>rn_raftStorage := ms_ApplySnapshot S snap (rn_raftStorage s2)\<rparr>) else Running s2)"

definition mem_apply_committed ::
    "('n, 'c) raft_lib \<Rightarrow> ('s, 'c, 'h) mem_storage \<Rightarrow> mem_surroundings \<Rightarrow> entry list \<Rightarrow> ('s, 'n, 'c, 'h, 'm) raftNodeRocks \<Rightarrow> ('s, 'n, 'c, 'h, 'm) raftNodeRocks node_outcome" where
  "mem_apply_committed lib S w ents s =
     next_step (\<lambda>nents.
       case publishEntries lib (mr_order w) (mr_stopping w) nents s of
         (s1, None) \<Rightarrow> Stopped (emit [NodeStop] s1)
       | (s1, Some wait) \<Rightarrow>
           next_step (\<lambda>s2. Running (emit [Advance] s2))
             (mem_maybeTriggerSnapshot S (mr_fileFails w) (mr_walFails w) (mr_releaseFails w) wait (mr_stopping w) (mr_snapData w) s1))
       (entriesToApply ents (rn_appliedIndex s))"

definition mem_handle_Ready ::
    "('n, 'c) raft_lib \<Rightarrow> ('s, 'c, 'h) mem_storage \<Rightarrow> (entry_body, 'c, 'h) raft_codec \<Rightarrow> mem_surroundings \<Rightarrow> ('c, 'h, 'm) Ready \<Rightarrow> ('s, 'n, 'c, 'h, 'm) raftNodeRocks \<Rightarrow>
     ('s, 'n, 'c, 'h, 'm) raftNodeRocks node_outcome" where
  "mem_handle_Ready lib S C w rd s =
     next_step (\<lambda>s1.
       let s2 = s1\<lparr>rn_raftStorage := ms_Append S (rd_Entries rd) (rn_raftStorage s1)\<rparr>;
           s3 = emit [SendMessages (processMessages (rn_confState s2) (rd_Messages rd))] s2
       in mem_apply_committed lib S w (rd_CommittedEntries rd) (renew_as_leader lib (mr_now w) s3))
       (mem_store_snapshot S C w rd (role_changed (rd_SoftState rd) s))"

fun mem_serve_loop ::
    "('n, 'c) raft_lib \<Rightarrow> ('s, 'c, 'h) mem_storage \<Rightarrow> (entry_body, 'c, 'h) raft_codec \<Rightarrow> (mem_surroundings \<times> ('c, 'h, 'm) Ready) list \<Rightarrow> ('s, 'n, 'c, 'h, 'm) raftNodeRocks \<Rightarrow>
     ('s, 'n, 'c, 'h, 'm) raftNodeRocks node_outcome" where
  "mem_serve_loop lib S C [] s = Running s"
| "mem_serve_loop lib S C ((w, rd) # rds) s =
     (case mem_handle_Ready lib S C w rd s of
        Running s1 \<Rightarrow> mem_serve_loop lib S C rds s1
      | Stopped s1 \<Rightarrow> Stopped s1
      | Fatal \<Rightarrow> Fatal
      | Panicked \<Rightarrow> Panicked)"

definition mem_serve_start :: "('s, 'c, 'h) mem_storage \<Rightarrow> ('s, 'n, 'c, 'h, 'm) raftNodeRocks \<Rightarrow> ('s, 'n, 'c, 'h, 'm) raftNodeRocks node_outcome" where
  "mem_serve_start S s =
     (case ms_Snapshot S (rn_raftStorage s) of
        None \<Rightarrow> Panicked
      | Some snap \<Rightarrow> Running (s\<lparr>rn_confState := sn_ConfState snap, rn_snapshotIndex := sn_Index snap, rn_appliedIndex := sn_Index snap\<rparr>))"

text \<open>
  Recovery: \<open>walExists\<close> tells whether there is a write-ahead log, \<open>newest\<close> is the newest snapshot file that it names (None an
  error) and \<open>contents\<close> the hard state and the entries read from it (None an error).
\<close>

definition mem_loadSnapshot :: "(entry_body, 'c, 'h) raft_codec \<Rightarrow> bool \<Rightarrow> 'c raft_snapshot option option \<Rightarrow> 'c raft_snapshot option node_outcome" where
  "mem_loadSnapshot C walExists newest =
     (if walExists then (case newest of None \<Rightarrow> Fatal | Some sn \<Rightarrow> Running sn)
      else Running (Some \<lparr>sn_Index = 0, sn_Term = 0, sn_ConfState = cs_zero C, sn_Data = []\<rparr>))"

definition replayWAL ::
    "('s, 'c, 'h) mem_storage \<Rightarrow> (entry_body, 'c, 'h) raft_codec \<Rightarrow> bool \<Rightarrow> 'c raft_snapshot option option \<Rightarrow> ('h \<times> entry list) option \<Rightarrow> 's node_outcome" where
  "replayWAL S C walExists newest contents =
     next_step (\<lambda>snapshot.
       case contents of
         None \<Rightarrow> Fatal
       | Some (hs, ents) \<Rightarrow>
           let st1 = (case snapshot of None \<Rightarrow> ms_New S | Some sn \<Rightarrow> ms_ApplySnapshot S sn (ms_New S))
           in Running (ms_Append S ents (ms_SetHardState S hs st1)))
       (mem_loadSnapshot C walExists newest)"

section \<open>Delivery\<close>

lemma mem_trigger_delivered:
  assumes "delivered content c0 L s" "mem_maybeTriggerSnapshot S ff wlf rf wait stopping sd s = Running s1"
  shows "delivered content c0 L s1 \<and> rn_appliedIndex s1 = rn_appliedIndex s \<and> rn_cfg s1 = rn_cfg s"
proof -
  have "(s1 = s \<or> (\<exists>snap i t j. rn_out s1 = rn_out s @ [SaveSnapFile snap, WalSnapshot i t, WalRelease j])) \<and> rn_appliedIndex s1 = rn_appliedIndex s \<and> rn_cfg s1 = rn_cfg s"
    using assms(2) by (auto simp: mem_maybeTriggerSnapshot_def mem_saveSnap_def emit_def Let_def split: if_splits option.splits prod.splits)
  moreover have "view content c0 s1 = view content c0 s" if "rn_out s1 = rn_out s @ [SaveSnapFile snap, WalSnapshot i t, WalRelease j]" for snap i t j
    unfolding view_def that by (cases "fold (consume content) (rn_out s) c0") simp
  ultimately show ?thesis using assms(1) by (auto simp: delivered_def)
qed

lemma mem_apply_committed_delivered:
  assumes L: "log_wf L" and d: "delivered content c0 L s" and sl: "slice L ents"
    and a: "mem_apply_committed lib S w ents s = Running s1 \<or> mem_apply_committed lib S w ents s = Stopped s1"
  shows "delivered content c0 L s1 \<and> rn_appliedIndex s \<le> rn_appliedIndex s1 \<and> rn_cfg s1 = rn_cfg s"
proof -
  obtain nents where e: "entriesToApply ents (rn_appliedIndex s) = Running nents"
    using a unfolding mem_apply_committed_def by (cases "entriesToApply ents (rn_appliedIndex s)") auto
  obtain s2 r where p: "publishEntries lib (mr_order w) (mr_stopping w) nents s = (s2, r)" by force
  have "rn_appliedIndex s \<le> length L" using d by (simp add: delivered_def)
  then obtain m where "nents = take m (drop (rn_appliedIndex s) L)" using entriesToApply_slice[OF L sl _ e] by blast
  note d2 = publishEntries_delivered[OF L d this p]
  show ?thesis
  proof (cases r)
    case None
    then have "s1 = emit [NodeStop] s2" using a e p by (auto simp: mem_apply_committed_def)
    then show ?thesis using d2 delivered_same[OF _ same_view_emit[of "[NodeStop]" s2], of content c0 L] by (simp add: emit_def)
  next
    case (Some wait)
    obtain s3 where t: "mem_maybeTriggerSnapshot S (mr_fileFails w) (mr_walFails w) (mr_releaseFails w) wait (mr_stopping w) (mr_snapData w) s2 = Running s3" "s1 = emit [Advance] s3"
      using a e p Some unfolding mem_apply_committed_def
      by (cases "mem_maybeTriggerSnapshot S (mr_fileFails w) (mr_walFails w) (mr_releaseFails w) wait (mr_stopping w) (mr_snapData w) s2") auto
    have d3: "delivered content c0 L s3 \<and> rn_appliedIndex s3 = rn_appliedIndex s2 \<and> rn_cfg s3 = rn_cfg s2"
      by (rule mem_trigger_delivered[OF _ t(1)]) (use d2 in simp)
    then show ?thesis using d2 t(2) delivered_same[OF _ same_view_emit[of "[Advance]" s3], of content c0 L] by (simp add: emit_def)
  qed
qed

lemma mem_snapshot_delivered:
  assumes "delivered content c0 L s" "mem_store_snapshot S C w rd s = Running s1" "\<not> mr_fileFails w" "ready_ok C content (cfg_Batch (rn_cfg s)) L rd"
  shows "delivered content c0 L s1 \<and> rn_appliedIndex s \<le> rn_appliedIndex s1 \<and> rn_cfg s1 = rn_cfg s"
proof (cases "IsEmptySnap C (rd_Snapshot rd)")
  case True
  then have "s1 = emit [WalSave (rd_HardState rd) (rd_Entries rd)] s" using assms(2) by (simp add: mem_store_snapshot_def Let_def)
  then show ?thesis using delivered_same[OF assms(1) same_view_emit[of "[WalSave (rd_HardState rd) (rd_Entries rd)]" s]] by (simp add: emit_def)
next
  case False
  let ?sn = "rd_Snapshot rd"
  let ?cs = "(if mr_walFails w then [] else WalSnapshot (sn_Index ?sn) (sn_Term ?sn) # (if mr_releaseFails w then [] else [WalRelease (sn_Index ?sn)])) @ [WalSave (rd_HardState rd) (rd_Entries rd)]"
  have s1: "rn_out s1 = rn_out s @ SaveSnapFile ?sn # ?cs @ [CommitNil]" "rn_appliedIndex s1 = sn_Index ?sn" "rn_cfg s1 = rn_cfg s" "rn_appliedIndex s < sn_Index ?sn"
    using assms(2,3) False by (auto simp: mem_store_snapshot_def mem_saveSnap_def publishSnapshot_def emit_def Let_def split: if_splits)
  have q: "list_all quiet ?cs" by simp
  have "view content c0 s1 = content (sn_Data ?sn)"
    unfolding view_def s1(1) using q by (cases "fold (consume content) (rn_out s) c0") (simp add: fold_quiet)
  then show ?thesis using assms(1,4) False s1 by (simp add: delivered_def ready_ok_def)
qed

lemma mem_handle_Ready_delivered:
  assumes L: "log_wf L" and d: "delivered content c0 L s" and ok: "ready_ok C content (cfg_Batch (rn_cfg s)) L rd" and ff: "\<not> mr_fileFails w"
    and h: "mem_handle_Ready lib S C w rd s = Running s1 \<or> mem_handle_Ready lib S C w rd s = Stopped s1"
  shows "delivered content c0 L s1 \<and> rn_appliedIndex s \<le> rn_appliedIndex s1 \<and> rn_cfg s1 = rn_cfg s"
proof -
  let ?s = "role_changed (rd_SoftState rd) s"
  note v0 = role_changed_view[of s "rd_SoftState rd"]
  have d0: "delivered content c0 L ?s" "rn_cfg ?s = rn_cfg s" "rn_appliedIndex ?s = rn_appliedIndex s" using delivered_same[OF d v0] same_viewD[OF v0] by auto
  from h obtain s2 where st: "mem_store_snapshot S C w rd ?s = Running s2"
    "let t = s2\<lparr>rn_raftStorage := ms_Append S (rd_Entries rd) (rn_raftStorage s2)\<rparr>
     in mem_apply_committed lib S w (rd_CommittedEntries rd) (renew_as_leader lib (mr_now w) (emit [SendMessages (processMessages (rn_confState t) (rd_Messages rd))] t)) = Running s1 \<or>
        mem_apply_committed lib S w (rd_CommittedEntries rd) (renew_as_leader lib (mr_now w) (emit [SendMessages (processMessages (rn_confState t) (rd_Messages rd))] t)) = Stopped s1"
    unfolding mem_handle_Ready_def Let_def by (elim next_step_cases) blast
  have d2: "delivered content c0 L s2 \<and> rn_appliedIndex ?s \<le> rn_appliedIndex s2 \<and> rn_cfg s2 = rn_cfg ?s"
    by (rule mem_snapshot_delivered[OF d0(1) st(1) ff]) (use ok d0 in simp)
  let ?t = "s2\<lparr>rn_raftStorage := ms_Append S (rd_Entries rd) (rn_raftStorage s2)\<rparr>"
  let ?e = "emit [SendMessages (processMessages (rn_confState ?t) (rd_Messages rd))] ?t"
  have v: "same_view s2 (renew_as_leader lib (mr_now w) ?e)"
    by (rule same_view_trans[OF same_view_eq same_view_trans[OF same_view_emit renew_view]]) simp_all
  have d4: "delivered content c0 L (renew_as_leader lib (mr_now w) ?e)" using delivered_same[OF conjunct1[OF d2] v] .
  have sl: "slice L (rd_CommittedEntries rd)" using ok by (simp add: ready_ok_def)
  from mem_apply_committed_delivered[OF L d4 sl st(2)[unfolded Let_def]] same_viewD[OF v] d2 d0 show ?thesis by auto
qed

text \<open>
  C35: the node with the log in memory delivers every committed entry to its store exactly once and in order, as long as the
  snapshot files it receives are written: the contents of the store are the proposals in the log up to the applied
  index, whatever the write-ahead log and the library's storage do, and the applied index never decreases.
\<close>

theorem mem_node_delivers_exactly_once:
  assumes "log_wf L" "delivered content c0 L s0"
    "\<And>w rd. (w, rd) \<in> set rds \<Longrightarrow> ready_ok C content (cfg_Batch (rn_cfg s0)) L rd \<and> \<not> mr_fileFails w"
    "mem_serve_loop lib S C rds s0 = Running s \<or> mem_serve_loop lib S C rds s0 = Stopped s"
  shows "view content c0 s = data_of (cfg_Batch (rn_cfg s)) (take (rn_appliedIndex s) L) \<and> rn_appliedIndex s0 \<le> rn_appliedIndex s \<and> rn_cfg s = rn_cfg s0"
proof -
  have "delivered content c0 L s \<and> rn_appliedIndex s0 \<le> rn_appliedIndex s \<and> rn_cfg s = rn_cfg s0"
    using assms(2-)
  proof (induction rds arbitrary: s0)
    case (Cons x rds)
    obtain w rd where x: "x = (w, rd)" by (cases x)
    have ok: "ready_ok C content (cfg_Batch (rn_cfg s0)) L rd" "\<not> mr_fileFails w" using Cons.prems(2)[of w rd] by (auto simp: x)
    show ?case
    proof (cases "mem_handle_Ready lib S C w rd s0")
      case (Running s1)
      from mem_handle_Ready_delivered[OF assms(1) Cons.prems(1) ok] Running
      have s1: "delivered content c0 L s1 \<and> rn_appliedIndex s0 \<le> rn_appliedIndex s1 \<and> rn_cfg s1 = rn_cfg s0" by blast
      have "delivered content c0 L s \<and> rn_appliedIndex s1 \<le> rn_appliedIndex s \<and> rn_cfg s = rn_cfg s1"
        by (rule Cons.IH) (use s1 Cons.prems x Running in auto)
      then show ?thesis using s1 by auto
    next
      case (Stopped s1)
      then have "s = s1" using Cons.prems(3) x by auto
      then show ?thesis using mem_handle_Ready_delivered[OF assms(1) Cons.prems(1) ok] Stopped by blast
    qed (use Cons.prems(3) x in auto)
  qed auto
  then show ?thesis by (simp add: delivered_def)
qed

text \<open>A storage that keeps its entries and its last snapshot, for the examples.\<close>

definition list_storage :: "(entry list \<times> unit raft_snapshot, unit, unit) mem_storage" where
  "list_storage =
     \<lparr>ms_New = ([], \<lparr>sn_Index = 0, sn_Term = 0, sn_ConfState = (), sn_Data = []\<rparr>), ms_ApplySnapshot = (\<lambda>sn st. ([], sn)), ms_SetHardState = (\<lambda>h st. st),
      ms_Append = (\<lambda>es st. (fst st @ es, snd st)), ms_CreateSnapshot = (\<lambda>i c d st. (st, Some \<lparr>sn_Index = i, sn_Term = 1, sn_ConfState = c, sn_Data = d\<rparr>)),
      ms_Compact = (\<lambda>i st. (st, CompactDone)), ms_Snapshot = (\<lambda>st. Some (snd st))\<rparr>"

definition mem_node_at :: "nat \<Rightarrow> node_config \<Rightarrow> (entry list \<times> unit raft_snapshot, unit, unit, unit, unit) raftNodeRocks" where
  "mem_node_at i cfg =
     \<lparr>rn_id = 1, rn_confState = (), rn_snapshotIndex = i, rn_appliedIndex = i, rn_node = (), rn_raftStorage = ms_New list_storage, rn_snapCount = defaultSnapshotCount,
      rn_smartLeaseConfig = NewSmartLeaseConfig 0 True, rn_leaseManager = None, rn_readIndexManager = None, rn_cfg = cfg, rn_out = []\<rparr>"

definition mem_calm :: "bool \<Rightarrow> mem_surroundings" where
  "mem_calm ff = \<lparr>mr_fileFails = ff, mr_walFails = False, mr_releaseFails = False, mr_stopping = False, mr_order = id, mr_snapData = Some [], mr_now = 0\<rparr>"

definition snapshot_ready :: "nat \<Rightarrow> string \<Rightarrow> (unit, unit, unit) Ready" where
  "snapshot_ready i d = \<lparr>rd_SoftState = None, rd_HardState = (), rd_Entries = [], rd_Snapshot = \<lparr>sn_Index = i, sn_Term = 1, sn_ConfState = (), sn_Data = d\<rparr>,
     rd_CommittedEntries = [], rd_Messages = []\<rparr>"

lemmas mem_example_simps = mem_handle_Ready_def role_changed_def commit_ready_def snapshot_ready_def node_codec_def mem_store_snapshot_def mem_saveSnap_def publishSnapshot_def mem_apply_committed_def
  renew_as_leader_def mem_node_at_def plain_config_def emit_def entriesToApply_def normal_entry_def uint64_succ_def publishEntries_def isWitness_def
  entry_data_def mem_maybeTriggerSnapshot_def defaultSnapshotCount_def mem_calm_def Let_def

text \<open>A snapshot of the first entry, then the rest of the log with the first entry again.\<close>

theorem mem_node_delivers_exactly_once_witness:
  "\<exists>s. mem_serve_loop node_lib list_storage node_codec
         [(mem_calm False, snapshot_ready 1 ''a''), (mem_calm False, commit_ready [normal_entry 1 ''a'', normal_entry 2 ''b''])] (mem_node_at 0 plain_config) = Running s \<and>
       view (\<lambda>d. [d]) (None, []) s = [''a'', ''b''] \<and> rn_appliedIndex s = 2"
proof -
  let ?L = "[normal_entry 1 ''a'', normal_entry 2 ''b'']"
  let ?rds = "[(mem_calm False, snapshot_ready 1 ''a''), (mem_calm False, commit_ready ?L)]"
  let ?z = "mem_node_at 0 plain_config"
  have L: "log_wf ?L" by (auto simp: log_wf_def normal_entry_def less_Suc_eq)
  have d: "delivered (\<lambda>d. [d]) (None, []) ?L ?z" by (simp add: delivered_def mem_node_at_def plain_config_def view_def data_of_def)
  have sl: "slice ?L (take 0 (drop 0 ?L))" "slice ?L (take 2 (drop 0 ?L))" unfolding slice_def by blast+
  have ok: "ready_ok node_codec (\<lambda>d. [d]) (cfg_Batch (rn_cfg ?z)) ?L rd \<and> \<not> mr_fileFails w" if "(w, rd) \<in> set ?rds" for w rd
    using that sl by (auto simp: ready_ok_def commit_ready_def snapshot_ready_def node_codec_def mem_calm_def mem_node_at_def plain_config_def data_of_def entry_data_def normal_entry_def)
  have "\<exists>s. mem_serve_loop node_lib list_storage node_codec ?rds ?z = Running s \<and> rn_appliedIndex s = 2"
    by (simp add: mem_example_simps)
  then obtain s where s: "mem_serve_loop node_lib list_storage node_codec ?rds ?z = Running s" "rn_appliedIndex s = 2" by blast
  have "view (\<lambda>d. [d]) (None, []) s = data_of (cfg_Batch (rn_cfg s)) (take (rn_appliedIndex s) ?L)" "rn_cfg s = rn_cfg ?z"
    using mem_node_delivers_exactly_once[where rds = ?rds and lib = node_lib and S = list_storage and s = s, OF L d ok] s(1) by auto
  then show ?thesis using s by (auto simp: data_of_def entry_data_def normal_entry_def mem_node_at_def plain_config_def)
qed

section \<open>An error that is ignored\<close>

text \<open>
  The error of \<open>saveSnap\<close> is dropped when a snapshot arrives: the node goes on, the applied index moves to the
  snapshot, and the store reloads whatever older snapshot file there is (none: it keeps nothing of the snapshot).
\<close>

theorem mem_snapshot_error_ignored:
  assumes "mr_fileFails w" "\<not> IsEmptySnap C (rd_Snapshot rd)" "rn_appliedIndex s < sn_Index (rd_Snapshot rd)" "rd_CommittedEntries rd = []"
  shows "\<exists>s1. mem_handle_Ready lib S C w rd s = Running s1 \<and> rn_appliedIndex s1 = sn_Index (rd_Snapshot rd) \<and>
    view content c0 s1 = (case fst (fold (consume content) (rn_out s) c0) of Some old \<Rightarrow> content (sn_Data old) | None \<Rightarrow> [])"
proof -
  let ?sn = "rd_Snapshot rd"
  let ?r = "role_changed (rd_SoftState rd) s"
  have r: "same_view s ?r" by (rule role_changed_view)
  then obtain cs where cs: "list_all quiet cs" "rn_out ?r = rn_out s @ cs" by (auto simp: same_view_def)
  have a: "rn_appliedIndex ?r = rn_appliedIndex s" using same_viewD[OF r] by auto
  obtain s2 where s2: "mem_store_snapshot S C w rd ?r = Running s2" "rn_out s2 = rn_out s @ cs @ [WalSave (rd_HardState rd) (rd_Entries rd), CommitNil]"
      "rn_appliedIndex s2 = sn_Index ?sn" "rn_snapshotIndex s2 = sn_Index ?sn"
    using assms(1-3) a cs(2) by (simp add: mem_store_snapshot_def mem_saveSnap_def publishSnapshot_def emit_def Let_def)
  let ?t = "s2\<lparr>rn_raftStorage := ms_Append S (rd_Entries rd) (rn_raftStorage s2)\<rparr>"
  let ?e = "emit [SendMessages (processMessages (rn_confState ?t) (rd_Messages rd))] ?t"
  let ?f = "renew_as_leader lib (mr_now w) ?e"
  have v: "same_view s2 ?f" by (rule same_view_trans[OF same_view_eq same_view_trans[OF same_view_emit renew_view]]) simp_all
  have i: "rn_snapshotIndex ?f = rn_snapshotIndex s2" by (simp add: renew_as_leader_def tryRenewLease_def emit_def Let_def split: option.splits)
  have f: "rn_appliedIndex ?f = sn_Index ?sn" using same_viewD[OF v] s2(3) by auto
  have "mem_handle_Ready lib S C w rd s = Running (emit [Advance] ?f)"
    using s2(1) f i s2(4) assms(4) by (simp add: mem_handle_Ready_def mem_apply_committed_def entriesToApply_def publishEntries_def mem_maybeTriggerSnapshot_def Let_def)
  moreover have "view content c0 (emit [Advance] ?f) = view content c0 s2"
    using same_viewD[OF same_view_trans[OF v same_view_emit[of "[Advance]" ?f]]] by simp
  moreover have "view content c0 s2 = (case fst (fold (consume content) (rn_out s) c0) of Some old \<Rightarrow> content (sn_Data old) | None \<Rightarrow> [])"
    unfolding view_def s2(2) using cs(1) by (cases "fold (consume content) (rn_out s) c0") (simp add: fold_quiet split: option.splits)
  ultimately show ?thesis using f by (simp add: emit_def)
qed

theorem mem_snapshot_error_ignored_witness:
  "\<exists>s1. mem_handle_Ready node_lib list_storage node_codec (mem_calm True) (snapshot_ready 5 ''abc'') (mem_node_at 0 plain_config) = Running s1 \<and>
     rn_appliedIndex s1 = 5 \<and> view (\<lambda>d. [d]) (None, []) s1 = []"
  using mem_snapshot_error_ignored[of "mem_calm True" node_codec "snapshot_ready 5 ''abc''" "mem_node_at 0 plain_config" node_lib list_storage "\<lambda>d. [d]" "(None, [])"]
  by (simp add: mem_calm_def snapshot_ready_def node_codec_def mem_node_at_def)

end
