(* ===== verification/Spec2Isabelle.thy ===== *)
theory Spec2Isabelle
  imports Memory_Node Mvcc_Properties Raft_Log_Properties Proposal_Batcher Auth_Properties Kv_Properties Rocks_Deviations Mvcc_Rocks_Deviations Lease_Properties Raft_Node_Memory
begin

text \<open>
  Verification of MetaStore, an etcd-compatible metadata store.
\<close>

end
